(* ===== verification/DHT_Prelude.thy ===== *)
theory DHT_Prelude
  imports Main "HOL-Library.Word" "HOL-Library.AList" "HOL-Library.Multiset"
begin

text \<open>
  Shared vocabulary of the development: the Go types the components exchange, Go's
  maps as association lists with distinct keys, and two interfaces as locales: finite
  maps and join semilattices of replicas.

  Conventions. A \<^verbatim>\<open>[20]byte\<close> identifier is a \<open>160 word\<close>, its array elements read
  big-endian by \<open>id_byte\<close> (theory Consistent_Hash). A Go \<^verbatim>\<open>map\<close> is an association list
  whose order is the order in which \<^verbatim>\<open>range\<close> visits it: Go leaves that order open, so
  every theorem that ranges over a map is stated for every list, and its conclusion does
  not depend on the order. A nil map or slice is the empty list; the code distinguishes
  the two only when it prints JSON. A \<^verbatim>\<open>time.Time\<close> and a \<^verbatim>\<open>time.Duration\<close> are integers
  in nanoseconds, and the current time is an argument of the operations that read it.
\<close>

unbundle bit_operations_syntax

section \<open>Types and proof collections\<close>

type_synonym byte = "8 word"
type_synonym ID = "160 word"
type_synonym u64 = "64 word"
type_synonym time = int
type_synonym duration = int

named_theorems gm_simps \<open>rewriting of lookups after updates of Go maps\<close>
named_theorems ring_simps \<open>arithmetic of positions on the identifier ring\<close>

text \<open>How a Go call ends: with a value, with an error value, or with a run-time panic.\<close>

datatype ('e, 'a) outcome = Ret 'a | Fail 'e | Panic

section \<open>Go maps\<close>

type_synonym ('k, 'v) gomap = "('k \<times> 'v) list"

definition gm_wf :: "('k, 'v) gomap \<Rightarrow> bool" where
  "gm_wf m \<longleftrightarrow> distinct (map fst m)"

definition gm_put :: "'k \<Rightarrow> 'v \<Rightarrow> ('k, 'v) gomap \<Rightarrow> ('k, 'v) gomap" where
  "gm_put k v m = AList.update k v m"

definition gm_del :: "'k \<Rightarrow> ('k, 'v) gomap \<Rightarrow> ('k, 'v) gomap" where
  "gm_del k m = AList.delete k m"

lemma map_of_gm_put [gm_simps, simp]: "map_of (gm_put k v m) = (map_of m)(k \<mapsto> v)"
  by (simp add: gm_put_def update_conv')

lemma map_of_gm_del [gm_simps, simp]: "map_of (gm_del k m) = (map_of m)(k := None)"
  by (simp add: gm_del_def delete_conv')

lemma gm_wf_Nil [simp]: "gm_wf []"
  by (simp add: gm_wf_def)

lemma gm_wf_put [simp, intro]: "gm_wf m \<Longrightarrow> gm_wf (gm_put k v m)"
  by (simp add: gm_wf_def gm_put_def distinct_update)

lemma gm_wf_del [simp, intro]: "gm_wf m \<Longrightarrow> gm_wf (gm_del k m)"
  by (simp add: gm_wf_def gm_del_def distinct_delete)

lemma gm_wf_filter [simp, intro]: "gm_wf m \<Longrightarrow> gm_wf (filter P m)"
  by (simp add: gm_wf_def distinct_map_filter)

lemma gm_wf_Cons [simp]: "gm_wf ((k, v) # m) \<longleftrightarrow> k \<notin> fst ` set m \<and> gm_wf m"
  by (auto simp: gm_wf_def)

lemma map_of_eq_Some_wf: "gm_wf m \<Longrightarrow> map_of m k = Some v \<longleftrightarrow> (k, v) \<in> set m"
  by (simp add: gm_wf_def)

lemma set_gm_put:
  "gm_wf m \<Longrightarrow> set (gm_put k v m) = insert (k, v) {p \<in> set m. fst p \<noteq> k}"
  by (rule set_eqI, rename_tac p, case_tac p)
     (auto simp: map_of_eq_Some_wf [symmetric] split: if_splits)

lemma set_gm_del: "set (gm_del k m) = {p \<in> set m. fst p \<noteq> k}"
  by (auto simp: gm_del_def AList.delete_eq)

lemma map_of_filter_key:
  assumes "gm_wf m"
  shows "map_of (filter P m) k =
    (case map_of m k of None \<Rightarrow> None | Some v \<Rightarrow> if P (k, v) then Some v else None)"
proof (cases "map_of m k")
  case None
  then have "map_of (filter P m) k = None" by (auto simp: map_of_eq_None_iff)
  with None show ?thesis by simp
next
  case (Some v)
  then have v: "(k, w) \<in> set m \<longleftrightarrow> w = v" for w
    by (metis assms map_of_eq_Some_wf option.inject)
  show ?thesis
  proof (cases "P (k, v)")
    case True
    then have "map_of (filter P m) k = Some v"
      using assms v by (simp add: map_of_eq_Some_wf)
    with True Some show ?thesis by simp
  next
    case False
    then have "map_of (filter P m) k = None"
      using v by (auto simp: map_of_eq_None_iff)
    with False Some show ?thesis by simp
  qed
qed

lemma map_of_dom_fst: "map_of m k = None \<longleftrightarrow> k \<notin> fst ` set m"
  by (rule map_of_eq_None_iff)

section \<open>Finite maps as an interface\<close>

text \<open>
  What the clients of a key-value component rely on: a write is seen under its key and
  under no other, and the component's invariant survives every write and removal.
\<close>

locale keyed_store =
  fixes put :: "'e \<Rightarrow> 's \<Rightarrow> 's"
    and del :: "'k \<Rightarrow> 's \<Rightarrow> 's"
    and get :: "'s \<Rightarrow> 'k \<Rightarrow> 'v option"
    and key :: "'e \<Rightarrow> 'k"
    and val :: "'e \<Rightarrow> 'v"
    and inv :: "'s \<Rightarrow> bool"
  assumes get_put: "inv s \<Longrightarrow> get (put e s) = (get s)(key e \<mapsto> val e)"
    and get_del: "inv s \<Longrightarrow> get (del k s) = (get s)(k := None)"
    and inv_put: "inv s \<Longrightarrow> inv (put e s)"
    and inv_del: "inv s \<Longrightarrow> inv (del k s)"
begin

lemma inv_puts: "inv s \<Longrightarrow> inv (fold put es s)"
  by (induction es arbitrary: s) (auto simp: inv_put)

text \<open>A batch of writes behaves as one overriding of the map: the last write of a key wins.\<close>

lemma get_puts: "inv s \<Longrightarrow> get (fold put es s) = get s ++ map_of (rev (map (\<lambda>e. (key e, val e)) es))"
proof (induction es arbitrary: s)
  case Nil
  then show ?case by simp
next
  case (Cons e es)
  have "get (fold put es (put e s)) = get (put e s) ++ map_of (rev (map (\<lambda>e. (key e, val e)) es))"
    using Cons.prems by (intro Cons.IH inv_put)
  then show ?case
    using Cons.prems by (auto simp: get_put map_add_def fun_eq_iff split: option.splits)
qed

lemma put_put_commute: "inv s \<Longrightarrow> key d \<noteq> key e \<Longrightarrow> get (put d (put e s)) = get (put e (put d s))"
  by (simp add: get_put inv_put fun_upd_twist)

lemma put_del_cancel: "inv s \<Longrightarrow> get (del (key e) (put e s)) = (get s)(key e := None)"
  by (simp add: get_put get_del inv_put)

text \<open>Writing back entries with the keys and values already stored changes nothing.\<close>

lemma puts_absorb:
  "inv s \<Longrightarrow> (\<And>e. e \<in> set es \<Longrightarrow> get s (key e) = Some (val e)) \<Longrightarrow> get (fold put es s) = get s"
proof (induction es arbitrary: s)
  case Nil
  then show ?case by simp
next
  case (Cons e es)
  have "get (put e s) = get s" using Cons.prems by (simp add: get_put fun_upd_idem)
  then show ?case using Cons by (simp add: inv_put)
qed

end

interpretation gm: keyed_store "\<lambda>(k, v). gm_put k v" gm_del map_of fst snd gm_wf
  by unfold_locales auto

lemma gm_del_loop:
  fixes m acc :: "('k, 'v) gomap"
  assumes "gm_wf m"
  shows "fold (\<lambda>(k, v) acc. if P k v then gm_del k acc else acc) m acc =
    filter (\<lambda>(k, v). \<forall>w. (k, w) \<in> set m \<longrightarrow> \<not> P k w) acc"
  using assms
proof (induction m arbitrary: acc)
  case Nil
  then show ?case by simp
next
  case (Cons kv m)
  obtain k v where kv: "kv = (k, v)" by (cases kv)
  have "fold (\<lambda>(k, v) acc. if P k v then gm_del k acc else acc) m acc' =
      filter (\<lambda>(k, v). \<forall>w. (k, w) \<in> set m \<longrightarrow> \<not> P k w) acc'" for acc' :: "('k, 'v) gomap"
    using Cons.prems unfolding kv gm_wf_Cons by (intro Cons.IH) blast
  moreover have "(k, w) \<notin> set m" for w using Cons.prems by (force simp: kv)
  ultimately show ?case
    by (auto simp: kv gm_del_def AList.delete_eq intro!: filter_cong)
qed

text \<open>A loop over a map that deletes the entries satisfying a test removes exactly those.\<close>

lemma gm_del_loop_self:
  assumes "gm_wf m"
  shows "fold (\<lambda>(k, v) acc. if P k v then gm_del k acc else acc) m m = filter (\<lambda>(k, v). \<not> P k v) m"
proof -
  have "(k, v) \<in> set m \<Longrightarrow> (k, w) \<in> set m \<Longrightarrow> w = v" for k v w
    using assms by (metis map_of_eq_Some_wf option.inject)
  then show ?thesis by (subst gm_del_loop [OF assms]) (auto intro!: filter_cong)
qed

text \<open>
  A loop over a map that updates an accumulator pointwise: the loops that merge one map
  into another are instances.
\<close>

lemma map_of_merge_loop:
  assumes "gm_wf b" "\<And>k v m. map_of (g k v m) = (map_of m)(k := h (map_of m k) v)"
  shows "map_of (fold (\<lambda>(k, v) m. g k v m) b m) k =
    (case map_of b k of None \<Rightarrow> map_of m k | Some v \<Rightarrow> h (map_of m k) v)"
  using assms(1)
proof (induction b arbitrary: m)
  case Nil
  then show ?case by simp
next
  case (Cons kv b)
  obtain j v where kv: "kv = (j, v)" by (cases kv)
  have j: "map_of b j = None" and "gm_wf b" using Cons.prems by (simp_all add: kv map_of_dom_fst)
  note IH = Cons.IH [OF \<open>gm_wf b\<close>, of "g j v m"]
  show ?case
  proof (cases "k = j")
    case True
    with IH j show ?thesis by (simp add: kv assms(2) [of j v m])
  next
    case False
    with IH j show ?thesis by (simp add: kv assms(2) [of j v m] split: option.split)
  qed
qed

lemma gm_wf_loop:
  assumes "\<And>k v m. gm_wf m \<Longrightarrow> gm_wf (g k v m)" "gm_wf m"
  shows "gm_wf (fold (\<lambda>(k, v) m. g k v m) b m)"
  using assms(2)
proof (induction b arbitrary: m)
  case Nil
  then show ?case by simp
next
  case (Cons kv b)
  obtain k v where kv: "kv = (k, v)" by (cases kv)
  from Cons.IH [OF assms(1) [OF Cons.prems, of k v]] show ?case by (simp add: kv)
qed

section \<open>Bounded logs\<close>

text \<open>
  A log that keeps its most recent items: appending one item drops the oldest items beyond
  the capacity. A run of appends then leaves a suffix of everything appended.
\<close>

locale bounded_log =
  fixes push :: "'r \<Rightarrow> 's \<Rightarrow> 's"
    and items :: "'s \<Rightarrow> 'r list"
    and capacity :: "'s \<Rightarrow> nat"
  assumes items_push: "0 < capacity s \<Longrightarrow> length (items s) \<le> capacity s \<Longrightarrow>
      items (push r s) = drop (Suc (length (items s)) - capacity s) (items s @ [r])"
    and capacity_push: "capacity (push r s) = capacity s"
begin

lemma bounded_push: "0 < capacity s \<Longrightarrow> length (items s) \<le> capacity s \<Longrightarrow> length (items (push r s)) \<le> capacity s"
  by (simp add: items_push)

lemma items_pushes:
  "0 < capacity s \<Longrightarrow> length (items s) \<le> capacity s \<Longrightarrow>
   items (fold push rs s) = drop (length (items s) + length rs - capacity s) (items s @ rs)"
proof (induction rs arbitrary: s)
  case Nil
  then show ?case by simp
next
  case (Cons r rs)
  let ?d = "Suc (length (items s)) - capacity s"
  have "items (fold push rs (push r s)) =
      drop (length (items (push r s)) + length rs - capacity s) (items (push r s) @ rs)"
    using Cons.prems Cons.IH [of "push r s"] bounded_push [of s r] by (simp add: capacity_push)
  also have "items (push r s) @ rs = drop ?d (items s @ r # rs)"
    using Cons.prems by (simp add: items_push)
  also have "length (items (push r s)) = Suc (length (items s)) - ?d"
    using Cons.prems by (simp add: items_push)
  finally have "items (fold push (r # rs) s) =
      drop (?d + (Suc (length (items s)) - ?d + length rs - capacity s)) (items s @ r # rs)"
    by (simp only: drop_drop fold_simps) (simp add: add.commute del: drop_append)
  moreover have "?d + (Suc (length (items s)) - ?d + length rs - capacity s) =
      length (items s) + length (r # rs) - capacity s"
    using Cons.prems by (cases "length (items s) < capacity s") auto
  ultimately show ?case by simp
qed

end

section \<open>Join semilattices of replica states\<close>

text \<open>
  The contract of a state-based merge: up to what an observer can read (\<open>obs\<close>), merging
  is commutative, associative and idempotent, and it respects observational equality.
  From it follows what replication needs: replicas that fold in the same states agree,
  whatever the order and the number of deliveries.
\<close>

locale replica_merge =
  fixes merge :: "'s \<Rightarrow> 's \<Rightarrow> 's"
    and obs :: "'s \<Rightarrow> 'o"
    and inv :: "'s \<Rightarrow> bool"
  assumes merge_inv: "inv a \<Longrightarrow> inv b \<Longrightarrow> inv (merge a b)"
    and merge_cong: "inv a \<Longrightarrow> inv a' \<Longrightarrow> inv b \<Longrightarrow> inv b' \<Longrightarrow> obs a = obs a' \<Longrightarrow> obs b = obs b' \<Longrightarrow>
        obs (merge a b) = obs (merge a' b')"
    and merge_comm: "inv a \<Longrightarrow> inv b \<Longrightarrow> obs (merge a b) = obs (merge b a)"
    and merge_assoc: "inv a \<Longrightarrow> inv b \<Longrightarrow> inv c \<Longrightarrow>
        obs (merge (merge a b) c) = obs (merge a (merge b c))"
    and merge_idem: "inv a \<Longrightarrow> obs (merge a a) = obs a"
begin

lemma fold_inv: "inv s \<Longrightarrow> \<forall>x \<in> set xs. inv x \<Longrightarrow> inv (fold (\<lambda>x s. merge s x) xs s)"
  by (induction xs arbitrary: s) (auto simp: merge_inv)

lemma fold_cong_obs:
  "inv s \<Longrightarrow> inv s' \<Longrightarrow> obs s = obs s' \<Longrightarrow> \<forall>x \<in> set xs. inv x \<Longrightarrow>
   obs (fold (\<lambda>x s. merge s x) xs s) = obs (fold (\<lambda>x s. merge s x) xs s')"
proof (induction xs arbitrary: s s')
  case Nil
  then show ?case by simp
next
  case (Cons x xs)
  have "obs (merge s x) = obs (merge s' x)"
    using Cons.prems by (intro merge_cong) auto
  with Cons.prems have "obs (fold (\<lambda>x s. merge s x) xs (merge s x)) =
      obs (fold (\<lambda>x s. merge s x) xs (merge s' x))"
    by (intro Cons.IH) (auto simp: merge_inv)
  then show ?case by simp
qed

lemma merge_left_commute:
  assumes "inv s" "inv a" "inv b"
  shows "obs (merge (merge s a) b) = obs (merge (merge s b) a)"
proof -
  have "obs (merge (merge s a) b) = obs (merge s (merge a b))"
    using assms by (intro merge_assoc)
  also have "\<dots> = obs (merge s (merge b a))"
    using assms by (intro merge_cong merge_inv merge_comm) auto
  also have "\<dots> = obs (merge (merge s b) a)"
    using assms by (intro merge_assoc [symmetric])
  finally show ?thesis .
qed

text \<open>A state can be delivered first instead of last.\<close>

lemma fold_pull:
  "inv s \<Longrightarrow> inv x \<Longrightarrow> \<forall>y \<in> set xs. inv y \<Longrightarrow>
   obs (fold (\<lambda>x s. merge s x) xs (merge s x)) = obs (merge (fold (\<lambda>x s. merge s x) xs s) x)"
proof (induction xs arbitrary: s)
  case Nil
  then show ?case by simp
next
  case (Cons y xs)
  have "obs (fold (\<lambda>x s. merge s x) xs (merge (merge s x) y)) =
      obs (fold (\<lambda>x s. merge s x) xs (merge (merge s y) x))"
    using Cons.prems by (intro fold_cong_obs merge_left_commute) (auto simp: merge_inv)
  also have "\<dots> = obs (merge (fold (\<lambda>x s. merge s x) xs (merge s y)) x)"
    using Cons.prems by (intro Cons.IH) (auto simp: merge_inv)
  finally show ?case by simp
qed

lemma fold_absorb:
  "inv s \<Longrightarrow> \<forall>y \<in> set xs. inv y \<Longrightarrow> x \<in> set xs \<Longrightarrow>
   obs (merge (fold (\<lambda>x s. merge s x) xs s) x) = obs (fold (\<lambda>x s. merge s x) xs s)"
proof (induction xs arbitrary: s)
  case Nil
  then show ?case by simp
next
  case (Cons y xs)
  let ?F = "\<lambda>t. fold (\<lambda>x s. merge s x) xs t"
  show ?case
  proof (cases "x \<in> set xs")
    case True
    then show ?thesis using Cons by (simp add: merge_inv)
  next
    case False
    with Cons.prems have [simp]: "x = y" by simp
    have i: "inv (?F s)" using Cons.prems by (intro fold_inv) auto
    have "obs (merge (?F (merge s y)) y) = obs (merge (merge (?F s) y) y)"
      using Cons.prems i by (intro merge_cong fold_pull fold_inv) (auto simp: merge_inv)
    also have "\<dots> = obs (merge (?F s) (merge y y))"
      using Cons.prems i by (intro merge_assoc) auto
    also have "\<dots> = obs (merge (?F s) y)"
      using Cons.prems i by (intro merge_cong merge_idem) (auto simp: merge_inv)
    also have "\<dots> = obs (?F (merge s y))"
      using Cons.prems by (intro fold_pull [symmetric]) auto
    finally show ?thesis by simp
  qed
qed

lemma fold_subset_absorb:
  assumes "inv s" "\<forall>y \<in> set xs. inv y" "set ys \<subseteq> set xs"
  shows "obs (fold (\<lambda>x s. merge s x) ys (fold (\<lambda>x s. merge s x) xs s)) = obs (fold (\<lambda>x s. merge s x) xs s)"
  using assms(3)
proof (induction ys rule: rev_induct)
  case Nil
  then show ?case by simp
next
  case (snoc y ys)
  let ?F = "fold (\<lambda>x s. merge s x) xs s"
  have inv: "inv ?F" "inv (fold (\<lambda>x s. merge s x) ys ?F)" "inv y"
    using assms snoc.prems by (auto intro!: fold_inv)
  have "obs (merge (fold (\<lambda>x s. merge s x) ys ?F) y) = obs (merge ?F y)"
    using snoc inv by (intro merge_cong) auto
  also have "\<dots> = obs ?F"
    using assms snoc.prems by (intro fold_absorb) auto
  finally show ?case by simp
qed

lemma fold_swap_blocks:
  assumes "inv s" "\<forall>y \<in> set xs. inv y" "\<forall>y \<in> set ys. inv y"
  shows "obs (fold (\<lambda>x s. merge s x) ys (fold (\<lambda>x s. merge s x) xs s)) =
    obs (fold (\<lambda>x s. merge s x) xs (fold (\<lambda>x s. merge s x) ys s))"
  using assms(3)
proof (induction ys rule: rev_induct)
  case Nil
  then show ?case by simp
next
  case (snoc y ys)
  let ?F = "fold (\<lambda>x s. merge s x)"
  have "obs (merge (?F ys (?F xs s)) y) = obs (merge (?F xs (?F ys s)) y)"
    using assms snoc by (intro merge_cong fold_inv snoc.IH) (auto intro!: fold_inv)
  also have "\<dots> = obs (?F xs (merge (?F ys s) y))"
    using assms snoc.prems by (intro fold_pull [symmetric]) (auto intro!: fold_inv)
  finally show ?case by simp
qed

text \<open>Strong eventual consistency: the same set of delivered states gives the same view.\<close>

theorem convergence:
  assumes "inv s" "\<forall>y \<in> set xs. inv y" "set xs = set ys"
  shows "obs (fold (\<lambda>x s. merge s x) xs s) = obs (fold (\<lambda>x s. merge s x) ys s)"
proof -
  let ?F = "fold (\<lambda>x s. merge s x)"
  have "obs (?F xs s) = obs (?F ys (?F xs s))"
    using assms by (intro fold_subset_absorb [symmetric]) auto
  also have "\<dots> = obs (?F xs (?F ys s))"
    using assms by (intro fold_swap_blocks) auto
  also have "\<dots> = obs (?F ys s)"
    using assms by (intro fold_subset_absorb) auto
  finally show ?thesis .
qed

end

end
