(* ===== verification/Go_Library.thy ===== *)
theory Go_Library
  imports DHT_Prelude
begin

text \<open>
  The parts of the Go standard library that the program calls and whose results its
  behaviour depends on: \<^verbatim>\<open>sort.Search\<close>, \<^verbatim>\<open>math/big\<close> conversions, \<^verbatim>\<open>encoding/hex\<close>, decimal
  printing and the saturating subtraction of \<^verbatim>\<open>time\<close>. Each is the library's own algorithm
  on the inputs the program passes, with the facts the components use.
\<close>

section \<open>sort.Search\<close>

text \<open>
  The binary search of \<^verbatim>\<open>sort.Search\<close>: it halves \<open>[i, j)\<close> and returns the least index at
  which the predicate holds, when the predicate is monotone.
\<close>

function search_loop :: "(nat \<Rightarrow> bool) \<Rightarrow> nat \<Rightarrow> nat \<Rightarrow> nat" where
  "search_loop f i j =
     (if i < j then
        (let h = (i + j) div 2 in if \<not> f h then search_loop f (h + 1) j else search_loop f i h)
      else i)"
  by pat_completeness auto
termination
  by (relation "measure (\<lambda>(f, i, j). j - i)") auto

declare search_loop.simps [simp del]

definition sort_Search :: "nat \<Rightarrow> (nat \<Rightarrow> bool) \<Rightarrow> nat" where
  "sort_Search n f = search_loop f 0 n"

lemma search_loop_spec:
  assumes "i \<le> j" and "\<forall>a < i. \<not> f a" and "\<forall>b \<ge> j. b < n \<longrightarrow> f b" and "j \<le> n"
    and "\<forall>a b. a \<le> b \<longrightarrow> b < n \<longrightarrow> f a \<longrightarrow> f b"
  shows "search_loop f i j \<le> n \<and> (\<forall>a < search_loop f i j. \<not> f a) \<and>
    (\<forall>b \<ge> search_loop f i j. b < n \<longrightarrow> f b)"
  using assms
proof (induction f i j rule: search_loop.induct)
  case (1 f i j)
  let ?h = "(i + j) div 2"
  show ?case
  proof (cases "i < j")
    case False
    with "1.prems" show ?thesis by (subst (1 2 3) search_loop.simps) simp
  next
    case True
    then have h: "i \<le> ?h" "?h < j" by auto
    show ?thesis
    proof (cases "f ?h")
      case True
      have "\<forall>b \<ge> ?h. b < n \<longrightarrow> f b" using "1.prems"(5) True by blast
      with "1.IH"(2) [OF \<open>i < j\<close> refl] True h "1.prems" show ?thesis
        using \<open>i < j\<close> by (subst (1 2 3) search_loop.simps) (simp add: Let_def)
    next
      case False
      have "\<forall>a < ?h + 1. \<not> f a"
      proof (intro allI impI)
        fix a assume "a < ?h + 1"
        then have "a \<le> ?h" by simp
        moreover have "?h < n" using h "1.prems"(4) by simp
        ultimately show "\<not> f a" using "1.prems"(5) False by blast
      qed
      with "1.IH"(1) [OF \<open>i < j\<close> refl] False h "1.prems" show ?thesis
        using \<open>i < j\<close> by (subst (1 2 3) search_loop.simps) (simp add: Let_def)
    qed
  qed
qed

lemma sort_Search_spec:
  assumes "\<forall>a b. a \<le> b \<longrightarrow> b < n \<longrightarrow> f a \<longrightarrow> f b"
  shows "sort_Search n f \<le> n" and "a < sort_Search n f \<Longrightarrow> \<not> f a"
    and "sort_Search n f \<le> b \<Longrightarrow> b < n \<Longrightarrow> f b"
  using search_loop_spec [of 0 n f n] assms unfolding sort_Search_def by auto

text \<open>On a sorted list the search for a key finds the split between smaller and other elements.\<close>

lemma sort_Search_sorted:
  fixes k :: "'k::linorder"
  assumes "sorted (map key xs)"
  defines "i \<equiv> sort_Search (length xs) (\<lambda>i. k \<le> key (xs ! i))"
  shows "i \<le> length xs" and "takeWhile (\<lambda>x. key x < k) xs = take i xs"
    and "dropWhile (\<lambda>x. key x < k) xs = drop i xs"
proof -
  have mono: "\<forall>a b. a \<le> b \<longrightarrow> b < length xs \<longrightarrow> k \<le> key (xs ! a) \<longrightarrow> k \<le> key (xs ! b)"
    using assms(1) by (auto simp: sorted_iff_nth_mono intro: order_trans)
  note spec = sort_Search_spec [OF mono, folded i_def]
  show "i \<le> length xs" by (rule spec(1))
  have lt: "key (xs ! a) < k" if "a < i" for a using spec(2) that by force
  have "takeWhile (\<lambda>x. key x < k) xs = take i xs"
  proof (rule takeWhile_eq_take_P_nth)
    show "\<And>j. j < i \<Longrightarrow> j < length xs \<Longrightarrow> key (xs ! j) < k" using lt by blast
    show "i < length xs \<Longrightarrow> \<not> key (xs ! i) < k" using spec(3) [of i] by force
  qed
  then show "takeWhile (\<lambda>x. key x < k) xs = take i xs" .
  then show "dropWhile (\<lambda>x. key x < k) xs = drop i xs"
    by (metis append_take_drop_id same_append_eq takeWhile_dropWhile_id)
qed

section \<open>sort.Slice\<close>

text \<open>
  Sorting by a comparison function. The library's algorithm is not stable; where the keys
  are distinct the sorted permutation is unique, and where they are not the theorems do not
  depend on how ties fall.
\<close>

fun insert_by :: "('a \<Rightarrow> 'a \<Rightarrow> bool) \<Rightarrow> 'a \<Rightarrow> 'a list \<Rightarrow> 'a list" where
  "insert_by lt x [] = [x]"
| "insert_by lt x (y # ys) = (if lt y x then y # insert_by lt x ys else x # y # ys)"

definition sort_Slice :: "('a \<Rightarrow> 'a \<Rightarrow> bool) \<Rightarrow> 'a list \<Rightarrow> 'a list" where
  "sort_Slice lt xs = foldr (insert_by lt) xs []"

lemma sort_Slice_key:
  fixes key :: "'a \<Rightarrow> 'k::linorder"
  assumes "\<And>x y. lt x y \<longleftrightarrow> key x < key y"
  shows "sort_Slice lt xs = sort_key key xs"
proof -
  have "insert_by lt x ys = insort_key key x ys" for x ys
    by (induction ys) (auto simp: assms)
  then show ?thesis by (induction xs) (simp_all add: sort_Slice_def)
qed

section \<open>math/big: bytes of a non-negative integer\<close>

definition SetBytes :: "byte list \<Rightarrow> int" where
  "SetBytes bs = foldl (\<lambda>acc b. acc * 256 + uint b) 0 bs"

fun big_Bytes :: "nat \<Rightarrow> byte list" where
  "big_Bytes n = (if n = 0 then [] else big_Bytes (n div 256) @ [of_nat n])"

declare big_Bytes.simps [simp del]

fun BitLen :: "nat \<Rightarrow> nat" where
  "BitLen n = (if n = 0 then 0 else Suc (BitLen (n div 2)))"

declare BitLen.simps [simp del]

lemma uint_drop_bit_div:
  fixes w :: "'a::len word"
  shows "uint (drop_bit n w) = uint w div 2 ^ n"
  by (simp only: unsigned_drop_bit_eq take_bit_int_eq_self [OF uint_ge_0 uint_lt2p])
     (simp add: drop_bit_eq_div)

text \<open>Comparing a number with a multiple of its base compares its leading digit.\<close>

lemma leading_digit_less:
  fixes b c k t :: int
  assumes "0 \<le> t" "t < k"
  shows "b * k + t < c * k \<longleftrightarrow> b < c"
proof (cases "b < c")
  case True
  then have "(b + 1) * k \<le> c * k" using assms by (intro mult_right_mono) auto
  with True assms show ?thesis by (simp add: distrib_right)
next
  case False
  then have "c * k \<le> b * k" using assms by (intro mult_right_mono) auto
  then have "\<not> b * k + t < c * k" using assms(1) by linarith
  with False show ?thesis by simp
qed

lemma SetBytes_Nil [simp]: "SetBytes [] = 0"
  by (simp add: SetBytes_def)

lemma SetBytes_snoc [simp]: "SetBytes (bs @ [b]) = SetBytes bs * 256 + uint b"
  by (simp add: SetBytes_def)

lemma SetBytes_append: "SetBytes (xs @ ys) = SetBytes xs * 256 ^ length ys + SetBytes ys"
  by (induction ys rule: rev_induct) (simp_all add: algebra_simps flip: append_assoc)

lemma SetBytes_Cons: "SetBytes (b # bs) = uint b * 256 ^ length bs + SetBytes bs"
  using SetBytes_append [of "[b]" bs] by (simp add: SetBytes_def)

lemma SetBytes_replicate_0 [simp]: "SetBytes (replicate n 0) = 0"
  by (induction n) (simp_all add: SetBytes_Cons)

lemma SetBytes_nonneg [simp]: "0 \<le> SetBytes bs"
  by (induction bs) (simp_all add: SetBytes_Cons)

lemma SetBytes_less: "SetBytes bs < 256 ^ length bs"
proof (induction bs rule: rev_induct)
  case Nil
  then show ?case by simp
next
  case (snoc b bs)
  have "uint b < 256" using uint_lt2p [of b] by simp
  with snoc show ?case by simp
qed

lemma SetBytes_big_Bytes [simp]: "SetBytes (big_Bytes n) = int n"
proof (induction n rule: big_Bytes.induct)
  case (1 n)
  show ?case
  proof (cases "n = 0")
    case True
    then show ?thesis by (simp add: big_Bytes.simps)
  next
    case False
    have "uint (of_nat n :: byte) = int (n mod 256)"
      by (simp add: uint_word_of_int unsigned_of_nat take_bit_eq_mod)
    moreover have "SetBytes (big_Bytes (n div 256)) = int (n div 256)"
      using "1.IH" False by blast
    ultimately have "SetBytes (big_Bytes n) = int (n div 256) * 256 + int (n mod 256)"
      using False by (subst big_Bytes.simps) simp
    also have "\<dots> = int n"
      by (metis div_mult_mod_eq of_nat_add of_nat_mult of_nat_numeral)
    finally show ?thesis .
  qed
qed

lemma length_big_Bytes_le: "n < 256 ^ k \<Longrightarrow> length (big_Bytes n) \<le> k"
proof (induction k arbitrary: n)
  case 0
  then show ?case by (simp add: big_Bytes.simps)
next
  case (Suc k)
  then have "n div 256 < 256 ^ k" by (simp add: less_mult_imp_div_less mult.commute)
  then show ?case using Suc.IH [of "n div 256"] by (subst big_Bytes.simps) auto
qed

lemma BitLen_0 [simp]: "BitLen 0 = 0"
  by (simp add: BitLen.simps)

text \<open>The bit length brackets a positive number between two powers of two.\<close>

lemma BitLen_bounds: "0 < n \<Longrightarrow> 2 ^ (BitLen n - 1) \<le> n \<and> n < 2 ^ BitLen n \<and> 0 < BitLen n"
proof (induction n rule: BitLen.induct)
  case (1 n)
  show ?case
  proof (cases "n = 1")
    case True
    then show ?thesis by (simp add: BitLen.simps [of "Suc 0"])
  next
    case False
    with "1.prems" have "0 < n div 2" by linarith
    with "1.IH" "1.prems" have IH: "2 ^ (BitLen (n div 2) - 1) \<le> n div 2"
      "n div 2 < 2 ^ BitLen (n div 2)" "0 < BitLen (n div 2)" by auto
    from IH(3) obtain m where m: "BitLen (n div 2) = Suc m" by (cases "BitLen (n div 2)") auto
    have "BitLen n = Suc (Suc m)" using "1.prems" m by (subst BitLen.simps) simp
    with IH(1,2) m show ?thesis by auto
  qed
qed

lemma BitLen_unique:
  assumes "2 ^ i \<le> n" "n < 2 ^ Suc i"
  shows "BitLen n = Suc i"
proof -
  have "0 < n" using assms(1) by (meson less_le_trans zero_less_numeral zero_less_power)
  with BitLen_bounds have b: "2 ^ (BitLen n - 1) \<le> n" "n < 2 ^ BitLen n" "0 < BitLen n" by auto
  have "(2::nat) ^ i < 2 ^ BitLen n" using assms(1) b(2) by linarith
  moreover have "(2::nat) ^ (BitLen n - 1) < 2 ^ Suc i" using assms(2) b(1) by linarith
  ultimately have "i < BitLen n" "BitLen n - 1 < Suc i"
    by (simp_all add: power_strict_increasing_iff del: power_Suc)
  then show ?thesis using b(3) by simp
qed

section \<open>encoding/hex\<close>

datatype hex_error = InvalidByteError char | ErrLength

definition hextable :: string where
  "hextable = ''0123456789abcdef''"

definition hex_encode_byte :: "byte \<Rightarrow> string" where
  "hex_encode_byte b = [hextable ! unat (drop_bit 4 b), hextable ! unat (b AND 15)]"

definition EncodeToString :: "byte list \<Rightarrow> string" where
  "EncodeToString bs = concat (map hex_encode_byte bs)"

definition fromHexChar :: "char \<Rightarrow> byte option" where
  "fromHexChar c =
     (let n = of_char c :: nat in
      if 48 \<le> n \<and> n \<le> 57 then Some (of_nat (n - 48))
      else if 97 \<le> n \<and> n \<le> 102 then Some (of_nat (n - 97 + 10))
      else if 65 \<le> n \<and> n \<le> 70 then Some (of_nat (n - 65 + 10))
      else None)"

fun DecodeString :: "string \<Rightarrow> (hex_error, byte list) outcome" where
  "DecodeString [] = Ret []"
| "DecodeString [p] = (case fromHexChar p of None \<Rightarrow> Fail (InvalidByteError p) | Some _ \<Rightarrow> Fail ErrLength)"
| "DecodeString (p # q # s) =
     (case fromHexChar p of
        None \<Rightarrow> Fail (InvalidByteError p)
      | Some a \<Rightarrow>
          (case fromHexChar q of
             None \<Rightarrow> Fail (InvalidByteError q)
           | Some b \<Rightarrow>
               (case DecodeString s of
                  Ret bs \<Rightarrow> Ret (((push_bit 4 a) OR b) # bs)
                | Fail e \<Rightarrow> Fail e
                | Panic \<Rightarrow> Panic)))"

lemma fromHexChar_hextable: "n < 16 \<Longrightarrow> fromHexChar (hextable ! n) = Some (of_nat n)"
proof -
  have "\<forall>n \<in> set [0..<16]. fromHexChar (hextable ! n) = Some (of_nat n)" by code_simp
  then show "n < 16 \<Longrightarrow> fromHexChar (hextable ! n) = Some (of_nat n)" by simp
qed

lemma byte_nibbles:
  fixes b :: byte
  shows "unat (drop_bit 4 b) < 16" "unat (b AND 15) < 16"
    and "push_bit 4 (drop_bit 4 b) OR (b AND 15) = b"
proof -
  have lt: "unat b < 256" using unsigned_less [where ?'a = nat, of b] by simp
  then have "drop_bit 4 (take_bit 8 (unat b)) = unat b div 16"
    by (simp add: drop_bit_eq_div take_bit_eq_mod)
  then have "unat (drop_bit 4 b) = unat b div 16"
    by (simp only: unsigned_drop_bit_eq) simp
  with lt show "unat (drop_bit 4 b) < 16" by simp
  have low: "b AND 15 = take_bit 4 b" by (simp add: take_bit_eq_mask mask_eq_exp_minus_1)
  have "unat (b AND 15) \<le> unat (15 :: byte)"
    by (rule word_and_le1 [THEN word_le_nat_alt [THEN iffD1]])
  then show "unat (b AND 15) < 16" by simp
  have "push_bit 4 (drop_bit 4 b) OR take_bit 4 b = b"
    by (rule bit_eqI) (auto simp: bit_simps)
  then show "push_bit 4 (drop_bit 4 b) OR (b AND 15) = b" by (simp only: low)
qed

lemma hex_encode_byte_decode: "DecodeString (hex_encode_byte b @ s) =
    (case DecodeString s of Ret bs \<Rightarrow> Ret (b # bs) | Fail e \<Rightarrow> Fail e | Panic \<Rightarrow> Panic)"
  by (cases "DecodeString s") (simp_all add: hex_encode_byte_def fromHexChar_hextable byte_nibbles)

lemma DecodeString_EncodeToString [simp]: "DecodeString (EncodeToString bs) = Ret bs"
  by (induction bs) (simp_all add: EncodeToString_def hex_encode_byte_decode)

lemma length_EncodeToString [simp]: "length (EncodeToString bs) = 2 * length bs"
  by (induction bs) (simp_all add: EncodeToString_def hex_encode_byte_def)

lemma EncodeToString_inject: "EncodeToString bs = EncodeToString cs \<longleftrightarrow> bs = cs"
  by (metis DecodeString_EncodeToString outcome.inject(1))

section \<open>fmt: decimal printing of non-negative integers\<close>

fun fmt_d :: "nat \<Rightarrow> string" where
  "fmt_d n = (if n < 10 then [hextable ! n] else fmt_d (n div 10) @ [hextable ! (n mod 10)])"

declare fmt_d.simps [simp del]

section \<open>time\<close>

definition minDuration :: duration where "minDuration = - (2 ^ 63)"
definition maxDuration :: duration where "maxDuration = 2 ^ 63 - 1"

text \<open>\<^verbatim>\<open>t.Sub(u)\<close> saturates at the extreme durations instead of wrapping around.\<close>

definition time_Sub :: "time \<Rightarrow> time \<Rightarrow> duration" where
  "time_Sub t u = max minDuration (min maxDuration (t - u))"

definition time_After :: "time \<Rightarrow> time \<Rightarrow> bool" where
  "time_After t u \<longleftrightarrow> t > u"

end
