(* ===== verification/Consistent_Hash.thy ===== *)
theory Consistent_Hash
  imports Go_Library
begin

text \<open>
  The identifier ring of \<^verbatim>\<open>internal/consistent/hash.go\<close>: identifiers and their byte and
  integer readings, interval tests on the ring, modular addition, hexadecimal encoding and
  proof-of-work mining. SHA-1 and SHA-256 are arguments of the definitions that use them,
  so every theorem holds for every hash function.

  The clockwise distance \<open>cw a b\<close> (how far one walks from \<open>a\<close> to reach \<open>b\<close>) is the
  specification of the interval tests: membership is a comparison of distances, with no
  case split on wrap-around left.
\<close>

section \<open>Identifiers\<close>

type_synonym sha1_fn = "byte list \<Rightarrow> ID"
type_synonym sha256_fn = "byte list \<Rightarrow> byte list"

definition keySpaceBits :: nat where
  "keySpaceBits = 160"

definition keySpaceSize :: int where
  "keySpaceSize = 2 ^ keySpaceBits"

text \<open>Element \<open>i\<close> of the array \<^verbatim>\<open>[20]byte\<close>; element 0 is the most significant byte.\<close>

definition id_byte :: "ID \<Rightarrow> nat \<Rightarrow> byte" where
  "id_byte a i = ucast (drop_bit (8 * (19 - i)) a)"

definition id_bytes :: "ID \<Rightarrow> byte list" where
  "id_bytes a = map (id_byte a) [0..<20]"

definition bytes_id :: "byte list \<Rightarrow> ID" where
  "bytes_id bs = word_of_int (SetBytes bs)"

definition string_bytes :: "string \<Rightarrow> byte list" where
  "string_bytes s = map of_char s"

definition bytes_string :: "byte list \<Rightarrow> string" where
  "bytes_string bs = map (\<lambda>b. char_of (unat b)) bs"

lemma bytes_back: "bytes_string (string_bytes v) = v"
proof -
  have "char_of (unat (of_char c :: byte)) = c" for c
  proof -
    have "(of_char c :: byte) = of_nat (of_char c)" by (simp add: of_nat_of_char)
    then have "unat (of_char c :: byte) = of_char c mod 256" by (simp only: unat_of_nat len_num1) simp
    then show ?thesis by simp
  qed
  then show ?thesis by (simp add: bytes_string_def string_bytes_def comp_def)
qed

definition SHA1 :: "sha1_fn \<Rightarrow> string \<Rightarrow> ID" where
  "SHA1 sha1 input = sha1 (string_bytes input)"

definition NodeIDFromAddr :: "sha1_fn \<Rightarrow> string \<Rightarrow> ID" where
  "NodeIDFromAddr sha1 addr = SHA1 sha1 addr"

definition KeyID :: "sha1_fn \<Rightarrow> string \<Rightarrow> ID" where
  "KeyID sha1 key = SHA1 sha1 key"

definition IDToBigInt :: "ID \<Rightarrow> int" where
  "IDToBigInt a = SetBytes (id_bytes a)"

definition BigIntToID :: "int \<Rightarrow> ID" where
  "BigIntToID n =
     (let m = n mod keySpaceSize; b = big_Bytes (nat m)
      in bytes_id (replicate (20 - length b) 0 @ b))"

definition IsInInterval :: "ID \<Rightarrow> ID \<Rightarrow> ID \<Rightarrow> bool" where
  "IsInInterval a start end' =
     (if start = end' then False
      else let idInt = IDToBigInt a; startInt = IDToBigInt start; endInt = IDToBigInt end'
        in if startInt < endInt then idInt > startInt \<and> idInt < endInt
           else idInt > startInt \<or> idInt < endInt)"

definition IsInIntervalRightClosed :: "ID \<Rightarrow> ID \<Rightarrow> ID \<Rightarrow> bool" where
  "IsInIntervalRightClosed a start end' = (if a = end' then True else IsInInterval a start end')"

definition Add :: "ID \<Rightarrow> int \<Rightarrow> ID" where
  "Add a n = (let result = (IDToBigInt a + n) mod keySpaceSize in BigIntToID result)"

definition PowerOfTwo :: "nat \<Rightarrow> int" where
  "PowerOfTwo i = push_bit i 1"

definition IDToHex :: "ID \<Rightarrow> string" where
  "IDToHex a = EncodeToString (id_bytes a)"

text \<open>The slice expression \<^verbatim>\<open>id[20-len(b):]\<close> panics when more than 20 bytes were decoded.\<close>

definition IDFromHex :: "string \<Rightarrow> (hex_error, ID) outcome" where
  "IDFromHex s =
     (case DecodeString s of
        Fail e \<Rightarrow> Fail e
      | Panic \<Rightarrow> Panic
      | Ret b \<Rightarrow> if length b \<le> 20 then Ret (bytes_id (replicate (20 - length b) 0 @ b)) else Panic)"

definition big_Cmp :: "int \<Rightarrow> int \<Rightarrow> int" where
  "big_Cmp x y = (if x < y then -1 else if x = y then 0 else 1)"

definition Compare :: "ID \<Rightarrow> ID \<Rightarrow> int" where
  "Compare a b = big_Cmp (IDToBigInt a) (IDToBigInt b)"

subsection \<open>Proof-of-work identifiers\<close>

definition PutUint64 :: "u64 \<Rightarrow> byte list" where
  "PutUint64 n = map (\<lambda>i. ucast (drop_bit (8 * (7 - i)) n)) [0..<8]"

text \<open>The inner loop over the first \<^verbatim>\<open>fullBytes\<close> bytes; reading past the array panics.\<close>

function check_zero_bytes :: "byte list \<Rightarrow> nat \<Rightarrow> nat \<Rightarrow> (unit, bool) outcome" where
  "check_zero_bytes h i fullBytes =
     (if i < fullBytes then
        if length h \<le> i then Panic
        else if h ! i \<noteq> 0 then Ret False
        else check_zero_bytes h (i + 1) fullBytes
      else Ret True)"
  by pat_completeness auto
termination
  by (relation "measure (\<lambda>(h, i, fullBytes). fullBytes - i)") auto

declare check_zero_bytes.simps [simp del]

definition pow_valid :: "nat \<Rightarrow> byte list \<Rightarrow> (unit, bool) outcome" where
  "pow_valid difficulty h =
     (let fullBytes = difficulty div 8; remainBits = difficulty mod 8
      in case check_zero_bytes h 0 fullBytes of
           Panic \<Rightarrow> Panic
         | Fail e \<Rightarrow> Fail e
         | Ret valid \<Rightarrow>
             if valid \<and> 0 < remainBits \<and> fullBytes < 32
             then let mask = push_bit (8 - remainBits) 255 in Ret (h ! fullBytes AND mask = 0)
             else Ret valid)"

partial_function (option) mine_loop ::
  "sha256_fn \<Rightarrow> sha1_fn \<Rightarrow> nat \<Rightarrow> u64 \<Rightarrow> (unit, ID \<times> u64) outcome option" where
  "mine_loop sha256 sha1 difficulty nonce =
     (let h = sha256 (PutUint64 nonce)
      in case pow_valid difficulty h of
           Panic \<Rightarrow> Some Panic
         | Fail e \<Rightarrow> Some (Fail e)
         | Ret valid \<Rightarrow> if valid then Some (Ret (sha1 h, nonce))
             else mine_loop sha256 sha1 difficulty (nonce + 1))"

definition MineNodeID :: "sha256_fn \<Rightarrow> sha1_fn \<Rightarrow> int \<Rightarrow> (unit, ID \<times> u64) outcome option" where
  "MineNodeID sha256 sha1 difficulty =
     (if difficulty \<le> 0 then Some (Ret (sha1 (sha256 (replicate 8 0)), 0))
      else mine_loop sha256 sha1 (nat difficulty) 0)"

section \<open>Byte and integer readings agree\<close>

lemma SetBytes_word_bytes:
  fixes w :: "'a::len word"
  shows "SetBytes (rev (map (\<lambda>j. ucast (drop_bit (8 * j) w)) [0..<n])) = uint w mod 256 ^ n"
proof (induction n)
  case 0
  then show ?case by simp
next
  case (Suc n)
  have "uint (drop_bit (8 * n) w) = uint w div 256 ^ n"
    by (simp only: uint_drop_bit_div) (simp add: power_mult)
  then have "uint (ucast (drop_bit (8 * n) w) :: byte) = (uint w div 256 ^ n) mod 256"
    by (simp add: unsigned_ucast_eq take_bit_eq_mod)
  moreover have "uint w mod 256 ^ Suc n = uint w div 256 ^ n mod 256 * 256 ^ n + uint w mod 256 ^ n"
    by (subst power_Suc2) (simp add: zmod_zmult2_eq)
  ultimately show ?case
    by (simp add: SetBytes_Cons Suc del: power_Suc)
qed

lemma id_bytes_rev: "id_bytes a = rev (map (\<lambda>j. ucast (drop_bit (8 * j) a)) [0..<20])"
proof -
  have "rev [0..<20] = map (\<lambda>i. 19 - i) [0..<20]" by (simp add: upt_rec)
  then show ?thesis by (simp add: id_bytes_def id_byte_def rev_map comp_def)
qed

lemma length_id_bytes [simp]: "length (id_bytes a) = 20"
  by (simp add: id_bytes_def)

lemma IDToBigInt_uint [simp]: "IDToBigInt a = uint a"
  using uint_lt2p [of a] uint_ge_0 [of a]
  by (simp add: IDToBigInt_def id_bytes_rev SetBytes_word_bytes)

lemma bytes_id_id_bytes [simp]: "bytes_id (id_bytes a) = a"
  by (simp add: bytes_id_def flip: IDToBigInt_def)

lemma id_bytes_inject: "id_bytes a = id_bytes b \<longleftrightarrow> a = b"
  by (metis bytes_id_id_bytes)

lemma SetBytes_zeros_append [simp]: "SetBytes (replicate n 0 @ bs) = SetBytes bs"
  by (simp add: SetBytes_append)

lemma keySpaceSize_eq: "keySpaceSize = 2 ^ 160"
  by (simp add: keySpaceSize_def keySpaceBits_def)

text \<open>No slice of \<^verbatim>\<open>BigIntToID\<close> is out of range: at most 20 bytes are copied.\<close>

lemma BigIntToID_no_panic: "length (big_Bytes (nat (n mod keySpaceSize))) \<le> 20"
proof (rule length_big_Bytes_le)
  have "n mod keySpaceSize < 256 ^ 20" by (simp add: keySpaceSize_eq)
  then show "nat (n mod keySpaceSize) < 256 ^ 20"
    by (simp add: nat_less_iff keySpaceSize_eq)
qed

lemma BigIntToID_word [simp]: "BigIntToID n = word_of_int n"
proof -
  have "BigIntToID n = word_of_int (n mod keySpaceSize)"
    by (simp add: BigIntToID_def Let_def bytes_id_def keySpaceSize_eq)
  also have "\<dots> = word_of_int n"
    by (simp add: keySpaceSize_eq word_of_int_eq_iff take_bit_eq_mod)
  finally show ?thesis .
qed

lemma Add_word [simp]: "Add a n = a + word_of_int n"
proof -
  have "Add a n = word_of_int ((uint a + n) mod 2 ^ 160)"
    by (simp only: Add_def Let_def keySpaceSize_eq IDToBigInt_uint BigIntToID_word)
  also have "\<dots> = word_of_int (uint a + n)"
    by (subst word_of_int_eq_iff) (simp add: take_bit_eq_mod)
  finally show ?thesis by simp
qed

section \<open>Clockwise distance\<close>

definition cw :: "ID \<Rightarrow> ID \<Rightarrow> nat" where
  "cw a b = unat (b - a)"

lemma cw_refl [simp, ring_simps]: "cw a a = 0"
  by (simp add: cw_def)

lemma cw_eq_0 [simp, ring_simps]: "cw a b = 0 \<longleftrightarrow> a = b"
  by (auto simp: cw_def unat_eq_zero)

lemma cw_inj: "cw a b = cw a c \<longleftrightarrow> b = c"
  by (simp add: cw_def flip: word_unat_eq_iff)

lemma cw_less: "cw a b < 2 ^ 160"
  using unsigned_less [where ?'a = nat, of "b - a"] by (simp add: cw_def)

lemma cw_uint: "int (cw a b) = (if uint a \<le> uint b then uint b - uint a else uint b - uint a + 2 ^ 160)"
  by (simp add: cw_def uint_sub_if')

lemma cw_triangle: "cw a b \<le> cw a c \<Longrightarrow> cw a b + cw b c = cw a c"
  using cw_uint [of a b] cw_uint [of b c] cw_uint [of a c] cw_less [of b c]
    uint_lt2p [of a] uint_lt2p [of b] uint_lt2p [of c] uint_ge_0 [of a] uint_ge_0 [of b] uint_ge_0 [of c]
  by (simp split: if_splits)

text \<open>The interval test, wrap-around included, compares distances from the start point.\<close>

lemma IsInInterval_cw: "IsInInterval a s e \<longleftrightarrow> s \<noteq> e \<and> 0 < cw s a \<and> cw s a < cw s e"
proof (cases "s = e")
  case True
  then show ?thesis by (simp add: IsInInterval_def)
next
  case False
  then have "uint s \<noteq> uint e" by (metis word_uint_eq_iff)
  have "0 < cw s a \<longleftrightarrow> uint s \<noteq> uint a"
    using word_uint_eq_iff [of s a] cw_eq_0 [of s a] by linarith
  moreover have "cw s a < cw s e \<longleftrightarrow> int (cw s a) < int (cw s e)" by simp
  ultimately show ?thesis
    using False \<open>uint s \<noteq> uint e\<close> uint_lt2p [of a] uint_lt2p [of s] uint_lt2p [of e]
      uint_ge_0 [of a] uint_ge_0 [of s] uint_ge_0 [of e]
    by (auto simp: IsInInterval_def Let_def cw_uint split: if_splits)
       (use uint_ge_0 [of a] uint_ge_0 [of s] uint_ge_0 [of e] in linarith)+
qed

lemma IsInIntervalRightClosed_cw:
  "IsInIntervalRightClosed a s e \<longleftrightarrow> a = e \<or> (s \<noteq> e \<and> 0 < cw s a \<and> cw s a \<le> cw s e)"
  by (auto simp: IsInIntervalRightClosed_def IsInInterval_cw cw_inj order_le_less)

lemma cw_decrease: "IsInInterval f n a \<Longrightarrow> cw f a < cw n a"
  using cw_triangle [of n f a] by (auto simp: IsInInterval_cw)

lemma Compare_less [simp]: "Compare a b < 0 \<longleftrightarrow> a < b"
  by (auto simp: Compare_def big_Cmp_def word_less_def)

lemma Compare_ge [simp]: "0 \<le> Compare a b \<longleftrightarrow> b \<le> a"
  by (auto simp: Compare_def big_Cmp_def word_le_def)

text \<open>
  The three arcs of the ring. For two distinct points \<open>s\<close> and \<open>e\<close>, every identifier
  is exactly one of: the point \<open>s\<close>, inside \<^verbatim>\<open>(s, e]\<close>, or inside the complementary open arc
  \<^verbatim>\<open>(e, s)\<close>. Keys on the ring are therefore owned by exactly one of two neighbours.
\<close>

theorem ring_interval_partition:
  assumes "s \<noteq> e"
  shows "IsInIntervalRightClosed a s e \<longleftrightarrow> a \<noteq> s \<and> \<not> IsInInterval a e s"
proof (cases "a = s \<or> a = e")
  case True
  then show ?thesis using assms by (auto simp: IsInIntervalRightClosed_cw IsInInterval_cw)
next
  case False
  then have "uint a \<noteq> uint s" "uint a \<noteq> uint e" "uint s \<noteq> uint e"
    using assms by (metis word_uint_eq_iff)+
  with False assms show ?thesis
    by (auto simp: IsInIntervalRightClosed_def IsInInterval_def Let_def)
qed

text \<open>Across the wrap-around point: 3 is in \<^verbatim>\<open>(10, 5]\<close> and not in \<^verbatim>\<open>(5, 10)\<close>.\<close>

theorem ring_interval_partition_witness:
  "IsInIntervalRightClosed 3 10 5 \<and> \<not> IsInInterval 3 5 10"
  using ring_interval_partition [of 10 5 3]
  by (simp add: IsInIntervalRightClosed_def IsInInterval_def del: IDToBigInt_uint) (simp add: Let_def)

section \<open>Round trips and errors of the encodings\<close>

text \<open>
  The encodings of an identifier are faithful: the integer and the hexadecimal
  encoding decode back to the identifier, and converting an arbitrary integer keeps exactly
  its residue modulo the size of the key space.
\<close>

theorem id_encodings_roundtrip:
  "BigIntToID (IDToBigInt a) = a \<and> IDToBigInt (BigIntToID n) = n mod keySpaceSize \<and>
   IDFromHex (IDToHex a) = Ret a \<and> length (IDToHex a) = 40"
proof -
  have "IDToBigInt (BigIntToID n) = n mod keySpaceSize"
    by (simp add: keySpaceSize_eq uint_word_of_int take_bit_eq_mod)
  moreover have "IDFromHex (IDToHex a) = Ret a"
    by (simp add: IDFromHex_def IDToHex_def)
  ultimately show ?thesis by (simp add: IDToHex_def)
qed

lemma IDToHex_inject: "IDToHex a = IDToHex b \<longleftrightarrow> a = b"
  by (simp add: IDToHex_def EncodeToString_inject id_bytes_inject)

text \<open>
  What \<^verbatim>\<open>IDFromHex\<close> does on every input: it returns the decoding error on a malformed
  string, the zero-extended identifier when at most 20 bytes were decoded, and it panics on
  a well-formed string of more than 40 digits instead of returning an error.
\<close>

theorem IDFromHex_outcomes:
  "IDFromHex s =
     (case DecodeString s of
        Fail e \<Rightarrow> Fail e
      | Panic \<Rightarrow> Panic
      | Ret b \<Rightarrow> if length b \<le> 20 then Ret (word_of_int (SetBytes b)) else Panic) \<and>
   IDFromHex (EncodeToString (replicate 21 0)) = Panic"
  by (simp add: IDFromHex_def bytes_id_def split: outcome.split)

section \<open>Mining finds the least nonce with enough leading zero bits\<close>

lemma check_zero_bytes_Ret:
  assumes "f \<le> length h"
  shows "check_zero_bytes h i f = Ret (\<forall>j. i \<le> j \<longrightarrow> j < f \<longrightarrow> h ! j = 0)"
  using assms
proof (induction h i f rule: check_zero_bytes.induct)
  case (1 h i f)
  show ?case
  proof (cases "i < f \<and> h ! i = 0")
    case True
    with "1" have "check_zero_bytes h i f = Ret (\<forall>j. i + 1 \<le> j \<longrightarrow> j < f \<longrightarrow> h ! j = 0)"
      by (subst check_zero_bytes.simps) simp
    moreover have "(\<forall>j. i + 1 \<le> j \<longrightarrow> j < f \<longrightarrow> h ! j = 0) \<longleftrightarrow> (\<forall>j. i \<le> j \<longrightarrow> j < f \<longrightarrow> h ! j = 0)"
      using True by (metis Suc_eq_plus1 Suc_leI le_neq_implies_less le_trans nat_le_linear not_less_eq_eq)
    ultimately show ?thesis by simp
  next
    case False
    with "1.prems" show ?thesis by (subst check_zero_bytes.simps) auto
  qed
qed

lemma byte_high_mask:
  fixes b :: byte
  assumes "k \<le> 8"
  shows "b AND push_bit k 255 = 0 \<longleftrightarrow> uint b < 2 ^ k"
proof -
  have m1: "(255 :: byte) = - 1" by simp
  have "b AND push_bit k 255 = push_bit k (drop_bit k b)"
    unfolding m1 by (rule bit_eqI) (auto simp: bit_simps)
  moreover have "b = push_bit k (drop_bit k b) OR take_bit k b"
    by (rule bit_eqI) (auto simp: bit_simps)
  moreover have "uint (take_bit k b) < 2 ^ k"
    using assms by (simp add: unsigned_take_bit_eq)
  moreover have "uint b < 2 ^ k \<Longrightarrow> drop_bit k b = 0"
    by (simp only: word_uint_eq_iff uint_drop_bit_div) simp
  ultimately show ?thesis by (metis bit_0_eq or.left_neutral push_bit_of_0)
qed

lemma SetBytes_eq_0: "SetBytes bs = 0 \<longleftrightarrow> (\<forall>b \<in> set bs. b = 0)"
proof (induction bs)
  case Nil
  then show ?case by simp
next
  case (Cons b bs)
  have "0 \<le> uint b * 256 ^ length bs" by simp
  then show ?case using Cons SetBytes_nonneg [of bs]
    by (auto simp: SetBytes_Cons add_nonneg_eq_0_iff unsigned_eq_0_iff)
qed

lemma pow_valid_iff:
  assumes len: "length h = 32" and d: "d \<le> 256"
  shows "pow_valid d h = Ret (SetBytes h < 2 ^ (256 - d))"
proof -
  define f r where "f = d div 8" and "r = d mod 8"
  have d_eq: "d = 8 * f + r" and r: "r < 8" and f: "f \<le> 32"
    using d by (auto simp: f_def r_def)
  have split: "SetBytes h = SetBytes (take f h) * 256 ^ (32 - f) + SetBytes (drop f h)"
    using SetBytes_append [of "take f h" "drop f h"] len by simp
  have rest: "SetBytes (drop f h) < 256 ^ (32 - f)"
    using SetBytes_less [of "drop f h"] len by simp
  have chk: "check_zero_bytes h 0 f = Ret (SetBytes (take f h) = 0)"
    using f len by (simp add: check_zero_bytes_Ret SetBytes_eq_0 all_set_conv_all_nth)
  have pow: "(256::int) ^ m = 2 ^ (8 * m)" for m by (simp add: power_mult)
  show ?thesis
  proof (cases "SetBytes (take f h) = 0")
    case False
    then have "1 \<le> SetBytes (take f h)" using SetBytes_nonneg [of "take f h"] by linarith
    then have "256 ^ (32 - f) \<le> SetBytes (take f h) * 256 ^ (32 - f)"
      by (simp add: mult_le_cancel_right1)
    then have "256 ^ (32 - f) \<le> SetBytes h" using split SetBytes_nonneg [of "drop f h"] by linarith
    moreover have "(2::int) ^ (256 - d) \<le> 2 ^ (8 * (32 - f))"
      using d_eq by (intro power_increasing) auto
    ultimately have "\<not> SetBytes h < 2 ^ (256 - d)" using pow [of "32 - f"] by linarith
    with False chk show ?thesis by (simp add: pow_valid_def f_def Let_def)
  next
    case True
    then have h_eq: "SetBytes h = SetBytes (drop f h)" using split by simp
    show ?thesis
    proof (cases "r = 0")
      case True
      then have "SetBytes h < 2 ^ (256 - d)"
        using h_eq rest pow [of "32 - f"] d_eq by (simp add: right_diff_distrib')
      with True chk \<open>SetBytes (take f h) = 0\<close> show ?thesis
        by (simp add: pow_valid_def f_def r_def Let_def)
    next
      case False
      then have "f < 32" using d d_eq by linarith
      define b t where "b = h ! f" and "t = drop (Suc f) h"
      have dh: "drop f h = b # t" using \<open>f < 32\<close> len by (simp add: b_def t_def Cons_nth_drop_Suc)
      have lt: "length t = 31 - f" using len by (simp add: t_def)
      have "SetBytes t < 256 ^ (31 - f)" using SetBytes_less [of t] lt by simp
      then have "SetBytes h < 2 ^ (8 - r) * 256 ^ (31 - f) \<longleftrightarrow> uint b < 2 ^ (8 - r)"
        using h_eq dh lt by (simp add: SetBytes_Cons leading_digit_less)
      moreover have "2 ^ (256 - d) = (2::int) ^ (8 - r) * 256 ^ (31 - f)"
        using \<open>f < 32\<close> r d_eq by (simp add: pow flip: power_add)
      moreover have "h ! f AND push_bit (8 - r) 255 = 0 \<longleftrightarrow> uint b < 2 ^ (8 - r)"
        by (simp add: b_def byte_high_mask)
      ultimately show ?thesis
        using False True chk \<open>f < 32\<close> by (simp add: pow_valid_def f_def [symmetric] r_def [symmetric] Let_def)
    qed
  qed
qed

lemma mine_loop_least:
  assumes "\<And>m. length (sha256 m) = 32" "d \<le> 256"
    and "SetBytes (sha256 (PutUint64 (of_nat n))) < 2 ^ (256 - d)"
    and "\<And>m. k \<le> m \<Longrightarrow> m < n \<Longrightarrow> \<not> SetBytes (sha256 (PutUint64 (of_nat m))) < 2 ^ (256 - d)"
    and "k \<le> n"
  shows "mine_loop sha256 sha1 d (of_nat k) =
    Some (Ret (sha1 (sha256 (PutUint64 (of_nat n))), of_nat n))"
  using assms(4,5)
proof (induction "n - k" arbitrary: k)
  case 0
  then show ?case using assms(1-3)
    by (subst mine_loop.simps) (simp add: Let_def pow_valid_iff)
next
  case (Suc x)
  then have "\<not> SetBytes (sha256 (PutUint64 (of_nat k))) < 2 ^ (256 - d)" by simp
  moreover have "mine_loop sha256 sha1 d (of_nat (Suc k)) =
      Some (Ret (sha1 (sha256 (PutUint64 (of_nat n))), of_nat n))"
    using Suc by (intro Suc.hyps(1)) auto
  ultimately show ?case using assms(1,2)
    by (subst mine_loop.simps) (simp add: Let_def pow_valid_iff add.commute)
qed

text \<open>
  Mining terminates whenever some nonce qualifies, and it returns the least one: its
  SHA-256 digest, read as a 256-bit number, is below \<open>2 ^ (256 - difficulty)\<close>, that is,
  it has at least \<^verbatim>\<open>difficulty\<close> leading zero bits, and the identifier is the SHA-1 hash of
  that digest. No array access is out of range for difficulties up to 256.
\<close>

theorem MineNodeID_least_nonce:
  assumes "\<And>m. length (sha256 m) = 32" "0 < d" "d \<le> 256"
    and "SetBytes (sha256 (PutUint64 (of_nat n))) < 2 ^ (256 - d)"
    and "\<And>m. m < n \<Longrightarrow> \<not> SetBytes (sha256 (PutUint64 (of_nat m))) < 2 ^ (256 - d)"
  shows "MineNodeID sha256 sha1 (int d) =
    Some (Ret (sha1 (sha256 (PutUint64 (of_nat n))), of_nat n))"
  using mine_loop_least [of sha256 d n 0 sha1] assms by (simp add: MineNodeID_def)

theorem MineNodeID_least_nonce_witness:
  "MineNodeID (\<lambda>m. if last m = 2 then replicate 32 0 else replicate 32 255) (\<lambda>h. 7) 9 = Some (Ret (7, 2))"
proof -
  let ?h = "\<lambda>m :: byte list. if last m = 2 then replicate 32 0 else replicate 32 (255 :: byte)"
  have last: "last (PutUint64 w) = ucast w" for w by (simp add: PutUint64_def upt_rec)
  have big: "\<not> SetBytes (replicate 32 255) < 2 ^ (256 - 9)" by code_simp
  have "MineNodeID ?h (\<lambda>h. 7) (int 9) = Some (Ret (7, of_nat 2))"
  proof (rule MineNodeID_least_nonce)
    fix m :: nat assume "m < 2"
    then have "m = 0 \<or> m = 1" by auto
    then show "\<not> SetBytes (?h (PutUint64 (of_nat m))) < 2 ^ (256 - 9)"
      using big by (auto simp: last)
  qed (auto simp: last)
  then show ?thesis by simp
qed

end
