(* ===== verification/VNode_Ring.thy ===== *)
theory VNode_Ring
  imports Consistent_Hash
begin

text \<open>
  The consistent-hashing ring of virtual nodes, \<^verbatim>\<open>internal/consistent/vnode.go\<close>: a slice of
  entries kept sorted by virtual identifier, searched with \<^verbatim>\<open>sort.Search\<close>. The lemmas show
  that the slice stays sorted, that the owner of a key is the virtual node at the least
  clockwise distance, and that adding or removing a node moves only the keys it gains or
  loses. Lock operations are left out: every method holds the ring's lock throughout.
\<close>

record VNodeEntry =
  VID :: ID
  PhysAddr :: string
  Index :: nat

record VNodeRing =
  vr_entries :: "VNodeEntry list"
  vr_vcount :: int

definition VNodeID :: "sha1_fn \<Rightarrow> string \<Rightarrow> nat \<Rightarrow> ID" where
  "VNodeID sha1 addr index = SHA1 sha1 (addr @ '':'' @ fmt_d index)"

definition NewVNodeRing :: "int \<Rightarrow> VNodeRing" where
  "NewVNodeRing vnodesPerNode = \<lparr>vr_entries = [], vr_vcount = vnodesPerNode\<rparr>"

definition new_entries :: "sha1_fn \<Rightarrow> string \<Rightarrow> int \<Rightarrow> VNodeEntry list" where
  "new_entries sha1 addr vcount =
     map (\<lambda>i. \<lparr>VID = VNodeID sha1 addr i, PhysAddr = addr, Index = i\<rparr>) [0..<nat vcount]"

definition AddNode :: "sha1_fn \<Rightarrow> VNodeRing \<Rightarrow> string \<Rightarrow> VNodeRing" where
  "AddNode sha1 r addr =
     r\<lparr>vr_entries := sort_key VID (vr_entries r @ new_entries sha1 addr (vr_vcount r))\<rparr>"

definition RemoveNode :: "VNodeRing \<Rightarrow> string \<Rightarrow> VNodeRing" where
  "RemoveNode r addr = r\<lparr>vr_entries := filter (\<lambda>e. PhysAddr e \<noteq> addr) (vr_entries r)\<rparr>"

definition FindOwner :: "VNodeRing \<Rightarrow> ID \<Rightarrow> string option" where
  "FindOwner r keyID =
     (let es = vr_entries r in
      if es = [] then None
      else let idx = sort_Search (length es) (\<lambda>i. 0 \<le> Compare (VID (es ! i)) keyID);
               idx = (if idx = length es then 0 else idx)
        in Some (PhysAddr (es ! idx)))"

definition LoadBalance :: "VNodeRing \<Rightarrow> (string, int) gomap" where
  "LoadBalance r =
     fold (\<lambda>e counts. gm_put (PhysAddr e)
        ((case map_of counts (PhysAddr e) of None \<Rightarrow> 0 | Some n \<Rightarrow> n) + 1) counts) (vr_entries r) []"

definition VNodeCount :: "VNodeRing \<Rightarrow> nat" where
  "VNodeCount r = length (vr_entries r)"

section \<open>The sorted-ring invariant\<close>

definition vring_sorted :: "VNodeRing \<Rightarrow> bool" where
  "vring_sorted r \<longleftrightarrow> sorted (map VID (vr_entries r))"

lemma vring_sorted_New [simp]: "vring_sorted (NewVNodeRing n)"
  by (simp add: vring_sorted_def NewVNodeRing_def)

lemma vring_sorted_Add [simp]: "vring_sorted (AddNode sha1 r addr)"
  by (simp add: vring_sorted_def AddNode_def)

lemma vring_sorted_Remove [simp]: "vring_sorted r \<Longrightarrow> vring_sorted (RemoveNode r addr)"
  by (simp add: vring_sorted_def RemoveNode_def sorted_filter)

lemma set_AddNode: "set (vr_entries (AddNode sha1 r addr)) =
    set (vr_entries r) \<union> set (new_entries sha1 addr (vr_vcount r))"
  by (simp add: AddNode_def)

section \<open>The owner is the clockwise-nearest virtual node\<close>

definition owner_entry :: "VNodeEntry list \<Rightarrow> ID \<Rightarrow> VNodeEntry" where
  "owner_entry es k = (case dropWhile (\<lambda>e. VID e < k) es of [] \<Rightarrow> hd es | e # _ \<Rightarrow> e)"

lemma FindOwner_eq:
  assumes "vring_sorted r"
  shows "FindOwner r k = (if vr_entries r = [] then None else Some (PhysAddr (owner_entry (vr_entries r) k)))"
proof -
  let ?es = "vr_entries r"
  let ?i = "sort_Search (length ?es) (\<lambda>i. k \<le> VID (?es ! i))"
  have srt: "sorted (map VID ?es)" using assms by (simp add: vring_sorted_def)
  note srch = sort_Search_sorted [OF srt, of k]
  have "?es ! (if ?i = length ?es then 0 else ?i) = owner_entry ?es k" if "?es \<noteq> []"
  proof (cases "?i = length ?es")
    case True
    then have "dropWhile (\<lambda>e. VID e < k) ?es = []" using srch(3) by (simp only:) simp
    with True that show ?thesis
      by (simp add: owner_entry_def hd_conv_nth del: dropWhile_eq_Nil_conv)
  next
    case False
    then have "?i < length ?es" using srch(1) by simp
    then have "drop ?i ?es = ?es ! ?i # drop (Suc ?i) ?es" by (simp add: Cons_nth_drop_Suc)
    with srch(3) False show ?thesis by (simp add: owner_entry_def)
  qed
  then show ?thesis by (simp add: FindOwner_def Let_def)
qed

lemma owner_entry_in: "es \<noteq> [] \<Longrightarrow> owner_entry es k \<in> set es"
  by (auto simp: owner_entry_def split: list.split dest: set_dropWhileD [of _ "\<lambda>e. VID e < k"]
      intro: set_dropWhileD [of _ "\<lambda>e. VID e < k"])

lemma cw_mono_above: "k \<le> a \<Longrightarrow> a \<le> b \<Longrightarrow> cw k a \<le> cw k b"
  using cw_uint [of k a] cw_uint [of k b] by (auto simp: word_le_def split: if_splits)

lemma cw_mono_below: "a < k \<Longrightarrow> a \<le> b \<Longrightarrow> b < k \<Longrightarrow> cw k a \<le> cw k b"
  using cw_uint [of k a] cw_uint [of k b] by (auto simp: word_le_def word_less_def split: if_splits)

lemma cw_above_below: "k \<le> a \<Longrightarrow> b < k \<Longrightarrow> cw k a \<le> cw k b"
proof -
  assume "k \<le> a" "b < k"
  then have "int (cw k a) \<le> int (cw k b)"
    using uint_lt2p [of a] uint_ge_0 [of b] unfolding word_le_def word_less_def cw_uint by (simp only: if_True) (use uint_ge_0 [of b] in \<open>simp; linarith\<close>)
  then show ?thesis by simp
qed

lemma owner_entry_least:
  assumes "sorted (map VID es)" "e \<in> set es"
  shows "cw k (VID (owner_entry es k)) \<le> cw k (VID e)"
proof (cases "dropWhile (\<lambda>e. VID e < k) es")
  case Nil
  then have all: "\<forall>e \<in> set es. VID e < k" by (simp add: dropWhile_eq_Nil_conv)
  have "VID (hd es) \<le> VID e" using assms by (cases es) auto
  moreover have "hd es \<in> set es" using assms(2) by (cases es) auto
  ultimately have "cw k (VID (hd es)) \<le> cw k (VID e)"
    using all assms(2) by (intro cw_mono_below) auto
  with Nil show ?thesis by (simp add: owner_entry_def del: dropWhile_eq_Nil_conv)
next
  case (Cons o' rest)
  then have "\<not> VID o' < k" by (metis hd_dropWhile list.sel(1) list.simps(3))
  have srt: "sorted (map VID (o' # rest))"
    using sorted_dropWhile [of "map VID es" "\<lambda>v. v < k"] assms(1) Cons by (simp add: dropWhile_map comp_def)
  have "e \<in> set (takeWhile (\<lambda>e. VID e < k) es) \<or> e \<in> set (o' # rest)"
    using assms(2) Cons by (metis Un_iff set_append takeWhile_dropWhile_id)
  then show ?thesis
  proof
    assume "e \<in> set (takeWhile (\<lambda>e. VID e < k) es)"
    then have "VID e < k" by (auto dest: set_takeWhileD)
    with \<open>\<not> VID o' < k\<close> Cons show ?thesis by (auto simp: owner_entry_def intro: cw_above_below)
  next
    assume "e \<in> set (o' # rest)"
    then have "VID o' \<le> VID e" using srt by auto
    with \<open>\<not> VID o' < k\<close> Cons show ?thesis by (auto simp: owner_entry_def intro: cw_mono_above)
  qed
qed

text \<open>With distinct virtual identifiers the nearest entry is unique, whatever the sort did with ties.\<close>

lemma owner_entry_unique:
  assumes "sorted (map VID es)" "inj_on VID (set es)" "e \<in> set es"
    and "\<And>x. x \<in> set es \<Longrightarrow> cw k (VID e) \<le> cw k (VID x)"
  shows "owner_entry es k = e"
proof -
  have "es \<noteq> []" using assms(3) by auto
  then have "cw k (VID (owner_entry es k)) = cw k (VID e)"
    using assms owner_entry_least owner_entry_in by (intro antisym) auto
  then show ?thesis
    using assms(2,3) owner_entry_in [OF \<open>es \<noteq> []\<close>] by (auto simp: cw_inj dest: inj_onD)
qed

text \<open>
  C25. \<^verbatim>\<open>FindOwner\<close> implements the successor rule of consistent hashing. On a ring whose
  slice is sorted, as every \<^verbatim>\<open>AddNode\<close> and \<^verbatim>\<open>RemoveNode\<close> leaves it, it fails exactly on the
  empty ring and otherwise returns the physical address of an entry whose clockwise distance
  from the key is least among all virtual nodes, wrap-around included.
\<close>

theorem FindOwner_clockwise_nearest:
  assumes "vring_sorted r"
  shows "(FindOwner r k = None \<longleftrightarrow> VNodeCount r = 0) \<and>
    (\<forall>a. FindOwner r k = Some a \<longrightarrow>
      (\<exists>e \<in> set (vr_entries r). PhysAddr e = a \<and> (\<forall>x \<in> set (vr_entries r). cw k (VID e) \<le> cw k (VID x)))) \<and>
    vring_sorted (AddNode sha1 r addr) \<and> vring_sorted (RemoveNode r addr)"
  using assms owner_entry_in owner_entry_least
  by (auto simp: FindOwner_eq VNodeCount_def vring_sorted_def [of r] split: if_splits)

theorem FindOwner_clockwise_nearest_witness:
  "(FindOwner (AddNode (\<lambda>_. 5) (NewVNodeRing 1) ''a'') 9 = None \<longleftrightarrow>
      VNodeCount (AddNode (\<lambda>_. 5) (NewVNodeRing 1) ''a'') = 0) \<and>
   FindOwner (AddNode (\<lambda>_. 5) (NewVNodeRing 1) ''a'') 9 = Some ''a''"
proof -
  let ?r = "AddNode (\<lambda>_. 5) (NewVNodeRing 1) ''a''"
  have "FindOwner ?r 9 = Some ''a''"
    by (simp add: FindOwner_eq) (simp add: AddNode_def NewVNodeRing_def new_entries_def owner_entry_def)
  with FindOwner_clockwise_nearest [of ?r 9] show ?thesis by simp
qed

section \<open>Only the keys of the changed node move\<close>

lemma owner_entry_filter:
  assumes "sorted (map VID es)" "es \<noteq> []" "P (owner_entry es k)"
  shows "filter P es \<noteq> [] \<and> owner_entry (filter P es) k = owner_entry es k"
proof -
  let ?lt = "\<lambda>e. VID e < k"
  have drop: "dropWhile ?lt (filter P es) = filter P (dropWhile ?lt es)"
  proof -
    have ge: "\<forall>e \<in> set (dropWhile ?lt es). \<not> ?lt e"
    proof (cases "dropWhile ?lt es")
      case (Cons o' rest)
      then have "\<not> ?lt o'" by (metis hd_dropWhile list.sel(1) list.simps(3))
      moreover have "sorted (map VID (o' # rest))"
        using sorted_dropWhile [of "map VID es" "\<lambda>v. v < k"] assms(1) Cons by (simp add: dropWhile_map comp_def)
      ultimately show ?thesis using Cons by auto
    qed (simp del: dropWhile_eq_Nil_conv)
    have app: "dropWhile Q (xs @ ys) = ys"
      if "\<forall>x \<in> set xs. Q x" "\<forall>y \<in> set ys. \<not> Q y" for Q and xs ys :: "VNodeEntry list"
      using that by (cases ys) (simp_all add: dropWhile_append2 dropWhile_eq_Nil_conv)
    have split: "filter P es = filter P (takeWhile ?lt es) @ filter P (dropWhile ?lt es)"
      by (metis filter_append takeWhile_dropWhile_id)
    show ?thesis
      unfolding split
    proof (rule app)
      show "\<forall>x \<in> set (filter P (takeWhile ?lt es)). ?lt x"
        using set_takeWhileD [of _ ?lt es] unfolding set_filter by blast
      show "\<forall>x \<in> set (filter P (dropWhile ?lt es)). \<not> ?lt x"
        using ge unfolding set_filter by blast
    qed
  qed
  show ?thesis
  proof (cases "dropWhile ?lt es")
    case Nil
    with assms(2,3) obtain x xs where "es = x # xs" "P x" by (cases es) (auto simp: owner_entry_def)
    with Nil drop show ?thesis by (simp add: owner_entry_def del: dropWhile_eq_Nil_conv)
  next
    case (Cons o' rest)
    with assms(3) have "P o'" by (simp add: owner_entry_def)
    moreover have "o' \<in> set es" using Cons by (metis list.set_intros(1) set_dropWhileD)
    ultimately show ?thesis using Cons drop by (auto simp: owner_entry_def filter_empty_conv)
  qed
qed

lemma FindOwner_Remove_other:
  assumes "vring_sorted r" "FindOwner r k = Some a" "a \<noteq> addr"
  shows "FindOwner (RemoveNode r addr) k = Some a"
proof -
  have "vr_entries r \<noteq> []" "PhysAddr (owner_entry (vr_entries r) k) = a"
    using assms by (auto simp: FindOwner_eq split: if_splits)
  with assms owner_entry_filter [of "vr_entries r" "\<lambda>e. PhysAddr e \<noteq> addr" k] show ?thesis
    by (simp add: FindOwner_eq) (simp add: RemoveNode_def vring_sorted_def)
qed

lemma FindOwner_Add_moves:
  assumes "vring_sorted r" and inj: "inj_on VID (set (vr_entries (AddNode sha1 r addr)))"
    and own: "FindOwner (AddNode sha1 r addr) k = Some b"
  shows "b = addr \<or> FindOwner r k = Some b"
proof -
  let ?es = "vr_entries (AddNode sha1 r addr)"
  have ne: "?es \<noteq> []" and b: "PhysAddr (owner_entry ?es k) = b"
    using own by (auto simp: FindOwner_eq split: if_splits)
  have srt: "sorted (map VID ?es)" using vring_sorted_Add by (simp add: vring_sorted_def)
  show ?thesis
  proof (cases "owner_entry ?es k \<in> set (vr_entries r)")
    case True
    have "owner_entry (vr_entries r) k = owner_entry ?es k"
    proof (rule owner_entry_unique)
      show "sorted (map VID (vr_entries r))" using assms(1) by (simp add: vring_sorted_def)
      show "inj_on VID (set (vr_entries r))" using inj by (auto simp: set_AddNode intro: inj_on_subset)
      show "\<And>x. x \<in> set (vr_entries r) \<Longrightarrow> cw k (VID (owner_entry ?es k)) \<le> cw k (VID x)"
        using owner_entry_least [OF srt] by (simp add: set_AddNode)
    qed (rule True)
    with True b assms(1) show ?thesis by (auto simp: FindOwner_eq)
  next
    case False
    with owner_entry_in [OF ne, of k] b show ?thesis by (auto simp: set_AddNode new_entries_def)
  qed
qed

text \<open>A length hash for the examples below: virtual identifiers \<open>3\<close> and \<open>5\<close>.\<close>

definition string_len_hash :: sha1_fn where
  "string_len_hash bs = of_nat (length bs)"

text \<open>
  Minimal disruption. Removing a node leaves the owner of every key it did not own
  unchanged, and, when no two virtual identifiers collide, adding a node moves keys only to
  that node: after the insertion a key's owner is the new node or the owner it had before.
\<close>

theorem vnode_minimal_disruption:
  assumes "vring_sorted r"
  shows "(FindOwner r k = Some a \<and> a \<noteq> addr \<longrightarrow> FindOwner (RemoveNode r addr) k = Some a) \<and>
    (inj_on VID (set (vr_entries (AddNode sha1 r addr))) \<and> FindOwner (AddNode sha1 r addr) k = Some b \<longrightarrow>
      b = addr \<or> FindOwner r k = Some b)"
  using assms FindOwner_Remove_other FindOwner_Add_moves by blast

theorem vnode_minimal_disruption_witness:
  "FindOwner (RemoveNode (AddNode string_len_hash (AddNode string_len_hash (NewVNodeRing 1) ''a'') ''bbb'') ''bbb'') 2
     = Some ''a'' \<and>
   FindOwner (AddNode string_len_hash (AddNode string_len_hash (NewVNodeRing 1) ''a'') ''bbb'') 4 = Some ''bbb''"
proof -
  let ?r = "AddNode string_len_hash (NewVNodeRing 1) ''a''"
  let ?s = "AddNode string_len_hash ?r ''bbb''"
  have s: "vr_entries ?s = [\<lparr>VID = 3, PhysAddr = ''a'', Index = 0\<rparr>, \<lparr>VID = 5, PhysAddr = ''bbb'', Index = 0\<rparr>]"
    by (simp add: AddNode_def NewVNodeRing_def new_entries_def VNodeID_def SHA1_def string_bytes_def
        string_len_hash_def fmt_d.simps)
  have a: "FindOwner ?s 2 = Some ''a''" and b: "FindOwner ?s 4 = Some ''bbb''"
    by (simp_all add: FindOwner_eq s owner_entry_def)
  have "inj_on VID (set (vr_entries ?s))" by (simp add: s)
  with b vnode_minimal_disruption [of ?r 4 "''a''" "''bbb''" string_len_hash "''bbb''"]
    a vnode_minimal_disruption [of ?s 2 "''a''" "''bbb''" string_len_hash "''b''"]
  show ?thesis by simp
qed

end
