(* ===== verification/CRDT_Types.thy ===== *)
theory CRDT_Types
  imports DHT_Prelude "HOL-Library.Char_ord" "HOL-Library.List_Lexorder"
begin

text \<open>
  The replicated data types of \<^verbatim>\<open>internal/store/crdt.go\<close>: the grow-only counter and the
  observed-remove set. Both \<^verbatim>\<open>Merge\<close> methods are instances of \<open>replica_merge\<close>, which gives
  convergence; the other theorems give their meaning: counters never lose increments, and a
  concurrent add wins over a remove.
\<close>

section \<open>GCounter\<close>

type_synonym GCounter = "(string, u64) gomap"

definition NewGCounter :: GCounter where
  "NewGCounter = []"

definition GCounter_Increment :: "GCounter \<Rightarrow> string \<Rightarrow> GCounter" where
  "GCounter_Increment g nodeID =
     gm_put nodeID ((case map_of g nodeID of None \<Rightarrow> 0 | Some v \<Rightarrow> v) + 1) g"

definition GCounter_Value :: "GCounter \<Rightarrow> u64" where
  "GCounter_Value g = fold (\<lambda>(_, v) total. total + v) g 0"

definition GCounter_Clone :: "GCounter \<Rightarrow> GCounter" where
  "GCounter_Clone g = fold (\<lambda>(k, v) c. gm_put k v c) g []"

definition GCounter_Merge :: "GCounter \<Rightarrow> GCounter \<Rightarrow> GCounter" where
  "GCounter_Merge g other =
     (let merged = GCounter_Clone g
      in fold (\<lambda>(nodeID, count) merged.
           case map_of merged nodeID of
             None \<Rightarrow> gm_put nodeID count merged
           | Some existing \<Rightarrow> if count > existing then gm_put nodeID count merged else merged)
         other merged)"

section \<open>ORSet\<close>

type_synonym tags = "(string, bool) gomap"

record ORSet =
  AddSet :: "(string, tags) gomap"
  RemoveSet :: "(string, tags) gomap"

definition NewORSet :: ORSet where
  "NewORSet = \<lparr>AddSet = [], RemoveSet = []\<rparr>"

text \<open>Indexing a Go map of tag sets: an absent element gives the nil set.\<close>

definition tag_set :: "(string, tags) gomap \<Rightarrow> string \<Rightarrow> tags" where
  "tag_set m elem = (case map_of m elem of None \<Rightarrow> [] | Some ts \<Rightarrow> ts)"

definition add_tags :: "tags \<Rightarrow> tags \<Rightarrow> tags" where
  "add_tags ts into = fold (\<lambda>(tag, _) acc. gm_put tag True acc) ts into"

definition ORSet_Add :: "ORSet \<Rightarrow> string \<Rightarrow> string \<Rightarrow> ORSet" where
  "ORSet_Add s element tag =
     s\<lparr>AddSet := gm_put element (gm_put tag True (tag_set (AddSet s) element)) (AddSet s)\<rparr>"

definition ORSet_Remove :: "ORSet \<Rightarrow> string \<Rightarrow> ORSet" where
  "ORSet_Remove s element =
     (case map_of (AddSet s) element of
        None \<Rightarrow> s
      | Some ts \<Rightarrow> s\<lparr>RemoveSet := gm_put element (add_tags ts (tag_set (RemoveSet s) element)) (RemoveSet s)\<rparr>)"

definition ORSet_Contains :: "ORSet \<Rightarrow> string \<Rightarrow> bool" where
  "ORSet_Contains s element =
     (case map_of (AddSet s) element of
        None \<Rightarrow> False
      | Some addTags \<Rightarrow>
          let removeTags = tag_set (RemoveSet s) element
          in list_ex (\<lambda>(tag, _). \<not> (case map_of removeTags tag of None \<Rightarrow> False | Some b \<Rightarrow> b)) addTags)"

definition ORSet_Elements :: "ORSet \<Rightarrow> string list" where
  "ORSet_Elements s =
     (let elems = fold (\<lambda>(element, _) elems. if ORSet_Contains s element then elems @ [element] else elems) (AddSet s) []
      in sort elems)"

text \<open>One of the two symmetric halves of \<^verbatim>\<open>Merge\<close>: the union of two maps of tag sets.\<close>

definition union_tags :: "(string, tags) gomap \<Rightarrow> (string, tags) gomap \<Rightarrow> (string, tags) gomap" where
  "union_tags a b =
     (let result = fold (\<lambda>(elem, ts) result. gm_put elem (add_tags ts []) result) a []
      in fold (\<lambda>(elem, ts) result. gm_put elem (add_tags ts (tag_set result elem)) result) b result)"

definition ORSet_Merge :: "ORSet \<Rightarrow> ORSet \<Rightarrow> ORSet" where
  "ORSet_Merge s other =
     \<lparr>AddSet = union_tags (AddSet s) (AddSet other), RemoveSet = union_tags (RemoveSet s) (RemoveSet other)\<rparr>"

section \<open>The counter converges\<close>

fun opt_max :: "u64 option \<Rightarrow> u64 option \<Rightarrow> u64 option" where
  "opt_max None y = y"
| "opt_max x None = x"
| "opt_max (Some x) (Some y) = Some (max x y)"

lemma opt_max_simps [simp]: "opt_max x None = x" "opt_max x x = x"
  by (cases x; simp)+

lemma map_of_GCounter_Clone: "gm_wf g \<Longrightarrow> map_of (GCounter_Clone g) k = map_of g k"
  unfolding GCounter_Clone_def
  by (subst map_of_merge_loop [where h = "\<lambda>_ v. Some v"]) (auto split: option.split)

lemma gm_wf_GCounter_Clone [simp]: "gm_wf (GCounter_Clone g)"
  unfolding GCounter_Clone_def by (rule gm_wf_loop) auto

lemma gm_wf_GCounter_Merge [simp]: "gm_wf (GCounter_Merge a b)"
  unfolding GCounter_Merge_def Let_def by (rule gm_wf_loop) (auto split: option.split)

lemma map_of_GCounter_Merge:
  assumes "gm_wf a" "gm_wf b"
  shows "map_of (GCounter_Merge a b) k = opt_max (map_of a k) (map_of b k)"
proof -
  let ?h = "\<lambda>o' v. case o' of None \<Rightarrow> Some v | Some w \<Rightarrow> if v > w then Some v else o'"
  have step: "map_of (case map_of m k of None \<Rightarrow> gm_put k v m
      | Some w \<Rightarrow> if v > w then gm_put k v m else m) = (map_of m)(k := ?h (map_of m k) v)" for k v m
    by (auto simp: fun_eq_iff split: option.split)
  show ?thesis
    unfolding GCounter_Merge_def Let_def
    by (subst map_of_merge_loop [where h = ?h, OF assms(2) step])
       (auto simp: map_of_GCounter_Clone [OF assms(1)] max_def not_less split: option.split)
qed

lemma opt_max_commute: "opt_max x y = opt_max y x"
  by (cases x; cases y) (auto simp: max.commute)

lemma opt_max_assoc: "opt_max (opt_max x y) z = opt_max x (opt_max y z)"
  by (cases x; cases y; cases z) (auto simp: max.assoc)

interpretation gcounter: replica_merge GCounter_Merge map_of gm_wf
  by unfold_locales (auto simp: map_of_GCounter_Merge fun_eq_iff opt_max_assoc intro: opt_max_commute)

section \<open>The total never loses increments\<close>

definition gc_sum :: "GCounter \<Rightarrow> nat" where
  "gc_sum g = (\<Sum>(k, v) \<leftarrow> g. unat v)"

lemma GCounter_Value_sum: "GCounter_Value g = of_nat (gc_sum g)"
proof -
  have "fold (\<lambda>(_, v) total. total + v) g t = t + of_nat (gc_sum g)" for t :: u64
    by (induction g arbitrary: t) (auto simp: gc_sum_def)
  then show ?thesis by (simp add: GCounter_Value_def)
qed

lemma gc_sum_keys:
  assumes "gm_wf g" "finite S" "fst ` set g \<subseteq> S"
  shows "gc_sum g = (\<Sum>k \<in> S. case map_of g k of None \<Rightarrow> 0 | Some v \<Rightarrow> unat v)"
  using assms
proof (induction g arbitrary: S)
  case Nil
  then show ?case by (simp add: gc_sum_def)
next
  case (Cons kv g)
  obtain k v where kv: "kv = (k, v)" by (cases kv)
  let ?f = "\<lambda>m k. case map_of m k of None \<Rightarrow> 0 | Some v \<Rightarrow> unat v"
  have g: "map_of g k = None" and S: "k \<in> S" "finite (S - {k})" "fst ` set g \<subseteq> S - {k}"
    using Cons.prems by (auto simp: kv map_of_dom_fst image_iff)
  have "(\<Sum>j \<in> S. ?f (kv # g) j) = ?f (kv # g) k + (\<Sum>j \<in> S - {k}. ?f (kv # g) j)"
    using S(1) Cons.prems by (simp add: sum.remove)
  also have "(\<Sum>j \<in> S - {k}. ?f (kv # g) j) = (\<Sum>j \<in> S - {k}. ?f g j)"
    by (rule sum.cong) (auto simp: kv)
  also have "\<dots> = gc_sum g" using Cons.IH [OF _ S(2,3)] Cons.prems by (simp add: kv)
  finally show ?case by (simp add: kv gc_sum_def)
qed

lemma gc_sum_mono:
  assumes "gm_wf a" "gm_wf b" "\<And>k v. map_of a k = Some v \<Longrightarrow> \<exists>w. map_of b k = Some w \<and> v \<le> w"
  shows "gc_sum a \<le> gc_sum b"
proof -
  let ?S = "fst ` set a \<union> fst ` set b"
  have "(case map_of a k of None \<Rightarrow> 0 | Some v \<Rightarrow> unat v) \<le> (case map_of b k of None \<Rightarrow> 0 | Some v \<Rightarrow> unat v)" for k
    using assms(3) [of k] by (auto simp: word_le_nat_alt split: option.split)
  then show ?thesis
    using assms(1,2) by (simp add: gc_sum_keys [of _ ?S] sum_mono)
qed

text \<open>
  A grow-only counter never loses increments. Merging yields, below the 64-bit limit, at
  least the value of each operand; incrementing adds one to the value, modulo \<open>2 ^ 64\<close>; and
  counters that merged the same states agree on every component and on their value.
\<close>

theorem gcounter_monotone_and_convergent:
  assumes "gm_wf a" "gm_wf b" "gc_sum (GCounter_Merge a b) < 2 ^ 64"
    and "\<forall>y \<in> set xs. gm_wf y" "set xs = set ys"
  shows "GCounter_Value a \<le> GCounter_Value (GCounter_Merge a b) \<and>
    GCounter_Value b \<le> GCounter_Value (GCounter_Merge a b) \<and>
    GCounter_Value (GCounter_Increment a n) = GCounter_Value a + 1 \<and>
    map_of (fold (\<lambda>x s. GCounter_Merge s x) xs a) = map_of (fold (\<lambda>x s. GCounter_Merge s x) ys a)"
proof -
  let ?m = "GCounter_Merge a b"
  have "map_of a k = Some v \<Longrightarrow> \<exists>w. map_of ?m k = Some w \<and> v \<le> w"
    and "map_of b k = Some v \<Longrightarrow> \<exists>w. map_of ?m k = Some w \<and> v \<le> w" for k v
    using assms(1,2) by (cases "map_of a k"; cases "map_of b k"; auto simp: map_of_GCounter_Merge)+
  then have le: "gc_sum a \<le> gc_sum ?m" "gc_sum b \<le> gc_sum ?m"
    using assms(1,2) by (auto intro!: gc_sum_mono)
  then have "unat (of_nat (gc_sum x) :: u64) = gc_sum x" if "x \<in> {a, b, ?m}" for x
    using that assms(3) by (auto simp: unsigned_of_nat take_bit_nat_eq_self)
  with le have mono: "GCounter_Value a \<le> GCounter_Value ?m" "GCounter_Value b \<le> GCounter_Value ?m"
    by (simp_all add: GCounter_Value_sum word_le_nat_alt)
  have inc: "GCounter_Value (GCounter_Increment a n) = GCounter_Value a + 1"
  proof -
    let ?v = "\<lambda>g k. case map_of g k of None \<Rightarrow> 0 | Some v \<Rightarrow> v"
    let ?S = "insert n (fst ` set a)"
    have of_sum: "GCounter_Value g = (\<Sum>k \<in> ?S. ?v g k)" if "gm_wf g" "fst ` set g \<subseteq> ?S" for g
      using that by (simp add: GCounter_Value_sum gc_sum_keys [of _ ?S] of_nat_sum)
        (intro sum.cong, auto split: option.split)
    have "fst ` set (GCounter_Increment a n) \<subseteq> ?S"
      using assms(1) by (auto simp: GCounter_Increment_def set_gm_put)
    moreover have "(\<Sum>k \<in> ?S. ?v (GCounter_Increment a n) k) = ?v a n + 1 + (\<Sum>k \<in> ?S - {n}. ?v a k)"
      by (subst sum.remove [of _ n]) (auto simp: GCounter_Increment_def intro!: sum.cong)
    moreover have "(\<Sum>k \<in> ?S. ?v a k) = ?v a n + (\<Sum>k \<in> ?S - {n}. ?v a k)"
      by (subst sum.remove [of _ n]) auto
    ultimately show ?thesis
      using of_sum [OF assms(1) subset_insertI] of_sum [of "GCounter_Increment a n"] assms(1)
      by (simp add: gm_wf_put GCounter_Increment_def [of a n])
  qed
  from mono inc gcounter.convergence [OF assms(1,4,5)] show ?thesis by blast
qed

theorem gcounter_monotone_and_convergent_witness:
  "GCounter_Value [(''x'', 2)] \<le> GCounter_Value (GCounter_Merge [(''x'', 2)] [(''y'', 3)])"
  using gcounter_monotone_and_convergent [of "[(''x'', 2)]" "[(''y'', 3)]" "[]" "[]"]
  by (simp add: GCounter_Merge_def GCounter_Clone_def gm_put_def gc_sum_def)

section \<open>The set converges\<close>

text \<open>What an observer can read of a map of tag sets: which tags an element has.\<close>

definition has_tag :: "(string, tags) gomap \<Rightarrow> string \<Rightarrow> string \<Rightarrow> bool" where
  "has_tag m elem tag \<longleftrightarrow> tag \<in> fst ` set (tag_set m elem)"

text \<open>Tag sets are only ever written with the value true.\<close>

definition tags_wf :: "(string, tags) gomap \<Rightarrow> bool" where
  "tags_wf m \<longleftrightarrow> gm_wf m \<and> (\<forall>(e, ts) \<in> set m. gm_wf ts \<and> (\<forall>(t, b) \<in> set ts. b))"

definition orset_inv :: "ORSet \<Rightarrow> bool" where
  "orset_inv s \<longleftrightarrow> tags_wf (AddSet s) \<and> tags_wf (RemoveSet s)"

definition orset_obs :: "ORSet \<Rightarrow> (string \<Rightarrow> string \<Rightarrow> bool) \<times> (string \<Rightarrow> string \<Rightarrow> bool)" where
  "orset_obs s = (has_tag (AddSet s), has_tag (RemoveSet s))"

definition ts_wf :: "tags \<Rightarrow> bool" where
  "ts_wf ts \<longleftrightarrow> gm_wf ts \<and> (\<forall>(t, b) \<in> set ts. b)"

lemma tags_wf_ts: "tags_wf m \<longleftrightarrow> gm_wf m \<and> (\<forall>(e, ts) \<in> set m. ts_wf ts)"
  by (auto simp: tags_wf_def ts_wf_def)

lemma ts_wf_Nil [simp]: "ts_wf []"
  by (simp add: ts_wf_def)

lemma ts_wf_put [simp]: "ts_wf ts \<Longrightarrow> ts_wf (gm_put t True ts)"
  by (fastforce simp: ts_wf_def set_gm_put)

lemma keys_gm_put [simp]: "fst ` set (gm_put k v m) = insert k (fst ` set m)"
  by (simp add: gm_put_def dom_update)

lemma ts_wf_add_tags [simp]: "ts_wf into \<Longrightarrow> ts_wf (add_tags ts into)"
  unfolding add_tags_def by (induction ts arbitrary: into) auto

lemma keys_add_tags [simp]: "fst ` set (add_tags ts into) = fst ` set ts \<union> fst ` set into"
  unfolding add_tags_def by (induction ts arbitrary: into) (simp_all add: split_def)

lemma ts_wf_tag_set: "tags_wf m \<Longrightarrow> ts_wf (tag_set m e)"
  by (auto simp: tags_wf_ts tag_set_def map_of_eq_Some_wf split: option.split)

lemma tags_wf_put [simp]: "tags_wf m \<Longrightarrow> ts_wf ts \<Longrightarrow> tags_wf (gm_put e ts m)"
  by (auto simp: tags_wf_ts set_gm_put)

lemma tags_wf_fold:
  assumes "\<And>e ts m. tags_wf m \<Longrightarrow> tags_wf (g e ts m)" "tags_wf m"
  shows "tags_wf (fold (\<lambda>(e, ts) m. g e ts m) b m)"
  using assms(2)
proof (induction b arbitrary: m)
  case (Cons x b)
  obtain e ts where x: "x = (e, ts)" by (cases x)
  from Cons.IH [OF assms(1) [OF Cons.prems, of e ts]] show ?case by (simp add: x)
qed simp

lemma tags_wf_union [simp]: "tags_wf (union_tags a b)"
  unfolding union_tags_def Let_def
  by (intro tags_wf_fold tags_wf_put ts_wf_add_tags ts_wf_tag_set) (auto simp: tags_wf_ts [of "[]"])

lemma has_tag_union:
  assumes "gm_wf a" "gm_wf b"
  shows "has_tag (union_tags a b) e t \<longleftrightarrow> has_tag a e t \<or> has_tag b e t"
proof -
  let ?r = "fold (\<lambda>(elem, ts) result. gm_put elem (add_tags ts []) result) a []"
  have r: "map_of ?r e = map_option (\<lambda>ts. add_tags ts []) (map_of a e)"
    by (subst map_of_merge_loop [where h = "\<lambda>_ ts. Some (add_tags ts [])", OF assms(1)]) (auto split: option.split)
  have "map_of (union_tags a b) e = (case map_of b e of None \<Rightarrow> map_of ?r e
      | Some ts \<Rightarrow> Some (add_tags ts (case map_of ?r e of None \<Rightarrow> [] | Some ts \<Rightarrow> ts)))"
    unfolding union_tags_def Let_def
    by (subst map_of_merge_loop [where h = "\<lambda>o' ts. Some (add_tags ts (case o' of None \<Rightarrow> [] | Some ts \<Rightarrow> ts))", OF assms(2)])
       (auto simp: tag_set_def split: option.split)
  then show ?thesis unfolding r
    by (cases "map_of a e"; cases "map_of b e") (auto simp: has_tag_def tag_set_def)
qed

lemma orset_obs_Merge:
  assumes "orset_inv a" "orset_inv b"
  shows "orset_obs (ORSet_Merge a b) =
    ((\<lambda>e t. fst (orset_obs a) e t \<or> fst (orset_obs b) e t), (\<lambda>e t. snd (orset_obs a) e t \<or> snd (orset_obs b) e t))"
  using assms by (auto simp: orset_obs_def ORSet_Merge_def orset_inv_def tags_wf_ts has_tag_union fun_eq_iff)

lemma orset_inv_Merge [simp]: "orset_inv (ORSet_Merge a b)"
  by (simp add: orset_inv_def ORSet_Merge_def)

interpretation orset: replica_merge ORSet_Merge orset_obs orset_inv
proof unfold_locales
  fix a b c :: ORSet assume i: "orset_inv a" "orset_inv b" "orset_inv c"
  show "orset_obs (ORSet_Merge (ORSet_Merge a b) c) = orset_obs (ORSet_Merge a (ORSet_Merge b c))"
    using i by (simp add: orset_obs_Merge disj_assoc)
qed (auto simp: orset_obs_Merge)

section \<open>What the set contains\<close>

lemma ORSet_Contains_iff:
  assumes "orset_inv s"
  shows "ORSet_Contains s e \<longleftrightarrow> (\<exists>t. has_tag (AddSet s) e t \<and> \<not> has_tag (RemoveSet s) e t)"
proof -
  have wf: "ts_wf (tag_set (RemoveSet s) e)" using assms by (simp add: orset_inv_def ts_wf_tag_set)
  have rem: "(case map_of (tag_set (RemoveSet s) e) t of None \<Rightarrow> False | Some b \<Rightarrow> b) \<longleftrightarrow> has_tag (RemoveSet s) e t" for t
  proof (cases "map_of (tag_set (RemoveSet s) e) t")
    case None
    then have "\<not> has_tag (RemoveSet s) e t" unfolding has_tag_def map_of_dom_fst .
    with None show ?thesis by simp
  next
    case (Some b)
    then have "(t, b) \<in> set (tag_set (RemoveSet s) e)" by (rule map_of_SomeD)
    with wf Some show ?thesis by (force simp: ts_wf_def has_tag_def)
  qed
  show ?thesis
  proof (cases "map_of (AddSet s) e")
    case None
    then show ?thesis by (simp add: ORSet_Contains_def has_tag_def tag_set_def)
  next
    case (Some ts)
    then have "ORSet_Contains s e \<longleftrightarrow> (\<exists>p \<in> set ts. \<not> has_tag (RemoveSet s) e (fst p))"
      unfolding ORSet_Contains_def Let_def rem by (simp add: list_ex_iff split_def)
    also have "\<dots> \<longleftrightarrow> (\<exists>t \<in> fst ` set ts. \<not> has_tag (RemoveSet s) e t)" by (simp only: bex_simps)
    also have "fst ` set ts = {t. has_tag (AddSet s) e t}" using Some by (simp add: has_tag_def tag_set_def)
    finally show ?thesis by simp
  qed
qed

lemma orset_inv_New [simp]: "orset_inv NewORSet"
  by (simp add: orset_inv_def NewORSet_def tags_wf_def)

lemma orset_inv_Add [simp]: "orset_inv s \<Longrightarrow> orset_inv (ORSet_Add s e t)"
  by (simp add: orset_inv_def ORSet_Add_def ts_wf_tag_set)

lemma orset_inv_Remove [simp]: "orset_inv s \<Longrightarrow> orset_inv (ORSet_Remove s e)"
  by (auto simp: orset_inv_def ORSet_Remove_def ts_wf_tag_set split: option.split)

lemma has_tag_Add: "has_tag (AddSet (ORSet_Add s e t)) e' t' \<longleftrightarrow> (e' = e \<and> t' = t) \<or> has_tag (AddSet s) e' t'"
  "RemoveSet (ORSet_Add s e t) = RemoveSet s"
  by (auto simp: has_tag_def ORSet_Add_def tag_set_def)

lemma has_tag_Remove:
  "AddSet (ORSet_Remove s e) = AddSet s"
  "has_tag (RemoveSet (ORSet_Remove s e)) e' t \<longleftrightarrow> has_tag (RemoveSet s) e' t \<or> (e' = e \<and> has_tag (AddSet s) e t)"
  by (auto simp: has_tag_def ORSet_Remove_def tag_set_def split: option.splits)

lemmas orset_tags = ORSet_Contains_iff has_tag_Add has_tag_Remove

lemma ORSet_Elements_set:
  assumes "orset_inv s"
  shows "set (ORSet_Elements s) = {e. ORSet_Contains s e}" and "distinct (ORSet_Elements s)"
proof -
  have loop: "fold (\<lambda>(e, _) acc. if P e then acc @ [e] else acc) m acc = acc @ filter P (map fst m)" for P acc and m :: "(string, tags) gomap"
    by (induction m arbitrary: acc) auto
  have dom: "ORSet_Contains s e \<Longrightarrow> e \<in> fst ` set (AddSet s)" for e
    using map_of_dom_fst [of "AddSet s" e] by (auto simp: ORSet_Contains_def split: option.splits)
  show "set (ORSet_Elements s) = {e. ORSet_Contains s e}"
    unfolding ORSet_Elements_def Let_def loop using dom by auto
  show "distinct (ORSet_Elements s)"
    unfolding ORSet_Elements_def Let_def loop using assms by (simp add: orset_inv_def tags_wf_def gm_wf_def)
qed

text \<open>What a replica holds after merging others: the tags of its own and of every merged state.\<close>

lemma orset_tags_Merge:
  assumes "orset_inv a" "orset_inv b"
  shows "has_tag (AddSet (ORSet_Merge a b)) x u \<longleftrightarrow> has_tag (AddSet a) x u \<or> has_tag (AddSet b) x u"
    and "has_tag (RemoveSet (ORSet_Merge a b)) x u \<longleftrightarrow> has_tag (RemoveSet a) x u \<or> has_tag (RemoveSet b) x u"
  using orset_obs_Merge [OF assms] by (simp_all add: orset_obs_def fun_eq_iff)

lemma orset_inv_fold: "orset_inv a \<Longrightarrow> orset_inv (fold (\<lambda>x s. ORSet_Merge s x) xs a)"
  by (cases xs rule: rev_cases) simp_all

lemma orset_tags_fold:
  assumes "orset_inv a" "\<forall>y \<in> set xs. orset_inv y"
  shows "has_tag (AddSet (fold (\<lambda>x s. ORSet_Merge s x) xs a)) x u \<longleftrightarrow> (\<exists>y \<in> insert a (set xs). has_tag (AddSet y) x u)"
    and "has_tag (RemoveSet (fold (\<lambda>x s. ORSet_Merge s x) xs a)) x u \<longleftrightarrow> (\<exists>y \<in> insert a (set xs). has_tag (RemoveSet y) x u)"
  using assms by (induction xs arbitrary: a) (simp_all add: orset_tags_Merge disj_assoc)

lemma orset_Elements_eqI:
  assumes "orset_inv a" "orset_inv b" "\<And>x. ORSet_Contains a x = ORSet_Contains b x"
  shows "ORSet_Elements a = ORSet_Elements b"
proof (rule sorted_distinct_set_unique)
  show "set (ORSet_Elements a) = set (ORSet_Elements b)" using assms by (simp add: ORSet_Elements_set)
qed (use assms in \<open>simp_all add: ORSet_Elements_set, simp_all add: ORSet_Elements_def Let_def\<close>)

lemma orset_gathered_equal:
  assumes "\<forall>y \<in> insert p (set xs). orset_inv y" "insert p (set xs) = insert q (set ys)"
  shows "ORSet_Elements (fold (\<lambda>x s. ORSet_Merge s x) xs p) = ORSet_Elements (fold (\<lambda>x s. ORSet_Merge s x) ys q)"
proof (rule orset_Elements_eqI)
  have inv: "orset_inv p" "orset_inv q" "\<forall>y \<in> set xs. orset_inv y" "\<forall>y \<in> set ys. orset_inv y"
    using assms by (metis insertCI)+
  then show i: "orset_inv (fold (\<lambda>x s. ORSet_Merge s x) xs p)" "orset_inv (fold (\<lambda>x s. ORSet_Merge s x) ys q)"
    by (simp_all add: orset_inv_fold)
  show "ORSet_Contains (fold (\<lambda>x s. ORSet_Merge s x) xs p) e = ORSet_Contains (fold (\<lambda>x s. ORSet_Merge s x) ys q) e" for e
    unfolding ORSet_Contains_iff [OF i(1)] ORSet_Contains_iff [OF i(2)]
      orset_tags_fold [OF inv(1,3)] orset_tags_fold [OF inv(2,4)] assms(2) ..
qed

text \<open>
  C38. The observed-remove set. After \<^verbatim>\<open>Remove\<close> the element is absent and only it is affected.
  \<^verbatim>\<open>Merge\<close> unites the add tags and the remove tags of both replicas, so an element is in the
  result exactly when one of them added it with a tag that neither tombstoned, and merging in
  the other direction gives the same contents. An \<^verbatim>\<open>Add\<close> with a tag that no replica has
  seen survives a merge with a replica that removed the element concurrently, whichever of the
  two merges the other (add wins). \<^verbatim>\<open>Elements\<close> lists exactly the present elements,
  sorted and without repetition. Replicas that start from different states, and merge others in
  any order and any number of times, have the same elements as soon as each has gathered the
  same set of states.
\<close>

theorem orset_add_wins_and_convergent:
  assumes "orset_inv s" "orset_inv r"
    and fresh: "\<not> has_tag (RemoveSet s) e t" "\<not> has_tag (RemoveSet r) e t" "\<not> has_tag (AddSet r) e t"
    and gathered: "\<forall>y \<in> insert p (set xs). orset_inv y" "insert p (set xs) = insert q (set ys)"
  shows "\<not> ORSet_Contains (ORSet_Remove s e) e \<and>
    (e' \<noteq> e \<longrightarrow> ORSet_Contains (ORSet_Remove s e) e' = ORSet_Contains s e') \<and>
    (\<forall>x u. has_tag (AddSet (ORSet_Merge s r)) x u \<longleftrightarrow> has_tag (AddSet s) x u \<or> has_tag (AddSet r) x u) \<and>
    (\<forall>x u. has_tag (RemoveSet (ORSet_Merge s r)) x u \<longleftrightarrow> has_tag (RemoveSet s) x u \<or> has_tag (RemoveSet r) x u) \<and>
    (\<forall>x. ORSet_Contains (ORSet_Merge s r) x \<longleftrightarrow>
      (\<exists>u. (has_tag (AddSet s) x u \<or> has_tag (AddSet r) x u) \<and> \<not> has_tag (RemoveSet s) x u \<and> \<not> has_tag (RemoveSet r) x u)) \<and>
    ORSet_Elements (ORSet_Merge s r) = ORSet_Elements (ORSet_Merge r s) \<and>
    ORSet_Contains (ORSet_Merge (ORSet_Add s e t) (ORSet_Remove r e)) e \<and>
    ORSet_Contains (ORSet_Merge (ORSet_Remove r e) (ORSet_Add s e t)) e \<and>
    sorted (ORSet_Elements s) \<and> distinct (ORSet_Elements s) \<and> set (ORSet_Elements s) = {x. ORSet_Contains s x} \<and>
    ORSet_Elements (fold (\<lambda>x s. ORSet_Merge s x) xs p) = ORSet_Elements (fold (\<lambda>x s. ORSet_Merge s x) ys q)"
proof -
  have wins: "ORSet_Contains (ORSet_Merge (ORSet_Add s e t) (ORSet_Remove r e)) e"
    "ORSet_Contains (ORSet_Merge (ORSet_Remove r e) (ORSet_Add s e t)) e"
    using assms(1-5) by (auto simp: orset_tags orset_tags_Merge intro!: exI [of _ t])
  have exact: "ORSet_Contains (ORSet_Merge s r) x \<longleftrightarrow>
      (\<exists>u. (has_tag (AddSet s) x u \<or> has_tag (AddSet r) x u) \<and> \<not> has_tag (RemoveSet s) x u \<and> \<not> has_tag (RemoveSet r) x u)" for x
    using assms(1,2) by (simp add: ORSet_Contains_iff orset_tags_Merge)
  have comm: "ORSet_Elements (ORSet_Merge s r) = ORSet_Elements (ORSet_Merge r s)"
    using assms(1,2) by (intro orset_Elements_eqI) (auto simp: ORSet_Contains_iff orset_tags_Merge)
  have srt: "sorted (ORSet_Elements s)" by (simp add: ORSet_Elements_def Let_def)
  have rem: "\<not> ORSet_Contains (ORSet_Remove s e) e" "e' \<noteq> e \<longrightarrow> ORSet_Contains (ORSet_Remove s e) e' = ORSet_Contains s e'"
    using assms(1) by (simp_all add: orset_tags)
  show ?thesis
    by (intro conjI rem allI orset_tags_Merge [OF assms(1,2)] exact comm wins srt ORSet_Elements_set [OF assms(1)]
      orset_gathered_equal [OF gathered])
qed

theorem orset_add_wins_and_convergent_witness:
  "ORSet_Contains (ORSet_Merge (ORSet_Remove (ORSet_Add NewORSet ''x'' ''t1'') ''x'') (ORSet_Add NewORSet ''x'' ''t2'')) ''x'' \<and>
   ORSet_Elements (ORSet_Merge (ORSet_Add NewORSet ''x'' ''t1'') (ORSet_Add NewORSet ''y'' ''t3'')) =
   ORSet_Elements (ORSet_Merge (ORSet_Add NewORSet ''y'' ''t3'') (ORSet_Add NewORSet ''x'' ''t1''))"
  using orset_add_wins_and_convergent [of NewORSet "ORSet_Add NewORSet ''x'' ''t1''" "''x''" "''t2''"
      "ORSet_Add NewORSet ''x'' ''t1''" "[ORSet_Add NewORSet ''y'' ''t3'']" "ORSet_Add NewORSet ''y'' ''t3''"
      "[ORSet_Add NewORSet ''x'' ''t1'']"]
  by (simp add: has_tag_Add insert_commute) (simp add: has_tag_def NewORSet_def tag_set_def)

end
