(* ===== verification/KV_Store.thy ===== *)
theory KV_Store
  imports Consistent_Hash
begin

text \<open>
  The in-memory key-value store, \<^verbatim>\<open>internal/store/store.go\<close>: entries with a vector clock, a
  time stamp and a time to live, under their ring identifier. Every method holds the store's
  lock throughout and hands out deep copies, so the state is a value: \<open>Clone\<close> copies field by
  field and a nil slice or map is the empty list. \<open>now\<close> is the wall clock that
  \<^verbatim>\<open>time.Since\<close> reads. The lemmas show that the store is a finite map (an instance of the
  interface \<open>keyed_store\<close>), that range transfers split it exactly, and that eviction cannot
  be seen by readers.
\<close>

type_synonym clock = "(string, u64) gomap"

record ValueEntry =
  Key :: ID
  Value :: "byte list"
  Clock :: clock
  Timestamp :: time
  TTL :: duration
  NodeID :: string

definition Clone :: "ValueEntry \<Rightarrow> ValueEntry" where
  "Clone e = \<lparr>Key = Key e, Value = Value e, Clock = Clock e, Timestamp = Timestamp e, TTL = TTL e, NodeID = NodeID e\<rparr>"

definition IsExpired :: "time \<Rightarrow> ValueEntry \<Rightarrow> bool" where
  "IsExpired now e = (if TTL e = 0 then False else time_Sub now (Timestamp e) > TTL e)"

record KVStore =
  kv_entries :: "(ID, ValueEntry) gomap"

definition NewKVStore :: KVStore where
  "NewKVStore = \<lparr>kv_entries = []\<rparr>"

definition Put :: "ValueEntry \<Rightarrow> KVStore \<Rightarrow> KVStore" where
  "Put entry s = s\<lparr>kv_entries := gm_put (Key entry) (Clone entry) (kv_entries s)\<rparr>"

definition Get :: "time \<Rightarrow> KVStore \<Rightarrow> ID \<Rightarrow> ValueEntry option" where
  "Get now s key =
     (case map_of (kv_entries s) key of
        None \<Rightarrow> None
      | Some e \<Rightarrow> if IsExpired now e then None else Some (Clone e))"

definition Delete :: "ID \<Rightarrow> KVStore \<Rightarrow> KVStore \<times> bool" where
  "Delete key s =
     (let ok = map_of (kv_entries s) key \<noteq> None
      in (if ok then s\<lparr>kv_entries := gm_del key (kv_entries s)\<rparr> else s, ok))"

definition toBigInt :: "ID \<Rightarrow> int" where
  "toBigInt b = SetBytes (id_bytes b)"

definition isInRangeRightClosed :: "ID \<Rightarrow> ID \<Rightarrow> ID \<Rightarrow> bool" where
  "isInRangeRightClosed key start end' =
     (if key = end' then True
      else if start = end' then False
      else let keyBig = toBigInt key; startBig = toBigInt start; endBig = toBigInt end'
        in if big_Cmp startBig endBig < 0 then big_Cmp keyBig startBig > 0 \<and> big_Cmp keyBig endBig < 0
           else big_Cmp keyBig startBig > 0 \<or> big_Cmp keyBig endBig < 0)"

definition GetInRange :: "time \<Rightarrow> KVStore \<Rightarrow> ID \<Rightarrow> ID \<Rightarrow> ValueEntry list" where
  "GetInRange now s start end' =
     fold (\<lambda>(key, entry) result.
        if IsExpired now entry then result
        else if isInRangeRightClosed key start end' then result @ [Clone entry] else result)
      (kv_entries s) []"

definition DeleteInRange :: "ID \<Rightarrow> ID \<Rightarrow> KVStore \<Rightarrow> KVStore \<times> ValueEntry list" where
  "DeleteInRange start end' s =
     (let (entries, result) =
        fold (\<lambda>(key, entry) (entries, result).
           if isInRangeRightClosed key start end'
           then (gm_del key entries, result @ [Clone entry]) else (entries, result))
         (kv_entries s) (kv_entries s, [])
      in (s\<lparr>kv_entries := entries\<rparr>, result))"

definition All :: "time \<Rightarrow> KVStore \<Rightarrow> ValueEntry list" where
  "All now s =
     fold (\<lambda>(_, entry) result. if \<not> IsExpired now entry then result @ [Clone entry] else result)
      (kv_entries s) []"

definition Size :: "KVStore \<Rightarrow> nat" where
  "Size s = length (kv_entries s)"

definition evictExpired :: "time \<Rightarrow> KVStore \<Rightarrow> KVStore" where
  "evictExpired now s =
     s\<lparr>kv_entries := fold (\<lambda>(key, entry) entries. if IsExpired now entry then gm_del key entries else entries)
        (kv_entries s) (kv_entries s)\<rparr>"

text \<open>
  The eviction goroutine: the events it selects on are ticks, at the times given, until the
  context is cancelled; later ticks are not received.
\<close>

datatype evict_event = Ticker time | CtxDone

fun StartTTLEviction :: "evict_event list \<Rightarrow> KVStore \<Rightarrow> KVStore" where
  "StartTTLEviction [] s = s"
| "StartTTLEviction (CtxDone # evs) s = s"
| "StartTTLEviction (Ticker now # evs) s = StartTTLEviction evs (evictExpired now s)"

section \<open>The store is a finite map\<close>

definition kv_inv :: "KVStore \<Rightarrow> bool" where
  "kv_inv s \<longleftrightarrow> gm_wf (kv_entries s) \<and> (\<forall>(k, e) \<in> set (kv_entries s). Key e = k)"

definition kv_lookup :: "KVStore \<Rightarrow> ID \<Rightarrow> ValueEntry option" where
  "kv_lookup s k = map_of (kv_entries s) k"

lemma Clone_id [simp]: "Clone e = e"
  by (simp add: Clone_def)

lemma kv_inv_New [simp]: "kv_inv NewKVStore"
  by (simp add: kv_inv_def NewKVStore_def)

lemma kv_inv_Put [simp]: "kv_inv s \<Longrightarrow> kv_inv (Put e s)"
  by (auto simp: kv_inv_def Put_def set_gm_put)

lemma kv_inv_Delete [simp]: "kv_inv s \<Longrightarrow> kv_inv (fst (Delete k s))"
  by (auto simp: kv_inv_def Delete_def Let_def set_gm_del)

interpretation kv: keyed_store Put "\<lambda>k s. fst (Delete k s)" kv_lookup Key "\<lambda>e. e" kv_inv
proof unfold_locales
  show "kv_inv s \<Longrightarrow> kv_lookup (fst (Delete k s)) = (kv_lookup s)(k := None)" for s k
    by (auto simp: Delete_def kv_lookup_def Let_def fun_eq_iff)
  show "kv_inv s \<Longrightarrow> kv_lookup (Put e s) = (kv_lookup s)(Key e \<mapsto> e)" for s e
    by (auto simp: Put_def kv_lookup_def fun_eq_iff)
qed simp_all

lemma Get_lookup: "Get now s k = (case kv_lookup s k of None \<Rightarrow> None | Some e \<Rightarrow> if IsExpired now e then None else Some e)"
  by (simp add: Get_def kv_lookup_def split: option.split)

lemma kv_lookup_entry: "kv_inv s \<Longrightarrow> kv_lookup s k = Some e \<longleftrightarrow> (k, e) \<in> set (kv_entries s)"
  by (simp add: kv_inv_def kv_lookup_def map_of_eq_Some_wf)

lemma kv_lookup_Key: "kv_inv s \<Longrightarrow> kv_lookup s k = Some e \<Longrightarrow> Key e = k"
  by (auto simp: kv_inv_def kv_lookup_entry)

section \<open>Ranges\<close>

lemma big_Cmp_sign [simp]: "big_Cmp x y < 0 \<longleftrightarrow> x < y" "0 < big_Cmp x y \<longleftrightarrow> y < x"
  by (auto simp: big_Cmp_def)

lemma toBigInt_eq [simp]: "toBigInt b = IDToBigInt b"
  by (simp add: toBigInt_def flip: IDToBigInt_def del: IDToBigInt_uint)

lemma isInRange_consistent: "isInRangeRightClosed k s e = IsInIntervalRightClosed k s e"
  by (simp add: isInRangeRightClosed_def IsInIntervalRightClosed_def IsInInterval_def Let_def)

lemma fold_collect:
  "fold (\<lambda>x acc. if P x then acc @ [f x] else acc) xs acc = acc @ map f (filter P xs)"
  by (induction xs arbitrary: acc) auto

lemma GetInRange_filter: "GetInRange now s a b =
    map snd (filter (\<lambda>(k, e). \<not> IsExpired now e \<and> isInRangeRightClosed k a b) (kv_entries s))"
proof -
  have "GetInRange now s a b = fold (\<lambda>x acc. if (\<not> IsExpired now (snd x) \<and> isInRangeRightClosed (fst x) a b)
      then acc @ [snd x] else acc) (kv_entries s) []"
    unfolding GetInRange_def split_def by (rule arg_cong [where f = "\<lambda>f. fold f (kv_entries s) []"]) (auto simp: fun_eq_iff)
  then show ?thesis by (simp only: fold_collect) (simp add: split_def)
qed

lemma All_filter: "All now s = map snd (filter (\<lambda>(k, e). \<not> IsExpired now e) (kv_entries s))"
  unfolding All_def split_def by (simp only: fold_collect Clone_id) simp

lemma DeleteInRange_split:
  assumes "kv_inv s"
  shows "kv_entries (fst (DeleteInRange a b s)) = filter (\<lambda>(k, e). \<not> isInRangeRightClosed k a b) (kv_entries s)"
    and "snd (DeleteInRange a b s) = map snd (filter (\<lambda>(k, e). isInRangeRightClosed k a b) (kv_entries s))"
proof -
  let ?P = "\<lambda>k e. isInRangeRightClosed k a b"
  have loop: "fold (\<lambda>(key, entry) (entries, result). if ?P key entry
        then (gm_del key entries, result @ [Clone entry]) else (entries, result)) m (en, re) =
      (fold (\<lambda>(k, v) acc. if ?P k v then gm_del k acc else acc) m en,
       re @ map snd (filter (\<lambda>(k, v). ?P k v) m))" for m en re
    by (induction m arbitrary: en re) auto
  have wf: "gm_wf (kv_entries s)" using assms by (simp add: kv_inv_def)
  show "kv_entries (fst (DeleteInRange a b s)) = filter (\<lambda>(k, e). \<not> isInRangeRightClosed k a b) (kv_entries s)"
    by (simp only: DeleteInRange_def loop gm_del_loop_self [OF wf]) simp
  show "snd (DeleteInRange a b s) = map snd (filter (\<lambda>(k, e). isInRangeRightClosed k a b) (kv_entries s))"
    by (simp only: DeleteInRange_def loop) simp
qed

lemma evictExpired_entries:
  assumes "kv_inv s"
  shows "kv_entries (evictExpired now s) = filter (\<lambda>(k, e). \<not> IsExpired now e) (kv_entries s)"
  using gm_del_loop_self [of "kv_entries s" "\<lambda>k. IsExpired now"] assms
  by (simp add: evictExpired_def kv_inv_def)

lemma kv_inv_filter: "kv_inv s \<Longrightarrow> kv_entries t = filter P (kv_entries s) \<Longrightarrow> kv_inv t"
  by (auto simp: kv_inv_def)

lemma kv_inv_DeleteInRange [simp]: "kv_inv s \<Longrightarrow> kv_inv (fst (DeleteInRange a b s))"
  by (rule kv_inv_filter [OF _ DeleteInRange_split(1)])

lemma kv_inv_evict [simp]: "kv_inv s \<Longrightarrow> kv_inv (evictExpired now s)"
  by (rule kv_inv_filter [OF _ evictExpired_entries])

text \<open>
  The store as its clients see it. A read after a write returns the written entry unless its
  time to live has elapsed, and a write, a removal or a miss under one key leaves every other
  key alone; \<^verbatim>\<open>Delete\<close> reports whether the key was present.
\<close>

theorem kvstore_read_after_write:
  assumes "kv_inv s"
  shows "Get now (Put e s) k = (if k = Key e then if IsExpired now e then None else Some e else Get now s k) \<and>
    Get now (fst (Delete j s)) k = (if k = j then None else Get now s k) \<and>
    (snd (Delete j s) \<longleftrightarrow> j \<in> fst ` set (kv_entries s)) \<and> kv_inv (Put e s) \<and> kv_inv (fst (Delete j s))"
proof -
  have "snd (Delete j s) \<longleftrightarrow> j \<in> fst ` set (kv_entries s)"
    using map_of_dom_fst [of "kv_entries s" j] by (simp add: Delete_def Let_def)
  then show ?thesis
    using assms kv.get_put [OF assms, of e] kv.get_del [OF assms, of j] by (simp add: Get_lookup)
qed

theorem kvstore_read_after_write_witness:
  "Get 10 (Put \<lparr>Key = 3, Value = [1], Clock = [], Timestamp = 0, TTL = 20, NodeID = ''n''\<rparr> NewKVStore) 3 =
     Some \<lparr>Key = 3, Value = [1], Clock = [], Timestamp = 0, TTL = 20, NodeID = ''n''\<rparr> \<and>
   Get 30 (Put \<lparr>Key = 3, Value = [1], Clock = [], Timestamp = 0, TTL = 20, NodeID = ''n''\<rparr> NewKVStore) 3 = None"
  using kvstore_read_after_write [OF kv_inv_New, of 10 "\<lparr>Key = 3, Value = [1], Clock = [], Timestamp = 0, TTL = 20, NodeID = ''n''\<rparr>" 3]
    kvstore_read_after_write [OF kv_inv_New, of 30 "\<lparr>Key = 3, Value = [1], Clock = [], Timestamp = 0, TTL = 20, NodeID = ''n''\<rparr>" 3]
  by (simp add: IsExpired_def time_Sub_def minDuration_def maxDuration_def)

text \<open>
  Range transfers split the store exactly. \<^verbatim>\<open>DeleteInRange\<close> hands over the entries whose key
  lies in \<^verbatim>\<open>(start, end]\<close> on the ring, expired ones included, and keeps all others, so no
  entry is lost or duplicated; \<^verbatim>\<open>GetInRange\<close> returns the unexpired ones among those handed over.
\<close>

theorem range_transfer_partition:
  assumes "kv_inv s"
  shows "kv_inv (fst (DeleteInRange a b s)) \<and>
    mset (snd (DeleteInRange a b s)) + mset (map snd (kv_entries (fst (DeleteInRange a b s)))) =
      mset (map snd (kv_entries s)) \<and>
    (\<forall>k. kv_lookup (fst (DeleteInRange a b s)) k =
       (if IsInIntervalRightClosed k a b then None else kv_lookup s k)) \<and>
    (\<forall>e. e \<in> set (snd (DeleteInRange a b s)) \<longleftrightarrow>
       kv_lookup s (Key e) = Some e \<and> IsInIntervalRightClosed (Key e) a b) \<and>
    GetInRange now s a b = filter (\<lambda>e. \<not> IsExpired now e) (snd (DeleteInRange a b s))"
proof -
  let ?in = "\<lambda>(k, e :: ValueEntry). isInRangeRightClosed k a b"
  note split = DeleteInRange_split [OF assms, of a b]
  have "mset (filter ?in xs) + mset (filter (\<lambda>p. \<not> ?in p) xs) = mset xs" for xs
    by (induction xs) auto
  then have 1: "mset (snd (DeleteInRange a b s)) + mset (map snd (kv_entries (fst (DeleteInRange a b s)))) =
      mset (map snd (kv_entries s))"
    by (metis (no_types, lifting) split case_prod_beta' image_mset_union mset_map filter_cong)
  have 2: "kv_lookup (fst (DeleteInRange a b s)) k =
       (if IsInIntervalRightClosed k a b then None else kv_lookup s k)" for k
    using assms by (auto simp: kv_lookup_def split(1) map_of_filter_key kv_inv_def isInRange_consistent
        split: option.split)
  have 3: "e \<in> set (snd (DeleteInRange a b s)) \<longleftrightarrow>
       kv_lookup s (Key e) = Some e \<and> IsInIntervalRightClosed (Key e) a b" for e
    using assms unfolding kv_lookup_entry [OF assms] by (force simp: split(2) kv_inv_def isInRange_consistent)
  have 4: "GetInRange now s a b = filter (\<lambda>e. \<not> IsExpired now e) (snd (DeleteInRange a b s))"
    by (simp add: GetInRange_filter split(2) filter_map comp_def split_def conj_commute)
  from 1 2 3 4 assms show ?thesis by simp
qed

theorem range_transfer_partition_witness:
  "snd (DeleteInRange 10 5 (Put \<lparr>Key = 3, Value = [1], Clock = [], Timestamp = 0, TTL = 0, NodeID = ''n''\<rparr> NewKVStore)) =
     [\<lparr>Key = 3, Value = [1], Clock = [], Timestamp = 0, TTL = 0, NodeID = ''n''\<rparr>]"
proof -
  let ?e = "\<lparr>Key = 3, Value = [1], Clock = [], Timestamp = 0, TTL = 0, NodeID = ''n''\<rparr>"
  let ?s = "Put ?e NewKVStore"
  have "kv_inv ?s" by simp
  from range_transfer_partition [OF this, of 10 5]
  have m: "mset (snd (DeleteInRange 10 5 ?s)) + mset (map snd (kv_entries (fst (DeleteInRange 10 5 ?s)))) = {#?e#}"
    and mem: "?e \<in> set (snd (DeleteInRange 10 5 ?s)) \<longleftrightarrow> kv_lookup ?s 3 = Some ?e \<and> IsInIntervalRightClosed 3 10 5"
    by (simp_all add: Put_def NewKVStore_def gm_put_def)
  have "IsInIntervalRightClosed 3 10 5" by (simp add: IsInIntervalRightClosed_def IsInInterval_def)
  then have "?e \<in> set (snd (DeleteInRange 10 5 ?s))"
    using mem by (simp add: kv_lookup_def Put_def NewKVStore_def)
  with m show ?thesis
    by (cases "snd (DeleteInRange 10 5 ?s)") (auto simp: single_is_union)
qed

section \<open>Eviction is invisible\<close>

lemma IsExpired_mono: "IsExpired now e \<Longrightarrow> now \<le> later \<Longrightarrow> IsExpired later e"
  by (auto simp: IsExpired_def time_Sub_def split: if_splits)

lemma Get_evict:
  assumes "kv_inv s" "now \<le> later"
  shows "Get later (evictExpired now s) k = Get later s k"
proof -
  have "kv_lookup (evictExpired now s) k =
      (case kv_lookup s k of None \<Rightarrow> None | Some e \<Rightarrow> if IsExpired now e then None else Some e)"
    using assms by (auto simp: kv_lookup_def evictExpired_entries map_of_filter_key kv_inv_def split: option.split)
  then show ?thesis
    using IsExpired_mono [OF _ assms(2)] by (auto simp: Get_lookup split: option.split)
qed

text \<open>
  The eviction goroutine never changes what a reader sees: after any run of it whose ticks
  are not in the reader's future, every read returns what it would have returned without
  eviction, and the store still satisfies its invariant and holds no new entries.
\<close>

theorem ttl_eviction_invisible:
  assumes "kv_inv s" "\<forall>t. Ticker t \<in> set evs \<longrightarrow> t \<le> now"
  shows "Get now (StartTTLEviction evs s) k = Get now s k \<and> kv_inv (StartTTLEviction evs s) \<and>
    Size (StartTTLEviction evs s) \<le> Size s"
  using assms
proof (induction evs s rule: StartTTLEviction.induct)
  case (3 t evs s)
  then have "kv_inv (evictExpired t s)" "t \<le> now" by auto
  moreover have "Size (evictExpired t s) \<le> Size s"
    using "3.prems" by (simp add: Size_def evictExpired_entries)
  ultimately show ?case using "3.IH" "3.prems" by (auto simp: Get_evict intro: le_trans)
qed auto

theorem ttl_eviction_invisible_witness:
  "Get 30 (StartTTLEviction [Ticker 25, CtxDone] (Put \<lparr>Key = 3, Value = [1], Clock = [], Timestamp = 0, TTL = 20, NodeID = ''n''\<rparr> NewKVStore)) 3 = None"
proof -
  let ?s = "Put \<lparr>Key = 3, Value = [1], Clock = [], Timestamp = 0, TTL = 20, NodeID = ''n''\<rparr> NewKVStore"
  have "Get 30 ?s 3 = None"
    by (simp add: Get_def Put_def NewKVStore_def IsExpired_def time_Sub_def minDuration_def maxDuration_def)
  moreover have "kv_inv ?s" by simp
  ultimately show ?thesis using ttl_eviction_invisible [of ?s "[Ticker 25, CtxDone]" 30 3] by auto
qed

section \<open>Handing a whole store over\<close>

text \<open>Writing a snapshot of one store into another: the snapshot's entries win.\<close>

lemma option_eq_by_Some: "(\<And>e. x = Some e \<longleftrightarrow> y = Some e) \<Longrightarrow> x = y"
  by (cases x; cases y) auto

lemma map_of_All:
  assumes "kv_inv s"
  shows "map_of (rev (map (\<lambda>e. (Key e, e)) (All now s))) k = Get now s k"
proof -
  let ?kvs = "map (\<lambda>e. (Key e, e)) (All now s)"
  have keys: "map fst ?kvs = map fst (filter (\<lambda>(k, e). \<not> IsExpired now e) (kv_entries s))"
    using assms by (auto simp: All_filter kv_inv_def)
  have "gm_wf (filter (\<lambda>(k, e). \<not> IsExpired now e) (kv_entries s))" using assms by (simp add: kv_inv_def)
  then have "gm_wf (rev ?kvs)" unfolding gm_wf_def rev_map [symmetric] distinct_rev keys .
  then have m: "map_of (rev ?kvs) k = Some e \<longleftrightarrow> (k, e) \<in> set ?kvs" for e
    by (subst map_of_eq_Some_wf) (simp_all only: set_rev)
  have "(k, e) \<in> set ?kvs \<longleftrightarrow> kv_lookup s k = Some e \<and> \<not> IsExpired now e" for e
    using assms unfolding kv_lookup_entry [OF assms] by (force simp: All_filter kv_inv_def)
  moreover have "(kv_lookup s k = Some e \<and> \<not> IsExpired now e) \<longleftrightarrow> Get now s k = Some e" for e
    by (auto simp: Get_lookup split: option.split)
  ultimately have "map_of (rev ?kvs) k = Some e \<longleftrightarrow> Get now s k = Some e" for e using m by blast
  then show ?thesis by (rule option_eq_by_Some)
qed

lemma kv_lookup_puts_All:
  assumes "kv_inv s" "kv_inv t"
  shows "kv_lookup (fold Put (All now s) t) k = (case Get now s k of Some e \<Rightarrow> Some e | None \<Rightarrow> kv_lookup t k)"
  using kv.get_puts [OF assms(2), of "All now s"] map_of_All [OF assms(1)] by (simp add: map_add_def)

lemma kv_inv_puts: "kv_inv s \<Longrightarrow> kv_inv (fold Put es s)"
  by (rule kv.inv_puts)

end
