(* ===== verification/Transport.thy ===== *)
theory Transport
  imports KV_Store Complex_Main
begin

text \<open>
  The in-process transport, \<^verbatim>\<open>internal/transport\<close> (\<^verbatim>\<open>interface.go\<close>, \<^verbatim>\<open>context.go\<close>,
  \<^verbatim>\<open>inprocess.go\<close>): a registry of handlers with simulated loss, partitions and per-link
  latency. Handlers are references \<open>'h\<close> to node objects; the protocol theories interpret
  them. A sleep has no effect on the state and is left out; \<^verbatim>\<open>rand.Float64\<close> is the sequence
  \<open>it_rng\<close> of draws, of which \<open>it_pos\<close> have been consumed. A context carries only its sender:
  deadlines have no effect on an in-process call.
\<close>

record NodeRef =
  nr_ID :: ID
  nr_Addr :: string

record HopEvent =
  hop_FromNode :: string
  hop_ToNode :: string
  hop_Mechanism :: string
  hop_HopIndex :: int

datatype TransportError = ErrNodeNotFound | ErrSimulatedLoss | ErrPartitioned

type_synonym ctx = "NodeRef option"

definition WithSender :: "ctx \<Rightarrow> NodeRef \<Rightarrow> ctx" where
  "WithSender ctx sender = Some sender"

definition senderFromContext :: "ctx \<Rightarrow> NodeRef option" where
  "senderFromContext ctx =
     (case ctx of
        None \<Rightarrow> None
      | Some sender \<Rightarrow> if nr_Addr sender = [] then None else Some sender)"

record 'h InProcessTransport =
  it_registry :: "(string, 'h) gomap"
  it_delay :: duration
  it_lossRate :: rat
  it_partitions :: "string list list"
  it_latencyMatrix :: "(string, (string, duration) gomap) gomap"
  it_rng :: "nat \<Rightarrow> rat"
  it_pos :: nat

record LinkLatency =
  ll_From :: string
  ll_To :: string
  ll_Delay :: duration

definition NewInProcessTransport :: "(nat \<Rightarrow> rat) \<Rightarrow> duration \<Rightarrow> rat \<Rightarrow> 'h InProcessTransport" where
  "NewInProcessTransport rng delay lossRate =
     \<lparr>it_registry = [], it_delay = delay, it_lossRate = lossRate, it_partitions = [], it_latencyMatrix = [],
      it_rng = rng, it_pos = 0\<rparr>"

definition SetSimulation :: "duration \<Rightarrow> rat \<Rightarrow> 'h InProcessTransport \<Rightarrow> 'h InProcessTransport" where
  "SetSimulation delay lossRate t = t\<lparr>it_delay := delay, it_lossRate := lossRate\<rparr>"

definition SetLinkLatency :: "string \<Rightarrow> string \<Rightarrow> duration \<Rightarrow> 'h InProcessTransport \<Rightarrow> 'h InProcessTransport" where
  "SetLinkLatency from to d t =
     (let row = (case map_of (it_latencyMatrix t) from of None \<Rightarrow> [] | Some row \<Rightarrow> row);
          row = (if d = 0 then gm_del to row else gm_put to d row)
      in t\<lparr>it_latencyMatrix := gm_put from row (it_latencyMatrix t)\<rparr>)"

definition GetLinkLatency :: "string \<Rightarrow> string \<Rightarrow> 'h InProcessTransport \<Rightarrow> duration" where
  "GetLinkLatency from to t =
     (case map_of (it_latencyMatrix t) from of
        Some row \<Rightarrow> (case map_of row to of None \<Rightarrow> 0 | Some d \<Rightarrow> d)
      | None \<Rightarrow> 0)"

definition Register :: "string \<Rightarrow> 'h \<Rightarrow> 'h InProcessTransport \<Rightarrow> 'h InProcessTransport" where
  "Register addr handler t = t\<lparr>it_registry := gm_put addr handler (it_registry t)\<rparr>"

definition Deregister :: "string \<Rightarrow> 'h InProcessTransport \<Rightarrow> 'h InProcessTransport" where
  "Deregister addr t = t\<lparr>it_registry := gm_del addr (it_registry t)\<rparr>"

definition SetPartitions :: "string list list \<Rightarrow> 'h InProcessTransport \<Rightarrow> 'h InProcessTransport" where
  "SetPartitions groups t = t\<lparr>it_partitions := groups\<rparr>"

definition ClearPartitions :: "'h InProcessTransport \<Rightarrow> 'h InProcessTransport" where
  "ClearPartitions t = t\<lparr>it_partitions := []\<rparr>"

definition Partitions :: "'h InProcessTransport \<Rightarrow> string list list" where
  "Partitions t = it_partitions t"

definition ClearLinkLatencies :: "'h InProcessTransport \<Rightarrow> 'h InProcessTransport" where
  "ClearLinkLatencies t = t\<lparr>it_latencyMatrix := []\<rparr>"

definition LinkLatencies :: "'h InProcessTransport \<Rightarrow> LinkLatency list" where
  "LinkLatencies t =
     concat (map (\<lambda>(from, row).
       concat (map (\<lambda>(to, delay). if delay \<le> 0 then [] else [\<lparr>ll_From = from, ll_To = to, ll_Delay = delay\<rparr>]) row))
       (it_latencyMatrix t))"

definition lookup :: "string \<Rightarrow> 'h InProcessTransport \<Rightarrow> 'h InProcessTransport \<times> (TransportError + 'h)" where
  "lookup addr t =
     (if it_lossRate t > 0 \<and> it_rng t (it_pos t) < it_lossRate t
      then (t\<lparr>it_pos := it_pos t + 1\<rparr>, Inl ErrSimulatedLoss)
      else
        let t = (if it_lossRate t > 0 then t\<lparr>it_pos := it_pos t + 1\<rparr> else t)
        in case map_of (it_registry t) addr of
             None \<Rightarrow> (t, Inl ErrNodeNotFound)
           | Some h \<Rightarrow> (t, Inr h))"

text \<open>The group of an address: the scan keeps the last group that lists it, \<open>-1\<close> if none does.\<close>

definition group_of :: "string list list \<Rightarrow> string \<Rightarrow> int" where
  "group_of partitions a =
     fold (\<lambda>(gi, group) g. fold (\<lambda>addr g. if addr = a then int gi else g) group g)
       (zip [0..<length partitions] partitions) (-1)"

definition lookupFrom :: "string \<Rightarrow> string \<Rightarrow> 'h InProcessTransport \<Rightarrow> 'h InProcessTransport \<times> (TransportError + 'h)" where
  "lookupFrom fromAddr toAddr t =
     (if it_partitions t \<noteq> [] \<and> fromAddr \<noteq> [] \<and>
         (let fromGroup = group_of (it_partitions t) fromAddr; toGroup = group_of (it_partitions t) toAddr
          in fromGroup \<ge> 0 \<and> toGroup \<ge> 0 \<and> fromGroup \<noteq> toGroup)
      then (t, Inl ErrPartitioned)
      else lookup toAddr t)"

definition lookupForContext :: "ctx \<Rightarrow> string \<Rightarrow> 'h InProcessTransport \<Rightarrow> 'h InProcessTransport \<times> (TransportError + 'h)" where
  "lookupForContext ctx toAddr t =
     (case senderFromContext ctx of
        Some sender \<Rightarrow> lookupFrom (nr_Addr sender) toAddr t
      | None \<Rightarrow> lookup toAddr t)"

section \<open>What a call can observe\<close>

text \<open>A transport without simulated loss and without partitions.\<close>

definition reliable :: "'h InProcessTransport \<Rightarrow> bool" where
  "reliable t \<longleftrightarrow> it_lossRate t \<le> 0 \<and> it_partitions t = []"

lemma lookup_reliable [simp]:
  "reliable t \<Longrightarrow> lookup a t = (t, case map_of (it_registry t) a of None \<Rightarrow> Inl ErrNodeNotFound | Some h \<Rightarrow> Inr h)"
  by (auto simp: lookup_def reliable_def Let_def split: option.split)

lemma lookupForContext_reliable [simp]:
  "reliable t \<Longrightarrow> lookupForContext c a t =
     (t, case map_of (it_registry t) a of None \<Rightarrow> Inl ErrNodeNotFound | Some h \<Rightarrow> Inr h)"
  by (auto simp: lookupForContext_def lookupFrom_def reliable_def lookup_def split: option.split)

lemma lookupFrom_reliable [simp]:
  "reliable t \<Longrightarrow> lookupFrom f a t =
     (t, case map_of (it_registry t) a of None \<Rightarrow> Inl ErrNodeNotFound | Some h \<Rightarrow> Inr h)"
  by (auto simp: lookupFrom_def reliable_def lookup_def split: option.split)

text \<open>A lookup changes nothing but the number of draws consumed.\<close>

definition same_net :: "'h InProcessTransport \<Rightarrow> 'h InProcessTransport \<Rightarrow> bool" where
  "same_net t t' \<longleftrightarrow> t' = t\<lparr>it_pos := it_pos t'\<rparr>"

lemma same_net_refl [simp]: "same_net t t"
  by (simp add: same_net_def)

lemma same_net_trans: "same_net t1 t2 \<Longrightarrow> same_net t2 t3 \<Longrightarrow> same_net t1 t3"
  unfolding same_net_def by (metis InProcessTransport.surjective InProcessTransport.update_convs(7))

lemma same_net_fields:
  "same_net t t' \<Longrightarrow> it_registry t' = it_registry t" "same_net t t' \<Longrightarrow> reliable t' = reliable t"
  unfolding same_net_def reliable_def
  by (metis InProcessTransport.select_convs InProcessTransport.surjective InProcessTransport.update_convs(7))+

lemma lookup_same_net: "lookup a t = (t', r) \<Longrightarrow> same_net t t'"
  by (auto simp: lookup_def same_net_def Let_def split: if_splits option.splits)

lemma lookupFrom_same_net: "lookupFrom f a t = (t', r) \<Longrightarrow> same_net t t'"
  by (auto simp: lookupFrom_def dest: lookup_same_net split: if_splits)

lemma lookupForContext_same_net: "lookupForContext c a t = (t', r) \<Longrightarrow> same_net t t'"
  by (auto simp: lookupForContext_def dest: lookup_same_net lookupFrom_same_net split: option.splits)

lemma lookup_Inr: "lookup a t = (t', Inr h) \<Longrightarrow> map_of (it_registry t) a = Some h"
  by (auto simp: lookup_def Let_def split: if_splits option.splits)

lemma lookupFrom_Inr: "lookupFrom f a t = (t', Inr h) \<Longrightarrow> map_of (it_registry t) a = Some h"
  by (auto simp: lookupFrom_def dest: lookup_Inr split: if_splits)

lemma lookupForContext_Inr: "lookupForContext c a t = (t', Inr h) \<Longrightarrow> map_of (it_registry t) a = Some h"
  by (auto simp: lookupForContext_def dest: lookup_Inr lookupFrom_Inr split: option.splits)

lemma group_of_inner: "fold (\<lambda>addr g. if addr = a then v else g) xs g = (if a \<in> set xs then v else g)"
  by (induction xs arbitrary: g) auto

lemma group_of_spec:
  assumes "\<forall>i < length ps. \<forall>j < length ps. i \<noteq> j \<longrightarrow> set (ps ! i) \<inter> set (ps ! j) = {}"
  shows "i < length ps \<Longrightarrow> a \<in> set (ps ! i) \<Longrightarrow> group_of ps a = int i"
    and "\<forall>g \<in> set ps. a \<notin> set g \<Longrightarrow> group_of ps a = -1"
proof -
  have loop: "fold (\<lambda>(gi, group) g. fold (\<lambda>addr g. if addr = a then int gi else g) group g) zs g =
      (case filter (\<lambda>(gi, group). a \<in> set group) zs of [] \<Rightarrow> g | ys \<Rightarrow> int (fst (last ys)))" for zs g
    by (induction zs arbitrary: g) (auto simp: group_of_inner split: list.split)
  show "group_of ps a = -1" if "\<forall>g \<in> set ps. a \<notin> set g"
  proof -
    have "filter (\<lambda>(gi, group). a \<in> set group) (zip [0..<length ps] ps) = []"
      using that by (auto simp: filter_empty_conv dest: set_zip_rightD)
    then show ?thesis unfolding group_of_def loop by simp
  qed
  show "group_of ps a = int i" if i: "i < length ps" "a \<in> set (ps ! i)"
  proof -
    let ?ys = "filter (\<lambda>(gi, group). a \<in> set group) (zip [0..<length ps] ps)"
    have mem: "(j, g) \<in> set ?ys \<longleftrightarrow> j < length ps \<and> g = ps ! j \<and> a \<in> set g" for j g
      by (auto simp: set_zip intro: exI [of _ j])
    have "(i, ps ! i) \<in> set ?ys" using i mem by blast
    then have "?ys \<noteq> []" by force
    then have "last ?ys \<in> set ?ys" by (rule last_in_set)
    moreover obtain j g where jg: "last ?ys = (j, g)" by fastforce
    ultimately have "j < length ps" "a \<in> set (ps ! j)" using mem by auto
    then have "fst (last ?ys) = i" using assms i jg by (metis disjoint_iff fst_conv)
    then show ?thesis unfolding group_of_def loop using \<open>?ys \<noteq> []\<close> by (auto split: list.split)
  qed
qed

text \<open>
  What simulated faults do. Without loss, a call between two addresses fails with
  \<^verbatim>\<open>ErrPartitioned\<close> exactly when the two are listed in different groups (the groups being
  disjoint); otherwise it reaches the handler registered under the target address, or fails
  with \<^verbatim>\<open>ErrNodeNotFound\<close> when there is none. An address in no group is never cut off.
\<close>

theorem transport_partition_semantics:
  assumes "\<forall>i < length (it_partitions t). \<forall>j < length (it_partitions t). i \<noteq> j \<longrightarrow>
      set (it_partitions t ! i) \<inter> set (it_partitions t ! j) = {}"
    and "it_lossRate t \<le> 0" "from \<noteq> []"
  shows "lookupFrom from to t =
    (t, if \<exists>i < length (it_partitions t). \<exists>j < length (it_partitions t). i \<noteq> j \<and>
            from \<in> set (it_partitions t ! i) \<and> to \<in> set (it_partitions t ! j)
        then Inl ErrPartitioned
        else case map_of (it_registry t) to of None \<Rightarrow> Inl ErrNodeNotFound | Some h \<Rightarrow> Inr h)"
proof -
  let ?ps = "it_partitions t"
  note g = group_of_spec [OF assms(1)]
  have group: "group_of ?ps a = int i \<longleftrightarrow> a \<in> set (?ps ! i)" if "i < length ?ps" for a i
  proof
    assume gi: "group_of ?ps a = int i"
    then have "group_of ?ps a \<noteq> -1" by simp
    then obtain j where "j < length ?ps" "a \<in> set (?ps ! j)" using g(2) [of a] by (metis in_set_conv_nth)
    with g(1) gi show "a \<in> set (?ps ! i)" by simp
  qed (use g(1) that in simp)
  have "(group_of ?ps from \<ge> 0 \<and> group_of ?ps to \<ge> 0 \<and> group_of ?ps from \<noteq> group_of ?ps to) \<longleftrightarrow>
      (\<exists>i < length ?ps. \<exists>j < length ?ps. i \<noteq> j \<and> from \<in> set (?ps ! i) \<and> to \<in> set (?ps ! j))"
    (is "?l \<longleftrightarrow> ?r")
  proof
    have ex: "\<exists>i < length ?ps. a \<in> set (?ps ! i)" if "group_of ?ps a \<ge> 0" for a
    proof -
      have "group_of ?ps a \<noteq> -1" using that by simp
      then show ?thesis using g(2) [of a] by (metis in_set_conv_nth)
    qed
    assume l: ?l
    then obtain i j where ij: "i < length ?ps" "from \<in> set (?ps ! i)" "j < length ?ps" "to \<in> set (?ps ! j)"
      using ex by blast
    then have "i \<noteq> j" using g(1) l by auto
    with ij show ?r by blast
  next
    assume ?r
    then show ?l using g(1) by force
  qed
  moreover have "lookup to t = (t, case map_of (it_registry t) to of None \<Rightarrow> Inl ErrNodeNotFound | Some h \<Rightarrow> Inr h)"
    using assms(2) by (auto simp: lookup_def split: option.split)
  moreover have "?ps = [] \<Longrightarrow> \<not> (\<exists>i < length ?ps. \<exists>j < length ?ps. i \<noteq> j \<and> from \<in> set (?ps ! i) \<and> to \<in> set (?ps ! j))" by simp
  ultimately show ?thesis using assms(3) unfolding lookupFrom_def Let_def by auto
qed

theorem transport_partition_semantics_witness:
  "snd (lookupFrom ''a'' ''b'' (SetPartitions [[''a''], [''b'']] (Register ''b'' () (NewInProcessTransport (\<lambda>_. 0) 0 0)))) =
     Inl ErrPartitioned \<and>
   snd (lookupFrom ''c'' ''b'' (SetPartitions [[''a''], [''b'']] (Register ''b'' () (NewInProcessTransport (\<lambda>_. 0) 0 0)))) = Inr ()"
proof -
  let ?t = "SetPartitions [[''a''], [''b'']] (Register ''b'' () (NewInProcessTransport (\<lambda>_. 0) 0 0))"
  have t: "it_partitions ?t = [[''a''], [''b'']]" "it_lossRate ?t = 0" "it_registry ?t = [(''b'', ())]"
    by (simp_all add: SetPartitions_def Register_def NewInProcessTransport_def gm_put_def)
  have "\<forall>i < length (it_partitions ?t). \<forall>j < length (it_partitions ?t). i \<noteq> j \<longrightarrow>
      set (it_partitions ?t ! i) \<inter> set (it_partitions ?t ! j) = {}"
    by (auto simp: t less_Suc_eq)
  note part = transport_partition_semantics [OF this, unfolded t]
  have "\<exists>i < length [[''a''], [''b'']]. \<exists>j < length [[''a''], [''b'']]. i \<noteq> j \<and>
      ''a'' \<in> set ([[''a''], [''b'']] ! i) \<and> ''b'' \<in> set ([[''a''], [''b'']] ! j)"
    by (rule exI [of _ 0]) auto
  moreover have "\<not> (\<exists>i < length [[''a''], [''b'']]. \<exists>j < length [[''a''], [''b'']]. i \<noteq> j \<and>
      ''c'' \<in> set ([[''a''], [''b'']] ! i) \<and> ''b'' \<in> set ([[''a''], [''b'']] ! j))"
    by (auto simp: less_Suc_eq)
  ultimately show ?thesis
    using part [of "''a''" "''b''"] part [of "''c''" "''b''"] by (simp only: if_True if_False) simp
qed

end
