(* ===== verification/Event_Bus.thy ===== *)
theory Event_Bus
  imports KV_Store Complex_Main "HOL-Library.Sublist"
begin

text \<open>
  Events and the publish/subscribe bus, \<^verbatim>\<open>internal/events/types.go\<close> and \<^verbatim>\<open>bus.go\<close>. A payload is
  kept as the structure that \<^verbatim>\<open>MakeEvent\<close> marshals; its JSON text is not modelled. The bus is
  a state machine whose steps are the atomic actions of the goroutines involved: a
  non-blocking send, a critical section under the bus lock, the closing of a channel, one
  delivery of the dispatcher. Interleavings are then sequences of steps, and a run-time panic
  (send on a closed channel, second close) is the outcome \<open>None\<close> of a step.
\<close>

section \<open>Events\<close>

datatype EventType =
    EventNodeJoin | EventNodeLeave | EventNodeCrash | EventStabilize | EventFixFingers | EventNotify
  | EventKeyMigrate | EventLookupStart | EventLookupHop | EventLookupComplete | EventWriteQuorum
  | EventReadQuorum | EventVectorClock | EventConflict | EventGossipSync | EventBucketUpdate
  | EventRepublish | EventRingState | EventScenarioStep | EventReplicationLag | EventAll

text \<open>
  The payload structures, with their fields in the order of the source. The step event of a
  scenario carries a map of named values.
\<close>

datatype step_value = StepInt int | StepString string | StepFloat rat

datatype Payload =
    NodeJoinPayload string string string string
  | NodeLeavePayload string int
  | NodeCrashPayload string
  | StabilizePayload string string string
  | FixFingersPayload string int string
  | NotifyPayload string string
  | KeyMigratePayload string string int
  | LookupStartPayload string string string
  | LookupHopPayload string string string int
  | LookupCompletePayload string string string int int
  | WriteQuorumPayload string int int int bool int
  | ReplicationLagPayload string int int int
  | ReadQuorumPayload string int int int bool
  | ConflictDetectedPayload string string string "(string \<times> time \<times> clock) list"
  | GossipSyncPayload string string int int int
  | BucketUpdatePayload string int string string
  | RepublishPayload string string
  | StepEventPayload string int int string "(string \<times> step_value) list"

record Event =
  ev_Type :: EventType
  ev_Timestamp :: time
  ev_Payload :: Payload

definition MakeEvent :: "time \<Rightarrow> EventType \<Rightarrow> Payload \<Rightarrow> Event" where
  "MakeEvent now t payload = \<lparr>ev_Type = t, ev_Timestamp = now, ev_Payload = payload\<rparr>"

section \<open>The bus\<close>

text \<open>
  A subscriber channel is a number; \<open>eb_chans\<close> gives its buffered events and whether it is
  closed. \<open>eb_pending\<close> is the dispatcher between two deliveries: the event and the copied
  subscribers still to be served. \<open>eb_closing\<close> holds the channels that \<^verbatim>\<open>Unsubscribe\<close> has
  removed and not yet closed; \<open>eb_running\<close> tells that the goroutine of \<^verbatim>\<open>run\<close> has not
  returned.
\<close>

type_synonym chan = nat

record EventBus =
  eb_publish :: "Event list"
  eb_subs :: "(chan, EventType list) gomap"
  eb_history :: "Event list"
  eb_histMax :: nat
  eb_stopped :: bool
  eb_chans :: "(Event list \<times> bool) list"
  eb_pending :: "(Event \<times> (chan \<times> EventType list) list) option"
  eb_closing :: "chan list"
  eb_running :: bool

definition publishCap :: nat where "publishCap = 1000"
definition subscriberCap :: nat where "subscriberCap = 256"

definition NewEventBus :: EventBus where
  "NewEventBus = \<lparr>eb_publish = [], eb_subs = [], eb_history = [], eb_histMax = 500, eb_stopped = False,
     eb_chans = [], eb_pending = None, eb_closing = [], eb_running = True\<rparr>"

definition Publish :: "Event \<Rightarrow> EventBus \<Rightarrow> EventBus" where
  "Publish event b =
     (if length (eb_publish b) < publishCap then b\<lparr>eb_publish := eb_publish b @ [event]\<rparr> else b)"

definition Subscribe :: "EventType list \<Rightarrow> EventBus \<Rightarrow> EventBus \<times> chan" where
  "Subscribe types b =
     (let ch = length (eb_chans b)
      in (b\<lparr>eb_chans := eb_chans b @ [([], False)], eb_subs := gm_put ch types (eb_subs b)\<rparr>, ch))"

text \<open>The two actions of \<^verbatim>\<open>Unsubscribe\<close>: the critical section, then the close outside it.\<close>

definition Unsubscribe_delete :: "chan \<Rightarrow> EventBus \<Rightarrow> EventBus" where
  "Unsubscribe_delete ch b = b\<lparr>eb_subs := gm_del ch (eb_subs b), eb_closing := ch # eb_closing b\<rparr>"

definition Unsubscribe_close :: "chan \<Rightarrow> EventBus \<Rightarrow> EventBus option" where
  "Unsubscribe_close ch b =
     (let (buf, closed) = eb_chans b ! ch
      in if closed then None
         else Some (b\<lparr>eb_chans := (eb_chans b)[ch := (buf, True)], eb_closing := remove1 ch (eb_closing b)\<rparr>))"

definition History :: "EventBus \<Rightarrow> Event list" where
  "History b = eb_history b"

definition Stop :: "EventBus \<Rightarrow> EventBus option" where
  "Stop b = (if eb_stopped b then None else Some (b\<lparr>eb_stopped := True\<rparr>))"

definition matchesType :: "EventType list \<Rightarrow> EventType \<Rightarrow> bool" where
  "matchesType types t = list_ex (\<lambda>ty. ty = EventAll \<or> ty = t) types"

text \<open>
  The critical section of \<^verbatim>\<open>dispatch\<close>: append to the history and copy the subscribers. The map
  is iterated in an arbitrary order, which \<open>order\<close> gives.
\<close>

definition record_history :: "Event \<Rightarrow> EventBus \<Rightarrow> EventBus" where
  "record_history event b =
     (let h = eb_history b @ [event]
      in b\<lparr>eb_history := (if length h > eb_histMax b then drop (length h - eb_histMax b) h else h)\<rparr>)"

definition dispatch_begin :: "Event \<Rightarrow> (chan \<times> EventType list) list \<Rightarrow> EventBus \<Rightarrow> EventBus" where
  "dispatch_begin event order b =
     (let b = record_history event b in b\<lparr>eb_pending := Some (event, order)\<rparr>)"

text \<open>A non-blocking send: it panics on a closed channel and drops when the buffer is full.\<close>

definition chan_send :: "chan \<Rightarrow> Event \<Rightarrow> EventBus \<Rightarrow> EventBus option" where
  "chan_send ch event b =
     (let (buf, closed) = eb_chans b ! ch
      in if closed then None
         else if length buf < subscriberCap
         then Some (b\<lparr>eb_chans := (eb_chans b)[ch := (buf @ [event], closed)]\<rparr>)
         else Some b)"

definition deliver_one :: "EventBus \<Rightarrow> EventBus option" where
  "deliver_one b =
     (case eb_pending b of
        None \<Rightarrow> Some b
      | Some (event, []) \<Rightarrow> Some (b\<lparr>eb_pending := None\<rparr>)
      | Some (event, (ch, types) # rest) \<Rightarrow>
          let b' = b\<lparr>eb_pending := Some (event, rest)\<rparr>
          in if matchesType types (ev_Type event) then chan_send ch event b' else Some b')"

text \<open>\<^verbatim>\<open>dispatch\<close> as a whole, when no other goroutine takes a step meanwhile.\<close>

definition dispatch :: "Event \<Rightarrow> (chan \<times> EventType list) list \<Rightarrow> EventBus \<Rightarrow> EventBus option" where
  "dispatch event order b =
     (let b = record_history event b
      in fold (\<lambda>(ch, types) r. case r of None \<Rightarrow> None | Some b \<Rightarrow>
           if matchesType types (ev_Type event) then chan_send ch event b else Some b) order (Some b))"

section \<open>Steps of the goroutines\<close>

text \<open>
  A label names the goroutine's action and the event it moves. After \<^verbatim>\<open>Stop\<close> the select of
  \<^verbatim>\<open>run\<close> may choose either ready case: it takes a waiting event (\<open>receive\<close>) or returns (\<open>exit\<close>).
\<close>

datatype bus_label =
    LPublish Event | LSubscribe "EventType list" | LUnsubscribe chan | LClose chan
  | LReceive Event "(chan \<times> EventType list) list" | LDeliver | LConsume chan Event | LStop | LExit

inductive bus_step :: "EventBus \<Rightarrow> bus_label \<Rightarrow> EventBus option \<Rightarrow> bool" where
  publish: "bus_step b (LPublish e) (Some (Publish e b))"
| subscribe: "bus_step b (LSubscribe ts) (Some (fst (Subscribe ts b)))"
| unsubscribe: "ch < length (eb_chans b) \<Longrightarrow> bus_step b (LUnsubscribe ch) (Some (Unsubscribe_delete ch b))"
| close: "ch \<in> set (eb_closing b) \<Longrightarrow> bus_step b (LClose ch) (Unsubscribe_close ch b)"
| receive: "eb_running b \<Longrightarrow> eb_pending b = None \<Longrightarrow> eb_publish b = e # es \<Longrightarrow> mset order = mset (eb_subs b) \<Longrightarrow>
    bus_step b (LReceive e order) (Some (dispatch_begin e order (b\<lparr>eb_publish := es\<rparr>)))"
| deliver: "eb_pending b \<noteq> None \<Longrightarrow> bus_step b LDeliver (deliver_one b)"
| consume: "ch < length (eb_chans b) \<Longrightarrow> eb_chans b ! ch = (e # buf, c) \<Longrightarrow>
    bus_step b (LConsume ch e) (Some (b\<lparr>eb_chans := (eb_chans b)[ch := (buf, c)]\<rparr>))"
| stop: "bus_step b LStop (Stop b)"
| exit: "eb_running b \<Longrightarrow> eb_stopped b \<Longrightarrow> eb_pending b = None \<Longrightarrow>
    bus_step b LExit (Some (b\<lparr>eb_running := False\<rparr>))"

text \<open>A run ends in a panic (\<open>None\<close>) or in a state.\<close>

inductive bus_run :: "EventBus \<Rightarrow> bus_label list \<Rightarrow> EventBus option \<Rightarrow> bool" where
  run_Nil: "bus_run b [] (Some b)"
| run_Cons: "bus_step b l (Some b') \<Longrightarrow> bus_run b' ls r \<Longrightarrow> bus_run b (l # ls) r"
| run_Panic: "bus_step b l None \<Longrightarrow> bus_run b (l # ls) None"

inductive_cases bus_step_elims: "bus_step b l r"

section \<open>History\<close>

interpretation eb: bounded_log record_history eb_history eb_histMax
  by unfold_locales (auto simp: record_history_def Let_def)

lemma record_history_simps [simp]:
  "eb_subs (record_history e b) = eb_subs b" "eb_chans (record_history e b) = eb_chans b"
  "eb_histMax (record_history e b) = eb_histMax b" "eb_publish (record_history e b) = eb_publish b"
  "eb_closing (record_history e b) = eb_closing b" "eb_stopped (record_history e b) = eb_stopped b"
  "eb_pending (record_history e b) = eb_pending b"
  by (simp_all add: record_history_def Let_def)

section \<open>Delivery\<close>

lemma chan_send_open:
  "eb_chans b ! ch = (buf, False) \<Longrightarrow> chan_send ch e b =
     Some (b\<lparr>eb_chans := (eb_chans b)[ch := (if length buf < subscriberCap then buf @ [e] else buf, False)]\<rparr>)"
  by (simp add: chan_send_def list_update_same_conv [THEN iffD2])
     (metis (no_types, lifting) EventBus.cases EventBus.update_convs(6) EventBus.select_convs(6) list_update_id)

lemma dispatch_loop_delivers:
  assumes "gm_wf ss" "\<forall>ch \<in> fst ` set ss. ch < length (eb_chans b) \<and> \<not> snd (eb_chans b ! ch)"
  shows "\<exists>b'. fold (\<lambda>(ch, types) r. case r of None \<Rightarrow> None | Some b \<Rightarrow>
       if matchesType types (ev_Type e) then chan_send ch e b else Some b) ss (Some b) = Some b' \<and>
     length (eb_chans b') = length (eb_chans b) \<and>
     (\<forall>ch < length (eb_chans b). eb_chans b' ! ch =
       (case map_of ss ch of
          Some types \<Rightarrow> if matchesType types (ev_Type e) \<and> length (fst (eb_chans b ! ch)) < subscriberCap
            then (fst (eb_chans b ! ch) @ [e], False) else eb_chans b ! ch
        | None \<Rightarrow> eb_chans b ! ch))"
  using assms
proof (induction ss arbitrary: b)
  case (Cons s ss)
  obtain ch types where s: "s = (ch, types)" by (cases s)
  have ch: "ch < length (eb_chans b)" "\<not> snd (eb_chans b ! ch)" "map_of ss ch = None"
    using Cons.prems by (auto simp: s map_of_dom_fst)
  then obtain buf where buf: "eb_chans b ! ch = (buf, False)" by (cases "eb_chans b ! ch") auto
  let ?b = "if matchesType types (ev_Type e)
    then b\<lparr>eb_chans := (eb_chans b)[ch := (if length buf < subscriberCap then buf @ [e] else buf, False)]\<rparr> else b"
  have step: "(if matchesType types (ev_Type e) then chan_send ch e b else Some b) = Some ?b"
    using buf by (simp add: chan_send_open)
  have "\<forall>c \<in> fst ` set ss. c < length (eb_chans ?b) \<and> \<not> snd (eb_chans ?b ! c)"
    using Cons.prems by (auto simp: s nth_list_update)
  then obtain b' where b': "fold (\<lambda>(ch, types) r. case r of None \<Rightarrow> None | Some b \<Rightarrow>
       if matchesType types (ev_Type e) then chan_send ch e b else Some b) ss (Some ?b) = Some b'"
     "length (eb_chans b') = length (eb_chans ?b)"
     "\<forall>c < length (eb_chans ?b). eb_chans b' ! c =
       (case map_of ss c of
          Some types \<Rightarrow> if matchesType types (ev_Type e) \<and> length (fst (eb_chans ?b ! c)) < subscriberCap
            then (fst (eb_chans ?b ! c) @ [e], False) else eb_chans ?b ! c
        | None \<Rightarrow> eb_chans ?b ! c)"
    using Cons.IH [of ?b] Cons.prems by (auto simp: s)
  show ?case
  proof (intro exI [of _ b'] conjI allI impI)
    show "fold (\<lambda>(ch, types) r. case r of None \<Rightarrow> None | Some b \<Rightarrow>
       if matchesType types (ev_Type e) then chan_send ch e b else Some b) (s # ss) (Some b) = Some b'"
      using b'(1) step by (simp add: s)
    show "length (eb_chans b') = length (eb_chans b)" using b'(2) by simp
    fix c assume c: "c < length (eb_chans b)"
    show "eb_chans b' ! c = (case map_of (s # ss) c of
          Some types \<Rightarrow> if matchesType types (ev_Type e) \<and> length (fst (eb_chans b ! c)) < subscriberCap
            then (fst (eb_chans b ! c) @ [e], False) else eb_chans b ! c
        | None \<Rightarrow> eb_chans b ! c)"
    proof (cases "c = ch")
      case True
      then show ?thesis using b'(3) [rule_format, of c] c ch buf by (simp add: s)
    next
      case False
      then have eq: "eb_chans ?b ! c = eb_chans b ! c" "length (eb_chans ?b) = length (eb_chans b)" by simp_all
      show ?thesis using b'(3) [rule_format, of c, unfolded eq, OF c] False by (simp add: s)
    qed
  qed
qed simp

text \<open>
  An undisturbed dispatch. When every subscribed channel is open, \<^verbatim>\<open>dispatch\<close> does not
  panic and appends the event to exactly the channels whose subscription matches its type
  and whose buffer has room; every other channel is left as it was.
\<close>

theorem dispatch_delivers_matching:
  assumes "gm_wf (eb_subs b)" "\<forall>ch \<in> fst ` set (eb_subs b). ch < length (eb_chans b) \<and> \<not> snd (eb_chans b ! ch)"
    and "mset order = mset (eb_subs b)"
  shows "\<exists>b'. dispatch e order b = Some b' \<and> length (eb_chans b') = length (eb_chans b) \<and>
     (\<forall>ch < length (eb_chans b). eb_chans b' ! ch =
       (case map_of (eb_subs b) ch of
          Some types \<Rightarrow> if (EventAll \<in> set types \<or> ev_Type e \<in> set types) \<and> length (fst (eb_chans b ! ch)) < 256
            then (fst (eb_chans b ! ch) @ [e], False) else eb_chans b ! ch
        | None \<Rightarrow> eb_chans b ! ch))"
proof -
  have m: "matchesType types t \<longleftrightarrow> EventAll \<in> set types \<or> t \<in> set types" for types t
    by (auto simp: matchesType_def list_ex_iff)
  have wf: "gm_wf order" using assms(1,3) by (metis gm_wf_def mset_eq_imp_distinct_iff mset_map)
  have keys: "set order = set (eb_subs b)" using assms(3) by (metis set_mset_mset)
  have "map_of order ch = map_of (eb_subs b) ch" for ch
    using map_of_eq_Some_wf [OF wf, of ch] map_of_eq_Some_wf [OF assms(1), of ch] unfolding keys
    by (metis not_None_eq)
  with dispatch_loop_delivers [OF wf, of "record_history e b" e] assms(2) keys show ?thesis
    unfolding dispatch_def Let_def m subscriberCap_def record_history_simps by simp
qed

theorem dispatch_delivers_matching_witness:
  "\<exists>b'. dispatch (MakeEvent 1 EventNodeCrash (NodeCrashPayload ''n'')) [(1, [EventAll]), (0, [EventGossipSync])]
      (fst (Subscribe [EventAll] (fst (Subscribe [EventGossipSync] NewEventBus)))) = Some b' \<and>
    eb_chans b' ! 0 = ([], False) \<and> eb_chans b' ! 1 = ([MakeEvent 1 EventNodeCrash (NodeCrashPayload ''n'')], False)"
proof -
  let ?e = "MakeEvent 1 EventNodeCrash (NodeCrashPayload ''n'')" and ?o = "[(1, [EventAll]), (0, [EventGossipSync])]"
  let ?b = "fst (Subscribe [EventAll] (fst (Subscribe [EventGossipSync] NewEventBus)))"
  have b: "eb_subs ?b = [(0, [EventGossipSync]), (1, [EventAll])]" "eb_chans ?b = [([], False), ([], False)]"
    by (simp_all add: Subscribe_def NewEventBus_def gm_put_def)
  from dispatch_delivers_matching [of ?b ?o ?e] obtain b' where b': "dispatch ?e ?o ?b = Some b'"
    "\<forall>ch < 2. eb_chans b' ! ch =
       (case map_of [(0, [EventGossipSync]), (1, [EventAll])] ch of
          Some types \<Rightarrow> if (EventAll \<in> set types \<or> EventNodeCrash \<in> set types) \<and> length (fst ([([], False), ([], False)] ! ch)) < 256
            then (fst ([([], False), ([], False)] ! ch) @ [?e], False) else [([], False), ([], False)] ! ch
        | None \<Rightarrow> [([], False), ([], False)] ! ch)"
    by (auto simp: b MakeEvent_def numeral_2_eq_2 less_Suc_eq)
  from b'(2) [rule_format, of 0] b'(2) [rule_format, of 1] b'(1) show ?thesis by simp
qed

section \<open>Invariant of every run\<close>

definition bus_inv :: "EventBus \<Rightarrow> bool" where
  "bus_inv b \<longleftrightarrow> length (eb_publish b) \<le> publishCap \<and> length (eb_history b) \<le> 500 \<and> eb_histMax b = 500 \<and>
     (\<forall>c \<in> set (eb_chans b). length (fst c) \<le> subscriberCap) \<and>
     (\<forall>ch \<in> fst ` set (eb_subs b). ch < length (eb_chans b)) \<and> (\<forall>ch \<in> set (eb_closing b). ch < length (eb_chans b)) \<and>
     (\<forall>e ss. eb_pending b = Some (e, ss) \<longrightarrow> (\<forall>ch \<in> fst ` set ss. ch < length (eb_chans b)))"

lemma bus_inv_New [simp]: "bus_inv NewEventBus"
  by (simp add: bus_inv_def NewEventBus_def)

lemma bus_inv_chans:
  assumes "bus_inv b" "length (fst c) \<le> subscriberCap"
  shows "bus_inv (b\<lparr>eb_chans := (eb_chans b)[ch := c]\<rparr>)"
proof -
  have "\<forall>x \<in> set ((eb_chans b)[ch := c]). length (fst x) \<le> subscriberCap"
    using assms set_update_subset_insert [of "eb_chans b" ch c] by (auto simp: bus_inv_def)
  with assms show ?thesis by (simp add: bus_inv_def)
qed

lemma bus_inv_chan_send:
  assumes "bus_inv b" "chan_send ch e b = Some b'" "ch < length (eb_chans b)"
  shows "bus_inv b'"
  using assms bus_inv_chans [OF assms(1)] by (auto simp: chan_send_def Let_def split: prod.splits if_splits)

lemma bus_inv_deliver:
  assumes "bus_inv b" "deliver_one b = Some b'"
  shows "bus_inv b'"
proof (cases "eb_pending b")
  case None
  with assms show ?thesis by (simp add: deliver_one_def)
next
  case (Some p)
  obtain e ss where p: "p = (e, ss)" by (cases p)
  show ?thesis
  proof (cases ss)
    case Nil
    with Some p assms have "b' = b\<lparr>eb_pending := None\<rparr>" by (simp add: deliver_one_def)
    with assms(1) show ?thesis by (simp add: bus_inv_def)
  next
    case (Cons s rest)
    obtain ch types where s: "s = (ch, types)" by (cases s)
    let ?b = "b\<lparr>eb_pending := Some (e, rest)\<rparr>"
    have "bus_inv ?b" "ch < length (eb_chans ?b)"
      using assms(1) Some p Cons s by (auto simp: bus_inv_def)
    moreover have "(if matchesType types (ev_Type e) then chan_send ch e ?b else Some ?b) = Some b'"
      using assms(2) Some p Cons s by (simp add: deliver_one_def Let_def)
    ultimately show ?thesis by (auto intro: bus_inv_chan_send split: if_splits)
  qed
qed

lemma bus_inv_record: "bus_inv b \<Longrightarrow> bus_inv (record_history e b)"
  using eb.bounded_push [of b e] by (auto simp: bus_inv_def)

lemma bus_inv_step: "bus_step b l (Some b') \<Longrightarrow> bus_inv b \<Longrightarrow> bus_inv b'"
proof (erule bus_step_elims, goal_cases)
  case (1 e)
  then show ?case by (auto simp: bus_inv_def Publish_def)
next
  case (2 ts)
  then show ?case by (auto simp: bus_inv_def Subscribe_def Let_def gm_put_def dom_update less_SucI)
next
  case (3 ch)
  then show ?case by (auto simp: bus_inv_def Unsubscribe_delete_def set_gm_del)
next
  case (4 ch)
  then obtain buf where b': "b' = b\<lparr>eb_chans := (eb_chans b)[ch := (buf, True)], eb_closing := remove1 ch (eb_closing b)\<rparr>"
      and buf: "eb_chans b ! ch = (buf, False)"
    by (auto simp: Unsubscribe_close_def Let_def split: prod.splits if_splits)
  have "ch < length (eb_chans b)" using 4 by (auto simp: bus_inv_def)
  then have "length buf \<le> subscriberCap" using buf 4 nth_mem [of ch "eb_chans b"] by (force simp: bus_inv_def)
  then have "bus_inv (b\<lparr>eb_chans := (eb_chans b)[ch := (buf, True)]\<rparr>)" using 4 by (intro bus_inv_chans) auto
  then show ?case unfolding b' bus_inv_def using set_remove1_subset [of ch "eb_closing b"] by auto
next
  case (5 e es order)
  then have "bus_inv (b\<lparr>eb_publish := es\<rparr>)" by (auto simp: bus_inv_def)
  from bus_inv_record [OF this, of e] have "bus_inv (dispatch_begin e order (b\<lparr>eb_publish := es\<rparr>))"
    using mset_eq_setD [of order "eb_subs b"] 5 by (auto simp: dispatch_begin_def Let_def bus_inv_def)
  with 5 show ?case by simp
next
  case 6
  then show ?case by (auto intro: bus_inv_deliver)
next
  case (7 ch e buf c)
  then have "length buf \<le> subscriberCap" using nth_mem [of ch "eb_chans b"] by (force simp: bus_inv_def)
  with 7 show ?case by (auto intro!: bus_inv_chans)
next
  case 8
  then show ?case by (auto simp: bus_inv_def Stop_def split: if_splits)
next
  case 9
  then show ?case by (auto simp: bus_inv_def)
qed

lemma bus_inv_run: "bus_run b ls r \<Longrightarrow> r = Some b' \<Longrightarrow> bus_inv b \<Longrightarrow> bus_inv b'"
  by (induction rule: bus_run.induct) (auto dest: bus_inv_step)

section \<open>What the subscribers receive\<close>

text \<open>
  The history of a run is read off its labels: the events published and dispatched, the types
  of each subscription (the channels are numbered in the order of the subscriptions), the
  events a subscriber has taken from its channel, and the events dispatched since a
  subscription.
\<close>

definition published :: "bus_label list \<Rightarrow> Event list" where
  "published ls = concat (map (\<lambda>l. case l of LPublish e \<Rightarrow> [e] | _ \<Rightarrow> []) ls)"

definition dispatched :: "bus_label list \<Rightarrow> Event list" where
  "dispatched ls = concat (map (\<lambda>l. case l of LReceive e _ \<Rightarrow> [e] | _ \<Rightarrow> []) ls)"

definition subscriptions :: "bus_label list \<Rightarrow> EventType list list" where
  "subscriptions ls = concat (map (\<lambda>l. case l of LSubscribe ts \<Rightarrow> [ts] | _ \<Rightarrow> []) ls)"

definition consumed :: "chan \<Rightarrow> bus_label list \<Rightarrow> Event list" where
  "consumed ch ls = concat (map (\<lambda>l. case l of LConsume c e \<Rightarrow> (if c = ch then [e] else []) | _ \<Rightarrow> []) ls)"

fun dispatched_since :: "chan \<Rightarrow> bus_label list \<Rightarrow> Event list" where
  "dispatched_since ch [] = []"
| "dispatched_since ch (LSubscribe ts # ls) = (case ch of 0 \<Rightarrow> dispatched ls | Suc c \<Rightarrow> dispatched_since c ls)"
| "dispatched_since ch (_ # ls) = dispatched_since ch ls"

lemma label_lists_simps [simp]:
  "published [] = []" "dispatched [] = []" "subscriptions [] = []" "consumed ch [] = []"
  "published (ls @ [l]) = published ls @ (case l of LPublish e \<Rightarrow> [e] | _ \<Rightarrow> [])"
  "dispatched (ls @ [l]) = dispatched ls @ (case l of LReceive e _ \<Rightarrow> [e] | _ \<Rightarrow> [])"
  "subscriptions (ls @ [l]) = subscriptions ls @ (case l of LSubscribe ts \<Rightarrow> [ts] | _ \<Rightarrow> [])"
  "consumed ch (ls @ [l]) = consumed ch ls @ (case l of LConsume c e \<Rightarrow> (if c = ch then [e] else []) | _ \<Rightarrow> [])"
  by (simp_all add: published_def dispatched_def subscriptions_def consumed_def)

lemma subscriptions_Cons:
  "subscriptions (l # ls) = (case l of LSubscribe ts \<Rightarrow> ts # subscriptions ls | _ \<Rightarrow> subscriptions ls)"
  by (simp add: subscriptions_def split: bus_label.split)

lemma dispatched_since_snoc [simp]:
  "dispatched_since ch (ls @ [l]) =
     (if ch < length (subscriptions ls) then dispatched_since ch ls @ (case l of LReceive e _ \<Rightarrow> [e] | _ \<Rightarrow> []) else [])"
proof (induction ch ls rule: dispatched_since.induct)
  case (1 ch)
  then show ?case by (cases l) (auto split: nat.split)
qed (auto simp: subscriptions_Cons split: nat.split)

text \<open>The event in the dispatcher's hands, for a channel it still has to serve.\<close>

definition in_flight :: "chan \<Rightarrow> EventBus \<Rightarrow> Event list" where
  "in_flight ch b = (case eb_pending b of None \<Rightarrow> []
     | Some (e, ss) \<Rightarrow> (case map_of ss ch of None \<Rightarrow> [] | Some types \<Rightarrow> if matchesType types (ev_Type e) then [e] else []))"

definition wanted :: "chan \<Rightarrow> bus_label list \<Rightarrow> Event list" where
  "wanted ch past = filter (\<lambda>e. matchesType (subscriptions past ! ch) (ev_Type e)) (dispatched_since ch past)"

definition arrived :: "chan \<Rightarrow> bus_label list \<Rightarrow> EventBus \<Rightarrow> Event list" where
  "arrived ch past b = consumed ch past @ fst (eb_chans b ! ch)"

text \<open>
  The invariant of the streams: what arrived at a channel and what is in flight to it is a
  subsequence of what it wants, and all of it as long as the channel is subscribed and its
  buffer has never been full.
\<close>

definition chan_ok :: "bus_label list \<Rightarrow> EventBus \<Rightarrow> chan \<Rightarrow> bool" where
  "chan_ok past b ch \<longleftrightarrow> subseq (arrived ch past b @ in_flight ch b) (wanted ch past) \<and>
     (ch \<in> fst ` set (eb_subs b) \<and> length (wanted ch past) \<le> subscriberCap \<longrightarrow>
        arrived ch past b @ in_flight ch b = wanted ch past)"

definition typed_subs :: "bus_label list \<Rightarrow> (chan \<times> EventType list) list \<Rightarrow> bool" where
  "typed_subs past ss \<longleftrightarrow> gm_wf ss \<and> (\<forall>(ch, types) \<in> set ss. ch < length (subscriptions past) \<and> types = subscriptions past ! ch)"

definition stream_inv :: "bus_label list \<Rightarrow> EventBus \<Rightarrow> bool" where
  "stream_inv past b \<longleftrightarrow> bus_inv b \<and> length (subscriptions past) = length (eb_chans b) \<and> typed_subs past (eb_subs b) \<and>
     (\<forall>e ss. eb_pending b = Some (e, ss) \<longrightarrow> typed_subs past ss) \<and>
     (\<forall>ch. length (eb_chans b) \<le> ch \<longrightarrow> consumed ch past = [] \<and> dispatched_since ch past = []) \<and>
     eb_history b = drop (length (dispatched past) - 500) (dispatched past) \<and>
     subseq (dispatched past @ eb_publish b) (published past) \<and>
     (length (published past) \<le> publishCap \<longrightarrow> dispatched past @ eb_publish b = published past) \<and>
     (\<forall>ch < length (eb_chans b). chan_ok past b ch)"

lemma typed_subs_snoc: "typed_subs past ss \<Longrightarrow> typed_subs (past @ [l]) ss"
  by (auto simp: typed_subs_def nth_append less_SucI split: bus_label.split)

lemma wanted_snoc:
  assumes "ch < length (subscriptions past)"
  shows "wanted ch (past @ [l]) = wanted ch past @
    (case l of LReceive e _ \<Rightarrow> if matchesType (subscriptions past ! ch) (ev_Type e) then [e] else [] | _ \<Rightarrow> [])"
  using assms by (simp add: wanted_def nth_append split: bus_label.split)

lemma typed_subs_lookup:
  "typed_subs past ss \<Longrightarrow> map_of ss ch = (if ch \<in> fst ` set ss then Some (subscriptions past ! ch) else None)"
  by (auto simp: typed_subs_def map_of_dom_fst map_of_eq_Some_wf split_beta)

text \<open>A step that moves no event keeps the streams as they are.\<close>

lemma chan_ok_quiet:
  assumes "chan_ok past b ch" "ch < length (subscriptions past)" "case l of LReceive _ _ \<Rightarrow> False | LConsume _ _ \<Rightarrow> False | _ \<Rightarrow> True"
    and "fst (eb_chans b' ! ch) = fst (eb_chans b ! ch)" "eb_pending b' = eb_pending b"
    and "ch \<in> fst ` set (eb_subs b') \<Longrightarrow> ch \<in> fst ` set (eb_subs b)"
  shows "chan_ok (past @ [l]) b' ch"
proof -
  have "wanted ch (past @ [l]) = wanted ch past" using assms(3) by (cases l) (simp_all add: wanted_snoc [OF assms(2)])
  moreover have "arrived ch (past @ [l]) b' = arrived ch past b" using assms(3,4) by (cases l) (simp_all add: arrived_def)
  moreover have "in_flight ch b' = in_flight ch b" by (simp add: in_flight_def assms(5))
  ultimately show ?thesis using assms(1,6) by (auto simp: chan_ok_def)
qed

lemma chan_ok_receive:
  assumes "chan_ok past b ch" "ch < length (subscriptions past)" "typed_subs past order" "mset order = mset (eb_subs b)"
    and "eb_pending b = None"
  shows "chan_ok (past @ [LReceive e order]) (dispatch_begin e order (b\<lparr>eb_publish := es\<rparr>)) ch"
proof -
  let ?b = "dispatch_begin e order (b\<lparr>eb_publish := es\<rparr>)" and ?p = "past @ [LReceive e order]"
  have keys: "fst ` set order = fst ` set (eb_subs b)" using mset_eq_setD [OF assms(4)] by simp
  have b: "eb_subs ?b = eb_subs b" "eb_chans ?b = eb_chans b" "eb_pending ?b = Some (e, order)"
    by (simp_all add: dispatch_begin_def)
  have none: "in_flight ch b = []" by (simp add: in_flight_def assms(5))
  have w: "wanted ch ?p = wanted ch past @ (if matchesType (subscriptions past ! ch) (ev_Type e) then [e] else [])"
    by (simp add: wanted_snoc [OF assms(2)])
  have f: "in_flight ch ?b = (if ch \<in> fst ` set (eb_subs b) \<and> matchesType (subscriptions past ! ch) (ev_Type e) then [e] else [])"
    by (simp add: in_flight_def b typed_subs_lookup [OF assms(3)] keys)
  have a: "arrived ch ?p ?b = arrived ch past b" by (simp add: arrived_def b)
  have "subseq (arrived ch past b) (wanted ch past @ xs)" for xs
    using assms(1) list_emb_append_mono [of "(=)" "arrived ch past b" "wanted ch past" "[]" xs] by (simp add: chan_ok_def none)
  then show ?thesis using assms(1) unfolding chan_ok_def a w f b(1) none by auto
qed

lemma chan_ok_consume:
  assumes "chan_ok past b ch" "ch < length (subscriptions past)" "ch < length (eb_chans b)" "eb_chans b ! c = (e # buf, cl)"
  shows "chan_ok (past @ [LConsume c e]) (b\<lparr>eb_chans := (eb_chans b)[c := (buf, cl)]\<rparr>) ch"
proof -
  let ?b = "b\<lparr>eb_chans := (eb_chans b)[c := (buf, cl)]\<rparr>"
  have "arrived ch (past @ [LConsume c e]) ?b = arrived ch past b"
    using assms(3,4) by (cases "c = ch") (simp_all add: arrived_def)
  moreover have "wanted ch (past @ [LConsume c e]) = wanted ch past" by (simp add: wanted_snoc [OF assms(2)])
  moreover have "in_flight ch ?b = in_flight ch b" by (simp add: in_flight_def)
  ultimately show ?thesis using assms(1) by (simp add: chan_ok_def)
qed

text \<open>One delivery: the event moves from the dispatcher's hands to the buffer, or is dropped.\<close>

lemma chan_ok_deliver:
  assumes "stream_inv past b" "deliver_one b = Some b'" "ch < length (eb_chans b)"
  shows "chan_ok (past @ [LDeliver]) b' ch"
proof -
  have ok: "chan_ok past b ch" and ch: "ch < length (subscriptions past)" using assms by (simp_all add: stream_inv_def)
  have w: "wanted ch (past @ [LDeliver]) = wanted ch past" by (simp add: wanted_snoc [OF ch])
  consider (idle) "b' = b" | (finished) e where "eb_pending b = Some (e, [])" "b' = b\<lparr>eb_pending := None\<rparr>"
    | (serve) e c types rest where "eb_pending b = Some (e, (c, types) # rest)"
    using assms(2) by (auto simp: deliver_one_def split: option.splits list.splits)
  then show ?thesis
  proof cases
    case idle
    with ok w show ?thesis by (simp add: chan_ok_def arrived_def)
  next
    case finished
    with ok w show ?thesis by (simp add: chan_ok_def arrived_def in_flight_def)
  next
    case serve
    let ?b = "b\<lparr>eb_pending := Some (e, rest)\<rparr>"
    have ts: "typed_subs past ((c, types) # rest)" using assms(1) serve by (simp add: stream_inv_def)
    then have c: "types = subscriptions past ! c" "map_of rest c = None" by (auto simp: typed_subs_def map_of_dom_fst)
    have step: "(if matchesType types (ev_Type e) then chan_send c e ?b else Some ?b) = Some b'"
      using assms(2) serve by (simp add: deliver_one_def Let_def)
    show ?thesis
    proof (cases "c = ch \<and> matchesType types (ev_Type e)")
      case False
      then have "eb_chans b' ! ch = eb_chans b ! ch \<and> eb_subs b' = eb_subs b \<and> eb_pending b' = Some (e, rest)"
        using step by (auto simp: chan_send_def split: if_splits prod.splits)
      moreover from False this have "in_flight ch b' = in_flight ch b"
        using serve c by (auto simp: in_flight_def split: option.split)
      ultimately show ?thesis using ok w by (simp add: chan_ok_def arrived_def)
    next
      case True
      obtain buf where buf: "eb_chans b ! ch = (buf, False)"
        using step True by (cases "eb_chans b ! ch") (auto simp: chan_send_def split: if_splits)
      have f: "in_flight ch b = [e]" "in_flight ch b' = []"
        and b': "eb_subs b' = eb_subs b" "fst (eb_chans b' ! ch) = (if length buf < subscriberCap then buf @ [e] else buf)"
        using step True serve c buf assms(3) by (auto simp: in_flight_def chan_send_def split: if_splits)
      have a: "arrived ch past b = consumed ch past @ buf" by (simp add: arrived_def buf)
      have sub: "subseq (consumed ch past @ buf) (wanted ch past)"
        using ok unfolding chan_ok_def f a by (metis append_Nil2 append.assoc list_emb_Nil list_emb_append_mono subseq_order.order_refl subseq_order.trans)
      show ?thesis
      proof (cases "length buf < subscriberCap")
        case room: True
        then show ?thesis using ok w f b' buf unfolding chan_ok_def arrived_def by simp
      next
        case full: False
        have "consumed ch past @ buf @ [e] = wanted ch past \<Longrightarrow> \<not> length (wanted ch past) \<le> subscriberCap"
          using full by (metis append_assoc length_append_singleton length_append not_less_eq_eq le_add2 le_trans not_less)
        with ok sub w f b' full show ?thesis unfolding chan_ok_def arrived_def by (auto simp: buf)
      qed
    qed
  qed
qed

lemma recent_snoc:
  assumes "0 < n"
  shows "(let h = drop (length d - n) d @ [e] in if length h > n then drop (length h - n) h else h) = drop (Suc (length d) - n) (d @ [e])"
  using assms by (cases "n \<le> length d") (simp_all add: Let_def Suc_diff_le)

lemma stream_inv_New [simp]: "stream_inv [] NewEventBus"
  by (simp add: stream_inv_def bus_inv_New [simplified NewEventBus_def] typed_subs_def NewEventBus_def)

lemma stream_inv_step:
  assumes "bus_step b l (Some b')" "stream_inv past b"
  shows "stream_inv (past @ [l]) b'"
proof -
  have inv: "bus_inv b'" using assms bus_inv_step by (auto simp: stream_inv_def)
  have len: "length (subscriptions past) = length (eb_chans b)" using assms(2) by (simp add: stream_inv_def)
  have old: "chan_ok past b ch" if "ch < length (eb_chans b)" for ch using assms(2) that by (simp add: stream_inv_def)
  note quiet = chan_ok_quiet [OF old, unfolded len]
  note facts = assms(2) [unfolded stream_inv_def]
  from assms(1) show ?thesis
  proof (cases rule: bus_step.cases)
    case (publish e)
    then have same: "eb_subs b' = eb_subs b" "eb_chans b' = eb_chans b" "eb_pending b' = eb_pending b" "eb_history b' = eb_history b"
      "eb_publish b' = eb_publish b @ (if length (eb_publish b) < publishCap then [e] else [])"
      by (simp_all add: Publish_def)
    have "chan_ok (past @ [l]) b' ch" if "ch < length (eb_chans b)" for ch
      using that by (intro quiet) (simp_all add: publish(1) same)
    moreover have "subseq (dispatched past @ eb_publish b') (published past @ [e])"
      using facts list_emb_append_mono [of "(=)" "dispatched past @ eb_publish b" "published past" _ "[e]"] by (simp add: same)
    moreover have "length (published past) < publishCap \<Longrightarrow> dispatched past @ eb_publish b' = published past @ [e]"
      using facts by (simp add: same) (metis le_add2 le_less_trans length_append order_less_imp_le)
    ultimately show ?thesis using facts inv by (simp add: stream_inv_def publish(1) same typed_subs_snoc Suc_le_eq)
  next
    case (subscribe ts)
    let ?n = "length (eb_chans b)"
    have same: "eb_subs b' = gm_put ?n ts (eb_subs b)" "eb_chans b' = eb_chans b @ [([], False)]" "eb_pending b' = eb_pending b"
      "eb_history b' = eb_history b" "eb_publish b' = eb_publish b"
      using subscribe by (simp_all add: Subscribe_def Let_def)
    have new: "consumed ?n past = []" using facts by simp
    have none: "map_of ss ?n = None" if "eb_pending b = Some (e, ss)" for e ss
    proof -
      have "\<forall>c \<in> set ss. fst c < ?n" using facts that by (simp add: bus_inv_def)
      then show ?thesis by (auto simp: map_of_eq_None_iff)
    qed
    have "chan_ok (past @ [l]) b' ch" if "ch \<le> ?n" for ch
    proof (cases "ch = ?n")
      case True
      have "in_flight ?n b' = []" using none by (auto simp: in_flight_def same split: option.split)
      then show ?thesis using new by (simp add: True chan_ok_def subscribe(1) same arrived_def wanted_def len)
    next
      case False
      with that show ?thesis by (intro quiet) (simp_all add: subscribe(1) same nth_append gm_put_def dom_update)
    qed
    moreover have "typed_subs (past @ [l]) (gm_put ?n ts (eb_subs b))"
      using facts by (auto simp: typed_subs_def subscribe(1) gm_wf_put set_gm_put nth_append less_SucI)
    ultimately show ?thesis using facts inv by (simp add: stream_inv_def subscribe(1) same typed_subs_snoc less_Suc_eq_le)
  next
    case (unsubscribe ch)
    then have same: "eb_subs b' = gm_del ch (eb_subs b)" "eb_chans b' = eb_chans b" "eb_pending b' = eb_pending b"
      "eb_history b' = eb_history b" "eb_publish b' = eb_publish b"
      by (simp_all add: Unsubscribe_delete_def)
    have "chan_ok (past @ [l]) b' c" if "c < length (eb_chans b)" for c
      using that by (intro quiet) (auto simp: unsubscribe(1) same set_gm_del)
    moreover have "typed_subs (past @ [l]) (gm_del ch (eb_subs b))"
      using facts typed_subs_snoc [of past "eb_subs b" l] by (auto simp: typed_subs_def set_gm_del)
    ultimately show ?thesis using facts inv by (simp add: stream_inv_def unsubscribe(1) same typed_subs_snoc)
  next
    case (close ch)
    then obtain buf where buf: "eb_chans b ! ch = (buf, False)"
        and b': "b' = b\<lparr>eb_chans := (eb_chans b)[ch := (buf, True)], eb_closing := remove1 ch (eb_closing b)\<rparr>"
      by (cases "eb_chans b ! ch") (auto simp: Unsubscribe_close_def split: if_splits)
    have "chan_ok (past @ [l]) b' c" if "c < length (eb_chans b)" for c
      using that buf by (intro quiet; cases "c = ch") (auto simp: close(1) b')
    then show ?thesis using facts inv by (simp add: stream_inv_def close(1) b' typed_subs_snoc)
  next
    case (receive e es order)
    have typed: "typed_subs past order"
    proof -
      have "typed_subs past (eb_subs b)" using facts by blast
      moreover have "set order = set (eb_subs b)" by (rule mset_eq_setD [OF receive(6)])
      moreover have "distinct (map fst order) = distinct (map fst (eb_subs b))"
        by (rule mset_eq_imp_distinct_iff) (simp add: receive(6))
      ultimately show ?thesis by (simp add: typed_subs_def gm_wf_def)
    qed
    have same: "eb_subs b' = eb_subs b" "eb_chans b' = eb_chans b" "eb_pending b' = Some (e, order)" "eb_publish b' = es"
      using receive by (simp_all add: dispatch_begin_def)
    have hist: "eb_history b' = drop (Suc (length (dispatched past)) - 500) (dispatched past @ [e])"
    proof -
      have "eb_histMax b = 500" "eb_history b = drop (length (dispatched past) - 500) (dispatched past)"
        using facts by (simp_all add: bus_inv_def)
      then have "eb_history b' = (let h = drop (length (dispatched past) - 500) (dispatched past) @ [e]
          in if length h > 500 then drop (length h - 500) h else h)"
        using receive(2) by (simp add: dispatch_begin_def record_history_def Let_def)
      then show ?thesis using recent_snoc [of 500 "dispatched past" e] by simp
    qed
    have "chan_ok (past @ [l]) b' ch" if "ch < length (eb_chans b)" for ch
      using chan_ok_receive [OF old [OF that] _ typed receive(6,4)] that receive by (simp add: len)
    then show ?thesis using facts inv typed by (simp add: stream_inv_def receive(1,5) same hist typed_subs_snoc)
  next
    case deliver
    then have *: "deliver_one b = Some b'" by simp
    have same: "eb_subs b' = eb_subs b" "length (eb_chans b') = length (eb_chans b)" "eb_publish b' = eb_publish b" "eb_history b' = eb_history b"
      and pend: "eb_pending b' = Some (e, ss) \<Longrightarrow> \<exists>ss'. eb_pending b = Some (e, ss') \<and> ss = tl ss'" for e ss
      using * deliver(2) by (auto simp: deliver_one_def chan_send_def Let_def split: option.splits list.splits if_splits prod.splits)
    have "typed_subs past (tl ss)" if "typed_subs past ss" for ss
      using that by (cases ss) (auto simp: typed_subs_def gm_wf_def)
    then have "\<forall>e ss. eb_pending b' = Some (e, ss) \<longrightarrow> typed_subs (past @ [l]) ss" using pend facts by (metis typed_subs_snoc)
    then show ?thesis using facts inv chan_ok_deliver [OF assms(2) *] by (simp add: stream_inv_def deliver(1) same typed_subs_snoc)
  next
    case (consume ch e buf c)
    have "chan_ok (past @ [l]) b' k" if "k < length (eb_chans b)" for k
      using chan_ok_consume [OF old [OF that] _ that consume(4)] that consume by (simp add: len)
    then show ?thesis using facts inv consume(3) by (auto simp: stream_inv_def consume(1,2) typed_subs_snoc)
  next
    case stop
    then have b': "b' = b\<lparr>eb_stopped := True\<rparr>" by (simp add: Stop_def split: if_splits)
    have "chan_ok (past @ [l]) b' c" if "c < length (eb_chans b)" for c
      using that by (intro quiet) (simp_all add: stop(1) b')
    then show ?thesis using facts inv by (simp add: stream_inv_def stop(1) b' typed_subs_snoc)
  next
    case exit
    have "chan_ok (past @ [l]) b' c" if "c < length (eb_chans b)" for c
      using that by (intro quiet) (simp_all add: exit)
    then show ?thesis using facts inv by (simp add: stream_inv_def exit(1,2) typed_subs_snoc)
  qed
qed

lemma stream_inv_run: "bus_run b ls r \<Longrightarrow> r = Some b' \<Longrightarrow> stream_inv past b \<Longrightarrow> stream_inv (past @ ls) b'"
proof (induction arbitrary: past rule: bus_run.induct)
  case (run_Cons b l b1 ls r)
  from run_Cons.IH [OF run_Cons.prems(1) stream_inv_step [OF run_Cons.hyps(1) run_Cons.prems(2)]] show ?case by simp
qed auto

text \<open>
  C39. The streams of the event bus, in every interleaving of publishers, subscribers, the
  dispatcher and \<^verbatim>\<open>Stop\<close> from a new bus. The events dispatched so far, followed by those
  waiting, are a subsequence of the events published, in their order, and all of them while at
  most 1000 were published. \<^verbatim>\<open>History\<close> is the last 500 dispatched events, oldest first. What
  a subscriber has taken from its channel and finds in it is a subsequence, in order, of the
  events dispatched since its subscription whose type it asked for. It is exactly that sequence
  when the channel is still subscribed, the dispatcher is between two events and at most 256
  such events were dispatched.
\<close>

theorem bus_streams_in_order:
  assumes "bus_run NewEventBus ls (Some b)"
  shows "subseq (dispatched ls @ eb_publish b) (published ls) \<and>
    (length (published ls) \<le> 1000 \<longrightarrow> dispatched ls @ eb_publish b = published ls) \<and>
    History b = drop (length (dispatched ls) - 500) (dispatched ls) \<and>
    (\<forall>ch < length (subscriptions ls). \<forall>wants.
       wants = filter (\<lambda>e. EventAll \<in> set (subscriptions ls ! ch) \<or> ev_Type e \<in> set (subscriptions ls ! ch)) (dispatched_since ch ls) \<longrightarrow>
         subseq (consumed ch ls @ fst (eb_chans b ! ch)) wants \<and>
         (ch \<in> fst ` set (eb_subs b) \<and> eb_pending b = None \<and> length wants \<le> 256 \<longrightarrow>
            consumed ch ls @ fst (eb_chans b ! ch) = wants))"
proof -
  have inv: "stream_inv ls b" using stream_inv_run [OF assms refl stream_inv_New] by simp
  have m: "matchesType types t \<longleftrightarrow> EventAll \<in> set types \<or> t \<in> set types" for types t
    by (auto simp: matchesType_def list_ex_iff)
  have "subseq (arrived ch ls b) (wanted ch ls) \<and>
      (ch \<in> fst ` set (eb_subs b) \<and> eb_pending b = None \<and> length (wanted ch ls) \<le> 256 \<longrightarrow> arrived ch ls b = wanted ch ls)"
    if "ch < length (subscriptions ls)" for ch
  proof -
    have ok: "chan_ok ls b ch" using inv that by (simp add: stream_inv_def)
    have "subseq (arrived ch ls b) (arrived ch ls b @ in_flight ch b)" by (simp add: prefix_imp_subseq)
    with ok have "subseq (arrived ch ls b) (wanted ch ls)" unfolding chan_ok_def by (metis subseq_order.trans)
    with ok show ?thesis by (auto simp: chan_ok_def in_flight_def subscriberCap_def)
  qed
  with inv show ?thesis
    unfolding arrived_def wanted_def m by (simp add: stream_inv_def publishCap_def History_def)
qed

text \<open>Two subscribers; the event that was waiting when the bus was stopped is still dispatched.\<close>

theorem bus_streams_in_order_witness:
  "\<exists>b. bus_run NewEventBus [LSubscribe [EventGossipSync], LSubscribe [EventAll], LPublish (MakeEvent 1 EventNodeCrash (NodeCrashPayload ''n'')),
       LStop, LReceive (MakeEvent 1 EventNodeCrash (NodeCrashPayload ''n'')) [(1, [EventAll]), (0, [EventGossipSync])],
       LDeliver, LDeliver, LDeliver, LExit] (Some b) \<and>
     History b = [MakeEvent 1 EventNodeCrash (NodeCrashPayload ''n'')] \<and>
     fst (eb_chans b ! 0) = [] \<and> fst (eb_chans b ! 1) = [MakeEvent 1 EventNodeCrash (NodeCrashPayload ''n'')]"
proof -
  define e where "e = MakeEvent 1 EventNodeCrash (NodeCrashPayload ''n'')"
  let ?o = "[(1, [EventAll]), (0, [EventGossipSync])] :: (chan \<times> EventType list) list"
  let ?b = "\<lambda>q h s c p r. \<lparr>eb_publish = q, eb_subs = [(0, [EventGossipSync]), (1, [EventAll])], eb_history = h, eb_histMax = 500,
    eb_stopped = s, eb_chans = [([], False), (c, False)], eb_pending = p, eb_closing = [], eb_running = r\<rparr> :: EventBus"
  let ?ls = "[LSubscribe [EventGossipSync], LSubscribe [EventAll], LPublish e, LStop, LReceive e ?o, LDeliver, LDeliver, LDeliver, LExit]"
  note eval = NewEventBus_def Subscribe_def Publish_def publishCap_def gm_put_def Stop_def dispatch_begin_def record_history_def
    deliver_one_def matchesType_def chan_send_def subscriberCap_def e_def MakeEvent_def
  have 1: "bus_run (?b [e] [] True [] None True) [LReceive e ?o, LDeliver, LDeliver, LDeliver, LExit] (Some (?b [] [e] True [e] None False))"
  proof (intro run_Cons)
    show "bus_step (?b [e] [] True [] None True) (LReceive e ?o) (Some (?b [] [e] True [] (Some (e, ?o)) True))"
      using bus_step.receive [of "?b [e] [] True [] None True" e "[]" ?o] by (simp add: eval add_mset_commute)
    show "bus_step (?b [] [e] True [] (Some (e, ?o)) True) LDeliver (Some (?b [] [e] True [e] (Some (e, tl ?o)) True))"
      using bus_step.deliver [of "?b [] [e] True [] (Some (e, ?o)) True"] by (simp add: eval)
    show "bus_step (?b [] [e] True [e] (Some (e, tl ?o)) True) LDeliver (Some (?b [] [e] True [e] (Some (e, [])) True))"
      using bus_step.deliver [of "?b [] [e] True [e] (Some (e, tl ?o)) True"] by (simp add: eval)
    show "bus_step (?b [] [e] True [e] (Some (e, [])) True) LDeliver (Some (?b [] [e] True [e] None True))"
      using bus_step.deliver [of "?b [] [e] True [e] (Some (e, [])) True"] by (simp add: eval)
    show "bus_step (?b [] [e] True [e] None True) LExit (Some (?b [] [e] True [e] None False))"
      using bus_step.exit [of "?b [] [e] True [e] None True"] by simp
  qed (rule run_Nil)
  have 2: "Some (Publish e (fst (Subscribe [EventAll] (fst (Subscribe [EventGossipSync] NewEventBus))))) = Some (?b [e] [] False [] None True)"
    "Stop (?b [e] [] False [] None True) = Some (?b [e] [] True [] None True)"
    by (simp_all add: eval)
  have 3: "bus_run (?b [e] [] False [] None True) (LStop # [LReceive e ?o, LDeliver, LDeliver, LDeliver, LExit]) (Some (?b [] [e] True [e] None False))"
    by (rule run_Cons [OF _ 1]) (rule bus_step.stop [of "?b [e] [] False [] None True", unfolded 2(2)])
  have 4: "bus_step (fst (Subscribe [EventAll] (fst (Subscribe [EventGossipSync] NewEventBus)))) (LPublish e)
      (Some (?b [e] [] False [] None True))"
    by (subst 2(1) [symmetric]) (rule bus_step.publish)
  have run: "bus_run NewEventBus ?ls (Some (?b [] [e] True [e] None False))"
    by (rule run_Cons [OF bus_step.subscribe run_Cons [OF bus_step.subscribe
run_Cons [OF 4 3]]])
  from bus_streams_in_order [OF run]
  have "History (?b [] [e] True [e] None False) = [e]" by (simp add: dispatched_def)
  with run show ?thesis unfolding e_def [symmetric] by (intro exI [of _ "?b [] [e] True [e] None False"] conjI) simp_all
qed

section \<open>Panics\<close>

definition all_open :: "EventBus \<Rightarrow> bool" where
  "all_open b \<longleftrightarrow> (\<forall>c \<in> set (eb_chans b). \<not> snd c) \<and> \<not> eb_stopped b"

lemma all_open_New [simp]: "all_open NewEventBus"
  by (simp add: all_open_def NewEventBus_def)

lemma all_open_chans: "all_open b \<Longrightarrow> \<not> snd c \<Longrightarrow> all_open (b\<lparr>eb_chans := (eb_chans b)[ch := c]\<rparr>)"
  using set_update_subset_insert [of "eb_chans b" ch c] by (auto simp: all_open_def)

lemma deliver_open:
  assumes "bus_inv b" "all_open b"
  shows "\<exists>b'. deliver_one b = Some b' \<and> all_open b'"
proof (cases "\<exists>e ch types rest. eb_pending b = Some (e, (ch, types) # rest)")
  case True
  then obtain e ch types rest where p: "eb_pending b = Some (e, (ch, types) # rest)" by blast
  let ?b = "b\<lparr>eb_pending := Some (e, rest)\<rparr>"
  have "ch < length (eb_chans b)" using assms(1) p by (auto simp: bus_inv_def)
  then have "\<not> snd (eb_chans b ! ch)" using assms(2) by (auto simp: all_open_def)
  then obtain buf where buf: "eb_chans ?b ! ch = (buf, False)" by (cases "eb_chans b ! ch") auto
  have "all_open ?b" using assms(2) by (simp add: all_open_def)
  with all_open_chans [OF this, of "(buf @ [e], False)" ch] buf p show ?thesis
    by (simp add: deliver_one_def Let_def chan_send_def)
next
  case False
  then show ?thesis using assms(2)
    by (cases "eb_pending b" rule: option.exhaust) (auto simp: deliver_one_def all_open_def split: list.splits)
qed

lemma open_step:
  assumes "bus_step b l r" "bus_inv b" "all_open b" "\<forall>ch. l \<noteq> LClose ch" "l \<noteq> LStop"
  shows "\<exists>b'. r = Some b' \<and> all_open b'"
  using assms
proof (cases rule: bus_step.cases)
  case deliver
  with assms deliver_open show ?thesis by blast
next
  case (consume ch e buf c)
  then have "\<not> c" using assms(3) nth_mem [of ch "eb_chans b"] by (force simp: all_open_def)
  with consume assms(3) show ?thesis by (auto intro!: all_open_chans)
qed (auto simp: all_open_def Publish_def Subscribe_def Let_def Unsubscribe_delete_def dispatch_begin_def)

lemma open_run:
  "bus_run b ls r \<Longrightarrow> bus_inv b \<Longrightarrow> all_open b \<Longrightarrow> \<forall>l \<in> set ls. (\<forall>ch. l \<noteq> LClose ch) \<and> l \<noteq> LStop \<Longrightarrow> r \<noteq> None"
proof (induction rule: bus_run.induct)
  case (run_Cons b l b' ls r)
  with open_step [OF run_Cons.hyps(1)] bus_inv_step [OF run_Cons.hyps(1)] show ?case by auto
next
  case (run_Panic b l ls)
  with open_step [OF run_Panic.hyps] show ?case by auto
qed simp

text \<open>
  When the bus can panic. A run in which no channel is closed and the bus is not stopped never
  panics; but \<^verbatim>\<open>Unsubscribe\<close> closes its channel outside the lock, so the dispatcher, which
  copied the subscribers before, can send on the closed channel and crash the process.
\<close>

theorem bus_unsubscribe_race_panics:
  "(\<forall>ls. (\<forall>l \<in> set ls. (\<forall>ch. l \<noteq> LClose ch) \<and> l \<noteq> LStop) \<longrightarrow> \<not> bus_run NewEventBus ls None) \<and>
   bus_run NewEventBus [LSubscribe [EventAll], LPublish e, LReceive e [(0, [EventAll])], LUnsubscribe 0, LClose 0, LDeliver] None"
proof (intro conjI allI impI)
  fix ls :: "bus_label list" assume "\<forall>l \<in> set ls. (\<forall>ch. l \<noteq> LClose ch) \<and> l \<noteq> LStop"
  then show "\<not> bus_run NewEventBus ls None"
    using open_run [OF _ bus_inv_New] all_open_New by blast
next
  let ?b1 = "fst (Subscribe [EventAll] NewEventBus)"
  let ?b2 = "Publish e ?b1"
  let ?b3 = "dispatch_begin e [(0, [EventAll])] (?b2\<lparr>eb_publish := []\<rparr>)"
  let ?b4 = "Unsubscribe_delete 0 ?b3"
  let ?b5 = "?b4\<lparr>eb_chans := [([], True)], eb_closing := []\<rparr>"
  have "bus_step ?b2 (LReceive e [(0, [EventAll])]) (Some ?b3)"
    by (rule bus_step.receive) (simp_all add: Publish_def Subscribe_def NewEventBus_def publishCap_def gm_put_def)
  moreover have "bus_step ?b3 (LUnsubscribe 0) (Some ?b4)"
    by (rule bus_step.unsubscribe) (simp add: dispatch_begin_def Publish_def Subscribe_def NewEventBus_def publishCap_def)
  moreover have "Unsubscribe_close 0 ?b4 = Some ?b5"
    by (simp add: Unsubscribe_close_def Unsubscribe_delete_def dispatch_begin_def Publish_def Subscribe_def
        NewEventBus_def publishCap_def)
  then have "bus_step ?b4 (LClose 0) (Some ?b5)"
    using bus_step.close [of 0 ?b4] by (simp add: Unsubscribe_delete_def)
  moreover have "eb_pending ?b5 = Some (e, [(0, [EventAll])])"
    by (simp add: Unsubscribe_delete_def dispatch_begin_def Publish_def Subscribe_def NewEventBus_def publishCap_def gm_put_def)
  then have "deliver_one ?b5 = None" "eb_pending ?b5 \<noteq> None"
    by (simp_all add: deliver_one_def Let_def matchesType_def chan_send_def)
  then have "bus_step ?b5 LDeliver None" using bus_step.deliver [of ?b5] by simp
  ultimately show "bus_run NewEventBus [LSubscribe [EventAll], LPublish e, LReceive e [(0, [EventAll])], LUnsubscribe 0, LClose 0, LDeliver] None"
    by (meson run_Cons run_Panic bus_step.subscribe bus_step.publish)
qed

theorem bus_unsubscribe_race_panics_witness:
  "\<not> bus_run NewEventBus [LSubscribe [EventAll], LPublish e, LReceive e [(0, [EventAll])], LUnsubscribe 0] None"
  using bus_unsubscribe_race_panics by simp

end
