(* ===== verification/Chord.thy ===== *)
theory Chord
  imports Transport Event_Bus
begin

text \<open>
  The Chord protocol, \<^verbatim>\<open>internal/chord\<close>, over the in-process transport. The state is a network:
  the node objects by reference (a node's address is its reference, and the registry of the
  transport maps addresses to references), the transport, the events published so far and the
  wall clock. An operation of a node takes the node's reference and the network and returns
  the network after it.

  Conventions. Node references are values: the code never mutates a \<^verbatim>\<open>NodeRef\<close> it shares. The
  elements of \<^verbatim>\<open>succList\<close> are addresses of fresh variables, so the list holds references and
  no nil. Every operation replaces the sender of the context it gets by the node itself
  (\<^verbatim>\<open>WithSender\<close>), so the context argument is left out. Lookups and finger-table updates recurse
  through RPCs with no bound of their own: they take fuel, \<open>None\<close> means that the fuel ran out,
  and theory Chord\_Lookup proves how much is enough. Log messages are left out.
\<close>

definition fingerBits :: nat where
  "fingerBits = 160"

record ChordConfig =
  StabilizeInterval :: duration
  FixFingersInterval :: duration
  CheckPredInterval :: duration
  CheckSuccInterval :: duration
  SuccessorListSize :: int
  MaxHops :: int

definition Chord_DefaultConfig :: ChordConfig where
  "Chord_DefaultConfig =
     \<lparr>StabilizeInterval = 500 * 10 ^ 6, FixFingersInterval = 10 ^ 9, CheckPredInterval = 750 * 10 ^ 6,
      CheckSuccInterval = 750 * 10 ^ 6, SuccessorListSize = 8, MaxHops = 3 * int fingerBits\<rparr>"

record ChordNode =
  cn_ID :: ID
  cn_Addr :: string
  cn_successor :: "NodeRef option"
  cn_predecessor :: "NodeRef option"
  cn_fingers :: "NodeRef option list"
  cn_antiFingers :: "NodeRef option list"
  cn_antiFingerIdx :: nat
  cn_succList :: "NodeRef list"
  cn_Store :: KVStore
  cn_Config :: ChordConfig
  cn_stopped :: bool

record ChordNet =
  net_node :: "string \<Rightarrow> ChordNode"
  net_transport :: "string InProcessTransport"
  net_events :: "Event list"
  net_now :: time

text \<open>Errors, with the calls that wrapped them.\<close>

datatype chord_error =
    ETransport TransportError
  | EMaxHops int
  | ERpc string chord_error
  | EForward string chord_error
  | EJoin chord_error
  | EInitFinger chord_error
  | EIndexOutOfRange int
  | EKeyNotFound ID
  | ENilEntry ID
  | ENoKademlia string

section \<open>Access to the network\<close>

definition upd_node :: "string \<Rightarrow> (ChordNode \<Rightarrow> ChordNode) \<Rightarrow> ChordNet \<Rightarrow> ChordNet" where
  "upd_node a f net = net\<lparr>net_node := (net_node net)(a := f (net_node net a))\<rparr>"

definition emit :: "EventType \<Rightarrow> Payload \<Rightarrow> ChordNet \<Rightarrow> ChordNet" where
  "emit t p net = net\<lparr>net_events := net_events net @ [MakeEvent (net_now net) t p]\<rparr>"

text \<open>The handler lookup with which every RPC of the transport begins.\<close>

definition rpc :: "ctx \<Rightarrow> NodeRef \<Rightarrow> ChordNet \<Rightarrow> ChordNet \<times> (TransportError + string)" where
  "rpc ctx target net =
     (let (t, r) = lookupForContext ctx (nr_Addr target) (net_transport net)
      in (net\<lparr>net_transport := t\<rparr>, r))"

definition rpc_from :: "NodeRef \<Rightarrow> NodeRef \<Rightarrow> ChordNet \<Rightarrow> ChordNet \<times> (TransportError + string)" where
  "rpc_from sender target net =
     (let (t, r) = lookupFrom (nr_Addr sender) (nr_Addr target) (net_transport net)
      in (net\<lparr>net_transport := t\<rparr>, r))"

text \<open>A loop whose body may not return.\<close>

fun for_each :: "('i \<Rightarrow> 's \<Rightarrow> 's option) \<Rightarrow> 'i list \<Rightarrow> 's \<Rightarrow> 's option" where
  "for_each body [] s = Some s"
| "for_each body (i # is) s = (case body i s of None \<Rightarrow> None | Some s' \<Rightarrow> for_each body is s')"

section \<open>Nodes (node.go)\<close>

definition selfRef :: "ChordNode \<Rightarrow> NodeRef" where
  "selfRef n = \<lparr>nr_ID = cn_ID n, nr_Addr = cn_Addr n\<rparr>"

definition NewChordNode :: "sha1_fn \<Rightarrow> string \<Rightarrow> ChordConfig option \<Rightarrow> ChordNode" where
  "NewChordNode sha1 addr cfg =
     (let cfg = (case cfg of None \<Rightarrow> Chord_DefaultConfig | Some c \<Rightarrow> c);
          n = \<lparr>cn_ID = NodeIDFromAddr sha1 addr, cn_Addr = addr, cn_successor = None, cn_predecessor = None,
               cn_fingers = replicate fingerBits None, cn_antiFingers = replicate fingerBits None,
               cn_antiFingerIdx = 0, cn_succList = [], cn_Store = NewKVStore, cn_Config = cfg, cn_stopped = False\<rparr>
      in n\<lparr>cn_successor := Some (selfRef n)\<rparr>)"

definition SetSuccessor :: "NodeRef option \<Rightarrow> ChordNode \<Rightarrow> ChordNode" where
  "SetSuccessor ref n =
     (let n = n\<lparr>cn_successor := ref\<rparr>
      in if ref \<noteq> None then n\<lparr>cn_fingers := (cn_fingers n)[0 := ref]\<rparr> else n)"

definition SetPredecessor :: "NodeRef option \<Rightarrow> ChordNode \<Rightarrow> ChordNode" where
  "SetPredecessor ref n = n\<lparr>cn_predecessor := ref\<rparr>"

text \<open>Indexing the finger array panics out of range: \<open>None\<close>.\<close>

definition SetFinger :: "int \<Rightarrow> NodeRef option \<Rightarrow> ChordNode \<Rightarrow> ChordNode option" where
  "SetFinger i ref n =
     (if i < 0 \<or> i \<ge> int fingerBits then None
      else
        let n = n\<lparr>cn_fingers := (cn_fingers n)[nat i := ref]\<rparr>
        in Some (if i = 0 \<and> ref \<noteq> None then n\<lparr>cn_successor := ref\<rparr> else n))"

definition GetFinger :: "int \<Rightarrow> ChordNode \<Rightarrow> NodeRef option option" where
  "GetFinger i n = (if i < 0 \<or> i \<ge> int fingerBits then None else Some (cn_fingers n ! nat i))"

definition Successor :: "ChordNode \<Rightarrow> NodeRef option" where
  "Successor n = cn_successor n"

definition Predecessor :: "ChordNode \<Rightarrow> NodeRef option" where
  "Predecessor n = cn_predecessor n"

definition Ref :: "ChordNode \<Rightarrow> NodeRef" where
  "Ref n = selfRef n"

definition SuccessorList :: "ChordNode \<Rightarrow> NodeRef list" where
  "SuccessorList n = cn_succList n"

definition IDHex :: "ChordNode \<Rightarrow> string" where
  "IDHex n = IDToHex (cn_ID n)"

definition Chord_Stop :: "ChordNode \<Rightarrow> ChordNode" where
  "Chord_Stop n = n\<lparr>cn_stopped := True\<rparr>"

definition fingerStart :: "ChordNode \<Rightarrow> nat \<Rightarrow> ID" where
  "fingerStart n i = Add (cn_ID n) (PowerOfTwo i)"

definition Snapshot :: "ChordNode \<Rightarrow> (string, string) gomap" where
  "Snapshot n =
     (let m = [(''id'', IDToHex (cn_ID n)), (''addr'', cn_Addr n)];
          m = (case cn_successor n of None \<Rightarrow> m | Some s \<Rightarrow> gm_put ''successor'' (IDToHex (nr_ID s)) m)
      in case cn_predecessor n of None \<Rightarrow> m | Some p \<Rightarrow> gm_put ''predecessor'' (IDToHex (nr_ID p)) m)"

section \<open>Lookup (lookup.go)\<close>

fun first_match :: "(NodeRef \<Rightarrow> bool) \<Rightarrow> NodeRef option list \<Rightarrow> NodeRef option" where
  "first_match P [] = None"
| "first_match P (None # fs) = first_match P fs"
| "first_match P (Some f # fs) = (if P f then Some f else first_match P fs)"

definition ClosestPrecedingNode :: "ChordNode \<Rightarrow> ID \<Rightarrow> NodeRef" where
  "ClosestPrecedingNode n ident =
     (let best = first_match (\<lambda>f. IsInInterval (nr_ID f) (cn_ID n) ident) (rev (cn_fingers n));
          best =
            (case cn_predecessor n of
               None \<Rightarrow> best
             | Some pred \<Rightarrow>
                 if IsInInterval ident (nr_ID pred) (cn_ID n) then
                   (case first_match (\<lambda>af. IsInInterval (nr_ID af) (cn_ID n) ident) (rev (cn_antiFingers n)) of
                      None \<Rightarrow> best
                    | Some af \<Rightarrow>
                        (case best of
                           None \<Rightarrow> Some af
                         | Some b \<Rightarrow> if IsInInterval (nr_ID b) (cn_ID n) (nr_ID af) then Some af else Some b))
                 else best)
      in case best of Some b \<Rightarrow> b | None \<Rightarrow> selfRef n)"

type_synonym find_result = "ChordNet \<times> HopEvent list \<times> (chord_error + NodeRef)"

text \<open>
  The FindSuccessor RPC of the transport; \<open>handle\<close> is the handler of the node it reaches.
\<close>

definition Transport_FindSuccessor ::
  "(string \<Rightarrow> ID \<Rightarrow> ChordNet \<Rightarrow> (ChordNet \<times> (chord_error + NodeRef)) option) \<Rightarrow>
   ctx \<Rightarrow> NodeRef \<Rightarrow> ID \<Rightarrow> ChordNet \<Rightarrow> (ChordNet \<times> (chord_error + NodeRef)) option" where
  "Transport_FindSuccessor handle ctx target ident net =
     (case rpc ctx target net of
        (net, Inl e) \<Rightarrow> Some (net, Inl (ETransport e))
      | (net, Inr h) \<Rightarrow> handle h ident net)"

definition lookup_hop :: "ID \<Rightarrow> ID \<Rightarrow> string \<Rightarrow> int \<Rightarrow> ChordNet \<Rightarrow> ChordNet" where
  "lookup_hop from to mechanism hopIdx net =
     emit EventLookupHop (LookupHopPayload (IDToHex from) (IDToHex to) mechanism hopIdx) net"

text \<open>
  One iteration of the loop of \<^verbatim>\<open>FindSuccessor\<close> at the node \<open>a\<close>, and the iterations and remote
  calls that follow it; both spend fuel.
\<close>

fun FindSuccessor_loop ::
  "nat \<Rightarrow> string \<Rightarrow> ID \<Rightarrow> NodeRef \<Rightarrow> int \<Rightarrow> HopEvent list \<Rightarrow> ChordNet \<Rightarrow> find_result option" where
  "FindSuccessor_loop 0 a ident current hopIdx hops net = None"
| "FindSuccessor_loop (Suc fuel) a ident current hopIdx hops net =
     (let n = net_node net a;
          ctx = WithSender None (selfRef n);
          remote = Transport_FindSuccessor (\<lambda>h ident net.
            map_option (\<lambda>(net, _, r). (net, r)) (FindSuccessor_loop fuel h ident (selfRef (net_node net h)) 0 [] net))
      in
      if hopIdx > MaxHops (cn_Config n) then Some (net, hops, Inl (EMaxHops (MaxHops (cn_Config n))))
      else if nr_ID current \<noteq> cn_ID n then
        let hops = hops @ [\<lparr>hop_FromNode = cn_Addr n, hop_ToNode = nr_Addr current, hop_Mechanism = ''rpc'', hop_HopIndex = hopIdx\<rparr>];
            net = lookup_hop (cn_ID n) (nr_ID current) ''rpc'' hopIdx net
        in (case remote ctx current ident net of
              None \<Rightarrow> None
            | Some (net, Inl e) \<Rightarrow> Some (net, hops, Inl (ERpc (nr_Addr current) e))
            | Some (net, Inr result) \<Rightarrow> Some (net, hops, Inr result))
      else
        let succ = (case cn_successor n of Some s \<Rightarrow> s | None \<Rightarrow> selfRef n)
        in if IsInIntervalRightClosed ident (nr_ID current) (nr_ID succ) then Some (net, hops, Inr succ)
           else
             let closest = ClosestPrecedingNode n ident;
                 hops = hops @ [\<lparr>hop_FromNode = nr_Addr current, hop_ToNode = nr_Addr closest, hop_Mechanism = ''finger'', hop_HopIndex = hopIdx\<rparr>];
                 net = lookup_hop (nr_ID current) (nr_ID closest) ''finger'' hopIdx net
             in if nr_ID closest = nr_ID current then Some (net, hops, Inr succ)
                else if nr_ID closest \<noteq> cn_ID n then
                  let hopIdx = hopIdx + 1;
                      hops = hops @ [\<lparr>hop_FromNode = cn_Addr n, hop_ToNode = nr_Addr closest, hop_Mechanism = ''rpc_forward'', hop_HopIndex = hopIdx\<rparr>];
                      net = lookup_hop (cn_ID n) (nr_ID closest) ''rpc_forward'' hopIdx net
                  in (case remote ctx closest ident net of
                        None \<Rightarrow> None
                      | Some (net, Inl e) \<Rightarrow> Some (net, hops, Inl (EForward (nr_Addr closest) e))
                      | Some (net, Inr result) \<Rightarrow> Some (net, hops, Inr result))
                else FindSuccessor_loop fuel a ident closest (hopIdx + 1) hops net)"

definition FindSuccessor :: "nat \<Rightarrow> string \<Rightarrow> ID \<Rightarrow> ChordNet \<Rightarrow> find_result option" where
  "FindSuccessor fuel a ident net = FindSuccessor_loop fuel a ident (selfRef (net_node net a)) 0 [] net"

definition HandleFindSuccessor :: "nat \<Rightarrow> string \<Rightarrow> ID \<Rightarrow> ChordNet \<Rightarrow> (ChordNet \<times> (chord_error + NodeRef)) option" where
  "HandleFindSuccessor fuel a ident net = map_option (\<lambda>(net, _, r). (net, r)) (FindSuccessor fuel a ident net)"

section \<open>RPC handlers (rpc\_handler.go)\<close>

definition HandleGetPredecessor :: "string \<Rightarrow> ChordNet \<Rightarrow> NodeRef option" where
  "HandleGetPredecessor a net = cn_predecessor (net_node net a)"

definition HandleGetSuccessorList :: "string \<Rightarrow> ChordNet \<Rightarrow> NodeRef list" where
  "HandleGetSuccessorList a net = cn_succList (net_node net a)"

definition HandleTransferKeys :: "string \<Rightarrow> ValueEntry list option \<Rightarrow> ChordNet \<Rightarrow> ChordNet" where
  "HandleTransferKeys a entries net =
     (case entries of
        None \<Rightarrow> net
      | Some es \<Rightarrow> upd_node a (\<lambda>n. n\<lparr>cn_Store := fold Put es (cn_Store n)\<rparr>) net)"

definition HandleGetEntry :: "string \<Rightarrow> ID \<Rightarrow> ChordNet \<Rightarrow> chord_error + ValueEntry" where
  "HandleGetEntry a key net =
     (case Get (net_now net) (cn_Store (net_node net a)) key of
        None \<Rightarrow> Inl (EKeyNotFound key)
      | Some e \<Rightarrow> Inr e)"

definition HandlePutEntry :: "string \<Rightarrow> ID \<Rightarrow> ValueEntry option \<Rightarrow> ChordNet \<Rightarrow> ChordNet \<times> (chord_error + unit)" where
  "HandlePutEntry a key entry net =
     (case entry of
        None \<Rightarrow> (net, Inl (ENilEntry key))
      | Some e \<Rightarrow> (upd_node a (\<lambda>n. n\<lparr>cn_Store := Put e (cn_Store n)\<rparr>) net, Inr ()))"

definition HandleGetAllEntries :: "string \<Rightarrow> ChordNet \<Rightarrow> ValueEntry list" where
  "HandleGetAllEntries a net = All (net_now net) (cn_Store (net_node net a))"

definition Notify :: "string \<Rightarrow> NodeRef \<Rightarrow> ChordNet \<Rightarrow> ChordNet" where
  "Notify a candidate net =
     (let n = net_node net a in
      if (case cn_predecessor n of None \<Rightarrow> True | Some p \<Rightarrow> IsInInterval (nr_ID candidate) (nr_ID p) (cn_ID n))
      then emit EventNotify (NotifyPayload (IDToHex (cn_ID n)) (IDToHex (nr_ID candidate)))
             (upd_node a (\<lambda>n. n\<lparr>cn_predecessor := Some candidate\<rparr>) net)
      else net)"

definition HandleNotify :: "string \<Rightarrow> NodeRef \<Rightarrow> ChordNet \<Rightarrow> ChordNet" where
  "HandleNotify a sender net = Notify a sender net"

definition HandlePing :: "string \<Rightarrow> ChordNet \<Rightarrow> unit" where
  "HandlePing a net = ()"

text \<open>A Chord node answers every Kademlia RPC (\<^verbatim>\<open>HandleKPing\<close>, \<^verbatim>\<open>HandleKStore\<close>, \<^verbatim>\<open>HandleFindNode\<close>,
  \<^verbatim>\<open>HandleFindValue\<close>) with an error that names it.\<close>

definition HandleKademlia :: "string \<Rightarrow> chord_error + 'a" where
  "HandleKademlia method = Inl (ENoKademlia method)"

section \<open>RPCs of the transport\<close>

definition Transport_GetPredecessor :: "ctx \<Rightarrow> NodeRef \<Rightarrow> ChordNet \<Rightarrow> ChordNet \<times> (TransportError + NodeRef option)" where
  "Transport_GetPredecessor ctx target net =
     (case rpc ctx target net of
        (net, Inl e) \<Rightarrow> (net, Inl e)
      | (net, Inr h) \<Rightarrow> (net, Inr (HandleGetPredecessor h net)))"

definition Transport_Notify :: "NodeRef \<Rightarrow> NodeRef \<Rightarrow> ChordNet \<Rightarrow> ChordNet \<times> (TransportError + unit)" where
  "Transport_Notify target sender net =
     (case rpc_from sender target net of
        (net, Inl e) \<Rightarrow> (net, Inl e)
      | (net, Inr h) \<Rightarrow> (HandleNotify h sender net, Inr ()))"

definition Transport_GetSuccessorList :: "ctx \<Rightarrow> NodeRef \<Rightarrow> ChordNet \<Rightarrow> ChordNet \<times> (TransportError + NodeRef list)" where
  "Transport_GetSuccessorList ctx target net =
     (case rpc ctx target net of
        (net, Inl e) \<Rightarrow> (net, Inl e)
      | (net, Inr h) \<Rightarrow> (net, Inr (HandleGetSuccessorList h net)))"

definition Transport_TransferKeys :: "ctx \<Rightarrow> NodeRef \<Rightarrow> ValueEntry list option \<Rightarrow> ChordNet \<Rightarrow> ChordNet \<times> (TransportError + unit)" where
  "Transport_TransferKeys ctx target entries net =
     (case rpc ctx target net of
        (net, Inl e) \<Rightarrow> (net, Inl e)
      | (net, Inr h) \<Rightarrow> (HandleTransferKeys h entries net, Inr ()))"

definition Transport_Ping :: "ctx \<Rightarrow> NodeRef \<Rightarrow> ChordNet \<Rightarrow> ChordNet \<times> (TransportError + unit)" where
  "Transport_Ping ctx target net =
     (case rpc ctx target net of
        (net, Inl e) \<Rightarrow> (net, Inl e)
      | (net, Inr h) \<Rightarrow> (net, Inr (HandlePing h net)))"

definition Transport_GetAllEntries :: "ctx \<Rightarrow> NodeRef \<Rightarrow> ChordNet \<Rightarrow> ChordNet \<times> (TransportError + ValueEntry list)" where
  "Transport_GetAllEntries ctx target net =
     (case rpc ctx target net of
        (net, Inl e) \<Rightarrow> (net, Inl e)
      | (net, Inr h) \<Rightarrow> (net, Inr (HandleGetAllEntries h net)))"

definition Transport_GetEntry :: "ctx \<Rightarrow> NodeRef \<Rightarrow> ID \<Rightarrow> ChordNet \<Rightarrow> ChordNet \<times> (chord_error + ValueEntry)" where
  "Transport_GetEntry ctx target key net =
     (case rpc ctx target net of
        (net, Inl e) \<Rightarrow> (net, Inl (ETransport e))
      | (net, Inr h) \<Rightarrow> (net, HandleGetEntry h key net))"

definition Transport_PutEntry :: "ctx \<Rightarrow> NodeRef \<Rightarrow> ID \<Rightarrow> ValueEntry option \<Rightarrow> ChordNet \<Rightarrow> ChordNet \<times> (chord_error + unit)" where
  "Transport_PutEntry ctx target key entry net =
     (case rpc ctx target net of
        (net, Inl e) \<Rightarrow> (net, Inl (ETransport e))
      | (net, Inr h) \<Rightarrow> HandlePutEntry h key entry net)"

section \<open>Finger tables (finger.go)\<close>

definition set_finger_only :: "string \<Rightarrow> nat \<Rightarrow> NodeRef \<Rightarrow> ChordNet \<Rightarrow> ChordNet" where
  "set_finger_only a i ref net = upd_node a (\<lambda>n. n\<lparr>cn_fingers := (cn_fingers n)[i := Some ref]\<rparr>) net"

definition set_anti_finger :: "string \<Rightarrow> nat \<Rightarrow> NodeRef \<Rightarrow> ChordNet \<Rightarrow> ChordNet" where
  "set_anti_finger a i ref net = upd_node a (\<lambda>n. n\<lparr>cn_antiFingers := (cn_antiFingers n)[i := Some ref]\<rparr>) net"

definition set_successor_finger0 :: "string \<Rightarrow> NodeRef \<Rightarrow> ChordNet \<Rightarrow> ChordNet" where
  "set_successor_finger0 a ref net =
     upd_node a (\<lambda>n. n\<lparr>cn_successor := Some ref, cn_fingers := (cn_fingers n)[0 := Some ref]\<rparr>) net"

text \<open>The iteration for finger \<open>i\<close> of \<^verbatim>\<open>initFingerTable\<close>.\<close>

definition init_finger :: "nat \<Rightarrow> string \<Rightarrow> NodeRef \<Rightarrow> nat \<Rightarrow> ChordNet \<Rightarrow> ChordNet option" where
  "init_finger fuel a bootstrap i net =
     (let n = net_node net a;
          ctx = WithSender None (selfRef n);
          start = fingerStart n i
      in if (case cn_fingers n ! (i - 1) of None \<Rightarrow> False | Some p \<Rightarrow> IsInIntervalRightClosed start (cn_ID n) (nr_ID p))
         then Some (upd_node a (\<lambda>n. n\<lparr>cn_fingers := (cn_fingers n)[i := cn_fingers n ! (i - 1)]\<rparr>) net)
         else (case Transport_FindSuccessor (HandleFindSuccessor fuel) ctx bootstrap start net of
                 None \<Rightarrow> None
               | Some (net, Inl e) \<Rightarrow> Some net
               | Some (net, Inr f) \<Rightarrow> Some (set_finger_only a i f net)))"

definition initFingerTable :: "nat \<Rightarrow> string \<Rightarrow> NodeRef \<Rightarrow> ChordNet \<Rightarrow> (ChordNet \<times> (chord_error + unit)) option" where
  "initFingerTable fuel a bootstrap net =
     (let n = net_node net a;
          ctx = WithSender None (selfRef n);
          start0 = fingerStart n 0
      in case Transport_FindSuccessor (HandleFindSuccessor fuel) ctx bootstrap start0 net of
           None \<Rightarrow> None
         | Some (net, Inl e) \<Rightarrow> Some (net, Inl (EInitFinger e))
         | Some (net, Inr succ) \<Rightarrow>
             map_option (\<lambda>net. (net, Inr ()))
               (for_each (init_finger fuel a bootstrap) [1..<fingerBits] (set_successor_finger0 a succ net)))"

definition fixFingersAtIndex :: "nat \<Rightarrow> string \<Rightarrow> int \<Rightarrow> ChordNet \<Rightarrow> ChordNet option" where
  "fixFingersAtIndex fuel a i net =
     (if i < 0 \<or> i \<ge> int fingerBits then Some net
      else case FindSuccessor fuel a (fingerStart (net_node net a) (nat i)) net of
             None \<Rightarrow> None
           | Some (net, _, Inl e) \<Rightarrow> Some net
           | Some (net, _, Inr succ) \<Rightarrow> Some (set_finger_only a (nat i) succ net))"

text \<open>\<^verbatim>\<open>UpdateFingerTable\<close> forwards the update to the predecessor through the transport.\<close>

fun UpdateFingerTable :: "nat \<Rightarrow> string \<Rightarrow> NodeRef \<Rightarrow> int \<Rightarrow> ChordNet \<Rightarrow> (ChordNet \<times> (chord_error + unit)) option" where
  "UpdateFingerTable 0 a s i net = None"
| "UpdateFingerTable (Suc fuel) a s i net =
     (let n = net_node net a; ctx = WithSender None (selfRef n) in
      if i < 0 \<or> i \<ge> int fingerBits then Some (net, Inl (EIndexOutOfRange i))
      else
        let current = cn_fingers n ! nat i;
            shouldUpdate = (case current of None \<Rightarrow> True | Some c \<Rightarrow> IsInInterval (nr_ID s) (cn_ID n) (nr_ID c))
        in if shouldUpdate then
             let net = (if i = 0 then set_successor_finger0 a s net else set_finger_only a (nat i) s net)
             in (case cn_predecessor n of
                   None \<Rightarrow> Some (net, Inr ())
                 | Some pred \<Rightarrow>
                     if nr_ID pred \<noteq> cn_ID n \<and> nr_ID pred \<noteq> nr_ID s
                     then (case rpc ctx pred net of
                             (net, Inl e) \<Rightarrow> Some (net, Inr ())
                           | (net, Inr h) \<Rightarrow>
                               (case UpdateFingerTable fuel h s i net of
                                  None \<Rightarrow> None
                                | Some (net, _) \<Rightarrow> Some (net, Inr ())))
                     else Some (net, Inr ()))
           else Some (net, Inr ()))"

definition HandleUpdateFingerTable :: "nat \<Rightarrow> string \<Rightarrow> NodeRef \<Rightarrow> int \<Rightarrow> ChordNet \<Rightarrow> (ChordNet \<times> (chord_error + unit)) option" where
  "HandleUpdateFingerTable fuel a s i net = UpdateFingerTable fuel a s i net"

definition Transport_UpdateFingerTable ::
  "nat \<Rightarrow> ctx \<Rightarrow> NodeRef \<Rightarrow> NodeRef \<Rightarrow> int \<Rightarrow> ChordNet \<Rightarrow> (ChordNet \<times> (chord_error + unit)) option" where
  "Transport_UpdateFingerTable fuel ctx target s i net =
     (case rpc ctx target net of
        (net, Inl e) \<Rightarrow> Some (net, Inl (ETransport e))
      | (net, Inr h) \<Rightarrow> HandleUpdateFingerTable fuel h s i net)"

text \<open>Euclidean \<^verbatim>\<open>Mod\<close> is never negative, so the correction by the modulus is dead code.\<close>

definition antiFingerStart :: "ChordNode \<Rightarrow> nat \<Rightarrow> ID" where
  "antiFingerStart n i =
     (let result = (IDToBigInt (cn_ID n) - PowerOfTwo i) mod keySpaceSize;
          result = (if result < 0 then result + keySpaceSize else result)
      in BigIntToID result)"

definition init_anti_finger :: "nat \<Rightarrow> string \<Rightarrow> NodeRef \<Rightarrow> nat \<Rightarrow> ChordNet \<Rightarrow> ChordNet option" where
  "init_anti_finger fuel a bootstrap i net =
     (let n = net_node net a;
          ctx = WithSender None (selfRef n);
          pos = antiFingerStart n i
      in case Transport_FindSuccessor (HandleFindSuccessor fuel) ctx bootstrap pos net of
           None \<Rightarrow> None
         | Some (net, Inl e) \<Rightarrow> Some net
         | Some (net, Inr succ) \<Rightarrow>
             (case Transport_GetPredecessor ctx succ net of
                (net, Inr (Some pred)) \<Rightarrow> Some (set_anti_finger a i pred net)
              | (net, _) \<Rightarrow> Some (set_anti_finger a i succ net)))"

definition initAntiFingerTable :: "nat \<Rightarrow> string \<Rightarrow> NodeRef \<Rightarrow> ChordNet \<Rightarrow> ChordNet option" where
  "initAntiFingerTable fuel a bootstrap net = for_each (init_anti_finger fuel a bootstrap) [0..<fingerBits] net"

definition fixAntiFingers :: "nat \<Rightarrow> string \<Rightarrow> ChordNet \<Rightarrow> ChordNet option" where
  "fixAntiFingers fuel a net =
     (let idx = cn_antiFingerIdx (net_node net a);
          net = upd_node a (\<lambda>n. n\<lparr>cn_antiFingerIdx := (cn_antiFingerIdx n + 1) mod fingerBits\<rparr>) net;
          n = net_node net a;
          ctx = WithSender None (selfRef n);
          pos = antiFingerStart n idx
      in case FindSuccessor fuel a pos net of
           None \<Rightarrow> None
         | Some (net, _, Inl e) \<Rightarrow> Some net
         | Some (net, _, Inr succ) \<Rightarrow>
             (case Transport_GetPredecessor ctx succ net of
                (net, Inr (Some pred)) \<Rightarrow> Some (set_anti_finger a idx pred net)
              | (net, _) \<Rightarrow> Some (set_anti_finger a idx succ net)))"

definition GetAntiFinger :: "int \<Rightarrow> ChordNode \<Rightarrow> NodeRef option" where
  "GetAntiFinger i n = (if i < 0 \<or> i \<ge> int fingerBits then None else cn_antiFingers n ! nat i)"

section \<open>Stabilization (stabilize.go)\<close>

definition updateSuccessorList :: "string \<Rightarrow> NodeRef \<Rightarrow> ChordNet \<Rightarrow> ChordNet" where
  "updateSuccessorList a succ net =
     (let ctx = WithSender None (selfRef (net_node net a)) in
      case Transport_GetSuccessorList ctx succ net of
        (net, Inl e) \<Rightarrow> net
      | (net, Inr remoteList) \<Rightarrow>
          upd_node a (\<lambda>n.
            let maxLen = SuccessorListSize (cn_Config n);
                combined = fold (\<lambda>entry combined. if int (length combined) \<ge> maxLen then combined else combined @ [entry])
                  remoteList [succ]
            in n\<lparr>cn_succList := combined\<rparr>) net)"

definition Stabilize :: "string \<Rightarrow> ChordNet \<Rightarrow> ChordNet" where
  "Stabilize a net =
     (let n = net_node net a; ctx = WithSender None (selfRef n) in
      case cn_successor n of
        None \<Rightarrow> set_successor_finger0 a (selfRef n) net
      | Some succ \<Rightarrow>
          if nr_ID succ = cn_ID n then set_successor_finger0 a (selfRef n) net
          else
            let (net, x) = Transport_GetPredecessor ctx succ net;
                (net, succ) =
                  (case x of
                     Inr (Some x) \<Rightarrow>
                       if IsInInterval (nr_ID x) (cn_ID n) (nr_ID succ)
                       then (set_successor_finger0 a x net, x) else (net, succ)
                   | _ \<Rightarrow> (net, succ));
                net = fst (Transport_Notify succ (selfRef n) net);
                net = updateSuccessorList a succ net;
                n = net_node net a;
                succID = (case cn_successor n of None \<Rightarrow> [] | Some s \<Rightarrow> IDToHex (nr_ID s));
                predID = (case cn_predecessor n of None \<Rightarrow> [] | Some p \<Rightarrow> IDToHex (nr_ID p))
            in emit EventStabilize (StabilizePayload (IDToHex (cn_ID n)) succID predID) net)"

definition CheckPredecessor :: "string \<Rightarrow> ChordNet \<Rightarrow> ChordNet" where
  "CheckPredecessor a net =
     (let n = net_node net a; ctx = WithSender None (selfRef n) in
      case cn_predecessor n of
        None \<Rightarrow> net
      | Some pred \<Rightarrow>
          (case Transport_Ping ctx pred net of
             (net, Inr _) \<Rightarrow> net
           | (net, Inl e) \<Rightarrow> upd_node a (\<lambda>n. n\<lparr>cn_predecessor := None\<rparr>) net))"

text \<open>The walk over the successor list after the successor did not answer.\<close>

fun walk_successors :: "string \<Rightarrow> NodeRef \<Rightarrow> NodeRef list \<Rightarrow> ChordNet \<Rightarrow> ChordNet" where
  "walk_successors a succ [] net = net"
| "walk_successors a succ (s # ss) net =
     (if nr_ID s = nr_ID succ then walk_successors a succ ss net
      else case Transport_Ping (WithSender None (selfRef (net_node net a))) s net of
             (net, Inr _) \<Rightarrow> Stabilize a (set_successor_finger0 a s net)
           | (net, Inl e) \<Rightarrow> walk_successors a succ ss net)"

definition CheckSuccessor :: "string \<Rightarrow> ChordNet \<Rightarrow> ChordNet" where
  "CheckSuccessor a net =
     (let n = net_node net a; ctx = WithSender None (selfRef n) in
      case cn_successor n of
        None \<Rightarrow> net
      | Some succ \<Rightarrow>
          if nr_ID succ = cn_ID n then net
          else (case Transport_Ping ctx succ net of
                  (net, Inr _) \<Rightarrow> net
                | (net, Inl e) \<Rightarrow> walk_successors a succ (cn_succList n) net))"

text \<open>
  The goroutine that drives stabilization and finger repair: the events its \<^verbatim>\<open>select\<close>
  receives, until the node is stopped.
\<close>

datatype stabilize_event = StabilizeTick | FingerTick | StopClosed

fun runStabilize :: "nat \<Rightarrow> string \<Rightarrow> stabilize_event list \<Rightarrow> int \<Rightarrow> ChordNet \<Rightarrow> ChordNet option" where
  "runStabilize fuel a [] fingerIdx net = Some net"
| "runStabilize fuel a (StopClosed # evs) fingerIdx net = Some net"
| "runStabilize fuel a (StabilizeTick # evs) fingerIdx net = runStabilize fuel a evs fingerIdx (Stabilize a net)"
| "runStabilize fuel a (FingerTick # evs) fingerIdx net =
     (case fixFingersAtIndex fuel a fingerIdx net of
        None \<Rightarrow> None
      | Some net \<Rightarrow>
          (case fixAntiFingers fuel a net of
             None \<Rightarrow> None
           | Some net \<Rightarrow>
               let fingerIdx = fingerIdx + 1;
                   fingerIdx = (if fingerIdx \<ge> int fingerBits then 1 else fingerIdx)
               in runStabilize fuel a evs fingerIdx net))"

datatype check_event = CheckTick | CheckStop

fun runCheckPredecessor :: "string \<Rightarrow> check_event list \<Rightarrow> ChordNet \<Rightarrow> ChordNet" where
  "runCheckPredecessor a [] net = net"
| "runCheckPredecessor a (CheckStop # evs) net = net"
| "runCheckPredecessor a (CheckTick # evs) net = runCheckPredecessor a evs (CheckPredecessor a net)"

fun runCheckSuccessor :: "string \<Rightarrow> check_event list \<Rightarrow> ChordNet \<Rightarrow> ChordNet" where
  "runCheckSuccessor a [] net = net"
| "runCheckSuccessor a (CheckStop # evs) net = net"
| "runCheckSuccessor a (CheckTick # evs) net = runCheckSuccessor a evs (CheckSuccessor a net)"

section \<open>Joining (join.go)\<close>

definition CreateRing :: "string \<Rightarrow> ChordNet \<Rightarrow> ChordNet" where
  "CreateRing a net =
     (let n = net_node net a; self = selfRef n
      in emit EventNodeJoin (NodeJoinPayload (IDToHex (cn_ID n)) (cn_Addr n) [] [])
           (upd_node a (\<lambda>n. n\<lparr>cn_successor := Some self, cn_predecessor := None,
              cn_fingers := map (\<lambda>_. Some self) [0..<fingerBits]\<rparr>) net))"

definition update_other :: "nat \<Rightarrow> string \<Rightarrow> nat \<Rightarrow> ChordNet \<Rightarrow> ChordNet option" where
  "update_other fuel a i net =
     (let n = net_node net a;
          ctx = WithSender None (selfRef n);
          pos = (IDToBigInt (cn_ID n) - PowerOfTwo i) mod keySpaceSize;
          pos = (if pos < 0 then pos + keySpaceSize else pos);
          posID = BigIntToID pos
      in case FindSuccessor fuel a posID net of
           None \<Rightarrow> None
         | Some (net, _, Inl e) \<Rightarrow> Some net
         | Some (net, _, Inr p) \<Rightarrow>
             if nr_ID p = cn_ID n then Some net
             else map_option fst (Transport_UpdateFingerTable fuel ctx p (selfRef n) (int i) net))"

definition updateOthers :: "nat \<Rightarrow> string \<Rightarrow> ChordNet \<Rightarrow> ChordNet option" where
  "updateOthers fuel a net = for_each (update_other fuel a) [0..<fingerBits] net"

definition pullKeysInRange :: "string \<Rightarrow> NodeRef \<Rightarrow> ID \<Rightarrow> ID \<Rightarrow> ChordNet \<Rightarrow> ChordNet \<times> ValueEntry list" where
  "pullKeysInRange a from lo hi net =
     (case Transport_GetAllEntries (WithSender None (selfRef (net_node net a))) from net of
        (net, Inl e) \<Rightarrow> (net, [])
      | (net, Inr all) \<Rightarrow> (net, filter (\<lambda>e. IsInIntervalRightClosed (Key e) lo hi) all))"

definition migrateKeys :: "string \<Rightarrow> ChordNet \<Rightarrow> ChordNet" where
  "migrateKeys a net =
     (let n = net_node net a; ctx = WithSender None (selfRef n) in
      case cn_successor n of
        None \<Rightarrow> net
      | Some succ \<Rightarrow>
          if nr_ID succ = cn_ID n then net
          else (case cn_predecessor n of
                  None \<Rightarrow> net
                | Some pred \<Rightarrow>
                    let net = fst (Transport_TransferKeys ctx succ None net);
                        (net, entries) = pullKeysInRange a succ (nr_ID pred) (cn_ID n) net
                    in if entries = [] then net
                       else emit EventKeyMigrate (KeyMigratePayload (IDToHex (nr_ID succ)) (IDToHex (cn_ID n)) (int (length entries)))
                              (upd_node a (\<lambda>n. n\<lparr>cn_Store := fold Put entries (cn_Store n)\<rparr>) net)))"

definition Chord_Join :: "nat \<Rightarrow> string \<Rightarrow> NodeRef \<Rightarrow> ChordNet \<Rightarrow> (ChordNet \<times> (chord_error + unit)) option" where
  "Chord_Join fuel a bootstrap net =
     (let n = net_node net a; ctx = WithSender None (selfRef n) in
      case Transport_FindSuccessor (HandleFindSuccessor fuel) ctx bootstrap (cn_ID n) net of
        None \<Rightarrow> None
      | Some (net, Inl e) \<Rightarrow> Some (net, Inl (EJoin e))
      | Some (net, Inr succ) \<Rightarrow>
          let net = upd_node a (\<lambda>n. n\<lparr>cn_predecessor := None\<rparr>) (set_successor_finger0 a succ net)
          in (case initFingerTable fuel a bootstrap net of
                None \<Rightarrow> None
              | Some (net, _) \<Rightarrow>
                  (case initAntiFingerTable fuel a bootstrap net of
                     None \<Rightarrow> None
                   | Some net \<Rightarrow>
                       (case updateOthers fuel a net of
                          None \<Rightarrow> None
                        | Some net \<Rightarrow>
                            let net = migrateKeys a net;
                                n = net_node net a;
                                succID = (case cn_successor n of None \<Rightarrow> [] | Some s \<Rightarrow> IDToHex (nr_ID s))
                            in Some (emit EventNodeJoin (NodeJoinPayload (IDToHex (cn_ID n)) (cn_Addr n) succID []) net, Inr ())))))"

section \<open>Leaving (leave.go)\<close>

definition Leave :: "string \<Rightarrow> ChordNet \<Rightarrow> ChordNet" where
  "Leave a net =
     (let n = net_node net a; ctx = WithSender None (selfRef n);
          succ = cn_successor n; pred = cn_predecessor n;
          (net, transferred) =
            (case succ of
               None \<Rightarrow> (net, 0)
             | Some s \<Rightarrow>
                 if nr_ID s = cn_ID n then (net, 0)
                 else
                   let entries = All (net_now net) (cn_Store n);
                       (net, transferred) =
                         (if entries \<noteq> []
                          then (case Transport_TransferKeys ctx s (Some entries) net of
                                  (net, Inl e) \<Rightarrow> (net, 0)
                                | (net, Inr _) \<Rightarrow> (net, int (length entries)))
                          else (net, 0))
                   in (case pred of
                         None \<Rightarrow> (net, transferred)
                       | Some p \<Rightarrow> (fst (Transport_Notify s p net), transferred)));
          net =
            (case (pred, succ) of
               (Some p, Some s) \<Rightarrow> if nr_ID p \<noteq> cn_ID n then fst (Transport_Notify p s net) else net
             | _ \<Rightarrow> net);
          net = emit EventNodeLeave (NodeLeavePayload (IDToHex (cn_ID n)) transferred) net
      in upd_node a Chord_Stop net)"

definition SimulateCrash :: "string \<Rightarrow> ChordNet \<Rightarrow> ChordNet" where
  "SimulateCrash a net =
     upd_node a Chord_Stop (emit EventNodeCrash (NodeCrashPayload (IDToHex (cn_ID (net_node net a)))) net)"

end
