(* ===== verification/Chord_Lookup.thy ===== *)
theory Chord_Lookup
  imports Chord
begin

text \<open>
  Correctness of Chord lookups. On a ring whose successor pointers are right, and whatever the
  other fingers are as long as they point to members, a lookup for an identifier other than
  the node's own returns the owner of that identifier, within as many remote calls as there
  are members in between; with exact fingers 160 calls are enough. Both follow from one
  lemma on lookups that decrease a measure.
\<close>

section \<open>Distances\<close>

lemma cw_rev: "a \<noteq> b \<Longrightarrow> cw b a = 2 ^ 160 - cw a b"
proof -
  assume "a \<noteq> b"
  then have "uint a \<noteq> uint b" by (metis word_uint_eq_iff)
  then have "int (cw b a) + int (cw a b) = 2 ^ 160"
    unfolding cw_uint by (simp split: if_split)
  then have "int (cw b a + cw a b) = int (2 ^ 160)" by simp
  then have "cw b a + cw a b = 2 ^ 160" by (simp only: of_nat_eq_iff)
  then show ?thesis by simp
qed

lemma cw_sum:
  assumes "cw a x + cw x b < 2 ^ 160"
  shows "cw a b = cw a x + cw x b"
proof -
  have "int (cw a x + cw x b) < int (2 ^ 160)" using assms by (simp only: of_nat_less_iff)
  then have "int (cw a x) + int (cw x b) < 2 ^ 160" by simp
  then have "int (cw a b) = int (cw a x) + int (cw x b)"
    unfolding cw_uint using uint_lt2p [of a] uint_lt2p [of b] uint_lt2p [of x]
    by (simp split: if_splits) (use uint_ge_0 [of b] in linarith)
  then show ?thesis by linarith
qed

text \<open>A point that is at most as far before \<open>x\<close> as \<open>a\<close> is lies on the arc from \<open>a\<close> to \<open>x\<close>.\<close>

lemma cw_arc: "cw p x \<le> cw a x \<Longrightarrow> cw a p + cw p x = cw a x"
proof -
  assume "cw p x \<le> cw a x"
  then have "int (cw p x) \<le> int (cw a x)" by simp
  then have "int (cw a p) + int (cw p x) = int (cw a x)"
    unfolding cw_uint using uint_lt2p [of a] uint_lt2p [of p] uint_lt2p [of x]
    by (simp split: if_splits) (use uint_ge_0 [of a] uint_ge_0 [of p] uint_ge_0 [of x] in linarith)?
  then show ?thesis by linarith
qed

lemma cw_Add: "0 \<le> k \<Longrightarrow> k < 2 ^ 160 \<Longrightarrow> cw a (Add a k) = nat k"
  by (simp add: cw_def unat_eq_nat_uint uint_word_of_int take_bit_eq_mod)

lemma cw_pos: "0 < cw a b \<longleftrightarrow> a \<noteq> b"
  using cw_eq_0 [of a b] by linarith

lemma interval_cw_le: "IsInInterval x a b \<Longrightarrow> cw a x \<le> cw a b"
  by (simp add: IsInInterval_cw)

section \<open>Consistent rings\<close>

abbreviation nid :: "ChordNet \<Rightarrow> string \<Rightarrow> ID" where
  "nid net a \<equiv> cn_ID (net_node net a)"

definition ref_in :: "ChordNet \<Rightarrow> string set \<Rightarrow> NodeRef \<Rightarrow> bool" where
  "ref_in net M r \<longleftrightarrow> nr_Addr r \<in> M \<and> nr_ID r = nid net (nr_Addr r)"

text \<open>The reference of the member that owns an identifier: the first one at or after it.\<close>

definition owner_ref :: "ChordNet \<Rightarrow> string set \<Rightarrow> ID \<Rightarrow> NodeRef \<Rightarrow> bool" where
  "owner_ref net M x r \<longleftrightarrow> ref_in net M r \<and> (\<forall>b \<in> M. cw x (nr_ID r) \<le> cw x (nid net b))"

text \<open>The member next to \<open>a\<close>, or \<open>a\<close> itself when it is alone.\<close>

definition next_ref :: "ChordNet \<Rightarrow> string set \<Rightarrow> string \<Rightarrow> NodeRef \<Rightarrow> bool" where
  "next_ref net M a r \<longleftrightarrow> ref_in net M r \<and> (nr_Addr r = a \<longrightarrow> M = {a}) \<and>
     (\<forall>b \<in> M. b \<noteq> a \<longrightarrow> cw (nid net a) (nr_ID r) \<le> cw (nid net a) (nid net b))"

definition registered :: "ChordNet \<Rightarrow> string set \<Rightarrow> bool" where
  "registered net M \<longleftrightarrow> reliable (net_transport net) \<and> inj_on (nid net) M \<and>
     (\<forall>a \<in> M. map_of (it_registry (net_transport net)) a = Some a \<and> cn_Addr (net_node net a) = a)"

definition ring_node :: "ChordNet \<Rightarrow> string set \<Rightarrow> string \<Rightarrow> bool" where
  "ring_node net M a \<longleftrightarrow> (let n = net_node net a in
     (\<exists>s. cn_successor n = Some s \<and> next_ref net M a s \<and> cn_fingers n \<noteq> [] \<and> cn_fingers n ! 0 = Some s) \<and>
     (\<forall>f. Some f \<in> set (cn_fingers n) \<union> set (cn_antiFingers n) \<longrightarrow> ref_in net M f) \<and> 0 \<le> MaxHops (cn_Config n))"

definition consistent_ring :: "ChordNet \<Rightarrow> string set \<Rightarrow> bool" where
  "consistent_ring net M \<longleftrightarrow> finite M \<and> registered net M \<and> (\<forall>a \<in> M. ring_node net M a)"

text \<open>Two networks that differ in the events published only.\<close>

definition same_nodes :: "ChordNet \<Rightarrow> ChordNet \<Rightarrow> bool" where
  "same_nodes net net' \<longleftrightarrow> net_node net' = net_node net \<and> net_transport net' = net_transport net \<and> net_now net' = net_now net"

lemma same_nodes_refl [simp]: "same_nodes net net"
  by (simp add: same_nodes_def)

lemma same_nodes_trans: "same_nodes a b \<Longrightarrow> same_nodes b c \<Longrightarrow> same_nodes a c"
  by (simp add: same_nodes_def)

lemma same_nodes_hop [simp]: "same_nodes net (lookup_hop f t m i net)"
  by (simp add: same_nodes_def lookup_hop_def emit_def)

lemma same_nodes_cong:
  assumes "same_nodes net net'"
  shows "consistent_ring net' M = consistent_ring net M" "owner_ref net' M x r = owner_ref net M x r"
    "ref_in net' M r = ref_in net M r" "net_node net' = net_node net"
  using assms by (simp_all add: same_nodes_def consistent_ring_def registered_def ring_node_def next_ref_def
      owner_ref_def ref_in_def inj_on_def)

lemma rpc_registered:
  assumes "registered net M" "ref_in net M r"
  shows "rpc c r net = (net, Inr (nr_Addr r))"
  using assms by (simp add: rpc_def registered_def ref_in_def)

section \<open>Closest preceding node\<close>

lemma first_match_Some: "first_match P fs = Some f \<Longrightarrow> Some f \<in> set fs \<and> P f"
  by (induction P fs rule: first_match.induct) (auto split: if_splits)

lemma first_match_ex: "Some f \<in> set fs \<Longrightarrow> P f \<Longrightarrow> first_match P fs \<noteq> None"
  by (induction P fs rule: first_match.induct) auto

text \<open>The reverse scan stops at the highest index that matches.\<close>

lemma first_match_rev_index:
  assumes "first_match P (rev fs) = Some f" "i < length fs" "fs ! i = Some g" "P g"
  shows "\<exists>j \<ge> i. j < length fs \<and> fs ! j = Some f"
  using assms
proof (induction fs rule: rev_induct)
  case (snoc x fs)
  show ?case
  proof (cases "x = Some f \<and> P f")
    case True
    with snoc.prems show ?thesis by (intro exI [of _ "length fs"]) (simp add: less_Suc_eq_le)
  next
    case False
    with snoc.prems(1) have m: "first_match P (rev fs) = Some f" by (cases x) (auto split: if_splits)
    have "i \<noteq> length fs"
    proof
      assume "i = length fs"
      with snoc.prems have "x = Some g" "P g" by simp_all
      with snoc.prems(1) False show False by simp
    qed
    with snoc m obtain j where "j \<ge> i" "j < length fs" "fs ! j = Some f" by (auto simp: nth_append)
    then show ?thesis by (intro exI [of _ j]) (simp add: nth_append)
  qed
qed simp

text \<open>
  The choice between the two candidates: the result is one of the tables' entries strictly
  between the node and the identifier, and at least as far along as the forward candidate.
\<close>

lemma ClosestPrecedingNode_forward:
  assumes "first_match (\<lambda>f. IsInInterval (nr_ID f) (cn_ID n) x) (rev (cn_fingers n)) = Some b"
  defines "c \<equiv> ClosestPrecedingNode n x"
  shows "Some c \<in> set (cn_fingers n) \<union> set (cn_antiFingers n)" and "IsInInterval (nr_ID c) (cn_ID n) x"
    and "cw (cn_ID n) (nr_ID b) \<le> cw (cn_ID n) (nr_ID c)"
proof -
  have b: "Some b \<in> set (cn_fingers n)" "IsInInterval (nr_ID b) (cn_ID n) x"
    using first_match_Some [OF assms(1)] by auto
  have af: "Some af \<in> set (cn_antiFingers n)" "IsInInterval (nr_ID af) (cn_ID n) x"
    if "first_match (\<lambda>af. IsInInterval (nr_ID af) (cn_ID n) x) (rev (cn_antiFingers n)) = Some af" for af
    using first_match_Some [OF that] by auto
  let ?am = "first_match (\<lambda>af. IsInInterval (nr_ID af) (cn_ID n) x) (rev (cn_antiFingers n))"
  have "c = b \<or> (\<exists>af. ?am = Some af \<and> IsInInterval (nr_ID b) (cn_ID n) (nr_ID af) \<and> c = af)"
    unfolding c_def ClosestPrecedingNode_def Let_def assms(1) by (cases "cn_predecessor n"; cases ?am) auto
  then have "Some c \<in> set (cn_fingers n) \<union> set (cn_antiFingers n) \<and> IsInInterval (nr_ID c) (cn_ID n) x \<and>
      cw (cn_ID n) (nr_ID b) \<le> cw (cn_ID n) (nr_ID c)"
    using b af by (auto simp: interval_cw_le)
  then show "Some c \<in> set (cn_fingers n) \<union> set (cn_antiFingers n)" "IsInInterval (nr_ID c) (cn_ID n) x"
    "cw (cn_ID n) (nr_ID b) \<le> cw (cn_ID n) (nr_ID c)" by blast+
qed

lemma ClosestPrecedingNode_alone:
  assumes "\<forall>f. Some f \<in> set (cn_fingers n) \<union> set (cn_antiFingers n) \<longrightarrow> nr_ID f = cn_ID n"
  shows "ClosestPrecedingNode n x = selfRef n"
proof -
  have none: "first_match (\<lambda>f. IsInInterval (nr_ID f) (cn_ID n) x) (rev fs) = None"
    if "set fs \<subseteq> set (cn_fingers n) \<union> set (cn_antiFingers n)" for fs
  proof (rule ccontr)
    assume "first_match (\<lambda>f. IsInInterval (nr_ID f) (cn_ID n) x) (rev fs) \<noteq> None"
    then obtain f where "first_match (\<lambda>f. IsInInterval (nr_ID f) (cn_ID n) x) (rev fs) = Some f" by blast
    from first_match_Some [OF this] have "Some f \<in> set fs" "IsInInterval (nr_ID f) (cn_ID n) x" by auto
    moreover from this that assms have "nr_ID f = cn_ID n" by blast
    ultimately show False by (simp add: IsInInterval_cw)
  qed
  have "first_match (\<lambda>f. IsInInterval (nr_ID f) (cn_ID n) x) (rev (cn_fingers n)) = None"
    "first_match (\<lambda>f. IsInInterval (nr_ID f) (cn_ID n) x) (rev (cn_antiFingers n)) = None"
    by (rule none; simp)+
  then show ?thesis by (simp add: ClosestPrecedingNode_def split: option.split)
qed

section \<open>One step of a lookup on a consistent ring\<close>

lemma successor_is_owner:
  assumes "consistent_ring net M" "a \<in> M" "next_ref net M a s" "x \<noteq> nid net a"
    and "IsInIntervalRightClosed x (nid net a) (nr_ID s)"
  shows "owner_ref net M x s"
  unfolding owner_ref_def
proof (intro conjI ballI)
  show "ref_in net M s" using assms(3) by (simp add: next_ref_def)
  fix b assume b: "b \<in> M"
  show "cw x (nr_ID s) \<le> cw x (nid net b)"
  proof (cases "x = nr_ID s")
    case False
    with assms(5) have le: "cw (nid net a) x \<le> cw (nid net a) (nr_ID s)"
      by (auto simp: IsInIntervalRightClosed_cw)
    then have s: "cw x (nr_ID s) = cw (nid net a) (nr_ID s) - cw (nid net a) x" using cw_triangle [OF le] by simp
    show ?thesis
    proof (cases "b = a")
      case True
      with assms(4) s cw_rev [of "nid net a" x] cw_less [of "nid net a" "nr_ID s"] show ?thesis by simp
    next
      case False
      with assms(3) b have "cw (nid net a) (nr_ID s) \<le> cw (nid net a) (nid net b)" by (simp add: next_ref_def)
      with le s cw_triangle [of "nid net a" x "nid net b"] show ?thesis by simp
    qed
  qed simp
qed

lemma closest_progress:
  assumes "consistent_ring net M" "a \<in> M" "cn_successor (net_node net a) = Some s" "x \<noteq> nid net a" "M \<noteq> {a}"
    and "\<not> IsInIntervalRightClosed x (nid net a) (nr_ID s)"
  defines "c \<equiv> ClosestPrecedingNode (net_node net a) x"
  shows "ref_in net M c" and "IsInInterval (nr_ID c) (nid net a) x"
    and "\<exists>b. first_match (\<lambda>f. IsInInterval (nr_ID f) (nid net a) x) (rev (cn_fingers (net_node net a))) = Some b"
proof -
  have rn: "ring_node net M a" using assms(1,2) by (simp add: consistent_ring_def)
  then have s: "next_ref net M a s" "cn_fingers (net_node net a) \<noteq> []" "cn_fingers (net_node net a) ! 0 = Some s"
    and refs: "\<forall>f. Some f \<in> set (cn_fingers (net_node net a)) \<union> set (cn_antiFingers (net_node net a)) \<longrightarrow> ref_in net M f"
    using assms(3) by (auto simp: ring_node_def Let_def)
  have "nr_Addr s \<noteq> a" "nr_Addr s \<in> M" using s(1) assms(5) by (auto simp: next_ref_def ref_in_def)
  then have "nr_ID s \<noteq> nid net a"
    using assms(1,2) s(1) by (auto simp: consistent_ring_def registered_def next_ref_def ref_in_def dest: inj_onD)
  with assms(4,6) have "IsInInterval (nr_ID s) (nid net a) x"
    by (auto simp: IsInIntervalRightClosed_cw IsInInterval_cw cw_pos)
  moreover have "Some s \<in> set (rev (cn_fingers (net_node net a)))" using s(2,3) by (metis length_greater_0_conv nth_mem set_rev)
  ultimately obtain b where b: "first_match (\<lambda>f. IsInInterval (nr_ID f) (nid net a) x) (rev (cn_fingers (net_node net a))) = Some b"
    using first_match_ex [of s _ "\<lambda>f. IsInInterval (nr_ID f) (nid net a) x"] by fastforce
  then show "\<exists>b. first_match (\<lambda>f. IsInInterval (nr_ID f) (nid net a) x) (rev (cn_fingers (net_node net a))) = Some b" ..
  from ClosestPrecedingNode_forward [OF b] refs show "ref_in net M c" "IsInInterval (nr_ID c) (nid net a) x"
    unfolding c_def by auto
qed

text \<open>A lookup whose every hop decreases a measure returns the owner.\<close>

lemma lookup_by_measure:
  assumes "consistent_ring net M"
    and step: "\<And>a s. a \<in> M \<Longrightarrow> nid net a \<noteq> x \<Longrightarrow> M \<noteq> {a} \<Longrightarrow> cn_successor (net_node net a) = Some s \<Longrightarrow>
        \<not> IsInIntervalRightClosed x (nid net a) (nr_ID s) \<Longrightarrow>
        \<mu> (nr_Addr (ClosestPrecedingNode (net_node net a) x)) < (\<mu> a :: nat)"
    and "a \<in> M" "nid net a \<noteq> x" "\<mu> a < fuel" "same_nodes net net'"
  shows "\<exists>net'' hops r. FindSuccessor fuel a x net' = Some (net'', hops, Inr r) \<and> owner_ref net M x r \<and> same_nodes net net''"
  using assms(3-6)
proof (induction fuel arbitrary: a net')
  case (Suc fuel)
  let ?n = "net_node net a"
  have n: "net_node net' a = ?n" using Suc.prems(4) by (simp add: same_nodes_def)
  have rn: "ring_node net M a" and reg: "registered net M" using assms(1) Suc.prems(1) by (auto simp: consistent_ring_def)
  then obtain s where s: "cn_successor ?n = Some s" "next_ref net M a s" and hops: "0 \<le> MaxHops (cn_Config ?n)"
    and refs: "\<forall>f. Some f \<in> set (cn_fingers ?n) \<union> set (cn_antiFingers ?n) \<longrightarrow> ref_in net M f"
    by (auto simp: ring_node_def Let_def)
  let ?c = "ClosestPrecedingNode ?n x"
  show ?case
  proof (cases "IsInIntervalRightClosed x (nid net a) (nr_ID s)")
    case True
    then have "FindSuccessor (Suc fuel) a x net' = Some (net', [], Inr s)"
      using s(1) n hops by (simp add: FindSuccessor_def selfRef_def)
    with successor_is_owner [OF assms(1) Suc.prems(1) s(2) _ True] Suc.prems show ?thesis by auto
  next
    case out: False
    show ?thesis
    proof (cases "M = {a}")
      case True
      with refs have "?c = selfRef ?n" by (intro ClosestPrecedingNode_alone) (auto simp: ref_in_def)
      then have "\<exists>net'' hops. FindSuccessor (Suc fuel) a x net' = Some (net'', hops, Inr s) \<and> same_nodes net' net''"
        using s(1) n hops out by (simp add: FindSuccessor_def selfRef_def Let_def)
      moreover have "owner_ref net M x s" using s(2) True by (auto simp: owner_ref_def next_ref_def ref_in_def)
      ultimately show ?thesis using Suc.prems(4) same_nodes_trans by blast
    next
      case False
      note c = closest_progress [OF assms(1) Suc.prems(1) s(1) _ False out]
      have cin: "ref_in net M ?c" "IsInInterval (nr_ID ?c) (nid net a) x" using c Suc.prems(2) by auto
      then have ne: "nr_ID ?c \<noteq> nid net a" "nr_ID ?c \<noteq> x" by (auto simp: IsInInterval_cw)
      let ?h = "\<lambda>net. lookup_hop (nid net a) (nr_ID ?c) ''rpc_forward'' 1 (lookup_hop (nid net a) (nr_ID ?c) ''finger'' 0 net)"
      let ?net1 = "lookup_hop (nid net' a) (nr_ID ?c) ''rpc_forward'' 1 (lookup_hop (nid net' a) (nr_ID ?c) ''finger'' 0 net')"
      have same1: "same_nodes net ?net1"
        using Suc.prems(4) same_nodes_trans same_nodes_hop by meson
      have "registered ?net1 M" "ref_in ?net1 M ?c"
        using same_nodes_cong(1,3) [OF same1] assms(1) cin(1) by (auto simp: consistent_ring_def)
      then have rpc1: "rpc ctx ?c ?net1 = (?net1, Inr (nr_Addr ?c))" for ctx by (rule rpc_registered)
      have "\<mu> (nr_Addr ?c) < fuel" using step [OF Suc.prems(1,2) False s(1) out] Suc.prems(3) by simp
      moreover have "nr_Addr ?c \<in> M" "nid net (nr_Addr ?c) \<noteq> x" using cin(1) ne(2) by (auto simp: ref_in_def)
      ultimately obtain net'' hops r where r: "FindSuccessor fuel (nr_Addr ?c) x ?net1 = Some (net'', hops, Inr r)"
          "owner_ref net M x r" "same_nodes net net''"
        using Suc.IH [of "nr_Addr ?c" ?net1] same1 by auto
      have "\<exists>hops. FindSuccessor (Suc fuel) a x net' = Some (net'', hops, Inr r)"
        using s(1) n hops out ne r(1) rpc1 [of "WithSender None (selfRef ?n)"]
        by (simp add: FindSuccessor_def selfRef_def Let_def Transport_FindSuccessor_def)
      with r(2,3) show ?thesis by blast
    qed
  qed
qed simp

section \<open>A two-node ring\<close>

definition pair_node :: "ID \<Rightarrow> string \<Rightarrow> NodeRef \<Rightarrow> nat \<Rightarrow> ChordNode" where
  "pair_node i addr other k =
     (let self = \<lparr>nr_ID = i, nr_Addr = addr\<rparr> in
      \<lparr>cn_ID = i, cn_Addr = addr, cn_successor = Some other, cn_predecessor = Some other,
       cn_fingers = replicate k (Some other) @ replicate (160 - k) (Some self),
       cn_antiFingers = replicate 160 None, cn_antiFingerIdx = 0, cn_succList = [other], cn_Store = NewKVStore,
       cn_Config = Chord_DefaultConfig, cn_stopped = False\<rparr>)"

definition pair_net :: ChordNet where
  "pair_net =
     \<lparr>net_node = (\<lambda>s. if s = ''a'' then pair_node 10 ''a'' \<lparr>nr_ID = 20, nr_Addr = ''b''\<rparr> 4
                     else pair_node 20 s \<lparr>nr_ID = 10, nr_Addr = ''a''\<rparr> 160),
      net_transport = Register ''b'' ''b'' (Register ''a'' ''a'' (NewInProcessTransport (\<lambda>_. 0) 0 0)),
      net_events = [], net_now = 0\<rparr>"

lemma pair_net_nodes [simp]:
  "net_node pair_net ''a'' = pair_node 10 ''a'' \<lparr>nr_ID = 20, nr_Addr = ''b''\<rparr> 4"
  "net_node pair_net ''b'' = pair_node 20 ''b'' \<lparr>nr_ID = 10, nr_Addr = ''a''\<rparr> 160"
  by (simp_all add: pair_net_def)

lemma pair_node_simps [simp]:
  "cn_ID (pair_node i a r k) = i" "cn_Addr (pair_node i a r k) = a" "cn_successor (pair_node i a r k) = Some r"
  by (simp_all add: pair_node_def Let_def)

lemma pair_net_registered: "registered pair_net {''a'', ''b''}"
  by (simp add: registered_def reliable_def) (simp add: pair_net_def Register_def NewInProcessTransport_def gm_put_def)

lemma pair_net_consistent: "consistent_ring pair_net {''a'', ''b''}"
  using pair_net_registered
  by (simp add: consistent_ring_def ring_node_def next_ref_def ref_in_def)
     (auto simp: pair_node_def Let_def Chord_DefaultConfig_def fingerBits_def ref_in_def nth_append)

section \<open>Lookups are correct\<close>

lemma between_card_less:
  assumes "finite M" "c \<in> M" "IsInInterval (f c) (f a) x"
  shows "card {m \<in> M. IsInInterval (f m) (f c) x} < card {m \<in> M. IsInInterval (f m) (f a) (x :: ID)}"
proof (rule psubset_card_mono)
  have "IsInInterval (f m) (f a) x" if "IsInInterval (f m) (f c) x" for m
  proof -
    have ac: "cw (f a) (f c) + cw (f c) x = cw (f a) x" using assms(3) by (intro cw_triangle interval_cw_le)
    moreover have "cw (f c) (f m) < cw (f c) x" "0 < cw (f c) (f m)" using that by (auto simp: IsInInterval_cw)
    ultimately have "cw (f a) (f m) = cw (f a) (f c) + cw (f c) (f m)"
      using cw_less [of "f a" x] by (intro cw_sum) simp
    with ac that assms(3) show ?thesis by (auto simp: IsInInterval_cw)
  qed
  moreover have "\<not> IsInInterval (f c) (f c) x" by (simp add: IsInInterval_cw)
  ultimately show "{m \<in> M. IsInInterval (f m) (f c) x} \<subset> {m \<in> M. IsInInterval (f m) (f a) x}"
    using assms(2,3) by blast
qed (use assms(1) in simp)

lemma lookup_correct:
  assumes "consistent_ring net M" "a \<in> M" "nid net a \<noteq> x" "card M \<le> fuel"
  shows "\<exists>net' hops r. FindSuccessor fuel a x net = Some (net', hops, Inr r) \<and> owner_ref net M x r \<and> same_nodes net net'"
proof (rule lookup_by_measure [OF assms(1), where \<mu> = "\<lambda>b. card {m \<in> M. IsInInterval (nid net m) (nid net b) x}"])
  have fin: "finite M" using assms(1) by (simp add: consistent_ring_def)
  have "{m \<in> M. IsInInterval (nid net m) (nid net a) x} \<subset> M"
    using assms(2) IsInInterval_cw [of "nid net a" "nid net a" x] by auto
  from psubset_card_mono [OF fin this] assms(4)
  show "card {m \<in> M. IsInInterval (nid net m) (nid net a) x} < fuel" by simp
  fix b s assume b: "b \<in> M" "nid net b \<noteq> x" "M \<noteq> {b}" "cn_successor (net_node net b) = Some s"
    "\<not> IsInIntervalRightClosed x (nid net b) (nr_ID s)"
  let ?c = "ClosestPrecedingNode (net_node net b) x"
  have c: "ref_in net M ?c" "IsInInterval (nr_ID ?c) (nid net b) x"
    using closest_progress [OF assms(1) b(1,4) _ b(3,5)] b(2) by auto
  then have "nr_Addr ?c \<in> M" "IsInInterval (nid net (nr_Addr ?c)) (nid net b) x" by (simp_all add: ref_in_def)
  from between_card_less [OF fin this]
  show "card {m \<in> M. IsInInterval (nid net m) (nid net (nr_Addr ?c)) x} < card {m \<in> M. IsInInterval (nid net m) (nid net b) x}" .
qed (use assms in auto)

text \<open>
  C1. Lookups on a Chord ring are correct. On a ring of members whose successor pointers are
  right, with any fingers and anti-fingers that refer to members, \<^verbatim>\<open>FindSuccessor\<close> from any
  member, for any identifier but its own, terminates without error within as many nested
  calls as there are members, returns the member that owns the identifier, and leaves every
  node unchanged.
\<close>

theorem chord_lookup_correct:
  assumes "consistent_ring net M" "a \<in> M" "nid net a \<noteq> x" "card M \<le> fuel"
  shows "\<exists>net' hops r. FindSuccessor fuel a x net = Some (net', hops, Inr r) \<and> nr_Addr r \<in> M \<and>
    nr_ID r = nid net (nr_Addr r) \<and> (\<forall>b \<in> M. cw x (nr_ID r) \<le> cw x (nid net b)) \<and> net_node net' = net_node net"
proof -
  obtain net' hops r where "FindSuccessor fuel a x net = Some (net', hops, Inr r)" "owner_ref net M x r" "same_nodes net net'"
    using lookup_correct [OF assms] by blast
  then show ?thesis unfolding owner_ref_def ref_in_def same_nodes_def by blast
qed

theorem chord_lookup_correct_witness:
  "\<exists>net' hops r. FindSuccessor 2 ''a'' 25 pair_net = Some (net', hops, Inr r) \<and> nr_ID r = 10"
proof -
  obtain net' hops r where r: "FindSuccessor 2 ''a'' 25 pair_net = Some (net', hops, Inr r)" "nr_Addr r \<in> {''a'', ''b''}"
    "nr_ID r = nid pair_net (nr_Addr r)" "\<forall>b \<in> {''a'', ''b''}. cw 25 (nr_ID r) \<le> cw 25 (nid pair_net b)"
    using chord_lookup_correct [OF pair_net_consistent, of "''a''" 25 2] by auto
  have "int (cw 25 10) < int (cw 25 20)" by (simp add: cw_uint)
  then have "nr_ID r = 10" using r(2-4) by auto
  with r(1) show ?thesis by blast
qed

section \<open>Exact fingers give logarithmic lookups\<close>

definition exact_fingers :: "ChordNet \<Rightarrow> string set \<Rightarrow> bool" where
  "exact_fingers net M \<longleftrightarrow> (\<forall>a \<in> M. length (cn_fingers (net_node net a)) = fingerBits \<and>
     (\<forall>i < fingerBits. \<exists>f. cn_fingers (net_node net a) ! i = Some f \<and> owner_ref net M (fingerStart (net_node net a) i) f))"

lemma cw_fingerStart: "i < fingerBits \<Longrightarrow> cw (cn_ID n) (fingerStart n i) = 2 ^ i"
proof -
  assume "i < fingerBits"
  then have "(2 :: int) ^ i < 2 ^ 160" by (simp add: fingerBits_def power_strict_increasing_iff del: power_numeral)
  then show ?thesis
    using cw_Add [of "2 ^ i" "cn_ID n"] by (simp add: fingerStart_def PowerOfTwo_def push_bit_eq_mult nat_power_eq del: Add_word)
qed

text \<open>A finger that is not the node itself lies at least \<open>2 ^ i\<close> ahead.\<close>

lemma finger_distance:
  assumes "a \<in> M" "i < fingerBits" "owner_ref net M (fingerStart (net_node net a) i) f" "nr_ID f \<noteq> nid net a"
  shows "2 ^ i \<le> cw (nid net a) (nr_ID f)"
proof -
  let ?a = "nid net a" and ?x = "fingerStart (net_node net a) i"
  have x: "cw ?a ?x = 2 ^ i" using assms(2) by (rule cw_fingerStart)
  then have "?a \<noteq> ?x" by auto
  have "cw ?x (nr_ID f) \<le> cw ?x ?a" using assms(1,3) by (simp add: owner_ref_def)
  moreover have "cw ?x (nr_ID f) \<noteq> cw ?x ?a" using assms(4) by (simp add: cw_inj)
  ultimately have "cw ?x (nr_ID f) < 2 ^ 160 - 2 ^ i" using cw_rev [OF \<open>?a \<noteq> ?x\<close>] x by simp
  then have "cw ?a (nr_ID f) = 2 ^ i + cw ?x (nr_ID f)" using cw_sum [of ?a ?x "nr_ID f"] x cw_less [of ?a ?x] by simp
  then show ?thesis by simp
qed

text \<open>A finger whose start does not pass a member does not pass it either.\<close>

lemma finger_not_beyond:
  assumes "i < fingerBits" "owner_ref net M (fingerStart (net_node net a) i) f" "p \<in> M" "2 ^ i \<le> cw (nid net a) (nid net p)"
  shows "cw (nid net a) (nr_ID f) \<le> cw (nid net a) (nid net p)" and "2 ^ i \<le> cw (nid net a) (nr_ID f)"
proof -
  let ?a = "nid net a" and ?x = "fingerStart (net_node net a) i"
  have x: "cw ?a ?x = 2 ^ i" using assms(1) by (rule cw_fingerStart)
  have p: "2 ^ i + cw ?x (nid net p) = cw ?a (nid net p)" using cw_triangle [of ?a ?x "nid net p"] x assms(4) by simp
  moreover have "cw ?x (nr_ID f) \<le> cw ?x (nid net p)" using assms(2,3) by (simp add: owner_ref_def)
  moreover from calculation have "cw ?a (nr_ID f) = 2 ^ i + cw ?x (nr_ID f)"
    using cw_sum [of ?a ?x "nr_ID f"] x cw_less [of ?a "nid net p"] by simp
  ultimately show "cw ?a (nr_ID f) \<le> cw ?a (nid net p)" "2 ^ i \<le> cw ?a (nr_ID f)" by simp_all
qed

lemma BitLen_mono_less: "n < 2 ^ k \<Longrightarrow> BitLen n \<le> k"
proof (cases "n = 0")
  case False
  assume "n < 2 ^ k"
  moreover have "2 ^ (BitLen n - 1) \<le> n" "0 < BitLen n" using BitLen_bounds [of n] False by auto
  ultimately have "(2 :: nat) ^ (BitLen n - 1) < 2 ^ k" by linarith
  then have "BitLen n - 1 < k" by (simp add: power_strict_increasing_iff)
  then show ?thesis by simp
qed simp

text \<open>One hop clears the leading bit of the distance to the last member before the identifier.\<close>

lemma exact_hop:
  assumes ring: "consistent_ring net M" "exact_fingers net M"
    and a: "a \<in> M" "cn_successor (net_node net a) = Some s" "x \<noteq> nid net a" "M \<noteq> {a}"
      "\<not> IsInIntervalRightClosed x (nid net a) (nr_ID s)"
    and p: "p \<in> M" "nid net p \<noteq> x" "\<forall>b \<in> M. nid net b \<noteq> x \<longrightarrow> cw (nid net p) x \<le> cw (nid net b) x"
  defines "c \<equiv> ClosestPrecedingNode (net_node net a) x"
  shows "BitLen (cw (nr_ID c) (nid net p)) < BitLen (cw (nid net a) (nid net p))"
proof -
  let ?a = "nid net a" and ?p = "nid net p" and ?n = "net_node net a"
  obtain b where b: "first_match (\<lambda>f. IsInInterval (nr_ID f) ?a x) (rev (cn_fingers ?n)) = Some b"
    and c: "ref_in net M c" "IsInInterval (nr_ID c) ?a x"
    using closest_progress [OF ring(1) a] unfolding c_def by blast
  have upto: "cw ?a (nid net m) \<le> cw ?a ?p" if "m \<in> M" "IsInInterval (nid net m) ?a x" for m
  proof -
    have m: "cw ?a (nid net m) + cw (nid net m) x = cw ?a x" using that by (intro cw_triangle interval_cw_le)
    have "cw ?p x \<le> cw ?a x" "cw ?p x \<le> cw (nid net m) x" using p(3) a(1,3) that by (auto simp: IsInInterval_cw)
    then show ?thesis using m cw_arc [of ?p x ?a] by simp
  qed
  have ap: "0 < cw ?a ?p" "cw ?a (nr_ID c) \<le> cw ?a ?p" using upto [of "nr_Addr c"] c by (auto simp: ref_in_def IsInInterval_cw)
  define k where "k = BitLen (cw ?a ?p) - 1"
  have k: "2 ^ k \<le> cw ?a ?p" "cw ?a ?p < 2 ^ Suc k" "BitLen (cw ?a ?p) = Suc k"
    using BitLen_bounds [OF ap(1)] by (auto simp: k_def)
  have "(2 :: nat) ^ k < 2 ^ 160" using k(1) cw_less [of ?a ?p] by linarith
  then have k160: "k < fingerBits" by (simp add: fingerBits_def power_strict_increasing_iff del: power_numeral)
  have fing: "length (cn_fingers ?n) = fingerBits"
    "\<And>i. i < fingerBits \<Longrightarrow> \<exists>f. cn_fingers ?n ! i = Some f \<and> owner_ref net M (fingerStart ?n i) f"
    using ring(2) a(1) by (auto simp: exact_fingers_def)
  obtain f where f: "cn_fingers ?n ! k = Some f" "owner_ref net M (fingerStart ?n k) f" using fing(2) [OF k160] by blast
  have fp: "cw ?a (nr_ID f) \<le> cw ?a ?p" "2 ^ k \<le> cw ?a (nr_ID f)" using finger_not_beyond [OF k160 f(2) p(1) k(1)] by auto
  have px: "cw ?a ?p < cw ?a x"
  proof -
    have "cw ?p x \<le> cw ?a x" "0 < cw ?p x" using p a(1,3) by (auto simp: cw_pos)
    then show ?thesis using cw_arc [of ?p x ?a] by simp
  qed
  have "(2::nat) ^ k > 0" by simp
  with fp(2) have "0 < cw ?a (nr_ID f)" by linarith
  then have "IsInInterval (nr_ID f) ?a x" using fp px a(3) by (auto simp: IsInInterval_cw)
  from first_match_rev_index [OF b _ f(1) this] k160 fing(1)
  obtain j where j: "j \<ge> k" "j < fingerBits" "cn_fingers ?n ! j = Some b" by auto
  then have "owner_ref net M (fingerStart ?n j) b" using fing(2) [of j] by auto
  moreover have "nr_ID b \<noteq> ?a" using first_match_Some [OF b] by (auto simp: IsInInterval_cw)
  ultimately have "2 ^ j \<le> cw ?a (nr_ID b)" using finger_distance a(1) j(2) by blast
  moreover have "(2 :: nat) ^ k \<le> 2 ^ j" using j(1) by (simp add: power_increasing)
  moreover have "cw ?a (nr_ID b) \<le> cw ?a (nr_ID c)" unfolding c_def by (rule ClosestPrecedingNode_forward(3) [OF b])
  ultimately have "2 ^ k \<le> cw ?a (nr_ID c)" by linarith
  moreover have "cw ?a (nr_ID c) + cw (nr_ID c) ?p = cw ?a ?p" using ap(2) by (rule cw_triangle)
  ultimately have "cw (nr_ID c) ?p < 2 ^ k" using k(2) by simp
  then show ?thesis using BitLen_mono_less k(3) by (metis less_Suc_eq_le)
qed

lemma lookup_exact:
  assumes "consistent_ring net M" "exact_fingers net M" "a \<in> M" "nid net a \<noteq> x" "161 \<le> fuel"
  shows "\<exists>net' hops r. FindSuccessor fuel a x net = Some (net', hops, Inr r) \<and> owner_ref net M x r \<and> same_nodes net net'"
proof -
  let ?S = "{b \<in> M. nid net b \<noteq> x}"
  have S: "finite ?S" "?S \<noteq> {}" using assms(1,3,4) by (auto simp: consistent_ring_def)
  then have "Min ((\<lambda>b. cw (nid net b) x) ` ?S) \<in> (\<lambda>b. cw (nid net b) x) ` ?S" by (intro Min_in) auto
  then obtain p where p: "p \<in> M" "nid net p \<noteq> x" "cw (nid net p) x = Min ((\<lambda>b. cw (nid net b) x) ` ?S)" by auto
  then have min: "\<forall>b \<in> M. nid net b \<noteq> x \<longrightarrow> cw (nid net p) x \<le> cw (nid net b) x" using S by auto
  show ?thesis
  proof (rule lookup_by_measure [OF assms(1), where \<mu> = "\<lambda>b. BitLen (cw (nid net b) (nid net p))"])
    have "BitLen (cw (nid net a) (nid net p)) \<le> 160" by (rule BitLen_mono_less [OF cw_less])
    then show "BitLen (cw (nid net a) (nid net p)) < fuel" using assms(5) by simp
    fix b s assume b: "b \<in> M" "nid net b \<noteq> x" "M \<noteq> {b}" "cn_successor (net_node net b) = Some s"
      "\<not> IsInIntervalRightClosed x (nid net b) (nr_ID s)"
    let ?c = "ClosestPrecedingNode (net_node net b) x"
    have "ref_in net M ?c" using closest_progress(1) [OF assms(1) b(1,4) _ b(3,5)] b(2) by auto
    then have "nr_ID ?c = nid net (nr_Addr ?c)" by (simp add: ref_in_def)
    with exact_hop [OF assms(1,2) b(1,4) _ b(3,5) p(1,2) min] b(2)
    show "BitLen (cw (nid net (nr_Addr ?c)) (nid net p)) < BitLen (cw (nid net b) (nid net p))" by auto
  qed (use assms in auto)
qed

text \<open>
  C30. With exact finger tables (finger \<open>i\<close> of every member is the owner of the point \<open>2 ^ i\<close>
  ahead of it) a lookup needs at most 160 forwarding calls, whatever the number of members:
  every call clears the leading bit of the distance still to go, also when the
  anti-finger table overrides the choice of the next node.
\<close>

theorem chord_lookup_logarithmic:
  assumes "consistent_ring net M" "exact_fingers net M" "a \<in> M" "nid net a \<noteq> x"
  shows "\<exists>net' hops r. FindSuccessor 161 a x net = Some (net', hops, Inr r) \<and> nr_Addr r \<in> M \<and>
    nr_ID r = nid net (nr_Addr r) \<and> (\<forall>b \<in> M. cw x (nr_ID r) \<le> cw x (nid net b))"
  using lookup_exact [OF assms order_refl] unfolding owner_ref_def ref_in_def by blast

lemma cw_beyond_Add:
  assumes "0 \<le> k" "k < 2 ^ 160"
  shows "nat k \<le> cw a b \<Longrightarrow> cw (Add a k) b = cw a b - nat k"
    and "cw a b < nat k \<Longrightarrow> cw (Add a k) b = 2 ^ 160 + cw a b - nat k"
proof -
  have k: "cw a (Add a k) = nat k" using assms by (rule cw_Add)
  show "nat k \<le> cw a b \<Longrightarrow> cw (Add a k) b = cw a b - nat k" using cw_triangle [of a "Add a k" b] k by simp
  assume less: "cw a b < nat k"
  then have "cw a b + cw b (Add a k) = nat k" using cw_triangle [of a b "Add a k"] k by simp
  moreover have "b \<noteq> Add a k" using less k by auto
  ultimately show "cw (Add a k) b = 2 ^ 160 + cw a b - nat k"
    using cw_rev [of b "Add a k"] cw_less [of b "Add a k"] by simp
qed

lemma pair_net_exact: "exact_fingers pair_net {''a'', ''b''}"
proof -
  have d: "cw 10 20 = 10" "cw 20 10 = 2 ^ 160 - 10"
    by (simp_all add: cw_def)
  have owner: "owner_ref pair_net {''a'', ''b''} (fingerStart (net_node pair_net s) i) f"
    if "i < 160" "s \<in> {''a'', ''b''}"
      "f = (if s = ''a'' \<and> i < 4 then \<lparr>nr_ID = 20, nr_Addr = ''b''\<rparr> else \<lparr>nr_ID = 10, nr_Addr = ''a''\<rparr>)" for s i f
  proof -
    have p: "PowerOfTwo i = 2 ^ i" "nat (2 ^ i) = 2 ^ i" by (simp_all add: PowerOfTwo_def push_bit_eq_mult nat_power_eq)
    have lt: "(2 :: int) ^ i < 2 ^ 160" "(2 :: nat) ^ i < 2 ^ 160"
      using that(1) by (simp_all add: power_strict_increasing_iff del: power_numeral)
    note add = cw_beyond_Add [of "2 ^ i" 10 10] cw_beyond_Add [of "2 ^ i" 10 20]
      cw_beyond_Add [of "2 ^ i" 20 10] cw_beyond_Add [of "2 ^ i" 20 20]
    show ?thesis
    proof (cases "s = ''a'' \<and> i < 4")
      case True
      then have "(2 :: nat) ^ i \<le> 2 ^ 3" by (intro power_increasing) auto
      then show ?thesis using True that add p lt d
        by (simp add: owner_ref_def ref_in_def fingerStart_def del: Add_word)
    next
      case False
      have "s = ''a'' \<Longrightarrow> (2 :: nat) ^ 4 \<le> 2 ^ i" using False by (intro power_increasing) auto
      moreover have "(2 :: nat) ^ i \<le> 2 ^ 159" using that(1) by (intro power_increasing) auto
      ultimately show ?thesis using False that add p lt d
        by (auto simp: owner_ref_def ref_in_def fingerStart_def simp del: Add_word)
    qed
  qed
  have fing: "cn_fingers (net_node pair_net s) ! i =
      Some (if s = ''a'' \<and> i < 4 then \<lparr>nr_ID = 20, nr_Addr = ''b''\<rparr> else \<lparr>nr_ID = 10, nr_Addr = ''a''\<rparr>)"
    if "i < 160" "s \<in> {''a'', ''b''}" for s i
    using that by (auto simp: pair_node_def Let_def nth_append)
  have len: "length (cn_fingers (net_node pair_net s)) = 160" if "s \<in> {''a'', ''b''}" for s
    using that by (auto simp: pair_node_def Let_def)
  show ?thesis
    unfolding exact_fingers_def fingerBits_def
  proof (intro ballI conjI allI impI)
    fix s :: string and i :: nat assume s: "s \<in> {''a'', ''b''}" and i: "i < 160"
    show "\<exists>f. cn_fingers (net_node pair_net s) ! i = Some f \<and>
        owner_ref pair_net {''a'', ''b''} (fingerStart (net_node pair_net s) i) f"
      using fing [OF i s] owner [OF i s refl] by (intro exI conjI)
  qed (rule len)
qed

theorem chord_lookup_logarithmic_witness:
  "\<exists>net' hops r. FindSuccessor 161 ''b'' 15 pair_net = Some (net', hops, Inr r) \<and> nr_ID r = 20"
proof -
  obtain net' hops r where r: "FindSuccessor 161 ''b'' 15 pair_net = Some (net', hops, Inr r)" "nr_Addr r \<in> {''a'', ''b''}"
    "nr_ID r = nid pair_net (nr_Addr r)" "\<forall>b \<in> {''a'', ''b''}. cw 15 (nr_ID r) \<le> cw 15 (nid pair_net b)"
    using chord_lookup_logarithmic [OF pair_net_consistent pair_net_exact, of "''b''" 15] by auto
  have "int (cw 15 20) < int (cw 15 10)" by (simp add: cw_uint)
  then have "nr_ID r = 20" using r(2-4) by auto
  with r(1) show ?thesis by blast
qed

text \<open>
  The one identifier on which lookups are wrong is the node's own: a node of a ring with
  more than one member answers a lookup for its own identifier with its successor, although
  it owns that identifier itself.
\<close>

theorem chord_own_id_lookup:
  assumes "consistent_ring net M" "a \<in> M" "M \<noteq> {a}"
  shows "\<exists>net' hops s. FindSuccessor (Suc fuel) a (nid net a) net = Some (net', hops, Inr s) \<and>
    cn_successor (net_node net a) = Some s \<and> nr_ID s \<noteq> nid net a \<and> \<not> owner_ref net M (nid net a) s"
proof -
  let ?n = "net_node net a"
  have rn: "ring_node net M a" using assms(1,2) by (simp add: consistent_ring_def)
  then obtain s where s: "cn_successor ?n = Some s" "next_ref net M a s" and hops: "0 \<le> MaxHops (cn_Config ?n)"
    by (auto simp: ring_node_def Let_def)
  have "nr_Addr s \<noteq> a" "nr_Addr s \<in> M" using s(2) assms(3) by (auto simp: next_ref_def ref_in_def)
  then have ne: "nr_ID s \<noteq> nid net a"
    using assms(1,2) s(2) by (auto simp: consistent_ring_def registered_def next_ref_def ref_in_def dest: inj_onD)
  have none: "\<not> IsInInterval y (nid net a) (nid net a)" "\<not> IsInInterval (nid net a) y (nid net a)" for y
    by (auto simp: IsInInterval_cw)
  have "first_match (\<lambda>f. IsInInterval (nr_ID f) (nid net a) (nid net a)) fs = None" for fs
    by (rule ccontr) (use first_match_Some none in blast)
  then have "ClosestPrecedingNode ?n (nid net a) = selfRef ?n"
    using none by (simp add: ClosestPrecedingNode_def split: option.split)
  moreover have "\<not> IsInIntervalRightClosed (nid net a) (nid net a) (nr_ID s)"
    using ne by (auto simp: IsInIntervalRightClosed_cw)
  ultimately have "\<exists>net' hops. FindSuccessor (Suc fuel) a (nid net a) net = Some (net', hops, Inr s)"
    using s(1) hops by (simp add: FindSuccessor_def selfRef_def Let_def)
  moreover have "\<not> owner_ref net M (nid net a) s" using ne assms(2) by (auto simp: owner_ref_def intro!: bexI [of _ a])
  ultimately show ?thesis using s(1) ne by blast
qed

theorem chord_own_id_lookup_witness:
  "\<exists>net' hops s. FindSuccessor 1 ''a'' 10 pair_net = Some (net', hops, Inr s) \<and> nr_ID s = 20"
  using chord_own_id_lookup [OF pair_net_consistent, of "''a''" 0] by auto

end
