(* ===== verification/Chord_Ring.thy ===== *)
theory Chord_Ring
  imports Chord_Lookup
begin

text \<open>
  Maintenance of the Chord ring: an invariant of every node that all protocol steps keep under
  any transport behaviour, what the steps leave alone, how stabilization integrates a new
  node, when finger-table updates stop spreading, and what joining and leaving do to the
  stored keys.
\<close>

section \<open>What the steps change\<close>

text \<open>The part of a node that routing updates do not touch.\<close>

definition core_eq :: "ChordNode \<Rightarrow> ChordNode \<Rightarrow> bool" where
  "core_eq n m \<longleftrightarrow> cn_ID m = cn_ID n \<and> cn_Addr m = cn_Addr n \<and> cn_Store m = cn_Store n \<and>
     cn_predecessor m = cn_predecessor n \<and> cn_Config m = cn_Config n"

definition routing_only :: "ChordNet \<Rightarrow> ChordNet \<Rightarrow> bool" where
  "routing_only net net' \<longleftrightarrow> (\<forall>b. core_eq (net_node net b) (net_node net' b)) \<and> net_now net' = net_now net"

lemma routing_only_refl [simp]: "routing_only net net"
  by (simp add: routing_only_def core_eq_def)

lemma routing_only_trans [trans]: "routing_only a b \<Longrightarrow> routing_only b c \<Longrightarrow> routing_only a c"
  by (simp add: routing_only_def core_eq_def)

lemma routing_only_nodes: "net_node net' = net_node net \<Longrightarrow> net_now net' = net_now net \<Longrightarrow> routing_only net net'"
  by (simp add: routing_only_def core_eq_def)

lemma rpc_frame: "rpc c r net = (net', x) \<Longrightarrow> net_node net' = net_node net \<and> net_now net' = net_now net"
  by (auto simp: rpc_def Let_def split: prod.splits)

lemma rpc_from_frame: "rpc_from s r net = (net', x) \<Longrightarrow> net_node net' = net_node net \<and> net_now net' = net_now net"
  by (auto simp: rpc_from_def Let_def split: prod.splits)

lemma emit_frame [simp]: "net_node (emit t p net) = net_node net" "net_now (emit t p net) = net_now net"
  by (simp_all add: emit_def)

lemma lookup_hop_frame [simp]: "net_node (lookup_hop f t m i net) = net_node net" "net_now (lookup_hop f t m i net) = net_now net"
  by (simp_all add: lookup_hop_def)

lemma upd_node_frame [simp]: "net_node (upd_node a f net) b = (if b = a then f (net_node net a) else net_node net b)"
  "net_now (upd_node a f net) = net_now net"
  by (simp_all add: upd_node_def)

lemma setters_routing_only [simp]:
  "routing_only net (set_finger_only a i r net)" "routing_only net (set_anti_finger a i r net)"
  "routing_only net (set_successor_finger0 a r net)"
  by (simp_all add: routing_only_def core_eq_def set_finger_only_def set_anti_finger_def set_successor_finger0_def)

text \<open>Lookups change no node.\<close>

lemma Transport_FindSuccessor_frame:
  assumes "Transport_FindSuccessor handle c r x net = Some (net', res)"
    and "\<And>h net1 net2 res. handle h x net1 = Some (net2, res) \<Longrightarrow> net_node net2 = net_node net1 \<and> net_now net2 = net_now net1"
  shows "net_node net' = net_node net \<and> net_now net' = net_now net"
proof (cases "rpc c r net")
  case (Pair net1 y)
  then show ?thesis
    using assms rpc_frame [OF Pair] by (cases y) (auto simp: Transport_FindSuccessor_def)
qed

lemma FindSuccessor_loop_frame:
  "FindSuccessor_loop fuel a x cur i hops net = Some (net', hops', res) \<Longrightarrow>
   net_node net' = net_node net \<and> net_now net' = net_now net"
proof (induction fuel arbitrary: a x cur i hops net net' hops' res)
  case (Suc fuel)
  let ?handle = "\<lambda>h x net. map_option (\<lambda>(net, _, r). (net, r)) (FindSuccessor_loop fuel h x (selfRef (net_node net h)) 0 [] net)"
  have handle: "net_node net2 = net_node net1 \<and> net_now net2 = net_now net1"
    if "?handle h y net1 = Some (net2, r)" for h y net1 net2 r
    using that Suc.IH by auto
  note tf = Transport_FindSuccessor_frame [of ?handle, OF _ handle]
  show ?case
    using Suc.prems Suc.IH
    by (auto simp: Let_def split: if_splits option.splits prod.splits sum.splits dest!: tf)
qed simp

lemma FindSuccessor_frame:
  "FindSuccessor fuel a x net = Some (net', hops, res) \<Longrightarrow> net_node net' = net_node net \<and> net_now net' = net_now net"
  unfolding FindSuccessor_def by (rule FindSuccessor_loop_frame)

lemma HandleFindSuccessor_frame:
  "HandleFindSuccessor fuel a x net = Some (net', res) \<Longrightarrow> net_node net' = net_node net \<and> net_now net' = net_now net"
  by (auto simp: HandleFindSuccessor_def dest: FindSuccessor_frame)

lemma remote_find_frame:
  "Transport_FindSuccessor (HandleFindSuccessor fuel) c r x net = Some (net', res) \<Longrightarrow>
   net_node net' = net_node net \<and> net_now net' = net_now net"
  by (erule Transport_FindSuccessor_frame) (rule HandleFindSuccessor_frame)

lemma UpdateFingerTable_routing_only:
  "UpdateFingerTable fuel a s i net = Some (net', res) \<Longrightarrow> routing_only net net'"
proof (induction fuel arbitrary: a net net' res)
  case (Suc fuel)
  let ?net1 = "if i = 0 then set_successor_finger0 a s net else set_finger_only a (nat i) s net"
  have r1: "routing_only net ?net1" by simp
  have rec: "routing_only net net2"
    if "rpc c p ?net1 = (net1, Inr h)" "UpdateFingerTable fuel h s i net1 = Some (net2, r)" for c p net1 h net2 r
  proof -
    have "routing_only ?net1 net1" using rpc_frame [OF that(1)] by (intro routing_only_nodes) auto
    with r1 Suc.IH [OF that(2)] show ?thesis using routing_only_trans by blast
  qed
  have err: "routing_only net net1" if "rpc c p ?net1 = (net1, y)" for c p net1 y
    using r1 rpc_frame [OF that] routing_only_trans routing_only_nodes by metis
  show ?case
    using Suc.prems r1 rec err
    by (auto simp: Let_def split: if_splits option.splits prod.splits sum.splits)
qed simp

lemma for_each_induct:
  assumes "for_each body is s = Some s'" "P s" "\<And>i t t'. i \<in> set is \<Longrightarrow> body i t = Some t' \<Longrightarrow> P t \<Longrightarrow> P t'"
  shows "P s'"
  using assms
proof (induction "is" arbitrary: s)
  case (Cons i "is")
  then obtain t where t: "body i s = Some t" "for_each body is t = Some s'" by (auto split: option.splits)
  have "P t" using Cons.prems(3) [OF _ t(1)] Cons.prems(2) by simp
  with Cons.IH [OF t(2)] Cons.prems(3) show ?case by auto
qed simp

lemma init_finger_routing_only: "init_finger fuel a b i net = Some net' \<Longrightarrow> routing_only net net'"
proof -
  assume r: "init_finger fuel a b i net = Some net'"
  have "routing_only net (set_finger_only a i f net1)"
    if "net_node net1 = net_node net \<and> net_now net1 = net_now net" for f net1
    using that routing_only_trans [OF routing_only_nodes setters_routing_only(1)] by blast
  with r show ?thesis
    by (auto simp: init_finger_def Let_def routing_only_def core_eq_def split: if_splits option.splits sum.splits
        dest!: remote_find_frame)
qed

lemma initFingerTable_routing_only: "initFingerTable fuel a b net = Some (net', r) \<Longrightarrow> routing_only net net'"
proof -
  assume r: "initFingerTable fuel a b net = Some (net', r)"
  then obtain net1 res where f: "Transport_FindSuccessor (HandleFindSuccessor fuel)
      (WithSender None (selfRef (net_node net a))) b (fingerStart (net_node net a) 0) net = Some (net1, res)"
    by (auto simp: initFingerTable_def Let_def split: option.splits prod.splits)
  have n1: "routing_only net net1" using remote_find_frame [OF f] by (intro routing_only_nodes) auto
  show ?thesis
  proof (cases res)
    case (Inl e)
    with r f n1 show ?thesis by (auto simp: initFingerTable_def)
  next
    case (Inr s)
    with r f have "for_each (init_finger fuel a b) [1..<fingerBits] (set_successor_finger0 a s net1) = Some net'"
      by (auto simp: initFingerTable_def)
    moreover have "routing_only net (set_successor_finger0 a s net1)" using n1 routing_only_trans setters_routing_only by blast
    ultimately show ?thesis
      by (rule for_each_induct) (blast intro: routing_only_trans init_finger_routing_only)
  qed
qed

lemma Transport_GetPredecessor_frame:
  "Transport_GetPredecessor c r net = (net', x) \<Longrightarrow> net_node net' = net_node net \<and> net_now net' = net_now net"
  by (auto simp: Transport_GetPredecessor_def split: prod.splits sum.splits dest!: rpc_frame)

lemma init_anti_finger_routing_only: "init_anti_finger fuel a b i net = Some net' \<Longrightarrow> routing_only net net'"
proof -
  assume r: "init_anti_finger fuel a b i net = Some net'"
  have "routing_only net (set_anti_finger a i f net2)"
    if "net_node net1 = net_node net \<and> net_now net1 = net_now net" "net_node net2 = net_node net1 \<and> net_now net2 = net_now net1" for f net1 net2
    using that routing_only_trans [OF routing_only_nodes setters_routing_only(2)] by metis
  with r show ?thesis
    by (auto simp: init_anti_finger_def Let_def routing_only_nodes split: option.splits sum.splits prod.splits
        dest!: remote_find_frame Transport_GetPredecessor_frame)
qed

lemma update_other_routing_only: "update_other fuel a i net = Some net' \<Longrightarrow> routing_only net net'"
proof -
  assume r: "update_other fuel a i net = Some net'"
  have tu: "routing_only net1 net2" if "Transport_UpdateFingerTable fuel c p s j net1 = Some (net2, res)" for c p s j net1 net2 res
    using that by (auto simp: Transport_UpdateFingerTable_def HandleUpdateFingerTable_def routing_only_nodes
        split: prod.splits sum.splits dest!: rpc_frame UpdateFingerTable_routing_only
        intro: routing_only_trans [OF routing_only_nodes])
  have "routing_only net net1" if "FindSuccessor fuel a x net = Some (net1, h, res)" for x net1 h res
    using FindSuccessor_frame [OF that] by (intro routing_only_nodes) auto
  with r tu show ?thesis
    by (auto simp: update_other_def Let_def split: option.splits sum.splits prod.splits if_splits) (blast intro: routing_only_trans)+
qed

lemma migrateKeys_no_predecessor: "cn_predecessor (net_node net a) = None \<Longrightarrow> migrateKeys a net = net"
  by (auto simp: migrateKeys_def Let_def split: option.split)

text \<open>
  Joining moves no keys. Whatever the transport does, a run of \<^verbatim>\<open>Join\<close> that is not
  interrupted by other nodes leaves the store of every node as it was: the joining node's
  predecessor is cleared first and is still unknown when \<^verbatim>\<open>migrateKeys\<close> tests it, and nothing
  triggers a later migration. Keys that the new node now owns stay with its successor.
\<close>

theorem chord_join_moves_no_keys:
  assumes "Chord_Join fuel a bootstrap net = Some (net', res)"
  shows "cn_Store (net_node net' b) = cn_Store (net_node net b)"
proof -
  let ?n = "net_node net a"
  obtain net1 r1 where f: "Transport_FindSuccessor (HandleFindSuccessor fuel)
      (WithSender None (selfRef ?n)) bootstrap (cn_ID ?n) net = Some (net1, r1)"
    using assms by (auto simp: Chord_Join_def Let_def split: option.splits prod.splits)
  have n1: "net_node net1 = net_node net" using remote_find_frame [OF f] by simp
  show ?thesis
  proof (cases r1)
    case (Inl e)
    with assms f n1 show ?thesis by (auto simp: Chord_Join_def Let_def)
  next
    case (Inr s)
    let ?net2 = "upd_node a (\<lambda>n. n\<lparr>cn_predecessor := None\<rparr>) (set_successor_finger0 a s net1)"
    obtain net3 r3 net4 net5 where steps: "initFingerTable fuel a bootstrap ?net2 = Some (net3, r3)"
        "initAntiFingerTable fuel a bootstrap net3 = Some net4" "updateOthers fuel a net4 = Some net5"
        and net': "net_node net' = net_node (migrateKeys a net5)"
      using assms f Inr by (auto simp: Chord_Join_def Let_def split: option.splits prod.splits)
    have "routing_only ?net2 net3" using steps(1) by (rule initFingerTable_routing_only)
    moreover have "routing_only net3 net4" using steps(2) unfolding initAntiFingerTable_def
      by (rule for_each_induct) (auto intro: routing_only_trans init_anti_finger_routing_only)
    moreover have "routing_only net4 net5" using steps(3) unfolding updateOthers_def
      by (rule for_each_induct) (auto intro: routing_only_trans update_other_routing_only)
    ultimately have ro: "routing_only ?net2 net5" using routing_only_trans by blast
    then have "cn_predecessor (net_node net5 a) = None" by (simp add: routing_only_def core_eq_def)
    then have "net_node net' = net_node net5" using net' migrateKeys_no_predecessor by metis
    with ro n1 show ?thesis by (auto simp: routing_only_def core_eq_def set_successor_finger0_def)
  qed
qed

theorem chord_join_moves_no_keys_witness:
  "\<exists>net' res. Chord_Join 5 ''a'' \<lparr>nr_ID = 7, nr_Addr = ''z''\<rparr> pair_net = Some (net', res) \<and>
     cn_Store (net_node net' ''b'') = NewKVStore"
proof -
  have "reliable (net_transport pair_net)" "map_of (it_registry (net_transport pair_net)) ''z'' = None"
    by (simp_all add: reliable_def pair_net_def Register_def NewInProcessTransport_def gm_put_def)
  then have "\<exists>net' res. Chord_Join 5 ''a'' \<lparr>nr_ID = 7, nr_Addr = ''z''\<rparr> pair_net = Some (net', res)"
    by (simp add: Chord_Join_def Let_def Transport_FindSuccessor_def rpc_def)
  then obtain net' res where j: "Chord_Join 5 ''a'' \<lparr>nr_ID = 7, nr_Addr = ''z''\<rparr> pair_net = Some (net', res)" by blast
  from chord_join_moves_no_keys [OF j, of "''b''"] j show ?thesis by (auto simp: pair_node_def Let_def)
qed

section \<open>Finger-table updates stop\<close>

definition full_tables :: "ChordNet \<Rightarrow> bool" where
  "full_tables net \<longleftrightarrow> (\<forall>b. length (cn_fingers (net_node net b)) = fingerBits)"

text \<open>The registered nodes that an update of finger \<open>i\<close> with \<open>s\<close> has not reached yet.\<close>

definition stale :: "NodeRef \<Rightarrow> nat \<Rightarrow> ChordNet \<Rightarrow> string set" where
  "stale s i net = {h \<in> snd ` set (it_registry (net_transport net)). cn_fingers (net_node net h) ! i \<noteq> Some s}"

lemma rpc_target:
  assumes "rpc c r net = (net', Inr h)"
  shows "h \<in> snd ` set (it_registry (net_transport net))"
    and "it_registry (net_transport net') = it_registry (net_transport net)"
proof -
  obtain t where t: "lookupForContext c (nr_Addr r) (net_transport net) = (t, Inr h)" "net' = net\<lparr>net_transport := t\<rparr>"
    using assms by (auto simp: rpc_def Let_def split: prod.splits)
  show "h \<in> snd ` set (it_registry (net_transport net))"
    using lookupForContext_Inr [OF t(1)] by (force dest: map_of_SomeD)
  show "it_registry (net_transport net') = it_registry (net_transport net)"
    using lookupForContext_same_net [OF t(1)] t(2) unfolding same_net_def
    by (metis ChordNet.select_convs(2) ChordNet.surjective ChordNet.update_convs(2) InProcessTransport.select_convs(1) InProcessTransport.surjective InProcessTransport.update_convs(7))
qed

lemma UpdateFingerTable_fuel:
  assumes "full_tables net" "0 \<le> i" "i < int fingerBits"
    and "card (stale s (nat i) net) + (if a \<in> snd ` set (it_registry (net_transport net)) then 1 else 2) \<le> fuel"
  shows "UpdateFingerTable fuel a s i net \<noteq> None"
  using assms
proof (induction fuel arbitrary: a net)
  case (Suc fuel)
  let ?n = "net_node net a" and ?R = "snd ` set (it_registry (net_transport net))"
  let ?net1 = "if i = 0 then set_successor_finger0 a s net else set_finger_only a (nat i) s net"
  have i: "nat i < length (cn_fingers (net_node net b))" for b using Suc.prems by (simp add: full_tables_def)
  have node1: "cn_fingers (net_node ?net1 b) = (if b = a then (cn_fingers ?n)[nat i := Some s] else cn_fingers (net_node net b))" for b
    by (auto simp: set_successor_finger0_def set_finger_only_def)
  have tr1: "net_transport ?net1 = net_transport net" by (simp add: set_successor_finger0_def set_finger_only_def upd_node_def)
  have stale1: "stale s (nat i) ?net1 = stale s (nat i) net - {a}"
    using i [of a] by (auto simp: stale_def node1 tr1)
  have rec: "UpdateFingerTable fuel h s i net2 \<noteq> None"
    if upd: "cn_fingers ?n ! nat i \<noteq> Some s" and r: "rpc c p ?net1 = (net2, Inr h)" for c p h net2
  proof (rule Suc.IH)
    have n2: "net_node net2 = net_node ?net1" using rpc_frame [OF r] by simp
    then show "full_tables net2" using Suc.prems(1) by (simp add: full_tables_def node1)
    have reg: "it_registry (net_transport net2) = it_registry (net_transport net)" using rpc_target(2) [OF r] tr1 by simp
    have st: "stale s (nat i) net2 = stale s (nat i) net - {a}" using stale1 n2 reg tr1 by (simp add: stale_def)
    have h: "h \<in> snd ` set (it_registry (net_transport net2))" using rpc_target(1) [OF r] tr1 reg by simp
    have fin: "finite (stale s (nat i) net)" by (simp add: stale_def)
    have "card (stale s (nat i) net - {a}) + 1 \<le> fuel"
    proof (cases "a \<in> ?R")
      case True
      then have "a \<in> stale s (nat i) net" using upd by (simp add: stale_def)
      then have "Suc (card (stale s (nat i) net - {a})) = card (stale s (nat i) net)" using fin by (rule card_Suc_Diff1 [rotated])
      with True Suc.prems(4) show ?thesis by simp
    next
      case False
      then have "stale s (nat i) net - {a} = stale s (nat i) net" by (auto simp: stale_def)
      with False Suc.prems(4) show ?thesis by simp
    qed
    with st h show "card (stale s (nat i) net2) + (if h \<in> snd ` set (it_registry (net_transport net2)) then 1 else 2) \<le> fuel"
      by (simp only: if_True)
  qed (use Suc.prems in auto)
  have "cn_fingers ?n ! nat i = Some s \<Longrightarrow> \<not> IsInInterval (nr_ID s) (cn_ID ?n) (nr_ID s)" by (simp add: IsInInterval_cw)
  then have fresh: "cn_fingers ?n ! nat i \<noteq> Some s"
    if "case cn_fingers ?n ! nat i of None \<Rightarrow> True | Some c \<Rightarrow> IsInInterval (nr_ID s) (cn_ID ?n) (nr_ID c)"
    using that by auto
  have range: "(i < 0 \<or> i \<ge> int fingerBits) = False" using Suc.prems(2,3) by auto
  define net1 where "net1 = ?net1"
  note rec' = rec [folded net1_def]
  show ?case
    unfolding UpdateFingerTable.simps Let_def range if_False net1_def [symmetric]
  proof (cases "case cn_fingers ?n ! nat i of None \<Rightarrow> True | Some c \<Rightarrow> IsInInterval (nr_ID s) (cn_ID ?n) (nr_ID c)")
    case True
    have "rpc c p net1 = (net2, Inr h) \<Longrightarrow> \<exists>net3 r. UpdateFingerTable fuel h s i net2 = Some (net3, r)" for c p net2 h
      using rec' [OF fresh [OF True], of c p net2 h] by auto
    then show "(if case cn_fingers ?n ! nat i of None \<Rightarrow> True | Some c \<Rightarrow> IsInInterval (nr_ID s) (cn_ID ?n) (nr_ID c)
        then case cn_predecessor ?n of None \<Rightarrow> Some (net1, Inr ())
          | Some pred \<Rightarrow> if nr_ID pred \<noteq> cn_ID ?n \<and> nr_ID pred \<noteq> nr_ID s
              then case rpc (WithSender None (selfRef ?n)) pred net1 of (net, Inl e) \<Rightarrow> Some (net, Inr ())
                | (net, Inr h) \<Rightarrow> case UpdateFingerTable fuel h s i net of None \<Rightarrow> None | Some (net, uu_) \<Rightarrow> Some (net, Inr ())
              else Some (net1, Inr ())
        else Some (net, Inr ())) \<noteq> None"
      unfolding if_P [OF True] by (fastforce split: option.splits prod.splits sum.splits)
  qed simp
qed (auto split: if_splits)

text \<open>
  The propagation of a finger-table update along predecessor pointers always stops, whatever
  the pointers are (cycles included) and whatever the transport does: a node reached a second
  time already holds the new finger. As many nested calls as there are registered nodes, plus
  two, are enough.
\<close>

theorem update_finger_table_terminates:
  assumes "full_tables net"
  shows "UpdateFingerTable (length (it_registry (net_transport net)) + 2) a s i net \<noteq> None"
proof (cases "i < 0 \<or> i \<ge> int fingerBits")
  case False
  have "card (stale s (nat i) net) \<le> card (snd ` set (it_registry (net_transport net)))"
    by (intro card_mono) (auto simp: stale_def)
  also have "\<dots> \<le> length (it_registry (net_transport net))"
    using card_image_le card_length le_trans by (metis List.finite_set)
  finally show ?thesis using False assms by (intro UpdateFingerTable_fuel) auto
qed auto

theorem update_finger_table_terminates_witness:
  "UpdateFingerTable 4 ''a'' \<lparr>nr_ID = 15, nr_Addr = ''c''\<rparr> 3 pair_net \<noteq> None"
proof -
  have "full_tables pair_net" by (simp add: full_tables_def pair_net_def pair_node_def Let_def fingerBits_def)
  moreover have "length (it_registry (net_transport pair_net)) = 2"
    by (simp add: pair_net_def Register_def NewInProcessTransport_def gm_put_def)
  ultimately show ?thesis using update_finger_table_terminates [of pair_net "''a''"] by (metis add_2_eq_Suc numeral_Bit0 numeral_2_eq_2 add_numeral_left numerals(1) numeral_plus_numeral)
qed

text \<open>
  The guard of \<^verbatim>\<open>UpdateFingerTable\<close> is weaker than its comment says. It accepts every node
  between this node and the current finger, also one before the point \<open>2 ^ i\<close> ahead that the
  finger stands for: a right finger \<open>i\<close> is then replaced by a node that does not own that
  point, since the replaced finger is closer to it.
\<close>

theorem update_finger_table_overwrites_exact:
  assumes "0 \<le> i" "i < int fingerBits" "length (cn_fingers (net_node net a)) = fingerBits"
    and "cn_fingers (net_node net a) ! nat i = Some c" "cn_predecessor (net_node net a) = None"
    and "0 < cw (nid net a) (nr_ID s)" "cw (nid net a) (nr_ID s) < 2 ^ nat i" "2 ^ nat i \<le> cw (nid net a) (nr_ID c)"
  shows "\<exists>net'. UpdateFingerTable (Suc fuel) a s i net = Some (net', Inr ()) \<and>
    cn_fingers (net_node net' a) ! nat i = Some s \<and>
    cw (fingerStart (net_node net a) (nat i)) (nr_ID c) < cw (fingerStart (net_node net a) (nat i)) (nr_ID s)"
proof -
  let ?n = "net_node net a"
  let ?x = "fingerStart ?n (nat i)"
  have "IsInInterval (nr_ID s) (cn_ID ?n) (nr_ID c)" using assms(6-8) by (auto simp: IsInInterval_cw)
  then have "\<exists>net'. UpdateFingerTable (Suc fuel) a s i net = Some (net', Inr ()) \<and> cn_fingers (net_node net' a) ! nat i = Some s"
    using assms(1-5) by (auto simp: Let_def set_successor_finger0_def set_finger_only_def)
  moreover have "cw ?x (nr_ID c) < cw ?x (nr_ID s)"
  proof -
    have k: "cw (cn_ID ?n) ?x = 2 ^ nat i" using assms(1,2) by (intro cw_fingerStart) simp
    then have c: "2 ^ nat i + cw ?x (nr_ID c) = cw (cn_ID ?n) (nr_ID c)" using cw_triangle [of "cn_ID ?n" ?x "nr_ID c"] assms(8) by simp
    have "cw (cn_ID ?n) (nr_ID s) + cw (nr_ID s) ?x = 2 ^ nat i" using cw_triangle [of "cn_ID ?n" "nr_ID s" ?x] k assms(7) by simp
    moreover have "nr_ID s \<noteq> ?x" using k assms(7) by auto
    ultimately have "cw ?x (nr_ID s) = 2 ^ 160 - (2 ^ nat i - cw (cn_ID ?n) (nr_ID s))"
      using cw_rev [of "nr_ID s" ?x] by simp
    then show ?thesis using c cw_less [of "cn_ID ?n" "nr_ID c"] assms(6,7) by linarith
  qed
  ultimately show ?thesis by blast
qed

theorem update_finger_table_overwrites_exact_witness:
  "\<exists>net'. UpdateFingerTable 1 ''a'' \<lparr>nr_ID = 12, nr_Addr = ''c''\<rparr> 3
      (upd_node ''a'' (\<lambda>n. n\<lparr>cn_predecessor := None\<rparr>) pair_net) = Some (net', Inr ()) \<and>
    cn_fingers (net_node net' ''a'') ! 3 = Some \<lparr>nr_ID = 12, nr_Addr = ''c''\<rparr>"
proof -
  let ?net = "upd_node ''a'' (\<lambda>n. n\<lparr>cn_predecessor := None\<rparr>) pair_net"
  have "cw 10 12 = 2" "cw 10 20 = 10" by (simp_all add: cw_def)
  then have "\<exists>net'. UpdateFingerTable (Suc 0) ''a'' \<lparr>nr_ID = 12, nr_Addr = ''c''\<rparr> 3 ?net = Some (net', Inr ()) \<and>
    cn_fingers (net_node net' ''a'') ! nat 3 = Some \<lparr>nr_ID = 12, nr_Addr = ''c''\<rparr> \<and>
    cw (fingerStart (net_node ?net ''a'') (nat 3)) (nr_ID \<lparr>nr_ID = 20, nr_Addr = ''b''\<rparr>) <
    cw (fingerStart (net_node ?net ''a'') (nat 3)) (nr_ID \<lparr>nr_ID = 12, nr_Addr = ''c''\<rparr>)"
    by (intro update_finger_table_overwrites_exact) (simp_all add: fingerBits_def pair_node_def Let_def nth_append)
  then show ?thesis unfolding One_nat_def by (auto simp del: UpdateFingerTable.simps)
qed

section \<open>Stabilization integrates a new node\<close>

definition live :: "ChordNet \<Rightarrow> NodeRef \<Rightarrow> bool" where
  "live net r \<longleftrightarrow> reliable (net_transport net) \<and> map_of (it_registry (net_transport net)) (nr_Addr r) = Some (nr_Addr r) \<and>
     selfRef (net_node net (nr_Addr r)) = r"

lemma live_rpc: "live net r \<Longrightarrow> rpc c r net = (net, Inr (nr_Addr r))" "live net r \<Longrightarrow> rpc_from f r net = (net, Inr (nr_Addr r))"
  by (simp_all add: live_def rpc_def rpc_from_def)

lemma live_selfRef: "live net r \<Longrightarrow> cn_ID (net_node net (nr_Addr r)) = nr_ID r" "live net r \<Longrightarrow> cn_Addr (net_node net (nr_Addr r)) = nr_Addr r"
  by (auto simp: live_def selfRef_def dest: arg_cong [of _ _ nr_ID] arg_cong [of _ _ nr_Addr])

text \<open>The pointers of two networks agree.\<close>

definition same_ptrs :: "ChordNet \<Rightarrow> ChordNet \<Rightarrow> bool" where
  "same_ptrs net net' \<longleftrightarrow> net_transport net' = net_transport net \<and>
     (\<forall>b. selfRef (net_node net' b) = selfRef (net_node net b) \<and>
          cn_successor (net_node net' b) = cn_successor (net_node net b) \<and>
          cn_predecessor (net_node net' b) = cn_predecessor (net_node net b))"

lemma same_ptrs_live: "same_ptrs net net' \<Longrightarrow> live net' r = live net r"
  by (simp add: same_ptrs_def live_def)

lemma updateSuccessorList_ptrs: "live net s \<Longrightarrow> same_ptrs net (updateSuccessorList a s net)"
  by (auto simp: updateSuccessorList_def Let_def Transport_GetSuccessorList_def live_rpc same_ptrs_def selfRef_def upd_node_def)

lemma emit_transport [simp]: "net_transport (emit t p net) = net_transport net"
  by (simp add: emit_def)

lemma upd_node_transport [simp]: "net_transport (upd_node a f net) = net_transport net"
  by (simp add: upd_node_def)

text \<open>What one round of \<^verbatim>\<open>Stabilize\<close> does to the pointers when the nodes it talks to are live.\<close>

definition adopt :: "ChordNet \<Rightarrow> NodeRef \<Rightarrow> NodeRef \<Rightarrow> NodeRef" where
  "adopt net n s = (case cn_predecessor (net_node net (nr_Addr s)) of
     Some x \<Rightarrow> if IsInInterval (nr_ID x) (nr_ID n) (nr_ID s) then x else s | None \<Rightarrow> s)"

definition believes :: "ChordNet \<Rightarrow> NodeRef \<Rightarrow> NodeRef \<Rightarrow> bool" where
  "believes net s n = (case cn_predecessor (net_node net (nr_Addr s)) of
     None \<Rightarrow> True | Some p \<Rightarrow> IsInInterval (nr_ID n) (nr_ID p) (nr_ID s))"

lemma Stabilize_ptrs:
  assumes n: "live net n" "cn_successor (net_node net (nr_Addr n)) = Some s" "nr_ID s \<noteq> nr_ID n"
    and s: "live net s" "live net (adopt net n s)"
  defines "net' \<equiv> Stabilize (nr_Addr n) net"
  shows "net_transport net' = net_transport net"
    and "selfRef (net_node net' b) = selfRef (net_node net b)"
    and "cn_successor (net_node net' b) = (if b = nr_Addr n then Some (adopt net n s) else cn_successor (net_node net b))"
    and "cn_predecessor (net_node net' b) =
      (if b = nr_Addr (adopt net n s) \<and> believes net (adopt net n s) n then Some n else cn_predecessor (net_node net b))"
proof -
  let ?a = "nr_Addr n" and ?s' = "adopt net n s"
  define net1 where "net1 = (if ?s' = s then net else set_successor_finger0 ?a ?s' net)"
  define net2 where "net2 = fst (Transport_Notify ?s' n net1)"
  define net3 where "net3 = updateSuccessorList ?a ?s' net2"
  have self: "selfRef (net_node net ?a) = n" "cn_ID (net_node net ?a) = nr_ID n" using n(1) live_selfRef by (auto simp: live_def)
  have adopt_id: "IsInInterval (nr_ID x) (nr_ID n) (nr_ID s) \<Longrightarrow> x \<noteq> s" for x by (auto simp: IsInInterval_cw)
  have p1: "net_transport net1 = net_transport net" "selfRef (net_node net1 b) = selfRef (net_node net b)"
    "cn_successor (net_node net1 b) = (if b = ?a then Some ?s' else cn_successor (net_node net b))"
    "cn_predecessor (net_node net1 b) = cn_predecessor (net_node net b)" "live net1 r = live net r" for b r
    using n(2) by (auto simp: net1_def set_successor_finger0_def selfRef_def live_def)
  have live1: "live net1 ?s'" using s(2) p1(5) by simp
  have id1: "cn_ID (net_node net1 (nr_Addr ?s')) = nr_ID ?s'" using live_selfRef(1) [OF live1] .
  have p2: "net_transport net2 = net_transport net1" "selfRef (net_node net2 b) = selfRef (net_node net1 b)"
    "cn_successor (net_node net2 b) = cn_successor (net_node net1 b)"
    "cn_predecessor (net_node net2 b) =
      (if b = nr_Addr ?s' \<and> believes net ?s' n then Some n else cn_predecessor (net_node net1 b))"
    "live net2 r = live net1 r" for b r
    using id1 p1(4) by (auto simp: net2_def Transport_Notify_def live_rpc [OF live1] HandleNotify_def Notify_def Let_def
        believes_def selfRef_def live_def split: option.splits)
  have p3: "same_ptrs net2 net3" unfolding net3_def using live1 p2(5) by (intro updateSuccessorList_ptrs) simp
  have "\<exists>p. net' = emit EventStabilize p net3"
  proof -
    have "Transport_GetPredecessor c s net = (net, Inr (cn_predecessor (net_node net (nr_Addr s))))" for c
      by (simp add: Transport_GetPredecessor_def live_rpc [OF s(1)] HandleGetPredecessor_def)
    then show ?thesis
      using n(2,3) self adopt_id
      by (cases "cn_predecessor (net_node net (nr_Addr s))")
         (auto simp: net'_def Stabilize_def Let_def net3_def net2_def net1_def adopt_def)
  qed
  then obtain p where net': "net' = emit EventStabilize p net3" ..
  show "net_transport net' = net_transport net" using p1(1) p2(1) p3 by (simp add: net' same_ptrs_def)
  show "selfRef (net_node net' b) = selfRef (net_node net b)" using p1(2) p2(2) p3 by (simp add: net' same_ptrs_def)
  show "cn_successor (net_node net' b) = (if b = ?a then Some ?s' else cn_successor (net_node net b))"
    using p1(3) p2(3) p3 by (simp add: net' same_ptrs_def)
  show "cn_predecessor (net_node net' b) =
      (if b = nr_Addr ?s' \<and> believes net ?s' n then Some n else cn_predecessor (net_node net b))"
    using p1(4) p2(4) p3 by (simp add: net' same_ptrs_def)
qed

text \<open>
  C31. Two rounds of stabilization integrate a new node. Let \<open>p\<close> and \<open>s\<close> be neighbours that point
  at each other and let \<open>n\<close>, between them on the ring, have joined with successor \<open>s\<close> and no
  predecessor. After \<open>n\<close> and then \<open>p\<close> have run \<^verbatim>\<open>Stabilize\<close> over a reliable transport, \<open>n\<close> is
  linked in both directions between \<open>p\<close> and \<open>s\<close>, and no other pointer has changed.
\<close>

theorem stabilize_integrates_new_node:
  assumes live: "live net p" "live net n" "live net s"
    and ptrs: "cn_successor (net_node net (nr_Addr p)) = Some s" "cn_predecessor (net_node net (nr_Addr s)) = Some p"
      "cn_successor (net_node net (nr_Addr n)) = Some s" "cn_predecessor (net_node net (nr_Addr n)) = None"
    and pos: "IsInInterval (nr_ID n) (nr_ID p) (nr_ID s)"
  defines "net' \<equiv> Stabilize (nr_Addr p) (Stabilize (nr_Addr n) net)"
  shows "cn_successor (net_node net' b) = (if b = nr_Addr p then Some n else cn_successor (net_node net b)) \<and>
    cn_predecessor (net_node net' b) =
      (if b = nr_Addr s then Some n else if b = nr_Addr n then Some p else cn_predecessor (net_node net b))"
proof -
  let ?net1 = "Stabilize (nr_Addr n) net"
  have ids: "nr_ID n \<noteq> nr_ID p" "nr_ID n \<noteq> nr_ID s" "nr_ID p \<noteq> nr_ID s" using pos by (auto simp: IsInInterval_cw)
  have "\<not> IsInInterval (nr_ID p) (nr_ID n) (nr_ID s)"
    using pos cw_triangle [of "nr_ID p" "nr_ID n" "nr_ID s"] cw_rev [of "nr_ID p" "nr_ID n"] cw_less [of "nr_ID p" "nr_ID s"]
    by (auto simp: IsInInterval_cw)
  then have ad1: "adopt net n s = s" and bel1: "believes net s n" using pos ptrs(2) by (simp_all add: adopt_def believes_def)
  note st1 = Stabilize_ptrs [OF live(2) ptrs(3) _ live(3), unfolded ad1, OF _ live(3)]
  have addr: "nr_Addr n \<noteq> nr_Addr p" "nr_Addr n \<noteq> nr_Addr s" "nr_Addr p \<noteq> nr_Addr s"
    using ids live_selfRef(1) [OF live(1)] live_selfRef(1) [OF live(2)] live_selfRef(1) [OF live(3)] by auto
  have live1: "live ?net1 r = live net r" for r using st1(1,2) ids by (simp add: live_def)
  have s1: "cn_successor (net_node ?net1 b) = cn_successor (net_node net b)" for b using st1(3) ids ptrs(3) by auto
  have p1: "cn_predecessor (net_node ?net1 b) = (if b = nr_Addr s then Some n else cn_predecessor (net_node net b))" for b
    using st1(4) ids bel1 by auto
  have ad2: "adopt ?net1 p s = n" and bel2: "believes ?net1 n p"
    using pos ptrs(4) addr by (simp_all add: adopt_def believes_def p1)
  note st2 = Stabilize_ptrs [of ?net1 p s, unfolded ad2 live1 s1, OF live(1) ptrs(1) _ live(3,2)]
  show ?thesis unfolding net'_def using st2(3,4) ids bel2 addr by (auto simp: p1 s1)
qed

definition trio_net :: ChordNet where
  "trio_net = upd_node ''c'' (\<lambda>n. n\<lparr>cn_predecessor := None\<rparr>)
     (pair_net\<lparr>net_node := (\<lambda>s. if s = ''c'' then pair_node 15 ''c'' \<lparr>nr_ID = 20, nr_Addr = ''b''\<rparr> 1 else net_node pair_net s),
       net_transport := Register ''c'' ''c'' (net_transport pair_net)\<rparr>)"

lemma trio_net_nodes [simp]:
  "net_node trio_net ''a'' = pair_node 10 ''a'' \<lparr>nr_ID = 20, nr_Addr = ''b''\<rparr> 4"
  "net_node trio_net ''b'' = pair_node 20 ''b'' \<lparr>nr_ID = 10, nr_Addr = ''a''\<rparr> 160"
  "net_node trio_net ''c'' = pair_node 15 ''c'' \<lparr>nr_ID = 20, nr_Addr = ''b''\<rparr> 1\<lparr>cn_predecessor := None\<rparr>"
  by (simp_all add: trio_net_def)

lemma trio_net_live:
  "live trio_net \<lparr>nr_ID = 10, nr_Addr = ''a''\<rparr>" "live trio_net \<lparr>nr_ID = 20, nr_Addr = ''b''\<rparr>" "live trio_net \<lparr>nr_ID = 15, nr_Addr = ''c''\<rparr>"
proof -
  have "reliable (net_transport trio_net)" "it_registry (net_transport trio_net) = [(''a'', ''a''), (''b'', ''b''), (''c'', ''c'')]"
    by (simp_all add: trio_net_def pair_net_def reliable_def Register_def NewInProcessTransport_def gm_put_def)
  then show "live trio_net \<lparr>nr_ID = 10, nr_Addr = ''a''\<rparr>" "live trio_net \<lparr>nr_ID = 20, nr_Addr = ''b''\<rparr>"
    "live trio_net \<lparr>nr_ID = 15, nr_Addr = ''c''\<rparr>" by (simp_all add: live_def selfRef_def)
qed

theorem stabilize_integrates_new_node_witness:
  "cn_successor (net_node (Stabilize ''a'' (Stabilize ''c'' trio_net)) ''a'') = Some \<lparr>nr_ID = 15, nr_Addr = ''c''\<rparr> \<and>
   cn_predecessor (net_node (Stabilize ''a'' (Stabilize ''c'' trio_net)) ''b'') = Some \<lparr>nr_ID = 15, nr_Addr = ''c''\<rparr>"
proof -
  have "IsInInterval 15 10 20" by (simp add: IsInInterval_def)
  then show ?thesis
    using stabilize_integrates_new_node [OF trio_net_live(1,3,2), of "''a''"]
      stabilize_integrates_new_node [OF trio_net_live(1,3,2), of "''b''"]
    by (simp add: pair_node_def Let_def)
qed

section \<open>Leaving\<close>

lemma Notify_frame:
  "cn_Store (net_node (Notify a c net) b) = cn_Store (net_node net b)"
  "cn_successor (net_node (Notify a c net) b) = cn_successor (net_node net b)"
  "selfRef (net_node (Notify a c net) b) = selfRef (net_node net b)"
  "net_transport (Notify a c net) = net_transport net"
  by (auto simp: Notify_def Let_def selfRef_def)

lemma Notify_rejected:
  assumes "cn_predecessor (net_node net a) = Some p" "\<not> IsInInterval (nr_ID c) (nr_ID p) (nid net a)"
  shows "Notify a c net = net"
  using assms by (simp add: Notify_def)

text \<open>
  What \<^verbatim>\<open>Leave\<close> does, over a reliable transport. Every unexpired entry of the leaving node
  is handed to its successor, where it replaces the entry with the same key whatever the two
  vector clocks say, and the successor keeps all its other entries. But the ring is not
  relinked, contrary to the documented steps 2 and 3: the successor still has the leaving node
  as its predecessor and the predecessor still has it as its successor.
\<close>

theorem chord_leave_effect:
  assumes live: "live net p" "live net n" "live net s"
    and ptrs: "cn_successor (net_node net (nr_Addr n)) = Some s" "cn_predecessor (net_node net (nr_Addr n)) = Some p"
      "cn_predecessor (net_node net (nr_Addr s)) = Some n" "cn_successor (net_node net (nr_Addr p)) = Some n"
    and pos: "IsInInterval (nr_ID n) (nr_ID p) (nr_ID s)"
    and inv: "kv_inv (cn_Store (net_node net (nr_Addr n)))" "kv_inv (cn_Store (net_node net (nr_Addr s)))"
  defines "net' \<equiv> Leave (nr_Addr n) net"
  shows "kv_lookup (cn_Store (net_node net' (nr_Addr s))) k =
      (case Get (net_now net) (cn_Store (net_node net (nr_Addr n))) k of
         Some e \<Rightarrow> Some e | None \<Rightarrow> kv_lookup (cn_Store (net_node net (nr_Addr s))) k) \<and>
    cn_predecessor (net_node net' (nr_Addr s)) = Some n \<and> cn_successor (net_node net' (nr_Addr p)) = Some n \<and>
    cn_stopped (net_node net' (nr_Addr n))"
proof -
  let ?n = "net_node net (nr_Addr n)"
  let ?es = "All (net_now net) (cn_Store ?n)"
  have ids: "nr_ID n \<noteq> nr_ID p" "nr_ID n \<noteq> nr_ID s" "nr_ID p \<noteq> nr_ID s" using pos by (auto simp: IsInInterval_cw)
  have addr: "nr_Addr n \<noteq> nr_Addr p" "nr_Addr n \<noteq> nr_Addr s" "nr_Addr p \<noteq> nr_Addr s"
    using ids live_selfRef(1) [OF live(1)] live_selfRef(1) [OF live(2)] live_selfRef(1) [OF live(3)] by auto
  define net1 where "net1 = upd_node (nr_Addr s) (\<lambda>m. m\<lparr>cn_Store := fold Put ?es (cn_Store m)\<rparr>) net"
  have l1: "live net1 r = live net r" for r by (simp add: net1_def live_def selfRef_def)
  have same_if: "?es = [] \<Longrightarrow> net1 = net" by (simp add: net1_def upd_node_def)
  have "\<not> IsInInterval (nr_ID p) (nr_ID n) (nr_ID s)"
    using pos cw_triangle [of "nr_ID p" "nr_ID n" "nr_ID s"] cw_rev [of "nr_ID p" "nr_ID n"] cw_less [of "nr_ID p" "nr_ID s"]
    by (auto simp: IsInInterval_cw)
  then have rej: "Notify (nr_Addr s) p net1 = net1"
    using ptrs(3) live_selfRef(1) [OF live(3)] by (intro Notify_rejected [of _ _ n]) (simp_all add: net1_def)
  have tk: "Transport_TransferKeys c s (Some ?es) net = (net1, Inr ())" for c
    by (simp add: Transport_TransferKeys_def live_rpc [OF live(3)] HandleTransferKeys_def net1_def)
  have tn: "fst (Transport_Notify r q net1) = Notify (nr_Addr r) q net1" if "live net r" for q r
    using that l1 by (simp add: Transport_Notify_def live_rpc HandleNotify_def)
  have id: "cn_ID ?n = nr_ID n" using live_selfRef(1) [OF live(2)] .
  obtain tr where net': "net' = upd_node (nr_Addr n) Chord_Stop (emit EventNodeLeave tr (Notify (nr_Addr p) s net1))"
    using ptrs(1,2) ids tk tn [OF live(3)] tn [OF live(1)] rej same_if
    by (cases "?es = []") (auto simp: net'_def Leave_def Let_def id)
  have "kv_lookup (cn_Store (net_node net' (nr_Addr s))) k = kv_lookup (fold Put ?es (cn_Store (net_node net (nr_Addr s)))) k"
    using addr by (simp add: net' Notify_frame net1_def)
  also have "\<dots> = (case Get (net_now net) (cn_Store ?n) k of Some e \<Rightarrow> Some e | None \<Rightarrow> kv_lookup (cn_Store (net_node net (nr_Addr s))) k)"
    by (rule kv_lookup_puts_All [OF inv])
  finally have 1: "kv_lookup (cn_Store (net_node net' (nr_Addr s))) k =
      (case Get (net_now net) (cn_Store ?n) k of Some e \<Rightarrow> Some e | None \<Rightarrow> kv_lookup (cn_Store (net_node net (nr_Addr s))) k)" .
  have "cn_predecessor (net_node (Notify (nr_Addr p) s net1) (nr_Addr s)) = Some n"
    using ptrs(3) addr by (simp add: Notify_def Let_def net1_def)
  then have 2: "cn_predecessor (net_node net' (nr_Addr s)) = Some n" using addr by (simp add: net')
  have 3: "cn_successor (net_node net' (nr_Addr p)) = Some n"
    using ptrs(4) addr by (simp add: net' Notify_frame net1_def)
  have 4: "cn_stopped (net_node net' (nr_Addr n))" by (simp add: net' Chord_Stop_def)
  from 1 2 3 4 show ?thesis by simp
qed

definition ring3_node :: "ID \<Rightarrow> string \<Rightarrow> NodeRef \<Rightarrow> NodeRef \<Rightarrow> KVStore \<Rightarrow> ChordNode" where
  "ring3_node i addr p s st = pair_node i addr s 1\<lparr>cn_predecessor := Some p, cn_Store := st\<rparr>"

definition ring3_net :: ChordNet where
  "ring3_net =
     (let a = \<lparr>nr_ID = 10, nr_Addr = ''a''\<rparr>; b = \<lparr>nr_ID = 20, nr_Addr = ''b''\<rparr>; c = \<lparr>nr_ID = 15, nr_Addr = ''c''\<rparr>;
          e = \<lparr>Key = 12, Value = [1], Clock = [], Timestamp = 0, TTL = 0, NodeID = []\<rparr>
      in trio_net\<lparr>net_node := (\<lambda>s. if s = ''a'' then ring3_node 10 ''a'' b c NewKVStore
           else if s = ''c'' then ring3_node 15 ''c'' a b (Put e NewKVStore) else ring3_node 20 s c a NewKVStore)\<rparr>)"

theorem chord_leave_effect_witness:
  "kv_lookup (cn_Store (net_node (Leave ''c'' ring3_net) ''b'')) 12 =
     Some \<lparr>Key = 12, Value = [1], Clock = [], Timestamp = 0, TTL = 0, NodeID = []\<rparr> \<and>
   cn_predecessor (net_node (Leave ''c'' ring3_net) ''b'') = Some \<lparr>nr_ID = 15, nr_Addr = ''c''\<rparr>"
proof -
  let ?a = "\<lparr>nr_ID = 10, nr_Addr = ''a''\<rparr>" and ?b = "\<lparr>nr_ID = 20, nr_Addr = ''b''\<rparr>" and ?c = "\<lparr>nr_ID = 15, nr_Addr = ''c''\<rparr>"
  let ?e = "\<lparr>Key = 12, Value = [1], Clock = [], Timestamp = 0, TTL = 0, NodeID = []\<rparr>"
  have nodes: "net_node ring3_net ''a'' = ring3_node 10 ''a'' ?b ?c NewKVStore"
    "net_node ring3_net ''c'' = ring3_node 15 ''c'' ?a ?b (Put ?e NewKVStore)"
    "net_node ring3_net ''b'' = ring3_node 20 ''b'' ?c ?a NewKVStore"
    by (simp_all add: ring3_net_def Let_def)
  have "net_transport ring3_net = net_transport trio_net" by (simp add: ring3_net_def Let_def)
  then have live: "live ring3_net ?a" "live ring3_net ?b" "live ring3_net ?c"
    using trio_net_live by (simp_all add: live_def nodes selfRef_def ring3_node_def)
  have "IsInInterval 15 10 20" by (simp add: IsInInterval_def)
  then have "kv_lookup (cn_Store (net_node (Leave ''c'' ring3_net) ''b'')) 12 =
      (case Get (net_now ring3_net) (Put ?e NewKVStore) 12 of Some e \<Rightarrow> Some e | None \<Rightarrow> kv_lookup NewKVStore 12) \<and>
    cn_predecessor (net_node (Leave ''c'' ring3_net) ''b'') = Some ?c"
    using chord_leave_effect [OF live(1,3,2), of 12] by (simp add: nodes ring3_node_def split: option.splits)
  moreover have "Get t (Put ?e NewKVStore) 12 = Some ?e" for t
    by (simp add: Get_def Put_def NewKVStore_def IsExpired_def)
  ultimately show ?thesis by simp
qed

end
