(* ===== verification/Chord_Invariant.thy ===== *)
theory Chord_Invariant
  imports Chord_Ring
begin

text \<open>
  An invariant of the whole network that every step of the protocol keeps, whatever the
  transport loses or cuts off: references carry the identifier that belongs to their address,
  tables keep their size, stores keep their invariant. The steps are collected in one
  relation; \<open>fuel\<close> bounds nested calls, and a call that runs out of fuel makes no step.
\<close>

definition honest :: "sha1_fn \<Rightarrow> NodeRef \<Rightarrow> bool" where
  "honest sha1 r \<longleftrightarrow> nr_ID r = NodeIDFromAddr sha1 (nr_Addr r)"

definition node_refs :: "ChordNode \<Rightarrow> NodeRef set" where
  "node_refs n = set_option (cn_successor n) \<union> set_option (cn_predecessor n) \<union>
     {f. Some f \<in> set (cn_fingers n)} \<union> {f. Some f \<in> set (cn_antiFingers n)} \<union> set (cn_succList n)"

definition node_inv :: "sha1_fn \<Rightarrow> ChordNode \<Rightarrow> bool" where
  "node_inv sha1 n \<longleftrightarrow> cn_ID n = NodeIDFromAddr sha1 (cn_Addr n) \<and> (\<forall>r \<in> node_refs n. honest sha1 r) \<and>
     length (cn_fingers n) = fingerBits \<and> length (cn_antiFingers n) = fingerBits \<and> cn_antiFingerIdx n < fingerBits \<and>
     kv_inv (cn_Store n) \<and> int (length (cn_succList n)) \<le> max 1 (SuccessorListSize (cn_Config n))"

definition net_inv :: "sha1_fn \<Rightarrow> ChordNet \<Rightarrow> bool" where
  "net_inv sha1 net \<longleftrightarrow> (\<forall>a. node_inv sha1 (net_node net a))"

section \<open>Nodes\<close>

lemma node_inv_New [simp]: "node_inv sha1 (NewChordNode sha1 addr cfg)"
  by (auto simp: node_inv_def NewChordNode_def Let_def node_refs_def honest_def selfRef_def fingerBits_def)

lemma honest_selfRef: "node_inv sha1 n \<Longrightarrow> honest sha1 (selfRef n)"
  by (simp add: node_inv_def honest_def selfRef_def)

lemma node_inv_update:
  assumes "node_inv sha1 n" "cn_ID m = cn_ID n" "cn_Addr m = cn_Addr n" "node_refs m \<subseteq> insert r (node_refs n)"
    and "honest sha1 r" "length (cn_fingers m) = length (cn_fingers n)" "length (cn_antiFingers m) = length (cn_antiFingers n)"
    and "cn_antiFingerIdx m = cn_antiFingerIdx n" "cn_Store m = cn_Store n" "cn_succList m = cn_succList n" "cn_Config m = cn_Config n"
  shows "node_inv sha1 m"
  using assms unfolding node_inv_def by auto

lemma Some_in_update: "Some f \<in> set (fs[i := Some r]) \<Longrightarrow> f = r \<or> Some f \<in> set fs"
  using set_update_subset_insert [of fs i "Some r"] by auto

lemma node_inv_setters:
  assumes "node_inv sha1 n" "honest sha1 r"
  shows "node_inv sha1 (n\<lparr>cn_fingers := (cn_fingers n)[i := Some r]\<rparr>)"
    and "node_inv sha1 (n\<lparr>cn_antiFingers := (cn_antiFingers n)[i := Some r]\<rparr>)"
    and "node_inv sha1 (n\<lparr>cn_successor := Some r, cn_fingers := (cn_fingers n)[i := Some r]\<rparr>)"
    and "node_inv sha1 (n\<lparr>cn_predecessor := Some r\<rparr>)" and "node_inv sha1 (n\<lparr>cn_predecessor := None\<rparr>)"
    and "node_inv sha1 (Chord_Stop n)"
  using assms by (auto intro!: node_inv_update [where n = n and r = r] simp: node_refs_def Chord_Stop_def dest!: Some_in_update)

lemma net_inv_upd: "net_inv sha1 net \<Longrightarrow> node_inv sha1 (f (net_node net a)) \<Longrightarrow> net_inv sha1 (upd_node a f net)"
  by (simp add: net_inv_def)

lemma net_inv_nodes: "net_node net' = net_node net \<Longrightarrow> net_inv sha1 net' = net_inv sha1 net"
  by (simp add: net_inv_def)

lemma net_inv_emit [simp]: "net_inv sha1 (emit t p net) = net_inv sha1 net"
  by (simp add: net_inv_def)

lemma net_inv_node: "net_inv sha1 net \<Longrightarrow> node_inv sha1 (net_node net a)"
  by (simp add: net_inv_def)

lemma net_inv_setters:
  assumes "net_inv sha1 net" "honest sha1 r"
  shows "net_inv sha1 (set_finger_only a i r net)" "net_inv sha1 (set_anti_finger a i r net)"
    "net_inv sha1 (set_successor_finger0 a r net)"
  using assms by (auto simp: set_finger_only_def set_anti_finger_def set_successor_finger0_def
      intro!: net_inv_upd node_inv_setters net_inv_node)

lemma net_inv_ref: "net_inv sha1 net \<Longrightarrow> r \<in> node_refs (net_node net a) \<Longrightarrow> honest sha1 r"
  by (auto simp: net_inv_def node_inv_def)

lemma net_inv_self: "net_inv sha1 net \<Longrightarrow> honest sha1 (selfRef (net_node net a))"
  by (simp add: honest_selfRef net_inv_node)

section \<open>Lookups return honest references\<close>

lemma ClosestPrecedingNode_ref: "ClosestPrecedingNode n x \<in> insert (selfRef n) (node_refs n)"
  by (auto simp: ClosestPrecedingNode_def Let_def node_refs_def split: option.splits if_splits dest!: first_match_Some)

lemma Transport_FindSuccessor_honest:
  assumes "Transport_FindSuccessor handle c r x net = Some (net', Inr y)" "net_inv sha1 net"
    and "\<And>h net1 net2 y. net_inv sha1 net1 \<Longrightarrow> handle h x net1 = Some (net2, Inr y) \<Longrightarrow> honest sha1 y"
  shows "honest sha1 y"
proof (cases "rpc c r net")
  case (Pair net1 z)
  with assms net_inv_nodes [of net1 net sha1] rpc_frame [OF Pair] show ?thesis
    by (cases z) (auto simp: Transport_FindSuccessor_def)
qed

lemma FindSuccessor_loop_honest:
  "FindSuccessor_loop fuel a x cur i hops net = Some (net', hops', Inr y) \<Longrightarrow> net_inv sha1 net \<Longrightarrow> honest sha1 y"
proof (induction fuel arbitrary: a x cur i hops net net' hops' y)
  case (Suc fuel)
  let ?handle = "\<lambda>h x net. map_option (\<lambda>(net, _, r). (net, r)) (FindSuccessor_loop fuel h x (selfRef (net_node net h)) 0 [] net)"
  have handle: "honest sha1 r" if "net_inv sha1 net1" "?handle h z net1 = Some (net2, Inr r)" for h z net1 net2 r
    using that Suc.IH by auto
  have tf: "honest sha1 r" if "Transport_FindSuccessor ?handle c t z net1 = Some (net2, Inr r)" "net_inv sha1 net1" for c t z net1 net2 r
    using that by (rule Transport_FindSuccessor_honest) (rule handle)
  let ?n = "net_node net a"
  have succ: "honest sha1 (case cn_successor ?n of Some s \<Rightarrow> s | None \<Rightarrow> selfRef ?n)"
    using Suc.prems(2) net_inv_self by (auto simp: node_refs_def intro!: net_inv_ref [of sha1 net _ a] split: option.split)
  have hop: "net_inv sha1 (lookup_hop f t m j net1) = net_inv sha1 net1" for f t m j net1
    by (rule net_inv_nodes) simp
  show ?case
    using Suc.prems Suc.IH succ hop
    by (auto simp: Let_def split: if_splits option.splits prod.splits sum.splits dest!: tf)
qed simp

lemma FindSuccessor_honest: "FindSuccessor fuel a x net = Some (net', hops, Inr y) \<Longrightarrow> net_inv sha1 net \<Longrightarrow> honest sha1 y"
  unfolding FindSuccessor_def by (rule FindSuccessor_loop_honest)

lemma remote_find_inv:
  assumes "Transport_FindSuccessor (HandleFindSuccessor fuel) c r x net = Some (net', res)" "net_inv sha1 net"
  shows "net_inv sha1 net' \<and> (\<forall>y. res = Inr y \<longrightarrow> honest sha1 y)"
proof (intro conjI allI impI)
  show "net_inv sha1 net'" using remote_find_frame [OF assms(1)] assms(2) by (simp add: net_inv_def)
  show "honest sha1 y" if "res = Inr y" for y
    using assms that by (auto elim!: Transport_FindSuccessor_honest simp: HandleFindSuccessor_def dest: FindSuccessor_honest)
qed

lemma FindSuccessor_inv:
  assumes "FindSuccessor fuel a x net = Some (net', hops, res)" "net_inv sha1 net"
  shows "net_inv sha1 net' \<and> (\<forall>y. res = Inr y \<longrightarrow> honest sha1 y)"
  using assms FindSuccessor_frame [OF assms(1)] by (auto simp: net_inv_def [of _ net'] net_inv_node dest: FindSuccessor_honest)

lemma rpc_inv: "rpc c r net = (net', x) \<Longrightarrow> net_inv sha1 net' = net_inv sha1 net"
  using rpc_frame by (intro net_inv_nodes) blast

lemma rpc_from_inv: "rpc_from f r net = (net', x) \<Longrightarrow> net_inv sha1 net' = net_inv sha1 net"
  using rpc_from_frame by (intro net_inv_nodes) blast

section \<open>Every operation keeps the invariant\<close>

lemma init_finger_copy_inv:
  assumes "net_inv sha1 net" "cn_fingers (net_node net a) ! (i - 1) = Some p"
  shows "net_inv sha1 (upd_node a (\<lambda>n. n\<lparr>cn_fingers := (cn_fingers n)[i := cn_fingers n ! (i - 1)]\<rparr>) net)"
proof (cases "i < length (cn_fingers (net_node net a))")
  case True
  then have "Some p \<in> set (cn_fingers (net_node net a))"
    using assms(2) nth_mem [of "i - 1" "cn_fingers (net_node net a)"] by simp
  then have "honest sha1 p" using assms(1) by (intro net_inv_ref [of sha1 net p a]) (simp_all add: node_refs_def)
  then show ?thesis using assms by (intro net_inv_upd) (simp_all add: node_inv_setters net_inv_node)
next
  case False
  then show ?thesis using assms by (intro net_inv_upd) (simp_all add: list_update_beyond net_inv_node)
qed

lemma init_finger_inv:
  assumes "init_finger fuel a b i net = Some net'" "net_inv sha1 net"
  shows "net_inv sha1 net'"
  using assms init_finger_copy_inv [OF assms(2), of a i]
  by (auto simp: init_finger_def Let_def split: if_splits option.splits sum.splits
      dest!: remote_find_inv intro!: net_inv_setters)

lemma initFingerTable_inv:
  assumes "initFingerTable fuel a b net = Some (net', r)" "net_inv sha1 net"
  shows "net_inv sha1 net'"
proof -
  obtain net1 res where f: "Transport_FindSuccessor (HandleFindSuccessor fuel)
      (WithSender None (selfRef (net_node net a))) b (fingerStart (net_node net a) 0) net = Some (net1, res)"
    using assms(1) by (auto simp: initFingerTable_def Let_def split: option.splits prod.splits)
  note f_inv = remote_find_inv [OF f assms(2)]
  show ?thesis
  proof (cases res)
    case (Inl e)
    with assms(1) f f_inv show ?thesis by (auto simp: initFingerTable_def)
  next
    case (Inr s)
    with assms(1) f have "for_each (init_finger fuel a b) [1..<fingerBits] (set_successor_finger0 a s net1) = Some net'"
      by (auto simp: initFingerTable_def)
    moreover have "net_inv sha1 (set_successor_finger0 a s net1)" using f_inv Inr by (intro net_inv_setters) auto
    ultimately show ?thesis by (rule for_each_induct) (rule init_finger_inv)
  qed
qed

lemma Transport_GetPredecessor_inv:
  assumes "Transport_GetPredecessor c r net = (net', x)" "net_inv sha1 net"
  shows "net_inv sha1 net' \<and> (\<forall>p. x = Inr (Some p) \<longrightarrow> honest sha1 p)"
proof (cases "rpc c r net")
  case (Pair net1 y)
  then have "net_inv sha1 net1" using rpc_inv assms(2) by blast
  then show ?thesis
    using assms(1) Pair by (cases y) (auto simp: Transport_GetPredecessor_def HandleGetPredecessor_def node_refs_def
        intro: net_inv_ref)
qed

lemma anti_finger_update_inv:
  assumes "net_inv sha1 net" "honest sha1 succ"
  shows "net_inv sha1 (case Transport_GetPredecessor c succ net of
      (net, Inr (Some pred)) \<Rightarrow> set_anti_finger a i pred net | (net, _) \<Rightarrow> set_anti_finger a i succ net)"
proof (cases "Transport_GetPredecessor c succ net")
  case (Pair net1 x)
  from Transport_GetPredecessor_inv [OF Pair assms(1)] assms(2) Pair show ?thesis
    by (auto split: sum.split option.split intro!: net_inv_setters)
qed

lemma init_anti_finger_inv:
  assumes "init_anti_finger fuel a b i net = Some net'" "net_inv sha1 net"
  shows "net_inv sha1 net'"
  using assms
  by (auto simp: init_anti_finger_def Let_def split: option.splits sum.splits prod.splits
      dest!: remote_find_inv Transport_GetPredecessor_inv intro!: net_inv_setters)

lemma initAntiFingerTable_inv:
  "initAntiFingerTable fuel a b net = Some net' \<Longrightarrow> net_inv sha1 net \<Longrightarrow> net_inv sha1 net'"
  unfolding initAntiFingerTable_def by (erule for_each_induct) (auto intro: init_anti_finger_inv)

lemma fixFingersAtIndex_inv: "fixFingersAtIndex fuel a i net = Some net' \<Longrightarrow> net_inv sha1 net \<Longrightarrow> net_inv sha1 net'"
  by (auto simp: fixFingersAtIndex_def split: if_splits option.splits sum.splits dest!: FindSuccessor_inv intro!: net_inv_setters)

lemma fixAntiFingers_inv:
  assumes "fixAntiFingers fuel a net = Some net'" "net_inv sha1 net"
  shows "net_inv sha1 net'"
proof -
  have "net_inv sha1 (upd_node a (\<lambda>n. n\<lparr>cn_antiFingerIdx := (cn_antiFingerIdx n + 1) mod fingerBits\<rparr>) net)"
    using assms(2) by (intro net_inv_upd) (auto simp: net_inv_def node_inv_def node_refs_def fingerBits_def)
  then show ?thesis
    using assms(1)
    by (auto simp: fixAntiFingers_def Let_def split: option.splits sum.splits prod.splits
        dest!: FindSuccessor_inv Transport_GetPredecessor_inv intro!: net_inv_setters)
qed

lemma UpdateFingerTable_inv:
  "UpdateFingerTable fuel a s i net = Some (net', res) \<Longrightarrow> net_inv sha1 net \<Longrightarrow> honest sha1 s \<Longrightarrow> net_inv sha1 net'"
proof (induction fuel arbitrary: a net net' res)
  case (Suc fuel)
  have "net_inv sha1 (set_successor_finger0 a s net)" "net_inv sha1 (set_finger_only a (nat i) s net)"
    using Suc.prems by (auto intro: net_inv_setters)
  with Suc.prems Suc.IH show ?case
    by (auto simp: Let_def split: if_splits option.splits prod.splits sum.splits dest!: rpc_inv [where ?sha1.0 = sha1])
qed simp

lemma update_other_inv: "update_other fuel a i net = Some net' \<Longrightarrow> net_inv sha1 net \<Longrightarrow> net_inv sha1 net'"
proof -
  assume r: "update_other fuel a i net = Some net'" and inv: "net_inv sha1 net"
  have "net_inv sha1 net2" if "Transport_UpdateFingerTable fuel c p (selfRef (net_node net a)) j net1 = Some (net2, res)" "net_inv sha1 net1"
    for c p j net1 net2 res
    using that net_inv_self [OF inv]
    by (auto simp: Transport_UpdateFingerTable_def HandleUpdateFingerTable_def split: prod.splits sum.splits
        dest!: rpc_inv [where ?sha1.0 = sha1] intro: UpdateFingerTable_inv)
  with r inv show ?thesis
    by (auto simp: update_other_def Let_def split: option.splits sum.splits prod.splits if_splits dest!: FindSuccessor_inv)
qed

lemma updateOthers_inv: "updateOthers fuel a net = Some net' \<Longrightarrow> net_inv sha1 net \<Longrightarrow> net_inv sha1 net'"
  unfolding updateOthers_def by (erule for_each_induct) (auto intro: update_other_inv)

lemma Notify_inv: "net_inv sha1 net \<Longrightarrow> honest sha1 c \<Longrightarrow> net_inv sha1 (Notify a c net)"
  by (auto simp: Notify_def Let_def intro!: net_inv_upd node_inv_setters net_inv_node split: option.splits)

lemma Transport_Notify_inv:
  assumes "net_inv sha1 net" "honest sha1 c"
  shows "net_inv sha1 (fst (Transport_Notify r c net))"
proof (cases "rpc_from c r net")
  case (Pair net1 y)
  then have "net_inv sha1 net1" using rpc_from_inv assms(1) by blast
  then show ?thesis using Pair assms(2) by (cases y) (auto simp: Transport_Notify_def HandleNotify_def intro: Notify_inv)
qed

text \<open>The successor list never exceeds its configured size, except for its first element.\<close>

lemma combine_successors:
  "length (fold (\<lambda>e c. if int (length c) \<ge> m then c else c @ [e]) es c) \<le> max (length c) (nat m)"
  "set (fold (\<lambda>e c. if int (length c) \<ge> m then c else c @ [e]) es c) \<subseteq> set c \<union> set es"
proof -
  show "length (fold (\<lambda>e c. if int (length c) \<ge> m then c else c @ [e]) es c) \<le> max (length c) (nat m)"
  proof (induction es arbitrary: c)
    case (Cons e es)
    show ?case using Cons [of c] Cons [of "c @ [e]"] by (cases "int (length c) \<ge> m") auto
  qed simp
  show "set (fold (\<lambda>e c. if int (length c) \<ge> m then c else c @ [e]) es c) \<subseteq> set c \<union> set es"
  proof (induction es arbitrary: c)
    case (Cons e es)
    show ?case using Cons [of c] Cons [of "c @ [e]"] by auto
  qed simp
qed

lemma updateSuccessorList_inv:
  assumes "net_inv sha1 net" "honest sha1 s"
  shows "net_inv sha1 (updateSuccessorList a s net)"
proof (cases "rpc (WithSender None (selfRef (net_node net a))) s net")
  case (Pair net1 y)
  then have inv: "net_inv sha1 net1" using rpc_inv assms(1) by blast
  show ?thesis
  proof (cases y)
    case (Inl e)
    with Pair inv show ?thesis by (simp add: updateSuccessorList_def Let_def Transport_GetSuccessorList_def)
  next
    case (Inr h)
    let ?remote = "cn_succList (net_node net1 h)" and ?n = "net_node net1 a"
    let ?c = "fold (\<lambda>e c. if int (length c) \<ge> SuccessorListSize (cn_Config ?n) then c else c @ [e]) ?remote [s]"
    have "\<forall>r \<in> set ?c. honest sha1 r"
      using combine_successors(2) [of "SuccessorListSize (cn_Config ?n)" ?remote "[s]"] assms(2) net_inv_ref [OF inv, of _ h]
      by (auto simp: node_refs_def)
    moreover have "int (length ?c) \<le> max 1 (SuccessorListSize (cn_Config ?n))"
      using combine_successors(1) [of "SuccessorListSize (cn_Config ?n)" ?remote "[s]"] by auto
    ultimately have "node_inv sha1 (?n\<lparr>cn_succList := ?c\<rparr>)"
      using net_inv_node [OF inv, of a] by (auto simp: node_inv_def node_refs_def)
    with inv have "net_inv sha1 (upd_node a (\<lambda>n. n\<lparr>cn_succList := fold (\<lambda>e c. if int (length c) \<ge> SuccessorListSize (cn_Config n) then c else c @ [e]) ?remote [s]\<rparr>) net1)"
      by (intro net_inv_upd)
    with Pair Inr show ?thesis
      by (simp add: updateSuccessorList_def Let_def Transport_GetSuccessorList_def HandleGetSuccessorList_def)
  qed
qed

lemma Stabilize_inv:
  assumes "net_inv sha1 net"
  shows "net_inv sha1 (Stabilize a net)"
proof -
  let ?n = "net_node net a"
  have self: "honest sha1 (selfRef ?n)" "net_inv sha1 (set_successor_finger0 a (selfRef ?n) net)"
    using assms by (auto intro: net_inv_self net_inv_setters)
  show ?thesis
  proof (cases "\<exists>s. cn_successor ?n = Some s \<and> nr_ID s \<noteq> cn_ID ?n")
    case False
    with self(2) show ?thesis by (auto simp: Stabilize_def Let_def split: option.splits)
  next
    case True
    then obtain s where s: "cn_successor ?n = Some s" "nr_ID s \<noteq> cn_ID ?n" by blast
    then have hs: "honest sha1 s" using assms by (intro net_inv_ref [of sha1 net s a]) (auto simp: node_refs_def)
    obtain net1 x where gp: "Transport_GetPredecessor (WithSender None (selfRef ?n)) s net = (net1, x)" by fastforce
    note gpi = Transport_GetPredecessor_inv [OF gp assms]
    define p where "p = (case x of Inr (Some x) \<Rightarrow> if IsInInterval (nr_ID x) (cn_ID ?n) (nr_ID s)
        then (set_successor_finger0 a x net1, x) else (net1, s) | _ \<Rightarrow> (net1, s))"
    have p: "net_inv sha1 (fst p)" "honest sha1 (snd p)"
      using gpi hs by (auto simp: p_def split: sum.split option.split intro: net_inv_setters)
    let ?net2 = "updateSuccessorList a (snd p) (fst (Transport_Notify (snd p) (selfRef ?n) (fst p)))"
    have "\<exists>q. Stabilize a net = emit EventStabilize q ?net2"
    proof (cases x)
      case (Inl e)
      with s gp show ?thesis by (auto simp: Stabilize_def Let_def p_def)
    next
      case (Inr y)
      with s gp show ?thesis by (cases y) (auto simp: Stabilize_def Let_def p_def)
    qed
    then show ?thesis using p self(1) by (auto intro!: updateSuccessorList_inv Transport_Notify_inv)
  qed
qed

lemma ping_inv: "Transport_Ping c r net = (net', x) \<Longrightarrow> net_inv sha1 net' = net_inv sha1 net"
  by (auto simp: Transport_Ping_def split: prod.splits sum.splits dest: rpc_inv)

lemma CheckPredecessor_inv: "net_inv sha1 net \<Longrightarrow> net_inv sha1 (CheckPredecessor a net)"
proof -
  assume inv: "net_inv sha1 net"
  have "net_inv sha1 (upd_node a (\<lambda>n. n\<lparr>cn_predecessor := None\<rparr>) net1)" if "net_inv sha1 net1" for net1
    using that node_inv_setters(5) [OF _ net_inv_self [OF that]] net_inv_node by (intro net_inv_upd) blast+
  with inv show ?thesis
    by (auto simp: CheckPredecessor_def Let_def ping_inv split: option.split prod.split sum.split)
qed

lemma walk_successors_inv:
  "net_inv sha1 net \<Longrightarrow> \<forall>s \<in> set ss. honest sha1 s \<Longrightarrow> net_inv sha1 (walk_successors a succ ss net)"
proof (induction ss arbitrary: net)
  case (Cons s ss)
  obtain net1 x where "Transport_Ping (WithSender None (selfRef (net_node net a))) s net = (net1, x)" by fastforce
  moreover from ping_inv [OF this] Cons.prems have "net_inv sha1 net1" by blast
  ultimately show ?case using Cons by (cases x) (auto intro!: Stabilize_inv net_inv_setters)
qed simp

lemma CheckSuccessor_inv: "net_inv sha1 net \<Longrightarrow> net_inv sha1 (CheckSuccessor a net)"
proof -
  assume inv: "net_inv sha1 net"
  then have "\<forall>s \<in> set (cn_succList (net_node net a)). honest sha1 s" using net_inv_ref by (auto simp: node_refs_def)
  with inv show ?thesis
    by (auto simp: CheckSuccessor_def Let_def ping_inv split: option.split prod.split sum.split intro!: walk_successors_inv)
qed

lemma CreateRing_inv: "net_inv sha1 net \<Longrightarrow> net_inv sha1 (CreateRing a net)"
proof -
  assume inv: "net_inv sha1 net"
  then have "node_inv sha1 (net_node net a)" "honest sha1 (selfRef (net_node net a))" by (auto intro: net_inv_node net_inv_self)
  with inv show ?thesis
    unfolding CreateRing_def Let_def net_inv_emit by (intro net_inv_upd) (auto simp: node_inv_def node_refs_def)
qed

lemma store_inv: "net_inv sha1 net \<Longrightarrow> net_inv sha1 (upd_node a (\<lambda>n. n\<lparr>cn_Store := fold Put es (cn_Store n)\<rparr>) net)"
  by (intro net_inv_upd) (auto simp: net_inv_def node_inv_def node_refs_def kv_inv_puts)

lemma HandleTransferKeys_inv: "net_inv sha1 net \<Longrightarrow> net_inv sha1 (HandleTransferKeys a es net)"
  by (auto simp: HandleTransferKeys_def store_inv split: option.split)

lemma Transport_TransferKeys_inv:
  "Transport_TransferKeys c r es net = (net', x) \<Longrightarrow> net_inv sha1 net \<Longrightarrow> net_inv sha1 net'"
  by (auto simp: Transport_TransferKeys_def split: prod.splits sum.splits dest!: rpc_inv [where ?sha1.0 = sha1] intro: HandleTransferKeys_inv)

lemma migrateKeys_inv:
  assumes "net_inv sha1 net"
  shows "net_inv sha1 (migrateKeys a net)"
proof -
  have pull: "net_inv sha1 (fst (pullKeysInRange b r lo hi net1)) = net_inv sha1 net1" for b r lo hi net1
    by (auto simp: pullKeysInRange_def Transport_GetAllEntries_def split: prod.split sum.split dest: rpc_inv)
  have "net_inv sha1 (fst (Transport_TransferKeys c r None net))" for c r
    using Transport_TransferKeys_inv [of c r None net] assms by (cases "Transport_TransferKeys c r None net") auto
  with assms show ?thesis
    by (auto simp: migrateKeys_def Let_def split_def pull store_inv split: option.split)
qed

lemma Chord_Join_inv:
  assumes "Chord_Join fuel a bootstrap net = Some (net', res)" "net_inv sha1 net"
  shows "net_inv sha1 net'"
proof -
  let ?n = "net_node net a"
  obtain net1 r1 where f: "Transport_FindSuccessor (HandleFindSuccessor fuel)
      (WithSender None (selfRef ?n)) bootstrap (cn_ID ?n) net = Some (net1, r1)"
    using assms by (auto simp: Chord_Join_def Let_def split: option.splits prod.splits)
  note fi = remote_find_inv [OF f assms(2)]
  show ?thesis
  proof (cases r1)
    case (Inl e)
    with assms f fi show ?thesis by (auto simp: Chord_Join_def Let_def)
  next
    case (Inr s)
    let ?net2 = "upd_node a (\<lambda>n. n\<lparr>cn_predecessor := None\<rparr>) (set_successor_finger0 a s net1)"
    have "net_inv sha1 (set_successor_finger0 a s net1)" using fi Inr by (intro net_inv_setters) auto
    then have inv2: "net_inv sha1 ?net2"
      using node_inv_setters(5) net_inv_self net_inv_node by (intro net_inv_upd) blast+
    obtain net3 r3 net4 net5 q where steps: "initFingerTable fuel a bootstrap ?net2 = Some (net3, r3)"
        "initAntiFingerTable fuel a bootstrap net3 = Some net4" "updateOthers fuel a net4 = Some net5"
        and net': "net' = emit EventNodeJoin q (migrateKeys a net5)"
      using assms f Inr by (auto simp: Chord_Join_def Let_def split: option.splits prod.splits)
    have "net_inv sha1 net5"
      using inv2 initFingerTable_inv [OF steps(1)] initAntiFingerTable_inv [OF steps(2)] updateOthers_inv [OF steps(3)] by blast
    then show ?thesis by (simp add: net' migrateKeys_inv)
  qed
qed

lemma Leave_inv:
  assumes "net_inv sha1 net"
  shows "net_inv sha1 (Leave a net)"
proof -
  let ?n = "net_node net a"
  have refs: "cn_predecessor ?n = Some p \<Longrightarrow> honest sha1 p" "cn_successor ?n = Some s \<Longrightarrow> honest sha1 s" for p s
    using net_inv_ref [OF assms, of _ a] by (auto simp: node_refs_def)
  have stop: "net_inv sha1 (upd_node a Chord_Stop net1)" if "net_inv sha1 net1" for net1
    using that node_inv_setters(6) net_inv_self net_inv_node by (intro net_inv_upd) blast+
  have tk: "net_inv sha1 net1" if "Transport_TransferKeys c r es net = (net1, x)" for c r es net1 x
    using Transport_TransferKeys_inv [OF that assms] .
  show ?thesis
    unfolding Leave_def Let_def using assms refs
    by (auto split: option.split prod.split sum.split intro!: stop Transport_Notify_inv dest: tk)
qed

section \<open>The steps of the network\<close>

text \<open>
  Protocol operations of any node, client writes, the passing of time, and any change of
  the transport (registration, loss, partitions).
\<close>

inductive chord_step :: "sha1_fn \<Rightarrow> nat \<Rightarrow> ChordNet \<Rightarrow> ChordNet \<Rightarrow> bool" for sha1 fuel where
  new: "chord_step sha1 fuel net (upd_node a (\<lambda>_. NewChordNode sha1 addr cfg) net)"
| create: "chord_step sha1 fuel net (CreateRing a net)"
| join: "Chord_Join fuel a bootstrap net = Some (net', res) \<Longrightarrow> chord_step sha1 fuel net net'"
| stabilize: "chord_step sha1 fuel net (Stabilize a net)"
| fix_fingers: "fixFingersAtIndex fuel a i net = Some net' \<Longrightarrow> chord_step sha1 fuel net net'"
| fix_anti_fingers: "fixAntiFingers fuel a net = Some net' \<Longrightarrow> chord_step sha1 fuel net net'"
| check_predecessor: "chord_step sha1 fuel net (CheckPredecessor a net)"
| check_successor: "chord_step sha1 fuel net (CheckSuccessor a net)"
| leave: "chord_step sha1 fuel net (Leave a net)"
| crash: "chord_step sha1 fuel net (SimulateCrash a net)"
| put: "chord_step sha1 fuel net (fst (HandlePutEntry a key entry net))"
| lookup: "FindSuccessor fuel a x net = Some (net', hops, res) \<Longrightarrow> chord_step sha1 fuel net net'"
| evict: "chord_step sha1 fuel net (upd_node a (\<lambda>n. n\<lparr>cn_Store := evictExpired (net_now net) (cn_Store n)\<rparr>) net)"
| time: "net_now net \<le> t \<Longrightarrow> chord_step sha1 fuel net (net\<lparr>net_now := t\<rparr>)"
| environment: "chord_step sha1 fuel net (net\<lparr>net_transport := tr\<rparr>)"

lemma chord_step_inv: "chord_step sha1 fuel net net' \<Longrightarrow> net_inv sha1 net \<Longrightarrow> net_inv sha1 net'"
proof (induction rule: chord_step.induct)
  case (crash net a)
  then have "net_inv sha1 (upd_node a Chord_Stop net1) = net_inv sha1 net1" if "net_inv sha1 net1" for net1
    using that node_inv_setters(6) net_inv_self net_inv_node net_inv_upd by metis
  with crash show ?case by (simp add: SimulateCrash_def)
next
  case (put net a key entry)
  then show ?case
    using store_inv [of sha1 net a "[e]" for e] by (auto simp: HandlePutEntry_def split: option.split)
next
  case (evict net a)
  then show ?case by (intro net_inv_upd) (auto simp: net_inv_def node_inv_def node_refs_def)
next
  case (new net a addr cfg)
  then show ?case by (intro net_inv_upd) simp_all
next
  case (lookup a x net net' hops res)
  then show ?case using FindSuccessor_inv by blast
next
  case (join a bootstrap net net' res)
  then show ?case by (rule Chord_Join_inv)
next
  case (fix_fingers a i net net')
  then show ?case by (rule fixFingersAtIndex_inv)
next
  case (fix_anti_fingers a net net')
  then show ?case by (rule fixAntiFingers_inv)
qed (simp_all add: CreateRing_inv Stabilize_inv CheckPredecessor_inv CheckSuccessor_inv Leave_inv net_inv_def [of _ "_\<lparr>net_now := _\<rparr>"]
    net_inv_def [of _ "_\<lparr>net_transport := _\<rparr>"] net_inv_node)

text \<open>
  C27. Safety of the whole protocol. In every sequence of protocol steps, client writes and
  environment changes that starts from nodes as \<^verbatim>\<open>NewChordNode\<close> builds them, in any
  interleaving and under any message loss or partition, every reference a node holds carries
  the identifier of its address, the finger tables keep 160 entries, the successor list stays
  within its configured size and every store satisfies its invariant.
\<close>

theorem chord_network_invariant:
  assumes "(chord_step sha1 fuel)\<^sup>*\<^sup>* net net'" "\<forall>a. \<exists>addr cfg. net_node net a = NewChordNode sha1 addr cfg"
  shows "\<forall>a. cn_ID (net_node net' a) = NodeIDFromAddr sha1 (cn_Addr (net_node net' a)) \<and>
    (\<forall>r \<in> node_refs (net_node net' a). nr_ID r = NodeIDFromAddr sha1 (nr_Addr r)) \<and>
    length (cn_fingers (net_node net' a)) = 160 \<and>
    int (length (cn_succList (net_node net' a))) \<le> max 1 (SuccessorListSize (cn_Config (net_node net' a))) \<and>
    kv_inv (cn_Store (net_node net' a))"
proof -
  have init: "net_inv sha1 net" using assms(2) node_inv_New unfolding net_inv_def by metis
  from assms(1) have "net_inv sha1 net'" by (induction rule: rtranclp_induct) (auto intro: init chord_step_inv)
  then show ?thesis by (simp add: net_inv_def node_inv_def honest_def fingerBits_def)
qed

theorem chord_network_invariant_witness:
  "length (cn_fingers (net_node (Stabilize ''x'' (CreateRing ''x''
     \<lparr>net_node = \<lambda>s. NewChordNode (\<lambda>bs. of_nat (length bs)) s None, net_transport = NewInProcessTransport (\<lambda>_. 0) 0 0,
      net_events = [], net_now = 0\<rparr>)) ''x'')) = 160"
proof -
  let ?h = "\<lambda>bs. of_nat (length bs)"
  let ?net = "\<lparr>net_node = \<lambda>s. NewChordNode ?h s None, net_transport = NewInProcessTransport (\<lambda>_. 0) 0 0, net_events = [], net_now = 0\<rparr>"
  have "(chord_step ?h 0)\<^sup>*\<^sup>* ?net (Stabilize ''x'' (CreateRing ''x'' ?net))"
    by (rule rtranclp.rtrancl_into_rtrancl [OF r_into_rtranclp [where r = "chord_step ?h 0", OF chord_step.create] chord_step.stabilize])
  moreover have "\<forall>a. \<exists>addr cfg. net_node ?net a = NewChordNode ?h addr cfg" by auto
  ultimately show ?thesis by (rule chord_network_invariant [THEN spec, THEN conjunct2, THEN conjunct2, THEN conjunct1])
qed

end
