(* ===== verification/Kad_Routing.thy ===== *)
theory Kad_Routing
  imports Consistent_Hash
begin

text \<open>
  The Kademlia routing table, \<^verbatim>\<open>internal/kademlia/routing.go\<close>: the XOR metric, k-buckets with
  least-recently-seen eviction, and the closest-contacts query. \<^verbatim>\<open>UpdateContact\<close> calls back to
  ping the oldest contact of a full bucket; the callback works on a state \<open>'s\<close> and may fail in
  the two ways of \<open>fault\<close>: a panic, or a mutex that is never released. The lemmas show that the
  distance is a metric whose buckets are the dyadic shells, that every operation keeps the
  table well-formed, and that \<^verbatim>\<open>KClosest\<close> returns the closest contacts in order.
\<close>

unbundle bit_operations_syntax

datatype fault = Panic | Deadlock

record Contact =
  c_ID :: ID
  c_Addr :: string
  c_LastSeen :: time

record KBucket =
  kb_entries :: "Contact list"
  kb_capacity :: int

record RoutingTable =
  rt_Self :: ID
  rt_Buckets :: "KBucket list"
  rt_K :: int

definition XORDistance :: "ID \<Rightarrow> ID \<Rightarrow> int" where
  "XORDistance a b = SetBytes (map2 (XOR) (id_bytes a) (id_bytes b))"

definition BucketIndex :: "ID \<Rightarrow> ID \<Rightarrow> int" where
  "BucketIndex self contact =
     (let xor = XORDistance self contact
      in if xor = 0 then -1 else int (BitLen (nat xor)) - 1)"

text \<open>The scan for a contact with the same identifier removes its first occurrence.\<close>

fun remove_id :: "ID \<Rightarrow> Contact list \<Rightarrow> Contact list option" where
  "remove_id i [] = None"
| "remove_id i (e # es) = (if c_ID e = i then Some es else map_option ((#) e) (remove_id i es))"

definition KBucket_UpdateContact ::
  "time \<Rightarrow> Contact \<Rightarrow> (Contact \<Rightarrow> 's \<Rightarrow> fault + 's \<times> bool) option \<Rightarrow> KBucket \<Rightarrow> 's \<Rightarrow> fault + 's \<times> KBucket \<times> bool" where
  "KBucket_UpdateContact now c ping b s =
     (case remove_id (c_ID c) (kb_entries b) of
        Some es \<Rightarrow> Inr (s, b\<lparr>kb_entries := es @ [c\<lparr>c_LastSeen := now\<rparr>]\<rparr>, True)
      | None \<Rightarrow>
          if int (length (kb_entries b)) < kb_capacity b
          then Inr (s, b\<lparr>kb_entries := kb_entries b @ [c\<lparr>c_LastSeen := now\<rparr>]\<rparr>, True)
          else case kb_entries b of
                 [] \<Rightarrow> Inl Panic
               | oldest # rest \<Rightarrow>
                   (case ping of
                      None \<Rightarrow> Inr (s, b\<lparr>kb_entries := rest @ [c]\<rparr>, True)
                    | Some f \<Rightarrow>
                        (case f oldest s of
                           Inl e \<Rightarrow> Inl e
                         | Inr (s, alive) \<Rightarrow>
                             if alive then Inr (s, b\<lparr>kb_entries := rest @ [oldest]\<rparr>, False)
                             else Inr (s, b\<lparr>kb_entries := rest @ [c]\<rparr>, True))))"

definition Entries :: "KBucket \<Rightarrow> Contact list" where
  "Entries b = kb_entries b"

definition KBucket_Len :: "KBucket \<Rightarrow> nat" where
  "KBucket_Len b = length (kb_entries b)"

definition NewRoutingTable :: "ID \<Rightarrow> int \<Rightarrow> RoutingTable" where
  "NewRoutingTable self k =
     \<lparr>rt_Self = self, rt_Buckets = map (\<lambda>_. \<lparr>kb_entries = [], kb_capacity = k\<rparr>) [0..<160], rt_K = k\<rparr>"

definition RoutingTable_UpdateContact ::
  "time \<Rightarrow> Contact \<Rightarrow> (Contact \<Rightarrow> 's \<Rightarrow> fault + 's \<times> bool) option \<Rightarrow> RoutingTable \<Rightarrow> 's \<Rightarrow> fault + 's \<times> RoutingTable \<times> int \<times> bool" where
  "RoutingTable_UpdateContact now c ping rt s =
     (let idx = BucketIndex (rt_Self rt) (c_ID c)
      in if idx < 0 then Inr (s, rt, -1, False)
         else case KBucket_UpdateContact now c ping (rt_Buckets rt ! nat idx) s of
                Inl e \<Rightarrow> Inl e
              | Inr (s, b, updated) \<Rightarrow> Inr (s, rt\<lparr>rt_Buckets := (rt_Buckets rt)[nat idx := b]\<rparr>, idx, updated))"

text \<open>
  The insertion sort: the sorted prefix is kept reversed, so that the inner loop, which walks
  down from its end, is a recursion on it.
\<close>

fun shift_in :: "ID \<Rightarrow> Contact \<Rightarrow> Contact list \<Rightarrow> Contact list" where
  "shift_in target key [] = [key]"
| "shift_in target key (c # cs) =
     (if big_Cmp (XORDistance (c_ID c) target) (XORDistance (c_ID key) target) > 0
      then c # shift_in target key cs else key # c # cs)"

definition sortByDistance :: "Contact list \<Rightarrow> ID \<Rightarrow> Contact list" where
  "sortByDistance contacts target = rev (fold (shift_in target) contacts [])"

definition AllContacts :: "RoutingTable \<Rightarrow> Contact list" where
  "AllContacts rt = concat (map Entries (rt_Buckets rt))"

definition KClosest :: "RoutingTable \<Rightarrow> ID \<Rightarrow> int \<Rightarrow> fault + Contact list" where
  "KClosest rt target k =
     (let all = sortByDistance (concat (map Entries (rt_Buckets rt))) target;
          k = (if k > int (length all) then int (length all) else k)
      in if k < 0 then Inl Panic else Inr (take (nat k) all))"

fun reinsert :: "time \<Rightarrow> Contact list \<Rightarrow> RoutingTable \<Rightarrow> fault + RoutingTable" where
  "reinsert now [] rt = Inr rt"
| "reinsert now (c # cs) rt =
     (let newIdx = BucketIndex (rt_Self rt) (c_ID c)
      in if newIdx \<ge> 0 \<and> newIdx < 160
         then (case KBucket_UpdateContact now c None (rt_Buckets rt ! nat newIdx) () of
                 Inl e \<Rightarrow> Inl e
               | Inr (_, b, _) \<Rightarrow> reinsert now cs (rt\<lparr>rt_Buckets := (rt_Buckets rt)[nat newIdx := b]\<rparr>))
         else reinsert now cs rt)"

definition SplitBucket :: "time \<Rightarrow> int \<Rightarrow> RoutingTable \<Rightarrow> fault + RoutingTable" where
  "SplitBucket now splitIdx rt =
     (if splitIdx < 0 \<or> splitIdx \<ge> 160 then Inr rt
      else
        let entries = Entries (rt_Buckets rt ! nat splitIdx);
            b = (rt_Buckets rt ! nat splitIdx)\<lparr>kb_entries := []\<rparr>
        in reinsert now entries (rt\<lparr>rt_Buckets := (rt_Buckets rt)[nat splitIdx := b]\<rparr>))"

section \<open>The XOR metric\<close>

lemma XORDistance_uint: "XORDistance a b = uint (a XOR b)"
proof -
  have "map2 (XOR) (id_bytes a) (id_bytes b) = id_bytes (a XOR b)"
    unfolding id_bytes_def id_byte_def map2_map_map
    by (intro map_cong refl bit_word_eqI) (simp add: bit_simps)
  then show ?thesis by (simp add: XORDistance_def flip: IDToBigInt_def)
qed

lemma xor_word_iff:
  fixes a b t :: ID
  shows "a XOR b = 0 \<longleftrightarrow> a = b" "a XOR t = b XOR t \<longleftrightarrow> a = b"
  by (auto simp: bit_eq_iff bit_xor_iff)

lemma XORDistance_0 [simp]: "XORDistance a b = 0 \<longleftrightarrow> a = b"
  by (simp add: XORDistance_uint uint_0_iff xor_word_iff(1))

lemma XORDistance_self [simp]: "XORDistance a a = 0"
  by simp

lemma XORDistance_inject: "XORDistance a t = XORDistance b t \<longleftrightarrow> a = b"
  unfolding XORDistance_uint using xor_word_iff(2) word_uint_eq_iff by blast

lemma XORDistance_range: "0 \<le> XORDistance a b" "XORDistance a b < 2 ^ 160"
  using uint_lt2p [of "a XOR b"] by (simp_all add: XORDistance_uint)

lemma BitLen_le: "n < 2 ^ m \<Longrightarrow> BitLen n \<le> m"
proof (rule ccontr)
  assume n: "n < 2 ^ m" and "\<not> BitLen n \<le> m"
  then have "m \<le> BitLen n - 1" "n \<noteq> 0" by (auto intro: ccontr)
  then have "2 ^ m \<le> n" using BitLen_bounds [of n] by (meson le_trans neq0_conv one_le_numeral power_increasing)
  with n show False by simp
qed

lemma BucketIndex_BitLen: "a \<noteq> b \<Longrightarrow> BucketIndex a b = int (BitLen (nat (XORDistance a b))) - 1 \<and> 0 < BitLen (nat (XORDistance a b))"
proof -
  assume "a \<noteq> b"
  then have "0 < nat (XORDistance a b)" using XORDistance_range(1) [of a b] XORDistance_0 [of a b] by linarith
  with BitLen_bounds \<open>a \<noteq> b\<close> show ?thesis by (simp add: BucketIndex_def)
qed

lemma BucketIndex_range: "-1 \<le> BucketIndex a b" "BucketIndex a b < 160" "BucketIndex a b < 0 \<longleftrightarrow> a = b"
proof -
  have "nat (XORDistance a b) < 2 ^ 160"
    using XORDistance_range [of a b] by (simp only: nat_less_iff of_nat_power of_nat_numeral)
  then have "BitLen (nat (XORDistance a b)) \<le> 160" by (rule BitLen_le)
  moreover have "BucketIndex a a = -1" by (simp add: BucketIndex_def)
  ultimately show "-1 \<le> BucketIndex a b" "BucketIndex a b < 160" "BucketIndex a b < 0 \<longleftrightarrow> a = b"
    using BucketIndex_BitLen [of a b] by (cases "a = b"; simp)+
qed

text \<open>Bucket \<open>i\<close> is the shell of distances between \<open>2 ^ i\<close> and \<open>2 ^ (i + 1)\<close>.\<close>

lemma BucketIndex_shell: "BucketIndex a b = int i \<longleftrightarrow> 2 ^ i \<le> XORDistance a b \<and> XORDistance a b < 2 ^ Suc i"
proof (cases "a = b")
  case True
  have "\<not> 2 ^ i \<le> (0::int)" by (simp add: not_le)
  then show ?thesis by (simp add: True BucketIndex_def)
next
  case False
  let ?n = "nat (XORDistance a b)"
  have nat: "2 ^ j \<le> nat (XORDistance a b) \<longleftrightarrow> 2 ^ j \<le> XORDistance a b" "nat (XORDistance a b) < 2 ^ j \<longleftrightarrow> XORDistance a b < 2 ^ j" for j
    using XORDistance_range(1) [of a b] by (simp_all add: nat_less_iff le_nat_iff)
  have b: "BucketIndex a b = int (BitLen ?n) - 1" "0 < BitLen ?n" using BucketIndex_BitLen [OF False] by auto
  have "BucketIndex a b = int i \<longleftrightarrow> BitLen ?n = Suc i" using b by auto
  also have "\<dots> \<longleftrightarrow> 2 ^ i \<le> ?n \<and> ?n < 2 ^ Suc i"
    using BitLen_bounds [of ?n] BitLen_unique [of i ?n] b(2) by (metis BitLen_0 diff_Suc_1 gr0I)
  also have "\<dots> \<longleftrightarrow> 2 ^ i \<le> XORDistance a b \<and> XORDistance a b < 2 ^ Suc i" by (simp only: nat)
  finally show ?thesis .
qed

lemma xor_le_plus: "0 \<le> k \<Longrightarrow> 0 \<le> l \<Longrightarrow> k XOR l \<le> k + (l :: int)"
proof -
  assume "0 \<le> k" "0 \<le> l"
  have "(k XOR l) OR (k AND l) = k OR l" by (rule bit_eqI) (auto simp: bit_simps)
  then have "k XOR l \<le> k OR l" using or_greater_eq [of "k AND l" "k XOR l"] \<open>0 \<le> k\<close> by simp
  moreover have "(k AND l) + (k OR l) = k + l" by (rule plus_and_or)
  moreover have "0 \<le> k AND l" using \<open>0 \<le> k\<close> by simp
  ultimately show ?thesis by linarith
qed

text \<open>
  XOR distance is a metric on identifiers, every point has exactly one identifier at each
  distance from a given one, and bucket \<open>i\<close> holds exactly the identifiers at a distance between
  \<open>2 ^ i\<close> and \<open>2 ^ (i + 1)\<close>; only the node itself is in no bucket.
\<close>

theorem kad_xor_metric:
  "XORDistance a b = XORDistance b a \<and> (XORDistance a b = 0 \<longleftrightarrow> a = b) \<and>
   XORDistance a c \<le> XORDistance a b + XORDistance b c \<and> (XORDistance a b = XORDistance a c \<longleftrightarrow> b = c) \<and>
   (BucketIndex a b = int i \<longleftrightarrow> 2 ^ i \<le> XORDistance a b \<and> XORDistance a b < 2 ^ Suc i) \<and>
   (BucketIndex a b = -1 \<longleftrightarrow> a = b) \<and> BucketIndex a b < 160"
proof -
  have sym: "XORDistance x y = XORDistance y x" for x y by (simp add: XORDistance_uint xor.commute)
  have "a XOR c = (a XOR b) XOR (b XOR c)" by (rule bit_word_eqI) (auto simp: bit_simps)
  then have tri: "XORDistance a c \<le> XORDistance a b + XORDistance b c"
    unfolding XORDistance_uint using xor_le_plus [of "uint (a XOR b)" "uint (b XOR c)"] by (simp add: uint_xor)
  have "BucketIndex a b = -1 \<longleftrightarrow> a = b" using BucketIndex_range(1,3) [of a b] by linarith
  with sym tri BucketIndex_shell [of a b i] XORDistance_inject [of b a c] BucketIndex_range(2) [of a b] show ?thesis by (metis XORDistance_0)
qed

section \<open>Buckets and tables\<close>

definition bucket_ok :: "ID \<Rightarrow> nat \<Rightarrow> KBucket \<Rightarrow> bool" where
  "bucket_ok self i b \<longleftrightarrow> distinct (map c_ID (kb_entries b)) \<and> int (length (kb_entries b)) \<le> max 0 (kb_capacity b) \<and>
     (\<forall>c \<in> set (kb_entries b). BucketIndex self (c_ID c) = int i)"

definition table_ok :: "RoutingTable \<Rightarrow> bool" where
  "table_ok rt \<longleftrightarrow> length (rt_Buckets rt) = 160 \<and>
     (\<forall>i < 160. bucket_ok (rt_Self rt) i (rt_Buckets rt ! i) \<and> kb_capacity (rt_Buckets rt ! i) = rt_K rt)"

definition contact_ids :: "Contact list \<Rightarrow> ID set" where
  "contact_ids cs = c_ID ` set cs"

lemma table_ok_New: "table_ok (NewRoutingTable self k)"
  by (simp add: table_ok_def NewRoutingTable_def bucket_ok_def)

lemma contact_ids_simps [simp]:
  "contact_ids [] = {}" "contact_ids (c # cs) = insert (c_ID c) (contact_ids cs)" "contact_ids (cs @ ds) = contact_ids cs \<union> contact_ids ds"
  by (auto simp: contact_ids_def)

lemma contact_ids_fold: "c_ID ` set cs = contact_ids cs"
  by (simp add: contact_ids_def)

lemma remove_id_None: "remove_id i es = None \<longleftrightarrow> i \<notin> contact_ids es"
  by (induction es) auto

lemma remove_id_Some:
  "remove_id i es = Some es' \<Longrightarrow> distinct (map c_ID es) \<Longrightarrow>
   distinct (map c_ID es') \<and> contact_ids es' = contact_ids es - {i} \<and> length es = Suc (length es') \<and> i \<in> contact_ids es \<and> set es' \<subseteq> set es"
proof (induction es arbitrary: es')
  case (Cons e es)
  show ?case
  proof (cases "c_ID e = i")
    case True
    with Cons.prems show ?thesis by (auto simp: contact_ids_fold)
  next
    case False
    with Cons.prems obtain fs where fs: "remove_id i es = Some fs" "es' = e # fs" by auto
    from Cons.IH [OF fs(1)] Cons.prems(2) fs(2) False show ?thesis by (auto simp: contact_ids_fold)
  qed
qed simp

text \<open>Every way in which \<^verbatim>\<open>UpdateContact\<close> can return, with the state after the ping.\<close>

lemma KBucket_UpdateContact_cases:
  assumes "KBucket_UpdateContact now c ping b s = Inr (s', b', u)"
  obtains (known) es where "remove_id (c_ID c) (kb_entries b) = Some es" "u" "s' = s" "b' = b\<lparr>kb_entries := es @ [c\<lparr>c_LastSeen := now\<rparr>]\<rparr>"
  | (room) "c_ID c \<notin> contact_ids (kb_entries b)" "int (length (kb_entries b)) < kb_capacity b" "u" "s' = s"
      "b' = b\<lparr>kb_entries := kb_entries b @ [c\<lparr>c_LastSeen := now\<rparr>]\<rparr>"
  | (alive) old rest f where "c_ID c \<notin> contact_ids (kb_entries b)" "kb_entries b = old # rest" "int (length (kb_entries b)) \<ge> kb_capacity b"
      "ping = Some f" "f old s = Inr (s', True)" "\<not> u" "b' = b\<lparr>kb_entries := rest @ [old]\<rparr>"
  | (evict) old rest where "c_ID c \<notin> contact_ids (kb_entries b)" "kb_entries b = old # rest" "int (length (kb_entries b)) \<ge> kb_capacity b"
      "ping = None \<and> s' = s \<or> (\<exists>f. ping = Some f \<and> f old s = Inr (s', False))" "u" "b' = b\<lparr>kb_entries := rest @ [c]\<rparr>"
  using assms unfolding KBucket_UpdateContact_def
  by (auto split: option.splits if_splits list.splits sum.splits simp: remove_id_None not_less)

lemma KBucket_UpdateContact_ok:
  assumes "KBucket_UpdateContact now c ping b s = Inr (s', b', u)" "bucket_ok self i b" "BucketIndex self (c_ID c) = int i"
  shows "bucket_ok self i b' \<and> kb_capacity b' = kb_capacity b"
  using assms(1)
proof (cases rule: KBucket_UpdateContact_cases)
  case (known es)
  then show ?thesis using remove_id_Some [OF known(1)] assms(2,3) by (auto simp: bucket_ok_def contact_ids_fold)
qed (use assms(2,3) in \<open>auto simp: bucket_ok_def contact_ids_fold\<close>)

lemma KBucket_UpdateContact_ids:
  assumes "KBucket_UpdateContact now c ping b s = Inr (s', b', u)" "bucket_ok self i b"
  shows "contact_ids (kb_entries b') \<subseteq> insert (c_ID c) (contact_ids (kb_entries b)) \<and> (u \<longleftrightarrow> c_ID c \<in> contact_ids (kb_entries b')) \<and>
    (\<forall>x \<in> contact_ids (kb_entries b) - contact_ids (kb_entries b'). \<exists>old rest. kb_entries b = old # rest \<and> x = c_ID old \<and>
       int (length (kb_entries b)) \<ge> kb_capacity b \<and> (ping = None \<and> s' = s \<or> (\<exists>f. ping = Some f \<and> f old s = Inr (s', False))))"
  using assms(1)
proof (cases rule: KBucket_UpdateContact_cases)
  case (known es)
  then show ?thesis using remove_id_Some [OF known(1)] assms(2) by (auto simp: bucket_ok_def contact_ids_fold)
qed (use assms(2) in \<open>auto simp: bucket_ok_def contact_ids_fold\<close>)

lemma table_ok_update:
  assumes "table_ok rt" "i < 160" "bucket_ok (rt_Self rt) i b" "kb_capacity b = rt_K rt"
  shows "table_ok (rt\<lparr>rt_Buckets := (rt_Buckets rt)[i := b]\<rparr>)"
  using assms by (auto simp: table_ok_def nth_list_update)

lemma table_bucket: "table_ok rt \<Longrightarrow> i < 160 \<Longrightarrow> bucket_ok (rt_Self rt) i (rt_Buckets rt ! i)"
  by (simp add: table_ok_def)

lemma AllContacts_ids: "contact_ids (AllContacts rt) = (\<Union>b \<in> set (rt_Buckets rt). contact_ids (kb_entries b))"
  by (auto simp: AllContacts_def contact_ids_def Entries_def)

text \<open>A contact is in the table exactly when it is in the bucket of its distance.\<close>

lemma AllContacts_bucket:
  assumes "table_ok rt"
  shows "x \<in> contact_ids (AllContacts rt) \<longleftrightarrow>
    BucketIndex (rt_Self rt) x \<ge> 0 \<and> x \<in> contact_ids (kb_entries (rt_Buckets rt ! nat (BucketIndex (rt_Self rt) x)))"
proof
  assume "x \<in> contact_ids (AllContacts rt)"
  then obtain i where i: "i < 160" "x \<in> contact_ids (kb_entries (rt_Buckets rt ! i))"
    using assms by (auto simp: AllContacts_ids table_ok_def in_set_conv_nth)
  then have "BucketIndex (rt_Self rt) x = int i" using table_bucket [OF assms] by (auto simp: bucket_ok_def contact_ids_def)
  with i show "BucketIndex (rt_Self rt) x \<ge> 0 \<and> x \<in> contact_ids (kb_entries (rt_Buckets rt ! nat (BucketIndex (rt_Self rt) x)))" by simp
next
  assume *: "BucketIndex (rt_Self rt) x \<ge> 0 \<and> x \<in> contact_ids (kb_entries (rt_Buckets rt ! nat (BucketIndex (rt_Self rt) x)))"
  moreover have "nat (BucketIndex (rt_Self rt) x) < length (rt_Buckets rt)"
    using assms BucketIndex_range(2) [of "rt_Self rt" x] * by (simp add: table_ok_def nat_less_iff)
  ultimately show "x \<in> contact_ids (AllContacts rt)" by (auto simp: AllContacts_ids)
qed

text \<open>
  Recency: \<open>seen\<close> assigns to every contact the moment it was last seen, and the entries of a
  bucket are kept in that order. An update, at a later moment \<open>t\<close>, keeps the order when the
  contact that was seen then is the new one or, if the new one was turned away, the oldest one,
  which has answered the ping.
\<close>

definition by_recency :: "(ID \<Rightarrow> nat) \<Rightarrow> Contact list \<Rightarrow> bool" where
  "by_recency seen es \<longleftrightarrow> sorted_wrt (\<lambda>x y. seen (c_ID x) < seen (c_ID y)) es"

lemma remove_id_filter:
  "remove_id i es = Some es' \<Longrightarrow> distinct (map c_ID es) \<Longrightarrow> es' = filter (\<lambda>e. c_ID e \<noteq> i) es"
proof (induction es arbitrary: es')
  case (Cons e es)
  show ?case
  proof (cases "c_ID e = i")
    case True
    then have "i \<notin> c_ID ` set es" using Cons.prems(2) by simp
    then have "filter (\<lambda>e. c_ID e \<noteq> i) es = es" by (metis (mono_tags) filter_True image_eqI)
    with True Cons.prems(1) show ?thesis by simp
  next
    case False
    with Cons show ?thesis by auto
  qed
qed simp

lemma by_recency_snoc:
  assumes "by_recency seen es" "\<forall>x \<in> set es. seen (c_ID x) < t" "c_ID c \<notin> contact_ids es"
  shows "by_recency (seen(c_ID c := t)) (es @ [c])"
proof -
  have ne: "c_ID x \<noteq> c_ID c" if "x \<in> set es" for x using assms(3) that unfolding contact_ids_def by (metis image_eqI)
  have "by_recency (seen(c_ID c := t)) es"
    unfolding by_recency_def
    by (rule sorted_wrt_mono_rel [OF _ assms(1) [unfolded by_recency_def]]) (simp add: ne)
  with assms(2) ne show ?thesis by (simp add: by_recency_def sorted_wrt_append)
qed

lemma KBucket_UpdateContact_recency:
  assumes "KBucket_UpdateContact now c ping b s = Inr (s', b', u)" "bucket_ok self i b"
    and "by_recency seen (kb_entries b)" "\<forall>x \<in> set (kb_entries b). seen (c_ID x) < t"
  shows "by_recency (seen((if u then c_ID c else c_ID (hd (kb_entries b))) := t)) (kb_entries b')"
  using assms(1)
proof (cases rule: KBucket_UpdateContact_cases)
  case (known es)
  have es: "es = filter (\<lambda>e. c_ID e \<noteq> c_ID c) (kb_entries b)"
    using remove_id_filter [OF known(1)] assms(2) by (simp add: bucket_ok_def)
  have "by_recency seen es" using assms(3) by (simp add: es by_recency_def sorted_wrt_filter)
  moreover have "\<forall>x \<in> set es. seen (c_ID x) < t" "c_ID c \<notin> contact_ids es" using assms(4) by (auto simp: es contact_ids_def)
  ultimately show ?thesis using by_recency_snoc [of seen es t "c\<lparr>c_LastSeen := now\<rparr>"] known by simp
next
  case room
  with by_recency_snoc [OF assms(3,4), of "c\<lparr>c_LastSeen := now\<rparr>"] show ?thesis by simp
next
  case (alive old rest f)
  with assms(2-4) by_recency_snoc [of seen rest t old] show ?thesis
    by (auto simp: bucket_ok_def by_recency_def contact_ids_def)
next
  case (evict old rest)
  with assms(3,4) by_recency_snoc [of seen rest t c] show ?thesis by (auto simp: by_recency_def)
qed

text \<open>
  C36. The routing table under \<^verbatim>\<open>UpdateContact\<close>. It stays well-formed: each of the 160 buckets
  within its capacity, without duplicates and with contacts of its distance only. No contact
  enters but the new one, the result tells whether the new one is in the table afterwards, only
  the bucket of its distance changes, and a contact leaves only from the head of a full bucket
  and when its ping failed: a live contact is never evicted. The head is the least recently
  seen contact: for every assignment of last-seen moments in whose order the bucket is, the
  bucket after the update is in the order in which the contact just seen (the new one, whether
  it was known or not, or the head that answered the ping) comes last, and a contact that
  leaves was seen before every other contact of the bucket.
\<close>

theorem kad_update_contact_lru:
  assumes "table_ok rt" "RoutingTable_UpdateContact now c (Some f) rt s = Inr (s', rt', idx, updated)"
  shows "table_ok rt' \<and> contact_ids (AllContacts rt') \<subseteq> insert (c_ID c) (contact_ids (AllContacts rt)) \<and>
    (updated \<longleftrightarrow> c_ID c \<in> contact_ids (AllContacts rt')) \<and>
    (\<forall>j. j \<noteq> nat idx \<longrightarrow> rt_Buckets rt' ! j = rt_Buckets rt ! j) \<and>
    (\<forall>x \<in> contact_ids (AllContacts rt) - contact_ids (AllContacts rt'). \<exists>old rest.
       kb_entries (rt_Buckets rt ! nat idx) = old # rest \<and> x = c_ID old \<and> int (length (old # rest)) \<ge> rt_K rt \<and> f old s = Inr (s', False)) \<and>
    (\<forall>seen t. idx \<ge> 0 \<and> by_recency seen (kb_entries (rt_Buckets rt ! nat idx)) \<and>
       (\<forall>x \<in> contact_ids (kb_entries (rt_Buckets rt ! nat idx)). seen x < t) \<longrightarrow>
         by_recency (seen((if updated then c_ID c else c_ID (hd (kb_entries (rt_Buckets rt ! nat idx)))) := t))
           (kb_entries (rt_Buckets rt' ! nat idx)) \<and>
         (\<forall>x \<in> contact_ids (AllContacts rt) - contact_ids (AllContacts rt').
            \<forall>y \<in> contact_ids (kb_entries (rt_Buckets rt ! nat idx)) - {x}. seen x < seen y))"
proof (cases "BucketIndex (rt_Self rt) (c_ID c) < 0")
  case True
  then have "rt' = rt" "\<not> updated" "idx < 0" "c_ID c \<notin> contact_ids (AllContacts rt)"
    using assms AllContacts_bucket [OF assms(1), of "c_ID c"] by (auto simp: RoutingTable_UpdateContact_def Let_def)
  with assms(1) show ?thesis by auto
next
  case False
  let ?i = "BucketIndex (rt_Self rt) (c_ID c)"
  obtain b where b: "KBucket_UpdateContact now c (Some f) (rt_Buckets rt ! nat ?i) s = Inr (s', b, updated)"
      and rt': "rt' = rt\<lparr>rt_Buckets := (rt_Buckets rt)[nat ?i := b]\<rparr>" and idx: "idx = ?i"
    using assms(2) False by (auto simp: RoutingTable_UpdateContact_def Let_def split: sum.splits)
  have i: "nat ?i < 160" "?i = int (nat ?i)" using BucketIndex_range(2) [of "rt_Self rt" "c_ID c"] False by auto
  have ok: "bucket_ok (rt_Self rt) (nat ?i) (rt_Buckets rt ! nat ?i)" "kb_capacity (rt_Buckets rt ! nat ?i) = rt_K rt"
    "length (rt_Buckets rt) = 160"
    using assms(1) i(1) by (simp_all add: table_ok_def)
  have "table_ok rt'" unfolding rt' using KBucket_UpdateContact_ok [OF b ok(1) i(2)] assms(1) i(1) ok(2) by (intro table_ok_update) simp_all
  note ids = KBucket_UpdateContact_ids [OF b ok(1)]
  have bucket: "rt_Buckets rt' ! nat j = (if nat j = nat ?i then b else rt_Buckets rt ! nat j)" for j
    using i(1) ok(3) by (simp add: rt' nth_list_update)
  have self: "rt_Self rt' = rt_Self rt" by (simp add: rt')
  have same: "x \<in> contact_ids (AllContacts rt') \<longleftrightarrow> x \<in> contact_ids (AllContacts rt)" if "nat (BucketIndex (rt_Self rt) x) \<noteq> nat ?i" for x
    using that by (simp add: AllContacts_bucket [OF \<open>table_ok rt'\<close>] AllContacts_bucket [OF assms(1)] self bucket)
  have here: "x \<in> contact_ids (AllContacts rt') \<longleftrightarrow> x \<in> contact_ids (kb_entries b)"
    "x \<in> contact_ids (AllContacts rt) \<longleftrightarrow> x \<in> contact_ids (kb_entries (rt_Buckets rt ! nat ?i))"
    if "nat (BucketIndex (rt_Self rt) x) = nat ?i" "BucketIndex (rt_Self rt) x \<ge> 0" for x
    using that by (simp_all add: AllContacts_bucket [OF \<open>table_ok rt'\<close>] AllContacts_bucket [OF assms(1)] self bucket)
  have neg: "x \<notin> contact_ids (AllContacts rt')" "x \<notin> contact_ids (AllContacts rt)" if "BucketIndex (rt_Self rt) x < 0" for x
    using that by (simp_all add: AllContacts_bucket [OF \<open>table_ok rt'\<close>] AllContacts_bucket [OF assms(1)] self)
  have sub: "contact_ids (AllContacts rt') \<subseteq> insert (c_ID c) (contact_ids (AllContacts rt))"
    using ids same here neg by (smt (verit) insert_iff subset_iff)
  have upd: "updated \<longleftrightarrow> c_ID c \<in> contact_ids (AllContacts rt')" using ids here False by simp
  have others: "\<forall>j. j \<noteq> nat idx \<longrightarrow> rt_Buckets rt' ! j = rt_Buckets rt ! j" by (simp add: rt' idx)
  have leaves: "\<exists>old rest. kb_entries (rt_Buckets rt ! nat idx) = old # rest \<and> x = c_ID old \<and> int (length (old # rest)) \<ge> rt_K rt \<and> f old s = Inr (s', False)"
    if "x \<in> contact_ids (AllContacts rt) - contact_ids (AllContacts rt')" for x
  proof -
    have "x \<in> contact_ids (kb_entries (rt_Buckets rt ! nat ?i)) - contact_ids (kb_entries b)"
      using that same here neg by (metis DiffE DiffI not_less)
    then show ?thesis using ids ok(2) by (force simp: idx)
  qed
  have recent: "by_recency (seen((if updated then c_ID c else c_ID (hd (kb_entries (rt_Buckets rt ! nat idx)))) := t))
         (kb_entries (rt_Buckets rt' ! nat idx)) \<and>
       (\<forall>x \<in> contact_ids (AllContacts rt) - contact_ids (AllContacts rt').
          \<forall>y \<in> contact_ids (kb_entries (rt_Buckets rt ! nat idx)) - {x}. seen x < seen y)"
    if "by_recency seen (kb_entries (rt_Buckets rt ! nat idx))"
      "\<forall>x \<in> contact_ids (kb_entries (rt_Buckets rt ! nat idx)). seen x < t" for seen t
  proof (intro conjI ballI)
    show "by_recency (seen((if updated then c_ID c else c_ID (hd (kb_entries (rt_Buckets rt ! nat idx)))) := t))
        (kb_entries (rt_Buckets rt' ! nat idx))"
      using KBucket_UpdateContact_recency [OF b ok(1), of seen t] that by (auto simp: idx bucket contact_ids_def)
  next
    fix x y assume "x \<in> contact_ids (AllContacts rt) - contact_ids (AllContacts rt')"
      and y: "y \<in> contact_ids (kb_entries (rt_Buckets rt ! nat idx)) - {x}"
    with leaves obtain old rest where "kb_entries (rt_Buckets rt ! nat idx) = old # rest" "x = c_ID old" by blast
    with y that(1) show "seen x < seen y" by (auto simp: by_recency_def contact_ids_def)
  qed
  show ?thesis
    by (intro conjI allI impI sub upd others ballI leaves \<open>table_ok rt'\<close>; (elim conjE)?) (use recent in blast)+
qed

text \<open>A full bucket of two contacts whose oldest one does not answer.\<close>

theorem kad_update_contact_lru_witness:
  "\<exists>rt rt' updated. RoutingTable_UpdateContact 9 \<lparr>c_ID = 2, c_Addr = ''z'', c_LastSeen = 9\<rparr> (Some (\<lambda>c s. Inr (s, False))) rt () =
      Inr ((), rt', 2, updated) \<and>
    map c_ID (kb_entries (rt_Buckets rt ! 2)) = [0, 1] \<and> map c_ID (kb_entries (rt_Buckets rt' ! 2)) = [1, 2] \<and>
    table_ok rt' \<and> by_recency (unat(2 := 9)) (kb_entries (rt_Buckets rt' ! 2))"
proof -
  let ?x = "\<lparr>c_ID = 0, c_Addr = ''x'', c_LastSeen = 5\<rparr>" and ?y = "\<lparr>c_ID = 1, c_Addr = ''y'', c_LastSeen = 6\<rparr>"
  let ?z = "\<lparr>c_ID = 2, c_Addr = ''z'', c_LastSeen = 9\<rparr>" and ?f = "\<lambda>(c :: Contact) (s :: unit). Inr (s, False) :: fault + unit \<times> bool"
  let ?n = "NewRoutingTable 4 2" and ?b = "\<lparr>kb_entries = [?x, ?y], kb_capacity = 2\<rparr>"
  define rt where "rt = ?n\<lparr>rt_Buckets := (rt_Buckets ?n)[2 := ?b]\<rparr>"
  have far: "BucketIndex 4 0 = int 2" "BucketIndex 4 1 = int 2" "BucketIndex 4 2 = int 2"
    unfolding BucketIndex_shell XORDistance_uint by simp_all
  have n: "table_ok ?n" "rt_Self ?n = 4" "rt_K ?n = 2" "length (rt_Buckets ?n) = 160"
    by (simp_all add: table_ok_New) (simp_all add: NewRoutingTable_def)
  have "table_ok rt" unfolding rt_def by (rule table_ok_update [OF n(1)]) (simp_all add: bucket_ok_def n far)
  have old: "rt_Buckets rt ! 2 = ?b" "rt_Self rt = 4" using n by (simp_all add: rt_def)
  let ?rt' = "rt\<lparr>rt_Buckets := (rt_Buckets rt)[2 := ?b\<lparr>kb_entries := [?y, ?z]\<rparr>]\<rparr>"
  have r: "RoutingTable_UpdateContact 9 ?z (Some ?f) rt () = Inr ((), ?rt', 2, True)"
    by (simp add: RoutingTable_UpdateContact_def KBucket_UpdateContact_def old far Let_def)
  have "kb_entries (rt_Buckets ?rt' ! 2) = [?y, ?z]" using n by (simp add: rt_def)
  moreover from kad_update_contact_lru [OF \<open>table_ok rt\<close> r]
  have "table_ok ?rt'" "by_recency (unat(2 := 9)) (kb_entries (rt_Buckets ?rt' ! 2))"
    by (simp_all add: old by_recency_def)
  ultimately show ?thesis using r old(1) by (intro exI [of _ rt] exI [of _ ?rt'] exI [of _ True]) simp
qed

section \<open>The closest contacts\<close>

lemma shift_in_mset [simp]: "mset (shift_in t c cs) = add_mset c (mset cs)"
  by (induction cs) auto

lemma shift_in_sorted:
  "sorted_wrt (\<lambda>x y. XORDistance (c_ID y) t \<le> XORDistance (c_ID x) t) cs \<Longrightarrow>
   sorted_wrt (\<lambda>x y. XORDistance (c_ID y) t \<le> XORDistance (c_ID x) t) (shift_in t c cs)"
proof (induction cs)
  case (Cons x xs)
  have "set (shift_in t c xs) = insert c (set xs)" by (metis mset.simps(2) set_mset_add_mset_insert set_mset_mset shift_in_mset)
  with Cons show ?case by (auto simp: big_Cmp_def split: if_splits)
qed simp

lemma sortByDistance_sorted: "sorted (map (\<lambda>c. XORDistance (c_ID c) t) (sortByDistance cs t))"
proof -
  have "sorted_wrt (\<lambda>x y. XORDistance (c_ID y) t \<le> XORDistance (c_ID x) t) (fold (shift_in t) cs acc)"
    if "sorted_wrt (\<lambda>x y. XORDistance (c_ID y) t \<le> XORDistance (c_ID x) t) acc" for acc
    using that by (induction cs arbitrary: acc) (simp_all add: shift_in_sorted)
  from this [of "[]"] show ?thesis by (simp add: sortByDistance_def sorted_wrt_rev sorted_map)
qed

lemma sortByDistance_mset: "mset (sortByDistance cs t) = mset cs"
proof -
  have "mset (fold (shift_in t) cs acc) = mset cs + mset acc" for acc
    by (induction cs arbitrary: acc) simp_all
  then show ?thesis by (simp add: sortByDistance_def)
qed

lemma strict_sorted_take:
  assumes "sorted_wrt (<) (map f xs)" "x \<in> set (drop m xs)" "y \<in> set (take m xs)"
  shows "f y < (f x :: int)"
proof -
  have "sorted_wrt (<) (map f (take m xs) @ map f (drop m xs))" using assms(1) by (simp flip: map_append)
  with assms(2,3) show ?thesis by (auto simp: sorted_wrt_append)
qed

lemma distinct_ids_AllContacts:
  assumes "table_ok rt"
  shows "distinct (map c_ID (AllContacts rt))"
proof -
  have "distinct (map c_ID (concat (map kb_entries bs)))"
    if "\<And>i. i < length bs \<Longrightarrow> distinct (map c_ID (kb_entries (bs ! i))) \<and> (\<forall>c \<in> set (kb_entries (bs ! i)). BucketIndex self (c_ID c) = int (k + i))"
    for bs k self
    using that
  proof (induction bs arbitrary: k)
    case (Cons b bs)
    have IH: "distinct (map c_ID (concat (map kb_entries bs)))"
      by (rule Cons.IH [of "Suc k"]) (use Cons.prems [of "Suc _"] in auto)
    have later: "\<exists>i. BucketIndex self (c_ID d) = int (k + Suc i)" if "d \<in> set (concat (map kb_entries bs))" for d
      using that Cons.prems [of "Suc _"] by (auto simp: in_set_conv_nth) (metis nth_mem)
    have "c_ID c \<noteq> c_ID d" if "c \<in> set (kb_entries b)" "d \<in> set (concat (map kb_entries bs))" for c d
      using later [OF that(2)] Cons.prems [of 0] that(1) by force
    then show ?case using IH Cons.prems [of 0] by auto
  qed simp
  from this [of "rt_Buckets rt" "rt_Self rt" 0] table_bucket [OF assms] assms show ?thesis
    by (simp add: AllContacts_def table_ok_def bucket_ok_def Entries_def [abs_def])
qed

lemma KClosest_spec:
  assumes "table_ok rt"
  shows "(KClosest rt target k = Inl Panic \<longleftrightarrow> k < 0) \<and>
    (\<forall>cs. KClosest rt target k = Inr cs \<longrightarrow>
       set cs \<subseteq> set (AllContacts rt) \<and> length cs = min (nat k) (length (AllContacts rt)) \<and>
       sorted_wrt (<) (map (\<lambda>c. XORDistance (c_ID c) target) cs) \<and>
       (\<forall>c \<in> set (AllContacts rt) - set cs. \<forall>d \<in> set cs. XORDistance (c_ID d) target < XORDistance (c_ID c) target))"
proof -
  let ?all = "sortByDistance (AllContacts rt) target" and ?d = "\<lambda>c. XORDistance (c_ID c) target"
  have perm: "set ?all = set (AllContacts rt)" "length ?all = length (AllContacts rt)"
    using sortByDistance_mset [of "AllContacts rt" target] by (metis set_mset_mset, metis size_mset)
  have "distinct (map c_ID ?all)"
    using distinct_ids_AllContacts [OF assms] sortByDistance_mset [of "AllContacts rt" target] by (metis mset_eq_imp_distinct_iff mset_map)
  then have "distinct (map ?d ?all)"
    by (simp add: distinct_map inj_on_def XORDistance_inject)
  then have strict: "sorted_wrt (<) (map ?d ?all)"
    using sortByDistance_sorted [of target "AllContacts rt"] by (simp add: strict_sorted_iff)
  have far: "?d d < ?d c" if "c \<in> set ?all - set (take m ?all)" "d \<in> set (take m ?all)" for c d m
  proof -
    have "c \<in> set (drop m ?all)" using that(1) by (metis Diff_iff append_take_drop_id Un_iff set_append)
    then show ?thesis using strict_sorted_take [OF strict] that(2) by simp
  qed
  have K: "KClosest rt target k = (if k < 0 then Inl Panic else Inr (take (nat k) ?all))"
    using perm(2) by (auto simp: KClosest_def Let_def AllContacts_def nat_le_iff)
  have "sorted_wrt (<) (map ?d (take m ?all))" for m
    using strict by (metis sorted_wrt_take take_map)
  then show ?thesis
    unfolding K using perm far by (auto simp: min_def dest: in_set_takeD)
qed

text \<open>
  \<^verbatim>\<open>KClosest\<close> panics exactly for a negative \<open>k\<close>, and otherwise returns known contacts, as
  many as there are up to \<open>k\<close>, in strictly increasing distance from the target, such that every
  known contact it leaves out is farther away than all it returns.
\<close>

theorem kad_KClosest_exact:
  assumes "table_ok rt"
  shows "(KClosest rt target k = Inl Panic \<longleftrightarrow> k < 0) \<and>
    (\<forall>cs. KClosest rt target k = Inr cs \<longrightarrow>
       set cs \<subseteq> set (AllContacts rt) \<and> length cs = min (nat k) (length (AllContacts rt)) \<and>
       sorted_wrt (<) (map (\<lambda>c. XORDistance (c_ID c) target) cs) \<and>
       (\<forall>c \<in> set (AllContacts rt) - set cs. \<forall>d \<in> set cs. XORDistance (c_ID d) target < XORDistance (c_ID c) target))"
  by (rule KClosest_spec [OF assms])

lemma KClosest_total: "0 \<le> k \<Longrightarrow> \<exists>cs. KClosest rt t k = Inr cs"
  by (simp add: KClosest_def Let_def)

text \<open>A table with one contact, at distance 2.\<close>

definition one_contact :: Contact where
  "one_contact = \<lparr>c_ID = 6, c_Addr = ''x'', c_LastSeen = 5\<rparr>"

definition one_table :: RoutingTable where
  "one_table = (NewRoutingTable 4 20)\<lparr>rt_Buckets := (rt_Buckets (NewRoutingTable 4 20))[1 := \<lparr>kb_entries = [one_contact], kb_capacity = 20\<rparr>]\<rparr>"

lemma one_table_ok: "table_ok one_table" "rt_Buckets one_table ! 1 = \<lparr>kb_entries = [one_contact], kb_capacity = 20\<rparr>" "rt_K one_table = 20"
  "length (rt_Buckets one_table) = 160"
proof -
  have "nat (XORDistance 4 6) = 2" by (simp add: XORDistance_uint)
  then have "BucketIndex 4 6 = 1" by (simp add: BucketIndex_def BitLen.simps)
  then have "bucket_ok 4 1 \<lparr>kb_entries = [one_contact], kb_capacity = 20\<rparr>" by (simp add: bucket_ok_def one_contact_def)
  then show "table_ok one_table"
    unfolding one_table_def by (intro table_ok_update table_ok_New) (simp_all add: NewRoutingTable_def)
  show "rt_Buckets one_table ! 1 = \<lparr>kb_entries = [one_contact], kb_capacity = 20\<rparr>" "rt_K one_table = 20" "length (rt_Buckets one_table) = 160"
    by (simp_all add: one_table_def NewRoutingTable_def)
qed

theorem kad_KClosest_exact_witness: "\<exists>cs. KClosest one_table 9 3 = Inr cs \<and> length cs = min 3 (length (AllContacts one_table))"
proof -
  obtain cs where "KClosest one_table 9 3 = Inr cs"
    using KClosest_total [of 3 one_table 9] by auto
  with kad_KClosest_exact [OF one_table_ok(1), of 9 3] show ?thesis by auto
qed

section \<open>Splitting a bucket\<close>

lemma reinsert_own:
  assumes "table_ok rt" "i < 160" "\<forall>c \<in> set cs. BucketIndex (rt_Self rt) (c_ID c) = int i"
    and "distinct (map c_ID (es @ cs))" "int (length (es @ cs)) \<le> kb_capacity (rt_Buckets rt ! i)"
    and "kb_entries (rt_Buckets rt ! i) = es"
  shows "reinsert now cs rt = Inr (rt\<lparr>rt_Buckets := (rt_Buckets rt)[i := (rt_Buckets rt ! i)\<lparr>kb_entries := es @ map (\<lambda>c. c\<lparr>c_LastSeen := now\<rparr>) cs\<rparr>]\<rparr>)"
  using assms
proof (induction cs arbitrary: rt es)
  case Nil
  then have "(rt_Buckets rt ! i)\<lparr>kb_entries := es\<rparr> = rt_Buckets rt ! i" by simp
  then show ?case by (simp add: list_update_id)
next
  case (Cons c cs)
  let ?b = "rt_Buckets rt ! i"
  let ?b' = "?b\<lparr>kb_entries := es @ [c\<lparr>c_LastSeen := now\<rparr>]\<rparr>"
  let ?rt = "rt\<lparr>rt_Buckets := (rt_Buckets rt)[i := ?b']\<rparr>"
  have idx: "BucketIndex (rt_Self rt) (c_ID c) = int i" using Cons.prems(3) by simp
  have "remove_id (c_ID c) es = None" using Cons.prems(4) by (auto simp: remove_id_None contact_ids_def)
  then have u: "KBucket_UpdateContact now c None ?b () = Inr ((), ?b', True)"
    using Cons.prems(5,6) by (simp add: KBucket_UpdateContact_def)
  have ok: "table_ok ?rt"
    using KBucket_UpdateContact_ok [OF u table_bucket [OF Cons.prems(1,2)] idx] Cons.prems(1,2)
    by (intro table_ok_update) (simp_all add: table_ok_def)
  have len: "i < length (rt_Buckets rt)" using Cons.prems(1,2) by (simp add: table_ok_def)
  have "reinsert now cs ?rt = Inr (?rt\<lparr>rt_Buckets := (rt_Buckets ?rt)[i := (rt_Buckets ?rt ! i)\<lparr>kb_entries := (es @ [c\<lparr>c_LastSeen := now\<rparr>]) @ map (\<lambda>c. c\<lparr>c_LastSeen := now\<rparr>) cs\<rparr>]\<rparr>)"
    using ok Cons.prems len by (intro Cons.IH) auto
  then show ?case using idx u Cons.prems(2) len by simp
qed

text \<open>
  \<^verbatim>\<open>SplitBucket\<close> splits nothing. On a well-formed table it puts every contact of the bucket
  back where it was, in the same order, with a new time of last contact: the index of a
  contact depends on its distance only, so no contact ever moves to another bucket.
\<close>

theorem kad_SplitBucket_identity:
  assumes "table_ok rt" "i < 160" "0 \<le> rt_K rt"
  shows "SplitBucket now (int i) rt = Inr (rt\<lparr>rt_Buckets := (rt_Buckets rt)[i := (rt_Buckets rt ! i)
    \<lparr>kb_entries := map (\<lambda>c. c\<lparr>c_LastSeen := now\<rparr>) (kb_entries (rt_Buckets rt ! i))\<rparr>]\<rparr>)"
proof -
  let ?b = "rt_Buckets rt ! i"
  let ?rt = "rt\<lparr>rt_Buckets := (rt_Buckets rt)[i := ?b\<lparr>kb_entries := []\<rparr>]\<rparr>"
  have b: "bucket_ok (rt_Self rt) i ?b" "kb_capacity ?b = rt_K rt" "length (rt_Buckets rt) = 160" using assms by (simp_all add: table_ok_def)
  have ok: "table_ok ?rt" using assms b by (intro table_ok_update) (simp_all add: bucket_ok_def)
  have "reinsert now (kb_entries ?b) ?rt = Inr (?rt\<lparr>rt_Buckets := (rt_Buckets ?rt)[i := (rt_Buckets ?rt ! i)
      \<lparr>kb_entries := [] @ map (\<lambda>c. c\<lparr>c_LastSeen := now\<rparr>) (kb_entries ?b)\<rparr>]\<rparr>)"
    using ok assms(2,3) b by (intro reinsert_own) (simp_all add: bucket_ok_def)
  then show ?thesis using assms(2) b by (simp add: SplitBucket_def Let_def Entries_def)
qed

theorem kad_SplitBucket_identity_witness:
  "SplitBucket 7 (int 1) one_table = Inr (one_table\<lparr>rt_Buckets := (rt_Buckets one_table)
     [1 := \<lparr>kb_entries = [one_contact\<lparr>c_LastSeen := 7\<rparr>], kb_capacity = 20\<rparr>]\<rparr>)"
  using kad_SplitBucket_identity [OF one_table_ok(1), of 1 7] unfolding one_table_ok(2,3) by simp

end
