(* ===== verification/Merkle_Tree.thy ===== *)
theory Merkle_Tree
  imports Consistent_Hash
begin

text \<open>
  The Merkle tree over key-value pairs, \<^verbatim>\<open>internal/store/merkle.go\<close>: the root over the sorted
  leaf hashes and \<^verbatim>\<open>Diff\<close>, which descends two trees with the same keys and scans linearly
  otherwise. SHA-1 is an argument; what it must not do (collide on the strings that the two
  trees hash) is a hypothesis about those strings only, so it can hold. The methods hold the
  tree's lock, so the state is a value.
\<close>

record MerkleTree =
  mk_data :: "(ID, byte list) gomap"
  mk_root :: ID
  mk_keys :: "ID list"

definition NewMerkleTree :: MerkleTree where
  "NewMerkleTree = \<lparr>mk_data = [], mk_root = 0, mk_keys = []\<rparr>"

definition leafHash :: "sha1_fn \<Rightarrow> ID \<Rightarrow> byte list \<Rightarrow> ID" where
  "leafHash sha1 key value = sha1 (id_bytes key @ value)"

definition internalHash :: "sha1_fn \<Rightarrow> ID \<Rightarrow> ID \<Rightarrow> ID" where
  "internalHash sha1 left right = sha1 (id_bytes left @ id_bytes right)"

fun compare_bytes :: "byte list \<Rightarrow> byte list \<Rightarrow> int" where
  "compare_bytes (a # as) (b # bs) = (if a < b then -1 else if a > b then 1 else compare_bytes as bs)"
| "compare_bytes _ _ = 0"

definition compareIDs :: "ID \<Rightarrow> ID \<Rightarrow> int" where
  "compareIDs a b = compare_bytes (id_bytes a) (id_bytes b)"

text \<open>Padding a level to even length with its last hash, and hashing its pairs.\<close>

definition pad_even :: "ID list \<Rightarrow> ID list" where
  "pad_even hashes = (if length hashes mod 2 \<noteq> 0 then hashes @ [last hashes] else hashes)"

fun pair_hashes :: "sha1_fn \<Rightarrow> ID list \<Rightarrow> ID list" where
  "pair_hashes sha1 (a # b # hs) = internalHash sha1 a b # pair_hashes sha1 hs"
| "pair_hashes sha1 _ = []"

definition merkle_parents :: "sha1_fn \<Rightarrow> ID list \<Rightarrow> ID list" where
  "merkle_parents sha1 hashes = pair_hashes sha1 (pad_even hashes)"

text \<open>On an empty slice the recursion would not end; \<^verbatim>\<open>buildRoot\<close> never passes one.\<close>

partial_function (option) merkleBuild :: "sha1_fn \<Rightarrow> ID list \<Rightarrow> ID option" where
  "merkleBuild sha1 hashes =
     (if length hashes = 1 then Some (hashes ! 0) else merkleBuild sha1 (merkle_parents sha1 hashes))"

text \<open>Indexing the data map: an absent key reads as the nil slice.\<close>

definition data_get :: "(ID, byte list) gomap \<Rightarrow> ID \<Rightarrow> byte list" where
  "data_get data k = (case map_of data k of None \<Rightarrow> [] | Some v \<Rightarrow> v)"

definition merkle_leaves :: "sha1_fn \<Rightarrow> ID list \<Rightarrow> (ID, byte list) gomap \<Rightarrow> ID list" where
  "merkle_leaves sha1 keys data = map (\<lambda>k. leafHash sha1 k (data_get data k)) keys"

definition buildRoot :: "sha1_fn \<Rightarrow> MerkleTree \<Rightarrow> ID" where
  "buildRoot sha1 m =
     (if mk_keys m = [] then 0 else the (merkleBuild sha1 (merkle_leaves sha1 (mk_keys m) (mk_data m))))"

definition Update :: "sha1_fn \<Rightarrow> ID \<Rightarrow> byte list \<Rightarrow> MerkleTree \<Rightarrow> MerkleTree" where
  "Update sha1 key value m =
     (let m = (if map_of (mk_data m) key = None
               then m\<lparr>mk_keys := sort_Slice (\<lambda>a b. compareIDs a b < 0) (mk_keys m @ [key])\<rparr> else m);
          m = m\<lparr>mk_data := gm_put key value (mk_data m)\<rparr>
      in m\<lparr>mk_root := buildRoot sha1 m\<rparr>)"

definition MerkleTree_Delete :: "sha1_fn \<Rightarrow> ID \<Rightarrow> MerkleTree \<Rightarrow> MerkleTree" where
  "MerkleTree_Delete sha1 key m =
     (if map_of (mk_data m) key = None then m
      else let m = m\<lparr>mk_data := gm_del key (mk_data m), mk_keys := filter (\<lambda>k. k \<noteq> key) (mk_keys m)\<rparr>
           in m\<lparr>mk_root := buildRoot sha1 m\<rparr>)"

definition Root :: "MerkleTree \<Rightarrow> ID" where
  "Root m = mk_root m"

definition Len :: "MerkleTree \<Rightarrow> nat" where
  "Len m = length (mk_keys m)"

definition keysEqual :: "MerkleTree \<Rightarrow> MerkleTree \<Rightarrow> bool" where
  "keysEqual m other = list_all (\<lambda>i. mk_keys m ! i = mk_keys other ! i) [0..<length (mk_keys m)]"

lemma length_pair_hashes [simp]: "length (pair_hashes sha1 hs) = length hs div 2"
  by (induction sha1 hs rule: pair_hashes.induct) auto

lemma length_merkle_parents [simp]: "length (merkle_parents sha1 hs) = (length hs + 1) div 2"
  by (simp add: merkle_parents_def pad_even_def) presburger

function levels_loop :: "sha1_fn \<Rightarrow> ID list list \<Rightarrow> ID list \<Rightarrow> ID list list" where
  "levels_loop sha1 levels current =
     (if length current > 1
      then let parents = merkle_parents sha1 current in levels_loop sha1 (levels @ [parents]) parents
      else levels)"
  by pat_completeness auto
termination
  by (relation "measure (\<lambda>(sha1, levels, current). length current)") auto

declare levels_loop.simps [simp del]

definition buildTreeLevels :: "sha1_fn \<Rightarrow> ID list \<Rightarrow> (ID, byte list) gomap \<Rightarrow> ID list list" where
  "buildTreeLevels sha1 keys data =
     (if keys = [] then []
      else let leaves = merkle_leaves sha1 keys data in levels_loop sha1 [leaves] leaves)"

text \<open>The level index is a natural number: the guard against a negative index never fires.\<close>

fun descendDiff :: "ID list list \<Rightarrow> ID list list \<Rightarrow> nat \<Rightarrow> nat \<Rightarrow> nat list \<Rightarrow> nat \<Rightarrow> nat list" where
  "descendDiff levelsA levelsB levelIdx nodeIdx result maxLeaves =
     (if nodeIdx \<ge> length (levelsA ! levelIdx) \<or> nodeIdx \<ge> length (levelsB ! levelIdx) then result
      else if levelsA ! levelIdx ! nodeIdx = levelsB ! levelIdx ! nodeIdx then result
      else case levelIdx of
          0 \<Rightarrow> if nodeIdx < maxLeaves then result @ [nodeIdx] else result
        | Suc l \<Rightarrow> descendDiff levelsA levelsB l (nodeIdx * 2 + 1)
                   (descendDiff levelsA levelsB l (nodeIdx * 2) result maxLeaves) maxLeaves)"

declare descendDiff.simps [simp del]

definition Diff :: "sha1_fn \<Rightarrow> MerkleTree \<Rightarrow> MerkleTree \<Rightarrow> ID list" where
  "Diff sha1 m other =
     (if mk_root m = mk_root other then []
      else if length (mk_keys m) = length (mk_keys other) \<and> keysEqual m other then
        let levelsA = buildTreeLevels sha1 (mk_keys m) (mk_data m);
            levelsB = buildTreeLevels sha1 (mk_keys other) (mk_data other)
        in if levelsA = [] \<or> levelsB = [] then []
           else map (\<lambda>idx. mk_keys m ! idx)
             (descendDiff levelsA levelsB (length levelsA - 1) 0 [] (length (mk_keys m)))
      else
        let keySet = fold (\<lambda>k s. gm_put k () s) (mk_keys m @ mk_keys other) [];
            diff = fold (\<lambda>(k, _) diff.
              if leafHash sha1 k (data_get (mk_data m) k) \<noteq> leafHash sha1 k (data_get (mk_data other) k)
              then diff @ [k] else diff) keySet []
        in sort_Slice (\<lambda>a b. compareIDs a b < 0) diff)"

section \<open>Byte order is numeric order\<close>

lemma compare_bytes_SetBytes:
  "length as = length bs \<Longrightarrow> compare_bytes as bs = big_Cmp (SetBytes as) (SetBytes bs)"
proof (induction as bs rule: compare_bytes.induct)
  case (1 a as b bs)
  let ?k = "256 ^ length bs :: int"
  have t: "0 \<le> SetBytes as" "SetBytes as < ?k" "0 \<le> SetBytes bs" "SetBytes bs < ?k"
    using "1.prems" SetBytes_less [of as] SetBytes_less [of bs] by simp_all
  have lt: "uint x * ?k + p < uint y * ?k + q" if "x < y" "0 \<le> p" "p < ?k" "0 \<le> q" for x y :: byte and p q
  proof -
    have "uint x * ?k + p < uint y * ?k" using that by (simp add: leading_digit_less word_less_def)
    then show ?thesis using that by linarith
  qed
  consider "a < b" | "b < a" | "a = b" by (metis not_less_iff_gr_or_eq)
  then show ?case
    using "1" t lt [of a b "SetBytes as" "SetBytes bs"] lt [of b a "SetBytes bs" "SetBytes as"]
    by cases (auto simp: SetBytes_Cons big_Cmp_def)
qed (auto simp: big_Cmp_def)

lemma compareIDs_Compare: "compareIDs a b = Compare a b"
  by (simp add: compareIDs_def compare_bytes_SetBytes Compare_def flip: IDToBigInt_def del: IDToBigInt_uint)

lemma sort_compareIDs: "sort_Slice (\<lambda>a b. compareIDs a b < 0) xs = sort xs"
  by (rule sort_Slice_key) (simp add: compareIDs_Compare)

section \<open>Levels of the tree\<close>

text \<open>Level \<open>l\<close> above the given leaves.\<close>

fun level :: "sha1_fn \<Rightarrow> ID list \<Rightarrow> nat \<Rightarrow> ID list" where
  "level sha1 hs 0 = hs"
| "level sha1 hs (Suc l) = merkle_parents sha1 (level sha1 hs l)"

lemma level_Suc: "level sha1 hs (Suc l) = level sha1 (merkle_parents sha1 hs) l"
  by (induction l) auto

lemma merkle_parents_nth:
  assumes "i < (length hs + 1) div 2"
  shows "merkle_parents sha1 hs ! i =
    internalHash sha1 (hs ! (2 * i)) (if 2 * i + 1 < length hs then hs ! (2 * i + 1) else hs ! (2 * i))"
proof -
  have pair: "pair_hashes sha1 xs ! i = internalHash sha1 (xs ! (2 * i)) (xs ! (2 * i + 1))"
    if "2 * i + 1 < length xs" for xs i
    using that
  proof (induction sha1 xs arbitrary: i rule: pair_hashes.induct)
    case (1 sha1 a b hs)
    then show ?case by (cases i) simp_all
  qed simp_all
  show ?thesis
  proof (cases "length hs mod 2 = 0")
    case True
    with assms have "2 * i + 1 < length hs" by presburger
    with True show ?thesis by (simp add: merkle_parents_def pad_even_def pair)
  next
    case False
    with assms have i: "2 * i + 1 < Suc (length hs)" by presburger
    then have "pad_even hs ! (2 * i) = hs ! (2 * i)" using False by (simp add: pad_even_def nth_append)
    moreover have "pad_even hs ! (2 * i + 1) = (if 2 * i + 1 < length hs then hs ! (2 * i + 1) else hs ! (2 * i))"
    proof (cases "2 * i + 1 < length hs")
      case True
      then show ?thesis using False by (simp add: pad_even_def nth_append)
    next
      case last: False
      then have "length hs = Suc (2 * i)" using i by simp
      moreover from this have "last hs = hs ! (2 * i)"
        by (metis diff_Suc_1 last_conv_nth length_0_conv nat.distinct(1))
      ultimately show ?thesis using False by (simp add: pad_even_def nth_append)
    qed
    ultimately show ?thesis using False i pair [of i "pad_even hs"]
      by (simp add: merkle_parents_def) (simp add: pad_even_def)
  qed
qed

text \<open>A node beyond the end of its level covers no leaf.\<close>

lemma level_beyond: "i \<ge> length (level sha1 hs l) \<Longrightarrow> length hs \<le> i * 2 ^ l"
proof (induction l arbitrary: i)
  case (Suc l)
  then have "2 * i \<ge> length (level sha1 hs l)" by simp
  from Suc.IH [OF this] show ?case by (simp add: mult.assoc mult.commute mult.left_commute)
qed simp

function height :: "nat \<Rightarrow> nat" where
  "height n = (if n \<le> 1 then 0 else Suc (height ((n + 1) div 2)))"
  by pat_completeness auto
termination by (relation "measure id") auto

declare height.simps [simp del]

lemma length_level_height: "0 < length hs \<Longrightarrow> length (level sha1 hs (height (length hs))) = 1"
proof (induction "length hs" arbitrary: hs rule: height.induct)
  case 1
  show ?case
  proof (cases "length hs \<le> 1")
    case True
    with "1.prems" have "length hs = 1" by linarith
    then show ?thesis by (simp add: height.simps)
  next
    case False
    with "1.hyps" [of "merkle_parents sha1 hs"] show ?thesis
      by (subst height.simps) (simp add: level_Suc del: level.simps)
  qed
qed

lemma merkleBuild_level: "0 < length hs \<Longrightarrow> merkleBuild sha1 hs = Some (level sha1 hs (height (length hs)) ! 0)"
proof (induction "length hs" arbitrary: hs rule: height.induct)
  case 1
  show ?case
  proof (cases "length hs \<le> 1")
    case True
    with "1.prems" have "length hs = 1" by linarith
    then show ?thesis by (subst merkleBuild.simps) (simp add: height.simps)
  next
    case False
    with "1.hyps" [of "merkle_parents sha1 hs"] show ?thesis
      by (subst merkleBuild.simps, subst height.simps) (simp add: level_Suc del: level.simps)
  qed
qed

lemma levels_loop_levels:
  "0 < length current \<Longrightarrow>
   levels_loop sha1 levels current = levels @ map (level sha1 current) [1..<Suc (height (length current))]"
proof (induction sha1 levels current rule: levels_loop.induct)
  case (1 sha1 levels current)
  show ?case
  proof (cases "length current > 1")
    case True
    let ?p = "merkle_parents sha1 current"
    have h: "height (length current) = Suc (height (length ?p))" using True by (subst height.simps) simp
    have shift: "map (level sha1 current) [1..<Suc (Suc m)] = ?p # map (level sha1 ?p) [1..<Suc m]" for m
    proof -
      have "[1..<Suc (Suc m)] = map Suc [0..<Suc m]" by (simp only: map_Suc_upt One_nat_def)
      also have "map (level sha1 current) \<dots> = map (level sha1 ?p) [0..<Suc m]"
        by (simp add: level_Suc del: level.simps upt_Suc)
      also have "\<dots> = ?p # map (level sha1 ?p) [1..<Suc m]" by (simp add: upt_conv_Cons del: upt_Suc)
      finally show ?thesis .
    qed
    show ?thesis
      using "1.IH" [OF True refl] True by (subst levels_loop.simps) (simp add: h shift [unfolded One_nat_def] Let_def del: upt_Suc)
  next
    case False
    with "1.prems" show ?thesis by (subst levels_loop.simps, subst height.simps) simp
  qed
qed

lemma buildTreeLevels_levels:
  assumes "keys \<noteq> []"
  shows "buildTreeLevels sha1 keys data =
    map (level sha1 (merkle_leaves sha1 keys data)) [0..<Suc (height (length keys))]"
proof -
  have "length (merkle_leaves sha1 keys data) = length keys" by (simp add: merkle_leaves_def)
  then show ?thesis
    using assms by (simp add: buildTreeLevels_def Let_def levels_loop_levels upt_conv_Cons del: upt_Suc)
qed

section \<open>The tree is a finite map with a canonical root\<close>

definition merkle_inv :: "sha1_fn \<Rightarrow> MerkleTree \<Rightarrow> bool" where
  "merkle_inv sha1 m \<longleftrightarrow> gm_wf (mk_data m) \<and> sorted (mk_keys m) \<and> distinct (mk_keys m) \<and>
     set (mk_keys m) = fst ` set (mk_data m) \<and> mk_root m = buildRoot sha1 m"

lemma merkle_inv_New [simp]: "merkle_inv sha1 NewMerkleTree"
  by (simp add: merkle_inv_def NewMerkleTree_def buildRoot_def)

lemma buildRoot_root [simp]: "buildRoot sha1 (m\<lparr>mk_root := r\<rparr>) = buildRoot sha1 m"
  by (simp add: buildRoot_def)

lemma merkle_inv_Update [simp]:
  assumes "merkle_inv sha1 m"
  shows "merkle_inv sha1 (Update sha1 k v m)"
proof (cases "map_of (mk_data m) k = None")
  case True
  then have "k \<notin> set (mk_keys m)" using assms unfolding merkle_inv_def by (metis map_of_dom_fst)
  with True assms show ?thesis
    by (simp add: merkle_inv_def Update_def Let_def sort_compareIDs gm_put_def dom_update distinct_update gm_wf_def)
next
  case False
  then have "k \<in> set (mk_keys m)" using assms unfolding merkle_inv_def by (metis map_of_dom_fst)
  with False assms show ?thesis
    by (auto simp: merkle_inv_def Update_def Let_def gm_put_def dom_update distinct_update gm_wf_def)
qed

lemma merkle_inv_Delete [simp]:
  assumes "merkle_inv sha1 m"
  shows "merkle_inv sha1 (MerkleTree_Delete sha1 k m)"
  using assms by (auto simp: merkle_inv_def MerkleTree_Delete_def Let_def set_gm_del sorted_filter [of id, simplified])

interpretation mk: keyed_store "\<lambda>(k, v). Update sha1 k v" "MerkleTree_Delete sha1" "\<lambda>m. map_of (mk_data m)" fst snd
    "merkle_inv sha1" for sha1
proof unfold_locales
  show "merkle_inv sha1 m \<Longrightarrow> map_of (mk_data ((\<lambda>(k, v). Update sha1 k v) e m)) = (map_of (mk_data m))(fst e \<mapsto> snd e)" for m e
    by (simp add: Update_def Let_def split_def)
  show "merkle_inv sha1 m \<Longrightarrow> map_of (mk_data (MerkleTree_Delete sha1 k m)) = (map_of (mk_data m))(k := None)" for m k
    by (auto simp: MerkleTree_Delete_def Let_def fun_eq_iff)
qed (simp_all add: split_def)

lemma merkle_inv_keys:
  assumes "merkle_inv sha1 m" "merkle_inv sha1 m'" "map_of (mk_data m) = map_of (mk_data m')"
  shows "mk_keys m = mk_keys m'"
proof (rule sorted_distinct_set_unique)
  show "set (mk_keys m) = set (mk_keys m')"
    using assms unfolding merkle_inv_def by (metis dom_map_of_conv_image_fst)
qed (use assms in \<open>simp_all add: merkle_inv_def\<close>)

lemma buildRoot_level:
  "mk_keys m \<noteq> [] \<Longrightarrow> buildRoot sha1 m =
     level sha1 (merkle_leaves sha1 (mk_keys m) (mk_data m)) (height (length (mk_keys m))) ! 0"
  by (simp add: buildRoot_def merkleBuild_level merkle_leaves_def)

text \<open>
  The root is a function of the contents. Whatever updates and deletions built two trees, if
  they hold the same values under the same keys then their roots are equal, and the
  recursion that computes a root returns for every non-empty list of leaves.
\<close>

theorem merkle_root_canonical:
  assumes "merkle_inv sha1 m" "merkle_inv sha1 m'" "map_of (mk_data m) = map_of (mk_data m')"
  shows "Root m = Root m' \<and> Diff sha1 m m' = [] \<and>
    (hs \<noteq> [] \<longrightarrow> merkleBuild sha1 hs \<noteq> None) \<and>
    merkle_inv sha1 (Update sha1 k v m) \<and> merkle_inv sha1 (MerkleTree_Delete sha1 k m)"
proof -
  have "mk_keys m = mk_keys m'" by (rule merkle_inv_keys [OF assms])
  moreover have "data_get (mk_data m) = data_get (mk_data m')"
    using assms(3) by (simp add: data_get_def fun_eq_iff)
  ultimately have "buildRoot sha1 m = buildRoot sha1 m'"
    by (simp add: buildRoot_def merkle_leaves_def)
  then have "mk_root m = mk_root m'" using assms by (simp add: merkle_inv_def)
  with assms show ?thesis by (simp add: Root_def Diff_def merkleBuild_level)
qed

theorem merkle_root_canonical_witness:
  "Root (Update (\<lambda>_. 9) 1 [5] (Update (\<lambda>_. 9) 2 [6] NewMerkleTree)) =
   Root (Update (\<lambda>_. 9) 2 [6] (Update (\<lambda>_. 9) 1 [5] (MerkleTree_Delete (\<lambda>_. 9) 7 (Update (\<lambda>_. 9) 7 [0] NewMerkleTree))))"
proof -
  let ?U = "Update (\<lambda>_. 9)" and ?D = "MerkleTree_Delete (\<lambda>_. 9)"
  have "map_of (mk_data (?U 1 [5] (?U 2 [6] NewMerkleTree))) =
      map_of (mk_data (?U 2 [6] (?U 1 [5] (?D 7 (?U 7 [0] NewMerkleTree)))))"
    by (auto simp: Update_def MerkleTree_Delete_def Let_def NewMerkleTree_def fun_eq_iff)
  then show ?thesis
    using merkle_root_canonical [of "\<lambda>_. 9" "?U 1 [5] (?U 2 [6] NewMerkleTree)"
        "?U 2 [6] (?U 1 [5] (?D 7 (?U 7 [0] NewMerkleTree)))"] by simp
qed

section \<open>Diff on equal key sets\<close>

text \<open>The strings that a tree hashes: its leaves and the pairs of its levels.\<close>

definition level_inputs :: "ID list \<Rightarrow> byte list set" where
  "level_inputs hs =
     (\<lambda>i. id_bytes (hs ! (2 * i)) @ id_bytes (if 2 * i + 1 < length hs then hs ! (2 * i + 1) else hs ! (2 * i)))
       ` {..<(length hs + 1) div 2}"

definition merkle_inputs :: "sha1_fn \<Rightarrow> MerkleTree \<Rightarrow> byte list set" where
  "merkle_inputs sha1 m =
     (\<lambda>k. id_bytes k @ data_get (mk_data m) k) ` set (mk_keys m) \<union>
     (\<Union>l < height (length (mk_keys m)). level_inputs (level sha1 (merkle_leaves sha1 (mk_keys m) (mk_data m)) l))"

lemma length_level_cong: "length A = length B \<Longrightarrow> length (level sha1 A l) = length (level sha1 B l)"
  by (induction l) auto

lemma internalHash_inj:
  assumes "inj_on sha1 S" "id_bytes a @ id_bytes b \<in> S" "id_bytes c @ id_bytes d \<in> S"
    and "internalHash sha1 a b = internalHash sha1 c d"
  shows "a = c \<and> b = d"
  using inj_onD [OF assms(1) _ assms(2,3)] assms(4) by (simp add: internalHash_def id_bytes_inject)

lemma equal_node_equal_leaves:
  assumes "length A = length B" "inj_on sha1 S"
    and "\<And>k. k < l \<Longrightarrow> level_inputs (level sha1 A k) \<subseteq> S \<and> level_inputs (level sha1 B k) \<subseteq> S"
    and "level sha1 A l ! i = level sha1 B l ! i" "i * 2 ^ l \<le> j" "j < Suc i * 2 ^ l" "j < length A"
  shows "A ! j = B ! j"
  using assms(3-7)
proof (induction l arbitrary: i)
  case 0
  then have "j = i" by simp
  with "0.prems"(2) show ?case by simp
next
  case (Suc l)
  let ?A = "level sha1 A l" and ?B = "level sha1 B l"
  have len: "length ?A = length ?B" using assms(1) by (rule length_level_cong)
  have i: "i < (length ?A + 1) div 2"
    using level_beyond [of sha1 A "Suc l" i] Suc.prems(3,5) by (auto simp: not_less [symmetric])
  let ?r = "\<lambda>hs. if 2 * i + 1 < length hs then hs ! (2 * i + 1) else hs ! (2 * i)"
  have "id_bytes (?A ! (2 * i)) @ id_bytes (?r ?A) \<in> S" "id_bytes (?B ! (2 * i)) @ id_bytes (?r ?B) \<in> S"
    using Suc.prems(1) [of l] i len by (auto simp: level_inputs_def subset_iff image_subset_iff)
  moreover have "internalHash sha1 (?A ! (2 * i)) (?r ?A) = internalHash sha1 (?B ! (2 * i)) (?r ?B)"
    using Suc.prems(2) i len by (simp add: merkle_parents_nth)
  ultimately have eq: "?A ! (2 * i) = ?B ! (2 * i)" "?r ?A = ?r ?B"
    using internalHash_inj [OF assms(2)] by blast+
  show ?case
  proof (cases "j < Suc (2 * i) * 2 ^ l")
    case True
    then show ?thesis using eq(1) Suc.prems by (intro Suc.IH [of "2 * i"]) (simp_all add: mult.assoc mult.left_commute)
  next
    case False
    then have "2 * i + 1 < length ?A"
      using level_beyond [of sha1 A l "2 * i + 1"] Suc.prems(5) by (cases "length ?A \<le> 2 * i + 1") auto
    with eq(2) len have "?A ! (2 * i + 1) = ?B ! (2 * i + 1)" by simp
    then show ?thesis
      using False Suc.prems by (intro Suc.IH [of "2 * i + 1"]) (simp_all add: algebra_simps)
  qed
qed

lemma upt_split_min:
  assumes "a \<le> b" "b \<le> c"
  shows "[a..<min c n] = [a..<min b n] @ [b..<min c (n::nat)]"
proof (cases "b \<le> n")
  case True
  then have "b \<le> min c n" using assms by simp
  then obtain k where "min c n = b + k" using le_Suc_ex by blast
  with True upt_add_eq_append [OF assms(1), of k] show ?thesis by (simp add: min_absorb1)
qed (use assms in \<open>simp add: min_def\<close>)

lemma descendDiff_spec:
  assumes "length A = length B" "inj_on sha1 S" "l \<le> h"
    and "\<And>k. k < h \<Longrightarrow> level_inputs (level sha1 A k) \<subseteq> S \<and> level_inputs (level sha1 B k) \<subseteq> S"
  shows "descendDiff (map (level sha1 A) [0..<Suc h]) (map (level sha1 B) [0..<Suc h]) l i res (length A) =
    res @ filter (\<lambda>j. A ! j \<noteq> B ! j) [i * 2 ^ l..<min (Suc i * 2 ^ l) (length A)]"
  using assms(3)
proof (induction l arbitrary: i res)
  case 0
  then show ?case
    using assms(1) by (subst descendDiff.simps) (cases "i < length B"; simp add: min_def upt_rec [of i "Suc i"] del: upt_Suc)
next
  case (Suc l)
  let ?LA = "map (level sha1 A) [0..<Suc h]" and ?LB = "map (level sha1 B) [0..<Suc h]"
  have nth: "?LA ! Suc l = level sha1 A (Suc l)" "?LB ! Suc l = level sha1 B (Suc l)"
    using Suc.prems by (simp_all del: upt_Suc level.simps)
  have len: "length (level sha1 A (Suc l)) = length (level sha1 B (Suc l))"
    using assms(1) by (rule length_level_cong)
  let ?range = "\<lambda>i l. [i * 2 ^ l..<min (Suc i * 2 ^ l) (length A)]"
  have split: "filter P (?range i (Suc l)) = filter P (?range (i * 2) l) @ filter P (?range (i * 2 + 1) l)" for P
  proof -
    have "?range i (Suc l) = ?range (i * 2) l @ ?range (i * 2 + 1) l"
      using upt_split_min [of "i * 2 ^ Suc l" "Suc (i * 2) * 2 ^ l" "Suc i * 2 ^ Suc l" "length A"]
      by (simp add: mult.assoc algebra_simps)
    then show ?thesis by simp
  qed
  show ?case
  proof (cases "i \<ge> length (level sha1 A (Suc l))")
    case True
    then have "length A \<le> i * 2 ^ Suc l" by (rule level_beyond)
    then have "?range i (Suc l) = []" by (intro upt_conv_Nil min.coboundedI2)
    moreover have "descendDiff ?LA ?LB (Suc l) i res (length A) = res"
      using True by (subst descendDiff.simps) (simp add: nth del: upt_Suc level.simps)
    ultimately show ?thesis by (simp only: filter.simps append_Nil2)
  next
    case inside: False
    show ?thesis
    proof (cases "level sha1 A (Suc l) ! i = level sha1 B (Suc l) ! i")
      case True
      have "A ! j = B ! j" if "j \<in> set (?range i (Suc l))" for j
        using that Suc.prems assms(4) by (intro equal_node_equal_leaves [OF assms(1,2) _ True]) auto
      then have "filter (\<lambda>j. A ! j \<noteq> B ! j) (?range i (Suc l)) = []" by (simp only: filter_empty_conv) blast
      with True inside len show ?thesis
        by (subst descendDiff.simps) (simp add: nth del: upt_Suc level.simps)
    next
      case False
      with inside len Suc.IH Suc.prems show ?thesis
        unfolding split by (subst descendDiff.simps) (simp add: nth del: upt_Suc level.simps)
    qed
  qed
qed

lemma Diff_same_keys:
  assumes "merkle_inv sha1 m" "merkle_inv sha1 m'" "mk_keys m = mk_keys m'"
    and inj: "inj_on sha1 (merkle_inputs sha1 m \<union> merkle_inputs sha1 m')"
  shows "Diff sha1 m m' = filter (\<lambda>k. map_of (mk_data m) k \<noteq> map_of (mk_data m') k) (mk_keys m)"
proof (cases "mk_keys m = []")
  case True
  then have "mk_root m = mk_root m'" using assms(1-3) by (simp add: merkle_inv_def buildRoot_def)
  with True show ?thesis by (simp add: Diff_def)
next
  case False
  define ks where "ks = mk_keys m"
  define A where "A = merkle_leaves sha1 ks (mk_data m)"
  define B where "B = merkle_leaves sha1 ks (mk_data m')"
  define h where "h = height (length ks)"
  let ?S = "merkle_inputs sha1 m \<union> merkle_inputs sha1 m'"
  have len: "length A = length ks" "length B = length ks" by (simp_all add: A_def B_def merkle_leaves_def)
  have sub: "k < h \<Longrightarrow> level_inputs (level sha1 A k) \<subseteq> ?S \<and> level_inputs (level sha1 B k) \<subseteq> ?S" for k
    using assms(3) by (auto simp: merkle_inputs_def A_def B_def h_def ks_def)
  have n: "length ks \<le> 2 ^ h"
    using level_beyond [of sha1 A h 1] length_level_height [of A sha1] False len by (simp add: h_def ks_def)
  have leaf: "A ! j \<noteq> B ! j \<longleftrightarrow> map_of (mk_data m) (ks ! j) \<noteq> map_of (mk_data m') (ks ! j)" if "j < length ks" for j
  proof -
    have mem: "ks ! j \<in> set (mk_keys m)" using that by (simp add: ks_def)
    then obtain v w where vw: "map_of (mk_data m) (ks ! j) = Some v" "map_of (mk_data m') (ks ! j) = Some w"
      using assms(1-3) unfolding merkle_inv_def by (metis map_of_dom_fst option.exhaust)
    have "id_bytes (ks ! j) @ v \<in> ?S" "id_bytes (ks ! j) @ w \<in> ?S"
      using mem assms(3) vw by (force simp: merkle_inputs_def data_get_def)+
    then have "sha1 (id_bytes (ks ! j) @ v) = sha1 (id_bytes (ks ! j) @ w) \<longleftrightarrow> v = w"
      using inj_on_eq_iff [OF inj] by simp
    then show ?thesis using that vw by (simp add: A_def B_def merkle_leaves_def leafHash_def data_get_def)
  qed
  have filter: "map (\<lambda>j. ks ! j) (filter (\<lambda>j. A ! j \<noteq> B ! j) [0..<length ks]) =
      filter (\<lambda>k. map_of (mk_data m) k \<noteq> map_of (mk_data m') k) ks"
  proof -
    have "filter (\<lambda>j. A ! j \<noteq> B ! j) [0..<length ks] =
        filter ((\<lambda>k. map_of (mk_data m) k \<noteq> map_of (mk_data m') k) \<circ> (\<lambda>j. ks ! j)) [0..<length ks]"
      using leaf by (intro filter_cong) auto
    then show ?thesis by (simp only: filter_map [symmetric] map_nth)
  qed
  have root: "mk_root m = level sha1 A h ! 0" "mk_root m' = level sha1 B h ! 0"
    using assms(1-3) False by (simp_all add: merkle_inv_def buildRoot_level A_def B_def h_def ks_def)
  show ?thesis
  proof (cases "mk_root m = mk_root m'")
    case True
    have "A ! j = B ! j" if "j < length ks" for j
      using that n root True len sub by (intro equal_node_equal_leaves [of A B sha1 ?S h 0] inj) auto
    then have "filter (\<lambda>j. A ! j \<noteq> B ! j) [0..<length ks] = []" by (simp add: filter_empty_conv)
    with filter True show ?thesis by (simp add: Diff_def ks_def)
  next
    case neq: False
    have "keysEqual m m'" using assms(3) by (simp add: keysEqual_def list_all_iff)
    moreover have "buildTreeLevels sha1 ks (mk_data m) = map (level sha1 A) [0..<Suc h]"
      "buildTreeLevels sha1 ks (mk_data m') = map (level sha1 B) [0..<Suc h]"
      using False by (simp_all add: buildTreeLevels_levels A_def B_def h_def ks_def del: upt_Suc)
    ultimately have "Diff sha1 m m' = map (\<lambda>j. ks ! j)
        (descendDiff (map (level sha1 A) [0..<Suc h]) (map (level sha1 B) [0..<Suc h]) h 0 [] (length A))"
      using neq assms(3) len by (simp add: Diff_def Let_def ks_def [symmetric] del: upt_Suc)
    also have "\<dots> = map (\<lambda>j. ks ! j) (filter (\<lambda>j. A ! j \<noteq> B ! j) [0..<min (2 ^ h) (length ks)])"
      using descendDiff_spec [of A B sha1 ?S h h 0 "[]"] len inj sub by (simp del: upt_Suc)
    finally show ?thesis using n filter by (simp add: min_absorb2 ks_def)
  qed
qed

text \<open>
  C26. \<^verbatim>\<open>Diff\<close> is exact on trees with the same keys: if SHA-1 does not collide on the strings the
  two trees hash, the descent with pruned subtrees (and the shortcut on equal roots) returns
  exactly the keys whose values differ, in order.
\<close>

theorem merkle_Diff_exact:
  assumes "merkle_inv sha1 m" "merkle_inv sha1 m'" "mk_keys m = mk_keys m'"
    and "inj_on sha1 (merkle_inputs sha1 m \<union> merkle_inputs sha1 m')"
  shows "Diff sha1 m m' = filter (\<lambda>k. map_of (mk_data m) k \<noteq> map_of (mk_data m') k) (mk_keys m)"
  using assms by (rule Diff_same_keys)

definition sum_hash :: sha1_fn where
  "sum_hash bs = word_of_int (SetBytes bs mod (2 ^ 160 - 1))"

lemma sum_hash_leaf [simp]: "leafHash sum_hash k [b] = word_of_int ((uint k * 256 + uint b) mod (2 ^ 160 - 1))"
  using IDToBigInt_uint [of k] unfolding IDToBigInt_def by (simp add: leafHash_def sum_hash_def)

theorem merkle_Diff_exact_witness:
  "Diff sum_hash (Update sum_hash 2 [1] (Update sum_hash 1 [1] NewMerkleTree))
     (Update sum_hash 2 [2] (Update sum_hash 1 [1] NewMerkleTree)) = [2]"
proof -
  let ?m = "Update sum_hash 2 [1] (Update sum_hash 1 [1] NewMerkleTree)"
  let ?n = "Update sum_hash 2 [2] (Update sum_hash 1 [1] NewMerkleTree)"
  have keys: "mk_keys ?m = [1, 2]" "mk_keys ?n = [1, 2]"
    by (simp_all add: Update_def Let_def NewMerkleTree_def sort_compareIDs)
  have data: "mk_data ?m = [(1, [1]), (2, [1])]" "mk_data ?n = [(1, [1]), (2, [2])]"
    by (simp_all add: Update_def Let_def NewMerkleTree_def gm_put_def)
  have h: "height 2 = 1" by (simp add: height.simps [of 2] height.simps [of "Suc 0"])
  have inputs: "merkle_inputs sum_hash ?m = {id_bytes 1 @ [1], id_bytes 2 @ [1], id_bytes 257 @ id_bytes 513}"
    "merkle_inputs sum_hash ?n = {id_bytes 1 @ [1], id_bytes 2 @ [2], id_bytes 257 @ id_bytes 514}"
    by (simp_all add: merkle_inputs_def keys data h data_get_def level_inputs_def merkle_leaves_def lessThan_Suc
        numeral_2_eq_2 [symmetric] insert_commute)
  have sb: "SetBytes (id_bytes a) = uint a" for a by (metis IDToBigInt_def IDToBigInt_uint)
  have "inj_on sum_hash (merkle_inputs sum_hash ?m \<union> merkle_inputs sum_hash ?n)"
    by (simp add: inputs inj_on_def sum_hash_def SetBytes_append SetBytes_Cons sb)
  with merkle_Diff_exact [of sum_hash ?m ?n] keys have
    "Diff sum_hash ?m ?n = filter (\<lambda>k. map_of (mk_data ?m) k \<noteq> map_of (mk_data ?n) k) [1, 2]" by simp
  then show ?thesis by (simp add: data)
qed

section \<open>Diff on any two trees\<close>

lemma descendDiff_sound:
  "j \<in> set (descendDiff LA LB l i res n) \<Longrightarrow> j \<in> set res \<or> (j < n \<and> LA ! 0 ! j \<noteq> LB ! 0 ! j)"
proof (induction LA LB l i res n rule: descendDiff.induct)
  case (1 LA LB l i res n)
  show ?case
  proof (cases "length (LA ! l) \<le> i \<or> length (LB ! l) \<le> i \<or> LA ! l ! i = LB ! l ! i")
    case True
    then have "descendDiff LA LB l i res n = res" by (subst descendDiff.simps) auto
    with "1.prems" show ?thesis by simp
  next
    case False
    show ?thesis
    proof (cases l)
      case 0
      with False have "descendDiff LA LB l i res n = (if i < n then res @ [i] else res)"
        by (subst descendDiff.simps) simp
      with 0 False "1.prems" show ?thesis by (auto split: if_splits)
    next
      case (Suc l')
      with False have "descendDiff LA LB l i res n =
          descendDiff LA LB l' (i * 2 + 1) (descendDiff LA LB l' (i * 2) res n) n"
        by (subst descendDiff.simps) simp
      with "1.IH" [OF _ _ Suc] "1.prems" False show ?thesis by auto
    qed
  qed
qed

lemma data_get_differ: "data_get d k \<noteq> data_get d' k \<Longrightarrow> map_of d k \<noteq> map_of d' k"
  by (auto simp: data_get_def)

lemma keySet_loop: "gm_wf s \<Longrightarrow> gm_wf (fold (\<lambda>k s. gm_put k () s) ks s) \<and>
    fst ` set (fold (\<lambda>k s. gm_put k () s) ks s) = fst ` set s \<union> set ks"
  by (induction ks arbitrary: s) (auto simp: gm_put_def dom_update gm_wf_def distinct_update)

text \<open>The linear scan, whatever the order in which the set of keys is visited.\<close>

lemma Diff_scan:
  assumes "mk_keys m \<noteq> mk_keys m'" "mk_root m \<noteq> mk_root m'"
  shows "set (Diff sha1 m m') = {k \<in> set (mk_keys m) \<union> set (mk_keys m').
      leafHash sha1 k (data_get (mk_data m) k) \<noteq> leafHash sha1 k (data_get (mk_data m') k)}"
    and "sorted (Diff sha1 m m')" and "distinct (Diff sha1 m m')"
proof -
  let ?ks = "fold (\<lambda>k s. gm_put k () s) (mk_keys m @ mk_keys m') []"
  let ?P = "\<lambda>k. leafHash sha1 k (data_get (mk_data m) k) \<noteq> leafHash sha1 k (data_get (mk_data m') k)"
  have loop: "fold (\<lambda>(k, _) diff. if P k then diff @ [k] else diff) xs acc = acc @ filter P (map fst xs)"
    for P acc and xs :: "(ID, unit) gomap"
    by (induction xs arbitrary: acc) auto
  have ne: "\<not> (length (mk_keys m) = length (mk_keys m') \<and> keysEqual m m')"
    using assms(1) nth_equalityI [of "mk_keys m" "mk_keys m'"] unfolding keysEqual_def list_all_iff by fastforce
  have eq: "Diff sha1 m m' = sort (filter ?P (map fst ?ks))"
    unfolding Diff_def Let_def loop sort_compareIDs if_not_P [OF assms(2)] if_not_P [OF ne] by (simp only: append_Nil)
  have ks: "gm_wf ?ks" "fst ` set ?ks = set (mk_keys m) \<union> set (mk_keys m')"
    using keySet_loop [of "[]" "mk_keys m @ mk_keys m'"] by simp_all
  show "set (Diff sha1 m m') = {k \<in> set (mk_keys m) \<union> set (mk_keys m'). ?P k}"
    unfolding eq set_sort set_filter set_map ks(2) ..
  show "sorted (Diff sha1 m m')" by (simp add: eq)
  show "distinct (Diff sha1 m m')" using ks(1) unfolding eq gm_wf_def by simp
qed

lemma Diff_descent_sound:
  assumes "mk_keys m = mk_keys m'" "k \<in> set (Diff sha1 m m')"
  shows "leafHash sha1 k (data_get (mk_data m) k) \<noteq> leafHash sha1 k (data_get (mk_data m') k)"
proof -
  let ?ks = "mk_keys m"
  let ?L = "\<lambda>d. buildTreeLevels sha1 ?ks d"
  have ne: "?ks \<noteq> []" and root: "mk_root m \<noteq> mk_root m'" and eq: "keysEqual m m'"
    using assms by (auto simp: Diff_def Let_def buildTreeLevels_def keysEqual_def list_all_iff split: if_splits)
  have lv: "?L d ! 0 = merkle_leaves sha1 ?ks d" "?L d \<noteq> []" for d
    using ne by (simp_all add: buildTreeLevels_levels upt_conv_Cons del: upt_Suc)
  obtain j where j: "k = ?ks ! j"
    "j \<in> set (descendDiff (?L (mk_data m)) (?L (mk_data m')) (length (?L (mk_data m)) - 1) 0 [] (length ?ks))"
    using assms root eq lv(2) by (auto simp: Diff_def Let_def split: if_splits)
  from descendDiff_sound [OF j(2)] have "j < length ?ks"
    "merkle_leaves sha1 ?ks (mk_data m) ! j \<noteq> merkle_leaves sha1 ?ks (mk_data m') ! j"
    by (auto simp: lv)
  with j(1) show ?thesis by (simp add: merkle_leaves_def)
qed

text \<open>
  \<^verbatim>\<open>Diff\<close> never reports a key on which two trees agree, for every hash function. When the
  key sets and the roots differ and SHA-1 does not collide on the leaves, it returns in order
  exactly the keys whose values differ, reading an absent key as the empty value.
\<close>

theorem merkle_Diff_any_trees:
  "(\<forall>k \<in> set (Diff sha1 m m'). map_of (mk_data m) k \<noteq> map_of (mk_data m') k) \<and>
   (mk_keys m \<noteq> mk_keys m' \<and> Root m \<noteq> Root m' \<and>
    inj_on sha1 ((\<lambda>k. id_bytes k @ data_get (mk_data m) k) ` (set (mk_keys m) \<union> set (mk_keys m')) \<union>
                 (\<lambda>k. id_bytes k @ data_get (mk_data m') k) ` (set (mk_keys m) \<union> set (mk_keys m'))) \<longrightarrow>
    sorted (Diff sha1 m m') \<and> distinct (Diff sha1 m m') \<and>
    set (Diff sha1 m m') = {k \<in> set (mk_keys m) \<union> set (mk_keys m'). data_get (mk_data m) k \<noteq> data_get (mk_data m') k})"
  (is "_ \<and> (?ne \<and> ?root \<and> inj_on sha1 ?S \<longrightarrow> _)")
proof (intro conjI ballI impI)
  fix k assume k: "k \<in> set (Diff sha1 m m')"
  have "leafHash sha1 k (data_get (mk_data m) k) \<noteq> leafHash sha1 k (data_get (mk_data m') k)"
  proof (cases "mk_keys m = mk_keys m'")
    case True
    then show ?thesis using k by (rule Diff_descent_sound)
  next
    case False
    moreover have "mk_root m \<noteq> mk_root m'" using k by (auto simp: Diff_def)
    ultimately show ?thesis using k Diff_scan(1) by blast
  qed
  then show "map_of (mk_data m) k \<noteq> map_of (mk_data m') k" by (intro data_get_differ) auto
next
  assume a: "?ne \<and> ?root \<and> inj_on sha1 ?S"
  then have "leafHash sha1 k (data_get (mk_data m) k) \<noteq> leafHash sha1 k (data_get (mk_data m') k) \<longleftrightarrow>
      data_get (mk_data m) k \<noteq> data_get (mk_data m') k" if "k \<in> set (mk_keys m) \<union> set (mk_keys m')" for k
    using inj_on_eq_iff [of sha1 ?S "id_bytes k @ data_get (mk_data m) k" "id_bytes k @ data_get (mk_data m') k"] that
    by (auto simp: leafHash_def)
  then show "set (Diff sha1 m m') = {k \<in> set (mk_keys m) \<union> set (mk_keys m'). data_get (mk_data m) k \<noteq> data_get (mk_data m') k}"
    using a Diff_scan(1) [of m m' sha1] by (auto simp: Root_def)
  show "sorted (Diff sha1 m m')" "distinct (Diff sha1 m m')"
    using a Diff_scan(2,3) [of m m' sha1] by (auto simp: Root_def)
qed

theorem merkle_Diff_any_trees_witness:
  "Diff sum_hash (Update sum_hash 2 [1] (Update sum_hash 1 [1] NewMerkleTree)) (Update sum_hash 1 [1] NewMerkleTree) = [2]"
proof -
  let ?m = "Update sum_hash 2 [1] (Update sum_hash 1 [1] NewMerkleTree)"
  let ?n = "Update sum_hash 1 [1] NewMerkleTree"
  have keys: "mk_keys ?m = [1, 2]" "mk_keys ?n = [1]"
    by (simp_all add: Update_def Let_def NewMerkleTree_def sort_compareIDs)
  have data: "mk_data ?m = [(1, [1]), (2, [1])]" "mk_data ?n = [(1, [1])]"
    by (simp_all add: Update_def Let_def NewMerkleTree_def gm_put_def)
  have sb: "SetBytes (id_bytes a) = uint a" for a by (metis IDToBigInt_def IDToBigInt_uint)
  have h: "height 2 = 1" "height (Suc 0) = 0" by (simp_all add: height.simps [of 2] height.simps [of "Suc 0"])
  have "merkle_inv sum_hash ?m" "merkle_inv sum_hash ?n" by simp_all
  then have "Root ?m = 770" "Root ?n = 257"
    by (simp_all add: merkle_inv_def Root_def buildRoot_level keys data h merkle_leaves_def data_get_def
        merkle_parents_def pad_even_def internalHash_def sum_hash_def SetBytes_append sb numeral_2_eq_2 [symmetric])
  moreover have "inj_on sum_hash ((\<lambda>k. id_bytes k @ data_get (mk_data ?m) k) ` (set (mk_keys ?m) \<union> set (mk_keys ?n)) \<union>
      (\<lambda>k. id_bytes k @ data_get (mk_data ?n) k) ` (set (mk_keys ?m) \<union> set (mk_keys ?n)))"
    by (simp add: keys data data_get_def inj_on_def sum_hash_def SetBytes_append SetBytes_Cons sb)
  ultimately have "sorted (Diff sum_hash ?m ?n) \<and> distinct (Diff sum_hash ?m ?n) \<and> set (Diff sum_hash ?m ?n) = {2}"
    using merkle_Diff_any_trees [of sum_hash ?m ?n] by (auto simp: keys data data_get_def)
  then show ?thesis by (metis sorted_distinct_set_unique sorted1 distinct_singleton list.simps(15) empty_set)
qed

text \<open>
  What \<^verbatim>\<open>Diff\<close> cannot see, for every hash function. Leaf and inner hashes share one input
  space, so a one-leaf tree can be built whose root equals that of any two-leaf tree without
  a hash collision, and \<^verbatim>\<open>Diff\<close> reports no difference; and a key that one tree holds with the
  empty value and the other lacks is not reported.
\<close>

theorem merkle_Diff_blind_spots:
  assumes "k1 < k2"
  shows "Root (Update sha1 k2 v2 (Update sha1 k1 v1 NewMerkleTree)) =
      Root (Update sha1 (leafHash sha1 k1 v1) (id_bytes (leafHash sha1 k2 v2)) NewMerkleTree) \<and>
    Diff sha1 (Update sha1 k2 v2 (Update sha1 k1 v1 NewMerkleTree))
      (Update sha1 (leafHash sha1 k1 v1) (id_bytes (leafHash sha1 k2 v2)) NewMerkleTree) = [] \<and>
    Len (Update sha1 k2 v2 (Update sha1 k1 v1 NewMerkleTree)) = 2 \<and>
    Diff sha1 (Update sha1 k1 [] NewMerkleTree) NewMerkleTree = []"
proof -
  let ?m = "Update sha1 k2 v2 (Update sha1 k1 v1 NewMerkleTree)"
  let ?n = "Update sha1 (leafHash sha1 k1 v1) (id_bytes (leafHash sha1 k2 v2)) NewMerkleTree"
  let ?e = "Update sha1 k1 [] NewMerkleTree"
  have keys: "mk_keys ?m = [k1, k2]" "mk_keys ?n = [leafHash sha1 k1 v1]" "mk_keys ?e = [k1]"
    using assms by (auto simp: Update_def Let_def NewMerkleTree_def sort_compareIDs)
  have data: "mk_data ?m = [(k1, v1), (k2, v2)]" "mk_data ?n = [(leafHash sha1 k1 v1, id_bytes (leafHash sha1 k2 v2))]"
      "mk_data ?e = [(k1, [])]"
    using assms by (auto simp: Update_def Let_def NewMerkleTree_def gm_put_def)
  have h: "height 2 = 1" "height (Suc 0) = 0" by (simp_all add: height.simps [of 2] height.simps [of "Suc 0"])
  have "merkle_inv sha1 ?m" "merkle_inv sha1 ?n" by simp_all
  then have "Root ?m = internalHash sha1 (leafHash sha1 k1 v1) (leafHash sha1 k2 v2)"
    "Root ?n = leafHash sha1 (leafHash sha1 k1 v1) (id_bytes (leafHash sha1 k2 v2))"
    using assms by (auto simp: merkle_inv_def Root_def buildRoot_level keys data h merkle_leaves_def data_get_def
        merkle_parents_def pad_even_def numeral_2_eq_2 [symmetric])
  then have root: "Root ?m = Root ?n" by (simp add: internalHash_def leafHash_def [of _ "leafHash sha1 k1 v1"])
  have "Diff sha1 ?e NewMerkleTree = []"
  proof (cases "mk_root ?e = mk_root NewMerkleTree")
    case False
    have "mk_keys ?e \<noteq> mk_keys NewMerkleTree" unfolding keys by (simp add: NewMerkleTree_def)
    from Diff_scan(1) [OF this False, of sha1] have "set (Diff sha1 ?e NewMerkleTree) = {}"
      unfolding keys data by (auto simp: NewMerkleTree_def data_get_def)
    then show ?thesis by simp
  qed (simp add: Diff_def)
  with root keys show ?thesis by (simp add: Diff_def Root_def Len_def)
qed

theorem merkle_Diff_blind_spots_witness:
  "Root (Update sum_hash 2 [2] (Update sum_hash 1 [1] NewMerkleTree)) =
   Root (Update sum_hash (leafHash sum_hash 1 [1]) (id_bytes (leafHash sum_hash 2 [2])) NewMerkleTree)"
  using merkle_Diff_blind_spots [of 1 2 sum_hash "[2]" "[1]"] by simp

text \<open>
  The two orders on identifiers agree: the byte-by-byte comparison of the Merkle tree and the
  comparison of big integers on the ring give the same result on all identifiers.
\<close>

theorem compareIDs_equals_Compare: "compareIDs a b = Compare a b \<and> (compareIDs a b = 0 \<longleftrightarrow> a = b)"
  by (auto simp: compareIDs_Compare Compare_def big_Cmp_def word_uint_eq_iff)

end
