(* ===== verification/Anti_Entropy.thy ===== *)
theory Anti_Entropy
  imports KV_Store Merkle_Tree
begin

text \<open>
  The anti-entropy engine of a node, \<^verbatim>\<open>internal/gossip/gossip.go\<close>: its state and the operations
  that do not call other nodes. The engine shares the key-value store of its node, so the
  store is an argument; the exchange with a peer is in theory Gossip. SHA-1 is an argument.
\<close>

record GossipConfig =
  gc_Interval :: duration
  gc_PeersPerRound :: int

definition Gossip_DefaultConfig :: GossipConfig where
  "Gossip_DefaultConfig = \<lparr>gc_Interval = 5 * 10 ^ 9, gc_PeersPerRound = 2\<rparr>"

record AntiEntropy =
  ae_localAddr :: string
  ae_cfg :: GossipConfig
  ae_localMerkle :: MerkleTree
  ae_stopped :: bool

text \<open>The tree over the entries of a store: the loop of \<^verbatim>\<open>New\<close> and of \<^verbatim>\<open>rebuildMerkleFromStore\<close>.\<close>

definition merkle_of :: "sha1_fn \<Rightarrow> ValueEntry list \<Rightarrow> MerkleTree" where
  "merkle_of sha1 entries = fold (\<lambda>e m. Update sha1 (Key e) (Value e) m) entries NewMerkleTree"

definition NewAntiEntropy :: "sha1_fn \<Rightarrow> time \<Rightarrow> string \<Rightarrow> KVStore \<Rightarrow> GossipConfig option \<Rightarrow> AntiEntropy" where
  "NewAntiEntropy sha1 now localAddr localStore cfg =
     (let cfg = (case cfg of None \<Rightarrow> Gossip_DefaultConfig | Some c \<Rightarrow> c)
      in \<lparr>ae_localAddr = localAddr, ae_cfg = cfg, ae_localMerkle = merkle_of sha1 (All now localStore), ae_stopped = False\<rparr>)"

definition AntiEntropy_Stop :: "AntiEntropy \<Rightarrow> AntiEntropy" where
  "AntiEntropy_Stop ae = ae\<lparr>ae_stopped := True\<rparr>"

definition NotifyPut :: "sha1_fn \<Rightarrow> ID \<Rightarrow> byte list \<Rightarrow> AntiEntropy \<Rightarrow> AntiEntropy" where
  "NotifyPut sha1 key value ae = ae\<lparr>ae_localMerkle := Update sha1 key value (ae_localMerkle ae)\<rparr>"

definition NotifyDelete :: "sha1_fn \<Rightarrow> ID \<Rightarrow> AntiEntropy \<Rightarrow> AntiEntropy" where
  "NotifyDelete sha1 key ae = ae\<lparr>ae_localMerkle := MerkleTree_Delete sha1 key (ae_localMerkle ae)\<rparr>"

definition rebuildMerkleFromStore :: "sha1_fn \<Rightarrow> time \<Rightarrow> KVStore \<Rightarrow> AntiEntropy \<Rightarrow> AntiEntropy" where
  "rebuildMerkleFromStore sha1 now localStore ae = ae\<lparr>ae_localMerkle := merkle_of sha1 (All now localStore)\<rparr>"

text \<open>The entries are compared by reference afterwards, so the result is one of two references.\<close>

definition pickWinner :: "('p \<Rightarrow> ValueEntry) \<Rightarrow> 'p \<Rightarrow> 'p \<Rightarrow> 'p" where
  "pickWinner deref a b = (if time_After (Timestamp (deref b)) (Timestamp (deref a)) then b else a)"

section \<open>The tree of a store\<close>

lemma merkle_of_inv [simp]: "merkle_inv sha1 (merkle_of sha1 es)"
proof -
  have "merkle_inv sha1 (fold (\<lambda>e m. Update sha1 (Key e) (Value e) m) es t)" if "merkle_inv sha1 t" for t
    using that by (induction es arbitrary: t) simp_all
  then show ?thesis by (simp add: merkle_of_def)
qed

lemma merkle_of_data: "map_of (mk_data (merkle_of sha1 es)) k = map_option Value (map_of (rev (map (\<lambda>e. (Key e, e)) es)) k)"
proof -
  have "merkle_of sha1 es = fold (\<lambda>(k, v). Update sha1 k v) (map (\<lambda>e. (Key e, Value e)) es) NewMerkleTree"
    by (simp add: merkle_of_def fold_map comp_def)
  then have "map_of (mk_data (merkle_of sha1 es)) = map_of (rev (map (\<lambda>e. (Key e, Value e)) es))"
    using mk.get_puts [OF merkle_inv_New, of sha1 "map (\<lambda>e. (Key e, Value e)) es"] by (simp add: NewMerkleTree_def comp_def)
  moreover have "rev (map (\<lambda>e. (Key e, Value e)) es) = map (\<lambda>(k, e). (k, Value e)) (rev (map (\<lambda>e. (Key e, e)) es))"
    by (simp add: rev_map comp_def)
  ultimately show ?thesis by (simp only: map_of_map o_def)
qed

text \<open>The tree built from a store holds the values of its unexpired entries.\<close>

lemma merkle_of_store: "kv_inv s \<Longrightarrow> map_of (mk_data (merkle_of sha1 (All now s))) k = map_option Value (Get now s k)"
  by (simp add: merkle_of_data map_of_All)

end
