(* ===== verification/Kademlia.thy ===== *)
theory Kademlia
  imports Kad_Routing Transport Event_Bus Anti_Entropy
begin

text \<open>
  The Kademlia protocol, \<^verbatim>\<open>internal/kademlia\<close>, over the in-process transport. As for Chord the
  state is a network of nodes by reference, the transport, the events and the wall clock. The
  event bus is always present.

  A bucket is locked while \<^verbatim>\<open>UpdateContact\<close> pings its oldest contact, and the ping is a call
  into the other node, which updates its own table in turn. \<open>held\<close> are the locks of the calls
  in progress: a call that needs one of them never returns, which is the fault \<open>Deadlock\<close>; an
  index out of range is the fault \<open>Panic\<close>. Calls made by the goroutines of one lookup round take
  effect one after the other, in an order given by the argument \<open>sched\<close>.
\<close>

record KadConfig =
  kc_K :: int
  kc_Alpha :: int
  kc_AlphaTimeout :: duration
  kc_RepublishInterval :: duration
  kc_ExpireTTL :: duration
  kc_BucketRefreshInterval :: duration
  kc_PingTimeout :: duration

definition Kad_DefaultConfig :: KadConfig where
  "Kad_DefaultConfig = \<lparr>kc_K = 20, kc_Alpha = 3, kc_AlphaTimeout = 500 * 10 ^ 6, kc_RepublishInterval = 24 * 10 ^ 9,
     kc_ExpireTTL = 25 * 10 ^ 9, kc_BucketRefreshInterval = 60 * 10 ^ 9, kc_PingTimeout = 300 * 10 ^ 6\<rparr>"

record KademliaNode =
  kn_ID :: ID
  kn_Addr :: string
  kn_RoutingTable :: RoutingTable
  kn_KVStore :: KVStore
  kn_Config :: KadConfig
  kn_stopped :: bool
  kn_antiEntropy :: "AntiEntropy option"

record KadNet =
  kad_node :: "string \<Rightarrow> KademliaNode"
  kad_transport :: "string InProcessTransport"
  kad_events :: "Event list"
  kad_now :: time

definition kad_upd :: "string \<Rightarrow> (KademliaNode \<Rightarrow> KademliaNode) \<Rightarrow> KadNet \<Rightarrow> KadNet" where
  "kad_upd a f net = net\<lparr>kad_node := (kad_node net)(a := f (kad_node net a))\<rparr>"

definition kad_emit :: "EventType \<Rightarrow> Payload \<Rightarrow> KadNet \<Rightarrow> KadNet" where
  "kad_emit t p net = net\<lparr>kad_events := kad_events net @ [MakeEvent (kad_now net) t p]\<rparr>"

definition kad_rpc :: "ctx \<Rightarrow> NodeRef \<Rightarrow> KadNet \<Rightarrow> KadNet \<times> (TransportError + string)" where
  "kad_rpc ctx target net =
     (let (t, r) = lookupForContext ctx (nr_Addr target) (kad_transport net)
      in (net\<lparr>kad_transport := t\<rparr>, r))"

definition kad_rpc_from :: "NodeRef \<Rightarrow> NodeRef \<Rightarrow> KadNet \<Rightarrow> KadNet \<times> (TransportError + string)" where
  "kad_rpc_from sender target net =
     (let (t, r) = lookupFrom (nr_Addr sender) (nr_Addr target) (kad_transport net)
      in (net\<lparr>kad_transport := t\<rparr>, r))"

text \<open>A loop whose body may end in a fault.\<close>

fun foldM :: "('x \<Rightarrow> 's \<Rightarrow> fault + 's) \<Rightarrow> 'x list \<Rightarrow> 's \<Rightarrow> fault + 's" where
  "foldM f [] s = Inr s"
| "foldM f (x # xs) s = (case f x s of Inl e \<Rightarrow> Inl e | Inr s \<Rightarrow> foldM f xs s)"

section \<open>Nodes (node.go)\<close>

definition NewKademliaNode :: "sha1_fn \<Rightarrow> string \<Rightarrow> KadConfig option \<Rightarrow> KademliaNode" where
  "NewKademliaNode sha1 addr cfg =
     (let cfg = (case cfg of None \<Rightarrow> Kad_DefaultConfig | Some c \<Rightarrow> c);
          i = NodeIDFromAddr sha1 addr
      in \<lparr>kn_ID = i, kn_Addr = addr, kn_RoutingTable = NewRoutingTable i (kc_K cfg), kn_KVStore = NewKVStore,
          kn_Config = cfg, kn_stopped = False, kn_antiEntropy = None\<rparr>)"

definition Kad_Ref :: "KademliaNode \<Rightarrow> NodeRef" where
  "Kad_Ref n = \<lparr>nr_ID = kn_ID n, nr_Addr = kn_Addr n\<rparr>"

definition Kad_Stop :: "KademliaNode \<Rightarrow> KademliaNode" where
  "Kad_Stop n = n\<lparr>kn_antiEntropy := map_option AntiEntropy_Stop (kn_antiEntropy n), kn_stopped := True\<rparr>"

definition SetAntiEntropy :: "AntiEntropy \<Rightarrow> KademliaNode \<Rightarrow> KademliaNode" where
  "SetAntiEntropy ae n = n\<lparr>kn_antiEntropy := Some ae\<rparr>"

definition contact_ref :: "Contact \<Rightarrow> NodeRef" where
  "contact_ref c = \<lparr>nr_ID = c_ID c, nr_Addr = c_Addr c\<rparr>"

definition sender_contact :: "time \<Rightarrow> NodeRef \<Rightarrow> Contact" where
  "sender_contact now sender = \<lparr>c_ID = nr_ID sender, c_Addr = nr_Addr sender, c_LastSeen = now\<rparr>"

definition set_bucket :: "string \<Rightarrow> nat \<Rightarrow> KBucket \<Rightarrow> KadNet \<Rightarrow> KadNet" where
  "set_bucket a i b net = kad_upd a (\<lambda>n. n\<lparr>kn_RoutingTable := (kn_RoutingTable n)
     \<lparr>rt_Buckets := (rt_Buckets (kn_RoutingTable n))[i := b]\<rparr>\<rparr>) net"

lemma KBucket_UpdateContact_cong [fundef_cong]:
  assumes "now = now'" "c = c'" "b = b'" "s = s'" "\<And>old rest. kb_entries b' = old # rest \<Longrightarrow> f old s' = g old s'"
  shows "KBucket_UpdateContact now c (Some f) b s = KBucket_UpdateContact now' c' (Some g) b' s'"
  using assms by (auto simp: KBucket_UpdateContact_def split: option.split list.split)

lemma lookupFrom_registry:
  assumes "lookupFrom f a t = (t', r)"
  shows "it_registry t' = it_registry t" and "r = Inr h \<Longrightarrow> h \<in> snd ` set (it_registry t)"
proof -
  have "t' = t\<lparr>it_pos := it_pos t'\<rparr>" using lookupFrom_same_net [OF assms] by (simp add: same_net_def)
  then show "it_registry t' = it_registry t" by (metis InProcessTransport.select_convs(1) InProcessTransport.surjective InProcessTransport.update_convs(7))
  show "h \<in> snd ` set (it_registry t)" if "r = Inr h"
    using lookupFrom_Inr [of f a t t' h] assms that by (force dest: map_of_SomeD)
qed

text \<open>
  \<^verbatim>\<open>updateRoutingTable\<close> with the ping of the oldest contact and what that contact's handler
  \<^verbatim>\<open>HandleKPing\<close> does. Each nested call holds one more lock, and there are 160 locks per
  registered node, so the recursion ends.
\<close>

function updateRoutingTable :: "(string \<times> nat) list \<Rightarrow> string \<Rightarrow> Contact \<Rightarrow> KadNet \<Rightarrow> fault + KadNet" where
  "updateRoutingTable held a c net =
     (let n = kad_node net a;
          idx = BucketIndex (rt_Self (kn_RoutingTable n)) (c_ID c)
      in if idx < 0 then Inr net
         else if (a, nat idx) \<in> set held then Inl Deadlock
         else
           (case KBucket_UpdateContact (kad_now net) c
                   (Some (\<lambda>contact net.
                      case kad_rpc_from (Kad_Ref n) (contact_ref contact) net of
                        (net, Inl e) \<Rightarrow> Inr (net, False)
                      | (net, Inr h) \<Rightarrow>
                          if kn_Addr n = [] then Inr (net, True)
                          else (case updateRoutingTable ((a, nat idx) # held) h (sender_contact (kad_now net) (Kad_Ref n)) net of
                                  Inl e \<Rightarrow> Inl e
                                | Inr net \<Rightarrow> Inr (net, True))))
                   (rt_Buckets (kn_RoutingTable n) ! nat idx) net of
              Inl e \<Rightarrow> Inl e
            | Inr (net, b, updated) \<Rightarrow>
                let net = set_bucket a (nat idx) b net
                in Inr (if updated
                        then kad_emit EventBucketUpdate (BucketUpdatePayload (IDToHex (kn_ID n)) idx (IDToHex (c_ID c)) (c_Addr c)) net
                        else net)))"
  by pat_completeness auto

termination
proof (relation "measure (\<lambda>(held, a, c, net).
    let R = snd ` set (it_registry (kad_transport net))
    in 2 * card (R \<times> {0..<160} - set held) + (if a \<in> R then 0 else 1))", goal_cases)
  case (2 held a c net n idx old rest net1 y h)
  let ?R = "snd ` set (it_registry (kad_transport net))"
  have "lookupFrom (nr_Addr (Kad_Ref n)) (nr_Addr (contact_ref old)) (kad_transport net) = (kad_transport net1, Inr h)"
    using 2(6,7) by (auto simp: kad_rpc_from_def Let_def split: prod.splits)
  from lookupFrom_registry [OF this] have reg: "it_registry (kad_transport net1) = it_registry (kad_transport net)" "h \<in> ?R" by auto
  let ?U = "?R \<times> {0..<160::nat}"
  have idx: "nat idx < 160" using 2(2) BucketIndex_range(2) [of "rt_Self (kn_RoutingTable n)" "c_ID c"] by simp
  have fin: "finite (?U - set held)" by (intro finite_Diff finite_cartesian_product finite_imageI finite_set finite_atLeastLessThan)
  have eq: "?U - set ((a, nat idx) # held) = (?U - set held) - {(a, nat idx)}" unfolding list.set by blast
  have "card (?U - set ((a, nat idx) # held)) < card (?U - set held)" if "a \<in> ?R"
    unfolding eq by (rule card_Diff1_less [OF fin]) (simp only: Diff_iff mem_Times_iff fst_conv snd_conv that atLeastLessThan_iff le0 idx 2(4) simp_thms)
  moreover have "card (?U - set ((a, nat idx) # held)) \<le> card (?U - set held)" unfolding eq by (rule card_Diff1_le)
  ultimately show ?case unfolding in_measure prod.case Let_def reg(1) using reg(2) by (simp del: list.set)
qed simp

declare updateRoutingTable.simps [simp del]

text \<open>The start of the Kademlia handlers: the sender, if it gives an address, enters the table.\<close>

definition note_sender :: "string \<Rightarrow> NodeRef \<Rightarrow> KadNet \<Rightarrow> fault + KadNet" where
  "note_sender a sender net =
     (if nr_Addr sender \<noteq> [] then updateRoutingTable [] a (sender_contact (kad_now net) sender) net else Inr net)"

section \<open>RPC handlers (rpc\_handler.go) and the calls that reach them\<close>

definition HandleKPing :: "string \<Rightarrow> NodeRef \<Rightarrow> KadNet \<Rightarrow> fault + KadNet" where
  "HandleKPing a sender net = note_sender a sender net"

definition put_local :: "sha1_fn \<Rightarrow> string \<Rightarrow> ValueEntry \<Rightarrow> KadNet \<Rightarrow> KadNet" where
  "put_local sha1 a entry net = kad_upd a (\<lambda>n. n\<lparr>kn_KVStore := Put entry (kn_KVStore n),
     kn_antiEntropy := map_option (NotifyPut sha1 (Key entry) (Value entry)) (kn_antiEntropy n)\<rparr>) net"

definition HandleKStore :: "sha1_fn \<Rightarrow> string \<Rightarrow> NodeRef \<Rightarrow> ValueEntry \<Rightarrow> KadNet \<Rightarrow> fault + KadNet" where
  "HandleKStore sha1 a sender entry net =
     (case note_sender a sender net of
        Inl e \<Rightarrow> Inl e
      | Inr net \<Rightarrow> Inr (put_local sha1 a entry net))"

definition HandleFindNode :: "string \<Rightarrow> NodeRef \<Rightarrow> ID \<Rightarrow> KadNet \<Rightarrow> fault + KadNet \<times> NodeRef list" where
  "HandleFindNode a sender ident net =
     (case note_sender a sender net of
        Inl e \<Rightarrow> Inl e
      | Inr net \<Rightarrow>
          (case KClosest (kn_RoutingTable (kad_node net a)) ident (kc_K (kn_Config (kad_node net a))) of
             Inl e \<Rightarrow> Inl e
           | Inr contacts \<Rightarrow> Inr (net, map contact_ref contacts)))"

datatype FindValueResult = FoundEntry ValueEntry | FoundContacts "NodeRef list"

definition HandleFindValue :: "string \<Rightarrow> NodeRef \<Rightarrow> ID \<Rightarrow> KadNet \<Rightarrow> fault + KadNet \<times> FindValueResult" where
  "HandleFindValue a sender key net =
     (case note_sender a sender net of
        Inl e \<Rightarrow> Inl e
      | Inr net \<Rightarrow>
          (case Get (kad_now net) (kn_KVStore (kad_node net a)) key of
             Some entry \<Rightarrow> Inr (net, FoundEntry entry)
           | None \<Rightarrow>
               (case KClosest (kn_RoutingTable (kad_node net a)) key (kc_K (kn_Config (kad_node net a))) of
                  Inl e \<Rightarrow> Inl e
                | Inr contacts \<Rightarrow> Inr (net, FoundContacts (map contact_ref contacts)))))"

datatype kad_error = KTransport TransportError | KKeyNotFound ID | KNoChord

definition Kad_HandlePing :: "string \<Rightarrow> KadNet \<Rightarrow> unit" where
  "Kad_HandlePing a net = ()"

definition Kad_HandleGetEntry :: "string \<Rightarrow> ID \<Rightarrow> KadNet \<Rightarrow> kad_error + ValueEntry" where
  "Kad_HandleGetEntry a key net =
     (case Get (kad_now net) (kn_KVStore (kad_node net a)) key of
        None \<Rightarrow> Inl (KKeyNotFound key)
      | Some e \<Rightarrow> Inr e)"

definition Kad_HandlePutEntry :: "sha1_fn \<Rightarrow> string \<Rightarrow> ID \<Rightarrow> ValueEntry \<Rightarrow> KadNet \<Rightarrow> KadNet" where
  "Kad_HandlePutEntry sha1 a key entry net = put_local sha1 a entry net"

definition Kad_HandleGetAllEntries :: "string \<Rightarrow> KadNet \<Rightarrow> ValueEntry list" where
  "Kad_HandleGetAllEntries a net = All (kad_now net) (kn_KVStore (kad_node net a))"

text \<open>A Kademlia node answers every Chord RPC with the same error.\<close>

definition HandleChord :: "string \<Rightarrow> kad_error + 'a" where
  "HandleChord a = Inl KNoChord"

definition Transport_KPing :: "NodeRef \<Rightarrow> NodeRef \<Rightarrow> KadNet \<Rightarrow> fault + KadNet \<times> (TransportError + unit)" where
  "Transport_KPing sender target net =
     (case kad_rpc_from sender target net of
        (net, Inl e) \<Rightarrow> Inr (net, Inl e)
      | (net, Inr h) \<Rightarrow> (case HandleKPing h sender net of Inl f \<Rightarrow> Inl f | Inr net \<Rightarrow> Inr (net, Inr ())))"

definition Transport_KStore :: "sha1_fn \<Rightarrow> NodeRef \<Rightarrow> NodeRef \<Rightarrow> ValueEntry \<Rightarrow> KadNet \<Rightarrow> fault + KadNet \<times> (TransportError + unit)" where
  "Transport_KStore sha1 sender target entry net =
     (case kad_rpc_from sender target net of
        (net, Inl e) \<Rightarrow> Inr (net, Inl e)
      | (net, Inr h) \<Rightarrow> (case HandleKStore sha1 h sender entry net of Inl f \<Rightarrow> Inl f | Inr net \<Rightarrow> Inr (net, Inr ())))"

definition Transport_FindNode :: "NodeRef \<Rightarrow> NodeRef \<Rightarrow> ID \<Rightarrow> KadNet \<Rightarrow> fault + KadNet \<times> (TransportError + NodeRef list)" where
  "Transport_FindNode sender target ident net =
     (case kad_rpc_from sender target net of
        (net, Inl e) \<Rightarrow> Inr (net, Inl e)
      | (net, Inr h) \<Rightarrow> (case HandleFindNode h sender ident net of Inl f \<Rightarrow> Inl f | Inr (net, refs) \<Rightarrow> Inr (net, Inr refs)))"

definition Transport_FindValue :: "NodeRef \<Rightarrow> NodeRef \<Rightarrow> ID \<Rightarrow> KadNet \<Rightarrow> fault + KadNet \<times> (TransportError + FindValueResult)" where
  "Transport_FindValue sender target key net =
     (case kad_rpc_from sender target net of
        (net, Inl e) \<Rightarrow> Inr (net, Inl e)
      | (net, Inr h) \<Rightarrow> (case HandleFindValue h sender key net of Inl f \<Rightarrow> Inl f | Inr (net, res) \<Rightarrow> Inr (net, Inr res)))"

definition Kad_GetEntry :: "ctx \<Rightarrow> NodeRef \<Rightarrow> ID \<Rightarrow> KadNet \<Rightarrow> KadNet \<times> (kad_error + ValueEntry)" where
  "Kad_GetEntry ctx target key net =
     (case kad_rpc ctx target net of
        (net, Inl e) \<Rightarrow> (net, Inl (KTransport e))
      | (net, Inr h) \<Rightarrow> (net, Kad_HandleGetEntry h key net))"

definition Kad_PutEntry :: "sha1_fn \<Rightarrow> ctx \<Rightarrow> NodeRef \<Rightarrow> ID \<Rightarrow> ValueEntry \<Rightarrow> KadNet \<Rightarrow> KadNet \<times> (kad_error + unit)" where
  "Kad_PutEntry sha1 ctx target key entry net =
     (case kad_rpc ctx target net of
        (net, Inl e) \<Rightarrow> (net, Inl (KTransport e))
      | (net, Inr h) \<Rightarrow> (Kad_HandlePutEntry sha1 h key entry net, Inr ()))"

definition Kad_GetAllEntries :: "ctx \<Rightarrow> NodeRef \<Rightarrow> KadNet \<Rightarrow> KadNet \<times> (kad_error + ValueEntry list)" where
  "Kad_GetAllEntries ctx target net =
     (case kad_rpc ctx target net of
        (net, Inl e) \<Rightarrow> (net, Inl (KTransport e))
      | (net, Inr h) \<Rightarrow> (net, Inr (Kad_HandleGetAllEntries h net)))"

section \<open>Iterative lookup (lookup.go)\<close>

type_synonym 'x search_state = "KadNet \<times> HopEvent list \<times> 'x"
type_synonym 'x round_fn = "Contact list \<Rightarrow> int \<Rightarrow> 'x search_state \<Rightarrow> fault + 'x search_state \<times> Contact list \<times> ValueEntry option"

definition emitLookupHop :: "string \<Rightarrow> ID \<Rightarrow> string \<Rightarrow> int \<Rightarrow> KadNet \<times> HopEvent list \<Rightarrow> KadNet \<times> HopEvent list" where
  "emitLookupHop a target mechanism hopIdx = (\<lambda>(net, hops).
     let hop = \<lparr>hop_FromNode = IDToHex (kn_ID (kad_node net a)), hop_ToNode = IDToHex target, hop_Mechanism = mechanism, hop_HopIndex = hopIdx\<rparr>
     in (kad_emit EventLookupHop (LookupHopPayload (hop_FromNode hop) (hop_ToNode hop) mechanism hopIdx) net, hops @ [hop]))"

text \<open>The answers of a round, in the order in which they arrive; a failed call gives \<open>None\<close>.\<close>

fun round_calls ::
  "(Contact \<Rightarrow> KadNet \<Rightarrow> fault + KadNet \<times> 'r option) \<Rightarrow> Contact list \<Rightarrow> KadNet \<Rightarrow> fault + KadNet \<times> (Contact \<times> 'r) list" where
  "round_calls call [] net = Inr (net, [])"
| "round_calls call (c # cs) net =
     (case call c net of
        Inl e \<Rightarrow> Inl e
      | Inr (net, r) \<Rightarrow>
          (case round_calls call cs net of
             Inl e \<Rightarrow> Inl e
           | Inr (net, rs) \<Rightarrow> Inr (net, (case r of None \<Rightarrow> rs | Some r \<Rightarrow> (c, r) # rs))))"

definition runIterativeRound ::
  "(Contact list \<Rightarrow> Contact list) \<Rightarrow> string \<Rightarrow> Contact list \<Rightarrow> ID \<Rightarrow> string \<Rightarrow> int \<Rightarrow>
   (Contact \<Rightarrow> KadNet \<Rightarrow> fault + KadNet \<times> 'r option) \<Rightarrow> KadNet \<times> HopEvent list \<Rightarrow> fault + (KadNet \<times> HopEvent list) \<times> (Contact \<times> 'r) list" where
  "runIterativeRound sched a batch target mechanismPrefix hopIdx call = (\<lambda>(net, hops).
     case round_calls call (sched batch) net of
       Inl e \<Rightarrow> Inl e
     | Inr (net, rs) \<Rightarrow>
         Inr (emitLookupHop a target (mechanismPrefix @ ''_alpha'' @ fmt_d (length batch)) hopIdx (net, hops), rs))"

definition nodeRefsToContacts :: "time \<Rightarrow> NodeRef list \<Rightarrow> Contact list" where
  "nodeRefsToContacts now refs = map (sender_contact now) refs"

definition mergeContacts :: "string \<Rightarrow> ID \<Rightarrow> Contact list \<Rightarrow> KadNet \<times> Contact list \<Rightarrow> fault + KadNet \<times> Contact list" where
  "mergeContacts a target newContacts s =
     (case foldM (\<lambda>c (net, Pn).
             if c_ID c = kn_ID (kad_node net a) then Inr (net, Pn)
             else case updateRoutingTable [] a c net of
                    Inl e \<Rightarrow> Inl e
                  | Inr net \<Rightarrow> Inr (net, if list_ex (\<lambda>existing. c_ID existing = c_ID c) Pn then Pn else Pn @ [c]))
             newContacts s of
        Inl e \<Rightarrow> Inl e
      | Inr (net, Pn) \<Rightarrow>
          let Pn = sort_Slice (\<lambda>x y. big_Cmp (XORDistance (c_ID x) target) (XORDistance (c_ID y) target) < 0) Pn;
              k = kc_K (kn_Config (kad_node net a))
          in if int (length Pn) > k then if k < 0 then Inl Panic else Inr (net, take (nat k) Pn) else Inr (net, Pn))"

text \<open>The final batch marks each contact as queried while it scans, so it takes an identifier once.\<close>

fun unqueried_once :: "ID list \<Rightarrow> Contact list \<Rightarrow> Contact list" where
  "unqueried_once queried [] = []"
| "unqueried_once queried (c # cs) =
     (if c_ID c \<in> set queried then unqueried_once queried cs else c # unqueried_once (c_ID c # queried) cs)"

definition final_round ::
  "'x round_fn \<Rightarrow> string \<Rightarrow> ID \<Rightarrow> Contact list \<Rightarrow> ID list \<Rightarrow> int \<Rightarrow> 'x search_state \<Rightarrow>
   fault + 'x search_state \<times> ValueEntry option \<times> Contact list" where
  "final_round roundFn a target Pn queried hopIdx st =
     (let finalBatch = unqueried_once queried Pn
      in if finalBatch = [] then Inr (st, None, Pn)
         else case roundFn finalBatch hopIdx st of
                Inl e \<Rightarrow> Inl e
              | Inr (st, newContacts, Some entry) \<Rightarrow> Inr (st, Some entry, Pn)
              | Inr ((net, hops, x), newContacts, None) \<Rightarrow>
                  (case mergeContacts a target newContacts (net, Pn) of
                     Inl e \<Rightarrow> Inl e
                   | Inr (net, Pn) \<Rightarrow> Inr ((net, hops, x), None, Pn)))"

lemma search_loop_measure:
  assumes "take (max 1 m) (filter (\<lambda>c. c_ID c \<notin> set queried) Pn) \<noteq> []"
  shows "card (UNIV - set (map c_ID (take (max 1 m) (filter (\<lambda>c. c_ID c \<notin> set queried) Pn)) @ queried)) < card (UNIV - set queried)"
proof -
  let ?b = "take (max 1 m) (filter (\<lambda>c. c_ID c \<notin> set queried) Pn)"
  obtain c where "c \<in> set ?b" using assms by (meson list.set_sel(1))
  moreover from this have "c_ID c \<notin> set queried" by (auto dest: in_set_takeD)
  ultimately show ?thesis by (intro psubset_card_mono) auto
qed

text \<open>
  The loop of \<^verbatim>\<open>iterativeSearch\<close>. The scan for a batch stops once it has \<open>alpha\<close> contacts, but takes
  at least one. Every iteration queries a new identifier, so the loop ends.
\<close>

function search_loop ::
  "'x round_fn \<Rightarrow> string \<Rightarrow> ID \<Rightarrow> Contact list \<Rightarrow> ID list \<Rightarrow> ID \<Rightarrow> int \<Rightarrow> 'x search_state \<Rightarrow>
   fault + 'x search_state \<times> ValueEntry option \<times> Contact list" where
  "search_loop roundFn a target Pn queried closestSeen hopIdx st =
     (let alpha = kc_Alpha (kn_Config (kad_node (fst st) a));
          batch = take (max 1 (nat alpha)) (filter (\<lambda>c. c_ID c \<notin> set queried) Pn)
      in if batch = [] then Inr (st, None, Pn)
         else
           let queried = map c_ID batch @ queried
           in case roundFn batch hopIdx st of
                Inl e \<Rightarrow> Inl e
              | Inr (st, newContacts, Some entry) \<Rightarrow> Inr (st, Some entry, Pn)
              | Inr ((net, hops, x), newContacts, None) \<Rightarrow>
                  (case mergeContacts a target newContacts (net, Pn) of
                     Inl e \<Rightarrow> Inl e
                   | Inr (net, []) \<Rightarrow> Inr ((net, hops, x), None, [])
                   | Inr (net, p # Pn) \<Rightarrow>
                       if c_ID p = closestSeen then final_round roundFn a target (p # Pn) queried (hopIdx + 1) (net, hops, x)
                       else search_loop roundFn a target (p # Pn) queried (c_ID p) (hopIdx + 1) (net, hops, x)))"
  by pat_completeness auto

termination
  by (relation "measure (\<lambda>(roundFn, a, target, Pn, queried, closestSeen, hopIdx, st). card (UNIV - set queried))")
     (use search_loop_measure in auto)

declare search_loop.simps [simp del]

definition iterativeSearch ::
  "'x round_fn \<Rightarrow> string \<Rightarrow> ID \<Rightarrow> Contact list \<Rightarrow> KadNet \<Rightarrow> 'x \<Rightarrow> fault + 'x search_state \<times> ValueEntry option \<times> Contact list" where
  "iterativeSearch roundFn a target seeds net x =
     search_loop roundFn a target seeds [kn_ID (kad_node net a)] (if seeds \<noteq> [] then c_ID (hd seeds) else 0) 0 (net, [], x)"

definition find_node_call :: "string \<Rightarrow> ID \<Rightarrow> Contact \<Rightarrow> KadNet \<Rightarrow> fault + KadNet \<times> Contact list option" where
  "find_node_call a target contact net =
     (case Transport_FindNode (Kad_Ref (kad_node net a)) (contact_ref contact) target net of
        Inl f \<Rightarrow> Inl f
      | Inr (net, Inl e) \<Rightarrow> Inr (net, None)
      | Inr (net, Inr refs) \<Rightarrow> Inr (net, Some (nodeRefsToContacts (kad_now net) refs)))"

definition find_node_round :: "(Contact list \<Rightarrow> Contact list) \<Rightarrow> string \<Rightarrow> ID \<Rightarrow> unit round_fn" where
  "find_node_round sched a target batch hopIdx = (\<lambda>(net, hops, x).
     case runIterativeRound sched a batch target ''kad_batch'' hopIdx (find_node_call a target) (net, hops) of
       Inl f \<Rightarrow> Inl f
     | Inr ((net, hops), results) \<Rightarrow> Inr ((net, hops, x), concat (map snd results), None))"

definition IterativeFindNode ::
  "(Contact list \<Rightarrow> Contact list) \<Rightarrow> string \<Rightarrow> ID \<Rightarrow> KadNet \<Rightarrow> fault + KadNet \<times> Contact list \<times> HopEvent list" where
  "IterativeFindNode sched a target net =
     (case KClosest (kn_RoutingTable (kad_node net a)) target (kc_K (kn_Config (kad_node net a))) of
        Inl f \<Rightarrow> Inl f
      | Inr seeds \<Rightarrow>
          (case iterativeSearch (find_node_round sched a target) a target seeds net () of
             Inl f \<Rightarrow> Inl f
           | Inr ((net, hops, _), _, Pn) \<Rightarrow> Inr (net, Pn, hops)))"

definition find_value_call :: "string \<Rightarrow> ID \<Rightarrow> Contact \<Rightarrow> KadNet \<Rightarrow> fault + KadNet \<times> (ValueEntry + Contact list) option" where
  "find_value_call a key contact net =
     (case Transport_FindValue (Kad_Ref (kad_node net a)) (contact_ref contact) key net of
        Inl f \<Rightarrow> Inl f
      | Inr (net, Inl e) \<Rightarrow> Inr (net, None)
      | Inr (net, Inr (FoundEntry entry)) \<Rightarrow> Inr (net, Some (Inl entry))
      | Inr (net, Inr (FoundContacts refs)) \<Rightarrow> Inr (net, Some (Inr (nodeRefsToContacts (kad_now net) refs))))"

text \<open>
  The loop over the answers of a round: the first value ends it, after a copy has been stored
  at the closest node that answered without one.
\<close>

fun scan_values ::
  "sha1_fn \<Rightarrow> string \<Rightarrow> ID \<Rightarrow> (Contact \<times> (ValueEntry + Contact list)) list \<Rightarrow> Contact option \<Rightarrow> Contact list \<Rightarrow> KadNet \<Rightarrow>
   fault + KadNet \<times> Contact option \<times> Contact list \<times> ValueEntry option" where
  "scan_values sha1 a key [] closestMiss newContacts net = Inr (net, closestMiss, newContacts, None)"
| "scan_values sha1 a key ((c, Inl entry) # rs) closestMiss newContacts net =
     (case closestMiss of
        None \<Rightarrow> Inr (net, closestMiss, [], Some entry)
      | Some m \<Rightarrow>
          (case Transport_KStore sha1 (Kad_Ref (kad_node net a)) (contact_ref m) entry net of
             Inl f \<Rightarrow> Inl f
           | Inr (net, _) \<Rightarrow> Inr (net, closestMiss, [], Some entry)))"
| "scan_values sha1 a key ((c, Inr contacts) # rs) closestMiss newContacts net =
     scan_values sha1 a key rs
       (case closestMiss of
          None \<Rightarrow> Some c
        | Some m \<Rightarrow> if big_Cmp (XORDistance (c_ID c) key) (XORDistance (c_ID m) key) < 0 then Some c else Some m)
       (newContacts @ contacts) net"

definition find_value_round :: "sha1_fn \<Rightarrow> (Contact list \<Rightarrow> Contact list) \<Rightarrow> string \<Rightarrow> ID \<Rightarrow> Contact option round_fn" where
  "find_value_round sha1 sched a key batch hopIdx = (\<lambda>(net, hops, closestMiss).
     case runIterativeRound sched a batch key ''find_value'' hopIdx (find_value_call a key) (net, hops) of
       Inl f \<Rightarrow> Inl f
     | Inr ((net, hops), results) \<Rightarrow>
         (case scan_values sha1 a key results closestMiss [] net of
            Inl f \<Rightarrow> Inl f
          | Inr (net, closestMiss, newContacts, entry) \<Rightarrow> Inr ((net, hops, closestMiss), newContacts, entry)))"

definition IterativeFindValue ::
  "sha1_fn \<Rightarrow> (Contact list \<Rightarrow> Contact list) \<Rightarrow> string \<Rightarrow> ID \<Rightarrow> KadNet \<Rightarrow>
   fault + KadNet \<times> ValueEntry option \<times> Contact list \<times> HopEvent list" where
  "IterativeFindValue sha1 sched a key net =
     (let n = kad_node net a in
      case Get (kad_now net) (kn_KVStore n) key of
        Some entry \<Rightarrow> Inr (net, Some entry, [], [])
      | None \<Rightarrow>
          (case KClosest (kn_RoutingTable n) key (kc_K (kn_Config n)) of
             Inl f \<Rightarrow> Inl f
           | Inr [] \<Rightarrow> Inr (net, None, [], [])
           | Inr seeds \<Rightarrow>
               (case iterativeSearch (find_value_round sha1 sched a key) a key seeds net None of
                  Inl f \<Rightarrow> Inl f
                | Inr ((net, hops, _), entry, Pn) \<Rightarrow> Inr (net, entry, Pn, hops))))"

text \<open>Storing an entry at a list of contacts, errors of the calls ignored.\<close>

definition store_at :: "sha1_fn \<Rightarrow> string \<Rightarrow> ValueEntry \<Rightarrow> Contact list \<Rightarrow> KadNet \<Rightarrow> fault + KadNet" where
  "store_at sha1 a entry contacts net =
     foldM (\<lambda>c net. case Transport_KStore sha1 (Kad_Ref (kad_node net a)) (contact_ref c) entry net of
              Inl f \<Rightarrow> Inl f | Inr (net, _) \<Rightarrow> Inr net) contacts net"

definition StoreValue :: "sha1_fn \<Rightarrow> (Contact list \<Rightarrow> Contact list) \<Rightarrow> string \<Rightarrow> string \<Rightarrow> byte list \<Rightarrow> KadNet \<Rightarrow> fault + KadNet" where
  "StoreValue sha1 sched a key value net =
     (let n = kad_node net a;
          keyID = KeyID sha1 key;
          entry = \<lparr>Key = keyID, Value = value, Clock = [], Timestamp = kad_now net, TTL = kc_ExpireTTL (kn_Config n), NodeID = IDToHex (kn_ID n)\<rparr>;
          net = put_local sha1 a entry net
      in case IterativeFindNode sched a keyID net of
           Inl f \<Rightarrow> Inl f
         | Inr (net, contacts, _) \<Rightarrow> store_at sha1 a entry contacts net)"

section \<open>Republishing and bucket refresh (node.go)\<close>

definition republish_one :: "sha1_fn \<Rightarrow> (Contact list \<Rightarrow> Contact list) \<Rightarrow> string \<Rightarrow> ValueEntry \<Rightarrow> KadNet \<Rightarrow> fault + KadNet" where
  "republish_one sha1 sched a e net =
     (case IterativeFindNode sched a (Key e) net of
        Inl f \<Rightarrow> Inl f
      | Inr (net, contacts, _) \<Rightarrow>
          (case store_at sha1 a e contacts net of
             Inl f \<Rightarrow> Inl f
           | Inr net \<Rightarrow> Inr (kad_emit EventRepublish (RepublishPayload (IDToHex (Key e)) (IDToHex (kn_ID (kad_node net a)))) net)))"

definition republishKeys :: "sha1_fn \<Rightarrow> (Contact list \<Rightarrow> Contact list) \<Rightarrow> string \<Rightarrow> KadNet \<Rightarrow> fault + KadNet" where
  "republishKeys sha1 sched a net =
     foldM (republish_one sha1 sched a) (All (kad_now net) (kn_KVStore (kad_node net a))) net"

text \<open>The identifier that differs from \<open>self\<close> in bit \<open>i\<close> only, built byte-wise as the code does.\<close>

definition refresh_target :: "ID \<Rightarrow> nat \<Rightarrow> ID" where
  "refresh_target self i =
     (let byteIdx = 19 - int (i div 8); bitIdx = i mod 8
      in if byteIdx \<ge> 0
         then bytes_id ((id_bytes self)[nat byteIdx := id_bytes self ! nat byteIdx XOR push_bit bitIdx 1])
         else self)"

definition refreshBuckets :: "(Contact list \<Rightarrow> Contact list) \<Rightarrow> string \<Rightarrow> KadNet \<Rightarrow> fault + KadNet" where
  "refreshBuckets sched a net =
     foldM (\<lambda>i net. if KBucket_Len (rt_Buckets (kn_RoutingTable (kad_node net a)) ! i) = 0
              then (case IterativeFindNode sched a (refresh_target (kn_ID (kad_node net a)) i) net of
                      Inl f \<Rightarrow> Inl f | Inr (net, _) \<Rightarrow> Inr net)
              else Inr net) [0..<160] net"

datatype kad_tick = KadTick | KadStop

fun runRepublish :: "sha1_fn \<Rightarrow> (Contact list \<Rightarrow> Contact list) \<Rightarrow> string \<Rightarrow> kad_tick list \<Rightarrow> KadNet \<Rightarrow> fault + KadNet" where
  "runRepublish sha1 sched a [] net = Inr net"
| "runRepublish sha1 sched a (KadStop # ts) net = Inr net"
| "runRepublish sha1 sched a (KadTick # ts) net =
     (case republishKeys sha1 sched a net of Inl f \<Rightarrow> Inl f | Inr net \<Rightarrow> runRepublish sha1 sched a ts net)"

fun runBucketRefresh :: "(Contact list \<Rightarrow> Contact list) \<Rightarrow> string \<Rightarrow> kad_tick list \<Rightarrow> KadNet \<Rightarrow> fault + KadNet" where
  "runBucketRefresh sched a [] net = Inr net"
| "runBucketRefresh sched a (KadStop # ts) net = Inr net"
| "runBucketRefresh sched a (KadTick # ts) net =
     (case refreshBuckets sched a net of Inl f \<Rightarrow> Inl f | Inr net \<Rightarrow> runBucketRefresh sched a ts net)"

section \<open>Joining (join.go)\<close>

definition CreateNetwork :: "string \<Rightarrow> KadNet \<Rightarrow> KadNet" where
  "CreateNetwork a net =
     kad_emit EventNodeJoin (NodeJoinPayload (IDToHex (kn_ID (kad_node net a))) (kn_Addr (kad_node net a)) [] []) net"

text \<open>
  \<^verbatim>\<open>Join\<close> up to its return; the bucket refresh it starts in the background is \<open>refreshBuckets\<close>,
  in any later state.
\<close>

definition Kad_Join :: "(Contact list \<Rightarrow> Contact list) \<Rightarrow> string \<Rightarrow> Contact \<Rightarrow> KadNet \<Rightarrow> fault + KadNet" where
  "Kad_Join sched a bootstrap net =
     (case updateRoutingTable [] a bootstrap net of
        Inl f \<Rightarrow> Inl f
      | Inr net \<Rightarrow>
          (case IterativeFindNode sched a (kn_ID (kad_node net a)) net of
             Inl f \<Rightarrow> Inl f
           | Inr (net, _) \<Rightarrow>
               Inr (kad_emit EventNodeJoin (NodeJoinPayload (IDToHex (kn_ID (kad_node net a))) (kn_Addr (kad_node net a)) [] []) net)))"

end
