(* ===== verification/Kad_Lookup.thy ===== *)
theory Kad_Lookup
  imports Kademlia
begin

text \<open>
  What Kademlia operations keep and what lookups return. Every update of a routing table, with
  all the updates at other nodes that its pings cause, changes nothing but routing tables and
  keeps them well-formed; lookups return sorted lists of distinct contacts, and only values
  that some node holds.
\<close>

section \<open>What an update of routing tables changes\<close>

definition kad_inv :: "KadNet \<Rightarrow> bool" where
  "kad_inv net \<longleftrightarrow> (\<forall>a. table_ok (kn_RoutingTable (kad_node net a)) \<and> rt_Self (kn_RoutingTable (kad_node net a)) = kn_ID (kad_node net a))"

text \<open>\<open>tables_only net net'\<close>: the networks differ in routing tables, events and drawn random numbers.\<close>

definition tables_only :: "KadNet \<Rightarrow> KadNet \<Rightarrow> bool" where
  "tables_only net net' \<longleftrightarrow> kad_now net' = kad_now net \<and> same_net (kad_transport net) (kad_transport net') \<and>
     (\<forall>a. kad_node net' a = (kad_node net a)\<lparr>kn_RoutingTable := kn_RoutingTable (kad_node net' a)\<rparr>) \<and>
     (\<forall>a. rt_K (kn_RoutingTable (kad_node net' a)) = rt_K (kn_RoutingTable (kad_node net a))) \<and> (kad_inv net \<longrightarrow> kad_inv net')"

lemma tables_only_refl [simp, intro]: "tables_only net net"
  by (simp add: tables_only_def)

lemma tables_only_trans [trans]:
  assumes "tables_only n1 n2" "tables_only n2 n3"
  shows "tables_only n1 n3"
proof -
  have "kad_node n3 a = (kad_node n1 a)\<lparr>kn_RoutingTable := kn_RoutingTable (kad_node n3 a)\<rparr>" for a
    using assms unfolding tables_only_def by (metis KademliaNode.surjective KademliaNode.update_convs(3))
  with assms show ?thesis by (auto simp: tables_only_def intro: same_net_trans)
qed

lemma tables_only_frame:
  "tables_only net net' \<Longrightarrow> kad_node net' a = (kad_node net a)\<lparr>kn_RoutingTable := kn_RoutingTable (kad_node net' a)\<rparr>"
  by (simp add: tables_only_def)

lemma tables_only_net: "tables_only net net' \<Longrightarrow> same_net (kad_transport net) (kad_transport net')"
  by (simp add: tables_only_def)

lemma tables_only_set: "tables_only net net' \<Longrightarrow> (kad_node net' a)\<lparr>kn_RoutingTable := q\<rparr> = (kad_node net a)\<lparr>kn_RoutingTable := q\<rparr>"
  by (cases "kad_node net a", cases "kad_node net' a") (use tables_only_frame [of net net' a] in simp)

lemma tables_only_node:
  assumes "tables_only net net'"
  shows "kn_ID (kad_node net' a) = kn_ID (kad_node net a)" "kn_Addr (kad_node net' a) = kn_Addr (kad_node net a)"
    "kn_KVStore (kad_node net' a) = kn_KVStore (kad_node net a)" "kn_Config (kad_node net' a) = kn_Config (kad_node net a)"
    "kn_antiEntropy (kad_node net' a) = kn_antiEntropy (kad_node net a)" "kad_now net' = kad_now net" "kad_inv net \<Longrightarrow> kad_inv net'"
  using assms unfolding tables_only_def
  by (metis KademliaNode.select_convs KademliaNode.surjective KademliaNode.update_convs(3))+

lemma tables_only_emit [simp]: "tables_only net (kad_emit t p net)"
  by (simp add: tables_only_def kad_emit_def kad_inv_def)

lemma kad_rpc_from_tables: "kad_rpc_from s t net = (net', x) \<Longrightarrow> tables_only net net'"
  by (auto simp: kad_rpc_from_def Let_def tables_only_def kad_inv_def split: prod.splits dest: lookupFrom_same_net)

lemma set_bucket_tables:
  assumes "tables_only net net1" "i < 160"
    and "kad_inv net \<Longrightarrow> bucket_ok (kn_ID (kad_node net a)) i b \<and> kb_capacity b = rt_K (kn_RoutingTable (kad_node net a))"
  shows "tables_only net (set_bucket a i b net1)"
proof -
  have "kad_inv net1 \<and> kad_inv net \<Longrightarrow> kad_inv (set_bucket a i b net1)"
  proof -
    assume inv: "kad_inv net1 \<and> kad_inv net"
    let ?rt = "kn_RoutingTable (kad_node net1 a)"
    have "table_ok (?rt\<lparr>rt_Buckets := (rt_Buckets ?rt)[i := b]\<rparr>)"
      using inv assms(2,3) tables_only_node(1) [OF assms(1)] assms(1)
      by (intro table_ok_update) (auto simp: kad_inv_def tables_only_def)
    with inv show ?thesis by (simp add: kad_inv_def set_bucket_def kad_upd_def)
  qed
  moreover have "kad_inv net \<Longrightarrow> kad_inv net1" using assms(1) by (rule tables_only_node(7))
  moreover have "kad_node (set_bucket a i b net1) x = (kad_node net x)\<lparr>kn_RoutingTable := kn_RoutingTable (kad_node (set_bucket a i b net1) x)\<rparr>" for x
    using tables_only_set [OF assms(1)] tables_only_frame [OF assms(1)] by (simp add: set_bucket_def kad_upd_def)
  ultimately show ?thesis using assms(1) by (auto simp: tables_only_def set_bucket_def kad_upd_def)
qed

lemma updateRoutingTable_tables: "updateRoutingTable held a c net = Inr net' \<Longrightarrow> tables_only net net'"
proof (induction held a c net arbitrary: net' rule: updateRoutingTable.induct)
  case (1 held a c net)
  let ?n = "kad_node net a"
  let ?idx = "BucketIndex (rt_Self (kn_RoutingTable ?n)) (c_ID c)"
  let ?b = "rt_Buckets (kn_RoutingTable ?n) ! nat ?idx"
  let ?ping = "\<lambda>contact net. case kad_rpc_from (Kad_Ref ?n) (contact_ref contact) net of
        (net, Inl e) \<Rightarrow> Inr (net, False)
      | (net, Inr h) \<Rightarrow> if kn_Addr ?n = [] then Inr (net, True)
          else (case updateRoutingTable ((a, nat ?idx) # held) h (sender_contact (kad_now net) (Kad_Ref ?n)) net of
                  Inl e \<Rightarrow> Inl e | Inr net \<Rightarrow> Inr (net, True))"
  show ?case
  proof (cases "?idx < 0")
    case True
    with 1(2) show ?thesis by (simp add: updateRoutingTable.simps)
  next
    case False
    then have free: "(a, nat ?idx) \<notin> set held" using 1(2) by (auto simp: updateRoutingTable.simps Let_def)
    note result = 1(2) [unfolded updateRoutingTable.simps [of held a c net] Let_def if_not_P [OF False] if_not_P [OF free]]
    obtain net1 b u where u: "KBucket_UpdateContact (kad_now net) c (Some ?ping) ?b net = Inr (net1, b, u)"
    proof (cases "KBucket_UpdateContact (kad_now net) c (Some ?ping) ?b net")
      case (Inl e)
      with result show ?thesis by simp
    next
      case (Inr r)
      with that show ?thesis by (cases r) auto
    qed
    with result have net': "net' = set_bucket a (nat ?idx) b net1 \<or> (\<exists>t p. net' = kad_emit t p (set_bucket a (nat ?idx) b net1))"
      by (auto split: if_splits)
    have ping: "tables_only net net2" if "?ping old net = Inr (net2, v)" "kb_entries ?b = old # rest" for old rest net2 v
    proof -
      obtain net3 x where r: "kad_rpc_from (Kad_Ref ?n) (contact_ref old) net = (net3, x)" by fastforce
      note t3 = kad_rpc_from_tables [OF r]
      show ?thesis
      proof (cases "\<exists>h. x = Inr h \<and> kn_Addr ?n \<noteq> []")
        case True
        then obtain h where h: "x = Inr h" "kn_Addr ?n \<noteq> []" by blast
        with that(1) r have "updateRoutingTable ((a, nat ?idx) # held) h (sender_contact (kad_now net3) (Kad_Ref ?n)) net3 = Inr net2"
          by (auto split: sum.splits)
        from 1(1) [OF refl refl False free that(2) r [symmetric] h(1) h(2) this] t3 show ?thesis by (rule tables_only_trans [rotated])
      next
        case False
        with that(1) r t3 show ?thesis by (auto split: sum.splits if_splits)
      qed
    qed
    have t1: "tables_only net net1" using u by (cases rule: KBucket_UpdateContact_cases) (auto dest: ping)
    have idx: "nat ?idx < 160" "?idx = int (nat ?idx)" using BucketIndex_range(2) [of "rt_Self (kn_RoutingTable ?n)" "c_ID c"] False by auto
    have "tables_only net (set_bucket a (nat ?idx) b net1)"
    proof (rule set_bucket_tables [OF t1 idx(1)])
      assume "kad_inv net"
      then have inv: "table_ok (kn_RoutingTable ?n)" "rt_Self (kn_RoutingTable ?n) = kn_ID ?n" by (simp_all add: kad_inv_def)
      have "kb_capacity ?b = rt_K (kn_RoutingTable ?n)" using inv(1) idx(1) by (simp add: table_ok_def)
      with KBucket_UpdateContact_ok [OF u table_bucket [OF inv(1) idx(1)] idx(2)] inv(2)
      show "bucket_ok (kn_ID ?n) (nat ?idx) b \<and> kb_capacity b = rt_K (kn_RoutingTable ?n)" by simp
    qed
    with net' show ?thesis by (auto intro: tables_only_trans)
  qed
qed

section \<open>Handlers and calls\<close>

lemma note_sender_tables: "note_sender a s net = Inr net' \<Longrightarrow> tables_only net net'"
  by (auto simp: note_sender_def dest: updateRoutingTable_tables split: if_splits)

lemma HandleFindNode_tables: "HandleFindNode a s i net = Inr (net', refs) \<Longrightarrow> tables_only net net'"
  by (auto simp: HandleFindNode_def dest: note_sender_tables split: sum.splits)

lemma HandleFindValue_tables:
  assumes "HandleFindValue a s key net = Inr (net', res)"
  shows "tables_only net net'" "res = FoundEntry e \<Longrightarrow> Get (kad_now net) (kn_KVStore (kad_node net a)) key = Some e"
proof -
  show t: "tables_only net net'"
    using assms by (auto simp: HandleFindValue_def dest: note_sender_tables split: sum.splits option.splits)
  show "Get (kad_now net) (kn_KVStore (kad_node net a)) key = Some e" if "res = FoundEntry e"
    using assms that tables_only_node [OF t] by (auto simp: HandleFindValue_def split: sum.splits option.splits)
qed

lemma find_node_call_tables: "find_node_call a t c net = Inr (net', r) \<Longrightarrow> tables_only net net'"
  by (auto simp: find_node_call_def Transport_FindNode_def split: sum.splits prod.splits
      intro: tables_only_trans dest!: kad_rpc_from_tables HandleFindNode_tables)

lemma find_value_call_tables:
  assumes "find_value_call a key c net = Inr (net', r)"
  shows "tables_only net net'"
    "r = Some (Inl e) \<Longrightarrow> \<exists>h. Get (kad_now net) (kn_KVStore (kad_node net h)) key = Some e"
proof -
  obtain net1 x where rpc: "kad_rpc_from (Kad_Ref (kad_node net a)) (contact_ref c) net = (net1, x)" by fastforce
  note t1 = kad_rpc_from_tables [OF rpc]
  have "tables_only net net' \<and> (\<forall>e. r = Some (Inl e) \<longrightarrow> (\<exists>h. Get (kad_now net) (kn_KVStore (kad_node net h)) key = Some e))"
  proof (cases x)
    case (Inl err)
    with assms rpc t1 show ?thesis by (auto simp: find_value_call_def Transport_FindValue_def)
  next
    case (Inr h)
    with assms rpc obtain res where res: "HandleFindValue h (Kad_Ref (kad_node net a)) key net1 = Inr (net', res)"
        "r = Some (Inl e) \<Longrightarrow> res = FoundEntry e" for e
      by (auto simp: find_value_call_def Transport_FindValue_def split: sum.splits FindValueResult.splits)
    with HandleFindValue_tables [OF res(1)] t1 tables_only_node [OF t1] show ?thesis by (metis tables_only_trans)
  qed
  then show "tables_only net net'" "r = Some (Inl e) \<Longrightarrow> \<exists>h. Get (kad_now net) (kn_KVStore (kad_node net h)) key = Some e"
    by auto
qed

text \<open>A property of answers that does not depend on routing tables holds of all answers of a round.\<close>

lemma round_calls_rule:
  assumes "\<And>c n n' r. call c n = Inr (n', r) \<Longrightarrow> tables_only n n' \<and> (\<forall>x. r = Some x \<longrightarrow> Q n x)"
    and "\<And>n n' x. tables_only n n' \<Longrightarrow> Q n' x \<Longrightarrow> Q n x"
    and "round_calls call cs net = Inr (net', rs)"
  shows "tables_only net net' \<and> (\<forall>(c, x) \<in> set rs. Q net x)"
  using assms(3)
proof (induction cs arbitrary: net rs)
  case (Cons c cs)
  obtain net1 r rs' where 1: "call c net = Inr (net1, r)" "round_calls call cs net1 = Inr (net', rs')"
      "rs = (case r of None \<Rightarrow> rs' | Some r \<Rightarrow> (c, r) # rs')"
    using Cons.prems by (auto split: sum.splits)
  have t: "tables_only net net1" "\<forall>x. r = Some x \<longrightarrow> Q net x" using assms(1) [OF 1(1)] by auto
  with Cons.IH [OF 1(2)] assms(2) [OF t(1)] 1(3) show ?case by (auto split: option.splits intro: tables_only_trans)
qed simp

section \<open>The search loop\<close>

text \<open>
  What \<^verbatim>\<open>iterativeSearch\<close> asks of its round function: a round that finds nothing changes routing
  tables only, and one that finds an entry stands in the relation \<open>found\<close>, which does not
  depend on earlier changes of tables.
\<close>

locale lookup_round =
  fixes roundFn :: "'x round_fn" and found :: "KadNet \<Rightarrow> KadNet \<Rightarrow> ValueEntry \<Rightarrow> bool"
  assumes round_miss: "roundFn batch h (net, hops, x) = Inr ((net', hops', x'), cs, None) \<Longrightarrow> tables_only net net'"
    and round_hit: "roundFn batch h (net, hops, x) = Inr ((net', hops', x'), cs, Some e) \<Longrightarrow> found net net' e"
    and found_tables: "tables_only n1 n2 \<Longrightarrow> found n2 n3 e \<Longrightarrow> found n1 n3 e"

text \<open>
  The candidate list of a lookup: sorted by distance without duplicates, not longer than \<open>k\<close> and
  without the node itself. A later list \<open>keeps\<close> an earlier one if it dropped contacts only for
  closer ones.
\<close>

definition candidates :: "ID \<Rightarrow> ID \<Rightarrow> int \<Rightarrow> Contact list \<Rightarrow> bool" where
  "candidates self target k cs \<longleftrightarrow> sorted_wrt (<) (map (\<lambda>c. XORDistance (c_ID c) target) cs) \<and>
     int (length cs) \<le> k \<and> self \<notin> contact_ids cs"

definition keeps :: "ID \<Rightarrow> int \<Rightarrow> Contact list \<Rightarrow> Contact list \<Rightarrow> bool" where
  "keeps target k cs ds \<longleftrightarrow> (\<forall>x \<in> contact_ids cs - contact_ids ds.
     int (length ds) = k \<and> (\<forall>y \<in> contact_ids ds. XORDistance y target < XORDistance x target))"

lemma keeps_refl [simp, intro]: "keeps target k cs cs"
  by (simp add: keeps_def)

lemma candidates_card: "candidates self target k cs \<Longrightarrow> card (contact_ids cs) = length cs"
proof -
  assume "candidates self target k cs"
  then have "distinct (map (\<lambda>i. XORDistance i target) (map c_ID cs))" by (simp add: candidates_def strict_sorted_iff comp_def)
  then have "distinct (map c_ID cs)" by (rule distinct_map [THEN iffD1, THEN conjunct1])
  then show ?thesis by (metis contact_ids_def distinct_card length_map set_map)
qed

lemma keeps_trans:
  assumes "keeps target k cs ds" "keeps target k ds es" "candidates self target k ds" "candidates self target k es"
  shows "keeps target k cs es"
  unfolding keeps_def
proof
  fix x assume x: "x \<in> contact_ids cs - contact_ids es"
  show "int (length es) = k \<and> (\<forall>y \<in> contact_ids es. XORDistance y target < XORDistance x target)"
  proof (cases "x \<in> contact_ids ds")
    case True
    with x assms(2) show ?thesis by (auto simp: keeps_def)
  next
    case False
    with x assms(1) have ds: "int (length ds) = k" "\<forall>y \<in> contact_ids ds. XORDistance y target < XORDistance x target"
      by (auto simp: keeps_def)
    show ?thesis
    proof (cases "contact_ids ds \<subseteq> contact_ids es")
      case True
      have "length es \<le> length ds" using assms(4) ds(1) by (auto simp: candidates_def)
      then have "contact_ids ds = contact_ids es" using True candidates_card [OF assms(3)] candidates_card [OF assms(4)]
        by (intro card_subset_eq card_seteq) (auto simp: contact_ids_def)
      moreover from this have "length es = length ds" using candidates_card [OF assms(3)] candidates_card [OF assms(4)] by simp
      ultimately show ?thesis using ds by simp
    next
      case False
      then obtain d where d: "d \<in> contact_ids ds - contact_ids es" by blast
      have "int (length es) = k" "\<forall>y \<in> contact_ids es. XORDistance y target < XORDistance d target"
        using assms(2) d unfolding keeps_def by auto
      moreover have "XORDistance d target < XORDistance x target" using ds(2) d by simp
      ultimately show ?thesis by (auto intro: order_less_trans)
    qed
  qed
qed

lemma foldM_rule:
  assumes "foldM f xs s = Inr s'" "P s" "\<And>x s s'. x \<in> set xs \<Longrightarrow> P s \<Longrightarrow> f x s = Inr s' \<Longrightarrow> P s'"
  shows "P s'"
  using assms
proof (induction xs arbitrary: s)
  case (Cons x xs)
  obtain s1 where s1: "f x s = Inr s1" "foldM f xs s1 = Inr s'" using Cons.prems(1) by (auto split: sum.splits)
  show ?case using s1(2) Cons.prems(3) [OF _ Cons.prems(2) s1(1)] Cons.prems(3) by (intro Cons.IH [OF s1(2)]) auto
qed simp

lemma mergeContacts_spec:
  assumes "mergeContacts a target new (net, Pn) = Inr (net', Pn')"
    and "candidates (kn_ID (kad_node net a)) target (kc_K (kn_Config (kad_node net a))) Pn"
  shows "tables_only net net' \<and> candidates (kn_ID (kad_node net a)) target (kc_K (kn_Config (kad_node net a))) Pn' \<and>
    keeps target (kc_K (kn_Config (kad_node net a))) Pn Pn' \<and> contact_ids Pn' \<subseteq> contact_ids Pn \<union> contact_ids new"
proof -
  let ?self = "kn_ID (kad_node net a)" and ?k = "kc_K (kn_Config (kad_node net a))" and ?d = "\<lambda>c. XORDistance (c_ID c) target"
  let ?body = "\<lambda>c (net, Pn). if c_ID c = kn_ID (kad_node net a) then Inr (net, Pn)
     else case updateRoutingTable [] a c net of
       Inl e \<Rightarrow> Inl e
     | Inr net \<Rightarrow> Inr (net, if list_ex (\<lambda>existing. c_ID existing = c_ID c) Pn then Pn else Pn @ [c])"
  let ?P = "\<lambda>(n, cs). tables_only net n \<and> distinct (map c_ID cs) \<and> ?self \<notin> contact_ids cs \<and> contact_ids Pn \<subseteq> contact_ids cs \<and>
     contact_ids cs \<subseteq> contact_ids Pn \<union> contact_ids new"
  obtain n1 P1 where fold: "foldM ?body new (net, Pn) = Inr (n1, P1)"
    using assms(1) unfolding mergeContacts_def by (cases "foldM ?body new (net, Pn)") auto
  have "distinct (map ?d Pn)" using assms(2) by (simp add: candidates_def strict_sorted_iff)
  then have "distinct (map c_ID Pn)" by (auto simp: distinct_map inj_on_def XORDistance_inject)
  then have "?P (net, Pn)" using assms(2) by (auto simp: candidates_def)
  then have "?P (n1, P1)"
  proof (rule foldM_rule [OF fold, where P = ?P])
    fix c s s' assume c: "c \<in> set new" and P: "?P s" and step: "?body c s = Inr s'"
    obtain n cs where s: "s = (n, cs)" by fastforce
    have c': "c_ID c \<in> contact_ids new" using c by (simp add: contact_ids_def)
    show "?P s'"
    proof (cases "c_ID c = ?self")
      case True
      with P step s tables_only_node(1) [of net n a] show ?thesis by auto
    next
      case False
      with P step s tables_only_node(1) [of net n a] obtain n' where n': "updateRoutingTable [] a c n = Inr n'"
          "s' = (n', if list_ex (\<lambda>existing. c_ID existing = c_ID c) cs then cs else cs @ [c])"
        by (auto split: sum.splits)
      have "tables_only net n'" using P s updateRoutingTable_tables [OF n'(1)] by (auto intro: tables_only_trans)
      with P s n'(2) False c' show ?thesis by (auto simp: list_ex_iff contact_ids_fold) (auto simp: contact_ids_def)
    qed
  qed
  then have P1: "tables_only net n1" "distinct (map c_ID P1)" "?self \<notin> contact_ids P1" "contact_ids Pn \<subseteq> contact_ids P1"
      "contact_ids P1 \<subseteq> contact_ids Pn \<union> contact_ids new" by auto
  define Q where "Q = sort_Slice (\<lambda>x y. big_Cmp (?d x) (?d y) < 0) P1"
  have "big_Cmp x y < 0 \<longleftrightarrow> x < y" for x y by (simp add: big_Cmp_def)
  then have Q: "Q = sort_key ?d P1" unfolding Q_def by (intro sort_Slice_key) auto
  have ids: "contact_ids Q = contact_ids P1" by (simp add: Q contact_ids_def)
  have strict: "sorted_wrt (<) (map ?d Q)"
    using P1(2) by (auto simp: Q strict_sorted_iff distinct_map inj_on_def XORDistance_inject)
  have K: "kc_K (kn_Config (kad_node n1 a)) = ?k" using tables_only_node(4) [OF P1(1)] by simp
  show ?thesis
  proof (cases "int (length Q) > ?k")
    case False
    with assms(1) fold K have "net' = n1" "Pn' = Q" by (auto simp: mergeContacts_def Let_def Q_def)
    with False P1 strict ids show ?thesis by (auto simp: candidates_def keeps_def)
  next
    case True
    with assms(1) fold K have r: "net' = n1" "Pn' = take (nat ?k) Q" "0 \<le> ?k" by (auto simp: mergeContacts_def Let_def Q_def split: if_splits)
    have sub: "contact_ids (take m Q) \<subseteq> contact_ids Q" for m by (auto simp: contact_ids_def dest: in_set_takeD)
    have "sorted_wrt (<) (map ?d (take (nat ?k) Q))" using strict by (metis sorted_wrt_take take_map)
    moreover have len: "int (length (take (nat ?k) Q)) = ?k" using True r(3) by simp
    moreover have "keeps target ?k Pn (take (nat ?k) Q)"
      unfolding keeps_def
    proof (intro ballI conjI len)
      fix x y assume x: "x \<in> contact_ids Pn - contact_ids (take (nat ?k) Q)" and y: "y \<in> contact_ids (take (nat ?k) Q)"
      have "x \<in> contact_ids (take (nat ?k) Q @ drop (nat ?k) Q)" using x P1(4) ids by auto
      with x have "x \<in> contact_ids (drop (nat ?k) Q)" by (simp only: contact_ids_simps) blast
      with y strict_sorted_take [OF strict, of _ "nat ?k"] show "XORDistance y target < XORDistance x target"
        by (auto simp: contact_ids_def)
    qed
    ultimately show ?thesis using P1 r ids sub [of "nat ?k"] by (auto simp: candidates_def)
  qed
qed

context lookup_round
begin

lemma round_merge:
  assumes "roundFn b h (net, hops, x) = Inr ((net1, hops1, x1), cs, None)" "mergeContacts a target cs (net1, Pn) = Inr (net2, Pn2)"
    and "candidates (kn_ID (kad_node net a)) target (kc_K (kn_Config (kad_node net a))) Pn"
  shows "tables_only net net2 \<and> candidates (kn_ID (kad_node net a)) target (kc_K (kn_Config (kad_node net a))) Pn2 \<and>
    keeps target (kc_K (kn_Config (kad_node net a))) Pn Pn2"
  using mergeContacts_spec [OF assms(2)] assms(3) round_miss [OF assms(1)] tables_only_node [OF round_miss [OF assms(1)]]
  by (auto intro: tables_only_trans)

lemma final_round_spec:
  assumes "final_round roundFn a target Pn queried hopIdx (net, hops, x) = Inr ((net', hops', x'), r, Pn')"
    and "candidates (kn_ID (kad_node net a)) target (kc_K (kn_Config (kad_node net a))) Pn"
  shows "candidates (kn_ID (kad_node net a)) target (kc_K (kn_Config (kad_node net a))) Pn' \<and>
    keeps target (kc_K (kn_Config (kad_node net a))) Pn Pn' \<and> (case r of None \<Rightarrow> tables_only net net' | Some e \<Rightarrow> found net net' e)"
proof (cases "unqueried_once queried Pn = []")
  case True
  with assms show ?thesis by (auto simp: final_round_def)
next
  case False
  obtain net1 hops1 x1 cs r1 where round: "roundFn (unqueried_once queried Pn) hopIdx (net, hops, x) = Inr ((net1, hops1, x1), cs, r1)"
    using assms(1) False by (cases "roundFn (unqueried_once queried Pn) hopIdx (net, hops, x)") (auto simp: final_round_def Let_def)
  show ?thesis
  proof (cases r1)
    case (Some e)
    with assms(1) False round have "r = Some e" "Pn' = Pn" "net' = net1" by (simp_all add: final_round_def)
    with round_hit [OF round [unfolded Some]] assms(2) show ?thesis by auto
  next
    case None
    obtain net2 Pn2 where merge: "mergeContacts a target cs (net1, Pn) = Inr (net2, Pn2)"
      using assms(1) False round None by (cases "mergeContacts a target cs (net1, Pn)") (auto simp: final_round_def)
    with assms(1) False round None have "r = None" "Pn' = Pn2" "net' = net2" by (simp_all add: final_round_def)
    with round_merge [OF round [unfolded None] merge assms(2)] show ?thesis by auto
  qed
qed

lemma iterative_search_spec:
  assumes "search_loop roundFn a target Pn queried closestSeen hopIdx (net, hops, x) = Inr ((net', hops', x'), r, Pn')"
    and "candidates (kn_ID (kad_node net a)) target (kc_K (kn_Config (kad_node net a))) Pn"
  shows "candidates (kn_ID (kad_node net a)) target (kc_K (kn_Config (kad_node net a))) Pn' \<and>
    keeps target (kc_K (kn_Config (kad_node net a))) Pn Pn' \<and> (case r of None \<Rightarrow> tables_only net net' | Some e \<Rightarrow> found net net' e)"
  using assms
proof (induction "card (UNIV - set queried)" arbitrary: Pn queried closestSeen hopIdx net hops x rule: less_induct)
  case less
  let ?self = "kn_ID (kad_node net a)" and ?k = "kc_K (kn_Config (kad_node net a))"
  let ?m = "max 1 (nat (kc_Alpha (kn_Config (kad_node net a))))"
  let ?batch = "take ?m (filter (\<lambda>c. c_ID c \<notin> set queried) Pn)"
  let ?q = "map c_ID ?batch @ queried"
  note unfolded = less.prems(1) [unfolded search_loop.simps [of _ _ _ Pn queried closestSeen] fst_conv Let_def]
  show ?case
  proof (cases "?batch = []")
    case True
    with unfolded less.prems(2) show ?thesis by auto
  next
    case False
    obtain net1 hops1 x1 cs r1 where round: "roundFn ?batch hopIdx (net, hops, x) = Inr ((net1, hops1, x1), cs, r1)"
      using unfolded False by (cases "roundFn ?batch hopIdx (net, hops, x)") auto
    show ?thesis
    proof (cases r1)
      case (Some e)
      with unfolded False round have "r = Some e" "Pn' = Pn" "net' = net1" by simp_all
      with round_hit [OF round [unfolded Some]] less.prems(2) show ?thesis by auto
    next
      case None
      obtain net2 Pn2 where merge: "mergeContacts a target cs (net1, Pn) = Inr (net2, Pn2)"
        using unfolded False round None by (cases "mergeContacts a target cs (net1, Pn)") auto
      note step = round_merge [OF round [unfolded None] merge less.prems(2)]
      then have step2: "tables_only net net2" "candidates ?self target ?k Pn2" "keeps target ?k Pn Pn2" by auto
      have same: "kn_ID (kad_node net2 a) = ?self" "kn_Config (kad_node net2 a) = kn_Config (kad_node net a)"
        using tables_only_node [OF step2(1)] by auto
      consider (empty) "Pn2 = []" | (final) p ps where "Pn2 = p # ps" "c_ID p = closestSeen" | (next_round) p ps where "Pn2 = p # ps" "c_ID p \<noteq> closestSeen"
        by (cases Pn2) auto
      then show ?thesis
      proof cases
        case empty
        with unfolded False round None merge step2 show ?thesis by auto
      next
        case next_round
        with unfolded False round None merge
        have rec: "search_loop roundFn a target Pn2 ?q (c_ID p) (hopIdx + 1) (net2, hops1, x1) = Inr ((net', hops', x'), r, Pn')" by simp
        from less.hyps [OF search_loop_measure [OF False] rec] step2 same
        have "candidates ?self target ?k Pn'" "keeps target ?k Pn2 Pn'" "case r of None \<Rightarrow> tables_only net2 net' | Some e \<Rightarrow> found net2 net' e" by auto
        with step2 show ?thesis by (auto intro: keeps_trans tables_only_trans found_tables split: option.splits)
      next
        case final
        with unfolded False round None merge
        have "final_round roundFn a target Pn2 ?q (hopIdx + 1) (net2, hops1, x1) = Inr ((net', hops', x'), r, Pn')" by simp
        from final_round_spec [OF this] step2 same
        have "candidates ?self target ?k Pn'" "keeps target ?k Pn2 Pn'" "case r of None \<Rightarrow> tables_only net2 net' | Some e \<Rightarrow> found net2 net' e" by auto
        with step2 show ?thesis by (auto intro: keeps_trans tables_only_trans found_tables split: option.splits)
      qed
    qed
  qed
qed

end

section \<open>Changes that store an entry\<close>

text \<open>
  \<open>stored e\<close>: apart from routing tables and events, some nodes have put the entry \<open>e\<close> into their
  store and told their anti-entropy engine.
\<close>

definition stored :: "sha1_fn \<Rightarrow> ValueEntry \<Rightarrow> KadNet \<Rightarrow> KadNet \<Rightarrow> bool" where
  "stored sha1 e net net' \<longleftrightarrow> kad_now net' = kad_now net \<and> same_net (kad_transport net) (kad_transport net') \<and>
     (\<forall>a. kn_ID (kad_node net' a) = kn_ID (kad_node net a) \<and> kn_Addr (kad_node net' a) = kn_Addr (kad_node net a) \<and>
        kn_Config (kad_node net' a) = kn_Config (kad_node net a) \<and>
        (kn_KVStore (kad_node net' a) = kn_KVStore (kad_node net a) \<and> kn_antiEntropy (kad_node net' a) = kn_antiEntropy (kad_node net a) \<or>
         kn_KVStore (kad_node net' a) = Put e (kn_KVStore (kad_node net a)) \<and>
         kn_antiEntropy (kad_node net' a) = map_option (NotifyPut sha1 (Key e) (Value e)) (kn_antiEntropy (kad_node net a)))) \<and>
     (kad_inv net \<longrightarrow> kad_inv net')"

lemma Put_idem [simp]: "Put e (Put e s) = Put e s"
proof -
  have "AList.update k v (AList.update k v m) = AList.update k v m" for k v and m :: "(ID \<times> ValueEntry) list"
    by (induction m) auto
  then show ?thesis by (simp add: Put_def gm_put_def)
qed

lemma tables_only_stored: "tables_only net net' \<Longrightarrow> stored sha1 e net net'"
  using tables_only_node [of net net'] tables_only_net [of net net'] by (simp add: stored_def)

lemma NotifyPut_idem [simp]: "NotifyPut sha1 k v (NotifyPut sha1 k v ae) = NotifyPut sha1 k v ae"
proof -
  have "AList.update k v (AList.update k v m) = AList.update k v m" for m :: "(ID \<times> byte list) list" by (induction m) auto
  then have "Update sha1 k v (Update sha1 k v t) = Update sha1 k v t" for t
    by (simp add: Update_def Let_def gm_put_def update_conv' buildRoot_def)
  then show ?thesis by (simp add: NotifyPut_def)
qed

lemma stored_trans:
  assumes "stored sha1 e n1 n2" "stored sha1 e n2 n3"
  shows "stored sha1 e n1 n3"
proof -
  have "map_option (NotifyPut sha1 k v) (map_option (NotifyPut sha1 k v) x) = map_option (NotifyPut sha1 k v) x" for k v x
    by (cases x) simp_all
  with assms show ?thesis unfolding stored_def by (metis Put_idem same_net_trans)
qed

lemma stored_refl [simp, intro]: "stored sha1 e net net"
  by (simp add: stored_def)

lemma stored_keeps:
  "stored sha1 e net net' \<Longrightarrow> kn_KVStore (kad_node net a) = Put e s \<Longrightarrow> kn_KVStore (kad_node net' a) = Put e s"
  unfolding stored_def by (metis Put_idem)

lemma put_local_stored: "stored sha1 e net (put_local sha1 a e net)" "kn_KVStore (kad_node (put_local sha1 a e net) a) = Put e (kn_KVStore (kad_node net a))"
  by (simp_all add: stored_def put_local_def kad_upd_def kad_inv_def)

lemma HandleKStore_stored:
  assumes "HandleKStore sha1 a s e net = Inr net'"
  shows "stored sha1 e net net'" "kn_KVStore (kad_node net' a) = Put e (kn_KVStore (kad_node net a))"
proof -
  obtain net1 where 1: "note_sender a s net = Inr net1" "net' = put_local sha1 a e net1"
    using assms by (auto simp: HandleKStore_def split: sum.splits)
  note t = note_sender_tables [OF 1(1)]
  show "stored sha1 e net net'" using t put_local_stored(1) 1(2) by (auto intro: stored_trans tables_only_stored)
  show "kn_KVStore (kad_node net' a) = Put e (kn_KVStore (kad_node net a))"
    using put_local_stored(2) 1(2) tables_only_node(3) [OF t] by simp
qed

lemma Transport_KStore_stored:
  assumes "Transport_KStore sha1 s t e net = Inr (net', r)"
  shows "stored sha1 e net net'" and "r = Inr () \<Longrightarrow> map_of (it_registry (kad_transport net)) (nr_Addr t) = Some h \<Longrightarrow>
    kn_KVStore (kad_node net' h) = Put e (kn_KVStore (kad_node net h))"
proof -
  obtain net1 x where rpc: "kad_rpc_from s t net = (net1, x)" by fastforce
  note t1 = kad_rpc_from_tables [OF rpc]
  have h: "map_of (it_registry (kad_transport net)) (nr_Addr t) = Some h" if "x = Inr h" for h
    using rpc that lookupFrom_Inr [of "nr_Addr s" "nr_Addr t" "kad_transport net"] by (auto simp: kad_rpc_from_def split: prod.splits)
  show "stored sha1 e net net'"
    using assms rpc t1 by (cases x) (auto simp: Transport_KStore_def split: sum.splits intro: stored_trans tables_only_stored dest: HandleKStore_stored(1))
  show "kn_KVStore (kad_node net' h) = Put e (kn_KVStore (kad_node net h))"
    if "r = Inr ()" "map_of (it_registry (kad_transport net)) (nr_Addr t) = Some h"
    using assms rpc that HandleKStore_stored(2) [of sha1 h s e net1 net'] tables_only_node(3) [OF t1] h
    by (cases x) (auto simp: Transport_KStore_def split: sum.splits)
qed

section \<open>Lookups of nodes\<close>

lemma runIterativeRound_calls:
  assumes "runIterativeRound sched a batch t m h call (net, hops) = Inr ((net', hops'), rs)"
  obtains net0 where "round_calls call (sched batch) net = Inr (net0, rs)" "tables_only net0 net'"
  using assms by (auto simp: runIterativeRound_def emitLookupHop_def Let_def split: sum.splits)

interpretation fn: lookup_round "find_node_round sched a target" "\<lambda>_ _ _. False" for sched a target
proof
  fix batch h net hops x net' hops' x' cs
  assume "find_node_round sched a target batch h (net, hops, x) = Inr ((net', hops', x'), cs, None)"
  then obtain rs where r: "runIterativeRound sched a batch target ''kad_batch'' h (find_node_call a target) (net, hops) = Inr ((net', hops'), rs)"
    by (auto simp: find_node_round_def split: sum.splits)
  show "tables_only net net'"
  proof (rule runIterativeRound_calls [OF r])
    fix net0 assume 0: "round_calls (find_node_call a target) (sched batch) net = Inr (net0, rs)" "tables_only net0 net'"
    have "tables_only net net0 \<and> (\<forall>(c, x) \<in> set rs. True)" by (rule round_calls_rule [OF _ _ 0(1)]) (auto dest: find_node_call_tables)
    with 0(2) show ?thesis by (blast intro: tables_only_trans)
  qed
qed (auto simp: find_node_round_def split: sum.splits)

lemma KClosest_candidates:
  assumes "kad_inv net" "KClosest (kn_RoutingTable (kad_node net a)) target k = Inr cs"
  shows "candidates (kn_ID (kad_node net a)) target k cs"
    "\<forall>x \<in> contact_ids (AllContacts (kn_RoutingTable (kad_node net a))) - contact_ids cs.
       int (length cs) = k \<and> (\<forall>y \<in> contact_ids cs. XORDistance y target < XORDistance x target)"
proof -
  let ?rt = "kn_RoutingTable (kad_node net a)"
  have inv: "table_ok ?rt" "rt_Self ?rt = kn_ID (kad_node net a)" using assms(1) by (simp_all add: kad_inv_def)
  have k: "0 \<le> k" using KClosest_spec [OF inv(1), of target k] assms(2) by auto
  have cs: "set cs \<subseteq> set (AllContacts ?rt)" "length cs = min (nat k) (length (AllContacts ?rt))"
      "sorted_wrt (<) (map (\<lambda>c. XORDistance (c_ID c) target) cs)"
      "\<forall>c \<in> set (AllContacts ?rt) - set cs. \<forall>d \<in> set cs. XORDistance (c_ID d) target < XORDistance (c_ID c) target"
    using KClosest_spec [OF inv(1), of target k] assms(2) by auto
  have "kn_ID (kad_node net a) \<notin> contact_ids (AllContacts ?rt)"
    using AllContacts_bucket [OF inv(1), of "kn_ID (kad_node net a)"] BucketIndex_range(3) [of "rt_Self ?rt" "rt_Self ?rt"] inv(2) by simp
  with cs k show "candidates (kn_ID (kad_node net a)) target k cs" by (auto simp: candidates_def contact_ids_def)
  show "\<forall>x \<in> contact_ids (AllContacts ?rt) - contact_ids cs. int (length cs) = k \<and> (\<forall>y \<in> contact_ids cs. XORDistance y target < XORDistance x target)"
  proof
    fix x assume "x \<in> contact_ids (AllContacts ?rt) - contact_ids cs"
    then obtain c where c: "c \<in> set (AllContacts ?rt) - set cs" "x = c_ID c" by (auto simp: contact_ids_def)
    have "length cs \<noteq> length (AllContacts ?rt)"
    proof
      assume "length cs = length (AllContacts ?rt)"
      moreover have "distinct cs" using cs(3) by (simp add: strict_sorted_iff distinct_map)
      ultimately have "set cs = set (AllContacts ?rt)" using cs(1) distinct_ids_AllContacts [OF inv(1)]
        by (metis card_subset_eq distinct_card distinct_map finite_set)
      with c show False by simp
    qed
    with cs(2) k have "int (length cs) = k" by linarith
    with c cs(4) show "int (length cs) = k \<and> (\<forall>y \<in> contact_ids cs. XORDistance y target < XORDistance x target)" by (auto simp: contact_ids_def)
  qed
qed

lemma IterativeFindNode_spec:
  assumes "kad_inv net" "IterativeFindNode sched a target net = Inr (net', cs, hops)"
  shows "tables_only net net'" "candidates (kn_ID (kad_node net a)) target (kc_K (kn_Config (kad_node net a))) cs"
    "\<forall>x \<in> contact_ids (AllContacts (kn_RoutingTable (kad_node net a))) - contact_ids cs.
       int (length cs) = kc_K (kn_Config (kad_node net a)) \<and> (\<forall>y \<in> contact_ids cs. XORDistance y target < XORDistance x target)"
proof -
  let ?rt = "kn_RoutingTable (kad_node net a)" and ?k = "kc_K (kn_Config (kad_node net a))" and ?self = "kn_ID (kad_node net a)"
  obtain seeds where seeds: "KClosest ?rt target ?k = Inr seeds" using assms(2) by (auto simp: IterativeFindNode_def split: sum.splits)
  with assms(2) obtain r where "search_loop (find_node_round sched a target) a target seeds [?self] (if seeds \<noteq> [] then c_ID (hd seeds) else 0) 0 (net, [], ())
      = Inr ((net', hops, ()), r, cs)"
    by (auto simp: IterativeFindNode_def iterativeSearch_def split: sum.splits)
  note spec = fn.iterative_search_spec [OF this KClosest_candidates(1) [OF assms(1) seeds]]
  then show "tables_only net net'" and cs: "candidates ?self target ?k cs" by (auto split: option.splits)
  have all: "keeps target ?k (AllContacts ?rt) seeds" using KClosest_candidates(2) [OF assms(1) seeds] by (simp add: keeps_def)
  have "keeps target ?k (AllContacts ?rt) cs"
    by (rule keeps_trans [OF all _ KClosest_candidates(1) [OF assms(1) seeds] cs]) (use spec in blast)
  then show "\<forall>x \<in> contact_ids (AllContacts ?rt) - contact_ids cs. int (length cs) = ?k \<and> (\<forall>y \<in> contact_ids cs. XORDistance y target < XORDistance x target)"
    by (simp add: keeps_def)
qed

text \<open>
  C2. A node lookup, on well-formed tables and with calls that may fail in any way and take effect
  in any order, returns contacts in strictly increasing distance from the target, at most \<open>K\<close>
  and never the node itself. The result is never worse than the table the lookup started from:
  a contact of that table is missing only if \<open>K\<close> closer ones are returned. The lookup changes
  routing tables only: every node keeps its identifier, store, configuration and all its other
  fields, the transport keeps everything but the position in its random draws, and the clock
  stands still (events are emitted). All tables are well-formed afterwards and keep their
  bucket size.
\<close>

theorem kad_find_node_result:
  assumes "kad_inv net" "IterativeFindNode sched a target net = Inr (net', cs, hops)"
  shows "sorted_wrt (<) (map (\<lambda>c. XORDistance (c_ID c) target) cs) \<and> int (length cs) \<le> kc_K (kn_Config (kad_node net a)) \<and>
    kn_ID (kad_node net a) \<notin> contact_ids cs \<and>
    (\<forall>x \<in> contact_ids (AllContacts (kn_RoutingTable (kad_node net a))) - contact_ids cs.
       int (length cs) = kc_K (kn_Config (kad_node net a)) \<and> (\<forall>y \<in> contact_ids cs. XORDistance y target < XORDistance x target)) \<and>
    kad_inv net' \<and> (\<forall>b. kn_KVStore (kad_node net' b) = kn_KVStore (kad_node net b)) \<and>
    (\<forall>b. kad_node net' b = (kad_node net b)\<lparr>kn_RoutingTable := kn_RoutingTable (kad_node net' b)\<rparr> \<and>
       rt_K (kn_RoutingTable (kad_node net' b)) = rt_K (kn_RoutingTable (kad_node net b))) \<and>
    kad_transport net' = (kad_transport net)\<lparr>it_pos := it_pos (kad_transport net')\<rparr> \<and> kad_now net' = kad_now net"
proof -
  note spec = IterativeFindNode_spec [OF assms]
  have kept: "kad_node net' b = (kad_node net b)\<lparr>kn_RoutingTable := kn_RoutingTable (kad_node net' b)\<rparr>"
    "rt_K (kn_RoutingTable (kad_node net' b)) = rt_K (kn_RoutingTable (kad_node net b))"
    "kn_KVStore (kad_node net' b) = kn_KVStore (kad_node net b)" for b
    using spec(1) tables_only_node [OF spec(1)] unfolding tables_only_def by (blast, blast, simp)
  have rest: "kad_inv net'" "kad_transport net' = (kad_transport net)\<lparr>it_pos := it_pos (kad_transport net')\<rparr>" "kad_now net' = kad_now net"
    using spec(1) assms(1) unfolding tables_only_def same_net_def by blast+
  show ?thesis
    by (intro conjI allI kept rest spec(3); use spec(2) in \<open>simp add: candidates_def\<close>)
qed

section \<open>Lookups of values\<close>

text \<open>What a round that finds a value guarantees: some node holds it, and it is cached at most.\<close>

definition value_found :: "sha1_fn \<Rightarrow> ID \<Rightarrow> KadNet \<Rightarrow> KadNet \<Rightarrow> ValueEntry \<Rightarrow> bool" where
  "value_found sha1 key net net' e \<longleftrightarrow> (\<exists>h. Get (kad_now net) (kn_KVStore (kad_node net h)) key = Some e) \<and> stored sha1 e net net'"

lemma scan_values_found:
  assumes "scan_values sha1 a key rs m new net = Inr (net', m', new', Some e)"
  shows "(\<exists>c. (c, Inl e) \<in> set rs) \<and> stored sha1 e net net'"
  using assms
  by (induction sha1 a key rs m new net rule: scan_values.induct)
     (auto split: option.splits sum.splits intro: Transport_KStore_stored(1))

lemma scan_values_miss: "scan_values sha1 a key rs m new net = Inr (net', m', new', None) \<Longrightarrow> net' = net"
  by (induction sha1 a key rs m new net rule: scan_values.induct) (auto split: option.splits sum.splits)

interpretation fv: lookup_round "find_value_round sha1 sched a key" "value_found sha1 key" for sha1 sched a key
proof
  fix batch h net hops x net' hops' x' cs r
  have split: "\<exists>net1 rs. tables_only net net1 \<and> (\<forall>(c, x) \<in> set rs. \<forall>e. x = Inl e \<longrightarrow> (\<exists>h. Get (kad_now net) (kn_KVStore (kad_node net h)) key = Some e)) \<and>
      scan_values sha1 a key rs x [] net1 = Inr (net', x', cs, r)"
    if round: "find_value_round sha1 sched a key batch h (net, hops, x) = Inr ((net', hops', x'), cs, r)" for r
  proof -
    obtain net1 rs where r: "runIterativeRound sched a batch key ''find_value'' h (find_value_call a key) (net, hops) = Inr ((net1, hops'), rs)"
        "scan_values sha1 a key rs x [] net1 = Inr (net', x', cs, r)"
      using round by (auto simp: find_value_round_def split: sum.splits)
    show ?thesis
    proof (rule runIterativeRound_calls [OF r(1)])
      fix net0 assume 0: "round_calls (find_value_call a key) (sched batch) net = Inr (net0, rs)" "tables_only net0 net1"
      have "tables_only net net0 \<and> (\<forall>(c, x) \<in> set rs. \<forall>e. x = Inl e \<longrightarrow> (\<exists>h. Get (kad_now net) (kn_KVStore (kad_node net h)) key = Some e))"
      proof (rule round_calls_rule [OF _ _ 0(1)])
        show "tables_only n n' \<and> (\<forall>x. r = Some x \<longrightarrow> (\<forall>e. x = Inl e \<longrightarrow> (\<exists>h. Get (kad_now n) (kn_KVStore (kad_node n h)) key = Some e)))"
          if "find_value_call a key c n = Inr (n', r)" for c n n' r
          using find_value_call_tables [OF that] by blast
        show "\<forall>e. x = Inl e \<longrightarrow> (\<exists>h. Get (kad_now n) (kn_KVStore (kad_node n h)) key = Some e)"
          if "tables_only n n'" "\<forall>e. x = Inl e \<longrightarrow> (\<exists>h. Get (kad_now n') (kn_KVStore (kad_node n' h)) key = Some e)"
          for n n' and x :: "ValueEntry + Contact list"
          using that(2) tables_only_node(3,6) [OF that(1)] by simp
      qed
      with 0(2) r(2) show ?thesis by (blast intro: tables_only_trans)
    qed
  qed
  show "tables_only net net'" if "find_value_round sha1 sched a key batch h (net, hops, x) = Inr ((net', hops', x'), cs, None)"
    using split [OF that] by (auto dest: scan_values_miss)
  show "value_found sha1 key net net' e" if "find_value_round sha1 sched a key batch h (net, hops, x) = Inr ((net', hops', x'), cs, Some e)" for e
  proof -
    note ex = split [OF that]
    obtain net1 rs where 1: "tables_only net net1" "scan_values sha1 a key rs x [] net1 = Inr (net', x', cs, Some e)"
        "\<forall>(c, x) \<in> set rs. \<forall>e. x = Inl e \<longrightarrow> (\<exists>h. Get (kad_now net) (kn_KVStore (kad_node net h)) key = Some e)"
      using ex by blast
    have "stored sha1 e net net'" using tables_only_stored [OF 1(1)] scan_values_found [OF 1(2)] stored_trans by blast
    with scan_values_found [OF 1(2)] 1(3) show ?thesis by (auto simp: value_found_def)
  qed
next
  fix n1 n2 n3 e assume "tables_only n1 n2" "value_found sha1 key n2 n3 e"
  then show "value_found sha1 key n1 n3 e"
    using tables_only_node(3,6) [of n1 n2] unfolding value_found_def by (metis stored_trans tables_only_stored)
qed

lemma IterativeFindValue_spec:
  assumes "kad_inv net" "IterativeFindValue sha1 sched a key net = Inr (net', r, cs, hops)"
  shows "case r of Some e \<Rightarrow> value_found sha1 key net net' e
    | None \<Rightarrow> Get (kad_now net) (kn_KVStore (kad_node net a)) key = None \<and> tables_only net net'"
proof (cases "Get (kad_now net) (kn_KVStore (kad_node net a)) key")
  case (Some e)
  with assms(2) have "r = Some e" "net' = net" by (simp_all add: IterativeFindValue_def)
  with Some show ?thesis by (auto simp: value_found_def)
next
  case None
  let ?rt = "kn_RoutingTable (kad_node net a)" and ?k = "kc_K (kn_Config (kad_node net a))" and ?self = "kn_ID (kad_node net a)"
  obtain seeds where seeds: "KClosest ?rt key ?k = Inr seeds" using assms(2) None by (auto simp: IterativeFindValue_def Let_def split: sum.splits)
  show ?thesis
  proof (cases "seeds = []")
    case True
    with assms(2) None seeds show ?thesis by (auto simp: IterativeFindValue_def Let_def)
  next
    case False
    with assms(2) None seeds obtain x where "search_loop (find_value_round sha1 sched a key) a key seeds [?self] (c_ID (hd seeds)) 0 (net, [], None)
        = Inr ((net', hops, x), r, cs)"
      by (cases seeds) (auto simp: IterativeFindValue_def Let_def iterativeSearch_def split: sum.splits)
    from fv.iterative_search_spec [OF this KClosest_candidates(1) [OF assms(1) seeds]] None show ?thesis by (cases r) auto
  qed
qed

text \<open>
  C32. A value lookup is sound: an entry it returns is held, unexpired, by some node when the lookup
  starts, under the key asked for, and the lookup changes no store except that nodes may now
  hold a copy of that entry. A lookup that finds nothing changes no store at all.
\<close>

theorem kad_find_value_sound:
  assumes "kad_inv net" "IterativeFindValue sha1 sched a key net = Inr (net', r, cs, hops)"
  shows "case r of
      Some e \<Rightarrow> (\<exists>h. Get (kad_now net) (kn_KVStore (kad_node net h)) key = Some e) \<and>
        (\<forall>b. kn_KVStore (kad_node net' b) \<in> {kn_KVStore (kad_node net b), Put e (kn_KVStore (kad_node net b))})
    | None \<Rightarrow> Get (kad_now net) (kn_KVStore (kad_node net a)) key = None \<and> (\<forall>b. kn_KVStore (kad_node net' b) = kn_KVStore (kad_node net b))"
  using IterativeFindValue_spec [OF assms] by (cases r) (auto simp: value_found_def stored_def tables_only_node)

end
