(* ===== verification/Gossip.thy ===== *)
theory Gossip
  imports Kademlia
begin

text \<open>
  Anti-entropy between Kademlia nodes, \<^verbatim>\<open>internal/gossip/gossip.go\<close>: one exchange with a peer,
  and the rounds that the goroutine of an engine runs. The engine of a node works on that
  node's store and calls the peer through the transport. The shuffle of the peers is an
  argument; the list of peers is one too, since the orchestrator supplies it.
\<close>

datatype copy = LocalCopy | PeerCopy

text \<open>The body of the loop over the divergent keys, with the number of keys reconciled so far.\<close>

definition sync_key ::
  "sha1_fn \<Rightarrow> ctx \<Rightarrow> string \<Rightarrow> NodeRef \<Rightarrow> (ID, ValueEntry) gomap \<Rightarrow> ID \<Rightarrow> KadNet \<times> int \<Rightarrow> KadNet \<times> int" where
  "sync_key sha1 ctx a peer peerMap key = (\<lambda>(net, reconciled).
     case (Get (kad_now net) (kn_KVStore (kad_node net a)) key, map_of peerMap key) of
       (Some localEntry, None) \<Rightarrow> (fst (Kad_PutEntry sha1 ctx peer key localEntry net), reconciled + 1)
     | (None, Some peerEntry) \<Rightarrow> (put_local sha1 a peerEntry net, reconciled + 1)
     | (Some localEntry, Some peerEntry) \<Rightarrow>
         let winner = pickWinner (\<lambda>r. case r of LocalCopy \<Rightarrow> localEntry | PeerCopy \<Rightarrow> peerEntry) LocalCopy PeerCopy
         in if winner = PeerCopy then (put_local sha1 a peerEntry net, reconciled + 1)
            else (fst (Kad_PutEntry sha1 ctx peer key localEntry net), reconciled + 1)
     | (None, None) \<Rightarrow> (net, reconciled))"

definition peer_map :: "ValueEntry list \<Rightarrow> (ID, ValueEntry) gomap" where
  "peer_map peerEntries = fold (\<lambda>e m. gm_put (Key e) e m) peerEntries []"

definition syncWithPeer :: "sha1_fn \<Rightarrow> string \<Rightarrow> NodeRef \<Rightarrow> KadNet \<Rightarrow> KadNet" where
  "syncWithPeer sha1 a peer net =
     (case kn_antiEntropy (kad_node net a) of
        None \<Rightarrow> net
      | Some ae \<Rightarrow>
          let localRef = \<lparr>nr_ID = NodeIDFromAddr sha1 (ae_localAddr ae), nr_Addr = ae_localAddr ae\<rparr>;
              ctx = WithSender None localRef
          in case Kad_GetAllEntries ctx peer net of
               (net, Inl e) \<Rightarrow> net
             | (net, Inr peerEntries) \<Rightarrow>
                 let peerMerkle = merkle_of sha1 peerEntries;
                     peerMap = peer_map peerEntries
                 in if Root (ae_localMerkle ae) = Root peerMerkle then net
                    else
                      let diff = Diff sha1 (ae_localMerkle ae) peerMerkle;
                          (net, reconciled) = fold (sync_key sha1 ctx a peer peerMap) diff (net, 0)
                      in kad_emit EventGossipSync (GossipSyncPayload (IDToHex (NodeIDFromAddr sha1 (ae_localAddr ae))) (IDToHex (nr_ID peer))
                           reconciled (int (length diff)) (int (length diff) - reconciled)) net)"

definition gossipRound :: "sha1_fn \<Rightarrow> (NodeRef list \<Rightarrow> NodeRef list) \<Rightarrow> NodeRef list \<Rightarrow> string \<Rightarrow> KadNet \<Rightarrow> fault + KadNet" where
  "gossipRound sha1 shuffle getPeers a net =
     (case kn_antiEntropy (kad_node net a) of
        None \<Rightarrow> Inr net
      | Some ae \<Rightarrow>
          let net = kad_upd a (\<lambda>n. n\<lparr>kn_antiEntropy := Some (rebuildMerkleFromStore sha1 (kad_now net) (kn_KVStore n) ae)\<rparr>) net
          in if length getPeers = 0 then Inr net
             else
               let peers = shuffle getPeers;
                   perRound = gc_PeersPerRound (ae_cfg ae)
               in if int (length peers) > perRound \<and> perRound < 0 then Inl Panic
                  else Inr (fold (syncWithPeer sha1 a) (if int (length peers) > perRound then take (nat perRound) peers else peers) net))"

datatype gossip_event = GossipTick "NodeRef list" | GossipDone

fun runGossip :: "sha1_fn \<Rightarrow> (NodeRef list \<Rightarrow> NodeRef list) \<Rightarrow> string \<Rightarrow> gossip_event list \<Rightarrow> KadNet \<Rightarrow> fault + KadNet" where
  "runGossip sha1 shuffle a [] net = Inr net"
| "runGossip sha1 shuffle a (GossipDone # evs) net = Inr net"
| "runGossip sha1 shuffle a (GossipTick peers # evs) net =
     (case gossipRound sha1 shuffle peers a net of
        Inl f \<Rightarrow> Inl f
      | Inr net \<Rightarrow> runGossip sha1 shuffle a evs net)"

end
