(* ===== verification/Kad_Network.thy ===== *)
theory Kad_Network
  imports Kad_Lookup Gossip
begin

text \<open>
  Kademlia networks as a whole: where \<^verbatim>\<open>StoreValue\<close> puts an entry, and an invariant of all
  interleavings of the operations of all nodes with gossip and with changes of the surroundings.
\<close>

section \<open>Storing a value\<close>

lemma store_at_stored:
  assumes "store_at sha1 a e cs net = Inr net'"
  shows "stored sha1 e net net' \<and> (reliable (kad_transport net) \<longrightarrow>
    (\<forall>c \<in> set cs. \<forall>h. map_of (it_registry (kad_transport net)) (c_Addr c) = Some h \<longrightarrow>
       kn_KVStore (kad_node net' h) = Put e (kn_KVStore (kad_node net h))))"
  using assms
proof (induction cs arbitrary: net)
  case Nil
  then show ?case by (simp add: store_at_def)
next
  case (Cons c cs)
  obtain net1 r where 1: "Transport_KStore sha1 (Kad_Ref (kad_node net a)) (contact_ref c) e net = Inr (net1, r)"
      "store_at sha1 a e cs net1 = Inr net'"
    using Cons.prems by (auto simp: store_at_def split: sum.splits)
  note s1 = Transport_KStore_stored(1) [OF 1(1)]
  have IH: "stored sha1 e net1 net'" "reliable (kad_transport net1) \<Longrightarrow> c \<in> set cs \<Longrightarrow>
      map_of (it_registry (kad_transport net1)) (c_Addr c) = Some h \<Longrightarrow> kn_KVStore (kad_node net' h) = Put e (kn_KVStore (kad_node net1 h))" for c h
    using Cons.IH [OF 1(2)] by auto
  have same: "same_net (kad_transport net) (kad_transport net1)" using s1 by (simp add: stored_def)
  have cs: "kn_KVStore (kad_node net' h) = Put e (kn_KVStore (kad_node net h))"
    if "reliable (kad_transport net)" "d \<in> set cs" "map_of (it_registry (kad_transport net)) (c_Addr d) = Some h" for d h
  proof -
    have "kn_KVStore (kad_node net' h) = Put e (kn_KVStore (kad_node net1 h))"
      using IH(2) that same_net_fields [OF same] by simp
    moreover have "kn_KVStore (kad_node net1 h) = kn_KVStore (kad_node net h) \<or> kn_KVStore (kad_node net1 h) = Put e (kn_KVStore (kad_node net h))"
      using s1 by (auto simp: stored_def)
    ultimately show ?thesis by auto
  qed
  have "kn_KVStore (kad_node net' h) = Put e (kn_KVStore (kad_node net h))"
    if "reliable (kad_transport net)" "map_of (it_registry (kad_transport net)) (c_Addr c) = Some h" for h
  proof -
    have "r = Inr ()" using 1(1) that
      by (auto simp: Transport_KStore_def kad_rpc_from_def contact_ref_def split: sum.splits)
    from Transport_KStore_stored(2) [OF 1(1) this] that have "kn_KVStore (kad_node net1 h) = Put e (kn_KVStore (kad_node net h))"
      by (simp add: contact_ref_def)
    then show ?thesis by (rule stored_keeps [OF IH(1)])
  qed
  with cs stored_trans [OF s1 IH(1)] show ?case by auto
qed

lemma StoreValue_stored:
  assumes "kad_inv net" "StoreValue sha1 sched a key value net = Inr net'"
    and e: "e = \<lparr>Key = KeyID sha1 key, Value = value, Clock = [], Timestamp = kad_now net, TTL = kc_ExpireTTL (kn_Config (kad_node net a)),
      NodeID = IDToHex (kn_ID (kad_node net a))\<rparr>"
  obtains net1 net2 cs hops where "net1 = put_local sha1 a e net" "kad_inv net1" "IterativeFindNode sched a (KeyID sha1 key) net1 = Inr (net2, cs, hops)"
    "store_at sha1 a e cs net2 = Inr net'" "stored sha1 e net net2" "stored sha1 e net net'"
proof -
  obtain net2 cs hops where s: "IterativeFindNode sched a (KeyID sha1 key) (put_local sha1 a e net) = Inr (net2, cs, hops)" "store_at sha1 a e cs net2 = Inr net'"
    using assms(2) unfolding StoreValue_def Let_def e by (auto split: sum.splits)
  have p: "stored sha1 e net (put_local sha1 a e net)" by (rule put_local_stored(1))
  then have inv: "kad_inv (put_local sha1 a e net)" using assms(1) by (simp add: stored_def)
  have "stored sha1 e net net2" using stored_trans [OF p tables_only_stored [OF IterativeFindNode_spec(1) [OF inv s(1)]]] .
  moreover from this have "stored sha1 e net net'" using store_at_stored [OF s(2)] stored_trans by blast
  ultimately show thesis using that s inv by blast
qed

text \<open>
  \<^verbatim>\<open>StoreValue\<close> puts the entry into the own store and, over a transport without loss and
  partitions, into the store of every registered node that its lookup returns: at most \<open>K\<close>
  nodes, in increasing distance from the key. No other entry of any store changes.
\<close>

theorem kad_store_value_effect:
  assumes "kad_inv net" "StoreValue sha1 sched a key value net = Inr net'" "reliable (kad_transport net)"
    and "e = \<lparr>Key = KeyID sha1 key, Value = value, Clock = [], Timestamp = kad_now net, TTL = kc_ExpireTTL (kn_Config (kad_node net a)),
      NodeID = IDToHex (kn_ID (kad_node net a))\<rparr>"
  shows "kn_KVStore (kad_node net' a) = Put e (kn_KVStore (kad_node net a)) \<and>
    (\<forall>b. kn_KVStore (kad_node net' b) \<in> {kn_KVStore (kad_node net b), Put e (kn_KVStore (kad_node net b))}) \<and>
    (\<exists>cs. sorted_wrt (<) (map (\<lambda>c. XORDistance (c_ID c) (KeyID sha1 key)) cs) \<and> int (length cs) \<le> kc_K (kn_Config (kad_node net a)) \<and>
      (\<forall>x \<in> contact_ids (AllContacts (kn_RoutingTable (kad_node net a))) - contact_ids cs.
         int (length cs) = kc_K (kn_Config (kad_node net a)) \<and> (\<forall>y \<in> contact_ids cs. XORDistance y (KeyID sha1 key) < XORDistance x (KeyID sha1 key))) \<and>
      (\<forall>c \<in> set cs. \<forall>h. map_of (it_registry (kad_transport net)) (c_Addr c) = Some h \<longrightarrow>
         kn_KVStore (kad_node net' h) = Put e (kn_KVStore (kad_node net h))))"
proof (rule StoreValue_stored [OF assms(1,2,4)])
  fix net1 net2 cs hops
  assume *: "net1 = put_local sha1 a e net" "kad_inv net1" "IterativeFindNode sched a (KeyID sha1 key) net1 = Inr (net2, cs, hops)"
    "store_at sha1 a e cs net2 = Inr net'" "stored sha1 e net net2" "stored sha1 e net net'"
  note find = IterativeFindNode_spec [OF *(2,3)]
  have local: "kn_KVStore (kad_node net' a) = Put e (kn_KVStore (kad_node net a))"
    using stored_keeps [OF _ put_local_stored(2)] stored_trans [OF tables_only_stored [OF find(1)]] store_at_stored [OF *(4)] *(1) by blast
  have same: "kn_ID (kad_node net1 a) = kn_ID (kad_node net a)" "kn_Config (kad_node net1 a) = kn_Config (kad_node net a)"
    "kn_RoutingTable (kad_node net1 a) = kn_RoutingTable (kad_node net a)"
    by (simp_all add: *(1) put_local_def kad_upd_def)
  have net2: "same_net (kad_transport net) (kad_transport net2)" "kn_KVStore (kad_node net2 h) = kn_KVStore (kad_node net h) \<or>
      kn_KVStore (kad_node net2 h) = Put e (kn_KVStore (kad_node net h))" for h
    using *(5) by (auto simp: stored_def)
  have put: "kn_KVStore (kad_node net' h) = Put e (kn_KVStore (kad_node net h))"
    if "c \<in> set cs" "map_of (it_registry (kad_transport net)) (c_Addr c) = Some h" for c h
    using store_at_stored [OF *(4)] that assms(3) same_net_fields [OF net2(1)] net2(2) [of h] by auto
  have "\<forall>b. kn_KVStore (kad_node net' b) \<in> {kn_KVStore (kad_node net b), Put e (kn_KVStore (kad_node net b))}"
    using *(6) by (auto simp: stored_def)
  with local find(2,3) put same show ?thesis by (auto simp: candidates_def)
qed

section \<open>An invariant of all interleavings\<close>

text \<open>
  A node is well-formed if its store is a map and the tree of its anti-entropy engine has the
  value of every entry that is not expired.
\<close>

definition node_wf :: "sha1_fn \<Rightarrow> time \<Rightarrow> KademliaNode \<Rightarrow> bool" where
  "node_wf sha1 now n \<longleftrightarrow> kv_inv (kn_KVStore n) \<and> (\<forall>ae. kn_antiEntropy n = Some ae \<longrightarrow> merkle_inv sha1 (ae_localMerkle ae) \<and>
     (\<forall>k e. Get now (kn_KVStore n) k = Some e \<longrightarrow> map_of (mk_data (ae_localMerkle ae)) k = Some (Value e)))"

definition kad_wf :: "sha1_fn \<Rightarrow> KadNet \<Rightarrow> bool" where
  "kad_wf sha1 net \<longleftrightarrow> kad_inv net \<and> (\<forall>a. node_wf sha1 (kad_now net) (kad_node net a))"

text \<open>
  One operation of one node, or a change of the surroundings: a new node at some reference, a
  new transport state (registrations, partitions, loss), time, eviction, deletion of a key.
\<close>

inductive kad_step :: "sha1_fn \<Rightarrow> KadNet \<Rightarrow> KadNet \<Rightarrow> bool" for sha1 where
  spawn: "kad_step sha1 net (kad_upd a (\<lambda>_. NewKademliaNode sha1 addr cfg) net)"
| engine: "kad_step sha1 net (kad_upd a (\<lambda>n. SetAntiEntropy (NewAntiEntropy sha1 (kad_now net) addr (kn_KVStore n) gcfg) n) net)"
| stop: "kad_step sha1 net (kad_upd a Kad_Stop net)"
| surroundings: "kad_step sha1 net (net\<lparr>kad_transport := t\<rparr>)"
| time: "kad_now net \<le> now \<Longrightarrow> kad_step sha1 net (net\<lparr>kad_now := now\<rparr>)"
| evict: "kad_step sha1 net (kad_upd a (\<lambda>n. n\<lparr>kn_KVStore := evictExpired (kad_now net) (kn_KVStore n)\<rparr>) net)"
| delete_key: "kad_step sha1 net (kad_upd a (\<lambda>n. n\<lparr>kn_KVStore := fst (Delete k (kn_KVStore n))\<rparr>) net)"
| create: "kad_step sha1 net (CreateNetwork a net)"
| join: "Kad_Join sched a bootstrap net = Inr net' \<Longrightarrow> kad_step sha1 net net'"
| find_node: "IterativeFindNode sched a target net = Inr (net', cs, hops) \<Longrightarrow> kad_step sha1 net net'"
| find_value: "IterativeFindValue sha1 sched a key net = Inr (net', r, cs, hops) \<Longrightarrow> kad_step sha1 net net'"
| store_value: "StoreValue sha1 sched a key' value net = Inr net' \<Longrightarrow> kad_step sha1 net net'"
| republish: "republishKeys sha1 sched a net = Inr net' \<Longrightarrow> kad_step sha1 net net'"
| refresh: "refreshBuckets sched a net = Inr net' \<Longrightarrow> kad_step sha1 net net'"
| ping: "Transport_KPing s t net = Inr (net', x) \<Longrightarrow> kad_step sha1 net net'"
| kstore: "Transport_KStore sha1 s t e net = Inr (net', x) \<Longrightarrow> kad_step sha1 net net'"
| put_entry: "Kad_PutEntry sha1 ctx t key e net = (net', y) \<Longrightarrow> kad_step sha1 net net'"
| gossip: "gossipRound sha1 shuffle peers a net = Inr net' \<Longrightarrow> kad_step sha1 net net'"

lemma node_wf_put:
  assumes "node_wf sha1 now n"
  shows "node_wf sha1 now (n\<lparr>kn_KVStore := Put e (kn_KVStore n), kn_antiEntropy := map_option (NotifyPut sha1 (Key e) (Value e)) (kn_antiEntropy n)\<rparr>)"
proof -
  have kv: "kv_inv (kn_KVStore n)" using assms by (simp add: node_wf_def)
  have "map_of (mk_data (Update sha1 (Key e) (Value e) m)) = (map_of (mk_data m))(Key e \<mapsto> Value e)" if "merkle_inv sha1 m" for m
    using mk.get_put [OF that, of "(Key e, Value e)"] by simp
  with assms show ?thesis
    by (auto simp: node_wf_def NotifyPut_def Get_lookup kv.get_put [OF kv] split: option.splits if_splits) blast+
qed

lemma node_wf_fields:
  "node_wf sha1 now n \<Longrightarrow> kn_KVStore n' = kn_KVStore n \<Longrightarrow> kn_antiEntropy n' = kn_antiEntropy n \<Longrightarrow> node_wf sha1 now n'"
  by (simp add: node_wf_def)

lemma stored_wf:
  assumes "stored sha1 e net net'" "kad_wf sha1 net"
  shows "kad_wf sha1 net'"
proof -
  have "node_wf sha1 (kad_now net) (kad_node net' a)" for a
  proof -
    have n: "node_wf sha1 (kad_now net) (kad_node net a)" using assms(2) by (simp add: kad_wf_def)
    from assms(1) consider "kn_KVStore (kad_node net' a) = kn_KVStore (kad_node net a)" "kn_antiEntropy (kad_node net' a) = kn_antiEntropy (kad_node net a)"
      | "kn_KVStore (kad_node net' a) = Put e (kn_KVStore (kad_node net a))"
        "kn_antiEntropy (kad_node net' a) = map_option (NotifyPut sha1 (Key e) (Value e)) (kn_antiEntropy (kad_node net a))"
      unfolding stored_def by blast
    then show ?thesis
    proof cases
      case 1
      then show ?thesis by (rule node_wf_fields [OF n])
    next
      case 2
      then show ?thesis by (intro node_wf_fields [OF node_wf_put [OF n]]) simp_all
    qed
  qed
  with assms show ?thesis by (simp add: kad_wf_def stored_def)
qed

lemma tables_only_wf: "tables_only net net' \<Longrightarrow> kad_wf sha1 net \<Longrightarrow> kad_wf sha1 net'"
  by (rule stored_wf [OF tables_only_stored])

lemma kad_wf_inv: "kad_wf sha1 net \<Longrightarrow> kad_inv net"
  by (simp add: kad_wf_def)

text \<open>An operation on one node that keeps its table, or makes a new one, and its well-formedness.\<close>

lemma kad_upd_wf:
  assumes "kad_wf sha1 net" "node_wf sha1 (kad_now net) (kad_node net a) \<Longrightarrow> node_wf sha1 (kad_now net) (f (kad_node net a))"
    and "table_ok (kn_RoutingTable (kad_node net a)) \<and> rt_Self (kn_RoutingTable (kad_node net a)) = kn_ID (kad_node net a) \<Longrightarrow>
      table_ok (kn_RoutingTable (f (kad_node net a))) \<and> rt_Self (kn_RoutingTable (f (kad_node net a))) = kn_ID (f (kad_node net a))"
  shows "kad_wf sha1 (kad_upd a f net)"
  using assms by (simp add: kad_wf_def kad_inv_def kad_upd_def)

lemma node_wf_shrink:
  assumes "node_wf sha1 now n" "kv_inv s" "\<And>k e. Get now s k = Some e \<Longrightarrow> Get now (kn_KVStore n) k = Some e"
  shows "node_wf sha1 now (n\<lparr>kn_KVStore := s\<rparr>)"
  using assms by (auto simp: node_wf_def)

lemma node_wf_time: "node_wf sha1 now n \<Longrightarrow> now \<le> later \<Longrightarrow> node_wf sha1 later n"
  by (fastforce simp: node_wf_def Get_lookup split: option.splits if_splits dest: IsExpired_mono)

lemma node_wf_New: "node_wf sha1 now (NewKademliaNode sha1 addr cfg)"
  by (simp add: node_wf_def NewKademliaNode_def Let_def)

lemma new_table:
  "table_ok (kn_RoutingTable (NewKademliaNode sha1 addr cfg))"
  "rt_Self (kn_RoutingTable (NewKademliaNode sha1 addr cfg)) = kn_ID (NewKademliaNode sha1 addr cfg)"
  by (simp_all add: NewKademliaNode_def Let_def table_ok_New) (simp add: NewRoutingTable_def)

lemma node_wf_engine: "node_wf sha1 now n \<Longrightarrow> node_wf sha1 now (SetAntiEntropy (NewAntiEntropy sha1 now addr (kn_KVStore n) gcfg) n)"
  by (simp add: node_wf_def SetAntiEntropy_def NewAntiEntropy_def Let_def merkle_of_store)

lemma node_wf_Stop: "node_wf sha1 now n \<Longrightarrow> node_wf sha1 now (Kad_Stop n)"
  by (auto simp: node_wf_def Kad_Stop_def AntiEntropy_Stop_def)

lemma republish_one_wf: "republish_one sha1 sched a e net = Inr net' \<Longrightarrow> kad_wf sha1 net \<Longrightarrow> kad_wf sha1 net'"
  using IterativeFindNode_spec(1) [OF kad_wf_inv] store_at_stored
  by (fastforce simp: republish_one_def split: sum.splits dest: tables_only_wf stored_wf intro: tables_only_wf [OF tables_only_emit])

lemma find_node_wf: "IterativeFindNode sched a target net = Inr (net', cs, hops) \<Longrightarrow> kad_wf sha1 net \<Longrightarrow> kad_wf sha1 net'"
  using IterativeFindNode_spec(1) [OF kad_wf_inv] tables_only_wf by blast

lemma refresh_wf:
  assumes "refreshBuckets sched a net = Inr net'" "kad_wf sha1 net"
  shows "kad_wf sha1 net'"
  using assms(1) unfolding refreshBuckets_def
proof (rule foldM_rule [where P = "kad_wf sha1", OF _ assms(2)])
  show "kad_wf sha1 s'"
    if "kad_wf sha1 s" "(if KBucket_Len (rt_Buckets (kn_RoutingTable (kad_node s a)) ! i) = 0
        then (case IterativeFindNode sched a (refresh_target (kn_ID (kad_node s a)) i) s of Inl f \<Rightarrow> Inl f | Inr (net, _) \<Rightarrow> Inr net) else Inr s) = Inr s'"
    for i s s'
    using that by (auto split: if_splits sum.splits dest: find_node_wf)
qed

lemma Kad_Join_tables: "Kad_Join sched a b net = Inr net' \<Longrightarrow> kad_inv net \<Longrightarrow> tables_only net net'"
proof -
  assume "Kad_Join sched a b net = Inr net'" and inv: "kad_inv net"
  then obtain net1 net2 cs hops where 1: "updateRoutingTable [] a b net = Inr net1" "IterativeFindNode sched a (kn_ID (kad_node net1 a)) net1 = Inr (net2, cs, hops)"
      and net': "\<exists>t p. net' = kad_emit t p net2"
    by (auto simp: Kad_Join_def split: sum.splits) blast
  note t1 = updateRoutingTable_tables [OF 1(1)]
  from IterativeFindNode_spec(1) [OF tables_only_node(7) [OF t1 inv] 1(2)] t1 net' show "tables_only net net'"
    by (auto intro: tables_only_trans)
qed

lemma Kad_PutEntry_stored: "Kad_PutEntry sha1 ctx t key e net = (net', y) \<Longrightarrow> stored sha1 e net net'"
proof -
  assume put: "Kad_PutEntry sha1 ctx t key e net = (net', y)"
  obtain net1 x where rpc: "kad_rpc ctx t net = (net1, x)" by fastforce
  have "tables_only net net1"
    using rpc by (auto simp: kad_rpc_def tables_only_def kad_inv_def split: prod.splits dest: lookupForContext_same_net)
  then have "stored sha1 e net net1" by (rule tables_only_stored)
  with put rpc put_local_stored(1) [of sha1 e net1] show ?thesis
    by (cases x) (auto simp: Kad_PutEntry_def Kad_HandlePutEntry_def intro: stored_trans)
qed

lemma kad_rpc_tables: "kad_rpc ctx t net = (net', x) \<Longrightarrow> tables_only net net'"
  by (auto simp: kad_rpc_def tables_only_def kad_inv_def split: prod.splits dest: lookupForContext_same_net)

text \<open>A call of \<^verbatim>\<open>PutEntry\<close> by the engine, and each step of its loop, stores one entry.\<close>

lemma sync_put_stored: "stored sha1 e net (fst (Kad_PutEntry sha1 ctx t key e net))"
  by (rule Kad_PutEntry_stored [OF prod.collapse [symmetric]])

lemma sync_key_stored: "\<exists>e. stored sha1 e net (fst (sync_key sha1 ctx a peer pm k (net, m)))"
proof -
  have "sync_key sha1 ctx a peer pm k (net, m) = (net, m) \<or> (\<exists>e m'. sync_key sha1 ctx a peer pm k (net, m) = (put_local sha1 a e net, m')) \<or>
      (\<exists>e m'. sync_key sha1 ctx a peer pm k (net, m) = (fst (Kad_PutEntry sha1 ctx peer k e net), m'))"
    by (auto simp: sync_key_def Let_def split: option.split)
  then show ?thesis
    using put_local_stored(1) [of sha1 _ net a] sync_put_stored [of sha1 _ net ctx peer k] by (metis fst_conv stored_refl)
qed

lemma sync_fold_rule:
  assumes "P net" "\<And>n n' e. P n \<Longrightarrow> stored sha1 e n n' \<Longrightarrow> P n'"
  shows "P (fst (fold (sync_key sha1 ctx a peer pm) ks (net, m)))"
  using assms(1)
proof (induction ks arbitrary: net m)
  case (Cons k ks)
  obtain n' m' where step: "sync_key sha1 ctx a peer pm k (net, m) = (n', m')" by fastforce
  with sync_key_stored [of sha1 net ctx a peer pm k m] assms(2) [OF Cons.prems] have "P n'" by auto
  with Cons.IH [of n' m'] step show ?case by simp
qed simp

text \<open>An exchange either ends early, or runs the loop on the differences of the two trees.\<close>

lemma syncWithPeer_cases:
  obtains (skip) "tables_only net (syncWithPeer sha1 a peer net)"
  | (sync) ae ctx net1 h t p where "kn_antiEntropy (kad_node net a) = Some ae" "tables_only net net1"
      "ctx = Some \<lparr>nr_ID = NodeIDFromAddr sha1 (ae_localAddr ae), nr_Addr = ae_localAddr ae\<rparr>" "kad_rpc ctx peer net = (net1, Inr h)"
      "syncWithPeer sha1 a peer net = kad_emit t p (fst (fold (sync_key sha1 ctx a peer (peer_map (All (kad_now net1) (kn_KVStore (kad_node net1 h)))))
         (Diff sha1 (ae_localMerkle ae) (merkle_of sha1 (All (kad_now net1) (kn_KVStore (kad_node net1 h))))) (net1, 0)))"
proof (cases "kn_antiEntropy (kad_node net a)")
  case None
  then show thesis by (intro skip) (simp add: syncWithPeer_def)
next
  case (Some ae)
  let ?ctx = "Some \<lparr>nr_ID = NodeIDFromAddr sha1 (ae_localAddr ae), nr_Addr = ae_localAddr ae\<rparr>"
  obtain net1 x where rpc: "kad_rpc ?ctx peer net = (net1, x)" by fastforce
  note t1 = kad_rpc_tables [OF rpc]
  show thesis
  proof (cases x)
    case (Inl e)
    with Some rpc t1 show thesis by (intro skip) (simp add: syncWithPeer_def WithSender_def Kad_GetAllEntries_def Let_def)
  next
    case (Inr h)
    let ?entries = "All (kad_now net1) (kn_KVStore (kad_node net1 h))"
    have get: "Kad_GetAllEntries ?ctx peer net = (net1, Inr ?entries)"
      using rpc Inr by (simp add: Kad_GetAllEntries_def Kad_HandleGetAllEntries_def)
    show thesis
    proof (cases "Root (ae_localMerkle ae) = Root (merkle_of sha1 ?entries)")
      case True
      with Some get t1 show thesis by (intro skip) (simp add: syncWithPeer_def WithSender_def Let_def)
    next
      case False
      with Some get show thesis by (intro sync [OF Some t1 refl rpc [unfolded Inr]]) (simp add: syncWithPeer_def WithSender_def Let_def split_def)
    qed
  qed
qed

lemma syncWithPeer_wf: "kad_wf sha1 net \<Longrightarrow> kad_wf sha1 (syncWithPeer sha1 a peer net)"
proof (rule syncWithPeer_cases [of net sha1 a peer])
  fix ae ctx net1 h t p pm ks
  assume wf: "kad_wf sha1 net" and t1: "tables_only net net1"
  have "kad_wf sha1 (fst (fold (sync_key sha1 ctx a peer pm) ks (net1, 0)))" for pm ks
    by (rule sync_fold_rule [where P = "kad_wf sha1", OF tables_only_wf [OF t1 wf]]) (rule stored_wf)
  moreover assume "syncWithPeer sha1 a peer net = kad_emit t p (fst (fold (sync_key sha1 ctx a peer (peer_map (All (kad_now net1) (kn_KVStore (kad_node net1 h)))))
         (Diff sha1 (ae_localMerkle ae) (merkle_of sha1 (All (kad_now net1) (kn_KVStore (kad_node net1 h))))) (net1, 0)))"
  ultimately show "kad_wf sha1 (syncWithPeer sha1 a peer net)" using tables_only_wf [OF tables_only_emit] by simp
qed (rule tables_only_wf)

lemma rebuild_wf:
  assumes "kad_wf sha1 net"
  shows "kad_wf sha1 (kad_upd a (\<lambda>n. n\<lparr>kn_antiEntropy := Some (rebuildMerkleFromStore sha1 (kad_now net) (kn_KVStore n) ae)\<rparr>) net)"
proof (rule kad_upd_wf [OF assms])
  assume "node_wf sha1 (kad_now net) (kad_node net a)"
  then show "node_wf sha1 (kad_now net) ((kad_node net a)\<lparr>kn_antiEntropy := Some (rebuildMerkleFromStore sha1 (kad_now net) (kn_KVStore (kad_node net a)) ae)\<rparr>)"
    by (simp add: node_wf_def rebuildMerkleFromStore_def merkle_of_store)
qed simp

lemma gossipRound_wf: "gossipRound sha1 shuffle peers a net = Inr net' \<Longrightarrow> kad_wf sha1 net \<Longrightarrow> kad_wf sha1 net'"
proof -
  assume r: "gossipRound sha1 shuffle peers a net = Inr net'" and wf: "kad_wf sha1 net"
  have fold: "kad_wf sha1 (fold (syncWithPeer sha1 a) ps n)" if "kad_wf sha1 n" for ps n
    using that by (induction ps arbitrary: n) (simp_all add: syncWithPeer_wf)
  show "kad_wf sha1 net'"
    using r wf fold [OF rebuild_wf [OF wf]] rebuild_wf [OF wf]
    by (auto simp: gossipRound_def Let_def split: option.splits if_splits)
qed

lemma kad_step_wf:
  assumes "kad_step sha1 net net'" "kad_wf sha1 net"
  shows "kad_wf sha1 net'"
proof -
  note inv = kad_wf_inv [OF assms(2)]
  have node: "node_wf sha1 (kad_now net) (kad_node net a)" for a using assms(2) by (simp add: kad_wf_def)
  from assms(1) show ?thesis
  proof cases
    case (spawn a addr cfg)
    show ?thesis unfolding spawn by (rule kad_upd_wf [OF assms(2)]) (simp_all add: node_wf_New new_table)
  next
    case (engine a addr gcfg)
    show ?thesis unfolding engine by (rule kad_upd_wf [OF assms(2) node_wf_engine]) (simp_all add: SetAntiEntropy_def)
  next
    case (stop a)
    show ?thesis unfolding stop by (rule kad_upd_wf [OF assms(2) node_wf_Stop]) (simp_all add: Kad_Stop_def)
  next
    case (surroundings t)
    then show ?thesis using assms(2) by (simp add: kad_wf_def kad_inv_def)
  next
    case (time now)
    then show ?thesis using assms(2) node_wf_time [OF node] by (simp add: kad_wf_def kad_inv_def)
  next
    case (evict a)
    have "kv_inv (kn_KVStore (kad_node net a))" using node by (simp add: node_wf_def)
    then have "Get (kad_now net) (evictExpired (kad_now net) (kn_KVStore (kad_node net a))) k = Get (kad_now net) (kn_KVStore (kad_node net a)) k" for k
      by (simp add: Get_evict)
    then show ?thesis unfolding evict using node
      by (intro kad_upd_wf [OF assms(2)] node_wf_shrink) (auto simp: node_wf_def)
  next
    case (delete_key a k)
    have kv: "kv_inv (kn_KVStore (kad_node net a))" using node by (simp add: node_wf_def)
    show ?thesis unfolding delete_key
      by (intro kad_upd_wf [OF assms(2)] node_wf_shrink) (auto simp: kv Get_lookup kv.get_del [OF kv] split: if_splits)
  next
    case (create a)
    then show ?thesis using tables_only_wf [OF tables_only_emit assms(2)] by (simp add: CreateNetwork_def)
  next
    case (join sched a bootstrap)
    then show ?thesis using Kad_Join_tables [OF _ inv] tables_only_wf assms(2) by blast
  next
    case (find_node sched a target cs hops)
    then show ?thesis using IterativeFindNode_spec(1) [OF inv] tables_only_wf assms(2) by blast
  next
    case (find_value sched a key r cs hops)
    from IterativeFindValue_spec [OF inv find_value] show ?thesis
      using tables_only_wf stored_wf assms(2) by (cases r) (auto simp: value_found_def)
  next
    case (store_value sched a key val)
    show ?thesis by (rule StoreValue_stored [OF inv store_value refl]) (rule stored_wf [OF _ assms(2)])
  next
    case (republish sched a)
    then show ?thesis unfolding republishKeys_def by (rule foldM_rule [where P = "kad_wf sha1", OF _ assms(2)]) (rule republish_one_wf)
  next
    case (refresh sched a)
    then show ?thesis using assms(2) by (rule refresh_wf)
  next
    case (ping s t x)
    then show ?thesis using assms(2)
      by (auto simp: Transport_KPing_def HandleKPing_def split: prod.splits sum.splits
          intro: tables_only_wf dest!: note_sender_tables kad_rpc_from_tables)
  next
    case (kstore s t e x)
    then show ?thesis using Transport_KStore_stored(1) stored_wf assms(2) by blast
  next
    case (put_entry ctx t key e y)
    then show ?thesis using Kad_PutEntry_stored stored_wf assms(2) by blast
  next
    case (gossip shuffle peers a)
    then show ?thesis using assms(2) by (rule gossipRound_wf)
  qed
qed

text \<open>
  C28. In every run of the operations of any nodes, interleaved with each other and with changes of
  the transport, the clock, deletions and evictions, the network stays well-formed. Each
  routing table has 160 buckets, each within its capacity and with distinct contacts of its
  own distance only, each store is a map, and the Merkle tree of a node's anti-entropy engine
  has the value of every entry that a read of its store returns.
\<close>

theorem kad_network_invariant:
  assumes "(kad_step sha1)\<^sup>*\<^sup>* net net'" "\<forall>a. \<exists>addr cfg. kad_node net a = NewKademliaNode sha1 addr cfg"
  shows "(\<forall>a. table_ok (kn_RoutingTable (kad_node net' a)) \<and> rt_Self (kn_RoutingTable (kad_node net' a)) = kn_ID (kad_node net' a) \<and>
      kv_inv (kn_KVStore (kad_node net' a))) \<and>
    (\<forall>a ae k e. kn_antiEntropy (kad_node net' a) = Some ae \<longrightarrow> Get (kad_now net') (kn_KVStore (kad_node net' a)) k = Some e \<longrightarrow>
      map_of (mk_data (ae_localMerkle ae)) k = Some (Value e))"
proof -
  have "node_wf sha1 (kad_now net) (kad_node net a) \<and> table_ok (kn_RoutingTable (kad_node net a)) \<and>
      rt_Self (kn_RoutingTable (kad_node net a)) = kn_ID (kad_node net a)" for a
    using assms(2) node_wf_New new_table by metis
  then have "kad_wf sha1 net" by (simp add: kad_wf_def kad_inv_def)
  with assms(1) have "kad_wf sha1 net'" by (induction rule: rtranclp_induct) (auto intro: kad_step_wf)
  then show ?thesis by (simp add: kad_wf_def kad_inv_def node_wf_def)
qed

end
