(* ===== verification/Gossip_Sync.thy ===== *)
theory Gossip_Sync
  imports Kad_Network
begin

text \<open>
  What a gossip round achieves. One exchange reconciles every divergent key to the entry with
  the later time stamp; without hash collisions the two stores then have the same values. In
  any circumstances (failed calls, colliding hashes) a round never replaces an entry by an
  older one and never invents one.
\<close>

section \<open>Reads after the steps of an exchange\<close>

definition read_at :: "KadNet \<Rightarrow> string \<Rightarrow> ID \<Rightarrow> ValueEntry option" where
  "read_at net b k = Get (kad_now net) (kn_KVStore (kad_node net b)) k"

text \<open>The later of two entries; the first one on equal time stamps.\<close>

definition newest :: "ValueEntry option \<Rightarrow> ValueEntry option \<Rightarrow> ValueEntry option" where
  "newest l p = (case (l, p) of
     (Some x, Some y) \<Rightarrow> if Timestamp x < Timestamp y then Some y else Some x
   | (Some x, None) \<Rightarrow> Some x
   | (None, _) \<Rightarrow> p)"

lemma newest_simps [simp]: "newest None p = p" "newest l None = l" "newest l l = l"
  by (simp_all add: newest_def split: option.split)

lemma newest_in: "newest l p \<in> {l, p}"
  by (auto simp: newest_def split: option.split)

lemma Get_Put_unexpired:
  "kv_inv s \<Longrightarrow> \<not> IsExpired now e \<Longrightarrow> Get now (Put e s) k = (if k = Key e then Some e else Get now s k)"
  by (simp add: Get_lookup kv.get_put)

lemma Get_Some: "kv_inv s \<Longrightarrow> Get now s k = Some e \<Longrightarrow> Key e = k \<and> \<not> IsExpired now e"
  by (auto simp: Get_lookup kv_lookup_Key split: option.splits if_splits)

lemma put_local_read:
  assumes "kv_inv (kn_KVStore (kad_node net b))" "\<not> IsExpired (kad_now net) e"
  shows "read_at (put_local sha1 b e net) c k = (if c = b \<and> k = Key e then Some e else read_at net c k)"
  using assms by (simp add: read_at_def put_local_def kad_upd_def Get_Put_unexpired)

lemma tables_only_read: "tables_only net net' \<Longrightarrow> read_at net' b k = read_at net b k"
  by (simp add: read_at_def tables_only_node)

text \<open>A remote put either fails and changes no read, or puts at the node that the address names.\<close>

lemma Kad_PutEntry_read:
  assumes "\<forall>b. kv_inv (kn_KVStore (kad_node net b))" "\<not> IsExpired (kad_now net) e" "map_of (it_registry (kad_transport net)) (nr_Addr peer) = Some h"
  shows "(\<forall>b k. read_at (fst (Kad_PutEntry sha1 ctx peer key e net)) b k = read_at net b k) \<and> \<not> reliable (kad_transport net) \<or>
    (\<forall>b k. read_at (fst (Kad_PutEntry sha1 ctx peer key e net)) b k = (if b = h \<and> k = Key e then Some e else read_at net b k))"
proof -
  obtain net1 x where rpc: "kad_rpc ctx peer net = (net1, x)" by fastforce
  note t = kad_rpc_tables [OF rpc]
  show ?thesis
  proof (cases x)
    case (Inl err)
    have "\<not> reliable (kad_transport net)" using rpc Inl assms(3) by (auto simp: kad_rpc_def)
    moreover have "fst (Kad_PutEntry sha1 ctx peer key e net) = net1" using rpc Inl by (simp add: Kad_PutEntry_def)
    ultimately show ?thesis using tables_only_read [OF t] by simp
  next
    case (Inr h')
    have "h' = h" using rpc Inr assms(3) lookupForContext_Inr [of ctx "nr_Addr peer" "kad_transport net"]
      by (auto simp: kad_rpc_def split: prod.splits)
    then have "fst (Kad_PutEntry sha1 ctx peer key e net) = put_local sha1 h e net1"
      using rpc Inr by (simp add: Kad_PutEntry_def Kad_HandlePutEntry_def)
    then show ?thesis using put_local_read [of net1 h e] tables_only_node(3,6) [OF t] tables_only_read [OF t] assms(1,2) by simp
  qed
qed

text \<open>
  \<open>partly_synced\<close>: since the state \<open>net0\<close>, some keys have been reconciled between \<open>a\<close> and \<open>h\<close>,
  and nothing else has changed.
\<close>

definition partly_synced :: "KadNet \<Rightarrow> string \<Rightarrow> string \<Rightarrow> KadNet \<Rightarrow> bool" where
  "partly_synced net0 a h net \<longleftrightarrow> kad_now net = kad_now net0 \<and> same_net (kad_transport net0) (kad_transport net) \<and>
     (\<forall>b. kv_inv (kn_KVStore (kad_node net b))) \<and> (\<forall>b k. b \<notin> {a, h} \<longrightarrow> read_at net b k = read_at net0 b k) \<and>
     (\<forall>k. (read_at net a k, read_at net h k) \<in> {(read_at net0 a k, read_at net0 h k),
        (newest (read_at net0 a k) (read_at net0 h k), newest (read_at net0 a k) (read_at net0 h k))})"

lemma stored_frame: "stored sha1 e net net' \<Longrightarrow> kad_now net' = kad_now net \<and> same_net (kad_transport net) (kad_transport net') \<and>
    (\<forall>b. kv_inv (kn_KVStore (kad_node net b)) \<longrightarrow> kv_inv (kn_KVStore (kad_node net' b)))"
  unfolding stored_def by (metis kv_inv_Put)

lemma sync_key_synced:
  assumes "partly_synced net0 a h net" "h \<noteq> a" "map_of (it_registry (kad_transport net0)) (nr_Addr peer) = Some h" "map_of pm k = read_at net0 h k"
    and "\<forall>b. kv_inv (kn_KVStore (kad_node net0 b))"
  shows "partly_synced net0 a h (fst (sync_key sha1 ctx a peer pm k (net, m))) \<and>
    (\<forall>j. j \<noteq> k \<longrightarrow> read_at (fst (sync_key sha1 ctx a peer pm k (net, m))) a j = read_at net a j \<and> read_at (fst (sync_key sha1 ctx a peer pm k (net, m))) h j = read_at net h j) \<and>
    (reliable (kad_transport net0) \<longrightarrow> (let w = newest (read_at net0 a k) (read_at net0 h k) in
       read_at (fst (sync_key sha1 ctx a peer pm k (net, m))) a k = w \<and> read_at (fst (sync_key sha1 ctx a peer pm k (net, m))) h k = w))"
proof -
  let ?net' = "fst (sync_key sha1 ctx a peer pm k (net, m))" and ?l = "read_at net0 a k" and ?p = "read_at net0 h k"
  let ?w = "newest ?l ?p"
  have now: "kad_now net = kad_now net0" and same: "same_net (kad_transport net0) (kad_transport net)" and kv: "\<forall>b. kv_inv (kn_KVStore (kad_node net b))"
    and others: "\<And>b k. b \<notin> {a, h} \<Longrightarrow> read_at net b k = read_at net0 b k"
    and pair: "\<And>k. (read_at net a k, read_at net h k) \<in> {(read_at net0 a k, read_at net0 h k),
        (newest (read_at net0 a k) (read_at net0 h k), newest (read_at net0 a k) (read_at net0 h k))}"
    using assms(1) unfolding partly_synced_def by blast+
  have reg: "map_of (it_registry (kad_transport net)) (nr_Addr peer) = Some h" "reliable (kad_transport net) = reliable (kad_transport net0)"
    using assms(3) same_net_fields [OF same] by simp_all
  have frame: "kad_now ?net' = kad_now net0 \<and> same_net (kad_transport net0) (kad_transport ?net') \<and> (\<forall>b. kv_inv (kn_KVStore (kad_node ?net' b)))"
    using sync_key_stored [of sha1 net ctx a peer pm k m] stored_frame now same kv by (metis same_net_trans)
  have key: "Key e = k \<and> \<not> IsExpired (kad_now net) e" if "read_at net0 b k = Some e \<or> read_at net b k = Some e" for b e
    using that Get_Some assms(5) kv now unfolding read_at_def by metis
  text \<open>The three outcomes of a step.\<close>
  have local: "?net' = put_local sha1 a e net \<Longrightarrow> Key e = k \<and> \<not> IsExpired (kad_now net) e \<Longrightarrow>
      read_at ?net' b j = (if b = a \<and> j = k then Some e else read_at net b j)" for e b j
    using put_local_read [of net a e sha1 b j] kv by simp
  have push: "(\<forall>b j. read_at ?net' b j = read_at net b j) \<and> \<not> reliable (kad_transport net0) \<or>
      (\<forall>b j. read_at ?net' b j = (if b = h \<and> j = k then Some e else read_at net b j))"
    if "?net' = fst (Kad_PutEntry sha1 ctx peer k e net)" "Key e = k \<and> \<not> IsExpired (kad_now net) e" for e
    using Kad_PutEntry_read [OF kv _ reg(1), of e sha1 ctx k] that reg(2) by simp
  have la: "Get (kad_now net) (kn_KVStore (kad_node net a)) k = read_at net a k" by (simp add: read_at_def)
  have "(\<forall>b j. b \<notin> {a, h} \<or> j \<noteq> k \<longrightarrow> read_at ?net' b j = read_at net b j) \<and>
     (read_at ?net' a k = ?w \<and> read_at ?net' h k = ?w \<or> read_at ?net' a k = ?l \<and> read_at ?net' h k = ?p \<and> \<not> reliable (kad_transport net0))"
  proof (cases "read_at net a k"; cases ?p)
    assume none: "read_at net a k = None" "?p = None"
    then have "?net' = net" using assms(4) la by (simp add: sync_key_def)
    with pair [of k] none show ?thesis by auto
  next
    fix y assume r: "read_at net a k = None" "?p = Some y"
    then have net': "?net' = put_local sha1 a y net" using assms(4) la by (simp add: sync_key_def)
    have "?l = None" "?w = Some y" "read_at net h k = Some y"
      using pair [of k] r by (auto simp: newest_def split: option.splits if_splits)
    then show ?thesis using local [OF net' key [of h y, OF disjI1 [OF r(2)]]] r(2) assms(2) by auto
  next
    fix x assume r: "read_at net a k = Some x" "?p = None"
    then have net': "?net' = fst (Kad_PutEntry sha1 ctx peer k x net)" using assms(4) la by (simp add: sync_key_def)
    have "?w = Some x" "?l = Some x" using pair [of k] r by auto
    then show ?thesis using push [OF net' key [of a x, OF disjI2 [OF r(1)]]] r pair [of k] assms(2) by auto
  next
    fix x y assume r: "read_at net a k = Some x" "?p = Some y"
    show ?thesis
    proof (cases "Timestamp x < Timestamp y")
      case True
      then have net': "?net' = put_local sha1 a y net" using r assms(4) la by (simp add: sync_key_def pickWinner_def time_After_def)
      have "?w = Some y" "read_at net h k = Some y" using pair [of k] r True by (auto simp: newest_def split: option.splits if_splits)
      then show ?thesis using local [OF net' key [of h y, OF disjI1 [OF r(2)]]] r(2) assms(2) by auto
    next
      case False
      then have net': "?net' = fst (Kad_PutEntry sha1 ctx peer k x net)" using r assms(4) la by (simp add: sync_key_def pickWinner_def time_After_def)
      have "?w = Some x" using pair [of k] r False by (auto simp: newest_def split: option.splits if_splits)
      then show ?thesis using push [OF net' key [of a x, OF disjI2 [OF r(1)]]] r pair [of k] assms(2) by auto
    qed
  qed
  then have others': "\<And>b j. b \<notin> {a, h} \<or> j \<noteq> k \<Longrightarrow> read_at ?net' b j = read_at net b j"
    and here: "read_at ?net' a k = ?w \<and> read_at ?net' h k = ?w \<or> read_at ?net' a k = ?l \<and> read_at ?net' h k = ?p \<and> \<not> reliable (kad_transport net0)" by blast+
  have "(read_at ?net' a j, read_at ?net' h j) \<in> {(read_at net0 a j, read_at net0 h j),
        (newest (read_at net0 a j) (read_at net0 h j), newest (read_at net0 a j) (read_at net0 h j))}" for j
    using here pair [of j] others' [of _ j] by (cases "j = k") auto
  then show ?thesis using frame others' others here by (simp add: partly_synced_def Let_def) blast
qed

lemma sync_fold_synced:
  assumes "partly_synced net0 a h net" "h \<noteq> a" "map_of (it_registry (kad_transport net0)) (nr_Addr peer) = Some h" "\<And>k. map_of pm k = read_at net0 h k"
    and "\<forall>b. kv_inv (kn_KVStore (kad_node net0 b))"
  shows "partly_synced net0 a h (fst (fold (sync_key sha1 ctx a peer pm) ks (net, m))) \<and>
    (\<forall>k. k \<notin> set ks \<longrightarrow> read_at (fst (fold (sync_key sha1 ctx a peer pm) ks (net, m))) a k = read_at net a k \<and>
       read_at (fst (fold (sync_key sha1 ctx a peer pm) ks (net, m))) h k = read_at net h k) \<and>
    (reliable (kad_transport net0) \<longrightarrow> (\<forall>k \<in> set ks. let w = newest (read_at net0 a k) (read_at net0 h k) in
       read_at (fst (fold (sync_key sha1 ctx a peer pm) ks (net, m))) a k = w \<and> read_at (fst (fold (sync_key sha1 ctx a peer pm) ks (net, m))) h k = w))"
  using assms(1)
proof (induction ks arbitrary: net m)
  case (Cons k ks)
  obtain n1 m1 where step: "sync_key sha1 ctx a peer pm k (net, m) = (n1, m1)" by fastforce
  have 1: "partly_synced net0 a h n1" "j \<noteq> k \<Longrightarrow> read_at n1 a j = read_at net a j \<and> read_at n1 h j = read_at net h j"
    "reliable (kad_transport net0) \<Longrightarrow> read_at n1 a k = newest (read_at net0 a k) (read_at net0 h k) \<and> read_at n1 h k = newest (read_at net0 a k) (read_at net0 h k)" for j
    using sync_key_synced [OF Cons.prems assms(2,3,4,5), where ?sha1.0 = sha1 and ctx = ctx and m = m and k = k] unfolding step fst_conv Let_def by blast+
  have fold: "fold (sync_key sha1 ctx a peer pm) (k # ks) (net, m) = fold (sync_key sha1 ctx a peer pm) ks (n1, m1)" by (simp add: step)
  note IH = Cons.IH [OF 1(1), of m1]
  show ?case unfolding fold Let_def
  proof (intro conjI allI impI ballI)
    fix j assume "j \<notin> set (k # ks)"
    then show "read_at (fst (fold (sync_key sha1 ctx a peer pm) ks (n1, m1))) a j = read_at net a j"
      "read_at (fst (fold (sync_key sha1 ctx a peer pm) ks (n1, m1))) h j = read_at net h j" using IH 1(2) [of j] by auto
  next
    fix j assume r: "reliable (kad_transport net0)" and j: "j \<in> set (k # ks)"
    show "read_at (fst (fold (sync_key sha1 ctx a peer pm) ks (n1, m1))) a j = newest (read_at net0 a j) (read_at net0 h j)"
      "read_at (fst (fold (sync_key sha1 ctx a peer pm) ks (n1, m1))) h j = newest (read_at net0 a j) (read_at net0 h j)"
      using IH 1(3) [OF r] r j by (cases "j \<in> set ks"; auto simp: Let_def)+
  qed (use IH in blast)
qed simp

lemma peer_map_All:
  assumes "kv_inv s"
  shows "map_of (peer_map (All now s)) k = Get now s k"
proof -
  have fold: "fold (\<lambda>e m. gm_put (Key e) e m) es m = fold (\<lambda>(k, v). gm_put k v) (map (\<lambda>e. (Key e, e)) es) m" for es and m :: "(ID, ValueEntry) gomap"
    by (simp add: fold_map comp_def)
  show ?thesis
    using gm.get_puts [of "[]" "map (\<lambda>e. (Key e, e)) (All now s)"] map_of_All [OF assms]
    by (simp add: peer_map_def fold comp_def split_def)
qed

lemma partly_synced_refl: "\<forall>b. kv_inv (kn_KVStore (kad_node net b)) \<Longrightarrow> partly_synced net a h net"
  by (simp add: partly_synced_def)

lemma partly_synced_tables:
  assumes "partly_synced net0 a h net" "tables_only net net'"
  shows "partly_synced net0 a h net'"
  using assms(1) tables_only_node [OF assms(2)] tables_only_net [OF assms(2)] tables_only_read [OF assms(2)]
  unfolding partly_synced_def by (simp add: same_net_trans) (meson same_net_trans)

lemma kad_wf_kv: "kad_wf sha1 net \<Longrightarrow> \<forall>b. kv_inv (kn_KVStore (kad_node net b))"
  by (simp add: kad_wf_def node_wf_def)

text \<open>An exchange in any circumstances.\<close>

lemma syncWithPeer_synced:
  assumes "kad_wf sha1 net" "h \<noteq> a" "map_of (it_registry (kad_transport net)) (nr_Addr peer) = Some h"
  shows "partly_synced net a h (syncWithPeer sha1 a peer net)"
proof (rule syncWithPeer_cases [of net sha1 a peer])
  note kv = kad_wf_kv [OF assms(1)]
  show "partly_synced net a h (syncWithPeer sha1 a peer net)" if "tables_only net (syncWithPeer sha1 a peer net)"
    using partly_synced_tables [OF partly_synced_refl [OF kv] that] .
  fix ae ctx net1 h' t p
  assume t1: "tables_only net net1" and rpc: "kad_rpc ctx peer net = (net1, Inr h')"
    and sync: "syncWithPeer sha1 a peer net = kad_emit t p (fst (fold (sync_key sha1 ctx a peer (peer_map (All (kad_now net1) (kn_KVStore (kad_node net1 h')))))
         (Diff sha1 (ae_localMerkle ae) (merkle_of sha1 (All (kad_now net1) (kn_KVStore (kad_node net1 h'))))) (net1, 0)))"
  have "h' = h" using rpc assms(3) lookupForContext_Inr [of ctx "nr_Addr peer" "kad_transport net"] by (auto simp: kad_rpc_def split: prod.splits)
  then have pm: "map_of (peer_map (All (kad_now net1) (kn_KVStore (kad_node net1 h')))) k = read_at net h k" for k
    using kv tables_only_node(3,6) [OF t1] by (simp add: peer_map_All read_at_def)
  note fold = sync_fold_synced [OF partly_synced_tables [OF partly_synced_refl [OF kv] t1] assms(2,3) pm kv]
  show "partly_synced net a h (syncWithPeer sha1 a peer net)"
    unfolding sync by (rule partly_synced_tables [OF _ tables_only_emit]) (use fold in blast)
qed

text \<open>An exchange over a reliable transport.\<close>

lemma syncWithPeer_reliable:
  assumes "kad_wf sha1 net" "h \<noteq> a" "map_of (it_registry (kad_transport net)) (nr_Addr peer) = Some h"
    and "kn_antiEntropy (kad_node net a) = Some ae" "reliable (kad_transport net)"
  shows "let D = set (Diff sha1 (ae_localMerkle ae) (merkle_of sha1 (All (kad_now net) (kn_KVStore (kad_node net h)))));
      w = newest (read_at net a k) (read_at net h k)
    in (read_at (syncWithPeer sha1 a peer net) a k, read_at (syncWithPeer sha1 a peer net) h k) = (if k \<in> D then (w, w) else (read_at net a k, read_at net h k))"
proof -
  note kv = kad_wf_kv [OF assms(1)]
  let ?ctx = "Some \<lparr>nr_ID = NodeIDFromAddr sha1 (ae_localAddr ae), nr_Addr = ae_localAddr ae\<rparr>"
  let ?es = "All (kad_now net) (kn_KVStore (kad_node net h))"
  let ?D = "Diff sha1 (ae_localMerkle ae) (merkle_of sha1 ?es)"
  have get: "Kad_GetAllEntries ?ctx peer net = (net, Inr ?es)"
    using assms(3,5) by (simp add: Kad_GetAllEntries_def kad_rpc_def Kad_HandleGetAllEntries_def)
  show ?thesis
  proof (cases "Root (ae_localMerkle ae) = Root (merkle_of sha1 ?es)")
    case True
    then have "?D = []" by (simp add: Diff_def Root_def)
    with True assms(4) get show ?thesis by (simp add: syncWithPeer_def WithSender_def Let_def)
  next
    case False
    have "map_of (peer_map ?es) j = read_at net h j" for j using kv by (simp add: peer_map_All read_at_def)
    note fold = sync_fold_synced [OF partly_synced_refl [OF kv] assms(2,3) this kv, of sha1 ?ctx ?D 0]
    have "\<exists>t p. syncWithPeer sha1 a peer net = kad_emit t p (fst (fold (sync_key sha1 ?ctx a peer (peer_map ?es)) ?D (net, 0)))"
      using False assms(4) get by (simp add: syncWithPeer_def WithSender_def Let_def split_def) blast
    then obtain t p where sync: "syncWithPeer sha1 a peer net = kad_emit t p (fst (fold (sync_key sha1 ?ctx a peer (peer_map ?es)) ?D (net, 0)))" by blast
    show ?thesis
      unfolding sync tables_only_read [OF tables_only_emit] Let_def using fold assms(5) by (cases "k \<in> set ?D") (simp_all add: Let_def)
  qed
qed

section \<open>Rounds\<close>

lemma rebuild_tables:
  fixes net a ae sha1
  defines "net1 \<equiv> kad_upd a (\<lambda>n. n\<lparr>kn_antiEntropy := Some (rebuildMerkleFromStore sha1 (kad_now net) (kn_KVStore n) ae)\<rparr>) net"
  shows "read_at net1 b k = read_at net b k" "kad_transport net1 = kad_transport net" "kn_KVStore (kad_node net1 b) = kn_KVStore (kad_node net b)"
    "kad_now net1 = kad_now net" "kn_antiEntropy (kad_node net1 a) = Some (rebuildMerkleFromStore sha1 (kad_now net) (kn_KVStore (kad_node net a)) ae)"
  by (simp_all add: net1_def read_at_def kad_upd_def)

text \<open>A later state never shows an older entry, and only entries that some node already had.\<close>

definition no_regress :: "KadNet \<Rightarrow> KadNet \<Rightarrow> bool" where
  "no_regress net net' \<longleftrightarrow> (\<forall>b k e. read_at net b k = Some e \<longrightarrow> (\<exists>e'. read_at net' b k = Some e' \<and> Timestamp e \<le> Timestamp e')) \<and>
     (\<forall>b k e. read_at net' b k = Some e \<longrightarrow> (\<exists>c. read_at net c k = Some e))"

lemma no_regress_trans: "no_regress n1 n2 \<Longrightarrow> no_regress n2 n3 \<Longrightarrow> no_regress n1 n3"
  unfolding no_regress_def by (meson order_trans)

lemma no_regress_refl: "no_regress n n"
  by (auto simp: no_regress_def)

lemma newest_no_regress: "l = Some e \<or> p = Some e \<Longrightarrow> \<exists>e'. newest l p = Some e' \<and> Timestamp e \<le> Timestamp e'"
  by (cases l; cases p) (auto simp: newest_def)

lemma synced_no_regress:
  assumes "partly_synced net a h net'"
  shows "no_regress net net'"
proof -
  have pair: "(read_at net' a k, read_at net' h k) \<in> {(read_at net a k, read_at net h k),
        (newest (read_at net a k) (read_at net h k), newest (read_at net a k) (read_at net h k))}"
    and others: "b \<notin> {a, h} \<Longrightarrow> read_at net' b k = read_at net b k" for b k
    using assms unfolding partly_synced_def by blast+
  have cases: "read_at net' b k = read_at net b k \<or> b \<in> {a, h} \<and> read_at net' b k = newest (read_at net a k) (read_at net h k)" for b k
    using pair [of k] others [of b k] by auto
  show ?thesis unfolding no_regress_def
  proof (intro conjI allI impI)
    fix b k e assume e: "read_at net b k = Some e"
    show "\<exists>e'. read_at net' b k = Some e' \<and> Timestamp e \<le> Timestamp e'"
      using cases [of b k] e newest_no_regress [of "read_at net a k" e "read_at net h k"] by auto
  next
    fix b k e assume e: "read_at net' b k = Some e"
    show "\<exists>c. read_at net c k = Some e"
      using cases [of b k] e newest_in [of "read_at net a k" "read_at net h k"] by auto
  qed
qed

lemma syncWithPeer_no_regress:
  assumes "kad_wf sha1 net" "map_of (it_registry (kad_transport net)) (nr_Addr peer) \<noteq> Some a"
  shows "no_regress net (syncWithPeer sha1 a peer net) \<and> same_net (kad_transport net) (kad_transport (syncWithPeer sha1 a peer net)) \<and>
    kad_wf sha1 (syncWithPeer sha1 a peer net)"
proof (cases "map_of (it_registry (kad_transport net)) (nr_Addr peer)")
  case (Some h)
  with assms(2) have "h \<noteq> a" by blast
  note synced = syncWithPeer_synced [OF assms(1) this Some]
  then show ?thesis using synced_no_regress [OF synced] syncWithPeer_wf [OF assms(1)] by (simp add: partly_synced_def)
next
  case None
  show ?thesis
  proof (rule syncWithPeer_cases [of net sha1 a peer])
    assume t: "tables_only net (syncWithPeer sha1 a peer net)"
    with tables_only_net [OF t] syncWithPeer_wf [OF assms(1)] show ?thesis by (simp add: no_regress_def tables_only_read) blast
  next
    fix ctx net1 h' assume "kad_rpc ctx peer net = (net1, Inr h')"
    then have "map_of (it_registry (kad_transport net)) (nr_Addr peer) = Some h'"
      using lookupForContext_Inr [of ctx "nr_Addr peer" "kad_transport net"] by (auto simp: kad_rpc_def split: prod.splits)
    with None show ?thesis by simp
  qed
qed

text \<open>
  C35. Gossip is safe in all circumstances: whatever calls fail and whatever hashes collide, a round
  with any list of peers never removes an entry, never replaces one by an older one, and puts
  only entries that some node held under the same key before.
\<close>

theorem gossip_never_regresses:
  assumes "kad_wf sha1 net" "gossipRound sha1 shuffle getPeers a net = Inr net'"
    and "\<forall>peer \<in> set (shuffle getPeers). map_of (it_registry (kad_transport net)) (nr_Addr peer) \<noteq> Some a"
  shows "(\<forall>b k e. Get (kad_now net) (kn_KVStore (kad_node net b)) k = Some e \<longrightarrow>
      (\<exists>e'. Get (kad_now net') (kn_KVStore (kad_node net' b)) k = Some e' \<and> Timestamp e \<le> Timestamp e')) \<and>
    (\<forall>b k e. Get (kad_now net') (kn_KVStore (kad_node net' b)) k = Some e \<longrightarrow>
      (\<exists>c. Get (kad_now net) (kn_KVStore (kad_node net c)) k = Some e))"
proof -
  have fold: "no_regress n (fold (syncWithPeer sha1 a) ps n)"
    if "kad_wf sha1 n" "\<forall>peer \<in> set ps. map_of (it_registry (kad_transport n)) (nr_Addr peer) \<noteq> Some a" for ps n
    using that
  proof (induction ps arbitrary: n)
    case (Cons p ps)
    have 1: "no_regress n (syncWithPeer sha1 a p n)" "same_net (kad_transport n) (kad_transport (syncWithPeer sha1 a p n))" "kad_wf sha1 (syncWithPeer sha1 a p n)"
      using syncWithPeer_no_regress [of sha1 n p a] Cons.prems by auto
    have "no_regress (syncWithPeer sha1 a p n) (fold (syncWithPeer sha1 a) ps (syncWithPeer sha1 a p n))"
      using Cons.prems(2) same_net_fields(1) [OF 1(2)] by (intro Cons.IH 1(3)) simp
    with 1(1) show ?case by (simp add: no_regress_trans)
  qed (simp add: no_regress_refl)
  have "no_regress net net'"
  proof (cases "kn_antiEntropy (kad_node net a)")
    case None
    with assms(2) show ?thesis by (simp add: gossipRound_def no_regress_refl)
  next
    case (Some ae)
    let ?net1 = "kad_upd a (\<lambda>n. n\<lparr>kn_antiEntropy := Some (rebuildMerkleFromStore sha1 (kad_now net) (kn_KVStore n) ae)\<rparr>) net"
    have "no_regress net ?net1" using rebuild_tables(1) [of a sha1 net ae] by (auto simp: no_regress_def)
    moreover have "\<exists>ps. set ps \<subseteq> set (shuffle getPeers) \<and> net' = fold (syncWithPeer sha1 a) ps ?net1"
    proof (cases "getPeers = []")
      case True
      with assms(2) Some show ?thesis by (intro exI [of _ "[]"]) (simp add: gossipRound_def Let_def)
    next
      case False
      with assms(2) Some show ?thesis by (auto simp: gossipRound_def Let_def split: if_splits dest: in_set_takeD)
    qed
    then obtain ps where "set ps \<subseteq> set (shuffle getPeers)" "net' = fold (syncWithPeer sha1 a) ps ?net1" by blast
    moreover have "no_regress ?net1 (fold (syncWithPeer sha1 a) ps ?net1)"
      using assms(3) calculation(2) rebuild_tables(2) [of a sha1 net ae] by (intro fold rebuild_wf assms(1)) auto
    ultimately show ?thesis using no_regress_trans by blast
  qed
  then show ?thesis by (simp add: no_regress_def read_at_def)
qed

section \<open>Convergence\<close>

text \<open>
  The strings whose hashes a comparison of two trees depends on, with the string of an absent
  key, which reads as the empty value.
\<close>

definition compared_strings :: "sha1_fn \<Rightarrow> MerkleTree \<Rightarrow> MerkleTree \<Rightarrow> byte list set" where
  "compared_strings sha1 m m' = merkle_inputs sha1 m \<union> merkle_inputs sha1 m' \<union>
     (\<lambda>k. id_bytes k @ data_get (mk_data m) k) ` set (mk_keys m @ mk_keys m') \<union> (\<lambda>k. id_bytes k @ data_get (mk_data m') k) ` set (mk_keys m @ mk_keys m')"

lemma Diff_complete:
  assumes "merkle_inv sha1 m" "merkle_inv sha1 m'" "inj_on sha1 (compared_strings sha1 m m')" "mk_keys m \<noteq> mk_keys m' \<longrightarrow> Root m \<noteq> Root m'"
  shows "set (Diff sha1 m m') = {k. data_get (mk_data m) k \<noteq> data_get (mk_data m') k}"
proof -
  have out: "map_of (mk_data t) k = None" if "merkle_inv sha1 t" "k \<notin> set (mk_keys t)" for t k
    using that by (simp add: merkle_inv_def map_of_eq_None_iff)
  have keys: "data_get (mk_data m) k \<noteq> data_get (mk_data m') k \<Longrightarrow> k \<in> set (mk_keys m) \<union> set (mk_keys m')" for k
    by (rule ccontr) (simp add: out [OF assms(1)] out [OF assms(2)] data_get_def)
  show ?thesis
  proof (cases "mk_keys m = mk_keys m'")
    case True
    have "inj_on sha1 (merkle_inputs sha1 m \<union> merkle_inputs sha1 m')"
      by (rule inj_on_subset [OF assms(3)]) (auto simp: compared_strings_def)
    from Diff_same_keys [OF assms(1,2) True this]
    have D: "set (Diff sha1 m m') = {k \<in> set (mk_keys m). map_of (mk_data m) k \<noteq> map_of (mk_data m') k}" by simp
    have some: "k \<in> set (mk_keys m) \<Longrightarrow> map_of (mk_data m) k \<noteq> None \<and> map_of (mk_data m') k \<noteq> None" for k
      using assms(1,2) True by (simp add: merkle_inv_def map_of_eq_None_iff)
    have "map_of (mk_data m) k \<noteq> map_of (mk_data m') k \<longleftrightarrow> data_get (mk_data m) k \<noteq> data_get (mk_data m') k" if "k \<in> set (mk_keys m)" for k
      using some [OF that] by (auto simp: data_get_def)
    with keys True show ?thesis unfolding D by auto
  next
    case False
    let ?S = "compared_strings sha1 m m'"
    have "leafHash sha1 k (data_get (mk_data m) k) \<noteq> leafHash sha1 k (data_get (mk_data m') k) \<longleftrightarrow> data_get (mk_data m) k \<noteq> data_get (mk_data m') k"
      if "k \<in> set (mk_keys m) \<union> set (mk_keys m')" for k
      using inj_on_eq_iff [OF assms(3), of "id_bytes k @ data_get (mk_data m) k" "id_bytes k @ data_get (mk_data m') k"] that
      by (auto simp: leafHash_def compared_strings_def)
    with keys Diff_scan(1) [OF False, of sha1] assms(4) False show ?thesis by (auto simp: Root_def)
  qed
qed

definition value_of :: "ValueEntry option \<Rightarrow> byte list" where
  "value_of e = (case e of None \<Rightarrow> [] | Some e \<Rightarrow> Value e)"

text \<open>
  C34. Gossip converges. Over a reliable transport and without hash collisions, a round with one
  peer makes the two stores agree on the value of every key (an absent key counts as the
  empty value). Where the values differed, both nodes then hold the entry with the later time
  stamp, the own one on equal time stamps; all other entries of all nodes stay as they are.
\<close>

theorem gossip_round_converges:
  assumes "kad_wf sha1 net" "kn_antiEntropy (kad_node net a) = Some ae" "0 < gc_PeersPerRound (ae_cfg ae)" "shuffle [peer] = [peer]"
    and "reliable (kad_transport net)" "map_of (it_registry (kad_transport net)) (nr_Addr peer) = Some h" "h \<noteq> a"
    and "TA = merkle_of sha1 (All (kad_now net) (kn_KVStore (kad_node net a)))" "TB = merkle_of sha1 (All (kad_now net) (kn_KVStore (kad_node net h)))"
    and "inj_on sha1 (compared_strings sha1 TA TB)" "mk_keys TA \<noteq> mk_keys TB \<longrightarrow> Root TA \<noteq> Root TB"
  shows "\<exists>net'. gossipRound sha1 shuffle [peer] a net = Inr net' \<and>
    (\<forall>k. value_of (read_at net' a k) = value_of (read_at net' h k)) \<and>
    (\<forall>k. (read_at net' a k, read_at net' h k) =
       (if value_of (read_at net a k) = value_of (read_at net h k) then (read_at net a k, read_at net h k)
        else (newest (read_at net a k) (read_at net h k), newest (read_at net a k) (read_at net h k)))) \<and>
    (\<forall>b k. b \<notin> {a, h} \<longrightarrow> read_at net' b k = read_at net b k)"
proof -
  let ?ae = "rebuildMerkleFromStore sha1 (kad_now net) (kn_KVStore (kad_node net a)) ae"
  define net1 where "net1 = kad_upd a (\<lambda>n. n\<lparr>kn_antiEntropy := Some (rebuildMerkleFromStore sha1 (kad_now net) (kn_KVStore n) ae)\<rparr>) net"
  note reb = rebuild_tables [of a sha1 net ae, folded net1_def]
  have wf: "kad_wf sha1 net1" unfolding net1_def by (rule rebuild_wf [OF assms(1)])
  have round: "gossipRound sha1 shuffle [peer] a net = Inr (syncWithPeer sha1 a peer net1)"
    using assms(2-4) by (simp add: gossipRound_def Let_def net1_def)
  have reg: "map_of (it_registry (kad_transport net1)) (nr_Addr peer) = Some h" "reliable (kad_transport net1)" using assms(5,6) reb(2) by simp_all
  note sync = syncWithPeer_reliable [OF wf assms(7) reg(1) reb(5) reg(2)]
  have kv: "kv_inv (kn_KVStore (kad_node net b))" for b using kad_wf_kv [OF assms(1)] by blast
  have data: "data_get (mk_data TA) k = value_of (read_at net a k)" "data_get (mk_data TB) k = value_of (read_at net h k)" for k
    by (simp_all add: assms(8,9) data_get_def merkle_of_store [OF kv] value_of_def read_at_def split: option.split)
  have "set (Diff sha1 TA TB) = {k. data_get (mk_data TA) k \<noteq> data_get (mk_data TB) k}"
    using assms(8-11) by (intro Diff_complete) simp_all
  then have D: "set (Diff sha1 (ae_localMerkle ?ae) (merkle_of sha1 (All (kad_now net1) (kn_KVStore (kad_node net1 h))))) =
      {k. value_of (read_at net a k) \<noteq> value_of (read_at net h k)}"
    by (simp add: rebuildMerkleFromStore_def data reb(3,4) flip: assms(8,9))
  have pair: "(read_at (syncWithPeer sha1 a peer net1) a k, read_at (syncWithPeer sha1 a peer net1) h k) =
       (if value_of (read_at net a k) = value_of (read_at net h k) then (read_at net a k, read_at net h k)
        else (newest (read_at net a k) (read_at net h k), newest (read_at net a k) (read_at net h k)))" for k
    using sync [of k] unfolding D Let_def reb(1) by simp
  have others: "\<forall>b k. b \<notin> {a, h} \<longrightarrow> read_at (syncWithPeer sha1 a peer net1) b k = read_at net b k"
    using syncWithPeer_synced [OF wf assms(7) reg(1)] reb(1) by (simp add: partly_synced_def)
  have "value_of (read_at (syncWithPeer sha1 a peer net1) a k) = value_of (read_at (syncWithPeer sha1 a peer net1) h k)" for k
    using pair [of k] by (auto split: if_splits)
  with pair others round show ?thesis by (intro exI [of _ "syncWithPeer sha1 a peer net1"]) (simp only: simp_thms)
qed

section \<open>An exchange on a concrete network\<close>

definition gossip_entry :: ValueEntry where
  "gossip_entry = \<lparr>Key = 9, Value = [1], Clock = [], Timestamp = 0, TTL = 0, NodeID = ''z''\<rparr>"

definition gossip_pair :: KadNet where
  "gossip_pair = \<lparr>kad_node = (\<lambda>b.
      if b = ''x'' then (NewKademliaNode (\<lambda>_. 3) ''x'' None)\<lparr>kn_KVStore := Put gossip_entry NewKVStore\<rparr>
      else SetAntiEntropy (NewAntiEntropy sum_hash 1 ''y'' NewKVStore None) (NewKademliaNode (\<lambda>_. 3) ''y'' None)),
     kad_transport = \<lparr>it_registry = [(''x'', ''x''), (''y'', ''y'')], it_delay = 0, it_lossRate = 0,
       it_partitions = [], it_latencyMatrix = [], it_rng = (\<lambda>_. 0), it_pos = 0\<rparr>,
     kad_events = [], kad_now = 1\<rparr>"

lemma New_no_entries: "kn_KVStore (NewKademliaNode sha1 addr cfg) = NewKVStore" "kn_antiEntropy (NewKademliaNode sha1 addr cfg) = None" "All now NewKVStore = []"
  "Get now NewKVStore k = None"
  by (simp_all add: NewKademliaNode_def Let_def All_def Get_def NewKVStore_def)

lemma gossip_pair_wf: "kad_wf sum_hash gossip_pair"
  using new_table [of "\<lambda>_. 3"]
  by (auto simp: kad_wf_def kad_inv_def node_wf_def gossip_pair_def SetAntiEntropy_def New_no_entries NewAntiEntropy_def Let_def)

lemma gossip_pair_fields:
  "reliable (kad_transport gossip_pair)" "map_of (it_registry (kad_transport gossip_pair)) ''x'' = Some ''x''"
  "map_of (it_registry (kad_transport gossip_pair)) ''y'' = Some ''y''"
  "kn_antiEntropy (kad_node gossip_pair ''y'') = Some (NewAntiEntropy sum_hash 1 ''y'' NewKVStore None)"
  "kn_KVStore (kad_node gossip_pair ''y'') = NewKVStore" "All (kad_now gossip_pair) (kn_KVStore (kad_node gossip_pair ''x'')) = [gossip_entry]"
  "read_at gossip_pair ''x'' 9 = Some gossip_entry" "read_at gossip_pair ''y'' 9 = None" "gc_PeersPerRound (ae_cfg (NewAntiEntropy sum_hash 1 ''y'' NewKVStore None)) = 2"
  by (simp_all add: gossip_pair_def reliable_def SetAntiEntropy_def New_no_entries All_def Put_def NewKVStore_def gm_put_def gossip_entry_def IsExpired_def
      read_at_def Get_def NewAntiEntropy_def Gossip_DefaultConfig_def)

theorem gossip_round_converges_witness:
  "\<exists>net'. gossipRound sum_hash id [\<lparr>nr_ID = 3, nr_Addr = ''x''\<rparr>] ''y'' gossip_pair = Inr net' \<and> read_at net' ''y'' 9 = Some gossip_entry"
proof -
  let ?TA = "merkle_of sum_hash (All (kad_now gossip_pair) (kn_KVStore (kad_node gossip_pair ''y'')))"
  let ?TB = "merkle_of sum_hash (All (kad_now gossip_pair) (kn_KVStore (kad_node gossip_pair ''x'')))"
  have A: "?TA = NewMerkleTree" by (simp add: gossip_pair_fields New_no_entries merkle_of_def)
  have B: "?TB = Update sum_hash 9 [1] NewMerkleTree" by (simp only: gossip_pair_fields) (simp add: merkle_of_def gossip_entry_def)
  have tree: "mk_keys (Update sum_hash 9 [1] NewMerkleTree) = [9]" "mk_data (Update sum_hash 9 [1] NewMerkleTree) = [(9, [1])]"
    "mk_keys NewMerkleTree = []" "mk_data NewMerkleTree = []"
    by (simp_all add: Update_def Let_def NewMerkleTree_def sort_compareIDs gm_put_def)
  have root: "Root (Update sum_hash 9 [1] NewMerkleTree) = 2305"
    by (simp add: Update_def Let_def NewMerkleTree_def sort_compareIDs gm_put_def Root_def buildRoot_def merkle_leaves_def data_get_def merkleBuild.simps)
  have height: "height 0 = 0" "height (Suc 0) = 0" by (subst height.simps, simp)+
  have strings: "compared_strings sum_hash NewMerkleTree (Update sum_hash 9 [1] NewMerkleTree) = {id_bytes 9 @ [1], id_bytes 9}"
    by (auto simp: compared_strings_def merkle_inputs_def tree data_get_def height)
  have sb: "SetBytes (id_bytes a) = uint a" for a by (metis IDToBigInt_def IDToBigInt_uint)
  have inj: "inj_on sum_hash (compared_strings sum_hash NewMerkleTree (Update sum_hash 9 [1] NewMerkleTree))"
    unfolding strings by (simp add: inj_on_def sum_hash_def SetBytes_append SetBytes_Cons sb)
  have roots: "mk_keys ?TA \<noteq> mk_keys ?TB \<longrightarrow> Root ?TA \<noteq> Root ?TB" unfolding A B root by (simp add: Root_def NewMerkleTree_def)
  have "\<exists>net'. gossipRound sum_hash id [\<lparr>nr_ID = 3, nr_Addr = ''x''\<rparr>] ''y'' gossip_pair = Inr net' \<and>
    (\<forall>k. value_of (read_at net' ''y'' k) = value_of (read_at net' ''x'' k)) \<and>
    (\<forall>k. (read_at net' ''y'' k, read_at net' ''x'' k) =
       (if value_of (read_at gossip_pair ''y'' k) = value_of (read_at gossip_pair ''x'' k) then (read_at gossip_pair ''y'' k, read_at gossip_pair ''x'' k)
        else (newest (read_at gossip_pair ''y'' k) (read_at gossip_pair ''x'' k), newest (read_at gossip_pair ''y'' k) (read_at gossip_pair ''x'' k)))) \<and>
    (\<forall>b k. b \<notin> {''y'', ''x''} \<longrightarrow> read_at net' b k = read_at gossip_pair b k)"
    by (rule gossip_round_converges [OF gossip_pair_wf gossip_pair_fields(4) _ _ gossip_pair_fields(1) _ _ refl refl inj [folded A B] roots])
      (simp_all add: gossip_pair_fields)
  then obtain net' where net': "gossipRound sum_hash id [\<lparr>nr_ID = 3, nr_Addr = ''x''\<rparr>] ''y'' gossip_pair = Inr net'"
    "(read_at net' ''y'' 9, read_at net' ''x'' 9) =
       (if value_of (read_at gossip_pair ''y'' 9) = value_of (read_at gossip_pair ''x'' 9) then (read_at gossip_pair ''y'' 9, read_at gossip_pair ''x'' 9)
        else (newest (read_at gossip_pair ''y'' 9) (read_at gossip_pair ''x'' 9), newest (read_at gossip_pair ''y'' 9) (read_at gossip_pair ''x'' 9)))" by blast
  have value1: "Value gossip_entry = [1]" by (simp add: gossip_entry_def)
  from net'(2) have "read_at net' ''y'' 9 = Some gossip_entry" by (simp add: gossip_pair_fields value_of_def value1)
  with net'(1) show ?thesis by blast
qed

theorem gossip_never_regresses_witness:
  "\<exists>net' e'. gossipRound sum_hash id [\<lparr>nr_ID = 3, nr_Addr = ''x''\<rparr>] ''y'' gossip_pair = Inr net' \<and>
     Get (kad_now net') (kn_KVStore (kad_node net' ''x'')) 9 = Some e' \<and> Timestamp gossip_entry \<le> Timestamp e'"
proof -
  obtain net' where r: "gossipRound sum_hash id [\<lparr>nr_ID = 3, nr_Addr = ''x''\<rparr>] ''y'' gossip_pair = Inr net'"
    using gossip_pair_fields(4,9) by (auto simp: gossipRound_def Let_def)
  have "Get (kad_now gossip_pair) (kn_KVStore (kad_node gossip_pair ''x'')) 9 = Some gossip_entry" using gossip_pair_fields(7) by (simp add: read_at_def)
  moreover have "\<forall>peer \<in> set (id [\<lparr>nr_ID = 3, nr_Addr = ''x''\<rparr>]). map_of (it_registry (kad_transport gossip_pair)) (nr_Addr peer) \<noteq> Some ''y''"
    by (simp add: gossip_pair_fields)
  ultimately show ?thesis using gossip_never_regresses [OF gossip_pair_wf r] r by blast
qed

end
