(* ===== verification/Vector_Clock.thy ===== *)
theory Vector_Clock
  imports KV_Store
begin

text \<open>
  Vector clocks, \<^verbatim>\<open>internal/replication/vclock.go\<close>. Counters are 64-bit words, so \<^verbatim>\<open>Increment\<close>
  wraps around. A clock denotes the function \<open>vc_get\<close> that reads an absent counter as 0;
  \<open>vc_le\<close> is the componentwise order. The lemmas show that \<^verbatim>\<open>Compare\<close> decides that order,
  that \<^verbatim>\<open>Merge\<close> is its least upper bound (an instance of \<open>replica_merge\<close>), and that
  \<^verbatim>\<open>Increment\<close> moves a clock strictly forward short of overflow.
\<close>

type_synonym VectorClock = clock

datatype ClockOrder = Before | After | Concurrent | Equal

definition vc_get :: "VectorClock \<Rightarrow> string \<Rightarrow> u64" where
  "vc_get c k = (case map_of c k of None \<Rightarrow> 0 | Some v \<Rightarrow> v)"

definition VC_Increment :: "VectorClock \<Rightarrow> string \<Rightarrow> VectorClock" where
  "VC_Increment c nodeID =
     (let next' = fold (\<lambda>(k, v) m. gm_put k v m) c []
      in gm_put nodeID (vc_get next' nodeID + 1) next')"

definition VC_Compare :: "VectorClock \<Rightarrow> VectorClock \<Rightarrow> ClockOrder" where
  "VC_Compare a b =
     (let (aLEb, bLEa) =
        fold (\<lambda>(k, av) (aLEb, bLEa).
           let bv = vc_get b k in
           (if av > bv then False else aLEb, if bv > av then False else bLEa)) a (True, True);
          bLEa = fold (\<lambda>(k, bv) bLEa. if map_of a k = None \<and> bv > 0 then False else bLEa) b bLEa
      in if aLEb \<and> bLEa then Equal
         else if aLEb then Before
         else if bLEa then After
         else Concurrent)"

definition VC_Merge :: "VectorClock \<Rightarrow> VectorClock \<Rightarrow> VectorClock" where
  "VC_Merge a b =
     (let result = fold (\<lambda>(k, v) m. gm_put k v m) a []
      in fold (\<lambda>(k, v) m. if v > vc_get m k then gm_put k v m else m) b result)"

section \<open>What the loops compute\<close>

definition vc_le :: "VectorClock \<Rightarrow> VectorClock \<Rightarrow> bool" where
  "vc_le a b \<longleftrightarrow> (\<forall>k. vc_get a k \<le> vc_get b k)"

definition vc_lt :: "VectorClock \<Rightarrow> VectorClock \<Rightarrow> bool" where
  "vc_lt a b \<longleftrightarrow> vc_le a b \<and> \<not> vc_le b a"

lemma vc_get_Nil [simp]: "vc_get [] k = 0"
  by (simp add: vc_get_def)

lemma vc_get_put [simp]: "vc_get (gm_put k v c) j = (if j = k then v else vc_get c j)"
  by (simp add: vc_get_def)

lemma vc_get_entry: "gm_wf c \<Longrightarrow> (k, v) \<in> set c \<Longrightarrow> vc_get c k = v"
  by (simp add: vc_get_def map_of_eq_Some_wf [symmetric])

lemma map_of_copy_loop: "gm_wf c \<Longrightarrow> map_of (fold (\<lambda>(k, v) m. gm_put k v m) c []) = map_of c"
proof
  fix k assume "gm_wf c"
  then show "map_of (fold (\<lambda>(k, v) m. gm_put k v m) c []) k = map_of c k"
    by (subst map_of_merge_loop [where h = "\<lambda>_ v. Some v"]) (auto split: option.split)
qed

lemma gm_wf_copy_loop [simp]: "gm_wf (fold (\<lambda>(k, v) m. gm_put k v m) c [])"
  by (rule gm_wf_loop) auto

lemma vc_get_Increment: "gm_wf c \<Longrightarrow> vc_get (VC_Increment c n) k = (if k = n then vc_get c n + 1 else vc_get c k)"
  by (simp add: VC_Increment_def Let_def) (simp add: vc_get_def map_of_copy_loop)

lemma gm_wf_Increment [simp]: "gm_wf (VC_Increment c n)"
  by (simp add: VC_Increment_def Let_def gm_wf_put)

lemma gm_wf_Merge [simp]: "gm_wf (VC_Merge a b)"
  unfolding VC_Merge_def Let_def by (rule gm_wf_loop) auto

lemma vc_get_Merge:
  assumes "gm_wf a" "gm_wf b"
  shows "vc_get (VC_Merge a b) k = max (vc_get a k) (vc_get b k)"
proof -
  let ?h = "\<lambda>o' v. if v > (case o' of None \<Rightarrow> 0 | Some w \<Rightarrow> w) then Some v else o'"
  have step: "map_of (if v > vc_get m k then gm_put k v m else m) = (map_of m)(k := ?h (map_of m k) v)" for k v m
    by (auto simp: vc_get_def fun_eq_iff split: option.splits)
  have "map_of (VC_Merge a b) k = (case map_of b k of None \<Rightarrow> map_of a k | Some v \<Rightarrow> ?h (map_of a k) v)"
    unfolding VC_Merge_def Let_def
    by (subst map_of_merge_loop [where h = ?h, OF assms(2) step]) (simp only: map_of_copy_loop [OF assms(1)])
  then show ?thesis by (auto simp: vc_get_def max_def not_less split: option.splits)
qed

lemma fold_flags:
  "fold (\<lambda>x (p, q). (if P x then False else p, if Q x then False else q)) xs (p, q) =
   (p \<and> (\<forall>x \<in> set xs. \<not> P x), q \<and> (\<forall>x \<in> set xs. \<not> Q x))"
  by (induction xs arbitrary: p q) auto

lemma fold_flag: "fold (\<lambda>x q. if Q x then False else q) xs q = (q \<and> (\<forall>x \<in> set xs. \<not> Q x))"
  by (induction xs arbitrary: q) auto

lemma vc_le_entries: "gm_wf a \<Longrightarrow> vc_le a b \<longleftrightarrow> (\<forall>(k, av) \<in> set a. av \<le> vc_get b k)"
proof
  assume wf: "gm_wf a" and le: "\<forall>(k, av) \<in> set a. av \<le> vc_get b k"
  show "vc_le a b"
    unfolding vc_le_def
  proof
    fix k
    show "vc_get a k \<le> vc_get b k"
      using le map_of_eq_Some_wf [OF wf, of k] by (cases "map_of a k") (auto simp: vc_get_def [of a])
  qed
next
  assume "gm_wf a" "vc_le a b"
  then show "\<forall>(k, av) \<in> set a. av \<le> vc_get b k" unfolding vc_le_def using vc_get_entry by (metis case_prodI2)
qed

lemma VC_Compare_order:
  assumes "gm_wf a" "gm_wf b"
  shows "VC_Compare a b = (if vc_le a b then if vc_le b a then Equal else Before
     else if vc_le b a then After else Concurrent)"
proof -
  have flags: "fold (\<lambda>(k, av) (aLEb, bLEa). let bv = vc_get b k in
        (if av > bv then False else aLEb, if bv > av then False else bLEa)) a (True, True) =
      ((\<forall>(k, av) \<in> set a. \<not> av > vc_get b k), (\<forall>(k, av) \<in> set a. \<not> vc_get b k > av))"
    unfolding Let_def split_def by (subst fold_flags [unfolded split_def]) simp
  have flag: "fold (\<lambda>(k, bv) bLEa. if map_of a k = None \<and> bv > 0 then False else bLEa) b q =
      (q \<and> (\<forall>(k, bv) \<in> set b. \<not> (map_of a k = None \<and> bv > 0)))" for q
    unfolding split_def by (rule fold_flag)
  have "vc_le b a \<longleftrightarrow> (\<forall>(k, av) \<in> set a. \<not> vc_get b k > av) \<and> (\<forall>(k, bv) \<in> set b. \<not> (map_of a k = None \<and> bv > 0))"
  proof safe
    fix k av assume "vc_le b a" "(k, av) \<in> set a" "vc_get b k > av"
    then show False using assms(1) by (metis leD vc_get_entry vc_le_def)
  next
    fix k bv assume "vc_le b a" "(k, bv) \<in> set b" "map_of a k = None" "bv > 0"
    then show False using assms(2) by (metis leD option.case(1) vc_get_def vc_get_entry vc_le_def)
  next
    assume a: "\<forall>(k, av) \<in> set a. \<not> vc_get b k > av"
      and b: "\<forall>(k, bv) \<in> set b. \<not> (map_of a k = None \<and> bv > 0)"
    show "vc_le b a"
      unfolding vc_le_entries [OF assms(2)]
    proof safe
      fix k bv assume m: "(k, bv) \<in> set b"
      show "bv \<le> vc_get a k"
      proof (cases "map_of a k")
        case None
        with b m have "\<not> bv > 0" by auto
        then have "bv = 0" by (meson word_neq_0_conv)
        then show ?thesis by simp
      next
        case (Some av)
        with a assms(1) have "\<not> vc_get b k > av" by (auto simp: map_of_eq_Some_wf)
        with Some m assms(2) show ?thesis by (simp add: vc_get_entry) (simp add: vc_get_def)
      qed
    qed
  qed
  moreover have "vc_le a b \<longleftrightarrow> (\<forall>(k, av) \<in> set a. \<not> av > vc_get b k)"
    by (simp add: vc_le_entries [OF assms(1)] not_less)
  ultimately show ?thesis
    unfolding VC_Compare_def Let_def flags [unfolded Let_def] prod.case flag by simp
qed

lemma vc_le_refl [simp]: "vc_le a a"
  by (simp add: vc_le_def)

lemma vc_le_trans: "vc_le a b \<Longrightarrow> vc_le b c \<Longrightarrow> vc_le a c"
  by (auto simp: vc_le_def intro: order_trans)

lemma VC_Compare_After: "gm_wf a \<Longrightarrow> gm_wf b \<Longrightarrow> VC_Compare a b = After \<longleftrightarrow> vc_lt b a"
  by (auto simp: VC_Compare_order vc_lt_def)

lemma VC_Compare_Before: "gm_wf a \<Longrightarrow> gm_wf b \<Longrightarrow> VC_Compare a b = Before \<longleftrightarrow> vc_lt a b"
  by (auto simp: VC_Compare_order vc_lt_def)

text \<open>Short of an overflow of the counter, \<^verbatim>\<open>Increment\<close> moves a clock strictly forward.\<close>

lemma vc_lt_Increment:
  assumes "gm_wf c" "vc_get c n \<noteq> 2 ^ 64 - 1"
  shows "vc_lt c (VC_Increment c n)"
proof -
  have "1 + vc_get c n \<noteq> 0" using assms(2) by (auto simp: add_eq_0_iff)
  then have less: "vc_get c n < vc_get c n + 1" by (simp add: word_less_nat_alt unatSuc add.commute)
  then have "vc_le c (VC_Increment c n)" using assms(1) by (simp add: vc_le_def vc_get_Increment order_less_imp_le)
  moreover have "\<not> vc_le (VC_Increment c n) c"
    using less assms(1) by (auto simp: vc_le_def vc_get_Increment not_le intro!: exI [of _ n])
  ultimately show ?thesis by (simp add: vc_lt_def)
qed

interpretation vc: replica_merge VC_Merge vc_get gm_wf
  by unfold_locales (auto simp: vc_get_Merge fun_eq_iff max.assoc max.commute max.left_commute)

section \<open>Properties\<close>

text \<open>
  \<^verbatim>\<open>Compare\<close> decides the causal order: its four answers are exactly the four ways in which
  two clocks can be related componentwise, reading an absent counter as 0, and swapping the
  arguments swaps \<^verbatim>\<open>Before\<close> and \<^verbatim>\<open>After\<close>.
\<close>

theorem vclock_Compare_decides:
  assumes "gm_wf a" "gm_wf b"
  shows "(VC_Compare a b = Equal \<longleftrightarrow> vc_get a = vc_get b) \<and>
    (VC_Compare a b = Before \<longleftrightarrow> vc_lt a b) \<and> (VC_Compare a b = After \<longleftrightarrow> vc_lt b a) \<and>
    (VC_Compare a b = Concurrent \<longleftrightarrow> (\<exists>i j. vc_get a i < vc_get b i \<and> vc_get b j < vc_get a j)) \<and>
    (VC_Compare a b = After \<longleftrightarrow> VC_Compare b a = Before)"
proof -
  have "vc_get a = vc_get b \<longleftrightarrow> vc_le a b \<and> vc_le b a"
    by (auto simp: vc_le_def fun_eq_iff intro: order_antisym)
  moreover have "(\<exists>i j. vc_get a i < vc_get b i \<and> vc_get b j < vc_get a j) \<longleftrightarrow> \<not> vc_le a b \<and> \<not> vc_le b a"
    by (auto simp: vc_le_def not_le)
  ultimately show ?thesis using assms by (auto simp: VC_Compare_order vc_lt_def)
qed

theorem vclock_Compare_decides_witness:
  "VC_Compare [(''a'', 2), (''b'', 0)] [(''a'', 1), (''c'', 1)] = Concurrent \<and>
   VC_Compare [(''a'', 2), (''b'', 0)] [(''a'', 1)] = After"
  using vclock_Compare_decides [of "[(''a'', 2), (''b'', 0)]" "[(''a'', 1), (''c'', 1)]"]
    vclock_Compare_decides [of "[(''a'', 2), (''b'', 0)]" "[(''a'', 1)]"]
  by (simp add: VC_Compare_def vc_get_def)

text \<open>
  \<^verbatim>\<open>Merge\<close> is the least upper bound of two clocks in the causal order, it agrees with
  \<^verbatim>\<open>Compare\<close>, and replicas that merge the same clocks end with the same clock whatever the
  order and the number of deliveries.
\<close>

theorem vclock_Merge_join:
  assumes "gm_wf a" "gm_wf b" "gm_wf c" "\<forall>y \<in> set xs. gm_wf y" "set xs = set ys"
  shows "VC_Compare a (VC_Merge a b) \<in> {Before, Equal} \<and> VC_Compare b (VC_Merge a b) \<in> {Before, Equal} \<and>
    (VC_Compare a c \<in> {Before, Equal} \<and> VC_Compare b c \<in> {Before, Equal} \<longrightarrow>
       VC_Compare (VC_Merge a b) c \<in> {Before, Equal}) \<and>
    VC_Compare (fold (\<lambda>x s. VC_Merge s x) xs a) (fold (\<lambda>x s. VC_Merge s x) ys a) = Equal"
proof -
  have le: "VC_Compare x y \<in> {Before, Equal} \<longleftrightarrow> vc_le x y" if "gm_wf x" "gm_wf y" for x y
    using that by (auto simp: VC_Compare_order)
  have wf: "gm_wf (fold (\<lambda>x s. VC_Merge s x) zs a)" for zs
    using assms(1) by (cases zs rule: rev_cases) simp_all
  have "vc_get (fold (\<lambda>x s. VC_Merge s x) xs a) = vc_get (fold (\<lambda>x s. VC_Merge s x) ys a)"
    using assms by (intro vc.convergence)
  then have "VC_Compare (fold (\<lambda>x s. VC_Merge s x) xs a) (fold (\<lambda>x s. VC_Merge s x) ys a) = Equal"
    using wf by (simp add: VC_Compare_order vc_le_def)
  moreover have "vc_le a (VC_Merge a b)" "vc_le b (VC_Merge a b)" "vc_le a c \<and> vc_le b c \<longrightarrow> vc_le (VC_Merge a b) c"
    using assms(1,2) by (simp_all add: vc_le_def vc_get_Merge)
  ultimately show ?thesis using assms(1-3) by (simp only: le gm_wf_Merge)
qed

theorem vclock_Merge_join_witness:
  "VC_Compare (fold (\<lambda>x s. VC_Merge s x) [[(''b'', 3)], [(''a'', 2)], [(''b'', 3)]] [(''a'', 1)])
     (fold (\<lambda>x s. VC_Merge s x) [[(''a'', 2)], [(''b'', 3)]] [(''a'', 1)]) = Equal"
  using vclock_Merge_join [of "[(''a'', 1)]" "[]" "[]" "[[(''b'', 3)], [(''a'', 2)], [(''b'', 3)]]" "[[(''a'', 2)], [(''b'', 3)]]"]
  by auto

text \<open>
  \<^verbatim>\<open>Increment\<close> produces a causally later clock, exactly when the 64-bit counter does not
  overflow; on overflow the new clock compares as \<^verbatim>\<open>Before\<close> the old one.
\<close>

theorem vclock_Increment_advances:
  assumes "gm_wf c"
  shows "VC_Compare (VC_Increment c n) c = (if vc_get c n = 2 ^ 64 - 1 then Before else After)"
proof (cases "vc_get c n = 2 ^ 64 - 1")
  case True
  then have "vc_get (VC_Increment c n) n = 0" "vc_get c n > 0" using assms by (simp_all add: vc_get_Increment)
  moreover have "vc_le (VC_Increment c n) c" using True assms by (simp add: vc_le_def vc_get_Increment)
  moreover have "\<not> vc_le c (VC_Increment c n)" using calculation(1,2) by (auto simp: vc_le_def not_le intro!: exI [of _ n])
  ultimately show ?thesis using True assms by (simp add: VC_Compare_order)
next
  case False
  with vc_lt_Increment [OF assms False] assms show ?thesis by (simp add: VC_Compare_After)
qed

theorem vclock_Increment_advances_witness:
  "VC_Compare (VC_Increment [(''a'', 2)] ''b'') [(''a'', 2)] = After \<and>
   VC_Compare (VC_Increment [(''a'', 2 ^ 64 - 1)] ''a'') [(''a'', 2 ^ 64 - 1)] = Before"
  using vclock_Increment_advances [of "[(''a'', 2)]" "''b''"]
    vclock_Increment_advances [of "[(''a'', 2 ^ 64 - 1)]" "''a''"]
  by (simp add: vc_get_def)

end
