(* ===== verification/Conflict.thy ===== *)
theory Conflict
  imports Vector_Clock
begin

text \<open>
  Conflict resolution, \<^verbatim>\<open>internal/replication/conflict.go\<close>: the bounded history of conflicts
  (an instance of \<open>bounded_log\<close>) and \<^verbatim>\<open>Resolve\<close>, which threads the package-level history
  \<^verbatim>\<open>DefaultConflictHistory\<close> as a state argument. The theorems give the rules under which
  \<^verbatim>\<open>Resolve\<close> picks a winner, and two cases in which its result is not the one its rules
  suggest.
\<close>

record ConflictRecord =
  cr_Key :: ID
  cr_Candidates :: "ValueEntry list"
  cr_Winner :: ValueEntry
  cr_DetectedAt :: time

record ConflictHistory =
  ch_records :: "ConflictRecord list"
  ch_cap :: int

definition NewConflictHistory :: "int \<Rightarrow> ConflictHistory" where
  "NewConflictHistory cap =
     (let cap = (if cap \<le> 0 then 100 else cap) in \<lparr>ch_records = [], ch_cap = cap\<rparr>)"

definition ConflictHistory_Add :: "ConflictRecord \<Rightarrow> ConflictHistory \<Rightarrow> ConflictHistory" where
  "ConflictHistory_Add rec h =
     (let h = (if int (length (ch_records h)) \<ge> ch_cap h then h\<lparr>ch_records := tl (ch_records h)\<rparr> else h)
      in h\<lparr>ch_records := ch_records h @ [rec]\<rparr>)"

definition ConflictHistory_All :: "ConflictHistory \<Rightarrow> ConflictRecord list" where
  "ConflictHistory_All h = ch_records h"

definition ConflictHistory_Len :: "ConflictHistory \<Rightarrow> nat" where
  "ConflictHistory_Len h = length (ch_records h)"

definition DefaultConflictHistory :: ConflictHistory where
  "DefaultConflictHistory = NewConflictHistory 100"

text \<open>One iteration of the loop over the candidates.\<close>

definition resolve_step :: "ValueEntry \<Rightarrow> bool \<times> ValueEntry \<Rightarrow> bool \<times> ValueEntry" where
  "resolve_step e = (\<lambda>(hasConcurrent, best).
     case VC_Compare (Clock e) (Clock best) of
       After \<Rightarrow> (hasConcurrent, e)
     | Before \<Rightarrow> (hasConcurrent, best)
     | _ \<Rightarrow> (True, if time_After (Timestamp e) (Timestamp best) then e else best))"

fun Resolve :: "time \<Rightarrow> ConflictHistory \<Rightarrow> ValueEntry list \<Rightarrow> ConflictHistory \<times> ValueEntry option" where
  "Resolve now h [] = (h, None)"
| "Resolve now h [e] = (h, Some e)"
| "Resolve now h (e # rest) =
     (let (hasConcurrent, best) = fold resolve_step rest (False, e)
      in (if hasConcurrent
          then ConflictHistory_Add \<lparr>cr_Key = Key e, cr_Candidates = e # rest, cr_Winner = best, cr_DetectedAt = now\<rparr> h
          else h,
          Some best))"

definition IsConcurrent :: "ValueEntry list \<Rightarrow> bool" where
  "IsConcurrent entries =
     list_ex (\<lambda>i. list_ex (\<lambda>j. VC_Compare (Clock (entries ! i)) (Clock (entries ! j)) = Concurrent)
       [i + 1..<length entries]) [0..<length entries]"

section \<open>The history is a bounded log\<close>

interpretation ch: bounded_log ConflictHistory_Add ch_records "\<lambda>h. nat (ch_cap h)"
proof unfold_locales
  fix s :: ConflictHistory and r assume "0 < nat (ch_cap s)" "length (ch_records s) \<le> nat (ch_cap s)"
  then show "ch_records (ConflictHistory_Add r s) =
      drop (Suc (length (ch_records s)) - nat (ch_cap s)) (ch_records s @ [r])"
    by (cases "int (length (ch_records s)) \<ge> ch_cap s")
       (auto simp: ConflictHistory_Add_def Let_def drop_Suc Suc_diff_le)
qed (simp add: ConflictHistory_Add_def Let_def)

text \<open>
  The conflict history is a ring buffer: a new history has a positive capacity, whatever
  was asked for, and after any run of additions it holds exactly the most recent records,
  oldest first, never more than its capacity.
\<close>

theorem conflict_history_ring_buffer:
  "ch_cap (NewConflictHistory c) = (if c \<le> 0 then 100 else c) \<and>
   ConflictHistory_All (fold ConflictHistory_Add rs (NewConflictHistory c)) =
     drop (length rs - nat (ch_cap (NewConflictHistory c))) rs \<and>
   ConflictHistory_Len (fold ConflictHistory_Add rs (NewConflictHistory c)) =
     min (length rs) (nat (ch_cap (NewConflictHistory c)))"
proof -
  have "ch_records (fold ConflictHistory_Add rs (NewConflictHistory c)) =
      drop (length rs - nat (ch_cap (NewConflictHistory c))) rs"
    by (subst ch.items_pushes) (simp_all add: NewConflictHistory_def Let_def)
  then show ?thesis
    by (simp add: ConflictHistory_All_def ConflictHistory_Len_def NewConflictHistory_def Let_def min_def)
qed

section \<open>Who wins\<close>

lemma resolve_step_in: "snd (resolve_step e (c, b)) \<in> {e, b}"
  by (auto simp: resolve_step_def split: ClockOrder.split)

lemma fold_resolve_in: "snd (fold resolve_step es (c, b)) \<in> insert b (set es)"
proof (induction es arbitrary: c b)
  case (Cons e es)
  obtain c' b' where s: "resolve_step e (c, b) = (c', b')" by fastforce
  with resolve_step_in [of e c b] have "b' \<in> {e, b}" by simp
  with Cons [of c' b'] s show ?case by auto
qed simp

lemma Resolve_winner:
  "entries \<noteq> [] \<Longrightarrow> snd (Resolve now h entries) = Some (snd (fold resolve_step (tl entries) (False, hd entries)))"
  by (cases "(now, h, entries)" rule: Resolve.cases) (auto simp: split_def Let_def)

lemma resolve_step_dominant:
  assumes "gm_wf (Clock d)" "gm_wf (Clock e)" "e \<noteq> d \<Longrightarrow> vc_lt (Clock e) (Clock d)"
  shows "snd (resolve_step e (c, d)) = d" and "snd (resolve_step d (c, e)) = d"
  using assms by (cases "e = d"; auto simp: resolve_step_def VC_Compare_order vc_lt_def time_After_def)+

lemma fold_resolve_dominant:
  assumes "d \<in> insert b (set es)" "\<forall>e \<in> insert b (set es). gm_wf (Clock e) \<and> (e \<noteq> d \<longrightarrow> vc_lt (Clock e) (Clock d))"
  shows "snd (fold resolve_step es (c, b)) = d"
  using assms
proof (induction es arbitrary: c b)
  case (Cons e es)
  obtain c' b' where s: "resolve_step e (c, b) = (c', b')" by fastforce
  have "b' = d" if "e = d \<or> b = d"
    using that resolve_step_dominant [of d e c] resolve_step_dominant [of d b c] Cons.prems s by auto
  moreover have "b' \<in> {e, b}" using resolve_step_in [of e c b] s by simp
  ultimately have "snd (fold resolve_step es (c', b')) = d"
    using Cons.prems by (intro Cons.IH) auto
  then show ?case by (simp add: s)
qed simp

text \<open>
  Rule 1 of \<^verbatim>\<open>Resolve\<close>: when some entry's clock is causally after the clock of every
  other entry, that entry is the result, wherever it stands in the slice and whatever the
  time stamps.
\<close>

theorem Resolve_causal_dominance:
  assumes "d \<in> set entries" "\<forall>e \<in> set entries. gm_wf (Clock e)"
    and "\<forall>e \<in> set entries. e \<noteq> d \<longrightarrow> VC_Compare (Clock d) (Clock e) = After"
  shows "snd (Resolve now h entries) = Some d"
proof (cases entries)
  case (Cons b es)
  have "\<forall>e \<in> insert b (set es). gm_wf (Clock e) \<and> (e \<noteq> d \<longrightarrow> vc_lt (Clock e) (Clock d))"
    using assms Cons by (metis VC_Compare_After list.simps(15))
  with assms(1) Cons show ?thesis by (simp add: Resolve_winner fold_resolve_dominant)
qed (use assms(1) in simp)

theorem Resolve_causal_dominance_witness:
  "snd (Resolve 9 DefaultConflictHistory
     [\<lparr>Key = 1, Value = [], Clock = [(''a'', 1)], Timestamp = 8, TTL = 0, NodeID = ''a''\<rparr>,
      \<lparr>Key = 1, Value = [7], Clock = [(''a'', 1), (''b'', 1)], Timestamp = 2, TTL = 0, NodeID = ''b''\<rparr>]) =
   Some \<lparr>Key = 1, Value = [7], Clock = [(''a'', 1), (''b'', 1)], Timestamp = 2, TTL = 0, NodeID = ''b''\<rparr>"
  by (rule Resolve_causal_dominance) (auto simp: VC_Compare_def vc_get_def)

lemma fold_resolve_latest:
  assumes "\<forall>e \<in> insert b (set es). gm_wf (Clock e)"
    and "\<forall>e \<in> insert b (set es). \<forall>f \<in> insert b (set es). vc_lt (Clock e) (Clock f) \<longrightarrow> Timestamp e < Timestamp f"
  shows "\<forall>x \<in> insert b (set es). Timestamp x \<le> Timestamp (snd (fold resolve_step es (c, b)))"
  using assms
proof (induction es arbitrary: c b)
  case (Cons e es)
  obtain c' b' where s: "resolve_step e (c, b) = (c', b')" by fastforce
  have b': "b' \<in> {e, b}" using resolve_step_in [of e c b] s by simp
  have "VC_Compare (Clock e) (Clock b) = After \<Longrightarrow> Timestamp b < Timestamp e"
    and "VC_Compare (Clock e) (Clock b) = Before \<Longrightarrow> Timestamp e < Timestamp b"
    using Cons.prems by (auto simp: VC_Compare_After VC_Compare_Before)
  then have max: "Timestamp e \<le> Timestamp b'" "Timestamp b \<le> Timestamp b'"
    using s by (auto simp: resolve_step_def time_After_def split: ClockOrder.splits if_splits)
  have "\<forall>x \<in> insert b' (set es). Timestamp x \<le> Timestamp (snd (fold resolve_step es (c', b')))"
    using Cons.prems b' by (intro Cons.IH) auto
  with max show ?case by (auto simp: s)
qed simp

text \<open>
  Rule 2 of \<^verbatim>\<open>Resolve\<close>, last write wins: when time stamps respect causality (a causally
  later version has a later time stamp), the result is an entry with the latest time stamp and
  no other entry is causally after it.
\<close>

theorem Resolve_last_write_wins:
  assumes "\<forall>e \<in> set entries. gm_wf (Clock e)" "snd (Resolve now h entries) = Some w"
    and "\<forall>e \<in> set entries. \<forall>f \<in> set entries. VC_Compare (Clock e) (Clock f) = Before \<longrightarrow> Timestamp e < Timestamp f"
  shows "w \<in> set entries \<and> (\<forall>e \<in> set entries. Timestamp e \<le> Timestamp w \<and> VC_Compare (Clock e) (Clock w) \<noteq> After)"
proof (cases entries)
  case Nil
  with assms(2) show ?thesis by simp
next
  case (Cons b es)
  then have w: "w = snd (fold resolve_step es (False, b))" using assms(2) by (simp add: Resolve_winner)
  have "w \<in> set entries" using fold_resolve_in [of es False b] w Cons by simp
  have lt: "VC_Compare (Clock e) (Clock f) = Before \<longleftrightarrow> vc_lt (Clock e) (Clock f)"
    if "e \<in> set entries" "f \<in> set entries" for e f
    using that assms(1) by (simp add: VC_Compare_Before)
  have latest: "\<forall>e \<in> set entries. Timestamp e \<le> Timestamp w"
    using fold_resolve_latest [of b es False] assms(1,3) lt unfolding w Cons by simp
  have "VC_Compare (Clock e) (Clock w) \<noteq> After" if "e \<in> set entries" for e
  proof
    assume "VC_Compare (Clock e) (Clock w) = After"
    then have "VC_Compare (Clock w) (Clock e) = Before"
      using assms(1) that \<open>w \<in> set entries\<close> by (simp add: VC_Compare_After VC_Compare_Before)
    with assms(3) that \<open>w \<in> set entries\<close> latest show False by (meson leD)
  qed
  with latest \<open>w \<in> set entries\<close> show ?thesis by blast
qed

theorem Resolve_last_write_wins_witness:
  "\<exists>w. snd (Resolve 9 DefaultConflictHistory
     [\<lparr>Key = 1, Value = [], Clock = [(''a'', 1)], Timestamp = 8, TTL = 0, NodeID = ''a''\<rparr>,
      \<lparr>Key = 1, Value = [7], Clock = [(''b'', 1)], Timestamp = 2, TTL = 0, NodeID = ''b''\<rparr>]) = Some w \<and> 8 \<le> Timestamp w"
proof -
  let ?a = "\<lparr>Key = 1, Value = [], Clock = [(''a'', 1)], Timestamp = 8, TTL = 0, NodeID = ''a''\<rparr>"
  let ?b = "\<lparr>Key = 1, Value = [7], Clock = [(''b'', 1)], Timestamp = 2, TTL = 0, NodeID = ''b''\<rparr>"
  have "snd (Resolve 9 DefaultConflictHistory [?a, ?b]) = Some ?a"
    by (simp add: resolve_step_def VC_Compare_def vc_get_def time_After_def)
  moreover from this Resolve_last_write_wins [of "[?a, ?b]" 9 DefaultConflictHistory ?a]
  have "8 \<le> Timestamp ?a" by (simp add: VC_Compare_def vc_get_def)
  ultimately show ?thesis by blast
qed

text \<open>The history: comparisons that are all decided by causality record nothing.\<close>

lemma fold_resolve_ordered:
  assumes "sorted_wrt (\<lambda>x y. VC_Compare (Clock y) (Clock x) \<in> {Before, After}) (b # es)"
  shows "fst (fold resolve_step es (c, b)) = c"
  using assms
proof (induction es arbitrary: c b)
  case (Cons e es)
  obtain c' b' where s: "resolve_step e (c, b) = (c', b')" by fastforce
  with Cons.prems have "c' = c" by (auto simp: resolve_step_def)
  moreover have "b' \<in> {e, b}" using resolve_step_in [of e c b] s by simp
  ultimately show ?case using Cons.IH [of b' c'] Cons.prems s by auto
qed simp

text \<open>
  C37. The decision of \<^verbatim>\<open>Resolve\<close>. For a non-empty slice it returns one of the entries it was
  given. An entry whose clock is causally after the clock of every other entry is the one
  returned, wherever it stands in the slice and whatever the time stamps. When time stamps respect
  causality (a causally later version has a later time stamp), the returned entry has the
  latest time stamp of all and no entry is causally after it, also among concurrent
  versions. The history is unchanged or gains one record, which names the candidates and that
  winner; it is unchanged when every two entries are causally ordered.
\<close>

theorem Resolve_picks_winner:
  assumes "entries \<noteq> []" "\<forall>e \<in> set entries. gm_wf (Clock e)"
  shows "\<exists>w \<in> set entries. snd (Resolve now h entries) = Some w \<and>
    (\<forall>d \<in> set entries. (\<forall>e \<in> set entries. e \<noteq> d \<longrightarrow> VC_Compare (Clock d) (Clock e) = After) \<longrightarrow> w = d) \<and>
    ((\<forall>e \<in> set entries. \<forall>f \<in> set entries. VC_Compare (Clock e) (Clock f) = Before \<longrightarrow> Timestamp e < Timestamp f) \<longrightarrow>
      (\<forall>e \<in> set entries. Timestamp e \<le> Timestamp w \<and> VC_Compare (Clock e) (Clock w) \<noteq> After)) \<and>
    fst (Resolve now h entries) \<in> {h, ConflictHistory_Add
      \<lparr>cr_Key = Key (hd entries), cr_Candidates = entries, cr_Winner = w, cr_DetectedAt = now\<rparr> h} \<and>
    (sorted_wrt (\<lambda>x y. VC_Compare (Clock y) (Clock x) \<in> {Before, After}) entries \<longrightarrow> fst (Resolve now h entries) = h)"
proof -
  define w where "w = snd (fold resolve_step (tl entries) (False, hd entries))"
  have res: "snd (Resolve now h entries) = Some w" using assms(1) by (simp add: w_def Resolve_winner)
  have "w \<in> insert (hd entries) (set (tl entries))" unfolding w_def by (rule fold_resolve_in)
  then have mem: "w \<in> set entries" using assms(1) by (cases entries) auto
  have dom: "w = d" if "d \<in> set entries" "\<forall>e \<in> set entries. e \<noteq> d \<longrightarrow> VC_Compare (Clock d) (Clock e) = After" for d
    using Resolve_causal_dominance [OF that(1) assms(2) that(2), of now h] res by simp
  have lww: "\<forall>e \<in> set entries. Timestamp e \<le> Timestamp w \<and> VC_Compare (Clock e) (Clock w) \<noteq> After"
    if "\<forall>e \<in> set entries. \<forall>f \<in> set entries. VC_Compare (Clock e) (Clock f) = Before \<longrightarrow> Timestamp e < Timestamp f"
    using Resolve_last_write_wins [OF assms(2) res that] by (rule conjunct2)
  have hist: "fst (Resolve now h entries) \<in> {h, ConflictHistory_Add
      \<lparr>cr_Key = Key (hd entries), cr_Candidates = entries, cr_Winner = w, cr_DetectedAt = now\<rparr> h}"
    unfolding w_def by (cases "(now, h, entries)" rule: Resolve.cases) (auto simp: split_def Let_def)
  have "fst (Resolve now h entries) = h"
    if "sorted_wrt (\<lambda>x y. VC_Compare (Clock y) (Clock x) \<in> {Before, After}) entries"
  proof (cases "(now, h, entries)" rule: Resolve.cases)
    case (3 now' h' e e' rest)
    then have "entries = e # e' # rest" by simp
    with fold_resolve_ordered [of e "e' # rest" False] that show ?thesis by (auto simp: split_def Let_def)
  qed auto
  with res mem dom lww hist show ?thesis by blast
qed

theorem Resolve_picks_winner_witness:
  "\<exists>w. snd (Resolve 9 DefaultConflictHistory
     [\<lparr>Key = 1, Value = [], Clock = [(''a'', 1)], Timestamp = 8, TTL = 0, NodeID = ''a''\<rparr>,
      \<lparr>Key = 1, Value = [7], Clock = [(''a'', 1), (''b'', 1)], Timestamp = 2, TTL = 0, NodeID = ''b''\<rparr>]) = Some w \<and>
    Value w = [7]"
proof -
  let ?a = "\<lparr>Key = 1, Value = [], Clock = [(''a'', 1)], Timestamp = 8, TTL = 0, NodeID = ''a''\<rparr>"
  let ?b = "\<lparr>Key = 1, Value = [7], Clock = [(''a'', 1), (''b'', 1)], Timestamp = 2, TTL = 0, NodeID = ''b''\<rparr>"
  have "VC_Compare (Clock ?b) (Clock ?a) = After" by (simp add: VC_Compare_def vc_get_def)
  with Resolve_picks_winner [of "[?a, ?b]" 9 DefaultConflictHistory] show ?thesis by auto
qed

text \<open>
  Without that agreement between time stamps and clocks, \<^verbatim>\<open>Resolve\<close> depends on the order
  in which replicas answered and may return a causally overwritten version: of the same three
  versions it returns the stale version \<open>c\<close> in one order and its causal successor \<open>a\<close> in the
  other.
\<close>

theorem Resolve_order_dependent:
  "\<exists>a b c. VC_Compare (Clock c) (Clock a) = Before \<and>
     snd (Resolve now h [a, b, c]) = Some c \<and> snd (Resolve now h [c, b, a]) = Some a"
proof -
  let ?e = "\<lambda>v clk t. \<lparr>Key = 1, Value = [v], Clock = clk, Timestamp = t, TTL = 0, NodeID = []\<rparr>"
  have "VC_Compare (Clock (?e 3 [(''a'', 1)] 3)) (Clock (?e 1 [(''a'', 2)] 1)) = Before \<and>
     snd (Resolve now h [?e 1 [(''a'', 2)] 1, ?e 2 [(''b'', 1)] 2, ?e 3 [(''a'', 1)] 3]) = Some (?e 3 [(''a'', 1)] 3) \<and>
     snd (Resolve now h [?e 3 [(''a'', 1)] 3, ?e 2 [(''b'', 1)] 2, ?e 1 [(''a'', 2)] 1]) = Some (?e 1 [(''a'', 2)] 1)"
    by (simp add: resolve_step_def VC_Compare_def vc_get_def time_After_def Let_def)
  then show ?thesis by blast
qed

section \<open>What counts as a conflict\<close>

lemma VC_Compare_Concurrent_sym:
  "gm_wf a \<Longrightarrow> gm_wf b \<Longrightarrow> VC_Compare a b = Concurrent \<longleftrightarrow> VC_Compare b a = Concurrent"
  by (auto simp: VC_Compare_order)

lemma VC_Compare_self: "gm_wf a \<Longrightarrow> VC_Compare a a = Equal"
  by (simp add: VC_Compare_order)

text \<open>
  \<^verbatim>\<open>IsConcurrent\<close> finds a conflict exactly when two of the entries have concurrent clocks,
  in whatever order. \<^verbatim>\<open>Resolve\<close> applies a weaker test: it also logs a conflict record for
  replicas with equal clocks, as every read of a healthy replica set produces, where
  \<^verbatim>\<open>IsConcurrent\<close> reports none.
\<close>

theorem IsConcurrent_vs_logged_conflicts:
  assumes "\<forall>e \<in> set entries. gm_wf (Clock e)" "gm_wf (Clock x)"
  shows "(IsConcurrent entries \<longleftrightarrow>
      (\<exists>e \<in> set entries. \<exists>f \<in> set entries. VC_Compare (Clock e) (Clock f) = Concurrent)) \<and>
    \<not> IsConcurrent [x, x] \<and>
    fst (Resolve now h [x, x]) =
      ConflictHistory_Add \<lparr>cr_Key = Key x, cr_Candidates = [x, x], cr_Winner = x, cr_DetectedAt = now\<rparr> h"
proof -
  have "IsConcurrent entries" if mem: "e \<in> set entries" "f \<in> set entries" "VC_Compare (Clock e) (Clock f) = Concurrent" for e f
  proof -
    from that obtain i j where ij: "i < length entries" "j < length entries" "entries ! i = e" "entries ! j = f"
      by (metis in_set_conv_nth)
    have "i \<noteq> j" using ij that assms(1) VC_Compare_self by fastforce
    then consider "i < j" | "j < i" by linarith
    then obtain m n where mn: "m < n" "n < length entries"
        "VC_Compare (Clock (entries ! m)) (Clock (entries ! n)) = Concurrent"
      using ij mem assms(1) VC_Compare_Concurrent_sym by cases metis+
    then show ?thesis
      unfolding IsConcurrent_def list_ex_iff by (intro bexI [of _ m] bexI [of _ n]) auto
  qed
  moreover have "IsConcurrent entries \<Longrightarrow> \<exists>e \<in> set entries. \<exists>f \<in> set entries. VC_Compare (Clock e) (Clock f) = Concurrent"
    unfolding IsConcurrent_def list_ex_iff by (fastforce intro: nth_mem)
  moreover have "\<not> IsConcurrent [x, x]"
    using assms(2) by (auto simp: IsConcurrent_def upt_rec VC_Compare_self)
  moreover have "fst (Resolve now h [x, x]) =
      ConflictHistory_Add \<lparr>cr_Key = Key x, cr_Candidates = [x, x], cr_Winner = x, cr_DetectedAt = now\<rparr> h"
    using assms(2) by (simp add: resolve_step_def VC_Compare_self)
  ultimately show ?thesis by blast
qed

theorem IsConcurrent_vs_logged_conflicts_witness:
  "\<not> IsConcurrent [\<lparr>Key = 1, Value = [], Clock = [(''a'', 1)], Timestamp = 8, TTL = 0, NodeID = ''a''\<rparr>,
     \<lparr>Key = 1, Value = [], Clock = [(''a'', 1)], Timestamp = 8, TTL = 0, NodeID = ''a''\<rparr>]"
  using IsConcurrent_vs_logged_conflicts
      [of "[]" "\<lparr>Key = 1, Value = [], Clock = [(''a'', 1)], Timestamp = 8, TTL = 0, NodeID = ''a''\<rparr>"]
  by simp

end
