(* ===== verification/Quorum.thy ===== *)
theory Quorum
  imports Conflict Transport Event_Bus "HOL-Library.Sublist"
begin

text \<open>
  Quorum reads and writes, \<^verbatim>\<open>internal/replication/quorum.go\<close>. The manager works over the
  \<^verbatim>\<open>Transport\<close> interface, so its operations take the calls they make as a record of functions
  on some state; what these calls promise is the locale \<open>replica_cluster\<close>, which the Chord
  network satisfies. The goroutines of a fan-out make one call each: an argument \<open>sched\<close> orders
  the replicas by the moment at which their call takes effect, and every theorem holds for all
  orders. A time-out is a failed call. The asynchronous read repair is what \<open>Read\<close> hands back
  as its pending task, run by \<open>readRepair\<close> in any later state.
\<close>

section \<open>The manager\<close>

datatype quorum_error =
    ENoReplicas ID
  | EQuorumNotMet int int int

record QuorumConfig =
  qc_N :: int
  qc_W :: int
  qc_R :: int

definition Quorum_DefaultConfig :: QuorumConfig where
  "Quorum_DefaultConfig = \<lparr>qc_N = 3, qc_W = 2, qc_R = 2\<rparr>"

record ('s, 'e) quorum_env =
  qe_GetEntry :: "ctx \<Rightarrow> NodeRef \<Rightarrow> ID \<Rightarrow> 's \<Rightarrow> 's \<times> ('e + ValueEntry option)"
  qe_PutEntry :: "ctx \<Rightarrow> NodeRef \<Rightarrow> ID \<Rightarrow> ValueEntry option \<Rightarrow> 's \<Rightarrow> 's \<times> ('e + unit)"
  qe_Publish :: "EventType \<Rightarrow> Payload \<Rightarrow> 's \<Rightarrow> 's"
  qe_now :: "'s \<Rightarrow> time"

record 's QuorumManager =
  qm_Config :: QuorumConfig
  qm_FindReplicas :: "ID \<Rightarrow> 's \<Rightarrow> NodeRef list"
  qm_Bus :: bool
  qm_Timeout :: duration

definition NewQuorumManager :: "QuorumConfig option \<Rightarrow> (ID \<Rightarrow> 's \<Rightarrow> NodeRef list) \<Rightarrow> bool \<Rightarrow> 's QuorumManager" where
  "NewQuorumManager cfg findReplicas bus =
     (let cfg = (case cfg of None \<Rightarrow> Quorum_DefaultConfig | Some c \<Rightarrow> c)
      in \<lparr>qm_Config = cfg, qm_FindReplicas = findReplicas, qm_Bus = bus, qm_Timeout = 2 * 10 ^ 9\<rparr>)"

fun readMergedClock_loop ::
  "('s, 'e) quorum_env \<Rightarrow> NodeRef \<Rightarrow> ID \<Rightarrow> NodeRef list \<Rightarrow> VectorClock \<Rightarrow> 's \<Rightarrow> 's \<times> VectorClock" where
  "readMergedClock_loop env coordinator key [] merged s = (s, merged)"
| "readMergedClock_loop env coordinator key (replica # rs) merged s =
     (case qe_GetEntry env (WithSender None coordinator) replica key s of
        (s, Inr (Some entry)) \<Rightarrow> readMergedClock_loop env coordinator key rs (VC_Merge merged (Clock entry)) s
      | (s, _) \<Rightarrow> readMergedClock_loop env coordinator key rs merged s)"

definition readMergedClock ::
  "('s, 'e) quorum_env \<Rightarrow> NodeRef \<Rightarrow> ID \<Rightarrow> NodeRef list \<Rightarrow> 's \<Rightarrow> 's \<times> VectorClock" where
  "readMergedClock env coordinator key replicas s = readMergedClock_loop env coordinator key replicas [] s"

text \<open>The fan-out of \<^verbatim>\<open>Write\<close>: the state and the replicas that acknowledged, in order of completion.\<close>

fun put_fanout ::
  "('s, 'e) quorum_env \<Rightarrow> NodeRef \<Rightarrow> ID \<Rightarrow> ValueEntry \<Rightarrow> NodeRef list \<Rightarrow> 's \<Rightarrow> 's \<times> NodeRef list" where
  "put_fanout env coordinator key entry [] s = (s, [])"
| "put_fanout env coordinator key entry (replica # rs) s =
     (case qe_PutEntry env (WithSender None coordinator) replica key (Some entry) s of
        (s, Inl e) \<Rightarrow> put_fanout env coordinator key entry rs s
      | (s, Inr _) \<Rightarrow> (case put_fanout env coordinator key entry rs s of (s, acked) \<Rightarrow> (s, replica # acked)))"

definition Write ::
  "('s, 'e) quorum_env \<Rightarrow> 's QuorumManager \<Rightarrow> (NodeRef list \<Rightarrow> NodeRef list) \<Rightarrow> ID \<Rightarrow> byte list \<Rightarrow> string \<Rightarrow>
   's \<Rightarrow> 's \<times> (quorum_error + unit)" where
  "Write env q sched key value writerID s =
     (let writeStart = qe_now env s;
          replicas = qm_FindReplicas q key s
      in case replicas of
           [] \<Rightarrow> (s, Inl (ENoReplicas key))
         | coordinator # _ \<Rightarrow>
             let (s, baseClock) = readMergedClock env coordinator key replicas s;
                 entry = \<lparr>Key = key, Value = value, Clock = VC_Increment baseClock writerID, Timestamp = writeStart,
                          TTL = 0, NodeID = writerID\<rparr>;
                 (s, acked) = put_fanout env coordinator key entry (sched replicas) s;
                 lagMs = time_Sub (qe_now env s) writeStart div 10 ^ 6;
                 acksReceived = int (length acked);
                 success = (acksReceived \<ge> qc_W (qm_Config q));
                 s = (if qm_Bus q
                      then qe_Publish env EventReplicationLag
                             (ReplicationLagPayload (IDToHex key) lagMs (qc_N (qm_Config q)) acksReceived)
                             (qe_Publish env EventWriteQuorum
                               (WriteQuorumPayload (IDToHex key) (qc_W (qm_Config q)) (qc_N (qm_Config q)) acksReceived success lagMs) s)
                      else s)
             in (s, if \<not> success then Inl (EQuorumNotMet acksReceived (int (length replicas)) (qc_W (qm_Config q))) else Inr ()))"

text \<open>The answers a read collects, with the nodes that gave them.\<close>

fun get_fanout ::
  "('s, 'e) quorum_env \<Rightarrow> NodeRef \<Rightarrow> ID \<Rightarrow> NodeRef list \<Rightarrow> 's \<Rightarrow> 's \<times> (NodeRef \<times> ValueEntry) list" where
  "get_fanout env coordinator key [] s = (s, [])"
| "get_fanout env coordinator key (replica # rs) s =
     (case qe_GetEntry env (WithSender None coordinator) replica key s of
        (s, Inr (Some entry)) \<Rightarrow> (case get_fanout env coordinator key rs s of (s, res) \<Rightarrow> (s, (replica, entry) # res))
      | (s, _) \<Rightarrow> get_fanout env coordinator key rs s)"

record repair_task =
  rt_coordinator :: NodeRef
  rt_key :: ID
  rt_winner :: ValueEntry
  rt_responses :: "(NodeRef \<times> ValueEntry) list"

definition Read ::
  "('s, 'e) quorum_env \<Rightarrow> 's QuorumManager \<Rightarrow> (NodeRef list \<Rightarrow> NodeRef list) \<Rightarrow> ID \<Rightarrow>
   's \<times> ConflictHistory \<Rightarrow> ('s \<times> ConflictHistory) \<times> (quorum_error + ValueEntry option \<times> repair_task option)" where
  "Read env q sched key = (\<lambda>(s, h).
     case qm_FindReplicas q key s of
       [] \<Rightarrow> ((s, h), Inl (ENoReplicas key))
     | coordinator # rs \<Rightarrow>
         let replicas = coordinator # rs;
             (s, res) = get_fanout env coordinator key (sched replicas) s;
             responses = map snd res;
             conflictDetected = IsConcurrent responses;
             s = (if qm_Bus q
                  then qe_Publish env EventReadQuorum
                         (ReadQuorumPayload (IDToHex key) (qc_R (qm_Config q)) (qc_N (qm_Config q)) (int (length responses)) conflictDetected) s
                  else s)
         in if int (length responses) < qc_R (qm_Config q)
            then ((s, h), Inl (EQuorumNotMet (int (length responses)) (int (length replicas)) (qc_R (qm_Config q))))
            else
              let (h, winner) = Resolve (qe_now env s) h responses
              in case winner of
                   None \<Rightarrow> ((s, h), Inr (None, None))
                 | Some w \<Rightarrow>
                     let s = (if conflictDetected \<and> qm_Bus q
                              then qe_Publish env EventConflict
                                     (ConflictDetectedPayload (IDToHex key) (NodeID w) ''vector_clock''
                                       (map (\<lambda>r. (NodeID r, Timestamp r, Clock r)) responses)) s
                              else s)
                     in ((s, h), Inr (Some w, Some \<lparr>rt_coordinator = coordinator, rt_key = key, rt_winner = w, rt_responses = res\<rparr>)))"

fun readRepair_loop :: "('s, 'e) quorum_env \<Rightarrow> NodeRef \<Rightarrow> ID \<Rightarrow> ValueEntry \<Rightarrow> (NodeRef \<times> ValueEntry) list \<Rightarrow> 's \<Rightarrow> 's" where
  "readRepair_loop env coordinator key winner [] s = s"
| "readRepair_loop env coordinator key winner ((node, resp) # res) s =
     readRepair_loop env coordinator key winner res
       (if VC_Compare (Clock resp) (Clock winner) = Before
        then fst (qe_PutEntry env (WithSender None coordinator) node key (Some winner) s) else s)"

definition readRepair :: "('s, 'e) quorum_env \<Rightarrow> repair_task \<Rightarrow> 's \<Rightarrow> 's" where
  "readRepair env t s = readRepair_loop env (rt_coordinator t) (rt_key t) (rt_winner t) (rt_responses t) s"

text \<open>The version a write creates.\<close>

definition written_entry :: "('s, 'e) quorum_env \<Rightarrow> 's QuorumManager \<Rightarrow> ID \<Rightarrow> byte list \<Rightarrow> string \<Rightarrow> 's \<Rightarrow> ValueEntry" where
  "written_entry env q key value writerID s =
     (let replicas = qm_FindReplicas q key s
      in \<lparr>Key = key, Value = value,
          Clock = VC_Increment (snd (readMergedClock env (hd replicas) key replicas s)) writerID,
          Timestamp = qe_now env s, TTL = 0, NodeID = writerID\<rparr>)"

lemma written_entry_simps [simp]:
  "Key (written_entry env q key value w s) = key" "TTL (written_entry env q key value w s) = 0"
  "Value (written_entry env q key value w s) = value" "gm_wf (Clock (written_entry env q key value w s))"
  by (simp_all add: written_entry_def Let_def)

lemma IsExpired_no_TTL [simp]: "TTL e = 0 \<Longrightarrow> \<not> IsExpired now e"
  by (simp add: IsExpired_def)

lemma subseq_distinct: "distinct xs \<Longrightarrow> subseq ys xs \<Longrightarrow> distinct ys"
  by (auto simp: subseq_conv_nths)

lemma subseq_permuted_card:
  assumes "subseq ys xs" "mset xs = mset rs" "distinct (map nr_Addr rs)"
  shows "card (nr_Addr ` set ys) = length ys" "nr_Addr ` set ys \<subseteq> nr_Addr ` set rs"
proof -
  have "mset (map nr_Addr xs) = mset (map nr_Addr rs)" using assms(2) by simp
  then have "distinct (map nr_Addr xs)" using assms(3) by (metis mset_eq_imp_distinct_iff)
  moreover have "subseq (map nr_Addr ys) (map nr_Addr xs)" using assms(1) by (rule subseq_map)
  ultimately have "distinct (map nr_Addr ys)" by (rule subseq_distinct)
  then show "card (nr_Addr ` set ys) = length ys" by (metis distinct_card length_map set_map)
  have "set ys \<subseteq> set xs" using assms(1) by (auto dest: list_emb_set)
  then show "nr_Addr ` set ys \<subseteq> nr_Addr ` set rs" using assms(2) by (metis image_mono set_mset_mset)
qed

text \<open>Any two sets of replicas that are large enough meet.\<close>

lemma quorums_intersect:
  assumes "A \<subseteq> C" "B \<subseteq> C" "finite C" "card C < card A + card B"
  shows "\<exists>x. x \<in> A \<and> x \<in> B"
proof (rule ccontr)
  assume "\<not> ?thesis"
  then have "A \<inter> B = {}" by blast
  then have "card A + card B = card (A \<union> B)" using assms by (simp add: card_Un_disjoint finite_subset)
  also have "\<dots> \<le> card C" using assms by (intro card_mono) auto
  finally show False using assms(4) by simp
qed

text \<open>A version that dominates every other answer is what \<^verbatim>\<open>Resolve\<close> returns.\<close>

lemma resolves_to:
  assumes "d \<in> set es" "\<And>e. e \<in> set es \<Longrightarrow> gm_wf (Clock e) \<and> (e \<noteq> d \<longrightarrow> vc_lt (Clock e) (Clock d))"
  shows "snd (Resolve now h es) = Some d"
proof (cases es)
  case (Cons b bs)
  with assms show ?thesis by (simp add: Resolve_winner fold_resolve_dominant)
qed (use assms(1) in simp)

section \<open>What the calls of the transport promise\<close>

text \<open>
  \<open>view s a k\<close> is the version of key \<open>k\<close> that the node at address \<open>a\<close> would return in state
  \<open>s\<close>. A read may fail, but when it answers it tells the truth; a write that fails changes
  nothing that can be read, and one that succeeds replaces one version at one node.
\<close>

locale replica_cluster =
  fixes env :: "('s, 'e) quorum_env" and view :: "'s \<Rightarrow> string \<Rightarrow> ID \<Rightarrow> ValueEntry option" and inv :: "'s \<Rightarrow> bool"
  assumes get_frame: "inv s \<Longrightarrow> qe_GetEntry env c r k s = (s', x) \<Longrightarrow> inv s' \<and> view s' = view s \<and> qe_now env s' = qe_now env s"
    and get_value: "inv s \<Longrightarrow> qe_GetEntry env c r k s = (s', Inr w) \<Longrightarrow> w = view s (nr_Addr r) k"
    and put_frame: "inv s \<Longrightarrow> gm_wf (Clock e) \<Longrightarrow> qe_PutEntry env c r k (Some e) s = (s', y) \<Longrightarrow> inv s' \<and> qe_now env s' = qe_now env s"
    and put_fail: "inv s \<Longrightarrow> gm_wf (Clock e) \<Longrightarrow> qe_PutEntry env c r k (Some e) s = (s', Inl f) \<Longrightarrow> view s' = view s"
    and put_view: "inv s \<Longrightarrow> gm_wf (Clock e) \<Longrightarrow> qe_PutEntry env c r k (Some e) s = (s', Inr u) \<Longrightarrow>
       view s' a j = (if a = nr_Addr r \<and> j = Key e then if IsExpired (qe_now env s) e then None else Some e else view s a j)"
    and publish_frame: "inv s \<Longrightarrow> inv (qe_Publish env t p s) \<and> view (qe_Publish env t p s) = view s \<and> qe_now env (qe_Publish env t p s) = qe_now env s"
    and view_clock: "inv s \<Longrightarrow> view s a k = Some v \<Longrightarrow> gm_wf (Clock v)"
begin

lemma readMergedClock_loop_spec:
  "readMergedClock_loop env c k rs m s = (s', m') \<Longrightarrow> inv s \<Longrightarrow> gm_wf m \<Longrightarrow>
   inv s' \<and> view s' = view s \<and> qe_now env s' = qe_now env s \<and> gm_wf m'"
proof (induction rs arbitrary: m s)
  case (Cons r rs)
  obtain s1 x where g: "qe_GetEntry env (WithSender None c) r k s = (s1, x)" by fastforce
  note f = get_frame [OF Cons.prems(2) g]
  then show ?case
    using Cons.prems Cons.IH [of _ s1] g by (auto split: sum.splits option.splits)
qed simp

lemma put_fanout_spec:
  "put_fanout env c k e rs s = (s', acked) \<Longrightarrow> inv s \<Longrightarrow> gm_wf (Clock e) \<Longrightarrow>
   inv s' \<and> qe_now env s' = qe_now env s \<and> subseq acked rs \<and>
   (\<forall>a j. view s' a j = (if a \<in> nr_Addr ` set acked \<and> j = Key e
      then if IsExpired (qe_now env s) e then None else Some e else view s a j))"
proof (induction rs arbitrary: s s' acked)
  case (Cons r rs)
  obtain s1 y where p: "qe_PutEntry env (WithSender None c) r k (Some e) s = (s1, y)" by fastforce
  note f = put_frame [OF Cons.prems(2,3) p]
  obtain s2 ac where rest: "put_fanout env c k e rs s1 = (s2, ac)" by fastforce
  note IH = Cons.IH [OF rest _ Cons.prems(3)]
  show ?case
  proof (cases y)
    case (Inl err)
    then have "view s1 = view s" using put_fail [OF Cons.prems(2,3)] p by blast
    with Inl p rest Cons.prems(1) IH f show ?thesis by (simp add: list_emb_Cons)
  next
    case (Inr u)
    then have "view s1 a j = (if a = nr_Addr r \<and> j = Key e then if IsExpired (qe_now env s) e then None else Some e else view s a j)" for a j
      using put_view [OF Cons.prems(2,3)] p by blast
    with Inr p rest Cons.prems(1) IH f show ?thesis by auto
  qed
qed simp

lemma get_fanout_spec:
  "get_fanout env c k rs s = (s', res) \<Longrightarrow> inv s \<Longrightarrow>
   inv s' \<and> view s' = view s \<and> qe_now env s' = qe_now env s \<and> subseq (map fst res) rs \<and>
   (\<forall>(r, v) \<in> set res. view s (nr_Addr r) k = Some v)"
proof (induction rs arbitrary: s s' res)
  case (Cons r rs)
  obtain s1 x where g: "qe_GetEntry env (WithSender None c) r k s = (s1, x)" by fastforce
  note f = get_frame [OF Cons.prems(2) g]
  obtain s2 re where rest: "get_fanout env c k rs s1 = (s2, re)" by fastforce
  note IH = Cons.IH [OF rest]
  show ?case
  proof (cases "\<exists>v. x = Inr (Some v)")
    case True
    then obtain v where x: "x = Inr (Some v)" by blast
    with get_value [OF Cons.prems(2)] g have "view s (nr_Addr r) k = Some v" by metis
    with x g rest Cons.prems(1) IH f show ?thesis by auto
  next
    case False
    with g have "get_fanout env c k (r # rs) s = get_fanout env c k rs s1" by (auto split: sum.split option.split)
    with rest Cons.prems(1) IH f show ?thesis by (simp add: list_emb_Cons)
  qed
qed simp

lemma Write_spec:
  assumes "Write env q sched key value w s = (s', r)" "inv s" "qm_FindReplicas q key s \<noteq> []"
  obtains acked where "acked = snd (put_fanout env (hd (qm_FindReplicas q key s)) key (written_entry env q key value w s)
      (sched (qm_FindReplicas q key s)) (fst (readMergedClock env (hd (qm_FindReplicas q key s)) key (qm_FindReplicas q key s) s)))"
    "subseq acked (sched (qm_FindReplicas q key s))" "inv s'" "qe_now env s' = qe_now env s"
    "\<And>a j. view s' a j = (if a \<in> nr_Addr ` set acked \<and> j = key then Some (written_entry env q key value w s) else view s a j)"
    "r = (if int (length acked) \<ge> qc_W (qm_Config q) then Inr ()
          else Inl (EQuorumNotMet (int (length acked)) (int (length (qm_FindReplicas q key s))) (qc_W (qm_Config q))))"
proof -
  let ?rs = "qm_FindReplicas q key s" and ?e = "written_entry env q key value w s"
  obtain c cs where rs: "?rs = c # cs" using assms(3) by (cases ?rs) auto
  obtain s1 m where m: "readMergedClock env c key ?rs s = (s1, m)" by fastforce
  with readMergedClock_loop_spec [OF m [unfolded readMergedClock_def] assms(2)]
  have s1: "inv s1" "view s1 = view s" "qe_now env s1 = qe_now env s" by simp_all
  have e: "\<lparr>Key = key, Value = value, Clock = VC_Increment m w, Timestamp = qe_now env s, TTL = 0, NodeID = w\<rparr> = ?e"
    using m rs by (simp add: written_entry_def)
  obtain s2 acked where f: "put_fanout env c key ?e (sched ?rs) s1 = (s2, acked)" by fastforce
  note F = put_fanout_spec [OF f s1(1) written_entry_simps(4)]
  let ?s3 = "if qm_Bus q then qe_Publish env EventReplicationLag
        (ReplicationLagPayload (IDToHex key) (time_Sub (qe_now env s2) (qe_now env s) div 10 ^ 6) (qc_N (qm_Config q)) (int (length acked)))
        (qe_Publish env EventWriteQuorum (WriteQuorumPayload (IDToHex key) (qc_W (qm_Config q)) (qc_N (qm_Config q)) (int (length acked))
          (int (length acked) \<ge> qc_W (qm_Config q)) (time_Sub (qe_now env s2) (qe_now env s) div 10 ^ 6)) s2)
      else s2"
  have "(s', r) = (?s3, if \<not> qc_W (qm_Config q) \<le> int (length acked)
        then Inl (EQuorumNotMet (int (length acked)) (int (length ?rs)) (qc_W (qm_Config q))) else Inr ())"
    using assms(1) [unfolded Write_def Let_def rs list.case m [unfolded rs] prod.case e f [unfolded rs]] unfolding rs by (rule sym)
  moreover have "inv ?s3" "view ?s3 = view s2" "qe_now env ?s3 = qe_now env s2"
    using F publish_frame by auto
  ultimately show ?thesis using that [of acked] F s1 m f by (auto simp: rs)
qed

lemma Read_spec:
  assumes "Read env q sched key (s, h) = ((s', h'), r)" "inv s" "qm_FindReplicas q key s \<noteq> []"
  obtains res where "subseq (map fst res) (sched (qm_FindReplicas q key s))" "inv s'" "view s' = view s"
    "\<forall>(n, v) \<in> set res. view s (nr_Addr n) key = Some v"
    "if int (length res) < qc_R (qm_Config q)
     then r = Inl (EQuorumNotMet (int (length res)) (int (length (qm_FindReplicas q key s))) (qc_R (qm_Config q)))
     else r = Inr (case snd (Resolve (qe_now env s) h (map snd res)) of None \<Rightarrow> (None, None)
       | Some w \<Rightarrow> (Some w, Some \<lparr>rt_coordinator = hd (qm_FindReplicas q key s), rt_key = key, rt_winner = w, rt_responses = res\<rparr>))"
proof -
  let ?rs = "qm_FindReplicas q key s"
  obtain c cs where rs: "?rs = c # cs" using assms(3) by (cases ?rs) auto
  obtain s1 res where f: "get_fanout env c key (sched ?rs) s = (s1, res)" by fastforce
  note F = get_fanout_spec [OF f assms(2)]
  define s2 where "s2 = (if qm_Bus q then qe_Publish env EventReadQuorum (ReadQuorumPayload (IDToHex key) (qc_R (qm_Config q))
      (qc_N (qm_Config q)) (int (length (map snd res))) (IsConcurrent (map snd res))) s1 else s1)"
  have s2: "inv s2" "view s2 = view s" "qe_now env s2 = qe_now env s" using F publish_frame by (auto simp: s2_def)
  note unf = assms(1) [unfolded Read_def Let_def prod.case f [unfolded rs] rs list.case, folded s2_def]
  show ?thesis
  proof (cases "int (length res) < qc_R (qm_Config q)")
    case True
    with unf s2 F rs show ?thesis by (intro that [of res]) auto
  next
    case False
    obtain h1 w where R: "Resolve (qe_now env s) h (map snd res) = (h1, w)" by fastforce
    have pub: "inv (qe_Publish env t p s2)" "view (qe_Publish env t p s2) = view s" for t p
      using publish_frame s2 by auto
    show ?thesis
    proof (cases w)
      case None
      with unf False R s2 F rs show ?thesis by (intro that [of res]) auto
    next
      case (Some v)
      with unf False R s2 F rs pub show ?thesis by (intro that [of res]) (auto split: if_splits)
    qed
  qed
qed

text \<open>A write that gathered its quorum is what the next read returns.\<close>

lemma read_after_write:
  assumes "inv s" "Write env q sched key value w s = (s1, Inr ())" "inv s2" "qm_FindReplicas q key s2 = qm_FindReplicas q key s"
    and "Read env q sched' key (s2, h) = (sh, Inr (Some v, t))"
    and "\<forall>r \<in> set (qm_FindReplicas q key s). view s2 (nr_Addr r) key = view s1 (nr_Addr r) key"
    and "distinct (map nr_Addr (qm_FindReplicas q key s))" "\<forall>rs. mset (sched rs) = mset rs" "\<forall>rs. mset (sched' rs) = mset rs"
    and "int (length (qm_FindReplicas q key s)) < qc_W (qm_Config q) + qc_R (qm_Config q)"
    and "\<forall>r \<in> set (qm_FindReplicas q key s). \<forall>u. view s (nr_Addr r) key = Some u \<longrightarrow>
       VC_Compare (Clock u) (Clock (written_entry env q key value w s)) = Before"
  shows "v = written_entry env q key value w s"
proof -
  let ?rs = "qm_FindReplicas q key s" and ?e = "written_entry env q key value w s"
  have ne: "?rs \<noteq> []" using assms(2) by (auto simp: Write_def Let_def)
  obtain acked where A: "subseq acked (sched ?rs)" "qc_W (qm_Config q) \<le> int (length acked)" "inv s1"
      "\<And>a j. view s1 a j = (if a \<in> nr_Addr ` set acked \<and> j = key then Some ?e else view s a j)"
    by (rule Write_spec [OF assms(2,1) ne]) (auto split: if_splits)
  obtain s3 h3 where sh: "sh = (s3, h3)" by fastforce
  have ne2: "qm_FindReplicas q key s2 \<noteq> []" using ne assms(4) by simp
  obtain res where R: "subseq (map fst res) (sched' ?rs)" "\<forall>(n, u) \<in> set res. view s2 (nr_Addr n) key = Some u"
      "qc_R (qm_Config q) \<le> int (length res)" "snd (Resolve (qe_now env s2) h (map snd res)) = Some v"
    by (rule Read_spec [OF assms(5) [unfolded sh] assms(3) ne2]) (auto simp: assms(4) split: if_splits option.splits)
  note cA = subseq_permuted_card [OF A(1) spec [OF assms(8)] assms(7)]
  note cR = subseq_permuted_card [OF R(1) spec [OF assms(9)] assms(7)]
  have "card (nr_Addr ` set ?rs) = length ?rs" using assms(7) by (metis distinct_card length_map set_map)
  with cA(1) cR(1) A(2) R(3) assms(10) have "card (nr_Addr ` set ?rs) < card (nr_Addr ` set acked) + card (nr_Addr ` set (map fst res))"
    by simp
  from quorums_intersect [OF cA(2) cR(2) _ this] obtain a where "a \<in> nr_Addr ` set acked" "a \<in> nr_Addr ` set (map fst res)" by auto
  then obtain n u where nu: "(n, u) \<in> set res" "nr_Addr n \<in> nr_Addr ` set acked" by auto (metis imageI)
  have seen: "u' = ?e \<or> (\<exists>r \<in> set ?rs. view s (nr_Addr r) key = Some u')" if "(n', u') \<in> set res" for n' u'
  proof -
    have "n' \<in> set ?rs"
      using that list_emb_set [OF R(1), of n'] assms(9) by (metis fst_conv image_eqI list.set_map set_mset_mset)
    then have "view s1 (nr_Addr n') key = Some u'" using R(2) that assms(6) by fastforce
    then show ?thesis using A(4) \<open>n' \<in> set ?rs\<close> by (metis option.inject)
  qed
  have "n \<in> set ?rs"
    using nu(1) list_emb_set [OF R(1), of n] assms(9) by (metis fst_conv image_eqI list.set_map set_mset_mset)
  then have "view s1 (nr_Addr n) key = Some u" using R(2) nu(1) assms(6) by fastforce
  with A(4) nu(2) have mem: "?e \<in> set (map snd res)" using nu(1) by force
  have dom: "gm_wf (Clock u') \<and> (u' \<noteq> ?e \<longrightarrow> vc_lt (Clock u') (Clock ?e))" if "u' \<in> set (map snd res)" for u'
  proof -
    from that obtain n' where "(n', u') \<in> set res" by auto
    then consider "u' = ?e" | r where "r \<in> set ?rs" "view s (nr_Addr r) key = Some u'" using seen by blast
    then show ?thesis
    proof cases
      case 2
      then have wf: "gm_wf (Clock u')" by (intro view_clock [OF assms(1)])
      have "VC_Compare (Clock u') (Clock ?e) = Before" by (rule assms(11) [rule_format, OF 2])
      then have "vc_lt (Clock u') (Clock ?e)" by (simp only: VC_Compare_Before [OF wf written_entry_simps(4)])
      with wf show ?thesis by simp
    qed simp
  qed
  have "snd (Resolve (qe_now env s2) h (map snd res)) = Some ?e" using mem dom by (rule resolves_to)
  then show ?thesis using R(4) by (metis option.inject)
qed

text \<open>Read repair installs the winner wherever it saw an older version, and nowhere else.\<close>

lemma readRepair_loop_spec:
  "inv s \<Longrightarrow> gm_wf (Clock w) \<Longrightarrow> inv (readRepair_loop env c k w res s) \<and>
   qe_now env (readRepair_loop env c k w res s) = qe_now env s \<and>
   (\<forall>a j. view (readRepair_loop env c k w res s) a j = view s a j \<or>
      j = Key w \<and> view (readRepair_loop env c k w res s) a j = (if IsExpired (qe_now env s) w then None else Some w) \<and>
      (\<exists>(n, u) \<in> set res. nr_Addr n = a \<and> VC_Compare (Clock u) (Clock w) = Before))"
proof (induction res arbitrary: s)
  case (Cons p res)
  obtain n u where p: "p = (n, u)" by fastforce
  show ?case
  proof (cases "VC_Compare (Clock u) (Clock w) = Before")
    case True
    obtain s1 y where put: "qe_PutEntry env (WithSender None c) n k (Some w) s = (s1, y)" by fastforce
    note f = put_frame [OF Cons.prems put]
    have "view s1 a j = view s a j \<or> j = Key w \<and> a = nr_Addr n \<and> view s1 a j = (if IsExpired (qe_now env s) w then None else Some w)" for a j
      using put put_fail [OF Cons.prems] put_view [OF Cons.prems] by (cases y) auto
    with Cons.IH [of s1] Cons.prems f put True p show ?thesis by simp (metis (no_types, lifting))
  next
    case False
    with Cons.IH [OF Cons.prems] p show ?thesis by auto
  qed
qed simp

end

text \<open>Clusters that also say which nodes can be reached.\<close>

locale available_cluster = replica_cluster +
  fixes up :: "'s \<Rightarrow> string \<Rightarrow> bool"
  assumes up_get: "inv s \<Longrightarrow> up s (nr_Addr r) \<Longrightarrow> view s (nr_Addr r) k = Some v \<Longrightarrow> snd (qe_GetEntry env c r k s) = Inr (Some v)"
    and up_put: "inv s \<Longrightarrow> up s (nr_Addr r) \<Longrightarrow> snd (qe_PutEntry env c r k (Some e) s) = Inr ()"
    and get_up: "qe_GetEntry env c r k s = (s', x) \<Longrightarrow> up s' = up s"
    and put_up: "qe_PutEntry env c r k (Some e) s = (s', y) \<Longrightarrow> up s' = up s"
    and publish_up: "up (qe_Publish env t p s) = up s"
begin

lemma readMergedClock_loop_covers:
  "readMergedClock_loop env c k rs m s = (s', m') \<Longrightarrow> inv s \<Longrightarrow> gm_wf m \<Longrightarrow> \<forall>r \<in> set rs. up s (nr_Addr r) \<Longrightarrow>
   up s' = up s \<and> vc_le m m' \<and> (\<forall>r \<in> set rs. \<forall>v. view s (nr_Addr r) k = Some v \<longrightarrow> vc_le (Clock v) m')"
proof (induction rs arbitrary: m s)
  case (Cons r rs)
  obtain s1 x where g: "qe_GetEntry env (WithSender None c) r k s = (s1, x)" by fastforce
  note f = get_frame [OF Cons.prems(2) g] get_up [OF g]
  show ?case
  proof (cases "view s (nr_Addr r) k")
    case None
    then have "readMergedClock_loop env c k rs m s1 = (s', m')"
      using g get_value [OF Cons.prems(2)] Cons.prems(1) by (auto split: sum.splits option.splits)
    with Cons.IH Cons.prems f None show ?thesis by auto
  next
    case (Some v)
    then have "x = Inr (Some v)" using up_get [OF Cons.prems(2), of r k v] Cons.prems(4) g by (metis list.set_intros(1) snd_conv)
    then have l: "readMergedClock_loop env c k rs (VC_Merge m (Clock v)) s1 = (s', m')" using g Cons.prems(1) by simp
    have wf: "gm_wf (Clock v)" using Some view_clock Cons.prems(2) by blast
    have "vc_le m (VC_Merge m (Clock v))" "vc_le (Clock v) (VC_Merge m (Clock v))"
      using wf Cons.prems(3) by (simp_all add: vc_le_def vc_get_Merge)
    with Cons.IH [OF l] Cons.prems f Some show ?thesis by (auto intro: vc_le_trans)
  qed
qed simp

lemma put_fanout_all:
  "inv s \<Longrightarrow> gm_wf (Clock e) \<Longrightarrow> \<forall>r \<in> set rs. up s (nr_Addr r) \<Longrightarrow> \<exists>s'. put_fanout env c k e rs s = (s', rs)"
proof (induction rs arbitrary: s)
  case (Cons r rs)
  obtain s1 y where p: "qe_PutEntry env (WithSender None c) r k (Some e) s = (s1, y)" by fastforce
  then have "y = Inr ()" using up_put [OF Cons.prems(1), of r] Cons.prems(3) by (metis list.set_intros(1) snd_conv)
  moreover have "\<exists>s'. put_fanout env c k e rs s1 = (s', rs)"
    using Cons put_frame [OF Cons.prems(1,2) p] put_up [OF p] by auto
  ultimately show ?case using p by auto
qed simp

lemma get_fanout_all:
  "inv s \<Longrightarrow> \<forall>r \<in> set rs. up s (nr_Addr r) \<and> view s (nr_Addr r) k = Some v \<Longrightarrow>
   snd (get_fanout env c k rs s) = map (\<lambda>r. (r, v)) rs"
proof (induction rs arbitrary: s)
  case (Cons r rs)
  obtain s1 x where g: "qe_GetEntry env (WithSender None c) r k s = (s1, x)" by fastforce
  then have "x = Inr (Some v)" using up_get [OF Cons.prems(1), of r k v] Cons.prems(2) by (metis list.set_intros(1) snd_conv)
  moreover have "snd (get_fanout env c k rs s1) = map (\<lambda>r. (r, v)) rs"
    using Cons get_frame [OF Cons.prems(1) g] get_up [OF g] by auto
  ultimately show ?case using g by (simp add: split_def)
qed simp

text \<open>
  With every replica up, a write succeeds, all replicas hold its version, and this version
  dominates the versions it replaces.
\<close>

lemma write_available:
  assumes "inv s" "\<forall>r \<in> set (qm_FindReplicas q key s). up s (nr_Addr r)" "qm_FindReplicas q key s \<noteq> []"
    and "\<forall>rs. mset (sched rs) = mset rs" "qc_W (qm_Config q) \<le> int (length (qm_FindReplicas q key s))"
    and "Write env q sched key value w s = (s', r)"
  shows "r = Inr ()" and "\<forall>r \<in> set (qm_FindReplicas q key s). view s' (nr_Addr r) key = Some (written_entry env q key value w s)"
proof -
  let ?rs = "qm_FindReplicas q key s" and ?e = "written_entry env q key value w s"
  obtain s1 m where m: "readMergedClock env (hd ?rs) key ?rs s = (s1, m)" by fastforce
  have s1: "inv s1" "up s1 = up s"
    using readMergedClock_loop_spec [OF m [unfolded readMergedClock_def] assms(1)]
      readMergedClock_loop_covers [OF m [unfolded readMergedClock_def] assms(1)] assms(2) by simp_all
  have sched: "set (sched ?rs) = set ?rs" "length (sched ?rs) = length ?rs" using assms(4) by (metis set_mset_mset, metis size_mset)
  have "\<exists>s2. put_fanout env (hd ?rs) key ?e (sched ?rs) s1 = (s2, sched ?rs)"
    using s1 assms(2) sched(1) by (intro put_fanout_all) simp_all
  with m have all: "snd (put_fanout env (hd ?rs) key ?e (sched ?rs) (fst (readMergedClock env (hd ?rs) key ?rs s))) = sched ?rs" by auto
  from Write_spec [OF assms(6,1,3)] show "r = Inr ()"
    by (rule) (use all sched(2) assms(5) in simp)
  from Write_spec [OF assms(6,1,3)] show "\<forall>r \<in> set ?rs. view s' (nr_Addr r) key = Some ?e"
    by (rule) (use all sched(1) in auto)
qed

lemma written_dominates:
  assumes "inv s" "\<forall>r \<in> set (qm_FindReplicas q key s). up s (nr_Addr r)" "qm_FindReplicas q key s \<noteq> []"
    and "vc_get (snd (readMergedClock env (hd (qm_FindReplicas q key s)) key (qm_FindReplicas q key s) s)) w \<noteq> 2 ^ 64 - 1"
    and "r \<in> set (qm_FindReplicas q key s)" "view s (nr_Addr r) key = Some u"
  shows "VC_Compare (Clock u) (Clock (written_entry env q key value w s)) = Before"
proof -
  let ?rs = "qm_FindReplicas q key s"
  obtain s1 m where m: "readMergedClock env (hd ?rs) key ?rs s = (s1, m)" by fastforce
  have "gm_wf m" "vc_le (Clock u) m"
    using readMergedClock_loop_spec [OF m [unfolded readMergedClock_def] assms(1)]
      readMergedClock_loop_covers [OF m [unfolded readMergedClock_def] assms(1)] assms(2,5,6) by auto
  moreover have "vc_lt m (VC_Increment m w)"
    using vc_lt_Increment [OF \<open>gm_wf m\<close>] assms(4) m by simp
  moreover have "gm_wf (Clock u)" using view_clock assms(1,6) by blast
  ultimately show ?thesis
    using m by (auto simp: written_entry_def Let_def VC_Compare_Before vc_lt_def intro: vc_le_trans)
qed

lemma read_available:
  assumes "inv s" "\<forall>r \<in> set (qm_FindReplicas q key s). up s (nr_Addr r) \<and> view s (nr_Addr r) key = Some v"
    and "qm_FindReplicas q key s \<noteq> []" "\<forall>rs. mset (sched rs) = mset rs" "qc_R (qm_Config q) \<le> int (length (qm_FindReplicas q key s))"
  shows "\<exists>t. snd (Read env q sched key (s, h)) = Inr (Some v, Some t)"
proof -
  let ?rs = "qm_FindReplicas q key s"
  obtain c cs where rs: "?rs = c # cs" using assms(3) by (cases ?rs) auto
  have sched: "set (sched ?rs) = set ?rs" "length (sched ?rs) = length ?rs" using assms(4) by (metis set_mset_mset, metis size_mset)
  then have "snd (get_fanout env c key (sched ?rs) s) = map (\<lambda>r. (r, v)) (sched ?rs)"
    using assms(1,2) by (intro get_fanout_all) simp_all
  then obtain s1 where f: "get_fanout env c key (sched ?rs) s = (s1, map (\<lambda>r. (r, v)) (sched ?rs))"
    by (metis prod.collapse)
  have "v \<in> set (map snd (map (\<lambda>r. (r, v)) (sched ?rs)))" using sched rs by (auto simp: o_def)
  moreover have "gm_wf (Clock v)" using view_clock [OF assms(1)] assms(2) rs by (metis list.set_intros(1))
  ultimately have win: "snd (Resolve now h (map snd (map (\<lambda>r. (r, v)) (sched ?rs)))) = Some v" for now
    by (intro resolves_to) auto
  show ?thesis
    unfolding Read_def Let_def prod.case rs list.case f [unfolded rs]
    using assms(5) sched(2) win by (auto simp: rs split_def split: option.split)
qed

lemma Write_up:
  assumes "Write env q sched key value w s = (s', r)"
  shows "up s' = up s"
proof -
  have "readMergedClock_loop env c k rs m s = (s', m') \<Longrightarrow> up s' = up s" for c k rs m s s' m'
    by (induction rs arbitrary: m s) (auto split: prod.splits sum.splits option.splits dest: get_up)
  then have clock: "readMergedClock env c k rs s = (s', m') \<Longrightarrow> up s' = up s" for c k rs s s' m'
    unfolding readMergedClock_def by blast
  have fan: "put_fanout env c k e rs s = (s', acked) \<Longrightarrow> up s' = up s" for c k e rs s s' acked
    by (induction rs arbitrary: s s' acked) (auto split: prod.splits sum.splits dest: put_up)
  show ?thesis
    using assms by (auto simp: Write_def Let_def publish_up split: list.splits prod.splits if_splits dest!: clock fan)
qed

text \<open>With every replica up, the read after a write returns what was written.\<close>

lemma write_then_read:
  assumes "inv s" "\<forall>r \<in> set (qm_FindReplicas q key s). up s (nr_Addr r)" "qm_FindReplicas q key s \<noteq> []"
    and "\<forall>rs. mset (sched rs) = mset rs" "\<forall>rs. mset (sched' rs) = mset rs"
    and "qc_W (qm_Config q) \<le> int (length (qm_FindReplicas q key s))" "qc_R (qm_Config q) \<le> int (length (qm_FindReplicas q key s))"
    and "Write env q sched key value w s = (s', r)" "qm_FindReplicas q key s' = qm_FindReplicas q key s"
  shows "r = Inr ()" "\<exists>t. snd (Read env q sched' key (s', h)) = Inr (Some (written_entry env q key value w s), Some t)"
proof -
  show "r = Inr ()" using write_available(1) [OF assms(1-4,6,8)] .
  have "inv s'" by (rule Write_spec [OF assms(8,1,3)])
  then show "\<exists>t. snd (Read env q sched' key (s', h)) = Inr (Some (written_entry env q key value w s), Some t)"
    using write_available(2) [OF assms(1-4,6,8)] Write_up [OF assms(8)] assms by (intro read_available) auto
qed

text \<open>A stale replica that can be reached gets the winner, whatever it holds by then.\<close>

lemma readRepair_loop_installs:
  "inv s \<Longrightarrow> gm_wf (Clock w) \<Longrightarrow> \<not> IsExpired (qe_now env s) w \<Longrightarrow> (n, u) \<in> set res \<Longrightarrow>
   VC_Compare (Clock u) (Clock w) = Before \<Longrightarrow> up s (nr_Addr n) \<Longrightarrow>
   view (readRepair_loop env c k w res s) (nr_Addr n) (Key w) = Some w"
proof (induction res arbitrary: s)
  case (Cons p res)
  obtain m v where p: "p = (m, v)" by fastforce
  define s1 where "s1 = (if VC_Compare (Clock v) (Clock w) = Before
      then fst (qe_PutEntry env (WithSender None c) m k (Some w) s) else s)"
  have s1: "inv s1" "qe_now env s1 = qe_now env s" "up s1 = up s"
    using Cons.prems(1,2) put_frame put_up by (auto simp: s1_def) (metis prod.collapse)+
  have loop: "readRepair_loop env c k w (p # res) s = readRepair_loop env c k w res s1" by (simp add: p s1_def)
  show ?case
  proof (cases "(n, u) \<in> set res")
    case True
    then show ?thesis unfolding loop using Cons.IH [of s1] Cons.prems s1 by simp
  next
    case False
    then have mv: "m = n" "v = u" using Cons.prems(4) p by auto
    obtain s2 y where put: "qe_PutEntry env (WithSender None c) m k (Some w) s = (s2, y)" by fastforce
    then have "y = Inr ()" using up_put [OF Cons.prems(1), of m] Cons.prems(6) mv by (metis snd_conv)
    then have "view s1 (nr_Addr n) (Key w) = Some w"
      using put_view [OF Cons.prems(1,2)] put Cons.prems(3,5) mv by (simp add: s1_def)
    then show ?thesis
      unfolding loop using readRepair_loop_spec [OF s1(1) Cons.prems(2), of c k res] s1(2) Cons.prems(3) by metis
  qed
qed simp

end

end
