(* ===== verification/Kad_Progress.thy ===== *)
theory Kad_Progress
  imports Kad_Network
begin

text \<open>
  When Kademlia operations return: always in networks with at most \<open>K\<close> identifiers, and not
  always in larger ones, since nested pings can wait for each other in a cycle. Bucket refresh
  aims at the bucket it refreshes. The last section is a small network on which the properties
  of this library are applied.
\<close>

section \<open>Lookups return in small networks\<close>

text \<open>
  Pings happen only when a bucket is full. If the whole network has no more identifiers than
  the bucket size \<open>K\<close>, no bucket is ever full of others, so no call can wait for another.
\<close>

definition small_net :: "ID set \<Rightarrow> KadNet \<Rightarrow> bool" where
  "small_net S net \<longleftrightarrow> kad_inv net \<and> (\<forall>a. kn_ID (kad_node net a) \<in> S \<and>
     contact_ids (AllContacts (kn_RoutingTable (kad_node net a))) \<subseteq> S \<and>
     int (card S) \<le> rt_K (kn_RoutingTable (kad_node net a)) \<and> 0 \<le> kc_K (kn_Config (kad_node net a)))"

text \<open>The same when only the nodes at the addresses \<open>L\<close> are known to the transport.\<close>

definition live_net :: "string set \<Rightarrow> ID set \<Rightarrow> KadNet \<Rightarrow> bool" where
  "live_net L S net \<longleftrightarrow> kad_inv net \<and> (\<forall>a h. map_of (it_registry (kad_transport net)) a = Some h \<longrightarrow> h \<in> L) \<and>
     (\<forall>a \<in> L. kn_ID (kad_node net a) \<in> S \<and> contact_ids (AllContacts (kn_RoutingTable (kad_node net a))) \<subseteq> S \<and>
        int (card S) \<le> rt_K (kn_RoutingTable (kad_node net a)) \<and> 0 \<le> kc_K (kn_Config (kad_node net a)))"

lemma small_net_live: "small_net S net \<longleftrightarrow> live_net UNIV S net"
  by (simp add: small_net_def live_net_def)

lemma live_net_cong:
  "kad_node net' = kad_node net \<Longrightarrow> it_registry (kad_transport net') = it_registry (kad_transport net) \<Longrightarrow> live_net L S net \<Longrightarrow> live_net L S net'"
  by (simp add: live_net_def kad_inv_def)

lemma kad_rpc_from_small:
  assumes "kad_rpc_from s t net = (net', x)" "live_net L S net"
  shows "live_net L S net'" "x = Inr h \<Longrightarrow> h \<in> L"
proof -
  obtain tr r where l: "lookupFrom (nr_Addr s) (nr_Addr t) (kad_transport net) = (tr, r)" by fastforce
  have "same_net (kad_transport net) tr" by (rule lookupFrom_same_net [OF l])
  then have "it_registry tr = it_registry (kad_transport net)" by (rule same_net_fields)
  then show "live_net L S net'" using assms l by (intro live_net_cong [OF _ _ assms(2)]) (auto simp: kad_rpc_from_def)
  show "x = Inr h \<Longrightarrow> h \<in> L"
    using assms l by (auto simp: kad_rpc_from_def lookupFrom_def lookup_def live_net_def Let_def split: if_splits option.splits)
qed

lemma AllContacts_update:
  "contact_ids (AllContacts (rt\<lparr>rt_Buckets := (rt_Buckets rt)[i := b]\<rparr>)) \<subseteq> contact_ids (AllContacts rt) \<union> contact_ids (kb_entries b)"
  using set_update_subset_insert [of "rt_Buckets rt" i b] by (fastforce simp: AllContacts_ids)

lemma updateRoutingTable_small:
  assumes "live_net L S net" "c_ID c \<in> S" "a \<in> L"
  obtains net' where "updateRoutingTable [] a c net = Inr net'" "live_net L S net'"
proof (cases "BucketIndex (rt_Self (kn_RoutingTable (kad_node net a))) (c_ID c) < 0")
  case True
  with assms(1) that show thesis by (simp add: updateRoutingTable.simps)
next
  case False
  let ?rt = "kn_RoutingTable (kad_node net a)"
  let ?i = "BucketIndex (rt_Self ?rt) (c_ID c)"
  let ?b = "rt_Buckets ?rt ! nat ?i"
  have i: "nat ?i < 160" "?i = int (nat ?i)" using BucketIndex_range(2) [of "rt_Self ?rt" "c_ID c"] False by auto
  have inv: "table_ok ?rt" and ids: "contact_ids (AllContacts ?rt) \<subseteq> S" and K: "int (card S) \<le> rt_K ?rt"
    using assms(1,3) by (simp_all add: live_net_def kad_inv_def)
  have b: "bucket_ok (rt_Self ?rt) (nat ?i) ?b" "kb_capacity ?b = rt_K ?rt" "length (rt_Buckets ?rt) = 160"
    using inv i(1) by (simp_all add: table_ok_def)
  have "contact_ids (kb_entries ?b) \<subseteq> contact_ids (AllContacts ?rt)" using i(1) b(3) by (force simp: AllContacts_ids)
  then have bS: "contact_ids (kb_entries ?b) \<subseteq> S" using ids by blast
  have room: "int (length (kb_entries ?b)) < kb_capacity ?b" if "c_ID c \<notin> contact_ids (kb_entries ?b)"
  proof -
    have "length (kb_entries ?b) = card (contact_ids (kb_entries ?b))"
      using b(1) by (metis bucket_ok_def contact_ids_def distinct_card length_map set_map)
    also have "\<dots> < card S" using bS that assms(2) by (intro psubset_card_mono) auto
    finally show ?thesis using K b(2) by simp
  qed
  have "\<exists>b'. \<forall>f. KBucket_UpdateContact (kad_now net) c (Some f) ?b net = Inr (net, b', True)"
  proof (cases "remove_id (c_ID c) (kb_entries ?b)")
    case None
    then have "int (length (kb_entries ?b)) < kb_capacity ?b" by (intro room) (simp add: remove_id_None)
    with None show ?thesis by (auto simp: KBucket_UpdateContact_def)
  qed (auto simp: KBucket_UpdateContact_def)
  then obtain b' where b': "\<And>f. KBucket_UpdateContact (kad_now net) c (Some f) ?b net = Inr (net, b', True)" by blast
  let ?net' = "kad_emit EventBucketUpdate (BucketUpdatePayload (IDToHex (kn_ID (kad_node net a))) ?i (IDToHex (c_ID c)) (c_Addr c)) (set_bucket a (nat ?i) b' net)"
  have upd: "updateRoutingTable [] a c net = Inr ?net'"
    using False by (simp add: updateRoutingTable.simps b' Let_def)
  note t = updateRoutingTable_tables [OF upd]
  have "contact_ids (kb_entries b') \<subseteq> S" using KBucket_UpdateContact_ids [OF b' b(1)] bS assms(2) by blast
  then have "contact_ids (AllContacts (kn_RoutingTable (kad_node ?net' x))) \<subseteq> S" if "x \<in> L" for x
    using AllContacts_update [of ?rt "nat ?i" b'] assms(1) ids that by (auto simp: live_net_def kad_emit_def set_bucket_def kad_upd_def)
  moreover have "rt_K (kn_RoutingTable (kad_node ?net' x)) = rt_K (kn_RoutingTable (kad_node net x))" for x
    using t by (simp add: tables_only_def)
  moreover have "it_registry (kad_transport ?net') = it_registry (kad_transport net)" using same_net_fields(1) [OF tables_only_net [OF t]] .
  ultimately have "live_net L S ?net'" using assms(1) tables_only_node [OF t] by (simp add: live_net_def)
  with upd show thesis by (rule that)
qed

lemma live_net_node:
  assumes "live_net L S net" "a \<in> L"
  shows "kn_ID (kad_node net a) \<in> S" "contact_ids (AllContacts (kn_RoutingTable (kad_node net a))) \<subseteq> S" "0 \<le> kc_K (kn_Config (kad_node net a))"
    "table_ok (kn_RoutingTable (kad_node net a))"
  using assms by (simp_all add: live_net_def kad_inv_def)

lemma kad_emit_small [simp]: "live_net L S (kad_emit t p net) = live_net L S net"
  by (simp add: live_net_def kad_inv_def kad_emit_def)

lemma put_local_small [simp]: "live_net L S net \<Longrightarrow> live_net L S (put_local sha1 a e net)"
  by (simp add: live_net_def kad_inv_def put_local_def kad_upd_def)

lemma note_sender_small:
  assumes "live_net L S net" "nr_ID s \<in> S" "a \<in> L"
  obtains net' where "note_sender a s net = Inr net'" "live_net L S net'"
proof (cases "nr_Addr s = []")
  case False
  have "c_ID (sender_contact (kad_now net) s) \<in> S" using assms(2) by (simp add: sender_contact_def)
  from updateRoutingTable_small [OF assms(1) this assms(3)] False that show thesis by (auto simp: note_sender_def)
qed (use assms that in \<open>auto simp: note_sender_def\<close>)

lemma KClosest_small:
  assumes "live_net L S net" "a \<in> L"
  obtains cs where "KClosest (kn_RoutingTable (kad_node net a)) t (kc_K (kn_Config (kad_node net a))) = Inr cs" "contact_ids cs \<subseteq> S"
proof -
  note node = live_net_node [OF assms]
  obtain cs where cs: "KClosest (kn_RoutingTable (kad_node net a)) t (kc_K (kn_Config (kad_node net a))) = Inr cs"
    using KClosest_total node(3) by blast
  with KClosest_spec [OF node(4)] have "set cs \<subseteq> set (AllContacts (kn_RoutingTable (kad_node net a)))" by blast
  with node(2) that cs show thesis by (auto simp: contact_ids_def)
qed

lemma contact_ids_refs [simp]: "contact_ids (nodeRefsToContacts now (map contact_ref cs)) = contact_ids cs"
  by (simp add: contact_ids_def nodeRefsToContacts_def sender_contact_def contact_ref_def image_image)

lemma nr_ID_Ref [simp]: "nr_ID (Kad_Ref n) = kn_ID n"
  by (simp add: Kad_Ref_def)

lemma find_node_call_small:
  assumes "live_net L S net" "a \<in> L"
  shows "\<exists>net' r. find_node_call a t c net = Inr (net', r) \<and> live_net L S net' \<and> (\<forall>cs. r = Some cs \<longrightarrow> contact_ids cs \<subseteq> S)"
proof -
  obtain net1 x where rpc: "kad_rpc_from (Kad_Ref (kad_node net a)) (contact_ref c) net = (net1, x)" by fastforce
  note s1 = kad_rpc_from_small(1) [OF rpc assms(1)]
  show ?thesis
  proof (cases x)
    case (Inr h)
    have sender: "nr_ID (Kad_Ref (kad_node net a)) \<in> S" using live_net_node(1) [OF assms] by simp
    have h: "h \<in> L" by (rule kad_rpc_from_small(2) [OF rpc assms(1) Inr])
    show ?thesis
    proof (rule note_sender_small [OF s1 sender h])
      fix net2 assume 2: "note_sender h (Kad_Ref (kad_node net a)) net1 = Inr net2" "live_net L S net2"
      show ?thesis by (rule KClosest_small [OF 2(2) h, of t]) (use rpc Inr 2 in \<open>simp add: find_node_call_def Transport_FindNode_def HandleFindNode_def\<close>)
    qed
  qed (use rpc s1 in \<open>simp add: find_node_call_def Transport_FindNode_def\<close>)
qed

lemma find_value_call_small:
  assumes "live_net L S net" "a \<in> L"
  shows "\<exists>net' r. find_value_call a t c net = Inr (net', r) \<and> live_net L S net' \<and> (\<forall>cs. r = Some (Inr cs) \<longrightarrow> contact_ids cs \<subseteq> S)"
proof -
  obtain net1 x where rpc: "kad_rpc_from (Kad_Ref (kad_node net a)) (contact_ref c) net = (net1, x)" by fastforce
  note s1 = kad_rpc_from_small(1) [OF rpc assms(1)]
  show ?thesis
  proof (cases x)
    case (Inr h)
    have sender: "nr_ID (Kad_Ref (kad_node net a)) \<in> S" using live_net_node(1) [OF assms] by simp
    have h: "h \<in> L" by (rule kad_rpc_from_small(2) [OF rpc assms(1) Inr])
    show ?thesis
    proof (rule note_sender_small [OF s1 sender h])
      fix net2 assume 2: "note_sender h (Kad_Ref (kad_node net a)) net1 = Inr net2" "live_net L S net2"
      show ?thesis
        by (rule KClosest_small [OF 2(2) h, of t])
          (use rpc Inr 2 in \<open>simp add: find_value_call_def Transport_FindValue_def HandleFindValue_def split: option.split\<close>)
    qed
  qed (use rpc s1 in \<open>simp add: find_value_call_def Transport_FindValue_def\<close>)
qed

lemma round_calls_small:
  assumes "\<And>c n. live_net L S n \<Longrightarrow> \<exists>n' r. call c n = Inr (n', r) \<and> live_net L S n' \<and> (\<forall>x. r = Some x \<longrightarrow> Q x)" "live_net L S net"
  shows "\<exists>net' rs. round_calls call cs net = Inr (net', rs) \<and> live_net L S net' \<and> (\<forall>(c, x) \<in> set rs. Q x)"
  using assms(2)
proof (induction cs arbitrary: net)
  case (Cons c cs)
  obtain n1 r where 1: "call c net = Inr (n1, r)" "live_net L S n1" "\<forall>x. r = Some x \<longrightarrow> Q x" using assms(1) [OF Cons.prems] by blast
  obtain n2 rs where 2: "round_calls call cs n1 = Inr (n2, rs)" "live_net L S n2" "\<forall>(c, x) \<in> set rs. Q x" using Cons.IH [OF 1(2)] by blast
  from 1 2 show ?case by (cases r) auto
qed simp

lemma runIterativeRound_small:
  assumes "\<And>c n. live_net L S n \<Longrightarrow> \<exists>n' r. call c n = Inr (n', r) \<and> live_net L S n' \<and> (\<forall>x. r = Some x \<longrightarrow> Q x)" "live_net L S net"
  shows "\<exists>net' hops' rs. runIterativeRound sched a batch t m h call (net, hops) = Inr ((net', hops'), rs) \<and> live_net L S net' \<and> (\<forall>(c, x) \<in> set rs. Q x)"
  using round_calls_small [where call = call and Q = Q, OF assms, of "sched batch"] by (auto simp: runIterativeRound_def emitLookupHop_def Let_def)

lemma foldM_total:
  assumes "\<And>x s. x \<in> set xs \<Longrightarrow> P s \<Longrightarrow> \<exists>s'. f x s = Inr s' \<and> P s'" "P s"
  shows "\<exists>s'. foldM f xs s = Inr s' \<and> P s'"
  using assms
proof (induction xs arbitrary: s)
  case (Cons x xs)
  obtain s1 where "f x s = Inr s1" "P s1" using Cons.prems by (auto simp del: not_None_eq)
  with Cons show ?case by auto
qed simp

lemma Transport_KStore_small:
  assumes "live_net L S net" "nr_ID s \<in> S"
  shows "\<exists>net' r. Transport_KStore sha1 s t e net = Inr (net', r) \<and> live_net L S net'"
proof -
  obtain net1 x where rpc: "kad_rpc_from s t net = (net1, x)" by fastforce
  note s1 = kad_rpc_from_small(1) [OF rpc assms(1)]
  show ?thesis
  proof (cases x)
    case (Inr h)
    show ?thesis
      by (rule note_sender_small [OF s1 assms(2) kad_rpc_from_small(2) [OF rpc assms(1) Inr]]) (use rpc Inr in \<open>simp add: Transport_KStore_def HandleKStore_def\<close>)
  qed (use rpc s1 in \<open>simp add: Transport_KStore_def\<close>)
qed

lemma mergeContacts_small:
  assumes "live_net L S net" "contact_ids new \<subseteq> S" "a \<in> L"
  shows "\<exists>net' Pn'. mergeContacts a t new (net, Pn) = Inr (net', Pn') \<and> live_net L S net'"
proof -
  let ?body = "\<lambda>c (net, Pn). if c_ID c = kn_ID (kad_node net a) then Inr (net, Pn)
     else case updateRoutingTable [] a c net of
       Inl e \<Rightarrow> Inl e
     | Inr net \<Rightarrow> Inr (net, if list_ex (\<lambda>existing. c_ID existing = c_ID c) Pn then Pn else Pn @ [c])"
  have "\<exists>s'. foldM ?body new (net, Pn) = Inr s' \<and> live_net L S (fst s')"
  proof (rule foldM_total)
    fix c :: Contact and s :: "KadNet \<times> Contact list" assume c: "c \<in> set new" and s: "live_net L S (fst s)"
    obtain n P where sp: "s = (n, P)" by fastforce
    have "c_ID c \<in> S" using c assms(2) by (auto simp: contact_ids_def)
    then obtain n' where "updateRoutingTable [] a c n = Inr n'" "live_net L S n'"
      using updateRoutingTable_small [OF s [unfolded sp fst_conv] _ assms(3)] by blast
    then show "\<exists>s'. ?body c s = Inr s' \<and> live_net L S (fst s')" using s sp by (cases "c_ID c = kn_ID (kad_node n a)") auto
  qed (use assms in simp)
  then obtain n P where "foldM ?body new (net, Pn) = Inr (n, P)" "live_net L S n" by auto
  with live_net_node(3) [of L S n a] assms(3) show ?thesis by (auto simp: mergeContacts_def Let_def)
qed

text \<open>Every round of a lookup in a small network returns.\<close>

locale small_round =
  fixes L :: "string set" and S :: "ID set" and a :: string and roundFn :: "'x round_fn"
  assumes round_returns: "a \<in> L \<Longrightarrow> live_net L S net \<Longrightarrow> \<exists>net' hops' x' cs r. roundFn batch h (net, hops, x) = Inr ((net', hops', x'), cs, r) \<and>
    live_net L S net' \<and> contact_ids cs \<subseteq> S"
begin

lemma final_round_returns:
  assumes "live_net L S net" "a \<in> L"
  shows "\<exists>net' hops' x' r Pn'. final_round roundFn a t Pn queried h (net, hops, x) = Inr ((net', hops', x'), r, Pn') \<and> live_net L S net'"
proof -
  obtain net1 hops1 x1 cs r where round: "roundFn (unqueried_once queried Pn) h (net, hops, x) = Inr ((net1, hops1, x1), cs, r)"
      "live_net L S net1" "contact_ids cs \<subseteq> S"
    using round_returns [OF assms(2,1)] by blast
  obtain net2 Pn2 where "mergeContacts a t cs (net1, Pn) = Inr (net2, Pn2)" "live_net L S net2"
    using mergeContacts_small [OF round(2,3) assms(2)] by blast
  with round assms show ?thesis
    by (cases "unqueried_once queried Pn = []"; cases r) (simp_all add: final_round_def)
qed

lemma search_loop_returns:
  assumes "live_net L S net" "a \<in> L"
  shows "\<exists>net' hops' x' r Pn'. search_loop roundFn a t Pn queried closest h (net, hops, x) = Inr ((net', hops', x'), r, Pn') \<and> live_net L S net'"
  using assms(1)
proof (induction "card (UNIV - set queried)" arbitrary: Pn queried closest h net hops x rule: less_induct)
  case less
  let ?m = "max 1 (nat (kc_Alpha (kn_Config (kad_node net a))))"
  let ?batch = "take ?m (filter (\<lambda>c. c_ID c \<notin> set queried) Pn)"
  note unfolded = search_loop.simps [of roundFn a t Pn queried closest h "(net, hops, x)", unfolded fst_conv Let_def]
  show ?case
  proof (cases "?batch = []")
    case True
    then show ?thesis unfolding unfolded using less.prems by auto
  next
    case False
    obtain net1 hops1 x1 cs r where round: "roundFn ?batch h (net, hops, x) = Inr ((net1, hops1, x1), cs, r)" "live_net L S net1" "contact_ids cs \<subseteq> S"
      using round_returns [OF assms(2) less.prems] by blast
    obtain net2 Pn2 where merge: "mergeContacts a t cs (net1, Pn) = Inr (net2, Pn2)" "live_net L S net2"
      using mergeContacts_small [OF round(2,3) assms(2)] by blast
    show ?thesis
      unfolding unfolded if_not_P [OF False] round(1)
      using round(2) merge final_round_returns [OF merge(2) assms(2)] less.hyps [OF search_loop_measure [OF False] merge(2)]
      by (cases r; cases Pn2) (simp_all add: merge(1))
  qed
qed

end

interpretation fns: small_round L S a "find_node_round sched a t" for L S sched a t
proof
  fix net :: KadNet and batch h hops and x :: unit assume a: "a \<in> L" and s: "live_net L S net"
  obtain net' hops' rs where "runIterativeRound sched a batch t ''kad_batch'' h (find_node_call a t) (net, hops) = Inr ((net', hops'), rs)"
      "live_net L S net'" "\<forall>(c, x) \<in> set rs. contact_ids x \<subseteq> S"
    using runIterativeRound_small [where Q = "\<lambda>x. contact_ids x \<subseteq> S" and call = "find_node_call a t", OF find_node_call_small [OF _ a] s] by blast
  then show "\<exists>net' hops' x' cs r. find_node_round sched a t batch h (net, hops, x) = Inr ((net', hops', x'), cs, r) \<and>
      live_net L S net' \<and> contact_ids cs \<subseteq> S"
    by (force simp: find_node_round_def contact_ids_def)
qed

lemma scan_values_small:
  assumes "live_net L S net" "a \<in> L" "\<forall>(c, x) \<in> set rs. \<forall>cs. x = Inr cs \<longrightarrow> contact_ids cs \<subseteq> S" "contact_ids new \<subseteq> S"
  shows "\<exists>net' m' new' r. scan_values sha1 a key rs m new net = Inr (net', m', new', r) \<and> live_net L S net' \<and> contact_ids new' \<subseteq> S"
  using assms
proof (induction sha1 a key rs m new net rule: scan_values.induct)
  case (2 sha1 a key c entry rs closestMiss newContacts net)
  show ?case
  proof (cases closestMiss)
    case (Some m)
    have "nr_ID (Kad_Ref (kad_node net a)) \<in> S" using live_net_node(1) [OF 2(1,2)] by simp
    from Transport_KStore_small [OF 2(1) this, of sha1 "contact_ref m" entry] Some show ?thesis by auto
  qed (use 2 in simp)
qed auto

interpretation fvs: small_round L S a "find_value_round sha1 sched a key" for L S sha1 sched a key
proof
  fix net batch h hops and x :: "Contact option" assume a: "a \<in> L" and s: "live_net L S net"
  have call: "\<exists>n' r. find_value_call a key c n = Inr (n', r) \<and> live_net L S n' \<and> (\<forall>x. r = Some x \<longrightarrow> (\<forall>cs. x = Inr cs \<longrightarrow> contact_ids cs \<subseteq> S))"
    if "live_net L S n" for c n
    using find_value_call_small [OF that a] by blast
  obtain net1 hops' rs where 1: "runIterativeRound sched a batch key ''find_value'' h (find_value_call a key) (net, hops) = Inr ((net1, hops'), rs)"
      "live_net L S net1" "\<forall>(c, x) \<in> set rs. \<forall>cs. x = Inr cs \<longrightarrow> contact_ids cs \<subseteq> S"
    using runIterativeRound_small [where Q = "\<lambda>x. \<forall>cs. x = Inr cs \<longrightarrow> contact_ids cs \<subseteq> S" and call = "find_value_call a key", OF call s] by blast
  from scan_values_small [OF 1(2) a 1(3), of "[]" sha1 key x] 1(1)
  show "\<exists>net' hops' x' cs r. find_value_round sha1 sched a key batch h (net, hops, x) = Inr ((net', hops', x'), cs, r) \<and>
      live_net L S net' \<and> contact_ids cs \<subseteq> S"
    by (force simp: find_value_round_def)
qed

lemma IterativeFindNode_small:
  assumes "live_net L S net" "a \<in> L"
  shows "\<exists>net' cs hops. IterativeFindNode sched a t net = Inr (net', cs, hops) \<and> live_net L S net'"
proof (rule KClosest_small [OF assms, of t])
  fix seeds assume seeds: "KClosest (kn_RoutingTable (kad_node net a)) t (kc_K (kn_Config (kad_node net a))) = Inr seeds"
  show ?thesis
    using fns.search_loop_returns [OF assms, of sched t t seeds "[kn_ID (kad_node net a)]" "if seeds \<noteq> [] then c_ID (hd seeds) else 0" 0 "[]" "()"] seeds
    by (auto simp: IterativeFindNode_def iterativeSearch_def simp del: if_not_P split: prod.splits)
qed

lemma IterativeFindValue_small:
  assumes "live_net L S net" "a \<in> L"
  shows "\<exists>net' r cs hops. IterativeFindValue sha1 sched a key net = Inr (net', r, cs, hops) \<and> live_net L S net'"
proof (cases "Get (kad_now net) (kn_KVStore (kad_node net a)) key")
  case None
  show ?thesis
  proof (rule KClosest_small [OF assms, of key])
    fix seeds assume seeds: "KClosest (kn_RoutingTable (kad_node net a)) key (kc_K (kn_Config (kad_node net a))) = Inr seeds"
    show ?thesis
      using fvs.search_loop_returns [OF assms, of sha1 sched key key seeds "[kn_ID (kad_node net a)]" "c_ID (hd seeds)" 0 "[]" None] seeds None assms
      by (cases seeds) (auto simp: IterativeFindValue_def iterativeSearch_def Let_def split: prod.splits)
  qed
qed (use assms in \<open>simp add: IterativeFindValue_def\<close>)

lemma store_at_small: "live_net L S net \<Longrightarrow> a \<in> L \<Longrightarrow> \<exists>net'. store_at sha1 a e cs net = Inr net' \<and> live_net L S net'"
  unfolding store_at_def
proof (rule foldM_total)
  fix c n assume a: "a \<in> L" and n: "live_net L S n"
  have "nr_ID (Kad_Ref (kad_node n a)) \<in> S" using live_net_node(1) [OF n a] by simp
  from Transport_KStore_small [OF n this, of sha1 "contact_ref c" e]
  show "\<exists>s'. (case Transport_KStore sha1 (Kad_Ref (kad_node n a)) (contact_ref c) e n of Inl f \<Rightarrow> Inl f | Inr (net, _) \<Rightarrow> Inr net) = Inr s' \<and> live_net L S s'"
    by auto
qed

lemma StoreValue_small:
  assumes "live_net L S net" "a \<in> L"
  shows "\<exists>net'. StoreValue sha1 sched a key val net = Inr net'"
proof -
  let ?e = "\<lparr>Key = KeyID sha1 key, Value = val, Clock = [], Timestamp = kad_now net, TTL = kc_ExpireTTL (kn_Config (kad_node net a)),
    NodeID = IDToHex (kn_ID (kad_node net a))\<rparr>"
  obtain net1 cs hops where 1: "IterativeFindNode sched a (KeyID sha1 key) (put_local sha1 a ?e net) = Inr (net1, cs, hops)" "live_net L S net1"
    using IterativeFindNode_small [OF put_local_small [OF assms(1)] assms(2)] by blast
  with store_at_small [OF 1(2) assms(2), of sha1 ?e cs] show ?thesis by (auto simp: StoreValue_def Let_def)
qed

text \<open>Joining through a live node.\<close>

lemma Kad_Join_small:
  assumes "live_net L S net" "c_ID bootstrap \<in> S" "a \<in> L"
  shows "\<exists>net'. Kad_Join sched a bootstrap net = Inr net' \<and> live_net L S net'"
proof (rule updateRoutingTable_small [OF assms])
  fix n1 assume 1: "updateRoutingTable [] a bootstrap net = Inr n1" "live_net L S n1"
  from IterativeFindNode_small [OF 1(2) assms(3), of sched "kn_ID (kad_node n1 a)"] 1(1) show ?thesis by (auto simp: Kad_Join_def)
qed

text \<open>
  C29. In a network with no more identifiers than the bucket size, every operation returns, whatever
  the failures of the transport and the order in which the calls of a round take effect: no
  call panics, and no ping waits for a lock.
\<close>

theorem kad_operations_return:
  assumes "small_net S net" "c_ID bootstrap \<in> S"
  shows "(\<exists>net' cs hops. IterativeFindNode sched a t net = Inr (net', cs, hops)) \<and>
    (\<exists>net' r cs hops. IterativeFindValue sha1 sched a t net = Inr (net', r, cs, hops)) \<and>
    (\<exists>net'. StoreValue sha1 sched a key val net = Inr net') \<and>
    (\<exists>net'. Kad_Join sched a bootstrap net = Inr net') \<and>
    (\<exists>net'. republishKeys sha1 sched a net = Inr net') \<and>
    (\<exists>net'. refreshBuckets sched a net = Inr net')"
proof (intro conjI)
  note live = assms(1) [unfolded small_net_live] and a = UNIV_I [of a]
  show "\<exists>net' cs hops. IterativeFindNode sched a t net = Inr (net', cs, hops)" using IterativeFindNode_small [OF live a] by blast
  show "\<exists>net' r cs hops. IterativeFindValue sha1 sched a t net = Inr (net', r, cs, hops)" using IterativeFindValue_small [OF live a] by blast
  show "\<exists>net'. StoreValue sha1 sched a key val net = Inr net'" using StoreValue_small [OF live a] by blast
  show "\<exists>net'. Kad_Join sched a bootstrap net = Inr net'" using Kad_Join_small [OF live assms(2) a] by blast
  have "\<exists>net'. republishKeys sha1 sched a net = Inr net' \<and> live_net UNIV S net'"
    unfolding republishKeys_def
  proof (rule foldM_total [where P = "live_net UNIV S", OF _ live])
    fix e :: ValueEntry and n assume n: "live_net UNIV S n"
    obtain n1 cs hops where 1: "IterativeFindNode sched a (Key e) n = Inr (n1, cs, hops)" "live_net UNIV S n1" using IterativeFindNode_small [OF n a] by blast
    with store_at_small [OF 1(2) a, of sha1 e cs] show "\<exists>s'. republish_one sha1 sched a e n = Inr s' \<and> live_net UNIV S s'"
      by (auto simp: republish_one_def)
  qed
  then show "\<exists>net'. republishKeys sha1 sched a net = Inr net'" by blast
  have "\<exists>net'. refreshBuckets sched a net = Inr net' \<and> live_net UNIV S net'"
    unfolding refreshBuckets_def
  proof (rule foldM_total [where P = "live_net UNIV S", OF _ live])
    fix i n assume n: "live_net UNIV S n"
    from IterativeFindNode_small [OF n a, of sched "refresh_target (kn_ID (kad_node n a)) i"] n
    show "\<exists>s'. (if KBucket_Len (rt_Buckets (kn_RoutingTable (kad_node n a)) ! i) = 0
        then (case IterativeFindNode sched a (refresh_target (kn_ID (kad_node n a)) i) n of Inl f \<Rightarrow> Inl f | Inr (net, _) \<Rightarrow> Inr net) else Inr n) = Inr s' \<and> live_net UNIV S s'"
      by auto
  qed
  then show "\<exists>net'. refreshBuckets sched a net = Inr net'" by blast
qed

section \<open>Nested pings\<close>

text \<open>
  A full bucket pings its oldest contact while it is locked, so the new contact is noted only
  after the pinged node has noted the pinging one. If that blocks, so does the caller.
\<close>

lemma blocked_ping:
  assumes "reliable (kad_transport net)" "BucketIndex (rt_Self (kn_RoutingTable (kad_node net a))) (c_ID c) = int i" "(a, i) \<notin> set held"
    and "kb_entries (rt_Buckets (kn_RoutingTable (kad_node net a)) ! i) = old # rest" "c_ID c \<notin> contact_ids (old # rest)"
    and "kb_capacity (rt_Buckets (kn_RoutingTable (kad_node net a)) ! i) \<le> int (length (old # rest))"
    and "map_of (it_registry (kad_transport net)) (c_Addr old) = Some h" "kn_Addr (kad_node net a) \<noteq> []"
    and "updateRoutingTable ((a, i) # held) h (sender_contact (kad_now net) (Kad_Ref (kad_node net a))) net = Inl e"
  shows "updateRoutingTable held a c net = Inl e"
proof -
  let ?b = "rt_Buckets (kn_RoutingTable (kad_node net a)) ! i"
  have rpc: "kad_rpc_from s (contact_ref old) net = (net, Inr h)" for s
    using assms(1,7) by (simp add: kad_rpc_from_def contact_ref_def)
  have "KBucket_UpdateContact now c (Some f) ?b net = (case f old net of Inl e \<Rightarrow> Inl e | Inr (s, alive) \<Rightarrow>
      if alive then Inr (s, ?b\<lparr>kb_entries := rest @ [old]\<rparr>, False) else Inr (s, ?b\<lparr>kb_entries := rest @ [c]\<rparr>, True))" for now f
    using assms(4-6) remove_id_None [of "c_ID c" "old # rest"] by (simp add: KBucket_UpdateContact_def)
  then show ?thesis
    unfolding updateRoutingTable.simps [of held a c net] Let_def using assms(2,3,8,9) rpc by (simp del: remove_id.simps)
qed

text \<open>Four nodes with buckets of size 1: in each, the bucket at distance 4 to 7 holds one of the others.\<close>

definition full_table :: "ID \<Rightarrow> Contact \<Rightarrow> RoutingTable" where
  "full_table self c = (NewRoutingTable self 1)\<lparr>rt_Buckets := (rt_Buckets (NewRoutingTable self 1))[2 := \<lparr>kb_entries = [c], kb_capacity = 1\<rparr>]\<rparr>"

definition full_node :: "ID \<Rightarrow> string \<Rightarrow> ID \<Rightarrow> string \<Rightarrow> KademliaNode" where
  "full_node i addr j addr' = \<lparr>kn_ID = i, kn_Addr = addr, kn_RoutingTable = full_table i \<lparr>c_ID = j, c_Addr = addr', c_LastSeen = 0\<rparr>,
     kn_KVStore = NewKVStore, kn_Config = Kad_DefaultConfig\<lparr>kc_K := 1\<rparr>, kn_stopped = False, kn_antiEntropy = None\<rparr>"

definition knot :: KadNet where
  "knot = \<lparr>kad_node = (\<lambda>_. full_node 0 ''a'' 4 ''b'')(''b'' := full_node 4 ''b'' 1 ''d'', ''c'' := full_node 5 ''c'' 0 ''a'', ''d'' := full_node 1 ''d'' 5 ''c''),
     kad_transport = \<lparr>it_registry = [(''a'', ''a''), (''b'', ''b''), (''c'', ''c''), (''d'', ''d'')], it_delay = 0, it_lossRate = 0,
       it_partitions = [], it_latencyMatrix = [], it_rng = (\<lambda>_. 0), it_pos = 0\<rparr>,
     kad_events = [], kad_now = 0\<rparr>"

lemma knot_index:
  "BucketIndex 0 4 = 2" "BucketIndex 4 1 = 2" "BucketIndex 5 0 = 2" "BucketIndex 1 5 = 2"
  "BucketIndex 0 6 = 2" "BucketIndex 4 0 = 2" "BucketIndex 1 4 = 2" "BucketIndex 5 1 = 2" "BucketIndex 0 5 = 2"
  by (simp_all add: BucketIndex_def XORDistance_uint BitLen.simps flip: XORDistance_0)

lemma full_table_simps [simp]:
  "rt_Self (full_table i c) = i" "rt_Buckets (full_table i c) ! 2 = \<lparr>kb_entries = [c], kb_capacity = 1\<rparr>"
  by (simp_all add: full_table_def NewRoutingTable_def del: upt_Suc)

lemma full_table_ok: "BucketIndex i (c_ID c) = 2 \<Longrightarrow> table_ok (full_table i c)"
  unfolding full_table_def by (intro table_ok_update table_ok_New) (simp_all add: bucket_ok_def NewRoutingTable_def del: upt_Suc)

text \<open>
  C40. Concurrent safety of \<^verbatim>\<open>UpdateContact\<close> fails: a bucket stays locked during the ping, and the
  handler of a ping updates a table in turn. In a well-formed network of four registered nodes
  over a perfect transport, a ping from a fifth node makes every node of a cycle wait for the
  next one, until the first bucket is asked for again: the call never returns.
\<close>

theorem kad_nested_ping_deadlock:
  "kad_inv knot \<and> reliable (kad_transport knot) \<and> HandleKPing ''a'' \<lparr>nr_ID = 6, nr_Addr = ''e''\<rparr> knot = Inl Deadlock"
proof (intro conjI)
  have node: "kad_node knot ''a'' = full_node 0 ''a'' 4 ''b''" "kad_node knot ''b'' = full_node 4 ''b'' 1 ''d''"
    "kad_node knot ''c'' = full_node 5 ''c'' 0 ''a''" "kad_node knot ''d'' = full_node 1 ''d'' 5 ''c''" "kad_now knot = 0"
    by (simp_all add: knot_def)
  have fields: "kn_ID (full_node i x j y) = i" "kn_Addr (full_node i x j y) = x"
    "kn_RoutingTable (full_node i x j y) = full_table i \<lparr>c_ID = j, c_Addr = y, c_LastSeen = 0\<rparr>" for i x j y
    by (simp_all add: full_node_def)
  have reg: "map_of (it_registry (kad_transport knot)) x = Some x" if "x \<in> {''a'', ''b'', ''c'', ''d''}" for x
    using that by (auto simp: knot_def)
  show "kad_inv knot"
    by (simp add: kad_inv_def knot_def fields full_table_ok knot_index)
  show rel: "reliable (kad_transport knot)" by (simp add: reliable_def knot_def)
  note step = blocked_ping [OF rel, where i = 2]
  have a: "updateRoutingTable [(''c'', 2), (''d'', 2), (''b'', 2), (''a'', 2)] ''a'' (sender_contact 0 \<lparr>nr_ID = 5, nr_Addr = ''c''\<rparr>) knot = Inl Deadlock"
    by (simp add: updateRoutingTable.simps node fields sender_contact_def knot_index)
  have c: "updateRoutingTable [(''d'', 2), (''b'', 2), (''a'', 2)] ''c'' (sender_contact 0 \<lparr>nr_ID = 1, nr_Addr = ''d''\<rparr>) knot = Inl Deadlock"
    by (rule step [where h = "''a''" and old = "\<lparr>c_ID = 0, c_Addr = ''a'', c_LastSeen = 0\<rparr>" and rest = "[]"]) (use a in \<open>simp_all add: node fields sender_contact_def knot_index reg Kad_Ref_def\<close>)
  have d: "updateRoutingTable [(''b'', 2), (''a'', 2)] ''d'' (sender_contact 0 \<lparr>nr_ID = 4, nr_Addr = ''b''\<rparr>) knot = Inl Deadlock"
    by (rule step [where h = "''c''" and old = "\<lparr>c_ID = 5, c_Addr = ''c'', c_LastSeen = 0\<rparr>" and rest = "[]"]) (use c in \<open>simp_all add: node fields sender_contact_def knot_index reg Kad_Ref_def\<close>)
  have b: "updateRoutingTable [(''a'', 2)] ''b'' (sender_contact 0 \<lparr>nr_ID = 0, nr_Addr = ''a''\<rparr>) knot = Inl Deadlock"
    by (rule step [where h = "''d''" and old = "\<lparr>c_ID = 1, c_Addr = ''d'', c_LastSeen = 0\<rparr>" and rest = "[]"]) (use d in \<open>simp_all add: node fields sender_contact_def knot_index reg Kad_Ref_def\<close>)
  have "updateRoutingTable [] ''a'' (sender_contact 0 \<lparr>nr_ID = 6, nr_Addr = ''e''\<rparr>) knot = Inl Deadlock"
    by (rule step [where h = "''b''" and old = "\<lparr>c_ID = 4, c_Addr = ''b'', c_LastSeen = 0\<rparr>" and rest = "[]"]) (use b in \<open>simp_all add: node fields sender_contact_def knot_index reg Kad_Ref_def\<close>)
  then show "HandleKPing ''a'' \<lparr>nr_ID = 6, nr_Addr = ''e''\<rparr> knot = Inl Deadlock"
    by (simp add: HandleKPing_def note_sender_def node)
qed

section \<open>Bucket refresh\<close>

lemma id_bytes_flip:
  assumes "i < 160"
  shows "id_bytes (a XOR push_bit i 1) = (id_bytes a)[19 - i div 8 := id_bytes a ! (19 - i div 8) XOR push_bit (i mod 8) 1]"
proof (rule nth_equalityI)
  fix j assume "j < length (id_bytes (a XOR push_bit i 1))"
  then have j: "j < 20" by simp
  have i: "i div 8 < 20" using assms by simp
  have byte: "id_bytes b ! j = ucast (drop_bit (8 * (19 - j)) b)" for b :: ID using j by (simp add: id_bytes_def id_byte_def)
  have flip: "bit (push_bit i 1 :: ID) (8 * (19 - j) + n) \<longleftrightarrow> j = 19 - i div 8 \<and> n = i mod 8" if n: "n < 8" for n
  proof -
    have "bit (push_bit i 1 :: ID) (8 * (19 - j) + n) \<longleftrightarrow> 8 * (19 - j) + n = i"
      using assms by (auto simp: bit_exp_iff)
    also have "\<dots> \<longleftrightarrow> 19 - j = i div 8 \<and> n = i mod 8" using n by (metis add.commute div_mult_self4 mod_mult_self4 div_less mod_less mult_div_mod_eq
        add.right_neutral div_add_self2 zero_neq_numeral div_mult_self2 add_0)
    also have "19 - j = i div 8 \<longleftrightarrow> j = 19 - i div 8" using i j by linarith
    finally show ?thesis .
  qed
  show "id_bytes (a XOR push_bit i 1) ! j = (id_bytes a)[19 - i div 8 := id_bytes a ! (19 - i div 8) XOR push_bit (i mod 8) 1] ! j"
  proof (cases "j = 19 - i div 8")
    case True
    have "id_bytes (a XOR push_bit i 1) ! j = id_bytes a ! j XOR push_bit (i mod 8) 1"
      unfolding byte by (rule bit_word_eqI) (use flip True in \<open>auto simp: bit_simps\<close>)
    with True j show ?thesis by simp
  next
    case False
    have "id_bytes (a XOR push_bit i 1) ! j = id_bytes a ! j"
      unfolding byte by (rule bit_word_eqI) (use flip False in \<open>auto simp: bit_simps\<close>)
    with False show ?thesis by simp
  qed
qed simp

lemma refresh_target_flip:
  assumes "i < 160"
  shows "refresh_target self i = self XOR push_bit i 1"
proof -
  have "nat (19 - int (i div 8)) = 19 - i div 8" "0 \<le> 19 - int (i div 8)" using assms by auto
  then show ?thesis by (simp only: refresh_target_def Let_def if_True id_bytes_flip [OF assms, symmetric] bytes_id_id_bytes)
qed

text \<open>
  The refresh of bucket \<open>i\<close> looks up an identifier of exactly that bucket: the one that differs
  from the own identifier in bit \<open>i\<close> only, at distance \<open>2 ^ i\<close>.
\<close>

theorem kad_refresh_target_bucket:
  assumes "i < 160"
  shows "XORDistance self (refresh_target self i) = 2 ^ i \<and> BucketIndex self (refresh_target self i) = int i"
proof -
  have "self XOR (self XOR push_bit i 1) = push_bit i (1::ID)" by (rule bit_word_eqI) (auto simp: bit_simps)
  moreover have "uint (push_bit i (1::ID)) = 2 ^ i"
  proof -
    have w: "push_bit i (1::ID) = word_of_int (2 ^ i)" by (simp add: push_bit_of_1)
    have "(2::int) ^ i < 2 ^ 160" using assms by (intro power_strict_increasing) simp_all
    then show ?thesis unfolding w uint_word_of_int by (intro mod_pos_pos_trivial) simp_all
  qed
  ultimately have "XORDistance self (refresh_target self i) = 2 ^ i" by (simp add: refresh_target_flip [OF assms] XORDistance_uint)
  moreover from this have "BucketIndex self (refresh_target self i) = int i" unfolding BucketIndex_shell by simp
  ultimately show ?thesis by simp
qed

theorem kad_refresh_target_bucket_witness: "BucketIndex 5 (refresh_target 5 9) = int 9"
  using kad_refresh_target_bucket [of 9 5] by simp

section \<open>A network of two nodes\<close>

text \<open>Node 4 knows node 6, which holds the value of key 9.\<close>

definition held_entry :: ValueEntry where
  "held_entry = \<lparr>Key = 9, Value = [1], Clock = [], Timestamp = 0, TTL = 0, NodeID = ''z''\<rparr>"

definition two_nodes :: KadNet where
  "two_nodes = \<lparr>kad_node = (\<lambda>a.
      if a = ''x'' then \<lparr>kn_ID = 6, kn_Addr = ''x'', kn_RoutingTable = NewRoutingTable 6 20, kn_KVStore = Put held_entry NewKVStore,
        kn_Config = Kad_DefaultConfig, kn_stopped = False, kn_antiEntropy = None\<rparr>
      else \<lparr>kn_ID = 4, kn_Addr = ''y'', kn_RoutingTable = one_table, kn_KVStore = NewKVStore,
        kn_Config = Kad_DefaultConfig, kn_stopped = False, kn_antiEntropy = None\<rparr>),
     kad_transport = \<lparr>it_registry = [(''x'', ''x''), (''y'', ''y'')], it_delay = 0, it_lossRate = 0,
       it_partitions = [], it_latencyMatrix = [], it_rng = (\<lambda>_. 0), it_pos = 0\<rparr>,
     kad_events = [], kad_now = 1\<rparr>"

lemma New_contacts: "contact_ids (AllContacts (NewRoutingTable i k)) = {}" "rt_Self (NewRoutingTable i k) = i" "rt_K (NewRoutingTable i k) = k"
  by (simp_all add: AllContacts_ids NewRoutingTable_def del: upt_Suc)

lemma one_table_contacts: "contact_ids (AllContacts one_table) \<subseteq> {6}" "rt_Self one_table = 4"
  using AllContacts_update [of "NewRoutingTable 4 20" 1 "\<lparr>kb_entries = [one_contact], kb_capacity = 20\<rparr>"]
  by (simp_all add: one_table_def New_contacts) (simp add: one_contact_def)

lemma two_nodes_small: "small_net {4, 6} two_nodes" "reliable (kad_transport two_nodes)"
  using one_table_contacts one_table_ok(1,3) table_ok_New
  by (auto simp: small_net_def kad_inv_def two_nodes_def New_contacts Kad_DefaultConfig_def reliable_def)

lemma two_nodes_inv: "kad_inv two_nodes"
  using two_nodes_small(1) by (simp add: small_net_def)

theorem kad_operations_return_witness: "\<exists>net'. Kad_Join id ''y'' one_contact two_nodes = Inr net'"
  using kad_operations_return [OF two_nodes_small(1), of one_contact id "''y''"] by (auto simp: one_contact_def)

theorem kad_find_node_result_witness:
  "\<exists>net' cs hops. IterativeFindNode id ''y'' 9 two_nodes = Inr (net', cs, hops) \<and> kad_inv net' \<and> length cs \<le> 20"
proof -
  obtain net' cs hops where "IterativeFindNode id ''y'' 9 two_nodes = Inr (net', cs, hops)"
    using IterativeFindNode_small [OF two_nodes_small(1) [unfolded small_net_live] UNIV_I] by blast
  with kad_find_node_result [OF two_nodes_inv this] show ?thesis by (auto simp: two_nodes_def Kad_DefaultConfig_def)
qed

theorem kad_find_value_sound_witness:
  "\<exists>net' r cs hops. IterativeFindValue (\<lambda>_. 0) id ''x'' 9 two_nodes = Inr (net', r, cs, hops) \<and> r = Some held_entry \<and>
     (\<exists>h. Get (kad_now two_nodes) (kn_KVStore (kad_node two_nodes h)) 9 = Some held_entry)"
proof -
  have "Get (kad_now two_nodes) (kn_KVStore (kad_node two_nodes ''x'')) 9 = Some held_entry"
    by (simp add: two_nodes_def Get_def Put_def NewKVStore_def held_entry_def IsExpired_def gm_put_def)
  then have "IterativeFindValue (\<lambda>_. 0) id ''x'' 9 two_nodes = Inr (two_nodes, Some held_entry, [], [])"
    by (simp add: IterativeFindValue_def)
  with kad_find_value_sound [OF two_nodes_inv this] show ?thesis by auto
qed

theorem kad_store_value_effect_witness:
  "\<exists>net' e. StoreValue (\<lambda>_. 3) id ''y'' ''k'' [7] two_nodes = Inr net' \<and> Value e = [7] \<and>
     kn_KVStore (kad_node net' ''y'') = Put e (kn_KVStore (kad_node two_nodes ''y''))"
proof -
  obtain net' where "StoreValue (\<lambda>_. 3) id ''y'' ''k'' [7] two_nodes = Inr net'"
    using StoreValue_small [OF two_nodes_small(1) [unfolded small_net_live] UNIV_I] by blast
  with kad_store_value_effect [OF two_nodes_inv this two_nodes_small(2) refl] show ?thesis
    by (metis ValueEntry.select_convs(2))
qed

theorem kad_network_invariant_witness:
  "\<forall>a. table_ok (kn_RoutingTable (kad_node (CreateNetwork ''y'' \<lparr>kad_node = (\<lambda>a. NewKademliaNode (\<lambda>_. 3) a None),
      kad_transport = NewInProcessTransport (\<lambda>_. 0) 0 0, kad_events = [], kad_now = 0\<rparr>) a))"
proof -
  define net where "net = \<lparr>kad_node = (\<lambda>a. NewKademliaNode (\<lambda>_. 3) a None),
      kad_transport = NewInProcessTransport (\<lambda>_. 0) 0 0, kad_events = [], kad_now = 0\<rparr>"
  have "(kad_step (\<lambda>_. 3))\<^sup>*\<^sup>* net (CreateNetwork ''y'' net)" by (intro r_into_rtranclp kad_step.create)
  moreover have "\<forall>a. \<exists>addr cfg. kad_node net a = NewKademliaNode (\<lambda>_. 3) addr cfg" by (auto simp: net_def)
  ultimately show ?thesis using kad_network_invariant unfolding net_def [symmetric] by blast
qed

end
