(* ===== verification/Quorum_Kad.thy ===== *)
theory Quorum_Kad
  imports Quorum Kad_Progress
begin

text \<open>
  Quorum replication over Kademlia nodes: the manager of \<^verbatim>\<open>internal/replication/quorum.go\<close> uses only
  the store calls of the transport, so a Kademlia network satisfies the same contract
  \<open>available_cluster\<close> as a Chord network and the lemmas of theory Quorum hold of it too.
\<close>

text \<open>The manager always passes an entry; a nil one would make the handler panic.\<close>

definition kad_env :: "sha1_fn \<Rightarrow> (KadNet, kad_error) quorum_env" where
  "kad_env sha1 = \<lparr>qe_GetEntry = (\<lambda>ctx r k net. case Kad_GetEntry ctx r k net of (net, x) \<Rightarrow> (net, map_sum id Some x)),
     qe_PutEntry = (\<lambda>ctx r k e net. Kad_PutEntry sha1 ctx r k (the e) net), qe_Publish = kad_emit, qe_now = kad_now\<rparr>"

definition kad_view :: "KadNet \<Rightarrow> string \<Rightarrow> ID \<Rightarrow> ValueEntry option" where
  "kad_view net a k = Get (kad_now net) (kn_KVStore (kad_node net a)) k"

definition kad_cluster :: "KadNet \<Rightarrow> bool" where
  "kad_cluster net \<longleftrightarrow>
     (\<forall>a h. map_of (it_registry (kad_transport net)) a = Some h \<longrightarrow> h = a) \<and>
     (\<forall>a. kv_inv (kn_KVStore (kad_node net a)) \<and> (\<forall>(k, e) \<in> set (kv_entries (kn_KVStore (kad_node net a))). gm_wf (Clock e)))"

definition kad_up :: "KadNet \<Rightarrow> string \<Rightarrow> bool" where
  "kad_up net a \<longleftrightarrow> reliable (kad_transport net) \<and> map_of (it_registry (kad_transport net)) a = Some a"

lemma kad_rpc_cluster:
  assumes "kad_rpc c r net = (net', x)"
  shows "kad_cluster net' = kad_cluster net" "kad_view net' = kad_view net" "kad_up net' = kad_up net"
    "kad_now net' = kad_now net" "kad_node net' = kad_node net"
    and "kad_cluster net \<Longrightarrow> x = Inr h \<Longrightarrow> h = nr_Addr r"
proof -
  obtain t where t: "lookupForContext c (nr_Addr r) (kad_transport net) = (t, x)" "net' = net\<lparr>kad_transport := t\<rparr>"
    using assms by (auto simp: kad_rpc_def Let_def split: prod.splits)
  note same = same_net_fields [OF lookupForContext_same_net [OF t(1)]]
  then show "kad_cluster net' = kad_cluster net" "kad_up net' = kad_up net"
    by (simp_all add: t(2) kad_cluster_def kad_up_def [abs_def])
  show "kad_view net' = kad_view net" "kad_now net' = kad_now net" "kad_node net' = kad_node net"
    by (simp_all add: t(2) kad_view_def [abs_def])
  show "h = nr_Addr r" if "kad_cluster net" "x = Inr h"
    using lookupForContext_Inr t(1) that by (metis kad_cluster_def)
qed

lemma kad_rpc_up: "kad_up net (nr_Addr r) \<Longrightarrow> snd (kad_rpc c r net) = Inr (nr_Addr r)"
  by (simp add: kad_rpc_def kad_up_def)

lemma kad_Get_Put: "Get now (Put e s) k = (if k = Key e then if IsExpired now e then None else Some e else Get now s k)"
  by (simp add: Get_def Put_def Clone_def)

lemma kad_put_view:
  "kad_view (put_local sha1 b e net) a j =
    (if a = b \<and> j = Key e then if IsExpired (kad_now net) e then None else Some e else kad_view net a j)"
  by (simp add: kad_view_def put_local_def kad_upd_def kad_Get_Put)

lemma kad_put_cluster:
  assumes "kad_cluster net" "gm_wf (Clock e)"
  shows "kad_cluster (put_local sha1 a e net)"
proof -
  let ?s = "kn_KVStore (kad_node net a)"
  have s: "kv_inv ?s" "\<forall>(k, x) \<in> set (kv_entries ?s). gm_wf (Clock x)" using assms(1) by (auto simp: kad_cluster_def)
  then have "gm_wf (kv_entries ?s)" by (simp add: kv_inv_def)
  with s assms(2) have "\<forall>(k, x) \<in> set (kv_entries (Put e ?s)). gm_wf (Clock x)" by (auto simp: Put_def set_gm_put Clone_def)
  with assms(1) s(1) show ?thesis by (simp add: kad_cluster_def put_local_def kad_upd_def)
qed

lemma kad_put_up: "kad_up (put_local sha1 a e net) = kad_up net" "kad_now (put_local sha1 a e net) = kad_now net"
  by (simp_all add: kad_up_def [abs_def] put_local_def kad_upd_def)

lemma kad_get_result:
  assumes "qe_GetEntry (kad_env sha1) c r k s = (s', x)"
  shows "\<exists>y. kad_rpc c r s = (s', y) \<and> (\<forall>w. x = Inr w \<longrightarrow> (\<exists>h. y = Inr h \<and> w = kad_view s' h k))"
proof -
  obtain net1 y where r: "kad_rpc c r s = (net1, y)" by fastforce
  then show ?thesis
    using assms by (cases y) (auto simp: kad_env_def Kad_GetEntry_def Kad_HandleGetEntry_def kad_view_def split: option.splits)
qed

lemma kad_put_result:
  assumes "qe_PutEntry (kad_env sha1) c r k (Some e) s = (s', x)"
  shows "\<exists>net1 y. kad_rpc c r s = (net1, y) \<and>
    (case y of Inl f \<Rightarrow> s' = net1 \<and> x = Inl (KTransport f) | Inr h \<Rightarrow> s' = put_local sha1 h e net1 \<and> x = Inr ())"
proof -
  obtain net1 y where r: "kad_rpc c r s = (net1, y)" by fastforce
  then show ?thesis
    using assms by (cases y) (auto simp: kad_env_def Kad_PutEntry_def Kad_HandlePutEntry_def)
qed

interpretation kq: available_cluster "kad_env sha1" kad_view kad_cluster kad_up for sha1
proof unfold_locales
  fix s s' c r k and x :: "kad_error + ValueEntry option"
  assume "kad_cluster s" and g: "qe_GetEntry (kad_env sha1) c r k s = (s', x)"
  with kad_get_result [OF g] kad_rpc_cluster
  show "kad_cluster s' \<and> kad_view s' = kad_view s \<and> qe_now (kad_env sha1) s' = qe_now (kad_env sha1) s"
    by (auto simp: kad_env_def)
next
  fix s s' c r k and w :: "ValueEntry option"
  assume inv: "kad_cluster s" and g: "qe_GetEntry (kad_env sha1) c r k s = (s', Inr w)"
  from kad_get_result [OF g] obtain h where h: "kad_rpc c r s = (s', Inr h)" "w = kad_view s' h k" by auto
  with kad_rpc_cluster(2,6) [OF h(1)] inv show "w = kad_view s (nr_Addr r) k" by simp
next
  fix s s' c r k and x :: "kad_error + ValueEntry option"
  assume g: "qe_GetEntry (kad_env sha1) c r k s = (s', x)"
  from kad_get_result [OF g] show "kad_up s' = kad_up s" by (auto dest: kad_rpc_cluster(3))
next
  fix s s' c r k e and y :: "kad_error + unit"
  assume a: "kad_cluster s" "gm_wf (Clock e)" and p: "qe_PutEntry (kad_env sha1) c r k (Some e) s = (s', y)"
  from kad_put_result [OF p] obtain net1 z where r: "kad_rpc c r s = (net1, z)"
    and z: "case z of Inl f \<Rightarrow> s' = net1 \<and> y = Inl (KTransport f) | Inr h \<Rightarrow> s' = put_local sha1 h e net1 \<and> y = Inr ()" by blast
  from a z kad_rpc_cluster [OF r] show "kad_cluster s' \<and> qe_now (kad_env sha1) s' = qe_now (kad_env sha1) s"
    by (cases z) (simp_all add: kad_env_def kad_put_cluster kad_put_up)
next
  fix s s' c r k e f
  assume p: "qe_PutEntry (kad_env sha1) c r k (Some e) s = (s', Inl f)"
  from kad_put_result [OF p] obtain net1 z where r: "kad_rpc c r s = (net1, z)"
    and z: "case z of Inl g \<Rightarrow> s' = net1 \<and> Inl f = (Inl (KTransport g) :: kad_error + unit) | Inr h \<Rightarrow> s' = put_local sha1 h e net1 \<and> Inl f = (Inr () :: kad_error + unit)" by blast
  from z kad_rpc_cluster [OF r] show "kad_view s' = kad_view s" by (cases z) simp_all
next
  fix s s' c r k e u a j
  assume a: "kad_cluster s" "gm_wf (Clock e)" and p: "qe_PutEntry (kad_env sha1) c r k (Some e) s = (s', Inr u)"
  from kad_put_result [OF p] obtain net1 z where r: "kad_rpc c r s = (net1, z)"
    and z: "case z of Inl g \<Rightarrow> s' = net1 \<and> Inr u = (Inl (KTransport g) :: kad_error + unit) | Inr h \<Rightarrow> s' = put_local sha1 h e net1 \<and> Inr u = (Inr () :: kad_error + unit)" by blast
  from z obtain h where h: "z = Inr h" "s' = put_local sha1 h e net1" by (cases z) auto
  have "h = nr_Addr r" using kad_rpc_cluster(6) [OF r a(1) h(1)] .
  with h kad_rpc_cluster [OF r]
  show "kad_view s' a j = (if a = nr_Addr r \<and> j = Key e then if IsExpired (qe_now (kad_env sha1) s) e then None else Some e else kad_view s a j)"
    by (simp add: kad_put_view kad_env_def)
next
  fix s s' c r k e and y :: "kad_error + unit"
  assume p: "qe_PutEntry (kad_env sha1) c r k (Some e) s = (s', y)"
  from kad_put_result [OF p] obtain net1 z where r: "kad_rpc c r s = (net1, z)"
    and z: "case z of Inl f \<Rightarrow> s' = net1 \<and> y = Inl (KTransport f) | Inr h \<Rightarrow> s' = put_local sha1 h e net1 \<and> y = Inr ()" by blast
  from z kad_rpc_cluster [OF r] show "kad_up s' = kad_up s" by (cases z) (simp_all add: kad_put_up)
next
  fix s t p
  show "kad_up (qe_Publish (kad_env sha1) t p s) = kad_up s" by (simp add: kad_env_def kad_emit_def kad_up_def fun_eq_iff)
next
  fix s a k v
  assume "kad_cluster s" "kad_view s a k = Some v"
  then show "gm_wf (Clock v)"
    by (auto simp: kad_view_def Get_def kad_cluster_def Clone_def split: option.splits if_splits dest!: map_of_SomeD)
next
  fix s :: KadNet and t p
  assume "kad_cluster s"
  then show "kad_cluster (qe_Publish (kad_env sha1) t p s) \<and> kad_view (qe_Publish (kad_env sha1) t p s) = kad_view s \<and>
      qe_now (kad_env sha1) (qe_Publish (kad_env sha1) t p s) = qe_now (kad_env sha1) s"
    by (simp add: kad_env_def kad_cluster_def kad_view_def [abs_def] kad_emit_def)
next
  fix s c k v and r :: NodeRef
  assume inv: "kad_cluster s" and up: "kad_up s (nr_Addr r)" and v: "kad_view s (nr_Addr r) k = Some v"
  obtain net1 where r: "kad_rpc c r s = (net1, Inr (nr_Addr r))" using kad_rpc_up [OF up] by (metis prod.collapse)
  with v kad_rpc_cluster [OF r] show "snd (qe_GetEntry (kad_env sha1) c r k s) = Inr (Some v)"
    by (simp add: kad_env_def Kad_GetEntry_def Kad_HandleGetEntry_def kad_view_def)
next
  fix s c k e and r :: NodeRef
  assume "kad_up s (nr_Addr r)"
  from kad_rpc_up [OF this] obtain net1 where "kad_rpc c r s = (net1, Inr (nr_Addr r))" by (metis prod.collapse)
  then show "snd (qe_PutEntry (kad_env sha1) c r k (Some e) s) = Inr ()"
    by (simp add: kad_env_def Kad_PutEntry_def Kad_HandlePutEntry_def)
qed

end
