(* ===== verification/Quorum_Chord.thy ===== *)
theory Quorum_Chord
  imports Quorum Chord_Ring
begin

text \<open>
  Quorum replication over the Chord network: the network satisfies the contract
  \<open>available_cluster\<close>, with the registry of the transport saying which nodes can be reached,
  so the lemmas of theory Quorum hold of it.
\<close>

definition chord_env :: "(ChordNet, chord_error) quorum_env" where
  "chord_env = \<lparr>qe_GetEntry = (\<lambda>ctx r k net. case Transport_GetEntry ctx r k net of (net, x) \<Rightarrow> (net, map_sum id Some x)),
     qe_PutEntry = Transport_PutEntry, qe_Publish = emit, qe_now = net_now\<rparr>"

definition chord_view :: "ChordNet \<Rightarrow> string \<Rightarrow> ID \<Rightarrow> ValueEntry option" where
  "chord_view net a k = Get (net_now net) (cn_Store (net_node net a)) k"

text \<open>
  Every address is registered with the node of that address, stores satisfy their invariant
  and stored clocks are maps.
\<close>

definition chord_cluster :: "ChordNet \<Rightarrow> bool" where
  "chord_cluster net \<longleftrightarrow>
     (\<forall>a h. map_of (it_registry (net_transport net)) a = Some h \<longrightarrow> h = a) \<and>
     (\<forall>a. kv_inv (cn_Store (net_node net a)) \<and> (\<forall>(k, e) \<in> set (kv_entries (cn_Store (net_node net a))). gm_wf (Clock e)))"

definition chord_up :: "ChordNet \<Rightarrow> string \<Rightarrow> bool" where
  "chord_up net a \<longleftrightarrow> reliable (net_transport net) \<and> map_of (it_registry (net_transport net)) a = Some a"

lemma rpc_cluster:
  assumes "rpc c r net = (net', x)"
  shows "chord_cluster net' = chord_cluster net" "chord_view net' = chord_view net" "chord_up net' = chord_up net"
    "net_now net' = net_now net" "net_node net' = net_node net"
    and "chord_cluster net \<Longrightarrow> x = Inr h \<Longrightarrow> h = nr_Addr r"
proof -
  obtain t where t: "lookupForContext c (nr_Addr r) (net_transport net) = (t, x)" "net' = net\<lparr>net_transport := t\<rparr>"
    using assms by (auto simp: rpc_def Let_def split: prod.splits)
  have reg: "t = (net_transport net)\<lparr>it_pos := it_pos t\<rparr>" using lookupForContext_same_net [OF t(1)] by (simp add: same_net_def)
  have "it_registry t = it_registry (net_transport net)" "reliable t = reliable (net_transport net)"
    by (subst reg, simp add: reliable_def)+
  then show "chord_cluster net' = chord_cluster net" "chord_up net' = chord_up net"
    by (simp_all add: t(2) chord_cluster_def chord_up_def [abs_def])
  show "chord_view net' = chord_view net" "net_now net' = net_now net" "net_node net' = net_node net"
    by (simp_all add: t(2) chord_view_def [abs_def])
  show "h = nr_Addr r" if "chord_cluster net" "x = Inr h"
    using lookupForContext_Inr t(1) that by (metis chord_cluster_def)
qed

lemma rpc_up: "chord_up net (nr_Addr r) \<Longrightarrow> snd (rpc c r net) = Inr (nr_Addr r)"
  by (simp add: rpc_def chord_up_def)

lemma Get_Put: "Get now (Put e s) k = (if k = Key e then if IsExpired now e then None else Some e else Get now s k)"
  by (simp add: Get_def Put_def Clone_def)

lemma put_node_cluster:
  assumes "chord_cluster net" "gm_wf (Clock e)"
  shows "chord_cluster (upd_node a (\<lambda>n. n\<lparr>cn_Store := Put e (cn_Store n)\<rparr>) net)"
proof -
  let ?s = "cn_Store (net_node net a)"
  have s: "kv_inv ?s" "\<forall>(k, x) \<in> set (kv_entries ?s). gm_wf (Clock x)" using assms(1) by (auto simp: chord_cluster_def)
  then have "gm_wf (kv_entries ?s)" by (simp add: kv_inv_def)
  with s assms(2) have "\<forall>(k, x) \<in> set (kv_entries (Put e ?s)). gm_wf (Clock x)" by (auto simp: Put_def set_gm_put Clone_def)
  with assms(1) s(1) show ?thesis by (simp add: chord_cluster_def)
qed

interpretation cq: available_cluster chord_env chord_view chord_cluster chord_up
proof unfold_locales
  fix s s' c r k and x :: "chord_error + ValueEntry option"
  assume inv: "chord_cluster s" and g: "qe_GetEntry chord_env c r k s = (s', x)"
  obtain net1 y where r: "rpc c r s = (net1, y)" by fastforce
  have "s' = net1" using g r by (auto simp: chord_env_def Transport_GetEntry_def split: sum.splits prod.splits)
  with rpc_cluster [OF r] inv show "chord_cluster s' \<and> chord_view s' = chord_view s \<and> qe_now chord_env s' = qe_now chord_env s"
    by (simp add: chord_env_def)
next
  fix s s' c r k and w :: "ValueEntry option"
  assume inv: "chord_cluster s" and g: "qe_GetEntry chord_env c r k s = (s', Inr w)"
  obtain net1 y where r: "rpc c r s = (net1, y)" by fastforce
  then show "w = chord_view s (nr_Addr r) k"
    using g rpc_cluster [OF r] inv
    by (cases y) (auto simp: chord_env_def Transport_GetEntry_def HandleGetEntry_def chord_view_def split: option.splits)
next
  fix s s' c r k and x :: "chord_error + ValueEntry option"
  assume g: "qe_GetEntry chord_env c r k s = (s', x)"
  obtain net1 y where r: "rpc c r s = (net1, y)" by fastforce
  have "s' = net1" using g r by (auto simp: chord_env_def Transport_GetEntry_def split: sum.splits prod.splits)
  with rpc_cluster [OF r] show "chord_up s' = chord_up s" by simp
next
  fix s s' c r k e and y :: "chord_error + unit"
  assume "chord_cluster s" "gm_wf (Clock e)" and p: "qe_PutEntry chord_env c r k (Some e) s = (s', y)"
  moreover obtain net1 z where r: "rpc c r s = (net1, z)" by fastforce
  ultimately show "chord_cluster s' \<and> qe_now chord_env s' = qe_now chord_env s"
    using rpc_cluster [OF r] put_node_cluster
    by (cases z) (auto simp: chord_env_def Transport_PutEntry_def HandlePutEntry_def)
next
  fix s s' c r k e f
  assume p: "qe_PutEntry chord_env c r k (Some e) s = (s', Inl f)"
  obtain net1 z where r: "rpc c r s = (net1, z)" by fastforce
  then show "chord_view s' = chord_view s"
    using p rpc_cluster [OF r] by (cases z) (auto simp: chord_env_def Transport_PutEntry_def HandlePutEntry_def)
next
  fix s s' c r k e u a j
  assume inv: "chord_cluster s" "gm_wf (Clock e)" and p: "qe_PutEntry chord_env c r k (Some e) s = (s', Inr u)"
  obtain net1 z where r: "rpc c r s = (net1, z)" by fastforce
  from p r rpc_cluster [OF r] inv
  show "chord_view s' a j = (if a = nr_Addr r \<and> j = Key e then if IsExpired (qe_now chord_env s) e then None else Some e else chord_view s a j)"
    by (cases z) (auto simp: chord_env_def Transport_PutEntry_def HandlePutEntry_def chord_view_def Get_Put)
next
  fix s s' c r k e and y :: "chord_error + unit"
  assume p: "qe_PutEntry chord_env c r k (Some e) s = (s', y)"
  obtain net1 z where r: "rpc c r s = (net1, z)" by fastforce
  with p rpc_cluster [OF r] show "chord_up s' = chord_up s"
    by (cases z) (auto simp: chord_env_def Transport_PutEntry_def HandlePutEntry_def chord_up_def fun_eq_iff)
next
  fix s t p
  show "chord_up (qe_Publish chord_env t p s) = chord_up s" by (simp add: chord_env_def emit_def chord_up_def fun_eq_iff)
next
  fix s a k v
  assume "chord_cluster s" "chord_view s a k = Some v"
  then show "gm_wf (Clock v)"
    by (auto simp: chord_view_def Get_def chord_cluster_def Clone_def split: option.splits if_splits dest!: map_of_SomeD)
next
  fix s :: ChordNet and t p
  assume "chord_cluster s"
  then show "chord_cluster (qe_Publish chord_env t p s) \<and> chord_view (qe_Publish chord_env t p s) = chord_view s \<and>
      qe_now chord_env (qe_Publish chord_env t p s) = qe_now chord_env s"
    by (simp add: chord_env_def chord_cluster_def chord_view_def [abs_def] emit_def)
next
  fix s c k v and r :: NodeRef
  assume inv: "chord_cluster s" and up: "chord_up s (nr_Addr r)" and v: "chord_view s (nr_Addr r) k = Some v"
  obtain net1 where r: "rpc c r s = (net1, Inr (nr_Addr r))" using rpc_up [OF up] by (metis prod.collapse)
  with v rpc_cluster [OF r] show "snd (qe_GetEntry chord_env c r k s) = Inr (Some v)"
    by (simp add: chord_env_def Transport_GetEntry_def HandleGetEntry_def chord_view_def)
next
  fix s c k e and r :: NodeRef
  assume "chord_up s (nr_Addr r)"
  from rpc_up [OF this] obtain net1 where "rpc c r s = (net1, Inr (nr_Addr r))" by (metis prod.collapse)
  then show "snd (qe_PutEntry chord_env c r k (Some e) s) = Inr ()"
    by (simp add: chord_env_def Transport_PutEntry_def HandlePutEntry_def)
qed

section \<open>Properties\<close>

text \<open>
  C3. Quorum intersection. A write that returned success acknowledged by at least \<^verbatim>\<open>W\<close> replicas,
  followed by a read that returned success, in whatever order the calls of each fan-out took
  effect and however many of them failed: if \<^verbatim>\<open>W + R\<close> exceeds the number of replicas, the stores
  were not changed in between and the write saw the versions it replaces (their clocks are
  before the new one), then the read returns exactly the written version.
\<close>

theorem quorum_read_after_write:
  assumes "chord_cluster net" "Write chord_env q sched key value w net = (net1, Inr ())"
    and "chord_cluster net2" "qm_FindReplicas q key net2 = qm_FindReplicas q key net"
    and "\<forall>r \<in> set (qm_FindReplicas q key net). chord_view net2 (nr_Addr r) key = chord_view net1 (nr_Addr r) key"
    and "Read chord_env q sched' key (net2, h) = (sh, Inr (Some v, t))"
    and "distinct (map nr_Addr (qm_FindReplicas q key net))" "\<forall>rs. mset (sched rs) = mset rs" "\<forall>rs. mset (sched' rs) = mset rs"
    and "int (length (qm_FindReplicas q key net)) < qc_W (qm_Config q) + qc_R (qm_Config q)"
    and "\<forall>r \<in> set (qm_FindReplicas q key net). \<forall>u. chord_view net (nr_Addr r) key = Some u \<longrightarrow>
       VC_Compare (Clock u) (Clock (written_entry chord_env q key value w net)) = Before"
  shows "v = written_entry chord_env q key value w net \<and> Value v = value \<and> NodeID v = w"
  using cq.read_after_write [OF assms(1,2,3,4,6,5,7-11)] by (simp add: written_entry_def Let_def)

text \<open>
  Availability. When every replica can be reached, a write succeeds for every write quorum up
  to the number of replicas, every replica then holds the new version, and a read right after
  it succeeds and returns the written value.
\<close>

theorem quorum_available:
  assumes "chord_cluster net" "\<forall>r \<in> set (rs key). chord_up net (nr_Addr r)" "rs key \<noteq> []"
    and "\<forall>xs. mset (sched xs) = mset xs" "\<forall>xs. mset (sched' xs) = mset xs"
    and "qc_W cfg \<le> int (length (rs key))" "qc_R cfg \<le> int (length (rs key))"
    and "Write chord_env (NewQuorumManager (Some cfg) (\<lambda>k _. rs k) bus) sched key value w net = (net1, res)"
  shows "res = Inr () \<and> (\<forall>r \<in> set (rs key). \<exists>e. chord_view net1 (nr_Addr r) key = Some e \<and> Value e = value) \<and>
    (\<exists>e t. snd (Read chord_env (NewQuorumManager (Some cfg) (\<lambda>k _. rs k) bus) sched' key (net1, h)) = Inr (Some e, Some t) \<and> Value e = value)"
proof -
  let ?q = "NewQuorumManager (Some cfg) (\<lambda>k _. rs k) bus :: ChordNet QuorumManager"
  have q: "qm_FindReplicas ?q key s = rs key" "qm_Config ?q = cfg" for s by (simp_all add: NewQuorumManager_def)
  have up: "\<forall>r \<in> set (qm_FindReplicas ?q key net). chord_up net (nr_Addr r)" "qm_FindReplicas ?q key net \<noteq> []"
    using assms(2,3) by (simp_all add: q)
  note hyps = assms(1) up assms(4)
  have W: "qc_W (qm_Config ?q) \<le> int (length (qm_FindReplicas ?q key net))" and R: "qc_R (qm_Config ?q) \<le> int (length (qm_FindReplicas ?q key net))"
    using assms(6,7) by (simp_all add: q)
  have same: "qm_FindReplicas ?q key net1 = qm_FindReplicas ?q key net" by (simp add: q)
  note wr = cq.write_then_read [OF hyps assms(5) W R assms(8) same]
  from cq.write_available(2) [OF hyps W assms(8)] have held: "\<forall>r \<in> set (rs key). \<exists>e. chord_view net1 (nr_Addr r) key = Some e \<and> Value e = value"
    by (simp add: q)
  from wr(2) [of h] have "\<exists>e t. snd (Read chord_env ?q sched' key (net1, h)) = Inr (Some e, Some t) \<and> Value e = value"
    by (metis written_entry_simps(3))
  with wr(1) held show ?thesis by blast
qed

text \<open>A cluster of the three nodes \<open>a\<close>, \<open>b\<close> and \<open>c\<close>, all up and empty.\<close>

definition trio_refs :: "ID \<Rightarrow> NodeRef list" where
  "trio_refs k = [\<lparr>nr_ID = 10, nr_Addr = ''a''\<rparr>, \<lparr>nr_ID = 20, nr_Addr = ''b''\<rparr>, \<lparr>nr_ID = 15, nr_Addr = ''c''\<rparr>]"

lemma trio_refs_simps [simp]:
  "trio_refs k \<noteq> []" "length (trio_refs k) = 3" "distinct (map nr_Addr (trio_refs k))"
  by (simp_all add: trio_refs_def)

lemma trio_cluster:
  "chord_cluster trio_net" "\<forall>r \<in> set (trio_refs k). chord_up trio_net (nr_Addr r)" "chord_view trio_net a k = None" for a k
proof -
  have t: "reliable (net_transport trio_net)" "it_registry (net_transport trio_net) = [(''a'', ''a''), (''b'', ''b''), (''c'', ''c'')]"
    by (simp_all add: trio_net_def pair_net_def NewInProcessTransport_def Register_def gm_put_def reliable_def)
  have st: "cn_Store (net_node trio_net s) = NewKVStore" for s
    by (simp add: trio_net_def pair_net_def pair_node_def)
  show "chord_cluster trio_net" using t st by (auto simp: chord_cluster_def NewKVStore_def kv_inv_def split: if_splits)
  show "\<forall>r \<in> set (trio_refs k). chord_up trio_net (nr_Addr r)" using t by (simp add: chord_up_def trio_refs_def)
  show "chord_view trio_net a k = None" using st by (simp add: chord_view_def Get_def NewKVStore_def)
qed

theorem quorum_available_witness:
  "\<exists>net1 e t. Write chord_env (NewQuorumManager (Some Quorum_DefaultConfig) (\<lambda>k _. trio_refs k) True) rev 7 [1, 2] ''gateway'' trio_net = (net1, Inr ()) \<and>
     snd (Read chord_env (NewQuorumManager (Some Quorum_DefaultConfig) (\<lambda>k _. trio_refs k) True) (\<lambda>xs. xs) 7 (net1, DefaultConflictHistory)) =
       Inr (Some e, Some t) \<and> Value e = [1, 2]"
proof -
  let ?q = "NewQuorumManager (Some Quorum_DefaultConfig) (\<lambda>k _. trio_refs k) True"
  obtain net1 r where w: "Write chord_env ?q rev 7 [1, 2] ''gateway'' trio_net = (net1, r)" by fastforce
  have "r = Inr () \<and> (\<forall>r \<in> set (trio_refs 7). \<exists>e. chord_view net1 (nr_Addr r) 7 = Some e \<and> Value e = [1, 2]) \<and>
    (\<exists>e t. snd (Read chord_env ?q (\<lambda>xs. xs) 7 (net1, DefaultConflictHistory)) = Inr (Some e, Some t) \<and> Value e = [1, 2])"
    by (rule quorum_available [OF trio_cluster(1) trio_cluster(2) _ _ _ _ _ w]) (simp_all add: Quorum_DefaultConfig_def)
  with w show ?thesis by blast
qed

theorem quorum_read_after_write_witness:
  "\<exists>net1 sh v t. Write chord_env (NewQuorumManager None (\<lambda>k _. trio_refs k) True) rev 7 [1, 2] ''gateway'' trio_net = (net1, Inr ()) \<and>
     Read chord_env (NewQuorumManager None (\<lambda>k _. trio_refs k) True) rev 7 (net1, DefaultConflictHistory) = (sh, Inr (Some v, t)) \<and> Value v = [1, 2]"
proof -
  let ?q = "NewQuorumManager None (\<lambda>k _. trio_refs k) True :: ChordNet QuorumManager"
  have q: "qm_FindReplicas ?q k n = trio_refs k" "qm_Config ?q = Quorum_DefaultConfig" for k n by (simp_all add: NewQuorumManager_def)
  obtain net1 r where w: "Write chord_env ?q rev 7 [1, 2] ''gateway'' trio_net = (net1, r)" by fastforce
  have ne: "qm_FindReplicas ?q 7 trio_net \<noteq> []" by (simp add: q)
  have up: "\<forall>r \<in> set (qm_FindReplicas ?q 7 trio_net). chord_up trio_net (nr_Addr r)" using trio_cluster(2) by (simp add: q)
  have perm: "\<forall>rs. mset (rev rs) = mset (rs :: NodeRef list)" by simp
  have sizes: "qc_W (qm_Config ?q) \<le> int (length (qm_FindReplicas ?q 7 trio_net))" "qc_R (qm_Config ?q) \<le> int (length (qm_FindReplicas ?q 7 trio_net))"
    by (simp_all add: q Quorum_DefaultConfig_def)
  note wr = cq.write_then_read [OF trio_cluster(1) up ne perm perm sizes w]
  have r: "r = Inr ()" by (rule wr(1)) (simp add: q)
  obtain sh v t where rd: "Read chord_env ?q rev 7 (net1, DefaultConflictHistory) = (sh, Inr (Some v, t))"
    using wr(2) [of DefaultConflictHistory] by (metis prod.collapse q(1))
  have inv1: "chord_cluster net1" by (rule cq.Write_spec [OF w trio_cluster(1) ne])
  have "v = written_entry chord_env ?q 7 [1, 2] ''gateway'' trio_net \<and> Value v = [1, 2] \<and> NodeID v = ''gateway''"
    by (rule quorum_read_after_write [OF trio_cluster(1) w [unfolded r] inv1 _ _ rd])
       (simp_all add: q Quorum_DefaultConfig_def trio_cluster(3))
  with w r rd show ?thesis by blast
qed

text \<open>
  Every outcome of a write. The write fails exactly when fewer than \<^verbatim>\<open>W\<close> replicas acknowledged,
  and it is not undone: after a failed write as after a successful one, exactly the replicas
  that acknowledged hold the new version and nothing else changed at any node.
\<close>

theorem quorum_write_effect:
  assumes "chord_cluster net" "qm_FindReplicas q key net \<noteq> []" "\<forall>xs. set (sched xs) = set xs"
    and "Write chord_env q sched key value w net = (net1, res)"
  shows "\<exists>acked. set acked \<subseteq> set (qm_FindReplicas q key net) \<and>
    (\<forall>a k. chord_view net1 a k = (if a \<in> nr_Addr ` set acked \<and> k = key then Some (written_entry chord_env q key value w net) else chord_view net a k)) \<and>
    (res = Inr () \<longleftrightarrow> int (length acked) \<ge> qc_W (qm_Config q)) \<and>
    (res \<noteq> Inr () \<longrightarrow> res = Inl (EQuorumNotMet (int (length acked)) (int (length (qm_FindReplicas q key net))) (qc_W (qm_Config q))))"
proof (rule cq.Write_spec [OF assms(4,1,2)])
  fix acked
  assume "subseq acked (sched (qm_FindReplicas q key net))"
    and view: "\<And>a j. chord_view net1 a j = (if a \<in> nr_Addr ` set acked \<and> j = key then Some (written_entry chord_env q key value w net) else chord_view net a j)"
    and res: "res = (if int (length acked) \<ge> qc_W (qm_Config q) then Inr ()
          else Inl (EQuorumNotMet (int (length acked)) (int (length (qm_FindReplicas q key net))) (qc_W (qm_Config q))))"
  moreover from this(1) have "set acked \<subseteq> set (qm_FindReplicas q key net)" using assms(3) by (auto dest: list_emb_set)
  ultimately show ?thesis by (intro exI [of _ acked]) auto
qed

theorem quorum_write_effect_witness:
  "chord_view (fst (Write chord_env (NewQuorumManager None (\<lambda>k _. trio_refs k) True) rev 7 [1] ''w'' trio_net)) ''a'' 7 \<in>
     {None, Some (written_entry chord_env (NewQuorumManager None (\<lambda>k _. trio_refs k) True) 7 [1] ''w'' trio_net)} \<and>
   chord_view (fst (Write chord_env (NewQuorumManager None (\<lambda>k _. trio_refs k) True) rev 7 [1] ''w'' trio_net)) ''a'' 8 = None"
proof -
  define q :: "ChordNet QuorumManager" where "q = NewQuorumManager None (\<lambda>k _. trio_refs k) True"
  have q: "qm_FindReplicas q k n = trio_refs k" for k n by (simp add: NewQuorumManager_def q_def)
  obtain net1 r where w: "Write chord_env q rev 7 [1] ''w'' trio_net = (net1, r)" by fastforce
  have "\<exists>acked. set acked \<subseteq> set (qm_FindReplicas q 7 trio_net) \<and>
    (\<forall>a k. chord_view net1 a k = (if a \<in> nr_Addr ` set acked \<and> k = 7 then Some (written_entry chord_env q 7 [1] ''w'' trio_net) else chord_view trio_net a k)) \<and>
    (r = Inr () \<longleftrightarrow> int (length acked) \<ge> qc_W (qm_Config q)) \<and>
    (r \<noteq> Inr () \<longrightarrow> r = Inl (EQuorumNotMet (int (length acked)) (int (length (qm_FindReplicas q 7 trio_net))) (qc_W (qm_Config q))))"
    by (rule quorum_write_effect [OF trio_cluster(1) _ _ w]) (simp_all add: q)
  then have "chord_view net1 ''a'' 7 \<in> {None, Some (written_entry chord_env q 7 [1] ''w'' trio_net)} \<and> chord_view net1 ''a'' 8 = None"
    by (auto simp: trio_cluster(3))
  with w show ?thesis by (simp add: q_def)
qed

text \<open>
  Read repair. It installs the winner only at nodes whose answer was causally older than the
  winner, and at no other key. At such a node that can be reached it does so unconditionally:
  even if the node has meanwhile stored a version causally after the winner, that version is
  lost.
\<close>

theorem read_repair_effect:
  assumes "chord_cluster net" "gm_wf (Clock (rt_winner t))" "\<not> IsExpired (net_now net) (rt_winner t)"
  shows "(\<forall>a k. chord_view (readRepair chord_env t net) a k \<noteq> chord_view net a k \<longrightarrow>
      k = Key (rt_winner t) \<and> chord_view (readRepair chord_env t net) a k = Some (rt_winner t) \<and>
      (\<exists>(n, u) \<in> set (rt_responses t). nr_Addr n = a \<and> VC_Compare (Clock u) (Clock (rt_winner t)) = Before)) \<and>
    (\<forall>(n, u) \<in> set (rt_responses t). chord_up net (nr_Addr n) \<and> VC_Compare (Clock u) (Clock (rt_winner t)) = Before \<longrightarrow>
      chord_view (readRepair chord_env t net) (nr_Addr n) (Key (rt_winner t)) = Some (rt_winner t))"
proof -
  have now: "\<not> IsExpired (qe_now chord_env net) (rt_winner t)" using assms(3) by (simp add: chord_env_def)
  show ?thesis
    unfolding readRepair_def
    using cq.readRepair_loop_spec [OF assms(1,2), of "rt_coordinator t" "rt_key t" "rt_responses t"] now
      cq.readRepair_loop_installs [OF assms(1,2) now] by (auto split: if_splits)
qed

theorem read_repair_effect_witness:
  "\<exists>net t newer. chord_view net ''b'' 7 = Some newer \<and> VC_Compare (Clock newer) (Clock (rt_winner t)) = After \<and>
     chord_view (readRepair chord_env t net) ''b'' 7 = Some (rt_winner t)"
proof -
  let ?v = "\<lambda>clk. \<lparr>Key = 7, Value = [], Clock = clk, Timestamp = 0, TTL = 0, NodeID = ''w''\<rparr>"
  let ?b = "\<lparr>nr_ID = 20, nr_Addr = ''b''\<rparr>"
  let ?t = "\<lparr>rt_coordinator = ?b, rt_key = 7, rt_winner = ?v [(''w'', 1)], rt_responses = [(?b, ?v [])]\<rparr>"
  let ?net = "upd_node ''b'' (\<lambda>n. n\<lparr>cn_Store := Put (?v [(''w'', 2)]) (cn_Store n)\<rparr>) trio_net"
  have inv: "chord_cluster ?net" by (rule put_node_cluster [OF trio_cluster(1)]) simp
  have up: "chord_up ?net ''b''" using trio_cluster(2) [of 7] by (simp add: chord_up_def trio_refs_def)
  have now: "\<not> IsExpired (net_now ?net) (rt_winner ?t)" "gm_wf (Clock (rt_winner ?t))" by simp_all
  have "VC_Compare [] [(''w'', 1)] = Before" "VC_Compare [(''w'', 2)] [(''w'', 1)] = After" by (simp_all add: VC_Compare_def vc_get_def)
  moreover have "chord_view (readRepair chord_env ?t ?net) ''b'' 7 = Some (?v [(''w'', 1)])"
    using read_repair_effect [OF inv now(2,1)] up calculation(1) by auto
  moreover have "chord_view ?net ''b'' 7 = Some (?v [(''w'', 2)])"
    by (simp add: chord_view_def Get_Put)
  ultimately show ?thesis by (intro exI [of _ ?net] exI [of _ ?t] exI [of _ "?v [(''w'', 2)]"]) simp
qed

end
