(* ===== verification/Orchestrator.thy ===== *)
theory Orchestrator
  imports Quorum_Kad Quorum_Chord
begin

text \<open>
  The orchestrator, \<^verbatim>\<open>internal/simulation/orchestrator.go\<close>: it creates Chord or Kademlia nodes on
  one shared in-process transport, routes reads and writes of clients through the quorum
  manager, and injects faults. The node objects of both protocols are stores indexed by
  address; a reference to a node is its address. The Chord operations see the orchestrator
  through \<open>chord_net\<close>, the Kademlia operations through \<open>kad_net\<close>: both share the transport, the
  event log and the clock.

  The lock makes each of the short sections atomic; \<^verbatim>\<open>range\<close> over a map visits it in the order of
  the list. The read repair that a quorum read starts in the background is queued in
  \<open>o_repairs\<close>. The deadlines of the contexts have no effect on in-process calls. The event bus
  is present, as \<^verbatim>\<open>main\<close> always passes one.
\<close>

section \<open>State\<close>

record SimConfig =
  sc_Protocol :: string
  sc_M :: int
  sc_VirtualNodes :: int
  sc_ReplicationN :: int
  sc_WriteQuorum :: int
  sc_ReadQuorum :: int
  sc_SuccessorListSize :: int
  sc_KBucketSize :: int
  sc_Alpha :: int
  sc_StabilizeInterval :: duration
  sc_FixFingersInterval :: duration
  sc_GossipInterval :: duration
  sc_RepublishInterval :: duration
  sc_SimDelay :: duration
  sc_SimLossRate :: rat
  sc_InitialNodes :: int

definition Sim_DefaultConfig :: SimConfig where
  "Sim_DefaultConfig =
     \<lparr>sc_Protocol = ''chord'', sc_M = 160, sc_VirtualNodes = 3, sc_ReplicationN = 3, sc_WriteQuorum = 2, sc_ReadQuorum = 2,
      sc_SuccessorListSize = 8, sc_KBucketSize = 20, sc_Alpha = 3, sc_StabilizeInterval = 500 * 10 ^ 6,
      sc_FixFingersInterval = 10 ^ 9, sc_GossipInterval = 2 * 10 ^ 9, sc_RepublishInterval = 24 * 10 ^ 9,
      sc_SimDelay = 0, sc_SimLossRate = 0, sc_InitialNodes = 6\<rparr>"

text \<open>The values of the interface \<^verbatim>\<open>Node\<close>.\<close>

datatype Node = ChordObj string | KadObj string

record Orchestrator =
  o_cfg :: SimConfig
  o_transport :: "string InProcessTransport"
  o_chord :: "string \<Rightarrow> ChordNode"
  o_kad :: "string \<Rightarrow> KademliaNode"
  o_nodes :: "(string, Node) gomap"
  o_chordNodes :: "(string, string) gomap"
  o_kadNodes :: "(string, string) gomap"
  o_kadGossip :: "(string, string) gomap"
  o_nodeAddrs :: "string list"
  o_quorum :: QuorumConfig
  o_portCounter :: nat
  o_keyStrings :: "(ID, string) gomap"
  o_events :: "Event list"
  o_now :: time
  o_history :: ConflictHistory
  o_repairs :: "repair_task list"

datatype orch_error =
    ONodeExists string
  | OUnknownProtocol string
  | OChordJoin chord_error
  | ONodeNotFound string
  | OQuorum quorum_error
  | OLookup chord_error
  | ONoNodes
  | OKeyNotFound ID

text \<open>
  How an operation ends: it may not return (a Chord call nested deeper than the fuel), panic or
  block, or return a new state with an error or a result.
\<close>

type_synonym 'r orch_result = "(fault + Orchestrator \<times> (orch_error + 'r)) option"

definition chord_net :: "Orchestrator \<Rightarrow> ChordNet" where
  "chord_net orc = \<lparr>net_node = o_chord orc, net_transport = o_transport orc, net_events = o_events orc, net_now = o_now orc\<rparr>"

definition with_chord :: "ChordNet \<Rightarrow> Orchestrator \<Rightarrow> Orchestrator" where
  "with_chord net orc = orc\<lparr>o_chord := net_node net, o_transport := net_transport net, o_events := net_events net, o_now := net_now net\<rparr>"

definition kad_net :: "Orchestrator \<Rightarrow> KadNet" where
  "kad_net orc = \<lparr>kad_node = o_kad orc, kad_transport = o_transport orc, kad_events = o_events orc, kad_now = o_now orc\<rparr>"

definition with_kad :: "KadNet \<Rightarrow> Orchestrator \<Rightarrow> Orchestrator" where
  "with_kad net orc = orc\<lparr>o_kad := kad_node net, o_transport := kad_transport net, o_events := kad_events net, o_now := kad_now net\<rparr>"

definition orch_publish :: "EventType \<Rightarrow> Payload \<Rightarrow> Orchestrator \<Rightarrow> Orchestrator" where
  "orch_publish t p orc = orc\<lparr>o_events := o_events orc @ [MakeEvent (o_now orc) t p]\<rparr>"

definition NewOrchestrator :: "sha1_fn \<Rightarrow> (nat \<Rightarrow> rat) \<Rightarrow> time \<Rightarrow> SimConfig option \<Rightarrow> Orchestrator" where
  "NewOrchestrator sha1 rng now cfg =
     (let cfg = (case cfg of None \<Rightarrow> Sim_DefaultConfig | Some c \<Rightarrow> c)
      in \<lparr>o_cfg = cfg, o_transport = NewInProcessTransport rng (sc_SimDelay cfg) (sc_SimLossRate cfg),
          o_chord = (\<lambda>a. NewChordNode sha1 a None), o_kad = (\<lambda>a. NewKademliaNode sha1 a None),
          o_nodes = [], o_chordNodes = [], o_kadNodes = [], o_kadGossip = [], o_nodeAddrs = [],
          o_quorum = \<lparr>qc_N = sc_ReplicationN cfg, qc_W = sc_WriteQuorum cfg, qc_R = sc_ReadQuorum cfg\<rparr>,
          o_portCounter = 7000, o_keyStrings = [], o_events = [], o_now = now, o_history = DefaultConflictHistory,
          o_repairs = []\<rparr>)"

section \<open>Creating nodes\<close>

definition getAnyChordBootstrap :: "Orchestrator \<Rightarrow> NodeRef option" where
  "getAnyChordBootstrap orc = (case o_chordNodes orc of [] \<Rightarrow> None | (_, h) # _ \<Rightarrow> Some (Ref (o_chord orc h)))"

definition zero_Time :: time where
  "zero_Time = - 62135596800 * 10 ^ 9"

definition getAnyKadBootstrap :: "Orchestrator \<Rightarrow> Contact option" where
  "getAnyKadBootstrap orc =
     (case o_kadNodes orc of
        [] \<Rightarrow> None
      | (_, h) # _ \<Rightarrow> Some \<lparr>c_ID = kn_ID (o_kad orc h), c_Addr = kn_Addr (o_kad orc h), c_LastSeen = zero_Time\<rparr>)"

definition add_chord_node :: "string \<Rightarrow> Orchestrator \<Rightarrow> Orchestrator" where
  "add_chord_node addr orc =
     orc\<lparr>o_nodes := gm_put addr (ChordObj addr) (o_nodes orc), o_chordNodes := gm_put addr addr (o_chordNodes orc),
        o_nodeAddrs := o_nodeAddrs orc @ [addr]\<rparr>"

definition spawnChordNode :: "nat \<Rightarrow> sha1_fn \<Rightarrow> string \<Rightarrow> bool \<Rightarrow> Orchestrator \<Rightarrow> Node orch_result" where
  "spawnChordNode fuel sha1 addr firstNode orc =
     (let cfg = \<lparr>StabilizeInterval = sc_StabilizeInterval (o_cfg orc), FixFingersInterval = sc_FixFingersInterval (o_cfg orc),
                 CheckPredInterval = sc_StabilizeInterval (o_cfg orc), CheckSuccInterval = sc_StabilizeInterval (o_cfg orc),
                 SuccessorListSize = sc_SuccessorListSize (o_cfg orc), MaxHops = 3 * 160\<rparr>;
          orc = orc\<lparr>o_chord := (o_chord orc)(addr := NewChordNode sha1 addr (Some cfg)),
                    o_transport := Register addr addr (o_transport orc)\<rparr>
      in case (if firstNode then None else getAnyChordBootstrap orc) of
           None \<Rightarrow> Some (Inr (add_chord_node addr (with_chord (CreateRing addr (chord_net orc)) orc), Inr (ChordObj addr)))
         | Some bootstrap \<Rightarrow>
             (case Chord_Join fuel addr bootstrap (chord_net orc) of
                None \<Rightarrow> None
              | Some (net, Inl e) \<Rightarrow>
                  let orc = with_chord net orc
                  in Some (Inr (orc\<lparr>o_transport := Deregister addr (o_transport orc)\<rparr>, Inl (OChordJoin e)))
              | Some (net, Inr _) \<Rightarrow> Some (Inr (add_chord_node addr (with_chord net orc), Inr (ChordObj addr)))))"

text \<open>The peers a node gossips with: the callback given to its anti-entropy engine.\<close>

definition gossip_peers :: "string \<Rightarrow> Orchestrator \<Rightarrow> NodeRef list" where
  "gossip_peers addr orc = map (\<lambda>(_, h). Kad_Ref (o_kad orc h)) (filter (\<lambda>(peerAddr, _). peerAddr \<noteq> addr) (o_kadNodes orc))"

definition add_kad_node :: "sha1_fn \<Rightarrow> string \<Rightarrow> Orchestrator \<Rightarrow> Orchestrator" where
  "add_kad_node sha1 addr orc =
     (let n = o_kad orc addr;
          ae = NewAntiEntropy sha1 (o_now orc) addr (kn_KVStore n)
            (Some \<lparr>gc_Interval = sc_GossipInterval (o_cfg orc), gc_PeersPerRound = 2\<rparr>)
      in orc\<lparr>o_kad := (o_kad orc)(addr := SetAntiEntropy ae n),
             o_nodes := gm_put addr (KadObj addr) (o_nodes orc), o_kadNodes := gm_put addr addr (o_kadNodes orc),
             o_kadGossip := gm_put addr addr (o_kadGossip orc), o_nodeAddrs := o_nodeAddrs orc @ [addr]\<rparr>)"

definition spawnKadNode :: "sha1_fn \<Rightarrow> (Contact list \<Rightarrow> Contact list) \<Rightarrow> string \<Rightarrow> bool \<Rightarrow> Orchestrator \<Rightarrow> Node orch_result" where
  "spawnKadNode sha1 sched addr firstNode orc =
     (let cfg = \<lparr>kc_K = sc_KBucketSize (o_cfg orc), kc_Alpha = sc_Alpha (o_cfg orc), kc_AlphaTimeout = 0,
                 kc_RepublishInterval = sc_RepublishInterval (o_cfg orc),
                 kc_ExpireTTL = signed_take_bit 63 (sc_RepublishInterval (o_cfg orc) + 10 ^ 9),
                 kc_BucketRefreshInterval = 60 * 10 ^ 9, kc_PingTimeout = 300 * 10 ^ 6\<rparr>;
          orc = orc\<lparr>o_kad := (o_kad orc)(addr := NewKademliaNode sha1 addr (Some cfg)),
                    o_transport := Register addr addr (o_transport orc)\<rparr>
      in case (if firstNode then None else getAnyKadBootstrap orc) of
           None \<Rightarrow> Some (Inr (add_kad_node sha1 addr (with_kad (CreateNetwork addr (kad_net orc)) orc), Inr (KadObj addr)))
         | Some bootstrap \<Rightarrow>
             (case Kad_Join sched addr bootstrap (kad_net orc) of
                Inl f \<Rightarrow> Some (Inl f)
              | Inr net \<Rightarrow> Some (Inr (add_kad_node sha1 addr (with_kad net orc), Inr (KadObj addr)))))"

definition SpawnNode :: "nat \<Rightarrow> sha1_fn \<Rightarrow> (Contact list \<Rightarrow> Contact list) \<Rightarrow> string \<Rightarrow> Orchestrator \<Rightarrow> Node orch_result" where
  "SpawnNode fuel sha1 sched addr orc =
     (let (addr, orc) =
        (if addr = [] then (''127.0.0.1:'' @ fmt_d (o_portCounter orc), orc\<lparr>o_portCounter := o_portCounter orc + 1\<rparr>) else (addr, orc));
          exists = (map_of (o_nodes orc) addr \<noteq> None);
          firstNode = (o_nodes orc = [])
      in if exists then Some (Inr (orc, Inl (ONodeExists addr)))
         else if sc_Protocol (o_cfg orc) = ''chord'' then spawnChordNode fuel sha1 addr firstNode orc
         else if sc_Protocol (o_cfg orc) = ''kademlia'' then spawnKadNode sha1 sched addr firstNode orc
         else Some (Inr (orc, Inl (OUnknownProtocol (sc_Protocol (o_cfg orc))))))"

section \<open>Removing nodes\<close>

fun removeAddr :: "string \<Rightarrow> string list \<Rightarrow> string list" where
  "removeAddr addr [] = []"
| "removeAddr addr (a # as) = (if a = addr then as else a # removeAddr addr as)"

definition forget_node :: "string \<Rightarrow> Orchestrator \<Rightarrow> Orchestrator" where
  "forget_node addr orc =
     orc\<lparr>o_nodes := gm_del addr (o_nodes orc), o_chordNodes := gm_del addr (o_chordNodes orc),
        o_kadNodes := gm_del addr (o_kadNodes orc), o_kadGossip := gm_del addr (o_kadGossip orc),
        o_nodeAddrs := removeAddr addr (o_nodeAddrs orc), o_transport := Deregister addr (o_transport orc)\<rparr>"

definition KillNode :: "string \<Rightarrow> Orchestrator \<Rightarrow> Orchestrator \<times> (orch_error + unit)" where
  "KillNode addr orc =
     (case map_of (o_nodes orc) addr of
        None \<Rightarrow> (orc, Inl (ONodeNotFound addr))
      | Some (ChordObj h) \<Rightarrow>
          let orc = forget_node addr orc in (with_chord (Leave h (chord_net orc)) orc, Inr ())
      | Some (KadObj h) \<Rightarrow>
          let orc = forget_node addr orc in (orc\<lparr>o_kad := (o_kad orc)(h := Kad_Stop (o_kad orc h))\<rparr>, Inr ()))"

definition CrashNode :: "string \<Rightarrow> Orchestrator \<Rightarrow> Orchestrator \<times> (orch_error + unit)" where
  "CrashNode addr orc =
     (case map_of (o_nodes orc) addr of
        None \<Rightarrow> (orc, Inl (ONodeNotFound addr))
      | Some (ChordObj h) \<Rightarrow>
          let orc = forget_node addr orc in (with_chord (SimulateCrash h (chord_net orc)) orc, Inr ())
      | Some (KadObj h) \<Rightarrow>
          let orc = forget_node addr orc;
              orc = orc\<lparr>o_kad := (o_kad orc)(h := Kad_Stop (o_kad orc h))\<rparr>
          in (orch_publish EventNodeCrash (NodeCrashPayload (IDToHex (kn_ID (o_kad orc h)))) orc, Inr ()))"

section \<open>Replicas of a key\<close>

text \<open>The loop that collects \<open>want\<close> consecutive nodes from \<open>idx\<close> on, around the ring.\<close>

definition take_cyclic :: "nat \<Rightarrow> nat \<Rightarrow> 'r list \<Rightarrow> 'r list" where
  "take_cyclic want idx refs =
     fold (\<lambda>i result. if length result < want then result @ [refs ! ((idx + i) mod length refs)] else result) [0..<length refs] []"

definition findChordReplicas :: "Orchestrator \<Rightarrow> ID \<Rightarrow> fault + NodeRef list" where
  "findChordReplicas orc key =
     (if o_chordNodes orc = [] then Inr []
      else
        let refs = map (\<lambda>(_, h). Ref (o_chord orc h)) (o_chordNodes orc);
            refs = sort_Slice (\<lambda>x y. Compare (nr_ID x) (nr_ID y) < 0) refs;
            n = length refs;
            idx = sort_Search n (\<lambda>i. Compare (nr_ID (refs ! i)) key \<ge> 0);
            idx = idx mod n;
            want = sc_ReplicationN (o_cfg orc);
            want = (if want > int n then int n else want)
        in if want < 0 then Inl Panic else Inr (take_cyclic (nat want) idx refs))"

definition findKadReplicas :: "Orchestrator \<Rightarrow> ID \<Rightarrow> fault + NodeRef list" where
  "findKadReplicas orc key =
     (if o_kadNodes orc = [] then Inr []
      else
        let refs = map (\<lambda>(_, h). Kad_Ref (o_kad orc h)) (o_kadNodes orc);
            refs = sort_Slice (\<lambda>x y. big_Cmp (XORDistance (nr_ID x) key) (XORDistance (nr_ID y) key) < 0) refs;
            n = sc_ReplicationN (o_cfg orc);
            n = (if n > int (length refs) then int (length refs) else n)
        in if n < 0 then Inl Panic else Inr (take (nat n) refs))"

definition findReplicas :: "Orchestrator \<Rightarrow> ID \<Rightarrow> fault + NodeRef list" where
  "findReplicas orc key = (if sc_Protocol (o_cfg orc) = ''chord'' then findChordReplicas orc key else findKadReplicas orc key)"

section \<open>Reads and writes of clients\<close>

text \<open>
  The quorum manager asks for the replicas once, at the start of an operation. The replicas are
  nodes of the configured protocol, and the handler registered at their addresses answers.
\<close>

definition orch_manager :: "NodeRef list \<Rightarrow> Orchestrator \<Rightarrow> 's QuorumManager" where
  "orch_manager replicas orc = NewQuorumManager (Some (o_quorum orc)) (\<lambda>_ _. replicas) True"

definition quorum_write ::
  "sha1_fn \<Rightarrow> (NodeRef list \<Rightarrow> NodeRef list) \<Rightarrow> NodeRef list \<Rightarrow> ID \<Rightarrow> byte list \<Rightarrow> string \<Rightarrow> Orchestrator \<Rightarrow>
   Orchestrator \<times> (quorum_error + unit)" where
  "quorum_write sha1 sched replicas key value writerID orc =
     (if sc_Protocol (o_cfg orc) = ''chord''
      then (case Write chord_env (orch_manager replicas orc) sched key value writerID (chord_net orc) of
              (net, r) \<Rightarrow> (with_chord net orc, r))
      else (case Write (kad_env sha1) (orch_manager replicas orc) sched key value writerID (kad_net orc) of
              (net, r) \<Rightarrow> (with_kad net orc, r)))"

text \<open>A read that finds a winner starts the repair of the replicas that answered with older versions.\<close>

definition queue_repair ::
  "Orchestrator \<Rightarrow> quorum_error + ValueEntry option \<times> repair_task option \<Rightarrow> Orchestrator \<times> (quorum_error + ValueEntry option)" where
  "queue_repair orc r =
     (case r of
        Inl e \<Rightarrow> (orc, Inl e)
      | Inr (winner, task) \<Rightarrow> (orc\<lparr>o_repairs := o_repairs orc @ (case task of None \<Rightarrow> [] | Some t \<Rightarrow> [t])\<rparr>, Inr winner))"

definition quorum_read ::
  "sha1_fn \<Rightarrow> (NodeRef list \<Rightarrow> NodeRef list) \<Rightarrow> NodeRef list \<Rightarrow> ID \<Rightarrow> Orchestrator \<Rightarrow>
   Orchestrator \<times> (quorum_error + ValueEntry option)" where
  "quorum_read sha1 sched replicas key orc =
     (if sc_Protocol (o_cfg orc) = ''chord''
      then (case Read chord_env (orch_manager replicas orc) sched key (chord_net orc, o_history orc) of
              ((net, h), r) \<Rightarrow> queue_repair ((with_chord net orc)\<lparr>o_history := h\<rparr>) r)
      else (case Read (kad_env sha1) (orch_manager replicas orc) sched key (kad_net orc, o_history orc) of
              ((net, h), r) \<Rightarrow> queue_repair ((with_kad net orc)\<lparr>o_history := h\<rparr>) r))"

definition Insert ::
  "sha1_fn \<Rightarrow> (NodeRef list \<Rightarrow> NodeRef list) \<Rightarrow> string \<Rightarrow> string \<Rightarrow> Orchestrator \<Rightarrow> fault + Orchestrator \<times> (orch_error + unit)" where
  "Insert sha1 sched key value orc =
     (let keyID = KeyID sha1 key in
      case findReplicas orc keyID of
        Inl f \<Rightarrow> Inl f
      | Inr replicas \<Rightarrow>
          (case quorum_write sha1 sched replicas keyID (string_bytes value) ''gateway'' orc of
             (orc, Inl e) \<Rightarrow> Inr (orc, Inl (OQuorum e))
           | (orc, Inr _) \<Rightarrow> Inr (orc\<lparr>o_keyStrings := gm_put keyID key (o_keyStrings orc)\<rparr>, Inr ())))"

text \<open>A read that returns neither an error nor an entry makes \<^verbatim>\<open>entry.Value\<close> panic.\<close>

definition Orch_Read ::
  "sha1_fn \<Rightarrow> (NodeRef list \<Rightarrow> NodeRef list) \<Rightarrow> string \<Rightarrow> Orchestrator \<Rightarrow> fault + Orchestrator \<times> (orch_error + byte list)" where
  "Orch_Read sha1 sched key orc =
     (let keyID = KeyID sha1 key in
      case findReplicas orc keyID of
        Inl f \<Rightarrow> Inl f
      | Inr replicas \<Rightarrow>
          (case quorum_read sha1 sched replicas keyID orc of
             (orc, Inl e) \<Rightarrow> Inr (orc, Inl (OQuorum e))
           | (orc, Inr None) \<Rightarrow> Inl Panic
           | (orc, Inr (Some entry)) \<Rightarrow> Inr (orc, Inr (Value entry))))"

text \<open>One of the repairs that reads have started.\<close>

definition run_repair :: "sha1_fn \<Rightarrow> Orchestrator \<Rightarrow> Orchestrator" where
  "run_repair sha1 orc =
     (case o_repairs orc of
        [] \<Rightarrow> orc
      | t # ts \<Rightarrow>
          (if sc_Protocol (o_cfg orc) = ''chord'' then with_chord (readRepair chord_env t (chord_net orc)) orc
           else with_kad (readRepair (kad_env sha1) t (kad_net orc)) orc)\<lparr>o_repairs := ts\<rparr>)"

record LookupTrace =
  tr_Key :: string
  tr_KeyHash :: string
  tr_TargetNode :: string
  tr_Hops :: "HopEvent list"
  tr_TotalHops :: int
  tr_LatencyMs :: int

definition node_ref :: "Orchestrator \<Rightarrow> Node \<Rightarrow> NodeRef" where
  "node_ref orc n = (case n of ChordObj h \<Rightarrow> Ref (o_chord orc h) | KadObj h \<Rightarrow> Kad_Ref (o_kad orc h))"

definition finish_lookup :: "string \<Rightarrow> ID \<Rightarrow> time \<Rightarrow> NodeRef \<Rightarrow> HopEvent list \<Rightarrow> Orchestrator \<Rightarrow> Orchestrator \<times> LookupTrace" where
  "finish_lookup key keyID start targetNode hops orc =
     (let trace = \<lparr>tr_Key = key, tr_KeyHash = IDToHex keyID, tr_TargetNode = IDToHex (nr_ID targetNode), tr_Hops = hops,
                   tr_TotalHops = int (length hops), tr_LatencyMs = time_Sub (o_now orc) start div 10 ^ 6\<rparr>
      in (orch_publish EventLookupComplete (LookupCompletePayload (tr_Key trace) (tr_KeyHash trace) (tr_TargetNode trace)
            (tr_TotalHops trace) (tr_LatencyMs trace)) orc, trace))"

definition Lookup ::
  "nat \<Rightarrow> (Contact list \<Rightarrow> Contact list) \<Rightarrow> sha1_fn \<Rightarrow> string \<Rightarrow> Orchestrator \<Rightarrow> LookupTrace orch_result" where
  "Lookup fuel sched sha1 key orc =
     (let keyID = KeyID sha1 key; start = o_now orc in
      case o_nodes orc of
        [] \<Rightarrow> Some (Inr (orc, Inl ONoNodes))
      | (_, firstNode) # _ \<Rightarrow>
          let firstRef = node_ref orc firstNode;
              orc = orch_publish EventLookupStart (LookupStartPayload key (IDToHex keyID) (IDToHex (nr_ID firstRef))) orc
          in (case firstNode of
                ChordObj h \<Rightarrow>
                  (case FindSuccessor fuel h keyID (chord_net orc) of
                     None \<Rightarrow> None
                   | Some (net, hops, Inl e) \<Rightarrow> Some (Inr (with_chord net orc, Inl (OLookup e)))
                   | Some (net, hops, Inr succ) \<Rightarrow>
                       (case finish_lookup key keyID start succ hops (with_chord net orc) of (orc, t) \<Rightarrow> Some (Inr (orc, Inr t))))
              | KadObj h \<Rightarrow>
                  (case IterativeFindNode sched h keyID (kad_net orc) of
                     Inl f \<Rightarrow> Some (Inl f)
                   | Inr (net, contacts, hops) \<Rightarrow>
                       let targetNode = (case contacts of [] \<Rightarrow> \<lparr>nr_ID = 0, nr_Addr = []\<rparr> | c # _ \<Rightarrow> \<lparr>nr_ID = c_ID c, nr_Addr = c_Addr c\<rparr>)
                       in (case finish_lookup key keyID start targetNode hops (with_kad net orc) of (orc, t) \<Rightarrow> Some (Inr (orc, Inr t))))))"

section \<open>Keys and their replicas\<close>

text \<open>The bodies of the loops over the nodes.\<close>

definition delete_chord :: "ID \<Rightarrow> string \<times> string \<Rightarrow> Orchestrator \<times> bool \<Rightarrow> Orchestrator \<times> bool" where
  "delete_chord keyID = (\<lambda>(_, h) (orc, deleted).
     case Delete keyID (cn_Store (o_chord orc h)) of
       (s, ok) \<Rightarrow> (orc\<lparr>o_chord := (o_chord orc)(h := (o_chord orc h)\<lparr>cn_Store := s\<rparr>)\<rparr>, deleted \<or> ok))"

definition delete_kad :: "ID \<Rightarrow> string \<times> string \<Rightarrow> Orchestrator \<times> bool \<Rightarrow> Orchestrator \<times> bool" where
  "delete_kad keyID = (\<lambda>(_, h) (orc, deleted).
     case Delete keyID (kn_KVStore (o_kad orc h)) of
       (s, ok) \<Rightarrow> (orc\<lparr>o_kad := (o_kad orc)(h := (o_kad orc h)\<lparr>kn_KVStore := s\<rparr>)\<rparr>, deleted \<or> ok))"

definition DeleteKey :: "sha1_fn \<Rightarrow> string \<Rightarrow> Orchestrator \<Rightarrow> Orchestrator \<times> (orch_error + unit)" where
  "DeleteKey sha1 key orc =
     (let keyID = KeyID sha1 key;
          (orc, deleted) = fold (delete_chord keyID) (o_chordNodes orc) (orc, False);
          (orc, deleted) = fold (delete_kad keyID) (o_kadNodes orc) (orc, deleted);
          orc = orc\<lparr>o_keyStrings := gm_del keyID (o_keyStrings orc)\<rparr>
      in (orc, if \<not> deleted then Inl (OKeyNotFound keyID) else Inr ()))"

record ReplicaEntry =
  re_NodeID :: string
  re_Entry :: ValueEntry

text \<open>\<^verbatim>\<open><\<close> on strings compares bytes.\<close>

definition string_less :: "string \<Rightarrow> string \<Rightarrow> bool" where
  "string_less x y \<longleftrightarrow> (x, y) \<in> lexord {(c, d). (of_char c :: nat) < of_char d}"

definition GetKeyReplicas :: "sha1_fn \<Rightarrow> string \<Rightarrow> Orchestrator \<Rightarrow> ReplicaEntry list" where
  "GetKeyReplicas sha1 key orc =
     (let keyID = KeyID sha1 key;
          results = fold (\<lambda>(_, h) results.
             case Get (o_now orc) (cn_Store (o_chord orc h)) keyID of
               None \<Rightarrow> results
             | Some entry \<Rightarrow> results @ [\<lparr>re_NodeID = IDToHex (cn_ID (o_chord orc h)), re_Entry = entry\<rparr>]) (o_chordNodes orc) [];
          results = fold (\<lambda>(_, h) results.
             case Get (o_now orc) (kn_KVStore (o_kad orc h)) keyID of
               None \<Rightarrow> results
             | Some entry \<Rightarrow> results @ [\<lparr>re_NodeID = IDToHex (kn_ID (o_kad orc h)), re_Entry = entry\<rparr>]) (o_kadNodes orc) results
      in sort_Slice (\<lambda>x y. string_less (re_NodeID x) (re_NodeID y)) results)"

section \<open>Configuration and faults\<close>

definition OrchestratorConfig :: "Orchestrator \<Rightarrow> SimConfig" where
  "OrchestratorConfig orc = o_cfg orc"

definition UpdateConfig :: "SimConfig \<Rightarrow> Orchestrator \<Rightarrow> Orchestrator" where
  "UpdateConfig cfg orc =
     orc\<lparr>o_cfg := cfg, o_quorum := \<lparr>qc_N = sc_ReplicationN cfg, qc_W = sc_WriteQuorum cfg, qc_R = sc_ReadQuorum cfg\<rparr>,
        o_transport := SetSimulation (sc_SimDelay cfg) (sc_SimLossRate cfg) (o_transport orc)\<rparr>"

definition stop_chord :: "string \<times> string \<Rightarrow> Orchestrator \<Rightarrow> Orchestrator" where
  "stop_chord = (\<lambda>(_, h) orc. orc\<lparr>o_chord := (o_chord orc)(h := Chord_Stop (o_chord orc h))\<rparr>)"

definition stop_kad :: "string \<times> string \<Rightarrow> Orchestrator \<Rightarrow> Orchestrator" where
  "stop_kad = (\<lambda>(_, h) orc. orc\<lparr>o_kad := (o_kad orc)(h := Kad_Stop (o_kad orc h))\<rparr>)"

definition Reset :: "Orchestrator \<Rightarrow> Orchestrator" where
  "Reset orc =
     (let orc = fold stop_chord (o_chordNodes orc) orc;
          orc = fold stop_kad (o_kadNodes orc) orc;
          orc = orc\<lparr>o_transport := fold (\<lambda>(addr, _). Deregister addr) (o_nodes orc) (o_transport orc)\<rparr>
      in orc\<lparr>o_nodes := [], o_chordNodes := [], o_kadNodes := [], o_kadGossip := [], o_nodeAddrs := [], o_keyStrings := [],
            o_portCounter := 7000, o_transport := ClearLinkLatencies (ClearPartitions (o_transport orc))\<rparr>)"

definition SetPartition :: "string list list \<Rightarrow> Orchestrator \<Rightarrow> Orchestrator" where
  "SetPartition groups orc = orc\<lparr>o_transport := SetPartitions groups (o_transport orc)\<rparr>"

definition HealPartition :: "Orchestrator \<Rightarrow> Orchestrator" where
  "HealPartition orc = orc\<lparr>o_transport := ClearPartitions (o_transport orc)\<rparr>"

definition PartitionGroups :: "Orchestrator \<Rightarrow> string list list" where
  "PartitionGroups orc = Partitions (o_transport orc)"

definition Orch_SetLinkLatency :: "string \<Rightarrow> string \<Rightarrow> duration \<Rightarrow> Orchestrator \<Rightarrow> Orchestrator" where
  "Orch_SetLinkLatency from to d orc = orc\<lparr>o_transport := SetLinkLatency from to d (o_transport orc)\<rparr>"

definition Orch_ClearLinkLatencies :: "Orchestrator \<Rightarrow> Orchestrator" where
  "Orch_ClearLinkLatencies orc = orc\<lparr>o_transport := ClearLinkLatencies (o_transport orc)\<rparr>"

definition Orch_LinkLatencies :: "Orchestrator \<Rightarrow> LinkLatency list" where
  "Orch_LinkLatencies orc = LinkLatencies (o_transport orc)"

definition NodeCount :: "Orchestrator \<Rightarrow> nat" where
  "NodeCount orc = length (o_nodes orc)"

definition Protocol :: "Orchestrator \<Rightarrow> string" where
  "Protocol orc = sc_Protocol (o_cfg orc)"

section \<open>Snapshots\<close>

record FingerEntry =
  fe_Index :: int
  fe_Start :: string
  fe_NodeID :: string
  fe_Addr :: string

record ContactState =
  cs_ID :: string
  cs_Addr :: string
  cs_LastSeen :: string

record KBucketState =
  kbs_Index :: int
  kbs_Contacts :: "ContactState list"
  kbs_Capacity :: int

record NodeState =
  ns_ID :: string
  ns_Addr :: string
  ns_Protocol :: string
  ns_Status :: string
  ns_Successor :: "string option"
  ns_Predecessor :: "string option"
  ns_SuccList :: "string list"
  ns_FingerTable :: "FingerEntry list"
  ns_KBuckets :: "KBucketState list"
  ns_KeyCount :: int

record KeyState =
  ks_ID :: string
  ks_Key :: string
  ks_Value :: string
  ks_Replicas :: "string list"
  ks_ReplicaCount :: int

record NetworkState =
  nw_Protocol :: string
  nw_Nodes :: "NodeState list"
  nw_Keys :: "KeyState list"
  nw_Config :: SimConfig

definition chordNodeState :: "string \<Rightarrow> ChordNode \<Rightarrow> NodeState" where
  "chordNodeState addr cn =
     \<lparr>ns_ID = IDToHex (cn_ID cn), ns_Addr = addr, ns_Protocol = ''chord'', ns_Status = ''healthy'',
      ns_Successor = map_option (\<lambda>s. IDToHex (nr_ID s)) (Successor cn),
      ns_Predecessor = map_option (\<lambda>p. IDToHex (nr_ID p)) (Predecessor cn),
      ns_SuccList = map (\<lambda>s. IDToHex (nr_ID s)) (SuccessorList cn),
      ns_FingerTable = map (\<lambda>i. \<lparr>fe_Index = int i, fe_Start = IDToHex (Add (cn_ID cn) (PowerOfTwo i)),
          fe_NodeID = (case GetFinger (int i) cn of Some (Some f) \<Rightarrow> IDToHex (nr_ID f) | _ \<Rightarrow> []),
          fe_Addr = (case GetFinger (int i) cn of Some (Some f) \<Rightarrow> nr_Addr f | _ \<Rightarrow> [])\<rparr>) [0..<160],
      ns_KBuckets = [], ns_KeyCount = int (Size (cn_Store cn))\<rparr>"

text \<open>\<open>format\<close> is the rendering of a time as \<^verbatim>\<open>time.RFC3339\<close>.\<close>

definition kadNodeState :: "(time \<Rightarrow> string) \<Rightarrow> string \<Rightarrow> KademliaNode \<Rightarrow> NodeState" where
  "kadNodeState format addr kn =
     \<lparr>ns_ID = IDToHex (kn_ID kn), ns_Addr = addr, ns_Protocol = ''kademlia'', ns_Status = ''healthy'',
      ns_Successor = None, ns_Predecessor = None, ns_SuccList = [], ns_FingerTable = [],
      ns_KBuckets = map (\<lambda>(i, b). \<lparr>kbs_Index = int i,
          kbs_Contacts = map (\<lambda>c. \<lparr>cs_ID = IDToHex (c_ID c), cs_Addr = c_Addr c, cs_LastSeen = format (c_LastSeen c)\<rparr>) (Entries b),
          kbs_Capacity = kc_K (kn_Config kn)\<rparr>)
        (zip [0..<length (rt_Buckets (kn_RoutingTable kn))] (rt_Buckets (kn_RoutingTable kn))),
      ns_KeyCount = int (Size (kn_KVStore kn))\<rparr>"

text \<open>The body of the two loops that collect the keys of one node.\<close>

definition add_key :: "(ID, string) gomap \<Rightarrow> string \<Rightarrow> ValueEntry \<Rightarrow> (string, KeyState) gomap \<Rightarrow> (string, KeyState) gomap" where
  "add_key keyStrings nodeIDHex entry keySet =
     (let keyHex = IDToHex (Key entry) in
      case map_of keySet keyHex of
        Some ks \<Rightarrow> gm_put keyHex (ks\<lparr>ks_Replicas := ks_Replicas ks @ [nodeIDHex], ks_ReplicaCount := ks_ReplicaCount ks + 1\<rparr>) keySet
      | None \<Rightarrow>
          let origKey = (case map_of keyStrings (Key entry) of None \<Rightarrow> [] | Some k \<Rightarrow> k);
              origKey = (if origKey = [] then keyHex else origKey)
          in gm_put keyHex \<lparr>ks_ID = keyHex, ks_Key = origKey, ks_Value = bytes_string (Value entry), ks_Replicas = [nodeIDHex],
               ks_ReplicaCount = 1\<rparr> keySet)"

definition GetNetworkState :: "(time \<Rightarrow> string) \<Rightarrow> Orchestrator \<Rightarrow> NetworkState" where
  "GetNetworkState format orc =
     (let nodes = map (\<lambda>(addr, h). chordNodeState addr (o_chord orc h)) (o_chordNodes orc)
                @ map (\<lambda>(addr, h). kadNodeState format addr (o_kad orc h)) (o_kadNodes orc);
          keySet = fold (\<lambda>(_, h) keySet. fold (add_key (o_keyStrings orc) (IDToHex (cn_ID (o_chord orc h))))
            (All (o_now orc) (cn_Store (o_chord orc h))) keySet) (o_chordNodes orc) [];
          keySet = fold (\<lambda>(_, h) keySet. fold (add_key (o_keyStrings orc) (IDToHex (kn_ID (o_kad orc h))))
            (All (o_now orc) (kn_KVStore (o_kad orc h))) keySet) (o_kadNodes orc) keySet;
          keys = map snd keySet
      in \<lparr>nw_Protocol = sc_Protocol (o_cfg orc), nw_Nodes = sort_Slice (\<lambda>x y. string_less (ns_ID x) (ns_ID y)) nodes,
          nw_Keys = sort_Slice (\<lambda>x y. string_less (ks_ID x) (ks_ID y)) keys, nw_Config = o_cfg orc\<rparr>)"

end
