(* ===== verification/Chord_Frame.thy ===== *)
theory Chord_Frame
  imports Chord_Invariant
begin

text \<open>
  What a step of the Chord protocol can do to a network at all. The locale states it as a
  contract on a predicate: closed under calls through the transport, events, changes of a
  node's routing state, and copying readable entries into a store. Every operation keeps such
  a predicate, because it is made of these changes.
\<close>

definition readable :: "ChordNet \<Rightarrow> ValueEntry set" where
  "readable net = (\<Union>a. set (All (net_now net) (cn_Store (net_node net a))))"

definition core_same :: "ChordNode \<Rightarrow> ChordNode \<Rightarrow> bool" where
  "core_same n m \<longleftrightarrow> cn_ID n = cn_ID m \<and> cn_Addr n = cn_Addr m \<and> cn_Store n = cn_Store m \<and> cn_Config n = cn_Config m"

lemma readable_cong: "net_node net' = net_node net \<and> net_now net' = net_now net \<Longrightarrow> readable net' = readable net"
  by (simp add: readable_def)

locale chord_kept =
  fixes P :: "ChordNet \<Rightarrow> bool"
  assumes rpc_kept: "rpc c r net = (net', x) \<Longrightarrow> P net \<Longrightarrow> P net'"
    and rpc_from_kept: "rpc_from s r net = (net', x) \<Longrightarrow> P net \<Longrightarrow> P net'"
    and emit_kept: "P net \<Longrightarrow> P (emit t p net)"
    and routing_kept: "P net \<Longrightarrow> core_same (f (net_node net a)) (net_node net a) \<Longrightarrow> P (upd_node a f net)"
    and puts_kept: "P net \<Longrightarrow> set es \<subseteq> readable net \<Longrightarrow> P (upd_node a (\<lambda>n. n\<lparr>cn_Store := fold Put es (cn_Store n)\<rparr>) net)"
begin

lemma setters_kept [intro]:
  "P net \<Longrightarrow> P (set_finger_only a i r net)" "P net \<Longrightarrow> P (set_anti_finger a i r net)"
  "P net \<Longrightarrow> P (set_successor_finger0 a r net)" "P net \<Longrightarrow> P (upd_node a Chord_Stop net)"
  "P net \<Longrightarrow> P (upd_node a (\<lambda>n. n\<lparr>cn_predecessor := p\<rparr>) net)"
  by (auto simp: set_finger_only_def set_anti_finger_def set_successor_finger0_def core_same_def Chord_Stop_def intro!: routing_kept)

lemma hop_kept [intro]: "P net \<Longrightarrow> P (lookup_hop f t m i net)"
  by (simp add: lookup_hop_def emit_kept)

lemma find_rpc_kept:
  assumes "Transport_FindSuccessor handle c r x net = Some (net', res)" "P net"
    and "\<And>h net1 net2 res. handle h x net1 = Some (net2, res) \<Longrightarrow> P net1 \<Longrightarrow> P net2"
  shows "P net'"
proof (cases "rpc c r net")
  case (Pair net1 y)
  with rpc_kept [OF Pair] assms show ?thesis by (cases y) (auto simp: Transport_FindSuccessor_def)
qed

lemma FindSuccessor_loop_kept:
  "FindSuccessor_loop fuel a x cur i hops net = Some (net', hops', res) \<Longrightarrow> P net \<Longrightarrow> P net'"
proof (induction fuel arbitrary: a x cur i hops net net' hops' res)
  case (Suc fuel)
  let ?handle = "\<lambda>h x net. map_option (\<lambda>(net, _, r). (net, r)) (FindSuccessor_loop fuel h x (selfRef (net_node net h)) 0 [] net)"
  have handle: "P net2" if "?handle h y net1 = Some (net2, r)" "P net1" for h y net1 net2 r
    using that Suc.IH by auto
  have tf: "P net2" if "Transport_FindSuccessor ?handle c r y net1 = Some (net2, res)" "P net1" for c r y net1 net2 res
    using that by (rule find_rpc_kept) (rule handle)
  show ?case
    using Suc.prems Suc.IH
    by (auto simp: Let_def split: if_splits option.splits prod.splits sum.splits dest!: tf)
qed simp

lemma FindSuccessor_kept: "FindSuccessor fuel a x net = Some (net', hops, res) \<Longrightarrow> P net \<Longrightarrow> P net'"
  unfolding FindSuccessor_def by (rule FindSuccessor_loop_kept)

lemma remote_find_kept: "Transport_FindSuccessor (HandleFindSuccessor fuel) c r x net = Some (net', res) \<Longrightarrow> P net \<Longrightarrow> P net'"
  by (erule find_rpc_kept) (auto simp: HandleFindSuccessor_def dest: FindSuccessor_kept)

lemma Transport_GetPredecessor_kept: "Transport_GetPredecessor c r net = (net', x) \<Longrightarrow> P net \<Longrightarrow> P net'"
  by (auto simp: Transport_GetPredecessor_def split: prod.splits sum.splits dest: rpc_kept)

lemma init_finger_kept: "init_finger fuel a b i net = Some net' \<Longrightarrow> P net \<Longrightarrow> P net'"
  by (auto simp: init_finger_def Let_def core_same_def split: if_splits option.splits sum.splits
      dest!: remote_find_kept intro!: routing_kept)

lemma initFingerTable_kept:
  assumes "initFingerTable fuel a b net = Some (net', r)" "P net"
  shows "P net'"
proof -
  have loop: "P net2" if "for_each (init_finger fuel a b) is net1 = Some net2" "P net1" for "is" net1 net2
    using that by (rule for_each_induct) (rule init_finger_kept)
  show ?thesis
    using assms by (auto simp: initFingerTable_def Let_def split: option.splits prod.splits sum.splits
        dest!: remote_find_kept dest: loop [OF _ setters_kept(3)])
qed

lemma init_anti_finger_kept: "init_anti_finger fuel a b i net = Some net' \<Longrightarrow> P net \<Longrightarrow> P net'"
  by (auto simp: init_anti_finger_def Let_def split: option.splits sum.splits prod.splits
      dest!: remote_find_kept Transport_GetPredecessor_kept)

lemma initAntiFingerTable_kept: "initAntiFingerTable fuel a b net = Some net' \<Longrightarrow> P net \<Longrightarrow> P net'"
  unfolding initAntiFingerTable_def by (erule for_each_induct) (auto intro: init_anti_finger_kept)

lemma fixFingersAtIndex_kept: "fixFingersAtIndex fuel a i net = Some net' \<Longrightarrow> P net \<Longrightarrow> P net'"
  by (auto simp: fixFingersAtIndex_def split: if_splits option.splits sum.splits dest!: FindSuccessor_kept)

lemma fixAntiFingers_kept:
  assumes "fixAntiFingers fuel a net = Some net'" "P net"
  shows "P net'"
proof -
  have "P (upd_node a (\<lambda>n. n\<lparr>cn_antiFingerIdx := (cn_antiFingerIdx n + 1) mod fingerBits\<rparr>) net)"
    using assms(2) by (auto simp: core_same_def intro!: routing_kept)
  with assms(1) show ?thesis
    by (auto simp: fixAntiFingers_def Let_def split: option.splits sum.splits prod.splits
        dest!: FindSuccessor_kept Transport_GetPredecessor_kept)
qed

lemma UpdateFingerTable_kept: "UpdateFingerTable fuel a s i net = Some (net', res) \<Longrightarrow> P net \<Longrightarrow> P net'"
proof (induction fuel arbitrary: a net net' res)
  case (Suc fuel)
  have "P (set_successor_finger0 a s net)" "P (set_finger_only a (nat i) s net)" using Suc.prems by auto
  with Suc show ?case
    by (auto simp: Let_def split: if_splits option.splits prod.splits sum.splits dest!: rpc_kept)
qed simp

lemma update_other_kept: "update_other fuel a i net = Some net' \<Longrightarrow> P net \<Longrightarrow> P net'"
proof -
  have tu: "P net2" if "Transport_UpdateFingerTable fuel c p s j net1 = Some (net2, res)" "P net1" for c p s j net1 net2 res
    using that by (auto simp: Transport_UpdateFingerTable_def HandleUpdateFingerTable_def split: prod.splits sum.splits
        dest!: rpc_kept intro: UpdateFingerTable_kept)
  show "update_other fuel a i net = Some net' \<Longrightarrow> P net \<Longrightarrow> P net'"
    by (auto simp: update_other_def Let_def split: option.splits sum.splits prod.splits if_splits dest!: FindSuccessor_kept dest: tu)
qed

lemma updateOthers_kept: "updateOthers fuel a net = Some net' \<Longrightarrow> P net \<Longrightarrow> P net'"
  unfolding updateOthers_def by (erule for_each_induct) (auto intro: update_other_kept)

lemma Notify_kept: "P net \<Longrightarrow> P (Notify a c net)"
  by (auto simp: Notify_def Let_def intro!: emit_kept split: option.split)

lemma Transport_Notify_kept: "P net \<Longrightarrow> P (fst (Transport_Notify r c net))"
  by (auto simp: Transport_Notify_def HandleNotify_def split: prod.split sum.split dest: rpc_from_kept intro: Notify_kept)

lemma updateSuccessorList_kept: "P net \<Longrightarrow> P (updateSuccessorList a s net)"
  by (auto simp: updateSuccessorList_def Let_def Transport_GetSuccessorList_def core_same_def split: prod.split sum.split prod.splits sum.splits
      dest: rpc_kept intro!: routing_kept)

lemma Stabilize_kept: "P net \<Longrightarrow> P (Stabilize a net)"
  by (auto simp: Stabilize_def Let_def split: option.splits prod.splits sum.splits if_splits dest: Transport_GetPredecessor_kept
      intro!: emit_kept updateSuccessorList_kept Transport_Notify_kept)

lemma Transport_Ping_kept: "Transport_Ping c r net = (net', x) \<Longrightarrow> P net \<Longrightarrow> P net'"
  by (auto simp: Transport_Ping_def split: prod.splits sum.splits dest: rpc_kept)

lemma CheckPredecessor_kept: "P net \<Longrightarrow> P (CheckPredecessor a net)"
  by (auto simp: CheckPredecessor_def Let_def split: option.split prod.split sum.split dest: Transport_Ping_kept)

lemma walk_successors_kept: "P net \<Longrightarrow> P (walk_successors a succ ss net)"
proof (induction ss arbitrary: net)
  case (Cons s ss)
  obtain net1 x where p: "Transport_Ping (WithSender None (selfRef (net_node net a))) s net = (net1, x)" by fastforce
  from Transport_Ping_kept [OF p Cons.prems] have "P net1" .
  with Cons p show ?case by (cases x) (auto intro: Stabilize_kept)
qed simp

lemma CheckSuccessor_kept: "P net \<Longrightarrow> P (CheckSuccessor a net)"
  by (auto simp: CheckSuccessor_def Let_def split: option.split prod.split sum.split dest: Transport_Ping_kept intro: walk_successors_kept)

lemma CreateRing_kept: "P net \<Longrightarrow> P (CreateRing a net)"
  by (auto simp: CreateRing_def Let_def core_same_def intro!: emit_kept routing_kept)

lemma Transport_TransferKeys_kept:
  assumes "Transport_TransferKeys c r (Some es) net = (net', x)" "P net" "set es \<subseteq> readable net"
  shows "P net'"
proof (cases "rpc c r net")
  case (Pair net1 y)
  then have "P net1" "set es \<subseteq> readable net1" using rpc_kept assms(2,3) readable_cong rpc_frame by blast+
  with Pair assms(1) show ?thesis
    by (cases y) (auto simp: Transport_TransferKeys_def HandleTransferKeys_def intro: puts_kept)
qed

lemma Transport_TransferKeys_None: "P net \<Longrightarrow> P (fst (Transport_TransferKeys c r None net))"
  by (auto simp: Transport_TransferKeys_def HandleTransferKeys_def split: prod.split sum.split dest: rpc_kept)

lemma migrateKeys_kept: "P net \<Longrightarrow> P (migrateKeys a net)"
proof -
  have pull: "P net2 \<and> set es \<subseteq> readable net2" if "pullKeysInRange b r lo hi net1 = (net2, es)" "P net1" for b r lo hi net1 net2 es
    using that by (auto simp: pullKeysInRange_def Transport_GetAllEntries_def HandleGetAllEntries_def readable_def
        split: prod.splits sum.splits dest: rpc_kept)
  have "P (emit t p (upd_node a (\<lambda>n. n\<lparr>cn_Store := fold Put es (cn_Store n)\<rparr>) net2))"
    if "pullKeysInRange b r lo hi net1 = (net2, es)" "P net1" for b r lo hi net1 net2 es t p
    using pull [OF that] by (intro emit_kept puts_kept) auto
  then show "P net \<Longrightarrow> P (migrateKeys a net)"
    using pull Transport_TransferKeys_None by (auto simp: migrateKeys_def Let_def split: option.split prod.split)
qed

lemma Chord_Join_kept:
  assumes "Chord_Join fuel a bootstrap net = Some (net', res)" "P net"
  shows "P net'"
proof -
  have "P (upd_node a (\<lambda>n. n\<lparr>cn_predecessor := None\<rparr>) (set_successor_finger0 a s net1))" if "P net1" for net1 s
    using that by auto
  with assms show ?thesis
    by (auto simp: Chord_Join_def Let_def split: option.splits prod.splits sum.splits
        dest!: remote_find_kept initFingerTable_kept initAntiFingerTable_kept updateOthers_kept intro!: emit_kept migrateKeys_kept)
qed

lemma Leave_kept: "P net \<Longrightarrow> P (Leave a net)"
proof -
  assume P: "P net"
  have "set (All (net_now net) (cn_Store (net_node net a))) \<subseteq> readable net" by (auto simp: readable_def)
  then have tk: "P net1" if "Transport_TransferKeys c r (Some (All (net_now net) (cn_Store (net_node net a)))) net = (net1, x)" for c r net1 x
    using Transport_TransferKeys_kept that P by blast
  show ?thesis
    unfolding Leave_def Let_def using P
    by (auto split: option.split prod.split sum.split intro!: emit_kept Transport_Notify_kept dest: tk)
qed

lemma SimulateCrash_kept: "P net \<Longrightarrow> P (SimulateCrash a net)"
  by (auto simp: SimulateCrash_def intro: emit_kept)

end

end
