(* ===== verification/Kad_Frame.thy ===== *)
theory Kad_Frame
  imports Kad_Progress
begin

text \<open>
  What a step of the Kademlia protocol can do to a network at all, as a contract on a predicate:
  closed under changes of routing tables, under storing a good entry at some nodes, and under
  rebuilding a Merkle tree, where every readable entry is good. The background work of a node,
  which are joining, refreshing, republishing and gossip, keeps such a predicate.
\<close>

locale kad_kept =
  fixes sha1 :: sha1_fn and P :: "KadNet \<Rightarrow> bool" and good :: "ValueEntry \<Rightarrow> bool"
  assumes tables_wf: "P net \<Longrightarrow> kad_inv net"
    and tables_kept: "tables_only net net' \<Longrightarrow> P net \<Longrightarrow> P net'"
    and stored_kept: "stored sha1 e net net' \<Longrightarrow> good e \<Longrightarrow> P net \<Longrightarrow> P net'"
    and rebuild_kept: "P net \<Longrightarrow> kn_antiEntropy (kad_node net a) = Some ae \<Longrightarrow>
      P (kad_upd a (\<lambda>n. n\<lparr>kn_antiEntropy := Some (rebuildMerkleFromStore sha1 (kad_now net) (kn_KVStore n) ae)\<rparr>) net)"
    and held_good: "P net \<Longrightarrow> Get (kad_now net) (kn_KVStore (kad_node net a)) k = Some e \<Longrightarrow> good e"
    and listed_good: "P net \<Longrightarrow> e \<in> set (All (kad_now net) (kn_KVStore (kad_node net a))) \<Longrightarrow> good e"
begin

lemma find_node_kept: "IterativeFindNode sched a target net = Inr (net', cs, hops) \<Longrightarrow> P net \<Longrightarrow> P net'"
  using IterativeFindNode_spec(1) [OF tables_wf] tables_kept by blast

lemma Kad_Join_kept: "Kad_Join sched a b net = Inr net' \<Longrightarrow> P net \<Longrightarrow> P net'"
  using Kad_Join_tables tables_wf tables_kept by blast

lemma refresh_kept:
  assumes "refreshBuckets sched a net = Inr net'" "P net"
  shows "P net'"
  using assms(1) unfolding refreshBuckets_def
proof (rule foldM_rule [where P = P, OF _ assms(2)])
  show "P s'"
    if "P s" "(if KBucket_Len (rt_Buckets (kn_RoutingTable (kad_node s a)) ! i) = 0
        then (case IterativeFindNode sched a (refresh_target (kn_ID (kad_node s a)) i) s of Inl f \<Rightarrow> Inl f | Inr (net, _) \<Rightarrow> Inr net) else Inr s) = Inr s'"
    for i s s'
    using that by (auto split: if_splits sum.splits dest: find_node_kept)
qed

lemma republish_one_kept:
  assumes "republish_one sha1 sched a e net = Inr net'" "good e" "P net"
  shows "P net'"
proof -
  obtain net1 cs hops net2 where 1: "IterativeFindNode sched a (Key e) net = Inr (net1, cs, hops)" "store_at sha1 a e cs net1 = Inr net2"
    and net': "\<exists>t p. net' = kad_emit t p net2"
    using assms(1) by (auto simp: republish_one_def split: sum.splits) blast
  have "P net2" using stored_kept [OF store_at_stored [OF 1(2), THEN conjunct1] assms(2)] find_node_kept [OF 1(1) assms(3)] .
  with net' show ?thesis by (auto intro: tables_kept [OF tables_only_emit])
qed

lemma republish_fold_kept:
  "foldM (republish_one sha1 sched a) es net = Inr net' \<Longrightarrow> \<forall>e \<in> set es. good e \<Longrightarrow> P net \<Longrightarrow> P net'"
  by (induction es arbitrary: net) (auto split: sum.splits dest: republish_one_kept)

lemma republish_kept: "republishKeys sha1 sched a net = Inr net' \<Longrightarrow> P net \<Longrightarrow> P net'"
  unfolding republishKeys_def by (rule republish_fold_kept) (auto dest: listed_good)

lemma sync_key_kept:
  assumes "P net" "\<forall>e \<in> ran (map_of pm). good e"
  shows "P (fst (sync_key sha1 ctx a peer pm k (net, m)))"
proof -
  have put: "good e \<Longrightarrow> P (put_local sha1 a e net)" "good e \<Longrightarrow> P (fst (Kad_PutEntry sha1 ctx peer k e net))" for e
    using stored_kept [OF put_local_stored(1)] stored_kept [OF sync_put_stored] assms(1) by blast+
  show ?thesis
    using assms held_good [OF assms(1), of a k] put
    by (auto simp: sync_key_def Let_def ranI split: option.split)
qed

lemma sync_fold_kept:
  "P net \<Longrightarrow> \<forall>e \<in> ran (map_of pm). good e \<Longrightarrow> P (fst (fold (sync_key sha1 ctx a peer pm) ks (net, m)))"
proof (induction ks arbitrary: net m)
  case (Cons k ks)
  obtain n' m' where step: "sync_key sha1 ctx a peer pm k (net, m) = (n', m')" by fastforce
  with sync_key_kept [OF Cons.prems, of ctx a peer k m] Cons.IH [of n' m'] Cons.prems(2) show ?case by simp
qed simp

lemma peer_map_good:
  assumes "\<forall>e \<in> set es. good e"
  shows "\<forall>e \<in> ran (map_of (peer_map es)). good e"
proof -
  have "\<forall>e \<in> ran (map_of (fold (\<lambda>e m. gm_put (Key e) e m) es m)). good e" if "\<forall>e \<in> ran (map_of m). good e" for m
    using that assms
  proof (induction es arbitrary: m)
    case (Cons e es)
    have "\<forall>e \<in> ran (map_of (gm_put (Key e) e m)). good e" using Cons.prems by (auto simp: ran_def split: if_splits)
    from Cons.IH [OF this] Cons.prems(2) show ?case by simp
  qed simp
  from this [of "[]"] show ?thesis by (simp add: peer_map_def)
qed

lemma syncWithPeer_kept: "P net \<Longrightarrow> P (syncWithPeer sha1 a peer net)"
proof (rule syncWithPeer_cases [of net sha1 a peer])
  fix ae ctx net1 h t p
  assume P: "P net" and t1: "tables_only net net1"
  assume s: "syncWithPeer sha1 a peer net = kad_emit t p (fst (fold (sync_key sha1 ctx a peer (peer_map (All (kad_now net1) (kn_KVStore (kad_node net1 h)))))
         (Diff sha1 (ae_localMerkle ae) (merkle_of sha1 (All (kad_now net1) (kn_KVStore (kad_node net1 h))))) (net1, 0)))"
  have P1: "P net1" by (rule tables_kept [OF t1 P])
  have "\<forall>e \<in> set (All (kad_now net1) (kn_KVStore (kad_node net1 h))). good e" using listed_good [OF P1] by blast
  from sync_fold_kept [OF P1 peer_map_good [OF this]] show "P (syncWithPeer sha1 a peer net)"
    unfolding s by (rule tables_kept [OF tables_only_emit])
qed (rule tables_kept)

lemma gossipRound_kept:
  assumes "gossipRound sha1 shuffle peers a net = Inr net'" "P net"
  shows "P net'"
proof -
  have fold: "P (fold (syncWithPeer sha1 a) ps n)" if "P n" for ps n
    using that by (induction ps arbitrary: n) (simp_all add: syncWithPeer_kept)
  show ?thesis
    using assms fold rebuild_kept [OF assms(2)]
    by (auto simp: gossipRound_def Let_def split: option.splits if_splits)
qed

end

text \<open>The well-formedness of theory Kad_Network is such a predicate.\<close>

interpretation kw: kad_kept sha1 "kad_wf sha1" "\<lambda>_. True" for sha1
proof unfold_locales
  show "kad_wf sha1 (kad_upd a (\<lambda>n. n\<lparr>kn_antiEntropy := Some (rebuildMerkleFromStore sha1 (kad_now net) (kn_KVStore n) ae)\<rparr>) net)"
    if "kad_wf sha1 net" "kn_antiEntropy (kad_node net a) = Some ae" for net a ae
    by (rule rebuild_wf [OF that(1)])
qed (auto intro: kad_wf_inv tables_only_wf stored_wf)

end
