(* ===== verification/Orch_Invariant.thy ===== *)
theory Orch_Invariant
  imports Orchestrator Chord_Frame Kad_Frame
begin

text \<open>
  An invariant of the orchestrator that every call of its interface, every background step of
  the nodes and every fault keeps: the four maps, the ordered address list and the registry of
  the transport agree, the node objects of both protocols are well-formed, and the quorum
  manager and the transport run with the current configuration.
\<close>

section \<open>Clusters with a further invariant\<close>

locale kept_cluster = replica_cluster +
  fixes P :: "'a \<Rightarrow> bool"
  assumes get_P: "inv s \<Longrightarrow> P s \<Longrightarrow> qe_GetEntry env c r k s = (s', x) \<Longrightarrow> P s'"
    and put_P: "inv s \<Longrightarrow> gm_wf (Clock e) \<Longrightarrow> P s \<Longrightarrow> qe_PutEntry env c r k (Some e) s = (s', y) \<Longrightarrow> P s'"
    and publish_P: "P s \<Longrightarrow> P (qe_Publish env t p s)"

sublocale kept_cluster \<subseteq> strong: replica_cluster env view "\<lambda>s. inv s \<and> P s"
proof unfold_locales
  fix s s' c r k x
  assume "inv s \<and> P s" "qe_GetEntry env c r k s = (s', x)"
  then show "(inv s' \<and> P s') \<and> view s' = view s \<and> qe_now env s' = qe_now env s" using get_frame get_P by blast
next
  fix s s' c r k w
  assume "inv s \<and> P s" "qe_GetEntry env c r k s = (s', Inr w)"
  then show "w = view s (nr_Addr r) k" using get_value by blast
next
  fix s s' c r k e y
  assume "inv s \<and> P s" "gm_wf (Clock e)" "qe_PutEntry env c r k (Some e) s = (s', y)"
  then show "(inv s' \<and> P s') \<and> qe_now env s' = qe_now env s" using put_frame put_P by blast
next
  fix s s' c r k e f
  assume "inv s \<and> P s" "gm_wf (Clock e)" "qe_PutEntry env c r k (Some e) s = (s', Inl f)"
  then show "view s' = view s" using put_fail by blast
next
  fix s s' c r k e u a j
  assume "inv s \<and> P s" "gm_wf (Clock e)" "qe_PutEntry env c r k (Some e) s = (s', Inr u)"
  then show "view s' a j = (if a = nr_Addr r \<and> j = Key e then if IsExpired (qe_now env s) e then None else Some e else view s a j)"
    using put_view by blast
next
  fix s t p
  assume "inv s \<and> P s"
  then show "(inv (qe_Publish env t p s) \<and> P (qe_Publish env t p s)) \<and> view (qe_Publish env t p s) = view s \<and> qe_now env (qe_Publish env t p s) = qe_now env s"
    using publish_frame publish_P by blast
next
  fix s a k v
  assume "inv s \<and> P s" "view s a k = Some v"
  then show "gm_wf (Clock v)" using view_clock by blast
qed

lemma Resolve_member: "snd (Resolve now h es) = Some w \<Longrightarrow> w \<in> set es"
proof (cases es)
  case (Cons e es')
  assume "snd (Resolve now h es) = Some w"
  with Cons Resolve_winner [of es now h] have "w = snd (fold resolve_step es' (False, e))" by simp
  with Cons fold_resolve_in [of es' False e] show ?thesis by simp
qed simp

context kept_cluster
begin

lemma Write_kept:
  assumes "Write env q sched key value w s = (s', r)" "inv s" "P s"
  shows "inv s' \<and> P s' \<and> qe_now env s' = qe_now env s"
proof (cases "qm_FindReplicas q key s = []")
  case True
  with assms show ?thesis by (simp add: Write_def)
next
  case False
  from assms(2,3) have "inv s \<and> P s" by simp
  from strong.Write_spec [OF assms(1) this False] show ?thesis by blast
qed

lemma Read_kept:
  assumes "Read env q sched key (s, h) = ((s', h'), r)" "inv s" "P s"
  shows "inv s' \<and> P s' \<and> (\<forall>w t. r = Inr (w, Some t) \<longrightarrow> gm_wf (Clock (rt_winner t)))"
proof (cases "qm_FindReplicas q key s = []")
  case True
  with assms show ?thesis by (auto simp: Read_def)
next
  case False
  from assms(2,3) have inv: "inv s \<and> P s" by simp
  from strong.Read_spec [OF assms(1) inv False] obtain res where R: "inv s' \<and> P s'"
    "\<forall>(n, v) \<in> set res. view s (nr_Addr n) key = Some v"
    "if int (length res) < qc_R (qm_Config q)
     then r = Inl (EQuorumNotMet (int (length res)) (int (length (qm_FindReplicas q key s))) (qc_R (qm_Config q)))
     else r = Inr (case snd (Resolve (qe_now env s) h (map snd res)) of None \<Rightarrow> (None, None)
       | Some w \<Rightarrow> (Some w, Some \<lparr>rt_coordinator = hd (qm_FindReplicas q key s), rt_key = key, rt_winner = w, rt_responses = res\<rparr>))" .
  have "gm_wf (Clock w)" if "snd (Resolve (qe_now env s) h (map snd res)) = Some w" for w
  proof -
    have "w \<in> set (map snd res)" using that by (rule Resolve_member)
    then obtain n where n: "(n, w) \<in> set res" by auto
    from bspec [OF R(2) n] have "view s (nr_Addr n) key = Some w" by simp
    with assms(2) show ?thesis by (rule view_clock)
  qed
  with R show ?thesis by (auto split: if_splits option.splits)
qed

lemma readRepair_kept: "inv s \<Longrightarrow> P s \<Longrightarrow> gm_wf (Clock (rt_winner t)) \<Longrightarrow>
    inv (readRepair env t s) \<and> P (readRepair env t s) \<and> qe_now env (readRepair env t s) = qe_now env s"
  using strong.readRepair_loop_spec [of s "rt_winner t"] by (simp add: readRepair_def)

end

section \<open>Frames\<close>

text \<open>
  \<open>chord_frame T I now\<close>: up to the number of random draws the transport is \<open>T\<close>, identifier,
  address and configuration of every node are \<open>I\<close>, the time is \<open>now\<close>, and the stores are
  well-formed; likewise for Kademlia.
\<close>

definition store_ok :: "KVStore \<Rightarrow> bool" where
  "store_ok s \<longleftrightarrow> kv_inv s \<and> (\<forall>(k, e) \<in> set (kv_entries s). gm_wf (Clock e))"

definition chord_frame :: "string InProcessTransport \<Rightarrow> (string \<Rightarrow> ID \<times> string \<times> ChordConfig) \<Rightarrow> time \<Rightarrow> ChordNet \<Rightarrow> bool" where
  "chord_frame T I now net \<longleftrightarrow> (net_transport net)\<lparr>it_pos := 0\<rparr> = T \<and> net_now net = now \<and>
     (\<forall>a. (cn_ID (net_node net a), cn_Addr (net_node net a), cn_Config (net_node net a)) = I a \<and> store_ok (cn_Store (net_node net a)))"

definition kad_frame :: "sha1_fn \<Rightarrow> string InProcessTransport \<Rightarrow> (string \<Rightarrow> ID \<times> string \<times> KadConfig \<times> bool) \<Rightarrow> time \<Rightarrow> KadNet \<Rightarrow> bool" where
  "kad_frame sha1 T I now net \<longleftrightarrow> kad_wf sha1 net \<and> (kad_transport net)\<lparr>it_pos := 0\<rparr> = T \<and> kad_now net = now \<and>
     (\<forall>a. (kn_ID (kad_node net a), kn_Addr (kad_node net a), kn_Config (kad_node net a), kn_antiEntropy (kad_node net a) = None) = I a \<and>
        store_ok (kn_KVStore (kad_node net a)))"

lemma same_net_pos: "same_net t t' \<Longrightarrow> t'\<lparr>it_pos := n\<rparr> = t\<lparr>it_pos := n\<rparr>"
  unfolding same_net_def by (metis InProcessTransport.surjective InProcessTransport.update_convs(7))

lemma store_ok_Put: "store_ok s \<Longrightarrow> gm_wf (Clock e) \<Longrightarrow> store_ok (Put e s)"
  by (auto simp: store_ok_def Put_def kv_inv_def set_gm_put Clone_def)

lemma store_ok_puts: "store_ok s \<Longrightarrow> \<forall>e \<in> set es. gm_wf (Clock e) \<Longrightarrow> store_ok (fold Put es s)"
  by (induction es arbitrary: s) (auto simp: store_ok_Put)

lemma store_ok_All: "store_ok s \<Longrightarrow> e \<in> set (All now s) \<Longrightarrow> gm_wf (Clock e)"
  by (auto simp: store_ok_def All_filter)

lemma store_ok_Get: "store_ok s \<Longrightarrow> Get now s k = Some e \<Longrightarrow> gm_wf (Clock e)"
  by (auto simp: store_ok_def Get_def split: option.splits if_splits dest!: map_of_SomeD)

lemma store_ok_evict: "store_ok s \<Longrightarrow> store_ok (evictExpired now s)"
  using kv_inv_evict [of s now] evictExpired_entries [of s now] by (auto simp: store_ok_def)

lemma store_ok_Delete: "store_ok s \<Longrightarrow> store_ok (fst (Delete k s))"
  using kv_inv_Delete [of s k] by (auto simp: store_ok_def Delete_def Let_def set_gm_del split: if_splits)

lemma store_ok_New [simp]: "store_ok NewKVStore"
  by (simp add: store_ok_def NewKVStore_def kv_inv_def)

lemma kad_frame_store: "kad_frame sha1 T I now net \<Longrightarrow> store_ok (kn_KVStore (kad_node net a))"
  by (simp add: kad_frame_def)

interpretation cf: chord_kept "chord_frame T I now" for T I now
proof
  fix c r s net net' x
  show "rpc c r net = (net', x) \<Longrightarrow> chord_frame T I now net \<Longrightarrow> chord_frame T I now net'"
    by (auto simp: rpc_def chord_frame_def Let_def split: prod.splits dest!: lookupForContext_same_net same_net_pos [where n = 0])
  show "rpc_from s r net = (net', x) \<Longrightarrow> chord_frame T I now net \<Longrightarrow> chord_frame T I now net'"
    by (auto simp: rpc_from_def chord_frame_def Let_def split: prod.splits dest!: lookupFrom_same_net same_net_pos [where n = 0])
next
  fix net es a
  assume f: "chord_frame T I now net" and es: "set es \<subseteq> readable net"
  then have "\<forall>e \<in> set es. gm_wf (Clock e)" by (fastforce simp: readable_def chord_frame_def dest: store_ok_All)
  with f show "chord_frame T I now (upd_node a (\<lambda>n. n\<lparr>cn_Store := fold Put es (cn_Store n)\<rparr>) net)"
    by (simp add: chord_frame_def store_ok_puts)
qed (simp_all add: chord_frame_def core_same_def)

interpretation kf: kad_kept sha1 "kad_frame sha1 T I now" "\<lambda>e. gm_wf (Clock e)" for sha1 T I now
proof
  fix net net' a ae k e
  show "kad_frame sha1 T I now net \<Longrightarrow> kad_inv net" by (auto simp: kad_frame_def intro: kad_wf_inv)
  show "kad_frame sha1 T I now net'" if "stored sha1 e net net'" "gm_wf (Clock e)" "kad_frame sha1 T I now net" for e
  proof -
    have "store_ok (kn_KVStore (kad_node net' a))" for a
      using that store_ok_Put unfolding stored_def kad_frame_def by metis
    moreover have "(kn_antiEntropy (kad_node net' a) = None) = (kn_antiEntropy (kad_node net a) = None)" for a
      using that(1) unfolding stored_def by (metis option.map_disc_iff)
    ultimately show ?thesis
      using that stored_wf [OF that(1)] same_net_pos [of "kad_transport net" "kad_transport net'" 0]
      by (simp add: kad_frame_def stored_def)
  qed
  then show "tables_only net net' \<Longrightarrow> kad_frame sha1 T I now net \<Longrightarrow> kad_frame sha1 T I now net'"
    using tables_only_stored [of net net' sha1 "\<lparr>Key = 0, Value = [], Clock = [], Timestamp = 0, TTL = 0, NodeID = []\<rparr>"] by simp
  show "kad_frame sha1 T I now net \<Longrightarrow> kn_antiEntropy (kad_node net a) = Some ae \<Longrightarrow>
      kad_frame sha1 T I now (kad_upd a (\<lambda>n. n\<lparr>kn_antiEntropy := Some (rebuildMerkleFromStore sha1 (kad_now net) (kn_KVStore n) ae)\<rparr>) net)"
  proof -
    assume f: "kad_frame sha1 T I now net" and ae: "kn_antiEntropy (kad_node net a) = Some ae"
    then have "I a = (kn_ID (kad_node net a), kn_Addr (kad_node net a), kn_Config (kad_node net a), False)"
      unfolding kad_frame_def by (metis option.distinct(1))
    with f rebuild_wf [of sha1 net a ae] show ?thesis by (auto simp: kad_frame_def kad_upd_def)
  qed
  show "kad_frame sha1 T I now net \<Longrightarrow> Get (kad_now net) (kn_KVStore (kad_node net a)) k = Some e \<Longrightarrow> gm_wf (Clock e)"
    by (rule store_ok_Get [OF kad_frame_store])
  show "kad_frame sha1 T I now net \<Longrightarrow> e \<in> set (All (kad_now net) (kn_KVStore (kad_node net a))) \<Longrightarrow> gm_wf (Clock e)"
    by (rule store_ok_All [OF kad_frame_store])
qed

interpretation ck: kept_cluster chord_env chord_view chord_cluster "\<lambda>net. net_inv sha1 net \<and> chord_frame T I now net" for sha1 T I now
proof unfold_locales
  fix s s' c r k and x :: "chord_error + ValueEntry option"
  assume P: "net_inv sha1 s \<and> chord_frame T I now s" and g: "qe_GetEntry chord_env c r k s = (s', x)"
  obtain net1 y where r: "rpc c r s = (net1, y)" by fastforce
  have "s' = net1" using g r by (auto simp: chord_env_def Transport_GetEntry_def split: sum.splits prod.splits)
  with rpc_inv [OF r] cf.rpc_kept [OF r] P show "net_inv sha1 s' \<and> chord_frame T I now s'" by blast
next
  fix s s' c r k e and y :: "chord_error + unit"
  assume wf: "gm_wf (Clock e)" and P: "net_inv sha1 s \<and> chord_frame T I now s" and p: "qe_PutEntry chord_env c r k (Some e) s = (s', y)"
  obtain net1 z where r: "rpc c r s = (net1, z)" by fastforce
  from rpc_inv [OF r] cf.rpc_kept [OF r] P have P1: "net_inv sha1 net1" "chord_frame T I now net1" by blast+
  from p r consider "s' = net1" | h where "s' = upd_node h (\<lambda>n. n\<lparr>cn_Store := fold Put [e] (cn_Store n)\<rparr>) net1"
    by (cases z) (auto simp: chord_env_def Transport_PutEntry_def HandlePutEntry_def)
  then show "net_inv sha1 s' \<and> chord_frame T I now s'"
  proof cases
    case 2
    with P1 wf show ?thesis using store_inv [of sha1 net1 h "[e]"] by (simp add: chord_frame_def store_ok_Put)
  qed (use P1 in simp)
next
  fix s t p
  assume "net_inv sha1 s \<and> chord_frame T I now s"
  then show "net_inv sha1 (qe_Publish chord_env t p s) \<and> chord_frame T I now (qe_Publish chord_env t p s)"
    by (simp add: chord_env_def cf.emit_kept)
qed

interpretation kk: kept_cluster "kad_env sha1" kad_view kad_cluster "kad_frame sha1 T I now" for sha1 T I now
proof unfold_locales
  fix s s' c r k and x :: "kad_error + ValueEntry option"
  assume P: "kad_frame sha1 T I now s" and g: "qe_GetEntry (kad_env sha1) c r k s = (s', x)"
  from kad_get_result [OF g] obtain y where "kad_rpc c r s = (s', y)" by auto
  from kf.tables_kept [OF kad_rpc_tables [OF this] P] show "kad_frame sha1 T I now s'" .
next
  fix s s' c r k e and y :: "kad_error + unit"
  assume wf: "gm_wf (Clock e)" and P: "kad_frame sha1 T I now s" and p: "qe_PutEntry (kad_env sha1) c r k (Some e) s = (s', y)"
  then have "Kad_PutEntry sha1 c r k e s = (s', y)" by (simp add: kad_env_def)
  from kf.stored_kept [OF Kad_PutEntry_stored [OF this] wf P] show "kad_frame sha1 T I now s'" .
next
  fix s t p
  assume "kad_frame sha1 T I now s"
  from kf.tables_kept [OF tables_only_emit this] show "kad_frame sha1 T I now (qe_Publish (kad_env sha1) t p s)"
    by (simp add: kad_env_def)
qed

section \<open>The invariant\<close>

definition maps_ok :: "Orchestrator \<Rightarrow> bool" where
  "maps_ok orc \<longleftrightarrow> gm_wf (o_nodes orc) \<and> gm_wf (o_chordNodes orc) \<and> gm_wf (o_kadNodes orc) \<and>
     (\<forall>a n. map_of (o_nodes orc) a = Some n \<longleftrightarrow>
        n = ChordObj a \<and> map_of (o_chordNodes orc) a = Some a \<or> n = KadObj a \<and> map_of (o_kadNodes orc) a = Some a) \<and>
     (\<forall>a h. map_of (o_chordNodes orc) a = Some h \<longrightarrow> h = a) \<and> (\<forall>a h. map_of (o_kadNodes orc) a = Some h \<longrightarrow> h = a) \<and>
     map_of (o_kadGossip orc) = map_of (o_kadNodes orc) \<and>
     distinct (o_nodeAddrs orc) \<and> set (o_nodeAddrs orc) = dom (map_of (o_nodes orc))"

definition transport_ok :: "Orchestrator \<Rightarrow> bool" where
  "transport_ok orc \<longleftrightarrow>
     map_of (it_registry (o_transport orc)) = (\<lambda>a. if map_of (o_nodes orc) a = None then None else Some a) \<and>
     it_delay (o_transport orc) = sc_SimDelay (o_cfg orc) \<and> it_lossRate (o_transport orc) = sc_SimLossRate (o_cfg orc) \<and>
     o_quorum orc = \<lparr>qc_N = sc_ReplicationN (o_cfg orc), qc_W = sc_WriteQuorum (o_cfg orc), qc_R = sc_ReadQuorum (o_cfg orc)\<rparr>"

definition objects_ok :: "sha1_fn \<Rightarrow> Orchestrator \<Rightarrow> bool" where
  "objects_ok sha1 orc \<longleftrightarrow>
     net_inv sha1 (chord_net orc) \<and> (\<forall>a. store_ok (cn_Store (o_chord orc a))) \<and>
     kad_wf sha1 (kad_net orc) \<and> (\<forall>a. store_ok (kn_KVStore (o_kad orc a))) \<and>
     (\<forall>a. map_of (o_chordNodes orc) a \<noteq> None \<longrightarrow> cn_Addr (o_chord orc a) = a) \<and>
     (\<forall>a. map_of (o_kadNodes orc) a \<noteq> None \<longrightarrow>
        kn_Addr (o_kad orc a) = a \<and> kn_ID (o_kad orc a) = NodeIDFromAddr sha1 a \<and> kn_antiEntropy (o_kad orc a) \<noteq> None) \<and>
     (\<forall>t \<in> set (o_repairs orc). gm_wf (Clock (rt_winner t)))"

definition orch_inv :: "sha1_fn \<Rightarrow> Orchestrator \<Rightarrow> bool" where
  "orch_inv sha1 orc \<longleftrightarrow> maps_ok orc \<and> transport_ok orc \<and> objects_ok sha1 orc"

text \<open>What the frames say of the orchestrator's own state.\<close>

definition chord_idents :: "Orchestrator \<Rightarrow> string \<Rightarrow> ID \<times> string \<times> ChordConfig" where
  "chord_idents orc a = (cn_ID (o_chord orc a), cn_Addr (o_chord orc a), cn_Config (o_chord orc a))"

definition kad_idents :: "Orchestrator \<Rightarrow> string \<Rightarrow> ID \<times> string \<times> KadConfig \<times> bool" where
  "kad_idents orc a = (kn_ID (o_kad orc a), kn_Addr (o_kad orc a), kn_Config (o_kad orc a), kn_antiEntropy (o_kad orc a) = None)"

abbreviation chord_here :: "Orchestrator \<Rightarrow> ChordNet \<Rightarrow> bool" where
  "chord_here orc \<equiv> chord_frame ((o_transport orc)\<lparr>it_pos := 0\<rparr>) (chord_idents orc) (o_now orc)"

abbreviation kad_here :: "sha1_fn \<Rightarrow> Orchestrator \<Rightarrow> KadNet \<Rightarrow> bool" where
  "kad_here sha1 orc \<equiv> kad_frame sha1 ((o_transport orc)\<lparr>it_pos := 0\<rparr>) (kad_idents orc) (o_now orc)"

lemma frames_start:
  assumes "objects_ok sha1 orc"
  shows "net_inv sha1 (chord_net orc)" "chord_here orc (chord_net orc)" "kad_here sha1 orc (kad_net orc)"
  using assms by (simp_all add: objects_ok_def chord_frame_def kad_frame_def chord_net_def kad_net_def chord_idents_def kad_idents_def)

lemma net_inv_here: "net_inv sha1 (chord_net orc) = (\<forall>a. node_inv sha1 (o_chord orc a))"
  by (simp add: net_inv_def chord_net_def)

text \<open>A network operation that keeps the frame keeps the invariant.\<close>

lemma pos_eq:
  assumes "t'\<lparr>it_pos := 0\<rparr> = t\<lparr>it_pos := 0\<rparr>"
  shows "it_registry t' = it_registry t" "it_delay t' = it_delay t" "it_lossRate t' = it_lossRate t"
    "it_partitions t' = it_partitions t" "reliable t' = reliable t"
  using assms unfolding reliable_def by (metis InProcessTransport.select_convs InProcessTransport.surjective InProcessTransport.update_convs(7))+

lemma kad_wf_cong:
  "kad_wf sha1 net \<Longrightarrow> kad_node net' = kad_node net \<Longrightarrow> kad_now net' = kad_now net \<Longrightarrow> kad_wf sha1 net'"
  by (simp add: kad_wf_def kad_inv_def)

lemma objects_ok_chord:
  assumes "objects_ok sha1 orc" "net_inv sha1 net" "chord_here orc net"
  shows "objects_ok sha1 (with_chord net orc)"
proof -
  have f: "net_now net = o_now orc" "store_ok (cn_Store (net_node net a))" "cn_Addr (net_node net a) = cn_Addr (o_chord orc a)" for a
    using assms(3) by (auto simp: chord_frame_def chord_idents_def)
  have "kad_wf sha1 (kad_net (with_chord net orc))"
    using assms(1) f(1) by (auto simp: objects_ok_def with_chord_def kad_net_def intro: kad_wf_cong)
  moreover have "net_inv sha1 (chord_net (with_chord net orc))" using assms(2) by (simp add: net_inv_def with_chord_def chord_net_def)
  ultimately show ?thesis using assms(1) f by (simp add: objects_ok_def with_chord_def)
qed

lemma objects_ok_kad:
  assumes "objects_ok sha1 orc" "kad_here sha1 orc net"
  shows "objects_ok sha1 (with_kad net orc)"
proof -
  have f: "kad_wf sha1 net" "store_ok (kn_KVStore (kad_node net a))" "kn_Addr (kad_node net a) = kn_Addr (o_kad orc a)"
    "kn_ID (kad_node net a) = kn_ID (o_kad orc a)" "(kn_antiEntropy (kad_node net a) = None) = (kn_antiEntropy (o_kad orc a) = None)" for a
    using assms(2) by (auto simp: kad_frame_def kad_idents_def)
  have "kad_wf sha1 (kad_net (with_kad net orc))"
    using f(1) by (auto simp: with_kad_def kad_net_def intro: kad_wf_cong)
  moreover have "net_inv sha1 (chord_net (with_kad net orc))" using assms(1) by (simp add: net_inv_here with_kad_def objects_ok_def)
  ultimately show ?thesis using assms(1) f by (simp add: objects_ok_def with_kad_def)
qed

lemma orch_inv_chord:
  assumes "orch_inv sha1 orc" "net_inv sha1 net" "chord_here orc net"
  shows "orch_inv sha1 (with_chord net orc)"
proof -
  have f: "net_transport net\<lparr>it_pos := 0\<rparr> = (o_transport orc)\<lparr>it_pos := 0\<rparr>" using assms(3) by (simp add: chord_frame_def)
  have "transport_ok (with_chord net orc)"
    using assms(1) pos_eq [OF f] by (simp add: orch_inv_def transport_ok_def with_chord_def)
  with assms objects_ok_chord show ?thesis by (simp add: orch_inv_def maps_ok_def with_chord_def)
qed

lemma orch_inv_kad:
  assumes "orch_inv sha1 orc" "kad_here sha1 orc net"
  shows "orch_inv sha1 (with_kad net orc)"
proof -
  have f: "kad_transport net\<lparr>it_pos := 0\<rparr> = (o_transport orc)\<lparr>it_pos := 0\<rparr>" using assms(2) by (simp add: kad_frame_def)
  have "transport_ok (with_kad net orc)"
    using assms(1) pos_eq [OF f] by (simp add: orch_inv_def transport_ok_def with_kad_def)
  with assms objects_ok_kad show ?thesis by (simp add: orch_inv_def maps_ok_def with_kad_def)
qed

lemma orch_inv_publish: "orch_inv sha1 (orch_publish t p orc) = orch_inv sha1 orc"
  by (simp add: orch_inv_def maps_ok_def transport_ok_def objects_ok_def orch_publish_def chord_net_def kad_net_def
      net_inv_def kad_wf_def kad_inv_def)

section \<open>Creating nodes\<close>

text \<open>The state in which a new node is registered with the transport but not yet with the maps.\<close>

lemma fresh_maps:
  assumes "maps_ok orc" "map_of (o_nodes orc) addr = None"
  shows "map_of (o_chordNodes orc) addr = None" "map_of (o_kadNodes orc) addr = None" "addr \<notin> set (o_nodeAddrs orc)"
proof -
  from assms(1) have n: "map_of (o_nodes orc) a = Some n \<longleftrightarrow>
      n = ChordObj a \<and> map_of (o_chordNodes orc) a = Some a \<or> n = KadObj a \<and> map_of (o_kadNodes orc) a = Some a" for a n
    unfolding maps_ok_def by blast
  from assms(1) have r: "map_of (o_chordNodes orc) a = Some h \<Longrightarrow> h = a" "map_of (o_kadNodes orc) a = Some h \<Longrightarrow> h = a" for a h
    unfolding maps_ok_def by blast+
  show "map_of (o_chordNodes orc) addr = None" using n [of addr "ChordObj addr"] r(1) [of addr] assms(2)
    by (cases "map_of (o_chordNodes orc) addr") auto
  show "map_of (o_kadNodes orc) addr = None" using n [of addr "KadObj addr"] r(2) [of addr] assms(2)
    by (cases "map_of (o_kadNodes orc) addr") auto
  show "addr \<notin> set (o_nodeAddrs orc)" using assms by (auto simp: maps_ok_def)
qed

lemma maps_ok_add:
  assumes "maps_ok orc" "map_of (o_nodes orc) addr = None"
  shows "maps_ok (add_chord_node addr orc)" "maps_ok (add_kad_node sha1 addr orc)"
proof -
  note fresh = fresh_maps [OF assms]
  show "maps_ok (add_chord_node addr orc)" using assms fresh by (auto simp: maps_ok_def add_chord_node_def)
  show "maps_ok (add_kad_node sha1 addr orc)" using assms fresh by (auto simp: maps_ok_def add_kad_node_def Let_def)
qed

lemma spawn_transport:
  assumes "transport_ok orc" "map_of (o_nodes orc) addr = None" "t\<lparr>it_pos := 0\<rparr> = (Register addr addr (o_transport orc))\<lparr>it_pos := 0\<rparr>"
  shows "map_of (it_registry t) = (\<lambda>a. if map_of (o_nodes orc) a = None \<and> a \<noteq> addr then None else Some a)"
    "it_delay t = sc_SimDelay (o_cfg orc)" "it_lossRate t = sc_SimLossRate (o_cfg orc)"
  using assms(1,2) pos_eq [OF assms(3)] by (auto simp: transport_ok_def Register_def fun_eq_iff)

lemma chord_spawned:
  assumes inv: "orch_inv sha1 orc" "map_of (o_nodes orc) addr = None"
    and orc1: "orc1 = orc\<lparr>o_chord := (o_chord orc)(addr := NewChordNode sha1 addr cfg), o_transport := Register addr addr (o_transport orc)\<rparr>"
  shows "objects_ok sha1 orc1"
    and "net_inv sha1 net \<Longrightarrow> chord_here orc1 net \<Longrightarrow> orch_inv sha1 (add_chord_node addr (with_chord net orc1))"
    and "net_inv sha1 net \<Longrightarrow> chord_here orc1 net \<Longrightarrow>
      orch_inv sha1 ((with_chord net orc1)\<lparr>o_transport := Deregister addr (o_transport (with_chord net orc1))\<rparr>)"
proof -
  have maps: "maps_ok orc" and tr: "transport_ok orc" and obj: "objects_ok sha1 orc" using inv(1) by (simp_all add: orch_inv_def)
  show obj1: "objects_ok sha1 orc1"
    using obj fresh_maps [OF maps inv(2)] unfolding orc1
    by (auto simp: objects_ok_def net_inv_here kad_net_def kad_wf_def kad_inv_def) (simp add: NewChordNode_def Let_def)
  {
    assume f: "net_inv sha1 net" "chord_here orc1 net"
    let ?orc2 = "with_chord net orc1"
    have obj2: "objects_ok sha1 ?orc2" using objects_ok_chord [OF obj1 f] .
    have "net_transport net\<lparr>it_pos := 0\<rparr> = (Register addr addr (o_transport orc))\<lparr>it_pos := 0\<rparr>"
      using f(2) by (simp add: chord_frame_def orc1)
    note t = spawn_transport [OF tr inv(2) this]
    have same: "o_nodes ?orc2 = o_nodes orc" "o_chordNodes ?orc2 = o_chordNodes orc" "o_kadNodes ?orc2 = o_kadNodes orc"
      "o_kadGossip ?orc2 = o_kadGossip orc" "o_nodeAddrs ?orc2 = o_nodeAddrs orc" "o_cfg ?orc2 = o_cfg orc" "o_quorum ?orc2 = o_quorum orc"
      "o_transport ?orc2 = net_transport net" "o_chord ?orc2 = net_node net" "o_kad ?orc2 = o_kad orc" "o_repairs ?orc2 = o_repairs orc"
      "o_now ?orc2 = net_now net"
      by (simp_all add: with_chord_def orc1)
    have maps2: "maps_ok ?orc2" using maps by (simp add: maps_ok_def same)
    have "cn_Addr (net_node net addr) = addr"
      using f(2) by (simp add: chord_frame_def chord_idents_def orc1) (simp add: NewChordNode_def Let_def)
    with obj2 have "objects_ok sha1 (add_chord_node addr ?orc2)"
      by (simp add: objects_ok_def add_chord_node_def same net_inv_here kad_net_def)
    moreover have "transport_ok (add_chord_node addr ?orc2)"
      using tr t by (auto simp: transport_ok_def add_chord_node_def same)
    ultimately show "orch_inv sha1 (add_chord_node addr ?orc2)"
      using maps_ok_add(1) [OF maps2] inv(2) by (simp add: orch_inv_def same)
    have "objects_ok sha1 (?orc2\<lparr>o_transport := Deregister addr (o_transport ?orc2)\<rparr>)"
      using obj2 by (simp add: objects_ok_def net_inv_here kad_net_def kad_wf_def kad_inv_def)
    moreover have "transport_ok (?orc2\<lparr>o_transport := Deregister addr (o_transport ?orc2)\<rparr>)"
      using tr t inv(2) by (auto simp: transport_ok_def same Deregister_def)
    ultimately show "orch_inv sha1 (?orc2\<lparr>o_transport := Deregister addr (o_transport ?orc2)\<rparr>)"
      using maps2 by (simp add: orch_inv_def maps_ok_def)
  }
qed

lemma kad_spawned:
  assumes inv: "orch_inv sha1 orc" "map_of (o_nodes orc) addr = None"
    and orc1: "orc1 = orc\<lparr>o_kad := (o_kad orc)(addr := NewKademliaNode sha1 addr cfg), o_transport := Register addr addr (o_transport orc)\<rparr>"
  shows "objects_ok sha1 orc1"
    and "kad_here sha1 orc1 net \<Longrightarrow> orch_inv sha1 (add_kad_node sha1 addr (with_kad net orc1))"
proof -
  have maps: "maps_ok orc" and tr: "transport_ok orc" and obj: "objects_ok sha1 orc" using inv(1) by (simp_all add: orch_inv_def)
  have "kad_wf sha1 (kad_upd addr (\<lambda>_. NewKademliaNode sha1 addr cfg) (kad_net orc))"
    using kad_step_wf [OF kad_step.spawn] obj by (simp add: objects_ok_def)
  then have "kad_wf sha1 (kad_net orc1)"
    by (rule kad_wf_cong) (simp_all add: kad_net_def kad_upd_def orc1)
  then show obj1: "objects_ok sha1 orc1"
    using obj fresh_maps [OF maps inv(2)] unfolding orc1
    by (auto simp: objects_ok_def net_inv_here) (simp add: NewKademliaNode_def Let_def)
  assume f: "kad_here sha1 orc1 net"
  let ?orc2 = "with_kad net orc1"
  have obj2: "objects_ok sha1 ?orc2" using objects_ok_kad [OF obj1 f] .
  have "kad_transport net\<lparr>it_pos := 0\<rparr> = (Register addr addr (o_transport orc))\<lparr>it_pos := 0\<rparr>"
    using f by (simp add: kad_frame_def orc1)
  note t = spawn_transport [OF tr inv(2) this]
  have same: "o_nodes ?orc2 = o_nodes orc" "o_chordNodes ?orc2 = o_chordNodes orc" "o_kadNodes ?orc2 = o_kadNodes orc"
    "o_kadGossip ?orc2 = o_kadGossip orc" "o_nodeAddrs ?orc2 = o_nodeAddrs orc" "o_cfg ?orc2 = o_cfg orc" "o_quorum ?orc2 = o_quorum orc"
    "o_transport ?orc2 = kad_transport net" "o_chord ?orc2 = o_chord orc" "o_kad ?orc2 = kad_node net" "o_repairs ?orc2 = o_repairs orc"
    "o_now ?orc2 = kad_now net"
    by (simp_all add: with_kad_def orc1)
  have maps2: "maps_ok ?orc2" using maps by (simp add: maps_ok_def same)
  have id: "kn_Addr (kad_node net addr) = addr" "kn_ID (kad_node net addr) = NodeIDFromAddr sha1 addr"
    using f by (simp_all add: kad_frame_def kad_idents_def orc1) (simp_all add: NewKademliaNode_def Let_def)
  let ?gc = "Some \<lparr>gc_Interval = sc_GossipInterval (o_cfg orc), gc_PeersPerRound = 2\<rparr>"
  let ?orc3 = "add_kad_node sha1 addr ?orc2"
  have "kad_wf sha1 (kad_upd addr (\<lambda>n. SetAntiEntropy (NewAntiEntropy sha1 (kad_now (kad_net ?orc2)) addr (kn_KVStore n) ?gc) n) (kad_net ?orc2))"
    using kad_step_wf [OF kad_step.engine] obj2 by (simp add: objects_ok_def)
  then have "kad_wf sha1 (kad_net ?orc3)"
    by (rule kad_wf_cong) (simp_all add: kad_net_def kad_upd_def add_kad_node_def Let_def same fun_eq_iff)
  with obj2 id have "objects_ok sha1 ?orc3"
    by (simp add: objects_ok_def add_kad_node_def Let_def same net_inv_here SetAntiEntropy_def)
  moreover have "transport_ok ?orc3" using tr t by (auto simp: transport_ok_def add_kad_node_def Let_def same)
  ultimately show "orch_inv sha1 ?orc3" using maps_ok_add(2) [OF maps2] inv(2) by (simp add: orch_inv_def same)
qed

lemma spawnChordNode_inv:
  assumes inv: "orch_inv sha1 orc" "map_of (o_nodes orc) addr = None"
    and s: "spawnChordNode fuel sha1 addr first orc = Some (Inr (orc', r))"
  shows "orch_inv sha1 orc'"
proof -
  let ?cfg = "\<lparr>StabilizeInterval = sc_StabilizeInterval (o_cfg orc), FixFingersInterval = sc_FixFingersInterval (o_cfg orc),
                 CheckPredInterval = sc_StabilizeInterval (o_cfg orc), CheckSuccInterval = sc_StabilizeInterval (o_cfg orc),
                 SuccessorListSize = sc_SuccessorListSize (o_cfg orc), MaxHops = 3 * 160\<rparr>"
  define orc1 where "orc1 = orc\<lparr>o_chord := (o_chord orc)(addr := NewChordNode sha1 addr (Some ?cfg)), o_transport := Register addr addr (o_transport orc)\<rparr>"
  note spawned = chord_spawned [OF inv orc1_def]
  note start = frames_start [OF spawned(1)]
  note s' = s [unfolded spawnChordNode_def Let_def, folded orc1_def]
  show ?thesis
  proof (cases "if first then None else getAnyChordBootstrap orc1")
    case None
    with s' have "orc' = add_chord_node addr (with_chord (CreateRing addr (chord_net orc1)) orc1)" by simp
    with spawned(2) CreateRing_inv [OF start(1)] cf.CreateRing_kept [OF start(2)] show ?thesis by simp
  next
    case (Some b)
    with s' obtain net jr where j: "Chord_Join fuel addr b (chord_net orc1) = Some (net, jr)" by (auto split: option.splits)
    note kept = Chord_Join_inv [OF j start(1)] cf.Chord_Join_kept [OF j start(2)]
    from s' Some j spawned(2,3) [OF kept] show ?thesis by (cases jr) auto
  qed
qed

lemma spawnKadNode_inv:
  assumes inv: "orch_inv sha1 orc" "map_of (o_nodes orc) addr = None"
    and s: "spawnKadNode sha1 sched addr first orc = Some (Inr (orc', r))"
  shows "orch_inv sha1 orc'"
proof -
  let ?cfg = "\<lparr>kc_K = sc_KBucketSize (o_cfg orc), kc_Alpha = sc_Alpha (o_cfg orc), kc_AlphaTimeout = 0,
                 kc_RepublishInterval = sc_RepublishInterval (o_cfg orc),
                 kc_ExpireTTL = signed_take_bit 63 (sc_RepublishInterval (o_cfg orc) + 10 ^ 9),
                 kc_BucketRefreshInterval = 60 * 10 ^ 9, kc_PingTimeout = 300 * 10 ^ 6\<rparr>"
  define orc1 where "orc1 = orc\<lparr>o_kad := (o_kad orc)(addr := NewKademliaNode sha1 addr (Some ?cfg)), o_transport := Register addr addr (o_transport orc)\<rparr>"
  note spawned = kad_spawned [OF inv orc1_def]
  note start = frames_start(3) [OF spawned(1)]
  note s' = s [unfolded spawnKadNode_def Let_def, folded orc1_def]
  show ?thesis
  proof (cases "if first then None else getAnyKadBootstrap orc1")
    case None
    with s' have "orc' = add_kad_node sha1 addr (with_kad (CreateNetwork addr (kad_net orc1)) orc1)" by simp
    with spawned(2) kf.tables_kept [OF tables_only_emit start] show ?thesis by (simp add: CreateNetwork_def)
  next
    case (Some b)
    with s' obtain net where j: "Kad_Join sched addr b (kad_net orc1) = Inr net" "orc' = add_kad_node sha1 addr (with_kad net orc1)"
      by (auto split: sum.splits)
    with spawned(2) kf.Kad_Join_kept [OF j(1) start] show ?thesis by simp
  qed
qed

lemma orch_inv_port: "orch_inv sha1 (orc\<lparr>o_portCounter := p\<rparr>) = orch_inv sha1 orc"
  by (simp add: orch_inv_def maps_ok_def transport_ok_def objects_ok_def chord_net_def kad_net_def)

lemma SpawnNode_inv:
  assumes "SpawnNode fuel sha1 sched addr orc = Some (Inr (orc', r))" "orch_inv sha1 orc"
  shows "orch_inv sha1 orc'"
proof -
  define a where "a = (if addr = [] then ''127.0.0.1:'' @ fmt_d (o_portCounter orc) else addr)"
  define orc1 where "orc1 = (if addr = [] then orc\<lparr>o_portCounter := o_portCounter orc + 1\<rparr> else orc)"
  have inv: "orch_inv sha1 orc1" using assms(2) by (simp add: orc1_def orch_inv_port)
  have s: "(if map_of (o_nodes orc1) a \<noteq> None then Some (Inr (orc1, Inl (ONodeExists a)))
      else if sc_Protocol (o_cfg orc1) = ''chord'' then spawnChordNode fuel sha1 a (o_nodes orc1 = []) orc1
      else if sc_Protocol (o_cfg orc1) = ''kademlia'' then spawnKadNode sha1 sched a (o_nodes orc1 = []) orc1
      else Some (Inr (orc1, Inl (OUnknownProtocol (sc_Protocol (o_cfg orc1)))))) = Some (Inr (orc', r))"
    using assms(1) by (auto simp: SpawnNode_def Let_def a_def orc1_def split: if_splits)
  show ?thesis
  proof (cases "map_of (o_nodes orc1) a = None")
    case True
    with s inv spawnChordNode_inv [OF inv True] spawnKadNode_inv [OF inv True] show ?thesis by (auto split: if_splits)
  qed (use s inv in auto)
qed

section \<open>Removing nodes\<close>

lemma removeAddr_spec: "distinct as \<Longrightarrow> distinct (removeAddr a as) \<and> set (removeAddr a as) = set as - {a}"
  by (induction as) auto

lemma orch_inv_forget:
  assumes "orch_inv sha1 orc"
  shows "orch_inv sha1 (forget_node addr orc)"
proof -
  from assms have maps: "maps_ok orc" and tr: "transport_ok orc" and obj: "objects_ok sha1 orc" by (simp_all add: orch_inv_def)
  have "maps_ok (forget_node addr orc)"
    using maps removeAddr_spec [of "o_nodeAddrs orc" addr] by (auto simp: maps_ok_def forget_node_def)
  moreover have "transport_ok (forget_node addr orc)"
    using tr by (auto simp: transport_ok_def forget_node_def Deregister_def)
  moreover have "objects_ok sha1 (forget_node addr orc)"
    using obj by (simp add: objects_ok_def forget_node_def net_inv_here kad_net_def kad_wf_def kad_inv_def)
  ultimately show ?thesis by (simp add: orch_inv_def)
qed

lemma orch_inv_stop:
  assumes "orch_inv sha1 orc"
  shows "orch_inv sha1 (orc\<lparr>o_kad := (o_kad orc)(h := Kad_Stop (o_kad orc h))\<rparr>)"
    and "orch_inv sha1 (orc\<lparr>o_chord := (o_chord orc)(h := Chord_Stop (o_chord orc h))\<rparr>)"
proof -
  from assms have obj: "objects_ok sha1 orc" by (simp add: orch_inv_def)
  have "kad_wf sha1 (kad_upd h Kad_Stop (kad_net orc))"
    using kad_step_wf [OF kad_step.stop] obj by (simp add: objects_ok_def)
  then have "kad_wf sha1 (kad_net (orc\<lparr>o_kad := (o_kad orc)(h := Kad_Stop (o_kad orc h))\<rparr>))"
    by (rule kad_wf_cong) (simp_all add: kad_net_def kad_upd_def)
  with obj have "objects_ok sha1 (orc\<lparr>o_kad := (o_kad orc)(h := Kad_Stop (o_kad orc h))\<rparr>)"
    by (simp add: objects_ok_def net_inv_here Kad_Stop_def)
  with assms show "orch_inv sha1 (orc\<lparr>o_kad := (o_kad orc)(h := Kad_Stop (o_kad orc h))\<rparr>)"
    by (simp add: orch_inv_def maps_ok_def transport_ok_def)
  have "node_inv sha1 (Chord_Stop (o_chord orc h))"
    using node_inv_setters(6) obj honest_selfRef by (fastforce simp: objects_ok_def net_inv_here)
  with obj have "objects_ok sha1 (orc\<lparr>o_chord := (o_chord orc)(h := Chord_Stop (o_chord orc h))\<rparr>)"
    by (simp add: objects_ok_def net_inv_here kad_net_def Chord_Stop_def)
  with assms show "orch_inv sha1 (orc\<lparr>o_chord := (o_chord orc)(h := Chord_Stop (o_chord orc h))\<rparr>)"
    by (simp add: orch_inv_def maps_ok_def transport_ok_def)
qed

lemma here:
  assumes "orch_inv sha1 orc"
  shows "net_inv sha1 (chord_net orc)" "chord_here orc (chord_net orc)" "kad_here sha1 orc (kad_net orc)"
  using frames_start [of sha1 orc] assms by (simp_all add: orch_inv_def)

lemma orch_inv_chord_op:
  assumes "orch_inv sha1 orc" "net_inv sha1 (chord_net orc) \<Longrightarrow> net_inv sha1 net" "chord_here orc (chord_net orc) \<Longrightarrow> chord_here orc net"
  shows "orch_inv sha1 (with_chord net orc)"
  by (intro orch_inv_chord assms here [OF assms(1)])

lemma orch_inv_kad_op:
  assumes "orch_inv sha1 orc" "kad_here sha1 orc (kad_net orc) \<Longrightarrow> kad_here sha1 orc net"
  shows "orch_inv sha1 (with_kad net orc)"
  by (intro orch_inv_kad assms here [OF assms(1)])

lemma SimulateCrash_inv: "net_inv sha1 net \<Longrightarrow> net_inv sha1 (SimulateCrash a net)"
  using chord_step_inv [OF chord_step.crash] by blast

lemma KillNode_inv:
  assumes "orch_inv sha1 orc"
  shows "orch_inv sha1 (fst (KillNode addr orc))"
  using orch_inv_chord_op [OF orch_inv_forget [OF assms, of addr] Leave_inv cf.Leave_kept]
    orch_inv_stop(1) [OF orch_inv_forget [OF assms, of addr]] assms
  by (auto simp: KillNode_def Let_def split: option.split Node.split)

lemma CrashNode_inv:
  assumes "orch_inv sha1 orc"
  shows "orch_inv sha1 (fst (CrashNode addr orc))"
  using orch_inv_chord_op [OF orch_inv_forget [OF assms, of addr] SimulateCrash_inv cf.SimulateCrash_kept]
    orch_inv_stop(1) [OF orch_inv_forget [OF assms, of addr]] assms
  by (auto simp: CrashNode_def Let_def orch_inv_publish split: option.split Node.split)

section \<open>Clients\<close>

lemma clusters_here:
  assumes "orch_inv sha1 orc"
  shows "chord_cluster (chord_net orc)" "kad_cluster (kad_net orc)"
proof -
  from assms have reg: "map_of (it_registry (o_transport orc)) a = Some h \<Longrightarrow> h = a" for a h
    by (auto simp: orch_inv_def transport_ok_def split: if_splits)
  with assms show "chord_cluster (chord_net orc)" "kad_cluster (kad_net orc)"
    by (simp_all add: chord_cluster_def kad_cluster_def chord_net_def kad_net_def orch_inv_def objects_ok_def store_ok_def)
qed

lemma orch_inv_keys: "orch_inv sha1 (orc\<lparr>o_keyStrings := ks\<rparr>) = orch_inv sha1 orc" "orch_inv sha1 (orc\<lparr>o_history := hs\<rparr>) = orch_inv sha1 orc"
  by (simp_all add: orch_inv_def maps_ok_def transport_ok_def objects_ok_def chord_net_def kad_net_def)

lemma orch_inv_repairs:
  "orch_inv sha1 orc \<Longrightarrow> \<forall>t \<in> set ts. gm_wf (Clock (rt_winner t)) \<Longrightarrow> orch_inv sha1 (orc\<lparr>o_repairs := ts\<rparr>)"
  by (simp add: orch_inv_def maps_ok_def transport_ok_def objects_ok_def chord_net_def kad_net_def)

lemma quorum_write_inv:
  assumes "quorum_write sha1 sched rs key v w orc = (orc', r)" "orch_inv sha1 orc"
  shows "orch_inv sha1 orc'"
proof (cases "sc_Protocol (o_cfg orc) = ''chord''")
  case True
  obtain net x where wr: "Write chord_env (orch_manager rs orc) sched key v w (chord_net orc) = (net, x)" by fastforce
  from here(1,2) [OF assms(2)] have "net_inv sha1 (chord_net orc) \<and> chord_here orc (chord_net orc)" by simp
  from ck.Write_kept [OF wr clusters_here(1) [OF assms(2)] this] orch_inv_chord [OF assms(2)]
  have "orch_inv sha1 (with_chord net orc)" by blast
  with True wr assms(1) show ?thesis by (simp add: quorum_write_def)
next
  case False
  obtain net x where wr: "Write (kad_env sha1) (orch_manager rs orc) sched key v w (kad_net orc) = (net, x)" by fastforce
  from kk.Write_kept [OF wr clusters_here(2) [OF assms(2)] here(3) [OF assms(2)]] orch_inv_kad [OF assms(2)]
  have "orch_inv sha1 (with_kad net orc)" by blast
  with False wr assms(1) show ?thesis by (simp add: quorum_write_def)
qed

lemma quorum_read_inv:
  assumes "quorum_read sha1 sched rs key orc = (orc', r)" "orch_inv sha1 orc"
  shows "orch_inv sha1 orc'"
proof -
  have ok: "orch_inv sha1 orc'" if "orch_inv sha1 orc1" "\<forall>w t. x = Inr (w, Some t) \<longrightarrow> gm_wf (Clock (rt_winner t))"
      "queue_repair orc1 x = (orc', r)" for orc1 x
  proof -
    have "\<forall>t \<in> set (o_repairs orc1). gm_wf (Clock (rt_winner t))" using that(1) by (simp add: orch_inv_def objects_ok_def)
    with that show ?thesis by (auto simp: queue_repair_def split: sum.splits option.splits intro!: orch_inv_repairs)
  qed
  show ?thesis
  proof (cases "sc_Protocol (o_cfg orc) = ''chord''")
    case True
    obtain net h x where rd: "Read chord_env (orch_manager rs orc) sched key (chord_net orc, o_history orc) = ((net, h), x)" by (metis prod.collapse)
    from here(1,2) [OF assms(2)] have "net_inv sha1 (chord_net orc) \<and> chord_here orc (chord_net orc)" by simp
    note k = ck.Read_kept [OF rd clusters_here(1) [OF assms(2)] this]
    have "orch_inv sha1 ((with_chord net orc)\<lparr>o_history := h\<rparr>)" unfolding orch_inv_keys
      using k orch_inv_chord [OF assms(2)] by blast
    then show ?thesis by (rule ok [where x = x]) (use k assms(1) True rd in \<open>simp_all add: quorum_read_def\<close>)
  next
    case False
    obtain net h x where rd: "Read (kad_env sha1) (orch_manager rs orc) sched key (kad_net orc, o_history orc) = ((net, h), x)" by (metis prod.collapse)
    note k = kk.Read_kept [OF rd clusters_here(2) [OF assms(2)] here(3) [OF assms(2)]]
    have "orch_inv sha1 ((with_kad net orc)\<lparr>o_history := h\<rparr>)" unfolding orch_inv_keys
      using k orch_inv_kad [OF assms(2)] by blast
    then show ?thesis by (rule ok [where x = x]) (use k assms(1) False rd in \<open>simp_all add: quorum_read_def\<close>)
  qed
qed

lemma Insert_inv: "Insert sha1 sched key v orc = Inr (orc', r) \<Longrightarrow> orch_inv sha1 orc \<Longrightarrow> orch_inv sha1 orc'"
  by (auto simp: Insert_def Let_def orch_inv_keys split: sum.splits prod.splits dest: quorum_write_inv)

lemma Orch_Read_inv: "Orch_Read sha1 sched key orc = Inr (orc', r) \<Longrightarrow> orch_inv sha1 orc \<Longrightarrow> orch_inv sha1 orc'"
  by (auto simp: Orch_Read_def Let_def split: sum.splits prod.splits option.splits dest: quorum_read_inv)

lemma run_repair_inv:
  assumes "orch_inv sha1 orc"
  shows "orch_inv sha1 (run_repair sha1 orc)"
proof (cases "o_repairs orc")
  case (Cons t ts)
  from assms have r: "\<forall>t \<in> set (o_repairs orc). gm_wf (Clock (rt_winner t))" by (simp add: orch_inv_def objects_ok_def)
  with Cons have t: "gm_wf (Clock (rt_winner t))" and ts: "\<forall>t \<in> set ts. gm_wf (Clock (rt_winner t))" by simp_all
  from here(1,2) [OF assms] have P: "net_inv sha1 (chord_net orc) \<and> chord_here orc (chord_net orc)" by simp
  have "orch_inv sha1 (with_chord (readRepair chord_env t (chord_net orc)) orc)"
    using ck.readRepair_kept [OF clusters_here(1) [OF assms] P t] orch_inv_chord [OF assms] by blast
  moreover have "orch_inv sha1 (with_kad (readRepair (kad_env sha1) t (kad_net orc)) orc)"
    using kk.readRepair_kept [OF clusters_here(2) [OF assms] here(3) [OF assms] t] orch_inv_kad [OF assms] by blast
  ultimately show ?thesis using Cons ts by (auto simp: run_repair_def intro: orch_inv_repairs)
qed (simp add: run_repair_def assms)

lemma finish_lookup_inv: "finish_lookup key i t0 r hops orc = (orc', tr) \<Longrightarrow> orch_inv sha1 orc \<Longrightarrow> orch_inv sha1 orc'"
  by (auto simp: finish_lookup_def Let_def orch_inv_publish)

lemma Lookup_inv:
  assumes "Lookup fuel sched sha1 key orc = Some (Inr (orc', r))" "orch_inv sha1 orc"
  shows "orch_inv sha1 orc'"
proof (cases "o_nodes orc")
  case (Cons p ps)
  obtain a n where p: "p = (a, n)" by fastforce
  let ?p = "LookupStartPayload key (IDToHex (KeyID sha1 key)) (IDToHex (nr_ID (node_ref orc n)))"
  let ?orc = "orch_publish EventLookupStart ?p orc"
  have inv: "orch_inv sha1 ?orc" using assms(2) by (simp add: orch_inv_publish)
  have chord: "orch_inv sha1 (with_chord net ?orc)" if "FindSuccessor fuel h x (chord_net ?orc) = Some (net, hops, res)" for h x net hops res
    by (rule orch_inv_chord_op [OF inv]) (use FindSuccessor_inv [OF that] cf.FindSuccessor_kept [OF that] in auto)
  have kad: "orch_inv sha1 (with_kad net ?orc)" if "IterativeFindNode sched h x (kad_net ?orc) = Inr (net, cs, hops)" for h x net cs hops
    by (rule orch_inv_kad_op [OF inv]) (use kf.find_node_kept [OF that] in auto)
  note lk = assms(1) [unfolded Lookup_def Let_def Cons p list.case prod.case]
  show ?thesis
  proof (cases n)
    case (ChordObj h)
    with lk obtain net hops res where 1: "FindSuccessor fuel h (KeyID sha1 key) (chord_net ?orc) = Some (net, hops, res)"
      by (auto split: option.splits)
    note with_inv = chord [OF 1]
    from lk ChordObj 1 with_inv show ?thesis by (cases res) (auto split: prod.splits intro: finish_lookup_inv)
  next
    case (KadObj h)
    with lk obtain net cs hops where 1: "IterativeFindNode sched h (KeyID sha1 key) (kad_net ?orc) = Inr (net, cs, hops)"
      by (auto split: sum.splits)
    note with_inv = kad [OF 1]
    from lk KadObj 1 with_inv show ?thesis by (auto split: prod.splits intro: finish_lookup_inv)
  qed
qed (use assms in \<open>simp add: Lookup_def Let_def\<close>)

lemma fold_keeps: "P s \<Longrightarrow> (\<And>x s. P s \<Longrightarrow> P (f x s)) \<Longrightarrow> P (fold f xs s)"
  by (induction xs arbitrary: s) simp_all

lemma orch_inv_store:
  assumes "orch_inv sha1 orc"
  shows "orch_inv sha1 (orc\<lparr>o_chord := (o_chord orc)(h := (o_chord orc h)\<lparr>cn_Store := fst (Delete k (cn_Store (o_chord orc h)))\<rparr>)\<rparr>)"
    and "orch_inv sha1 (orc\<lparr>o_kad := (o_kad orc)(h := (o_kad orc h)\<lparr>kn_KVStore := fst (Delete k (kn_KVStore (o_kad orc h)))\<rparr>)\<rparr>)"
    and "orch_inv sha1 (orc\<lparr>o_chord := (o_chord orc)(h := (o_chord orc h)\<lparr>cn_Store := evictExpired (o_now orc) (cn_Store (o_chord orc h))\<rparr>)\<rparr>)"
    and "orch_inv sha1 (orc\<lparr>o_kad := (o_kad orc)(h := (o_kad orc h)\<lparr>kn_KVStore := evictExpired (o_now orc) (kn_KVStore (o_kad orc h))\<rparr>)\<rparr>)"
proof -
  from assms have obj: "objects_ok sha1 orc" by (simp add: orch_inv_def)
  have "kad_wf sha1 (kad_upd h (\<lambda>n. n\<lparr>kn_KVStore := fst (Delete k (kn_KVStore n))\<rparr>) (kad_net orc))"
    using kad_step_wf [OF kad_step.delete_key] obj by (simp add: objects_ok_def)
  then have "kad_wf sha1 (kad_net (orc\<lparr>o_kad := (o_kad orc)(h := (o_kad orc h)\<lparr>kn_KVStore := fst (Delete k (kn_KVStore (o_kad orc h)))\<rparr>)\<rparr>))"
    by (rule kad_wf_cong) (simp_all add: kad_net_def kad_upd_def)
  with assms show "orch_inv sha1 (orc\<lparr>o_kad := (o_kad orc)(h := (o_kad orc h)\<lparr>kn_KVStore := fst (Delete k (kn_KVStore (o_kad orc h)))\<rparr>)\<rparr>)"
    by (auto simp: orch_inv_def maps_ok_def transport_ok_def objects_ok_def net_inv_here store_ok_Delete)
  have "kad_wf sha1 (kad_upd h (\<lambda>n. n\<lparr>kn_KVStore := evictExpired (kad_now (kad_net orc)) (kn_KVStore n)\<rparr>) (kad_net orc))"
    using kad_step_wf [OF kad_step.evict] obj by (simp add: objects_ok_def)
  then have "kad_wf sha1 (kad_net (orc\<lparr>o_kad := (o_kad orc)(h := (o_kad orc h)\<lparr>kn_KVStore := evictExpired (o_now orc) (kn_KVStore (o_kad orc h))\<rparr>)\<rparr>))"
    by (rule kad_wf_cong) (simp_all add: kad_net_def kad_upd_def)
  with assms show "orch_inv sha1 (orc\<lparr>o_kad := (o_kad orc)(h := (o_kad orc h)\<lparr>kn_KVStore := evictExpired (o_now orc) (kn_KVStore (o_kad orc h))\<rparr>)\<rparr>)"
    by (auto simp: orch_inv_def maps_ok_def transport_ok_def objects_ok_def net_inv_here store_ok_evict)
  have n: "node_inv sha1 (n\<lparr>cn_Store := s\<rparr>)" if "node_inv sha1 n" "kv_inv s" for n s
    using that by (simp add: node_inv_def node_refs_def)
  have "node_inv sha1 (o_chord orc h)" "kv_inv (cn_Store (o_chord orc h))"
    using obj by (simp_all add: objects_ok_def net_inv_here store_ok_def)
  with assms n show
    "orch_inv sha1 (orc\<lparr>o_chord := (o_chord orc)(h := (o_chord orc h)\<lparr>cn_Store := fst (Delete k (cn_Store (o_chord orc h)))\<rparr>)\<rparr>)"
    "orch_inv sha1 (orc\<lparr>o_chord := (o_chord orc)(h := (o_chord orc h)\<lparr>cn_Store := evictExpired (o_now orc) (cn_Store (o_chord orc h))\<rparr>)\<rparr>)"
    by (simp_all add: orch_inv_def maps_ok_def transport_ok_def objects_ok_def net_inv_here store_ok_Delete store_ok_evict kad_net_def)
qed

lemma DeleteKey_inv:
  assumes "orch_inv sha1 orc"
  shows "orch_inv sha1 (fst (DeleteKey sha1 key orc))"
proof -
  have c: "orch_inv sha1 (fst (delete_chord k x s))" if "orch_inv sha1 (fst s)" for k x s
    using orch_inv_store(1) [OF that, of "snd x" k] by (simp add: delete_chord_def split_def)
  have d: "orch_inv sha1 (fst (delete_kad k x s))" if "orch_inv sha1 (fst s)" for k x s
    using orch_inv_store(2) [OF that, of "snd x" k] by (simp add: delete_kad_def split_def)
  have "orch_inv sha1 (fst (fold (delete_chord k) xs s))" if "orch_inv sha1 (fst s)" for k xs s
    using that c by (rule fold_keeps)
  moreover have "orch_inv sha1 (fst (fold (delete_kad k) xs s))" if "orch_inv sha1 (fst s)" for k xs s
    using that d by (rule fold_keeps)
  ultimately show ?thesis using assms
    by (auto simp: DeleteKey_def Let_def orch_inv_keys(1) split: prod.split) (metis fst_conv)
qed

lemma UpdateConfig_inv: "orch_inv sha1 orc \<Longrightarrow> orch_inv sha1 (UpdateConfig cfg orc)"
  by (simp add: orch_inv_def maps_ok_def transport_ok_def objects_ok_def UpdateConfig_def SetSimulation_def net_inv_here kad_net_def
      kad_wf_def kad_inv_def)

lemma fold_Deregister:
  "map_of (it_registry (fold (\<lambda>(a, _). Deregister a) xs t)) b = (if b \<in> fst ` set xs then None else map_of (it_registry t) b)"
  "it_delay (fold (\<lambda>(a, _). Deregister a) xs t) = it_delay t" "it_lossRate (fold (\<lambda>(a, _). Deregister a) xs t) = it_lossRate t"
  by (induction xs arbitrary: t) (auto simp: Deregister_def)

lemma stop_fold_frame:
  "o_nodes (fold stop_chord xs orc) = o_nodes orc" "o_kadNodes (fold stop_chord xs orc) = o_kadNodes orc"
  "o_transport (fold stop_chord xs orc) = o_transport orc" "o_cfg (fold stop_chord xs orc) = o_cfg orc"
  "o_nodes (fold stop_kad xs orc) = o_nodes orc" "o_transport (fold stop_kad xs orc) = o_transport orc" "o_cfg (fold stop_kad xs orc) = o_cfg orc"
  by (induction xs arbitrary: orc) (simp_all add: stop_chord_def stop_kad_def split_def)

lemma Reset_fields:
  "o_nodes (Reset orc) = []" "o_chordNodes (Reset orc) = []" "o_kadNodes (Reset orc) = []" "o_kadGossip (Reset orc) = []"
  "o_nodeAddrs (Reset orc) = []" "o_keyStrings (Reset orc) = []" "o_portCounter (Reset orc) = 7000" "o_cfg (Reset orc) = o_cfg orc"
  "o_transport (Reset orc) = ClearLinkLatencies (ClearPartitions (fold (\<lambda>(addr, _). Deregister addr) (o_nodes orc) (o_transport orc)))"
  by (simp_all add: Reset_def Let_def stop_fold_frame)

lemma Reset_inv:
  assumes "orch_inv sha1 orc"
  shows "orch_inv sha1 (Reset orc)"
proof -
  have c: "orch_inv sha1 (stop_chord x s)" if "orch_inv sha1 s" for x s
    using orch_inv_stop(2) [OF that] by (simp add: stop_chord_def split_def)
  have d: "orch_inv sha1 (stop_kad x s)" if "orch_inv sha1 s" for x s
    using orch_inv_stop(1) [OF that] by (simp add: stop_kad_def split_def)
  define orc1 where "orc1 = fold stop_kad (o_kadNodes orc) (fold stop_chord (o_chordNodes orc) orc)"
  have inv1: "orch_inv sha1 orc1" unfolding orc1_def
    by (rule fold_keeps [where P = "orch_inv sha1", OF fold_keeps [where P = "orch_inv sha1", OF assms c] d])
  have same: "o_nodes orc1 = o_nodes orc" "o_transport orc1 = o_transport orc" by (simp_all add: orc1_def stop_fold_frame)
  let ?t = "ClearLinkLatencies (ClearPartitions (fold (\<lambda>(addr, _). Deregister addr) (o_nodes orc1) (o_transport orc1)))"
  have R: "Reset orc = orc1\<lparr>o_nodes := [], o_chordNodes := [], o_kadNodes := [], o_kadGossip := [], o_nodeAddrs := [], o_keyStrings := [],
            o_portCounter := 7000, o_transport := ?t\<rparr>"
    by (simp add: Reset_def Let_def stop_fold_frame orc1_def)
  have "map_of (it_registry ?t) a = None" for a
    using inv1 by (auto simp: ClearLinkLatencies_def ClearPartitions_def fold_Deregister orch_inv_def transport_ok_def map_of_eq_None_iff)
  then have "map_of (it_registry ?t) = Map.empty" by blast
  then have "transport_ok (Reset orc)"
    using inv1 unfolding R by (simp add: orch_inv_def transport_ok_def ClearLinkLatencies_def ClearPartitions_def fold_Deregister)
  moreover have "objects_ok sha1 (Reset orc)"
    using inv1 unfolding R by (simp add: orch_inv_def objects_ok_def net_inv_here kad_net_def kad_wf_def kad_inv_def)
  ultimately show ?thesis by (simp add: orch_inv_def maps_ok_def R)
qed

section \<open>Runs\<close>

text \<open>The background work of the nodes: one step of one goroutine of any node object.\<close>

inductive chord_background :: "nat \<Rightarrow> ChordNet \<Rightarrow> ChordNet \<Rightarrow> bool" for fuel where
  stabilize: "chord_background fuel net (Stabilize a net)"
| fix_fingers: "fixFingersAtIndex fuel a i net = Some net' \<Longrightarrow> chord_background fuel net net'"
| fix_anti_fingers: "fixAntiFingers fuel a net = Some net' \<Longrightarrow> chord_background fuel net net'"
| check_predecessor: "chord_background fuel net (CheckPredecessor a net)"
| check_successor: "chord_background fuel net (CheckSuccessor a net)"

inductive kad_background :: "sha1_fn \<Rightarrow> KadNet \<Rightarrow> KadNet \<Rightarrow> bool" for sha1 where
  refresh: "refreshBuckets sched a net = Inr net' \<Longrightarrow> kad_background sha1 net net'"
| republish: "republishKeys sha1 sched a net = Inr net' \<Longrightarrow> kad_background sha1 net net'"
| gossip: "gossipRound sha1 shuffle peers a net = Inr net' \<Longrightarrow> kad_background sha1 net net'"

text \<open>
  A step: a call of the interface that returns, background work, the eviction of expired
  entries, the passing of time, or another iteration order of the maps.
\<close>

inductive orch_step :: "sha1_fn \<Rightarrow> nat \<Rightarrow> Orchestrator \<Rightarrow> Orchestrator \<Rightarrow> bool" for sha1 fuel where
  spawn: "SpawnNode fuel sha1 sched addr orc = Some (Inr (orc', n)) \<Longrightarrow> orch_step sha1 fuel orc orc'"
| kill: "orch_step sha1 fuel orc (fst (KillNode addr orc))"
| crash: "orch_step sha1 fuel orc (fst (CrashNode addr orc))"
| insert: "Insert sha1 order key v orc = Inr (orc', u) \<Longrightarrow> orch_step sha1 fuel orc orc'"
| read: "Orch_Read sha1 order key orc = Inr (orc', b) \<Longrightarrow> orch_step sha1 fuel orc orc'"
| repair: "orch_step sha1 fuel orc (run_repair sha1 orc)"
| lookup: "Lookup fuel sched sha1 key orc = Some (Inr (orc', tr)) \<Longrightarrow> orch_step sha1 fuel orc orc'"
| delete: "orch_step sha1 fuel orc (fst (DeleteKey sha1 key orc))"
| config: "orch_step sha1 fuel orc (UpdateConfig cfg orc)"
| reset: "orch_step sha1 fuel orc (Reset orc)"
| partition: "orch_step sha1 fuel orc (SetPartition groups orc)"
| heal: "orch_step sha1 fuel orc (HealPartition orc)"
| link: "orch_step sha1 fuel orc (Orch_SetLinkLatency x y d orc)"
| clear_links: "orch_step sha1 fuel orc (Orch_ClearLinkLatencies orc)"
| chord: "chord_background fuel (chord_net orc) net \<Longrightarrow> orch_step sha1 fuel orc (with_chord net orc)"
| kad: "kad_background sha1 (kad_net orc) net \<Longrightarrow> orch_step sha1 fuel orc (with_kad net orc)"
| evict_chord: "orch_step sha1 fuel orc
    (orc\<lparr>o_chord := (o_chord orc)(h := (o_chord orc h)\<lparr>cn_Store := evictExpired (o_now orc) (cn_Store (o_chord orc h))\<rparr>)\<rparr>)"
| evict_kad: "orch_step sha1 fuel orc
    (orc\<lparr>o_kad := (o_kad orc)(h := (o_kad orc h)\<lparr>kn_KVStore := evictExpired (o_now orc) (kn_KVStore (o_kad orc h))\<rparr>)\<rparr>)"
| time: "o_now orc \<le> now \<Longrightarrow> orch_step sha1 fuel orc (orc\<lparr>o_now := now\<rparr>)"
| range: "mset ns = mset (o_nodes orc) \<Longrightarrow> mset cs = mset (o_chordNodes orc) \<Longrightarrow> mset ks = mset (o_kadNodes orc) \<Longrightarrow>
    orch_step sha1 fuel orc (orc\<lparr>o_nodes := ns, o_chordNodes := cs, o_kadNodes := ks\<rparr>)"

lemma chord_background_kept:
  "chord_background fuel net net' \<Longrightarrow> (net_inv sha1 net \<longrightarrow> net_inv sha1 net') \<and> (chord_frame T I now net \<longrightarrow> chord_frame T I now net')"
  by (induction rule: chord_background.induct)
     (auto intro: Stabilize_inv fixFingersAtIndex_inv fixAntiFingers_inv CheckPredecessor_inv CheckSuccessor_inv
       cf.Stabilize_kept cf.fixFingersAtIndex_kept cf.fixAntiFingers_kept cf.CheckPredecessor_kept cf.CheckSuccessor_kept)

lemma kad_background_kept: "kad_background sha1 net net' \<Longrightarrow> kad_frame sha1 T I now net \<Longrightarrow> kad_frame sha1 T I now net'"
  by (induction rule: kad_background.induct) (auto intro: kf.refresh_kept kf.republish_kept kf.gossipRound_kept)

lemma range_order:
  assumes "gm_wf xs" "mset ys = mset xs"
  shows "gm_wf ys" "map_of ys = map_of xs"
proof -
  from assms(2) have "mset (map fst ys) = mset (map fst xs)" by simp
  with assms(1) show wf: "gm_wf ys" unfolding gm_wf_def using mset_eq_imp_distinct_iff by blast
  have "set ys = set xs" using assms(2) by (rule mset_eq_setD)
  with assms(1) wf show "map_of ys = map_of xs"
    by (metis gm_wf_def map_of_inject_set)
qed

lemma orch_inv_faults:
  assumes "orch_inv sha1 orc" "it_registry t = it_registry (o_transport orc)" "it_delay t = it_delay (o_transport orc)"
    "it_lossRate t = it_lossRate (o_transport orc)"
  shows "orch_inv sha1 (orc\<lparr>o_transport := t\<rparr>)"
  using assms by (simp add: orch_inv_def maps_ok_def transport_ok_def objects_ok_def net_inv_here kad_net_def kad_wf_def kad_inv_def)

lemma orch_inv_time:
  assumes "orch_inv sha1 orc" "o_now orc \<le> now"
  shows "orch_inv sha1 (orc\<lparr>o_now := now\<rparr>)"
proof -
  have "kad_wf sha1 ((kad_net orc)\<lparr>kad_now := now\<rparr>)"
    using kad_step_wf [OF kad_step.time, of "kad_net orc" now sha1] assms by (simp add: orch_inv_def objects_ok_def kad_net_def)
  then have "kad_wf sha1 (kad_net (orc\<lparr>o_now := now\<rparr>))" by (rule kad_wf_cong) (simp_all add: kad_net_def)
  with assms(1) show ?thesis by (simp add: orch_inv_def maps_ok_def transport_ok_def objects_ok_def net_inv_here)
qed

lemma orch_step_inv: "orch_step sha1 fuel orc orc' \<Longrightarrow> orch_inv sha1 orc \<Longrightarrow> orch_inv sha1 orc'"
proof (induction rule: orch_step.induct)
  case (range ns orc cs ks)
  then have "gm_wf (o_nodes orc)" "gm_wf (o_chordNodes orc)" "gm_wf (o_kadNodes orc)" by (simp_all add: orch_inv_def maps_ok_def)
  note range_order [OF this(1) range(1)] range_order [OF this(2) range(2)] range_order [OF this(3) range(3)]
  with range(4) show ?case
    by (simp add: orch_inv_def maps_ok_def transport_ok_def objects_ok_def net_inv_here kad_net_def)
next
  case (chord orc net)
  then show ?case by (intro orch_inv_chord_op) (use chord_background_kept in blast)+
next
  case (kad orc net)
  then show ?case by (intro orch_inv_kad_op) (use kad_background_kept in blast)+
qed (auto intro: SpawnNode_inv KillNode_inv CrashNode_inv Insert_inv Orch_Read_inv run_repair_inv Lookup_inv DeleteKey_inv
    UpdateConfig_inv Reset_inv orch_inv_store orch_inv_time orch_inv_faults
    simp: SetPartition_def HealPartition_def Orch_SetLinkLatency_def Orch_ClearLinkLatencies_def
      SetPartitions_def ClearPartitions_def SetLinkLatency_def ClearLinkLatencies_def Let_def intro!: orch_inv_faults)

lemma NewOrchestrator_inv: "orch_inv sha1 (NewOrchestrator sha1 rng now cfg)"
proof -
  have "kad_wf sha1 (kad_net (NewOrchestrator sha1 rng now cfg))"
    by (simp add: kad_wf_def kad_inv_def kad_net_def NewOrchestrator_def Let_def node_wf_New new_table)
  moreover have "cn_Store (NewChordNode sha1 a None) = NewKVStore" "kn_KVStore (NewKademliaNode sha1 a None) = NewKVStore" for a
    by (simp_all add: NewChordNode_def NewKademliaNode_def Let_def)
  ultimately show ?thesis
    by (simp add: orch_inv_def maps_ok_def transport_ok_def objects_ok_def net_inv_here)
       (simp add: NewOrchestrator_def Let_def NewInProcessTransport_def)
qed

lemma orch_run_inv: "(orch_step sha1 fuel)\<^sup>*\<^sup>* orc orc' \<Longrightarrow> orch_inv sha1 orc \<Longrightarrow> orch_inv sha1 orc'"
  by (induction rule: rtranclp_induct) (auto intro: orch_step_inv)

lemma orch_inv_nodes:
  assumes "orch_inv sha1 orc"
  shows "map_of (o_nodes orc) a = (case map_of (o_chordNodes orc) a of Some h \<Rightarrow> Some (ChordObj h) | None \<Rightarrow> map_option KadObj (map_of (o_kadNodes orc) a))"
    "map_of (o_chordNodes orc) a = None \<or> map_of (o_kadNodes orc) a = None"
    "map_of (o_chordNodes orc) a = Some h \<Longrightarrow> h = a \<and> Ref (o_chord orc h) = \<lparr>nr_ID = NodeIDFromAddr sha1 a, nr_Addr = a\<rparr>"
    "map_of (o_kadNodes orc) a = Some h \<Longrightarrow> h = a \<and> Kad_Ref (o_kad orc h) = \<lparr>nr_ID = NodeIDFromAddr sha1 a, nr_Addr = a\<rparr>"
    "map_of (it_registry (o_transport orc)) a = (if map_of (o_nodes orc) a = None then None else Some a)"
proof -
  from assms have m: "maps_ok orc" "objects_ok sha1 orc" "transport_ok orc" by (simp_all add: orch_inv_def)
  then have n: "map_of (o_nodes orc) a = Some n \<longleftrightarrow>
      n = ChordObj a \<and> map_of (o_chordNodes orc) a = Some a \<or> n = KadObj a \<and> map_of (o_kadNodes orc) a = Some a" for n
    unfolding maps_ok_def by blast
  from m have r: "map_of (o_chordNodes orc) a = Some h \<Longrightarrow> h = a" "map_of (o_kadNodes orc) a = Some h \<Longrightarrow> h = a" for h
    unfolding maps_ok_def by blast+
  show disj: "map_of (o_chordNodes orc) a = None \<or> map_of (o_kadNodes orc) a = None"
    using n [of "ChordObj a"] n [of "KadObj a"] r by (metis Node.distinct(1) option.exhaust option.inject)
  show "map_of (o_nodes orc) a = (case map_of (o_chordNodes orc) a of Some h \<Rightarrow> Some (ChordObj h) | None \<Rightarrow> map_option KadObj (map_of (o_kadNodes orc) a))"
  proof (cases "map_of (o_chordNodes orc) a")
    case (Some h)
    with r n [of "ChordObj a"] show ?thesis by simp
  next
    case None
    show ?thesis
    proof (cases "map_of (o_kadNodes orc) a")
      case (Some h)
      with None r n [of "KadObj a"] show ?thesis by simp
    next
      case None
      have "map_of (o_nodes orc) a \<noteq> Some k" for k
        using n [of k] None \<open>map_of (o_chordNodes orc) a = None\<close> by simp
      then have "map_of (o_nodes orc) a = None" by (cases "map_of (o_nodes orc) a") auto
      with None \<open>map_of (o_chordNodes orc) a = None\<close> show ?thesis by simp
    qed
  qed
  show "map_of (o_chordNodes orc) a = Some h \<Longrightarrow> h = a \<and> Ref (o_chord orc h) = \<lparr>nr_ID = NodeIDFromAddr sha1 a, nr_Addr = a\<rparr>"
    using m(2) r(1) [of h] by (auto simp: objects_ok_def Ref_def selfRef_def net_inv_here node_inv_def)
  show "map_of (o_kadNodes orc) a = Some h \<Longrightarrow> h = a \<and> Kad_Ref (o_kad orc h) = \<lparr>nr_ID = NodeIDFromAddr sha1 a, nr_Addr = a\<rparr>"
    using m(2) r(2) [of h] by (auto simp: objects_ok_def Kad_Ref_def)
  show "map_of (it_registry (o_transport orc)) a = (if map_of (o_nodes orc) a = None then None else Some a)"
    using m(3) by (simp add: transport_ok_def)
qed

text \<open>
  C5. The orchestrator's books. In every run that starts from \<^verbatim>\<open>NewOrchestrator\<close>, of interface calls,
  background work of the nodes, faults and reconfigurations in any order: the ordered address
  list is without duplicates and lists exactly the nodes; every node is of exactly one protocol;
  the transport reaches exactly the listed nodes, so no killed, crashed or half-joined node can
  be called; every listed node has the identifier of its address; and the quorum manager and
  the transport run with the current configuration.
\<close>

theorem orchestrator_books:
  assumes "(orch_step sha1 fuel)\<^sup>*\<^sup>* (NewOrchestrator sha1 rng now cfg) orc"
  shows "distinct (o_nodeAddrs orc) \<and> set (o_nodeAddrs orc) = dom (map_of (o_nodes orc)) \<and>
    dom (map_of (o_nodes orc)) = dom (map_of (o_chordNodes orc)) \<union> dom (map_of (o_kadNodes orc)) \<and>
    dom (map_of (o_chordNodes orc)) \<inter> dom (map_of (o_kadNodes orc)) = {} \<and>
    (\<forall>a. map_of (it_registry (o_transport orc)) a = (if a \<in> set (o_nodeAddrs orc) then Some a else None)) \<and>
    (\<forall>a n. map_of (o_nodes orc) a = Some n \<longrightarrow> node_ref orc n = \<lparr>nr_ID = NodeIDFromAddr sha1 a, nr_Addr = a\<rparr>) \<and>
    o_quorum orc = \<lparr>qc_N = sc_ReplicationN (o_cfg orc), qc_W = sc_WriteQuorum (o_cfg orc), qc_R = sc_ReadQuorum (o_cfg orc)\<rparr> \<and>
    it_lossRate (o_transport orc) = sc_SimLossRate (o_cfg orc)"
proof -
  have inv: "orch_inv sha1 orc" by (rule orch_run_inv [OF assms NewOrchestrator_inv])
  note n = orch_inv_nodes [OF inv]
  from inv have m: "distinct (o_nodeAddrs orc)" "set (o_nodeAddrs orc) = dom (map_of (o_nodes orc))" by (simp_all add: orch_inv_def maps_ok_def)
  have "dom (map_of (o_nodes orc)) = dom (map_of (o_chordNodes orc)) \<union> dom (map_of (o_kadNodes orc))"
    using n(1) by (auto simp: dom_def split: option.splits)
  moreover have "dom (map_of (o_chordNodes orc)) \<inter> dom (map_of (o_kadNodes orc)) = {}" 
  proof -
    have "\<not> (a \<in> dom (map_of (o_chordNodes orc)) \<and> a \<in> dom (map_of (o_kadNodes orc)))" for a using n(2) [of a] by auto
    then show ?thesis by blast
  qed
  moreover have "map_of (it_registry (o_transport orc)) a = (if a \<in> set (o_nodeAddrs orc) then Some a else None)" for a
    using n(5) [of a] m(2) by auto
  moreover have "node_ref orc k = \<lparr>nr_ID = NodeIDFromAddr sha1 a, nr_Addr = a\<rparr>" if "map_of (o_nodes orc) a = Some k" for a k
    using n(1) [of a] n(3,4) [of a] that by (cases "map_of (o_kadNodes orc) a") (auto simp: node_ref_def split: option.splits)
  ultimately show ?thesis using m inv by (auto simp: orch_inv_def transport_ok_def)
qed

theorem orchestrator_books_witness:
  "\<exists>orc. SpawnNode 0 (\<lambda>bs. of_nat (length bs)) id ''x'' (NewOrchestrator (\<lambda>bs. of_nat (length bs)) (\<lambda>_. 0) 0 None) = Some (Inr (orc, Inr (ChordObj ''x''))) \<and>
     map_of (it_registry (o_transport orc)) ''x'' = Some ''x'' \<and> map_of (it_registry (o_transport (fst (CrashNode ''x'' orc)))) ''x'' = None"
proof -
  let ?h = "\<lambda>bs. of_nat (length bs) :: ID" and ?new = "NewOrchestrator (\<lambda>bs. of_nat (length bs)) (\<lambda>_. 0) 0 None"
  have "\<exists>orc. SpawnNode 0 ?h id ''x'' ?new = Some (Inr (orc, Inr (ChordObj ''x''))) \<and> o_nodeAddrs orc = [''x''] \<and> o_nodes orc = [(''x'', ChordObj ''x'')]"
    by (simp add: SpawnNode_def spawnChordNode_def NewOrchestrator_def Sim_DefaultConfig_def Let_def add_chord_node_def with_chord_def gm_put_def)
  then obtain orc where o: "SpawnNode 0 ?h id ''x'' ?new = Some (Inr (orc, Inr (ChordObj ''x'')))" "o_nodeAddrs orc = [''x'']"
    "o_nodes orc = [(''x'', ChordObj ''x'')]" by blast
  note run = r_into_rtranclp [where r = "orch_step ?h 0", OF orch_step.spawn [OF o(1)]]
  note run2 = rtranclp.rtrancl_into_rtrancl [OF run orch_step.crash [of ?h 0 orc "''x''"]]
  have addrs: "o_nodeAddrs (fst (CrashNode ''x'' orc)) = []"
    using o(2,3) by (simp add: CrashNode_def forget_node_def with_chord_def Let_def)
  have "map_of (it_registry (o_transport orc)) ''x'' = Some ''x''"
    using orchestrator_books [OF run] o(2) by simp
  moreover have "map_of (it_registry (o_transport (fst (CrashNode ''x'' orc)))) ''x'' = None"
    using orchestrator_books [OF run2] addrs by simp
  ultimately show ?thesis using o(1) by blast
qed

end
