(* ===== verification/Orch_Clients.thy ===== *)
theory Orch_Clients
  imports Orch_Invariant
begin

text \<open>
  What a client of the orchestrator gets: the replicas of a key are the nodes closest to it in
  the metric of the protocol, a write followed by a read returns the value in a healthy
  cluster of either protocol, a traced lookup ends at the coordinator of the key, a deleted
  key is gone everywhere, and a reset empties the network.
\<close>

section \<open>Where replicas are placed\<close>

lemma take_cyclic_rotate:
  assumes "want \<le> length refs"
  shows "take_cyclic want idx refs = take want (rotate idx refs)"
proof -
  have loop: "fold (\<lambda>i result. if length result < want then result @ [f i] else result) [0..<m] [] = map f [0..<min m want]" for m and f :: "nat \<Rightarrow> 'a"
    by (induction m) (auto simp: min_def not_less le_Suc_eq less_Suc_eq_le)
  have "take_cyclic want idx refs = map (\<lambda>i. refs ! ((idx + i) mod length refs)) [0..<want]"
    using assms unfolding take_cyclic_def by (subst loop) (simp add: min_absorb2)
  also have "\<dots> = take want (rotate idx refs)"
    using assms by (intro nth_equalityI) (simp_all add: nth_rotate add.commute)
  finally show ?thesis .
qed

lemma cw_after: "k \<le> a \<Longrightarrow> a \<le> b \<Longrightarrow> cw k a \<le> cw k b" "a \<le> b \<Longrightarrow> b < k \<Longrightarrow> cw k a \<le> cw k b" "k \<le> a \<Longrightarrow> b < k \<Longrightarrow> cw k a \<le> cw k b"
  for a b k :: ID
proof -
  have u: "uint a < 2 ^ 160" using uint_lt2p [of a] by simp
  show "k \<le> a \<Longrightarrow> a \<le> b \<Longrightarrow> cw k a \<le> cw k b" using cw_uint [of k a] cw_uint [of k b] by (simp add: word_le_def)
  show "a \<le> b \<Longrightarrow> b < k \<Longrightarrow> cw k a \<le> cw k b" using cw_uint [of k a] cw_uint [of k b] by (simp add: word_le_def word_less_def)
  show "k \<le> a \<Longrightarrow> b < k \<Longrightarrow> cw k a \<le> cw k b" 
  proof -
    assume "k \<le> a" "b < k"
    then have "int (cw k a) = uint a - uint k" "int (cw k b) = uint b - uint k + 2 ^ 160"
      by (simp_all add: cw_uint word_le_def word_less_def)
    with u uint_ge_0 [of b] show ?thesis by linarith
  qed
qed

text \<open>Rotating the sorted nodes to the first one at or after the key sorts them clockwise from the key.\<close>

lemma rotated_clockwise:
  assumes "distinct (map nr_ID refs)"
  defines "srt \<equiv> sort_key nr_ID refs"
  shows "rotate (sort_Search (length srt) (\<lambda>i. key \<le> nr_ID (srt ! i)) mod length srt) srt = sort_key (\<lambda>r. cw key (nr_ID r)) refs"
proof -
  define i where "i = sort_Search (length srt) (\<lambda>i. key \<le> nr_ID (srt ! i))"
  have sorted: "sorted (map nr_ID srt)" by (simp add: srt_def)
  note S = sort_Search_sorted [OF sorted, of key, folded i_def]
  have "rotate (i mod length srt) srt = drop i srt @ take i srt"
  proof (cases "i = length srt")
    case False
    with S(1) have "i mod length srt = i" by simp
    then show ?thesis by (metis rotate_drop_take)
  qed simp
  also have "\<dots> = dropWhile (\<lambda>x. nr_ID x < key) srt @ takeWhile (\<lambda>x. nr_ID x < key) srt" using S(2,3) by simp
  finally have rot: "rotate (i mod length srt) srt = dropWhile (\<lambda>x. nr_ID x < key) srt @ takeWhile (\<lambda>x. nr_ID x < key) srt" .
  let ?D = "dropWhile (\<lambda>x. nr_ID x < key) srt" and ?T = "takeWhile (\<lambda>x. nr_ID x < key) srt"
  have "sorted_wrt (\<lambda>x y. nr_ID x \<le> nr_ID y) srt" using sorted by (simp add: sorted_map)
  then have sD: "sorted_wrt (\<lambda>x y. nr_ID x \<le> nr_ID y) ?D" and sT: "sorted_wrt (\<lambda>x y. nr_ID x \<le> nr_ID y) ?T"
    by (simp_all add: sorted_wrt_dropWhile sorted_wrt_takeWhile)
  have D: "key \<le> nr_ID x" if "x \<in> set ?D" for x
  proof (cases ?D)
    case (Cons y ys)
    then have "\<not> nr_ID y < key" by (metis dropWhile_eq_Cons_conv)
    moreover have "nr_ID y \<le> nr_ID x" using sD that Cons by auto
    ultimately show ?thesis by simp
  next
    case Nil
    from that show ?thesis unfolding Nil by simp
  qed
  have T: "nr_ID x < key" if "x \<in> set ?T" for x using set_takeWhileD [OF that] by simp
  have "sorted_wrt (\<lambda>x y. cw key (nr_ID x) \<le> cw key (nr_ID y)) (?D @ ?T)"
    unfolding sorted_wrt_append
    by (auto intro: sorted_wrt_mono_rel [OF _ sD] sorted_wrt_mono_rel [OF _ sT] cw_after D T)
  then have "sorted (map (\<lambda>r. cw key (nr_ID r)) (?D @ ?T))" by (simp only: sorted_map)
  moreover have "mset (?D @ ?T) = mset refs"
  proof -
    have "mset (?D @ ?T) = mset (?T @ ?D)" by (simp only: mset_append add.commute)
    also have "\<dots> = mset srt" by (simp only: takeWhile_dropWhile_id)
    finally show ?thesis by (simp add: srt_def)
  qed
  moreover have "inj_on (\<lambda>r. cw key (nr_ID r)) (set refs)" using assms(1) by (auto simp: inj_on_def cw_inj distinct_map)
  ultimately have "sort_key (\<lambda>r. cw key (nr_ID r)) refs = ?D @ ?T" by (intro sort_key_inj_key_eq) auto
  with rot show ?thesis by (simp add: i_def)
qed

text \<open>The nodes of the configured protocol and their distance from a key.\<close>

definition orch_refs :: "Orchestrator \<Rightarrow> NodeRef list" where
  "orch_refs orc =
     (if sc_Protocol (o_cfg orc) = ''chord'' then map (\<lambda>(_, h). Ref (o_chord orc h)) (o_chordNodes orc)
      else map (\<lambda>(_, h). Kad_Ref (o_kad orc h)) (o_kadNodes orc))"

definition placement_distance :: "Orchestrator \<Rightarrow> ID \<Rightarrow> NodeRef \<Rightarrow> int" where
  "placement_distance orc key r =
     (if sc_Protocol (o_cfg orc) = ''chord'' then int (cw key (nr_ID r)) else XORDistance (nr_ID r) key)"

lemma distance_inj: "placement_distance orc key r = placement_distance orc key s \<longleftrightarrow> nr_ID r = nr_ID s"
  by (auto simp: placement_distance_def cw_inj XORDistance_inject)

lemma orch_refs_distinct:
  assumes "orch_inv sha1 orc" "inj_on (NodeIDFromAddr sha1) (set (o_nodeAddrs orc))"
  shows "distinct (map nr_ID (orch_refs orc))"
proof -
  note n = orch_inv_nodes [OF assms(1)]
  from assms(1) have wf: "gm_wf (o_chordNodes orc)" "gm_wf (o_kadNodes orc)" and dom: "set (o_nodeAddrs orc) = dom (map_of (o_nodes orc))"
    by (simp_all add: orch_inv_def maps_ok_def)
  have ids: "distinct (map nr_ID (map (\<lambda>(_, h). f h) xs))"
    if "gm_wf xs" "\<And>a h. map_of xs a = Some h \<Longrightarrow> nr_ID (f h) = NodeIDFromAddr sha1 a \<and> a \<in> set (o_nodeAddrs orc)"
    for xs :: "(string, string) gomap" and f :: "string \<Rightarrow> NodeRef"
  proof -
    have e: "nr_ID (f h) = NodeIDFromAddr sha1 a \<and> a \<in> set (o_nodeAddrs orc)" if "(a, h) \<in> set xs" for a h
      using that \<open>gm_wf xs\<close> \<open>\<And>a h. map_of xs a = Some h \<Longrightarrow> nr_ID (f h) = NodeIDFromAddr sha1 a \<and> a \<in> set (o_nodeAddrs orc)\<close>
      by (simp add: gm_wf_def)
    then have "map nr_ID (map (\<lambda>(_, h). f h) xs) = map (NodeIDFromAddr sha1) (map fst xs)" by auto
    moreover have "distinct (map (NodeIDFromAddr sha1) (map fst xs))"
      unfolding distinct_map [of _ "map fst xs"]
      using \<open>gm_wf xs\<close> e by (auto simp: gm_wf_def intro!: inj_on_subset [OF assms(2)])
    ultimately show ?thesis by (simp only:)
  qed
  have "a \<in> set (o_nodeAddrs orc)" if "map_of (o_chordNodes orc) a = Some h \<or> map_of (o_kadNodes orc) a = Some h" for a h
    using that n(1) [of a] by (auto simp: dom split: option.splits)
  then show ?thesis
    using ids [OF wf(1), of "\<lambda>h. Ref (o_chord orc h)"] ids [OF wf(2), of "\<lambda>h. Kad_Ref (o_kad orc h)"] n(3,4)
    by (fastforce simp: orch_refs_def)
qed

lemma sorted_wrt_less_key: "sorted (map f xs) \<Longrightarrow> distinct (map f xs) \<Longrightarrow> sorted_wrt (\<lambda>x y. f x < f y) xs"
  for f :: "'a \<Rightarrow> 'k::linorder"
  using strict_sorted_iff [of "map f xs"] by (simp add: sorted_wrt_map)

text \<open>The replicas as a function of the references.\<close>

lemma findReplicas_refs:
  "findReplicas orc key =
     (let refs = orch_refs orc; N = sc_ReplicationN (o_cfg orc); srt = sort_key nr_ID refs in
      if refs = [] then Inr [] else if N < 0 then Inl Panic
      else Inr (if sc_Protocol (o_cfg orc) = ''chord''
        then take_cyclic (min (nat N) (length refs)) (sort_Search (length srt) (\<lambda>i. key \<le> nr_ID (srt ! i)) mod length srt) srt
        else take (nat N) (sort_key (placement_distance orc key) refs)))"
proof -
  have srt: "sort_Slice (\<lambda>x y. nr_ID x < nr_ID y) xs = sort_key nr_ID xs" for xs
    by (rule sort_Slice_key) simp
  have dist: "sort_Slice (\<lambda>x y. XORDistance (nr_ID x) key < XORDistance (nr_ID y) key) xs = sort_key (placement_distance orc key) xs"
    if "sc_Protocol (o_cfg orc) \<noteq> ''chord''" for xs
    using that by (intro sort_Slice_key) (simp add: placement_distance_def)
  have cmp: "big_Cmp x y < 0 \<longleftrightarrow> x < y" for x y by (simp add: big_Cmp_def)
  have want: "nat (if int n < N then int n else N) = min (nat N) n" "(if int n < N then int n else N) < 0 \<longleftrightarrow> N < 0" for n N by auto
  have len: "length (o_chordNodes orc) = length (orch_refs orc)" if "sc_Protocol (o_cfg orc) = ''chord''" using that by (simp add: orch_refs_def)
  have len': "length (o_kadNodes orc) = length (orch_refs orc)" if "sc_Protocol (o_cfg orc) \<noteq> ''chord''" using that by (simp add: orch_refs_def)
  show ?thesis
  proof (cases "sc_Protocol (o_cfg orc) = ''chord''")
    case True
    then have refs: "map (\<lambda>(_, h). Ref (o_chord orc h)) (o_chordNodes orc) = orch_refs orc" by (simp add: orch_refs_def)
    have "o_chordNodes orc = [] \<longleftrightarrow> orch_refs orc = []" using True by (simp add: orch_refs_def)
    with True show ?thesis
      by (simp only: findReplicas_def findChordReplicas_def Let_def refs Compare_less Compare_ge srt want len length_sort simp_thms if_True)
  next
    case False
    then have refs: "map (\<lambda>(_, h). Kad_Ref (o_kad orc h)) (o_kadNodes orc) = orch_refs orc" by (simp add: orch_refs_def)
    have "take (min (nat N) n) xs = take (nat N) xs" if "length xs = n" for N n and xs :: "NodeRef list" using that by (auto simp: min_def)
    moreover have "o_kadNodes orc = [] \<longleftrightarrow> orch_refs orc = []" using False by (simp add: orch_refs_def)
    ultimately show ?thesis using False
      by (simp only: findReplicas_def findKadReplicas_def Let_def refs cmp dist [OF False] want length_sort if_False)
  qed
qed

lemma findReplicas_sorted:
  assumes "distinct (map nr_ID (orch_refs orc))" "0 \<le> sc_ReplicationN (o_cfg orc)"
  shows "findReplicas orc key = Inr (take (nat (sc_ReplicationN (o_cfg orc))) (sort_key (placement_distance orc key) (orch_refs orc)))"
proof (cases "sc_Protocol (o_cfg orc) = ''chord''")
  case True
  let ?refs = "orch_refs orc"
  have "sort_key (placement_distance orc key) ?refs = sort_key (\<lambda>r. cw key (nr_ID r)) ?refs"
  proof (rule sort_key_inj_key_eq)
    show "inj_on (placement_distance orc key) (set ?refs)" using assms(1) by (auto simp: inj_on_def distance_inj distinct_map)
    show "sorted (map (placement_distance orc key) (sort_key (\<lambda>r. cw key (nr_ID r)) ?refs))"
      using True sorted_sort_key [of "\<lambda>r. cw key (nr_ID r)" ?refs] by (simp add: placement_distance_def sorted_map)
  qed simp
  moreover have "take (min (nat N) (length ?refs)) xs = take (nat N) xs" if "length xs = length ?refs" for N and xs :: "NodeRef list"
    using that by (auto simp: min_def)
  ultimately show ?thesis
    using assms(2) True rotated_clockwise [OF assms(1), of key]
    by (simp add: findReplicas_refs Let_def take_cyclic_rotate)
qed (use assms(2) in \<open>simp add: findReplicas_refs Let_def\<close>)

text \<open>Without distinct identifiers the number of replicas and their membership still hold.\<close>

lemma findReplicas_some:
  assumes "0 \<le> sc_ReplicationN (o_cfg orc)"
  shows "\<exists>rs. findReplicas orc key = Inr rs \<and> length rs = min (nat (sc_ReplicationN (o_cfg orc))) (length (orch_refs orc)) \<and>
    set rs \<subseteq> set (orch_refs orc)"
proof -
  let ?srt = "sort_key nr_ID (orch_refs orc)" and ?n = "min (nat (sc_ReplicationN (o_cfg orc))) (length (orch_refs orc))"
  have "length (take_cyclic ?n i ?srt) = ?n \<and> set (take_cyclic ?n i ?srt) \<subseteq> set (orch_refs orc)" for i
    using set_take_subset [of ?n "rotate i ?srt"] by (simp add: take_cyclic_rotate)
  moreover have "set (take n (sort_key f (orch_refs orc))) \<subseteq> set (orch_refs orc)" for n and f :: "NodeRef \<Rightarrow> int"
    using set_take_subset [of n "sort_key f (orch_refs orc)"] by simp
  ultimately show ?thesis using assms by (simp add: findReplicas_refs Let_def min.commute)
qed

lemma findReplicas_cong:
  "orch_refs orc' = orch_refs orc \<Longrightarrow> o_cfg orc' = o_cfg orc \<Longrightarrow> findReplicas orc' key = findReplicas orc key"
  by (simp add: findReplicas_refs Let_def placement_distance_def [abs_def])

text \<open>
  C7. Placement. In every reachable state whose nodes have distinct identifiers, the replicas of
  a key are the \<open>N\<close> nodes of the protocol that are closest to it - clockwise distance in Chord,
  XOR distance in Kademlia - or all nodes when there are fewer: strictly sorted by the distance,
  with every other node farther than each of them. The order in which Go iterates over the node
  map does not matter, so that a write and a later read use the same replicas.
\<close>

theorem replicas_closest:
  assumes "(orch_step sha1 fuel)\<^sup>*\<^sup>* (NewOrchestrator sha1 rng now cfg) orc"
    and "inj_on (NodeIDFromAddr sha1) (set (o_nodeAddrs orc))" "0 \<le> sc_ReplicationN (o_cfg orc)"
  shows "\<exists>rs. findReplicas orc key = Inr rs \<and> length rs = min (nat (sc_ReplicationN (o_cfg orc))) (length (orch_refs orc)) \<and>
    set rs \<subseteq> set (orch_refs orc) \<and>
    sorted_wrt (\<lambda>r s. placement_distance orc key r < placement_distance orc key s) rs \<and>
    (\<forall>r \<in> set rs. \<forall>s \<in> set (orch_refs orc) - set rs. placement_distance orc key r < placement_distance orc key s) \<and>
    (\<forall>cs ks. mset cs = mset (o_chordNodes orc) \<and> mset ks = mset (o_kadNodes orc) \<longrightarrow>
       findReplicas (orc\<lparr>o_chordNodes := cs, o_kadNodes := ks\<rparr>) key = Inr rs)"
proof -
  let ?refs = "orch_refs orc" and ?d = "placement_distance orc key" and ?n = "nat (sc_ReplicationN (o_cfg orc))"
  have inv: "orch_inv sha1 orc" by (rule orch_run_inv [OF assms(1) NewOrchestrator_inv])
  have D: "distinct (map nr_ID ?refs)" by (rule orch_refs_distinct [OF inv assms(2)])
  have inj: "inj_on ?d (set ?refs)" using D by (auto simp: inj_on_def distance_inj distinct_map)
  let ?srt = "sort_key ?d ?refs"
  have srt: "sorted_wrt (\<lambda>r s. ?d r < ?d s) ?srt"
  proof (rule sorted_wrt_less_key)
    show "distinct (map ?d ?srt)" using inj D by (simp add: distinct_map)
  qed simp
  have split: "sorted_wrt (\<lambda>r s. ?d r < ?d s) (take ?n ?srt @ drop ?n ?srt)" using srt by simp
  note sorted = split [unfolded sorted_wrt_append]
  have "set ?refs - set (take ?n ?srt) \<subseteq> set (drop ?n ?srt)"
    using set_append [of "take ?n ?srt" "drop ?n ?srt"] by auto
  moreover have "findReplicas (orc\<lparr>o_chordNodes := cs, o_kadNodes := ks\<rparr>) key = Inr (take ?n ?srt)"
    if "mset cs = mset (o_chordNodes orc)" "mset ks = mset (o_kadNodes orc)" for cs ks
  proof -
    let ?o = "orc\<lparr>o_chordNodes := cs, o_kadNodes := ks\<rparr>"
    have m: "mset (orch_refs ?o) = mset ?refs" using that by (simp add: orch_refs_def)
    from this have d: "distinct (map nr_ID (orch_refs ?o))" using D by (metis mset_map mset_eq_imp_distinct_iff)
    have dist: "placement_distance ?o key = ?d" by (simp add: placement_distance_def [abs_def])
    have "sort_key ?d (orch_refs ?o) = ?srt"
      by (rule sort_key_inj_key_eq) (use m inj in \<open>simp_all add: mset_eq_setD [OF m]\<close>)
    then show ?thesis using findReplicas_sorted [OF d, of key] assms(3) by (simp add: dist)
  qed
  ultimately show ?thesis
    using findReplicas_sorted [OF D assms(3), of key] sorted set_take_subset [of ?n ?srt]
    by (auto simp: min.commute)
qed

text \<open>A network of one node, for the witnesses.\<close>

definition demo_hash :: sha1_fn where
  "demo_hash bs = of_nat (length bs)"

definition demo_new :: "string \<Rightarrow> Orchestrator" where
  "demo_new p = NewOrchestrator demo_hash (\<lambda>_. 0) 0 (Some (Sim_DefaultConfig\<lparr>sc_Protocol := p, sc_WriteQuorum := 1, sc_ReadQuorum := 1\<rparr>))"

definition demo_net :: "string \<Rightarrow> Orchestrator" where
  "demo_net p = (case SpawnNode 0 demo_hash id ''x'' (demo_new p) of Some (Inr (orc, _)) \<Rightarrow> orc | _ \<Rightarrow> demo_new p)"

lemma demo_spawn:
  assumes "p = ''chord'' \<or> p = ''kademlia''"
  shows "\<exists>n. SpawnNode 0 demo_hash id ''x'' (demo_new p) = Some (Inr (demo_net p, Inr n))"
    and "o_nodeAddrs (demo_net p) = [''x'']" "length (orch_refs (demo_net p)) = 1" "o_cfg (demo_net p) = o_cfg (demo_new p)"
    "it_partitions (o_transport (demo_net p)) = []" "it_lossRate (o_transport (demo_net p)) = 0"
  using assms
  by (auto simp: demo_net_def demo_new_def SpawnNode_def spawnChordNode_def spawnKadNode_def NewOrchestrator_def Sim_DefaultConfig_def
      Let_def add_chord_node_def add_kad_node_def with_chord_def with_kad_def gm_put_def orch_refs_def CreateRing_def CreateNetwork_def
      kad_emit_def emit_def upd_node_def chord_net_def kad_net_def NewInProcessTransport_def Register_def)

lemma demo_run:
  assumes "p = ''chord'' \<or> p = ''kademlia''"
  shows "(orch_step demo_hash 0)\<^sup>*\<^sup>* (demo_new p) (demo_net p)"
proof -
  obtain n where "SpawnNode 0 demo_hash id ''x'' (demo_new p) = Some (Inr (demo_net p, Inr n))" using demo_spawn(1) [OF assms] by blast
  then show ?thesis by (intro r_into_rtranclp orch_step.spawn)
qed

theorem replicas_closest_witness:
  "\<exists>r. findReplicas (demo_net ''kademlia'') 5 = Inr [r] \<and> r \<in> set (orch_refs (demo_net ''kademlia''))"
proof -
  have run: "(orch_step demo_hash 0)\<^sup>*\<^sup>* (NewOrchestrator demo_hash (\<lambda>_. 0) 0
      (Some (Sim_DefaultConfig\<lparr>sc_Protocol := ''kademlia'', sc_WriteQuorum := 1, sc_ReadQuorum := 1\<rparr>))) (demo_net ''kademlia'')"
    using demo_run [of "''kademlia''"] by (simp add: demo_new_def)
  have N: "sc_ReplicationN (o_cfg (demo_net ''kademlia'')) = 3"
    by (simp add: demo_spawn(4) demo_new_def NewOrchestrator_def Sim_DefaultConfig_def Let_def)
  obtain rs where rs: "findReplicas (demo_net ''kademlia'') 5 = Inr rs" "length rs = 1" "set rs \<subseteq> set (orch_refs (demo_net ''kademlia''))"
    using replicas_closest [OF run, of 5] N demo_spawn(2,3) [of "''kademlia''"] by auto
  then obtain r where "rs = [r]" by (auto simp: length_Suc_conv)
  with rs show ?thesis by auto
qed

section \<open>A write and a read\<close>

text \<open>Operations that keep the identities of the nodes keep the placement of keys.\<close>

lemma orch_refs_with_chord: "chord_here orc net \<Longrightarrow> orch_refs (with_chord net orc) = orch_refs orc"
  by (auto simp: orch_refs_def chord_frame_def chord_idents_def with_chord_def Ref_def selfRef_def)

lemma orch_refs_with_kad: "kad_here sha1 orc net \<Longrightarrow> orch_refs (with_kad net orc) = orch_refs orc"
  by (auto simp: orch_refs_def kad_frame_def kad_idents_def with_kad_def Kad_Ref_def)

lemma orch_refs_registered:
  assumes "orch_inv sha1 orc" "r \<in> set (orch_refs orc)"
  shows "map_of (it_registry (o_transport orc)) (nr_Addr r) = Some (nr_Addr r)"
proof -
  note n = orch_inv_nodes [OF assms(1)]
  from assms(1) have wf: "gm_wf (o_chordNodes orc)" "gm_wf (o_kadNodes orc)" by (simp_all add: orch_inv_def maps_ok_def)
  have "\<exists>a. nr_Addr r = a \<and> map_of (o_nodes orc) a \<noteq> None"
  proof (cases "sc_Protocol (o_cfg orc) = ''chord''")
    case True
    with assms(2) obtain a h where "(a, h) \<in> set (o_chordNodes orc)" "r = Ref (o_chord orc h)" by (auto simp: orch_refs_def)
    with wf n(1,3) [of a] show ?thesis by (auto simp: gm_wf_def)
  next
    case False
    with assms(2) obtain a h where a: "(a, h) \<in> set (o_kadNodes orc)" "r = Kad_Ref (o_kad orc h)" by (auto simp: orch_refs_def)
    then have "map_of (o_kadNodes orc) a = Some h" using wf by (simp add: gm_wf_def)
    with a n(1,2,4) [of a] show ?thesis by (auto split: option.splits)
  qed
  with n(5) [of "nr_Addr r"] show ?thesis by auto
qed

text \<open>In a healthy cluster a quorum write succeeds and a quorum read after it finds the value.\<close>

lemma quorum_write_read:
  assumes inv: "orch_inv sha1 orc" and rel: "reliable (o_transport orc)" and rs: "rs \<noteq> []" "set rs \<subseteq> set (orch_refs orc)"
    and quorums: "qc_W (o_quorum orc) \<le> int (length rs)" "qc_R (o_quorum orc) \<le> int (length rs)"
    and sched: "\<forall>xs. mset (sched xs) = mset xs" "\<forall>xs. mset (sched' xs) = mset xs"
    and w: "quorum_write sha1 sched rs key v who orc = (orc1, x)"
  shows "x = Inr ()" "orch_refs orc1 = orch_refs orc" "o_cfg orc1 = o_cfg orc"
    "\<exists>e. snd (quorum_read sha1 sched' rs key (orc1\<lparr>o_keyStrings := ks\<rparr>)) = Inr (Some e) \<and> Value e = v"
proof -
  have up: "map_of (it_registry (o_transport orc)) (nr_Addr r) = Some (nr_Addr r)" if "r \<in> set rs" for r
    using orch_refs_registered [OF inv] rs(2) that by blast
  have qm: "qm_FindReplicas (orch_manager rs orc) k s = rs" "qm_Config (orch_manager rs orc) = o_quorum orc" for k and s :: 's
    by (simp_all add: orch_manager_def NewQuorumManager_def Let_def)
  have all: "x = Inr () \<and> orch_refs orc1 = orch_refs orc \<and> o_cfg orc1 = o_cfg orc \<and>
    (\<exists>e. snd (quorum_read sha1 sched' rs key (orc1\<lparr>o_keyStrings := ks\<rparr>)) = Inr (Some e) \<and> Value e = v)"
  proof (cases "sc_Protocol (o_cfg orc) = ''chord''")
    case True
    let ?q = "orch_manager rs orc :: ChordNet QuorumManager"
    obtain net y where wr: "Write chord_env ?q sched key v who (chord_net orc) = (net, y)" by fastforce
    from here(1,2) [OF inv] have "net_inv sha1 (chord_net orc) \<and> chord_here orc (chord_net orc)" by simp
    note kept = ck.Write_kept [OF wr clusters_here(1) [OF inv] this]
    have "\<forall>r \<in> set (qm_FindReplicas ?q key (chord_net orc)). chord_up (chord_net orc) (nr_Addr r)"
      using up rel by (simp add: qm chord_up_def chord_net_def)
    note wtr = cq.write_then_read [OF clusters_here(1) [OF inv] this _ sched _ _ wr]
    from wtr(1) wtr(2) [where h = "o_history orc"]
    obtain t where "y = Inr ()"
      and rd: "snd (Read chord_env ?q sched' key (net, o_history orc)) = Inr (Some (written_entry chord_env ?q key v who (chord_net orc)), Some t)"
      using rs(1) quorums by (auto simp: qm)
    have o1: "orc1 = with_chord net orc" "x = y" using w True wr by (simp_all add: quorum_write_def)
    have q1: "orch_manager rs (orc1\<lparr>o_keyStrings := ks\<rparr>) = ?q" "chord_net (orc1\<lparr>o_keyStrings := ks\<rparr>) = net"
      "sc_Protocol (o_cfg orc1) = ''chord''" "o_history orc1 = o_history orc"
      using True by (simp_all add: o1 orch_manager_def with_chord_def chord_net_def)
    have "\<exists>e. snd (quorum_read sha1 sched' rs key (orc1\<lparr>o_keyStrings := ks\<rparr>)) = Inr (Some e) \<and> Value e = v"
      using rd by (auto simp: quorum_read_def q1 queue_repair_def split: prod.splits)
    with \<open>y = Inr ()\<close> o1 kept orch_refs_with_chord show ?thesis by (auto simp: with_chord_def)
  next
    case False
    let ?q = "orch_manager rs orc :: KadNet QuorumManager"
    obtain net y where wr: "Write (kad_env sha1) ?q sched key v who (kad_net orc) = (net, y)" by fastforce
    note kept = kk.Write_kept [OF wr clusters_here(2) [OF inv] here(3) [OF inv]]
    have "\<forall>r \<in> set (qm_FindReplicas ?q key (kad_net orc)). kad_up (kad_net orc) (nr_Addr r)"
      using up rel by (simp add: qm kad_up_def kad_net_def)
    note wtr = kq.write_then_read [OF clusters_here(2) [OF inv] this _ sched _ _ wr]
    from wtr(1) wtr(2) [where h = "o_history orc"]
    obtain t where "y = Inr ()"
      and rd: "snd (Read (kad_env sha1) ?q sched' key (net, o_history orc)) = Inr (Some (written_entry (kad_env sha1) ?q key v who (kad_net orc)), Some t)"
      using rs(1) quorums by (auto simp: qm)
    have o1: "orc1 = with_kad net orc" "x = y" using w False wr by (simp_all add: quorum_write_def)
    have q1: "orch_manager rs (orc1\<lparr>o_keyStrings := ks\<rparr>) = ?q" "kad_net (orc1\<lparr>o_keyStrings := ks\<rparr>) = net"
      "sc_Protocol (o_cfg orc1) \<noteq> ''chord''" "o_history orc1 = o_history orc"
      using False by (simp_all add: o1 orch_manager_def with_kad_def kad_net_def)
    have "\<exists>e. snd (quorum_read sha1 sched' rs key (orc1\<lparr>o_keyStrings := ks\<rparr>)) = Inr (Some e) \<and> Value e = v"
      using rd by (auto simp: quorum_read_def q1 queue_repair_def split: prod.splits)
    with \<open>y = Inr ()\<close> o1 kept orch_refs_with_kad show ?thesis by (auto simp: with_kad_def)
  qed
  then show "x = Inr ()" "orch_refs orc1 = orch_refs orc" "o_cfg orc1 = o_cfg orc"
    "\<exists>e. snd (quorum_read sha1 sched' rs key (orc1\<lparr>o_keyStrings := ks\<rparr>)) = Inr (Some e) \<and> Value e = v" by blast+
qed

text \<open>
  C4. A write and a read through the whole system. In every reachable state of either protocol
  whose transport has no loss and no partition and whose quorums can be met by the nodes there
  are, \<^verbatim>\<open>Insert\<close> succeeds, in whatever order the replicas answer, records the key's string, and a
  \<^verbatim>\<open>Read\<close> of the key that follows returns the bytes of the value.
\<close>

theorem insert_then_read:
  assumes "(orch_step sha1 fuel)\<^sup>*\<^sup>* (NewOrchestrator sha1 rng now cfg) orc"
    and "reliable (o_transport orc)" "orch_refs orc \<noteq> []" "0 < sc_ReplicationN (o_cfg orc)"
    and "sc_WriteQuorum (o_cfg orc) \<le> min (sc_ReplicationN (o_cfg orc)) (int (length (orch_refs orc)))"
    and "sc_ReadQuorum (o_cfg orc) \<le> min (sc_ReplicationN (o_cfg orc)) (int (length (orch_refs orc)))"
    and "\<forall>xs. mset (sched xs) = mset xs" "\<forall>xs. mset (sched' xs) = mset xs"
  shows "\<exists>orc1. Insert sha1 sched key v orc = Inr (orc1, Inr ()) \<and>
    map_of (o_keyStrings orc1) (KeyID sha1 key) = Some key \<and>
    (\<exists>orc2. Orch_Read sha1 sched' key orc1 = Inr (orc2, Inr (string_bytes v)))"
proof -
  let ?k = "KeyID sha1 key"
  have inv: "orch_inv sha1 orc" by (rule orch_run_inv [OF assms(1) NewOrchestrator_inv])
  then have q: "qc_W (o_quorum orc) = sc_WriteQuorum (o_cfg orc)" "qc_R (o_quorum orc) = sc_ReadQuorum (o_cfg orc)"
    by (simp_all add: orch_inv_def transport_ok_def)
  obtain rs where rs: "findReplicas orc ?k = Inr rs" "length rs = min (nat (sc_ReplicationN (o_cfg orc))) (length (orch_refs orc))"
    "set rs \<subseteq> set (orch_refs orc)"
    using findReplicas_some [of orc ?k] assms(4) by auto
  then have ne: "rs \<noteq> []" using assms(3,4) by (auto simp: min_def split: if_splits)
  obtain orc1 x where w: "quorum_write sha1 sched rs ?k (string_bytes v) ''gateway'' orc = (orc1, x)" by fastforce
  have len: "int (length rs) = min (sc_ReplicationN (o_cfg orc)) (int (length (orch_refs orc)))"
    using rs(2) assms(4) by (auto simp: min_def)
  note wr = quorum_write_read [OF inv assms(2) ne rs(3) _ _ assms(7,8) w, unfolded q len, OF assms(5,6)]
  let ?orc1 = "orc1\<lparr>o_keyStrings := gm_put ?k key (o_keyStrings orc1)\<rparr>"
  have "Insert sha1 sched key v orc = Inr (?orc1, Inr ())" using rs(1) w wr(1) by (simp add: Insert_def)
  moreover have "\<exists>orc2. Orch_Read sha1 sched' key ?orc1 = Inr (orc2, Inr (string_bytes v))"
  proof -
    obtain e where e: "snd (quorum_read sha1 sched' rs ?k ?orc1) = Inr (Some e)" "Value e = string_bytes v"
      using wr(4) by blast
    obtain orc2 where "quorum_read sha1 sched' rs ?k ?orc1 = (orc2, Inr (Some e))" using e(1) by (metis prod.collapse)
    moreover have "orch_refs ?orc1 = orch_refs orc1" by (simp add: orch_refs_def)
    then have "findReplicas ?orc1 ?k = Inr rs" using findReplicas_cong [of ?orc1 orc ?k] wr(2,3) rs(1) by simp
    ultimately show ?thesis using e(2) by (simp add: Orch_Read_def)
  qed
  ultimately show ?thesis by auto
qed

theorem insert_then_read_witness:
  "\<exists>orc1 orc2. Insert demo_hash rev ''k'' ''v'' (demo_net ''chord'') = Inr (orc1, Inr ()) \<and>
     Orch_Read demo_hash rev ''k'' orc1 = Inr (orc2, Inr (string_bytes ''v''))"
proof -
  let ?p = "''chord''"
  have run: "(orch_step demo_hash 0)\<^sup>*\<^sup>* (NewOrchestrator demo_hash (\<lambda>_. 0) 0
      (Some (Sim_DefaultConfig\<lparr>sc_Protocol := ''chord'', sc_WriteQuorum := 1, sc_ReadQuorum := 1\<rparr>))) (demo_net ''chord'')"
    using demo_run [of ?p] by (simp add: demo_new_def)
  have cfg: "sc_ReplicationN (o_cfg (demo_net ?p)) = 3" "sc_WriteQuorum (o_cfg (demo_net ?p)) = 1" "sc_ReadQuorum (o_cfg (demo_net ?p)) = 1"
    by (simp_all add: demo_spawn(4) demo_new_def NewOrchestrator_def Sim_DefaultConfig_def Let_def)
  have "reliable (o_transport (demo_net ?p))" by (simp add: reliable_def demo_spawn(5,6))
  moreover have "orch_refs (demo_net ?p) \<noteq> []" using demo_spawn(3) [of ?p] by auto
  ultimately show ?thesis
    using insert_then_read [OF run, of rev rev "''k''" "''v''"] cfg demo_spawn(3) [of ?p] by auto
qed

section \<open>A traced lookup\<close>

lemma chord_refs_in:
  assumes "maps_ok orc" "sc_Protocol (o_cfg orc) = ''chord''" "consistent_ring (chord_net orc) (dom (map_of (o_chordNodes orc)))"
  shows "set (orch_refs orc) = {r. ref_in (chord_net orc) (dom (map_of (o_chordNodes orc))) r}" "distinct (map nr_ID (orch_refs orc))"
proof -
  let ?net = "chord_net orc" and ?M = "dom (map_of (o_chordNodes orc))"
  from assms(1) have wf: "gm_wf (o_chordNodes orc)" and h: "map_of (o_chordNodes orc) a = Some h \<Longrightarrow> h = a" for a h
    unfolding maps_ok_def by blast+
  have reg: "inj_on (nid ?net) ?M" "a \<in> ?M \<Longrightarrow> cn_Addr (o_chord orc a) = a" for a
    using assms(3) by (auto simp: consistent_ring_def registered_def chord_net_def)
  have mem: "(a, h) \<in> set (o_chordNodes orc) \<longleftrightarrow> h = a \<and> a \<in> ?M" for a h
    using h [of a] wf by (auto simp: gm_wf_def dest: map_of_SomeD)
  have ref: "Ref (o_chord orc a) = \<lparr>nr_ID = nid ?net a, nr_Addr = a\<rparr>" if "a \<in> ?M" for a
    using reg(2) [OF that] by (simp add: Ref_def selfRef_def chord_net_def)
  have "set (orch_refs orc) = (\<lambda>a. Ref (o_chord orc a)) ` ?M"
    using assms(2) mem by (force simp: orch_refs_def image_iff)
  also have "\<dots> = {r. ref_in ?net ?M r}"
  proof (intro set_eqI iffI)
    fix r assume "r \<in> {r. ref_in ?net ?M r}"
    then have "nr_Addr r \<in> ?M" "r = Ref (o_chord orc (nr_Addr r))" using ref [of "nr_Addr r"] by (auto simp: ref_in_def)
    then show "r \<in> (\<lambda>a. Ref (o_chord orc a)) ` ?M" by blast
  qed (auto simp: ref_in_def ref)
  finally show "set (orch_refs orc) = {r. ref_in ?net ?M r}" .
  have "map nr_ID (orch_refs orc) = map (nid ?net) (map fst (o_chordNodes orc))"
    using assms(2) mem by (auto simp: orch_refs_def chord_net_def Ref_def selfRef_def)
  moreover have "set (map fst (o_chordNodes orc)) \<subseteq> ?M" by (auto simp: dom_map_of_conv_image_fst)
  ultimately show "distinct (map nr_ID (orch_refs orc))"
    using wf by (simp add: distinct_map gm_wf_def inj_on_subset [OF reg(1)] del: map_map)
qed

lemma coordinator_owner:
  assumes "maps_ok orc" "sc_Protocol (o_cfg orc) = ''chord''" "consistent_ring (chord_net orc) (dom (map_of (o_chordNodes orc)))"
    and "owner_ref (chord_net orc) (dom (map_of (o_chordNodes orc))) x r" "0 < sc_ReplicationN (o_cfg orc)"
  shows "\<exists>rs. findReplicas orc x = Inr (r # rs)"
proof -
  note refs = chord_refs_in [OF assms(1-3)]
  let ?srt = "sort_key (placement_distance orc x) (orch_refs orc)"
  from assms(4) refs have r: "r \<in> set (orch_refs orc)" "\<forall>s \<in> set (orch_refs orc). placement_distance orc x r \<le> placement_distance orc x s"
    using assms(2) by (auto simp: owner_ref_def ref_in_def placement_distance_def)
  then obtain s ss where srt: "?srt = s # ss" by (metis empty_iff list.exhaust list.set(1) set_sort)
  have "s \<in> set ?srt" using srt by simp
  then have s: "s \<in> set (orch_refs orc)" by simp
  have "placement_distance orc x s \<le> placement_distance orc x r"
  proof -
    have "r \<in> set (s # ss)" using r(1) srt [symmetric] by simp
    moreover have "sorted (map (placement_distance orc x) (s # ss))" unfolding srt [symmetric] by simp
    ultimately show ?thesis by auto
  qed
  with r(2) s have "placement_distance orc x s = placement_distance orc x r" by force
  then have "nr_ID s = nr_ID r" by (simp add: distance_inj)
  with refs(2) s r(1) have "s = r" by (auto simp: distinct_map inj_on_def)
  moreover obtain n where "nat (sc_ReplicationN (o_cfg orc)) = Suc n" using assms(5) by (cases "nat (sc_ReplicationN (o_cfg orc))") auto
  ultimately show ?thesis using findReplicas_sorted [OF refs(2), of x] srt assms(5) by simp
qed

text \<open>
  C6. Routing agrees with placement. When the ring of the Chord nodes of the orchestrator is
  consistent and the identifier of the key is not that of the first node, a traced lookup of
  the key, which routes from the first node over successors and fingers, returns and names as its
  target exactly the first replica that reads and writes of the key use, which are placed by the
  global view; it counts the hops it reports and changes no node. (A node answers a lookup
  of its own identifier with its successor: the exception is real.)
\<close>

theorem lookup_finds_coordinator:
  assumes "maps_ok orc" "sc_Protocol (o_cfg orc) = ''chord''" "0 < sc_ReplicationN (o_cfg orc)"
    and "o_nodes orc = (a, ChordObj a) # ns"
    and "consistent_ring (chord_net orc) (dom (map_of (o_chordNodes orc)))"
    and "cn_ID (o_chord orc a) \<noteq> KeyID sha1 key" "card (dom (map_of (o_chordNodes orc))) \<le> fuel"
  shows "\<exists>orc' tr r rs. Lookup fuel sched sha1 key orc = Some (Inr (orc', Inr tr)) \<and>
    findReplicas orc (KeyID sha1 key) = Inr (r # rs) \<and> tr_TargetNode tr = IDToHex (nr_ID r) \<and>
    tr_KeyHash tr = IDToHex (KeyID sha1 key) \<and> tr_TotalHops tr = int (length (tr_Hops tr)) \<and> o_chord orc' = o_chord orc"
proof -
  let ?x = "KeyID sha1 key" and ?M = "dom (map_of (o_chordNodes orc))"
  let ?orc1 = "orch_publish EventLookupStart (LookupStartPayload key (IDToHex ?x) (IDToHex (nr_ID (node_ref orc (ChordObj a))))) orc"
  have a: "a \<in> ?M" using assms(1,4) unfolding maps_ok_def by (metis Node.inject(1) Node.distinct(1) domI map_of_Cons_code(2))
  have same: "net_node (chord_net ?orc1) = net_node (chord_net orc)" "net_transport (chord_net ?orc1) = net_transport (chord_net orc)"
    by (simp_all add: orch_publish_def chord_net_def)
  have ring: "consistent_ring (chord_net ?orc1) ?M"
    using assms(5) by (simp add: consistent_ring_def registered_def ring_node_def next_ref_def ref_in_def same)
  obtain net hops r where f: "FindSuccessor fuel a ?x (chord_net ?orc1) = Some (net, hops, Inr r)"
    "owner_ref (chord_net ?orc1) ?M ?x r" "same_nodes (chord_net ?orc1) net"
    using lookup_correct [OF ring a, of ?x fuel] assms(6,7) by (auto simp: same) (auto simp: chord_net_def)
  have "owner_ref (chord_net orc) ?M ?x r" using f(2) unfolding owner_ref_def ref_in_def same .
  then obtain rs where "findReplicas orc ?x = Inr (r # rs)"
    using coordinator_owner [OF assms(1,2,5) _ assms(3)] by blast
  moreover have "o_chord (with_chord net ?orc1) = o_chord orc"
    using f(3) by (simp add: same_nodes_def with_chord_def same) (simp add: chord_net_def)
  ultimately show ?thesis
    using f(1) by (simp add: Lookup_def assms(4) Let_def finish_lookup_def) (simp add: orch_publish_def)
qed

definition demo_pair :: Orchestrator where
  "demo_pair = (with_chord pair_net (demo_new ''chord''))\<lparr>o_nodes := [(''a'', ChordObj ''a''), (''b'', ChordObj ''b'')],
     o_chordNodes := [(''b'', ''b''), (''a'', ''a'')], o_nodeAddrs := [''a'', ''b'']\<rparr>"

theorem lookup_finds_coordinator_witness:
  "\<exists>orc' tr r rs. Lookup 2 id (\<lambda>_. 25) ''k'' demo_pair = Some (Inr (orc', Inr tr)) \<and>
     findReplicas demo_pair 25 = Inr (r # rs) \<and> tr_TargetNode tr = IDToHex (nr_ID r)"
proof -
  have k: "KeyID (\<lambda>_. 25) ''k'' = 25" by (simp add: KeyID_def SHA1_def)
  have net: "chord_net demo_pair = pair_net" by (simp add: demo_pair_def with_chord_def chord_net_def)
  have dom: "dom (map_of (o_chordNodes demo_pair)) = {''a'', ''b''}" by (auto simp: demo_pair_def)
  have M: "maps_ok demo_pair"
    by (auto simp: maps_ok_def demo_pair_def demo_new_def NewOrchestrator_def with_chord_def Let_def gm_wf_def)
  have cfg: "sc_Protocol (o_cfg demo_pair) = ''chord''" "sc_ReplicationN (o_cfg demo_pair) = 3"
    "o_nodes demo_pair = (''a'', ChordObj ''a'') # [(''b'', ChordObj ''b'')]"
    by (simp_all add: demo_pair_def demo_new_def NewOrchestrator_def Sim_DefaultConfig_def Let_def with_chord_def)
  have ring: "consistent_ring (chord_net demo_pair) (dom (map_of (o_chordNodes demo_pair)))"
    using pair_net_consistent by (simp add: net dom)
  have id: "cn_ID (o_chord demo_pair ''a'') \<noteq> KeyID (\<lambda>_. 25) ''k''"
    by (simp add: k demo_pair_def with_chord_def pair_net_def pair_node_def)
  have N: "0 < sc_ReplicationN (o_cfg demo_pair)" and c: "card (dom (map_of (o_chordNodes demo_pair))) \<le> 2" by (simp_all add: cfg dom)
  show ?thesis using lookup_finds_coordinator [OF M cfg(1) N cfg(3) ring id c, of id] by (auto simp: k)
qed

section \<open>Deleting a key\<close>

definition del_store :: "ID \<Rightarrow> KVStore \<Rightarrow> KVStore" where
  "del_store k s = fst (Delete k s)"

lemma Delete_eq: "Delete k s = (del_store k s, map_of (kv_entries s) k \<noteq> None)"
  by (simp add: del_store_def Delete_def Let_def)

lemma Get_del_store: "Get now (del_store k s) j = (if j = k then None else Get now s j)"
  by (simp add: del_store_def Delete_def Let_def Get_def)

definition chord_deleted :: "ID \<Rightarrow> string set \<Rightarrow> Orchestrator \<Rightarrow> Orchestrator" where
  "chord_deleted k A orc = orc\<lparr>o_chord := (\<lambda>a. if a \<in> A then (o_chord orc a)\<lparr>cn_Store := del_store k (cn_Store (o_chord orc a))\<rparr> else o_chord orc a)\<rparr>"

definition kad_deleted :: "ID \<Rightarrow> string set \<Rightarrow> Orchestrator \<Rightarrow> Orchestrator" where
  "kad_deleted k A orc = orc\<lparr>o_kad := (\<lambda>a. if a \<in> A then (o_kad orc a)\<lparr>kn_KVStore := del_store k (kn_KVStore (o_kad orc a))\<rparr> else o_kad orc a)\<rparr>"

lemma fold_delete_chord:
  "distinct (map snd xs) \<Longrightarrow> fold (delete_chord k) xs (orc, d) =
    (chord_deleted k (snd ` set xs) orc, d \<or> (\<exists>h \<in> snd ` set xs. map_of (kv_entries (cn_Store (o_chord orc h))) k \<noteq> None))"
proof (induction xs arbitrary: orc d)
  case (Cons x xs)
  obtain a h where x: "x = (a, h)" by fastforce
  let ?orc = "orc\<lparr>o_chord := (o_chord orc)(h := (o_chord orc h)\<lparr>cn_Store := del_store k (cn_Store (o_chord orc h))\<rparr>)\<rparr>"
  have h: "h \<notin> snd ` set xs" using Cons.prems x by simp
  then have "o_chord ?orc b = o_chord orc b" if "b \<in> snd ` set xs" for b using that by auto
  moreover have "chord_deleted k (snd ` set xs) ?orc = chord_deleted k (snd ` set (x # xs)) orc"
    using h x by (auto simp: chord_deleted_def fun_eq_iff intro!: Orchestrator.equality)
  ultimately show ?case using Cons.IH [of ?orc] Cons.prems x by (auto simp: delete_chord_def Delete_eq)
qed (simp add: chord_deleted_def)

lemma fold_delete_kad:
  "distinct (map snd xs) \<Longrightarrow> fold (delete_kad k) xs (orc, d) =
    (kad_deleted k (snd ` set xs) orc, d \<or> (\<exists>h \<in> snd ` set xs. map_of (kv_entries (kn_KVStore (o_kad orc h))) k \<noteq> None))"
proof (induction xs arbitrary: orc d)
  case (Cons x xs)
  obtain a h where x: "x = (a, h)" by fastforce
  let ?orc = "orc\<lparr>o_kad := (o_kad orc)(h := (o_kad orc h)\<lparr>kn_KVStore := del_store k (kn_KVStore (o_kad orc h))\<rparr>)\<rparr>"
  have h: "h \<notin> snd ` set xs" using Cons.prems x by simp
  then have "o_kad ?orc b = o_kad orc b" if "b \<in> snd ` set xs" for b using that by auto
  moreover have "kad_deleted k (snd ` set xs) ?orc = kad_deleted k (snd ` set (x # xs)) orc"
    using h x by (auto simp: kad_deleted_def fun_eq_iff intro!: Orchestrator.equality)
  ultimately show ?case using Cons.IH [of ?orc] Cons.prems x by (auto simp: delete_kad_def Delete_eq)
qed (simp add: kad_deleted_def)

text \<open>The nodes of the two maps.\<close>

definition chord_members :: "Orchestrator \<Rightarrow> string set" where
  "chord_members orc = dom (map_of (o_chordNodes orc))"

definition kad_members :: "Orchestrator \<Rightarrow> string set" where
  "kad_members orc = dom (map_of (o_kadNodes orc))"

lemma member_maps:
  assumes "gm_wf xs" "\<And>a h. map_of xs a = Some h \<Longrightarrow> h = a"
  shows "distinct (map snd xs)" "snd ` set xs = dom (map_of xs)"
proof -
  have e: "h = a" if "(a, h) \<in> set xs" for a h using that assms by (simp add: gm_wf_def)
  have eq: "map snd xs = map fst xs" using e by auto
  show "distinct (map snd xs)" unfolding eq using assms(1) by (simp add: gm_wf_def)
  show "snd ` set xs = dom (map_of xs)" using eq by (metis dom_map_of_conv_image_fst image_set)
qed

lemma DeleteKey_eq:
  assumes "maps_ok orc"
  shows "DeleteKey sha1 key orc =
    (let k = KeyID sha1 key in
     ((kad_deleted k (kad_members orc) (chord_deleted k (chord_members orc) orc))\<lparr>o_keyStrings := gm_del k (o_keyStrings orc)\<rparr>,
      if (\<exists>h \<in> chord_members orc. map_of (kv_entries (cn_Store (o_chord orc h))) k \<noteq> None) \<or>
         (\<exists>h \<in> kad_members orc. map_of (kv_entries (kn_KVStore (o_kad orc h))) k \<noteq> None)
      then Inr () else Inl (OKeyNotFound k)))"
proof -
  from assms have wf: "gm_wf (o_chordNodes orc)" "gm_wf (o_kadNodes orc)"
    "\<And>a h. map_of (o_chordNodes orc) a = Some h \<Longrightarrow> h = a" "\<And>a h. map_of (o_kadNodes orc) a = Some h \<Longrightarrow> h = a"
    unfolding maps_ok_def by blast+
  note c = member_maps [OF wf(1,3)] and d = member_maps [OF wf(2,4)]
  have same: "o_kadNodes (chord_deleted k A orc) = o_kadNodes orc" "o_kad (chord_deleted k A orc) = o_kad orc" for k A
    by (simp_all add: chord_deleted_def)
  have ks: "o_keyStrings (kad_deleted k B (chord_deleted k A orc)) = o_keyStrings orc" for k A B
    by (simp add: chord_deleted_def kad_deleted_def)
  show ?thesis
    by (simp add: DeleteKey_def Let_def fold_delete_chord [OF c(1)] fold_delete_kad [OF d(1)] same c(2) d(2) ks
        chord_members_def kad_members_def)
qed

text \<open>
  C33. Deletion reaches every replica. After \<^verbatim>\<open>DeleteKey\<close> no node of either protocol holds the
  key, so the key has no replicas to list; every other key of every node reads as before, and the
  result says whether any node held the key.
\<close>

theorem delete_key_everywhere:
  assumes "maps_ok orc" "DeleteKey sha1 key orc = (orc', r)"
  shows "GetKeyReplicas sha1 key orc' = [] \<and> map_of (o_keyStrings orc') (KeyID sha1 key) = None \<and>
    (\<forall>a \<in> chord_members orc. \<forall>j. Get now (cn_Store (o_chord orc' a)) j = (if j = KeyID sha1 key then None else Get now (cn_Store (o_chord orc a)) j)) \<and>
    (\<forall>a \<in> kad_members orc. \<forall>j. Get now (kn_KVStore (o_kad orc' a)) j = (if j = KeyID sha1 key then None else Get now (kn_KVStore (o_kad orc a)) j)) \<and>
    (r = Inr () \<longleftrightarrow> (\<exists>a \<in> chord_members orc. KeyID sha1 key \<in> fst ` set (kv_entries (cn_Store (o_chord orc a)))) \<or>
                   (\<exists>a \<in> kad_members orc. KeyID sha1 key \<in> fst ` set (kv_entries (kn_KVStore (o_kad orc a))))) \<and>
    (\<forall>e. r = Inl e \<longrightarrow> e = OKeyNotFound (KeyID sha1 key))"
proof -
  let ?k = "KeyID sha1 key"
  let ?del = "kad_deleted ?k (kad_members orc) (chord_deleted ?k (chord_members orc) orc)"
  note eq = DeleteKey_eq [OF assms(1), of sha1 key, unfolded assms(2) Let_def]
  then have o: "orc' = ?del\<lparr>o_keyStrings := gm_del ?k (o_keyStrings orc)\<rparr>" and r: "r = (if (\<exists>h \<in> chord_members orc. map_of (kv_entries (cn_Store (o_chord orc h))) ?k \<noteq> None) \<or>
         (\<exists>h \<in> kad_members orc. map_of (kv_entries (kn_KVStore (o_kad orc h))) ?k \<noteq> None)
      then Inr () else Inl (OKeyNotFound ?k))" by simp_all
  have stores: "cn_Store (o_chord orc' a) = (if a \<in> chord_members orc then del_store ?k (cn_Store (o_chord orc a)) else cn_Store (o_chord orc a))"
    "kn_KVStore (o_kad orc' a) = (if a \<in> kad_members orc then del_store ?k (kn_KVStore (o_kad orc a)) else kn_KVStore (o_kad orc a))"
    "o_chordNodes orc' = o_chordNodes orc" "o_kadNodes orc' = o_kadNodes orc" "o_now orc' = o_now orc" for a
    by (simp_all add: o kad_deleted_def chord_deleted_def)
  from assms(1) have wf: "gm_wf (o_chordNodes orc)" "gm_wf (o_kadNodes orc)"
    "\<And>a h. map_of (o_chordNodes orc) a = Some h \<Longrightarrow> h = a" "\<And>a h. map_of (o_kadNodes orc) a = Some h \<Longrightarrow> h = a"
    unfolding maps_ok_def by blast+
  note c = member_maps(2) [OF wf(1,3), folded chord_members_def] and d = member_maps(2) [OF wf(2,4), folded kad_members_def]
  have none: "fold f xs init = init" if "\<And>x. x \<in> set xs \<Longrightarrow> f x init = init" for f :: "string \<times> string \<Rightarrow> ReplicaEntry list \<Rightarrow> ReplicaEntry list" and xs init
    using that by (induction xs) simp_all
  have "GetKeyReplicas sha1 key orc' = sort_Slice (\<lambda>x y. string_less (re_NodeID x) (re_NodeID y)) []"
  proof -
    have "snd x \<in> chord_members orc" if "x \<in> set (o_chordNodes orc)" for x using that c by auto
    moreover have "snd x \<in> kad_members orc" if "x \<in> set (o_kadNodes orc)" for x using that d by auto
    ultimately show ?thesis
      unfolding GetKeyReplicas_def Let_def stores(3,4)
      by (subst none, force simp: stores Get_del_store split_def, subst none, force simp: stores Get_del_store split_def) simp
  qed
  moreover have "sort_Slice lt [] = []" for lt :: "ReplicaEntry \<Rightarrow> ReplicaEntry \<Rightarrow> bool" by (simp add: sort_Slice_def)
  moreover have "map_of (o_keyStrings orc') ?k = None" by (simp add: o)
  moreover have "r = Inr () \<longleftrightarrow> (\<exists>a \<in> chord_members orc. ?k \<in> fst ` set (kv_entries (cn_Store (o_chord orc a)))) \<or>
      (\<exists>a \<in> kad_members orc. ?k \<in> fst ` set (kv_entries (kn_KVStore (o_kad orc a))))"
    by (simp add: r map_of_eq_None_iff)
  moreover have "\<forall>e. r = Inl e \<longrightarrow> e = OKeyNotFound ?k" by (simp add: r)
  ultimately show ?thesis by (simp add: stores Get_del_store)
qed

definition demo_full :: Orchestrator where
  "demo_full = demo_pair\<lparr>o_chord := (o_chord demo_pair)(''a'' := (o_chord demo_pair ''a'')
     \<lparr>cn_Store := Put \<lparr>Key = 25, Value = [1], Clock = [], Timestamp = 0, TTL = 0, NodeID = ''n''\<rparr> NewKVStore\<rparr>)\<rparr>"

theorem delete_key_everywhere_witness:
  "snd (DeleteKey (\<lambda>_. 25) ''k'' demo_full) = Inr () \<and> GetKeyReplicas (\<lambda>_. 25) ''k'' (fst (DeleteKey (\<lambda>_. 25) ''k'' demo_full)) = []"
proof -
  have k: "KeyID (\<lambda>_. 25) ''k'' = 25" by (simp add: KeyID_def SHA1_def)
  have M: "maps_ok demo_full"
    by (auto simp: maps_ok_def demo_full_def demo_pair_def demo_new_def NewOrchestrator_def with_chord_def Let_def gm_wf_def)
  have a: "''a'' \<in> chord_members demo_full" by (simp add: chord_members_def demo_full_def demo_pair_def)
  have "25 \<in> fst ` set (kv_entries (cn_Store (o_chord demo_full ''a'')))"
    by (simp add: demo_full_def Put_def Clone_def NewKVStore_def gm_put_def)
  with a delete_key_everywhere [OF M, of "\<lambda>_. 25" "''k''" "fst (DeleteKey (\<lambda>_. 25) ''k'' demo_full)" "snd (DeleteKey (\<lambda>_. 25) ''k'' demo_full)"]
  show ?thesis unfolding k by auto
qed

end
