(* ===== verification/Gateway.thy ===== *)
theory Gateway
  imports Orch_Clients "HOL-Library.Signed_Division"
begin

text \<open>
  The parts of the gateway that every request passes and the types of its API:
  \<^verbatim>\<open>gateway/middleware.go\<close> and \<^verbatim>\<open>gateway/api_types.go\<close>, with the functions of Go's packages
  \<^verbatim>\<open>strings\<close> and \<^verbatim>\<open>strconv\<close> they use, on ASCII text. The HTTP framework, the environment and
  the clock are arguments.
\<close>

section \<open>Strings\<close>

definition is_space :: "char \<Rightarrow> bool" where
  "is_space c \<longleftrightarrow> c \<in> {CHR 0x09, CHR 0x0A, CHR 0x0B, CHR 0x0C, CHR 0x0D, CHR '' ''}"

definition TrimSpace :: "string \<Rightarrow> string" where
  "TrimSpace s = rev (dropWhile is_space (rev (dropWhile is_space s)))"

definition lower_char :: "char \<Rightarrow> char" where
  "lower_char c = (let n = of_char c :: nat in if 65 \<le> n \<and> n \<le> 90 then char_of (n + 32) else c)"

definition ToLower :: "string \<Rightarrow> string" where
  "ToLower s = map lower_char s"

definition HasPrefix :: "string \<Rightarrow> string \<Rightarrow> bool" where
  "HasPrefix s pre \<longleftrightarrow> take (length pre) s = pre"

text \<open>\<^verbatim>\<open>strconv.Atoi\<close>: an optional sign and decimal digits whose value fits a signed 64-bit integer.\<close>

definition digit_value :: "char \<Rightarrow> nat option" where
  "digit_value c = (let n = of_char c :: nat in if 48 \<le> n \<and> n \<le> 57 then Some (n - 48) else None)"

fun parse_digits :: "nat \<Rightarrow> string \<Rightarrow> nat option" where
  "parse_digits acc [] = Some acc"
| "parse_digits acc (c # cs) = (case digit_value c of None \<Rightarrow> None | Some d \<Rightarrow> parse_digits (acc * 10 + d) cs)"

definition Atoi :: "string \<Rightarrow> int option" where
  "Atoi s =
     (let (neg, ds) = (case s of c # cs \<Rightarrow> if c = CHR ''-'' then (True, cs) else if c = CHR ''+'' then (False, cs) else (False, s) | [] \<Rightarrow> (False, s))
      in if ds = [] then None
         else case parse_digits 0 ds of
                None \<Rightarrow> None
              | Some n \<Rightarrow> let i = (if neg then - int n else int n) in if - (2 ^ 63) \<le> i \<and> i < 2 ^ 63 then Some i else None)"

section \<open>Middleware\<close>

text \<open>The part of a request that the middleware looks at. Headers are looked up by their canonical name; a missing one is empty.\<close>

record Http_Request =
  rq_method :: string
  rq_header :: "string \<Rightarrow> string"
  rq_clientIP :: string
  rq_contentLength :: int
  rq_body :: "byte list"
  rq_time :: time

text \<open>A middleware either lets the request pass or aborts it with a status and an error text.\<close>

datatype verdict = Next | Abort nat string

text \<open>\<open>rand\<close> is the result of \<^verbatim>\<open>rand.Read\<close> for 16 bytes, \<open>nanos\<close> the text of the current time.\<close>

definition newRequestID :: "byte list option \<Rightarrow> string \<Rightarrow> string" where
  "newRequestID rand nanos = (case rand of None \<Rightarrow> ''req-'' @ nanos | Some buf \<Rightarrow> EncodeToString buf)"

definition requestIDMiddleware :: "byte list option \<Rightarrow> string \<Rightarrow> Http_Request \<Rightarrow> string" where
  "requestIDMiddleware rand nanos rq =
     (let requestID = TrimSpace (rq_header rq ''X-Request-Id'')
      in if requestID = [] then newRequestID rand nanos else requestID)"

definition corsMiddleware :: "Http_Request \<Rightarrow> verdict" where
  "corsMiddleware rq = (if rq_method rq = ''OPTIONS'' then Abort 204 [] else Next)"

text \<open>
  \<^verbatim>\<open>http.MaxBytesReader\<close> delivers at most \<open>maxBytes\<close> bytes; reading further is an error, here the
  flag. A content length of \<open>-1\<close> is unknown.
\<close>

definition requestBodyLimitMiddleware :: "nat \<Rightarrow> Http_Request \<Rightarrow> (byte list \<times> bool) \<times> verdict" where
  "requestBodyLimitMiddleware maxBytes rq =
     ((take maxBytes (rq_body rq), maxBytes < length (rq_body rq)),
      if rq_contentLength rq > int maxBytes then Abort 413 ''request body too large'' else Next)"

record mutationSecurityConfig =
  ms_apiToken :: string
  ms_ratePerMin :: int
  ms_rateEnabled :: bool

definition loadMutationSecurityConfig :: "(string \<Rightarrow> string) \<Rightarrow> mutationSecurityConfig" where
  "loadMutationSecurityConfig Getenv =
     (let cfg = \<lparr>ms_apiToken = TrimSpace (Getenv ''GATEWAY_API_TOKEN''), ms_ratePerMin = 0, ms_rateEnabled = False\<rparr>;
          raw = TrimSpace (Getenv ''GATEWAY_MUTATION_LIMIT_PER_MINUTE'')
      in if raw \<noteq> []
         then (case Atoi raw of
                 Some n \<Rightarrow> if n > 0 then cfg\<lparr>ms_ratePerMin := n, ms_rateEnabled := True\<rparr> else cfg
               | None \<Rightarrow> cfg)
         else cfg)"

record mutationBucket =
  mb_windowStart :: time
  mb_count :: int

record mutationLimiter =
  ml_limit :: int
  ml_window :: duration
  ml_buckets :: "(string, mutationBucket) gomap"

definition newMutationLimiter :: "int \<Rightarrow> duration \<Rightarrow> mutationLimiter" where
  "newMutationLimiter limit window = \<lparr>ml_limit = limit, ml_window = window, ml_buckets = []\<rparr>"

definition allow :: "string \<Rightarrow> time \<Rightarrow> mutationLimiter \<Rightarrow> mutationLimiter \<times> bool" where
  "allow key now l =
     (if ml_limit l \<le> 0 then (l, True)
      else
        let fresh = (l\<lparr>ml_buckets := gm_put key \<lparr>mb_windowStart = now, mb_count = 1\<rparr> (ml_buckets l)\<rparr>, True)
        in case map_of (ml_buckets l) key of
             None \<Rightarrow> fresh
           | Some bucket \<Rightarrow>
               if time_Sub now (mb_windowStart bucket) \<ge> ml_window l then fresh
               else if mb_count bucket \<ge> ml_limit l then (l, False)
               else (l\<lparr>ml_buckets := gm_put key (bucket\<lparr>mb_count := mb_count bucket + 1\<rparr>) (ml_buckets l)\<rparr>, True))"

definition request_token :: "Http_Request \<Rightarrow> string" where
  "request_token rq =
     (let token = TrimSpace (rq_header rq ''X-API-Key'')
      in if token = []
         then let authHeader = TrimSpace (rq_header rq ''Authorization'')
              in if HasPrefix (ToLower authHeader) ''bearer '' then TrimSpace (drop (length ''Bearer '') authHeader) else token
         else token)"

definition protection_limiter :: "mutationSecurityConfig \<Rightarrow> mutationLimiter" where
  "protection_limiter cfg = newMutationLimiter (ms_ratePerMin cfg) (60 * 10 ^ 9)"

definition mutationProtectionMiddleware :: "mutationSecurityConfig \<Rightarrow> Http_Request \<Rightarrow> mutationLimiter \<Rightarrow> mutationLimiter \<times> verdict" where
  "mutationProtectionMiddleware cfg rq limiter =
     (if ms_apiToken cfg \<noteq> [] \<and> request_token rq \<noteq> ms_apiToken cfg then (limiter, Abort 401 ''authentication required'')
      else if ms_rateEnabled cfg
      then (case allow (rq_clientIP rq) (rq_time rq) limiter of
              (limiter, ok) \<Rightarrow> (limiter, if ok then Next else Abort 429 ''mutation rate limit exceeded''))
      else (limiter, Next))"

section \<open>API types\<close>

record configResponse =
  cr_Protocol :: string
  cr_M :: int
  cr_VirtualNodes :: int
  cr_ReplicationN :: int
  cr_WriteQuorum :: int
  cr_ReadQuorum :: int
  cr_SuccessorListSize :: int
  cr_KBucketSize :: int
  cr_Alpha :: int
  cr_StabilizeIntervalMs :: int
  cr_FixFingersIntervalMs :: int
  cr_GossipIntervalMs :: int
  cr_RepublishIntervalMs :: int
  cr_SimDelayMs :: int
  cr_SimLossRate :: rat
  cr_InitialNodes :: int

record networkStateResponse =
  nr_Protocol :: string
  nr_Nodes :: "NodeState list"
  nr_Keys :: "KeyState list"
  nr_Config :: configResponse

record hopEventResponse =
  hr_FromNode :: string
  hr_ToNode :: string
  hr_Mechanism :: string
  hr_HopIndex :: int

record lookupTraceResponse =
  lr_Key :: string
  lr_KeyHash :: string
  lr_TargetNode :: string
  lr_Hops :: "hopEventResponse list"
  lr_TotalHops :: int
  lr_LatencyMs :: int

record configPatch =
  cp_Protocol :: "string option"
  cp_M :: "int option"
  cp_VirtualNodes :: "int option"
  cp_ReplicationN :: "int option"
  cp_WriteQuorum :: "int option"
  cp_ReadQuorum :: "int option"
  cp_SuccessorListSize :: "int option"
  cp_KBucketSize :: "int option"
  cp_Alpha :: "int option"
  cp_StabilizeIntervalMs :: "int option"
  cp_FixFingersIntervalMs :: "int option"
  cp_GossipIntervalMs :: "int option"
  cp_RepublishIntervalMs :: "int option"
  cp_SimDelayMs :: "int option"
  cp_SimLossRate :: "rat option"
  cp_InitialNodes :: "int option"

definition normalizeProtocol :: "string \<Rightarrow> string" where
  "normalizeProtocol protocol = ToLower (TrimSpace protocol)"

text \<open>\<^verbatim>\<open>Duration.Milliseconds\<close> truncates; a product of durations is a signed 64-bit product.\<close>

definition Milliseconds :: "duration \<Rightarrow> int" where
  "Milliseconds d = d sdiv 10 ^ 6"

definition times_Millisecond :: "int \<Rightarrow> duration" where
  "times_Millisecond ms = signed_take_bit 63 (ms * 10 ^ 6)"

text \<open>The configuration of an orchestrator is never nil.\<close>

definition mapConfig :: "SimConfig \<Rightarrow> configResponse" where
  "mapConfig cfg =
     \<lparr>cr_Protocol = sc_Protocol cfg, cr_M = sc_M cfg, cr_VirtualNodes = sc_VirtualNodes cfg, cr_ReplicationN = sc_ReplicationN cfg,
      cr_WriteQuorum = sc_WriteQuorum cfg, cr_ReadQuorum = sc_ReadQuorum cfg, cr_SuccessorListSize = sc_SuccessorListSize cfg,
      cr_KBucketSize = sc_KBucketSize cfg, cr_Alpha = sc_Alpha cfg, cr_StabilizeIntervalMs = Milliseconds (sc_StabilizeInterval cfg),
      cr_FixFingersIntervalMs = Milliseconds (sc_FixFingersInterval cfg), cr_GossipIntervalMs = Milliseconds (sc_GossipInterval cfg),
      cr_RepublishIntervalMs = Milliseconds (sc_RepublishInterval cfg), cr_SimDelayMs = Milliseconds (sc_SimDelay cfg),
      cr_SimLossRate = sc_SimLossRate cfg, cr_InitialNodes = sc_InitialNodes cfg\<rparr>"

definition mapNetworkState :: "NetworkState \<Rightarrow> networkStateResponse" where
  "mapNetworkState state =
     \<lparr>nr_Protocol = nw_Protocol state, nr_Nodes = nw_Nodes state, nr_Keys = nw_Keys state, nr_Config = mapConfig (nw_Config state)\<rparr>"

definition mapLookupTrace :: "LookupTrace \<Rightarrow> lookupTraceResponse" where
  "mapLookupTrace trace =
     \<lparr>lr_Key = tr_Key trace, lr_KeyHash = tr_KeyHash trace, lr_TargetNode = tr_TargetNode trace,
      lr_Hops = map (\<lambda>hop. \<lparr>hr_FromNode = hop_FromNode hop, hr_ToNode = hop_ToNode hop, hr_Mechanism = hop_Mechanism hop,
        hr_HopIndex = hop_HopIndex hop\<rparr>) (tr_Hops trace),
      lr_TotalHops = tr_TotalHops trace, lr_LatencyMs = tr_LatencyMs trace\<rparr>"

text \<open>The assignments of the patched fields.\<close>

definition apply_patch :: "SimConfig \<Rightarrow> configPatch \<Rightarrow> SimConfig" where
  "apply_patch base patch =
     (let put = (\<lambda>v x. case v of None \<Rightarrow> x | Some y \<Rightarrow> y);
          ms = (\<lambda>v d. case v of None \<Rightarrow> d | Some m \<Rightarrow> times_Millisecond m)
      in \<lparr>sc_Protocol = (case cp_Protocol patch of None \<Rightarrow> sc_Protocol base | Some p \<Rightarrow> normalizeProtocol p),
          sc_M = put (cp_M patch) (sc_M base), sc_VirtualNodes = put (cp_VirtualNodes patch) (sc_VirtualNodes base),
          sc_ReplicationN = put (cp_ReplicationN patch) (sc_ReplicationN base),
          sc_WriteQuorum = put (cp_WriteQuorum patch) (sc_WriteQuorum base),
          sc_ReadQuorum = put (cp_ReadQuorum patch) (sc_ReadQuorum base),
          sc_SuccessorListSize = put (cp_SuccessorListSize patch) (sc_SuccessorListSize base),
          sc_KBucketSize = put (cp_KBucketSize patch) (sc_KBucketSize base), sc_Alpha = put (cp_Alpha patch) (sc_Alpha base),
          sc_StabilizeInterval = ms (cp_StabilizeIntervalMs patch) (sc_StabilizeInterval base),
          sc_FixFingersInterval = ms (cp_FixFingersIntervalMs patch) (sc_FixFingersInterval base),
          sc_GossipInterval = ms (cp_GossipIntervalMs patch) (sc_GossipInterval base),
          sc_RepublishInterval = ms (cp_RepublishIntervalMs patch) (sc_RepublishInterval base),
          sc_SimDelay = ms (cp_SimDelayMs patch) (sc_SimDelay base),
          sc_SimLossRate = (case cp_SimLossRate patch of None \<Rightarrow> sc_SimLossRate base | Some r \<Rightarrow> r),
          sc_InitialNodes = put (cp_InitialNodes patch) (sc_InitialNodes base)\<rparr>)"

definition check_config :: "SimConfig \<Rightarrow> string option" where
  "check_config next =
     (if sc_Protocol next \<notin> {[], ''chord'', ''kademlia''} then Some ''protocol must be one of: chord, kademlia''
      else if sc_M next \<le> 0 then Some ''m must be greater than 0''
      else if sc_VirtualNodes next \<le> 0 then Some ''virtualNodes must be greater than 0''
      else if sc_ReplicationN next \<le> 0 then Some ''replicationN must be greater than 0''
      else if sc_WriteQuorum next \<le> 0 \<or> sc_WriteQuorum next > sc_ReplicationN next then Some ''writeQuorum must be between 1 and replicationN''
      else if sc_ReadQuorum next \<le> 0 \<or> sc_ReadQuorum next > sc_ReplicationN next then Some ''readQuorum must be between 1 and replicationN''
      else if sc_SuccessorListSize next \<le> 0 then Some ''successorListSize must be greater than 0''
      else if sc_KBucketSize next \<le> 0 then Some ''kBucketSize must be greater than 0''
      else if sc_Alpha next \<le> 0 then Some ''alpha must be greater than 0''
      else if sc_StabilizeInterval next < 0 \<or> sc_FixFingersInterval next < 0 \<or> sc_GossipInterval next < 0 \<or>
              sc_RepublishInterval next < 0 \<or> sc_SimDelay next < 0 then Some ''interval values must be non-negative''
      else if sc_SimLossRate next < 0 \<or> sc_SimLossRate next > 1 then Some ''simLossRate must be between 0 and 1''
      else if sc_InitialNodes next \<le> 0 then Some ''initialNodes must be greater than 0''
      else None)"

definition mergeConfig :: "SimConfig \<Rightarrow> configPatch \<Rightarrow> string + SimConfig" where
  "mergeConfig base patch =
     (let next = apply_patch base patch in case check_config next of Some e \<Rightarrow> Inl e | None \<Rightarrow> Inr next)"

end
