(* ===== verification/Gateway_Admission.thy ===== *)
theory Gateway_Admission
  imports Gateway
begin

text \<open>
  What the middleware of the gateway admits and what its validation of configurations is good
  for: the rate limit and its true bound, authentication, isolation between clients, the round
  trip of a configuration through the API, and that no accepted configuration lets a client
  request panic in the orchestrator.
\<close>

section \<open>Rate limiting\<close>

lemma time_Sub_ge: "0 \<le> w \<Longrightarrow> w \<le> maxDuration \<Longrightarrow> time_Sub t u \<ge> w \<longleftrightarrow> t - u \<ge> w"
  by (auto simp: time_Sub_def maxDuration_def minDuration_def)

text \<open>The verdicts on a sequence of requests.\<close>

fun admit :: "mutationSecurityConfig \<Rightarrow> Http_Request list \<Rightarrow> mutationLimiter \<Rightarrow> verdict list" where
  "admit cfg [] l = []"
| "admit cfg (r # rs) l = (case mutationProtectionMiddleware cfg r l of (l', v) \<Rightarrow> v # admit cfg rs l')"

lemma allow_config: "ml_limit (fst (allow k now l)) = ml_limit l" "ml_window (fst (allow k now l)) = ml_window l"
  by (auto simp: allow_def Let_def split: option.splits)

lemma protection_config:
  "ml_limit (fst (mutationProtectionMiddleware cfg r l)) = ml_limit l" "ml_window (fst (mutationProtectionMiddleware cfg r l)) = ml_window l"
  using allow_config [of "rq_clientIP r" "rq_time r" l] by (auto simp: mutationProtectionMiddleware_def split: prod.splits)

text \<open>The verdict on a request depends on the bucket of its client only, and changes only this bucket.\<close>

definition same_bucket :: "string \<Rightarrow> mutationLimiter \<Rightarrow> mutationLimiter \<Rightarrow> bool" where
  "same_bucket ip l l' \<longleftrightarrow> ml_limit l' = ml_limit l \<and> ml_window l' = ml_window l \<and> map_of (ml_buckets l') ip = map_of (ml_buckets l) ip"

lemma allow_other: "k \<noteq> ip \<Longrightarrow> same_bucket ip l (fst (allow k now l))"
  by (auto simp: same_bucket_def allow_def Let_def split: option.splits)

lemma allow_same: "same_bucket ip l l' \<Longrightarrow> snd (allow ip now l) = snd (allow ip now l') \<and> same_bucket ip (fst (allow ip now l)) (fst (allow ip now l'))"
  by (auto simp: same_bucket_def allow_def Let_def split: option.splits)

lemma protection_other: "rq_clientIP r \<noteq> ip \<Longrightarrow> same_bucket ip l (fst (mutationProtectionMiddleware cfg r l))"
  using allow_other [of "rq_clientIP r" ip l "rq_time r"]
  by (auto simp: mutationProtectionMiddleware_def same_bucket_def split: prod.splits)

lemma protection_same:
  assumes "rq_clientIP r = ip" "same_bucket ip l l'"
  shows "snd (mutationProtectionMiddleware cfg r l) = snd (mutationProtectionMiddleware cfg r l')"
    "same_bucket ip (fst (mutationProtectionMiddleware cfg r l)) (fst (mutationProtectionMiddleware cfg r l'))"
  using allow_same [OF assms(2), of "rq_time r"] assms
  by (auto simp: mutationProtectionMiddleware_def split: prod.splits)

lemma admit_isolated:
  "same_bucket ip l l' \<Longrightarrow>
   map snd (filter (\<lambda>(r, v). rq_clientIP r = ip) (zip rs (admit cfg rs l))) = admit cfg (filter (\<lambda>r. rq_clientIP r = ip) rs) l'"
proof (induction rs arbitrary: l l')
  case (Cons r rs)
  obtain m v where m: "mutationProtectionMiddleware cfg r l = (m, v)" by fastforce
  show ?case
  proof (cases "rq_clientIP r = ip")
    case True
    obtain m' v' where m': "mutationProtectionMiddleware cfg r l' = (m', v')" by fastforce
    have "v' = v" "same_bucket ip m m'" using protection_same [OF True Cons.prems, of cfg] by (simp_all add: m m')
    with Cons.IH [of m m'] True show ?thesis by (simp add: m m')
  next
    case False
    have "same_bucket ip m l'"
      using protection_other [OF False, of l cfg] Cons.prems by (simp add: m same_bucket_def)
    with Cons.IH [of m l'] False show ?thesis by (simp add: m)
  qed
qed simp

text \<open>
  The accounting behind the bound: \<open>n\<close> requests of the client have passed within the interval of
  one window length from \<open>t\<close> on, all requests so far were made at \<open>recent\<close> or before.
\<close>

definition booked :: "string \<Rightarrow> time \<Rightarrow> time \<Rightarrow> int \<Rightarrow> mutationLimiter \<Rightarrow> bool" where
  "booked ip t recent n l \<longleftrightarrow> 0 \<le> n \<and> n \<le> 2 * ml_limit l \<and> (0 < n \<longrightarrow> t \<le> recent) \<and>
     (case map_of (ml_buckets l) ip of
        None \<Rightarrow> n = 0
      | Some b \<Rightarrow> 1 \<le> mb_count b \<and> mb_count b \<le> ml_limit l \<and> mb_windowStart b \<le> recent \<and>
          (mb_windowStart b < t \<longrightarrow> n \<le> mb_count b) \<and>
          (t \<le> mb_windowStart b \<and> mb_windowStart b < t + ml_window l \<longrightarrow> n \<le> ml_limit l + mb_count b))"

lemma booked_allow:
  assumes "booked ip t recent n l" "recent \<le> now" "0 < ml_limit l" "0 < ml_window l" "ml_window l \<le> maxDuration" "allow ip now l = (l', ok)"
  shows "booked ip t now (n + (if ok \<and> t \<le> now \<and> now < t + ml_window l then 1 else 0)) l'"
proof (cases "map_of (ml_buckets l) ip")
  case None
  with assms show ?thesis by (auto simp: allow_def Let_def booked_def)
next
  case (Some b)
  have w: "time_Sub now (mb_windowStart b) \<ge> ml_window l \<longleftrightarrow> now - mb_windowStart b \<ge> ml_window l"
    using assms(4,5) by (intro time_Sub_ge) auto
  show ?thesis
  proof (cases "now - mb_windowStart b \<ge> ml_window l")
    case True
    with Some w assms(3,6) have "ok" "l' = l\<lparr>ml_buckets := gm_put ip \<lparr>mb_windowStart = now, mb_count = 1\<rparr> (ml_buckets l)\<rparr>"
      by (simp_all add: allow_def Let_def)
    with Some True assms(1-4) show ?thesis by (simp add: booked_def) linarith
  next
    case False
    show ?thesis
    proof (cases "mb_count b \<ge> ml_limit l")
      case True
      with Some False w assms(3,6) have "\<not> ok" "l' = l" by (simp_all add: allow_def Let_def)
      with Some assms(1,2) show ?thesis by (auto simp: booked_def)
    next
      case le: False
      with Some False w assms(3,6) have "ok" "l' = l\<lparr>ml_buckets := gm_put ip (b\<lparr>mb_count := mb_count b + 1\<rparr>) (ml_buckets l)\<rparr>"
        by (simp_all add: allow_def Let_def)
      with Some False le assms(1,2) show ?thesis by (simp add: booked_def) linarith
    qed
  qed
qed

definition passed_in :: "string \<Rightarrow> time \<Rightarrow> duration \<Rightarrow> Http_Request \<times> verdict \<Rightarrow> bool" where
  "passed_in ip t w = (\<lambda>(r, v). v = Next \<and> rq_clientIP r = ip \<and> t \<le> rq_time r \<and> rq_time r < t + w)"

lemma booked_protection:
  assumes b: "booked ip t recent n l" and l: "recent \<le> rq_time r" "0 < ml_limit l" "0 < ml_window l" "ml_window l \<le> maxDuration"
    and rate: "ms_rateEnabled cfg" and m: "mutationProtectionMiddleware cfg r l = (l', v)"
  shows "booked ip t (rq_time r) (n + (if passed_in ip t (ml_window l) (r, v) then 1 else 0)) l'"
proof -
  have later: "booked ip t (rq_time r) n k" if "same_bucket ip l k" for k
    using b l(1) that by (auto simp: booked_def same_bucket_def split: option.splits)
  show ?thesis
  proof (cases "ms_apiToken cfg \<noteq> [] \<and> request_token r \<noteq> ms_apiToken cfg")
    case True
    with m have "l' = l" "v \<noteq> Next" by (auto simp: mutationProtectionMiddleware_def)
    with later [of l] show ?thesis by (simp add: passed_in_def same_bucket_def)
  next
    case False
    obtain k ok where a: "allow (rq_clientIP r) (rq_time r) l = (k, ok)" by fastforce
    with m False rate have v: "l' = k" "(v = Next) = ok" by (auto simp: mutationProtectionMiddleware_def split: if_splits)
    show ?thesis
    proof (cases "rq_clientIP r = ip")
      case True
      with booked_allow [OF b l _ [unfolded True]] a v show ?thesis by (simp add: passed_in_def)
    next
      case False
      with later [of k] allow_other [OF False, of l "rq_time r"] a v show ?thesis by (simp add: passed_in_def)
    qed
  qed
qed

lemma booked_admit:
  "booked ip t recent n l \<Longrightarrow> sorted (map rq_time rs) \<Longrightarrow> \<forall>r \<in> set rs. recent \<le> rq_time r \<Longrightarrow> 0 < ml_limit l \<Longrightarrow> 0 < ml_window l \<Longrightarrow>
   ml_window l \<le> maxDuration \<Longrightarrow> ms_rateEnabled cfg \<Longrightarrow>
   n + int (length (filter (passed_in ip t (ml_window l)) (zip rs (admit cfg rs l)))) \<le> 2 * ml_limit l"
proof (induction rs arbitrary: recent n l)
  case Nil
  then show ?case by (simp add: booked_def)
next
  case (Cons r rs)
  obtain l' v where m: "mutationProtectionMiddleware cfg r l = (l', v)" by fastforce
  have c: "ml_limit l' = ml_limit l" "ml_window l' = ml_window l" using protection_config [of cfg r l] by (simp_all add: m)
  have "booked ip t (rq_time r) (n + (if passed_in ip t (ml_window l) (r, v) then 1 else 0)) l'"
    using Cons.prems booked_protection [OF Cons.prems(1) _ _ _ _ _ m] by simp
  from Cons.IH [OF this] Cons.prems c show ?case by (simp add: m split: if_splits)
qed

lemma request_passes:
  "mutationProtectionMiddleware cfg r l = (l', Next) \<Longrightarrow> ms_apiToken cfg = [] \<or> request_token r = ms_apiToken cfg"
  by (auto simp: mutationProtectionMiddleware_def split: if_splits)

lemma admitted_token:
  "(r, Next) \<in> set (zip rs (admit cfg rs l)) \<Longrightarrow> ms_apiToken cfg = [] \<or> request_token r = ms_apiToken cfg"
  by (induction rs arbitrary: l) (auto split: prod.splits dest: request_passes)

text \<open>
  C15. What the mutation protection admits. With the limit enabled, of any sequence of requests in
  the order of time, at most twice the limit of one client pass within any sixty seconds; every
  request that passes carried the configured token; and the verdicts on the requests of
  one client are those it would get alone, so no client can use up the budget of another.
\<close>

theorem mutation_rate_bound:
  assumes "ms_rateEnabled cfg" "0 < ms_ratePerMin cfg" "sorted (map rq_time rs)"
  shows "let vs = zip rs (admit cfg rs (protection_limiter cfg)) in
    int (length (filter (passed_in ip t (60 * 10 ^ 9)) vs)) \<le> 2 * ms_ratePerMin cfg \<and>
    (\<forall>(r, v) \<in> set vs. v = Next \<longrightarrow> ms_apiToken cfg = [] \<or> request_token r = ms_apiToken cfg) \<and>
    map snd (filter (\<lambda>(r, v). rq_clientIP r = ip) vs) =
      admit cfg (filter (\<lambda>r. rq_clientIP r = ip) rs) (protection_limiter cfg)"
proof -
  let ?l = "protection_limiter cfg" and ?recent = "(if rs = [] then 0 else rq_time (hd rs))"
  have l: "ml_limit ?l = ms_ratePerMin cfg" "ml_window ?l = 60 * 10 ^ 9" "ml_buckets ?l = []"
    by (simp_all add: protection_limiter_def newMutationLimiter_def)
  have first: "booked ip t ?recent 0 ?l" using assms(2) by (simp add: booked_def l)
  have times: "\<forall>r \<in> set rs. ?recent \<le> rq_time r" using assms(3) by (cases rs) auto
  have w: "0 < ml_limit ?l" "0 < ml_window ?l" "ml_window ?l \<le> maxDuration" using assms(2) by (simp_all add: l maxDuration_def)
  have "int (length (filter (passed_in ip t (60 * 10 ^ 9)) (zip rs (admit cfg rs ?l)))) \<le> 2 * ms_ratePerMin cfg"
    using booked_admit [OF first assms(3) times w assms(1)] by (simp add: l)
  moreover have "same_bucket ip ?l ?l" by (simp add: same_bucket_def)
  ultimately show ?thesis
    using admit_isolated [of ip ?l ?l rs cfg] admitted_token by (fastforce simp: Let_def)
qed

definition demo_request :: "string \<Rightarrow> time \<Rightarrow> Http_Request" where
  "demo_request ip now =
     \<lparr>rq_method = ''POST'', rq_header = (\<lambda>h. if h = ''Authorization'' then ''bearer t'' else []), rq_clientIP = ip,
      rq_contentLength = 0, rq_body = [], rq_time = now\<rparr>"

definition demo_security :: mutationSecurityConfig where
  "demo_security = \<lparr>ms_apiToken = ''t'', ms_ratePerMin = 2, ms_rateEnabled = True\<rparr>"

lemma demo_token: "request_token (demo_request ip now) = ''t''"
  by (simp add: request_token_def demo_request_def TrimSpace_def is_space_def HasPrefix_def ToLower_def lower_char_def Let_def)

text \<open>The bound is not the limit: three requests pass within two seconds under a limit of two per minute.\<close>

lemma rate_limit_exceeded_within_minute:
  "admit demo_security [demo_request ''c'' 0, demo_request ''c'' (59 * 10 ^ 9), demo_request ''c'' (60 * 10 ^ 9), demo_request ''c'' (61 * 10 ^ 9)]
     (protection_limiter demo_security) = [Next, Next, Next, Next]"
proof -
  have tok: "request_token (demo_request ip now) = ms_apiToken demo_security" for ip now by (simp add: demo_token demo_security_def)
  have req: "rq_clientIP (demo_request ip now) = ip" "rq_time (demo_request ip now) = now" for ip now by (simp_all add: demo_request_def)
  have rate: "ms_rateEnabled demo_security" by (simp add: demo_security_def)
  show ?thesis
    by (simp add: mutationProtectionMiddleware_def tok req rate)
       (simp add: allow_def Let_def protection_limiter_def newMutationLimiter_def demo_security_def gm_put_def time_Sub_def maxDuration_def minDuration_def)
qed

theorem mutation_rate_bound_witness:
  "int (length (filter (passed_in ''c'' 0 (60 * 10 ^ 9)) (zip [demo_request ''c'' 0, demo_request ''d'' 5, demo_request ''c'' 7]
     (admit demo_security [demo_request ''c'' 0, demo_request ''d'' 5, demo_request ''c'' 7] (protection_limiter demo_security))))) \<le> 4"
proof -
  have t: "rq_time (demo_request ip now) = now" for ip now by (simp add: demo_request_def)
  have s: "ms_rateEnabled demo_security" "0 < ms_ratePerMin demo_security" by (simp_all add: demo_security_def)
  have "sorted (map rq_time [demo_request ''c'' 0, demo_request ''d'' 5, demo_request ''c'' 7])" by (simp add: t)
  note b = mutation_rate_bound [OF s this, of "''c''" 0]
  have "ms_ratePerMin demo_security = 2" by (simp add: demo_security_def)
  with b show ?thesis unfolding Let_def by simp
qed

section \<open>Configurations\<close>

lemma mergeConfig_Inr: "mergeConfig base patch = Inr next \<longleftrightarrow> next = apply_patch base patch \<and> check_config next = None"
  by (auto simp: mergeConfig_def Let_def split: option.splits)

lemma check_config_None:
  "check_config c = None \<longleftrightarrow>
     sc_Protocol c \<in> {[], ''chord'', ''kademlia''} \<and> 0 < sc_M c \<and> 0 < sc_VirtualNodes c \<and> 0 < sc_ReplicationN c \<and>
     0 < sc_WriteQuorum c \<and> sc_WriteQuorum c \<le> sc_ReplicationN c \<and> 0 < sc_ReadQuorum c \<and> sc_ReadQuorum c \<le> sc_ReplicationN c \<and>
     0 < sc_SuccessorListSize c \<and> 0 < sc_KBucketSize c \<and> 0 < sc_Alpha c \<and>
     0 \<le> sc_StabilizeInterval c \<and> 0 \<le> sc_FixFingersInterval c \<and> 0 \<le> sc_GossipInterval c \<and> 0 \<le> sc_RepublishInterval c \<and>
     0 \<le> sc_SimDelay c \<and> 0 \<le> sc_SimLossRate c \<and> sc_SimLossRate c \<le> 1 \<and> 0 < sc_InitialNodes c"
  unfolding check_config_def by (simp add: not_le not_less)

text \<open>The patch that sends every field of a response back.\<close>

definition patch_of :: "configResponse \<Rightarrow> configPatch" where
  "patch_of r =
     \<lparr>cp_Protocol = Some (cr_Protocol r), cp_M = Some (cr_M r), cp_VirtualNodes = Some (cr_VirtualNodes r),
      cp_ReplicationN = Some (cr_ReplicationN r), cp_WriteQuorum = Some (cr_WriteQuorum r), cp_ReadQuorum = Some (cr_ReadQuorum r),
      cp_SuccessorListSize = Some (cr_SuccessorListSize r), cp_KBucketSize = Some (cr_KBucketSize r), cp_Alpha = Some (cr_Alpha r),
      cp_StabilizeIntervalMs = Some (cr_StabilizeIntervalMs r), cp_FixFingersIntervalMs = Some (cr_FixFingersIntervalMs r),
      cp_GossipIntervalMs = Some (cr_GossipIntervalMs r), cp_RepublishIntervalMs = Some (cr_RepublishIntervalMs r),
      cp_SimDelayMs = Some (cr_SimDelayMs r), cp_SimLossRate = Some (cr_SimLossRate r), cp_InitialNodes = Some (cr_InitialNodes r)\<rparr>"

lemma Milliseconds_back:
  assumes "0 \<le> d" "d < 2 ^ 63"
  shows "times_Millisecond (Milliseconds d) = d - d mod 1000000" "Milliseconds (d - d mod 1000000) = Milliseconds d"
    "0 \<le> d - d mod 1000000"
proof -
  have m: "Milliseconds x = x div 1000000" if "0 \<le> x" for x using that by (cases "x = 0") (simp_all add: Milliseconds_def signed_divide_int_def)
  have dm: "d div 1000000 * 1000000 = d - d mod 1000000" by (simp add: minus_mod_eq_div_mult)
  have "0 \<le> d mod 1000000" "d mod 1000000 \<le> d" using assms(1) by (simp_all add: zmod_le_nonneg_dividend)
  then show nn: "0 \<le> d - d mod 1000000" by simp
  have "signed_take_bit 63 (d - d mod 1000000) = d - d mod 1000000"
    using assms \<open>0 \<le> d mod 1000000\<close> nn by (intro signed_take_bit_int_eq_self) simp_all
  then show "times_Millisecond (Milliseconds d) = d - d mod 1000000" by (simp add: times_Millisecond_def m [OF assms(1)] dm)
  show "Milliseconds (d - d mod 1000000) = Milliseconds d"
    unfolding m [OF nn] m [OF assms(1)] by (simp add: minus_mod_eq_div_mult)
qed

lemma normal_protocol: "p \<in> {[], ''chord'', ''kademlia''} \<Longrightarrow> normalizeProtocol p = p"
  by (auto simp: normalizeProtocol_def TrimSpace_def is_space_def ToLower_def lower_char_def Let_def)

definition in_range :: "SimConfig \<Rightarrow> bool" where
  "in_range c \<longleftrightarrow> (\<forall>d \<in> {sc_StabilizeInterval c, sc_FixFingersInterval c, sc_GossipInterval c, sc_RepublishInterval c, sc_SimDelay c}. d < 2 ^ 63)"

definition whole_ms :: "SimConfig \<Rightarrow> bool" where
  "whole_ms c \<longleftrightarrow> (\<forall>d \<in> {sc_StabilizeInterval c, sc_FixFingersInterval c, sc_GossipInterval c, sc_RepublishInterval c, sc_SimDelay c}. d mod 1000000 = 0)"

text \<open>
  C17. A configuration survives the API. A client that reads the configuration and sends all of
  it back, over any current configuration, is accepted whenever the configuration is valid, and
  reads the same again; when all intervals are whole milliseconds the configuration is
  unchanged to the last field, otherwise the intervals are truncated to milliseconds.
\<close>

theorem config_roundtrip:
  assumes "check_config cfg = None" "in_range cfg"
  shows "\<exists>next. mergeConfig base (patch_of (mapConfig cfg)) = Inr next \<and> mapConfig next = mapConfig cfg \<and>
    (whole_ms cfg \<longrightarrow> next = cfg) \<and> mergeConfig base (patch_of (mapConfig next)) = Inr next"
proof -
  let ?t = "\<lambda>d. d - d mod 1000000"
  let ?next = "cfg\<lparr>sc_StabilizeInterval := ?t (sc_StabilizeInterval cfg), sc_FixFingersInterval := ?t (sc_FixFingersInterval cfg),
    sc_GossipInterval := ?t (sc_GossipInterval cfg), sc_RepublishInterval := ?t (sc_RepublishInterval cfg), sc_SimDelay := ?t (sc_SimDelay cfg)\<rparr>"
  note c = assms(1) [unfolded check_config_None]
  have r: "sc_StabilizeInterval cfg < 2 ^ 63" "sc_FixFingersInterval cfg < 2 ^ 63" "sc_GossipInterval cfg < 2 ^ 63"
    "sc_RepublishInterval cfg < 2 ^ 63" "sc_SimDelay cfg < 2 ^ 63"
    using assms(2) by (simp_all add: in_range_def)
  have nn: "0 \<le> sc_StabilizeInterval cfg" "0 \<le> sc_FixFingersInterval cfg" "0 \<le> sc_GossipInterval cfg" "0 \<le> sc_RepublishInterval cfg"
    "0 \<le> sc_SimDelay cfg" and p: "normalizeProtocol (sc_Protocol cfg) = sc_Protocol cfg"
    using c normal_protocol by blast+
  note ms = Milliseconds_back [OF nn(1) r(1)] Milliseconds_back [OF nn(2) r(2)] Milliseconds_back [OF nn(3) r(3)]
    Milliseconds_back [OF nn(4) r(4)] Milliseconds_back [OF nn(5) r(5)]
  have map: "mapConfig ?next = mapConfig cfg" by (simp add: mapConfig_def ms)
  have "apply_patch base (patch_of (mapConfig cfg)) = ?next"
    by (simp add: apply_patch_def patch_of_def mapConfig_def Let_def ms p)
  moreover have "check_config ?next = None" unfolding check_config_None using c ms by simp
  ultimately have m: "mergeConfig base (patch_of (mapConfig cfg)) = Inr ?next" by (simp add: mergeConfig_Inr)
  moreover have "?next = cfg" if "whole_ms cfg" using that by (simp add: whole_ms_def)
  ultimately show ?thesis using map by auto
qed

theorem config_roundtrip_witness:
  "mergeConfig (Sim_DefaultConfig\<lparr>sc_Protocol := ''kademlia''\<rparr>) (patch_of (mapConfig Sim_DefaultConfig)) = Inr Sim_DefaultConfig"
proof -
  have "check_config Sim_DefaultConfig = None" "in_range Sim_DefaultConfig" "whole_ms Sim_DefaultConfig"
    by (simp_all add: check_config_def in_range_def whole_ms_def Sim_DefaultConfig_def)
  with config_roundtrip [of Sim_DefaultConfig "Sim_DefaultConfig\<lparr>sc_Protocol := ''kademlia''\<rparr>"] show ?thesis by auto
qed

section \<open>No client request panics\<close>

lemma Read_None: "Read env q sched key (s, h) = (sh, Inr (None, x)) \<Longrightarrow> qc_R (qm_Config q) \<le> 0"
proof (rule ccontr)
  assume r: "Read env q sched key (s, h) = (sh, Inr (None, x))" and R: "\<not> qc_R (qm_Config q) \<le> 0"
  then obtain c cs where rs: "qm_FindReplicas q key s = c # cs" by (cases "qm_FindReplicas q key s") (auto simp: Read_def)
  obtain s1 res where f: "get_fanout env c key (sched (c # cs)) s = (s1, res)" by fastforce
  have "snd (Resolve now k es) \<noteq> None" if "es \<noteq> []" for now k es
    using that Resolve_winner [of es now k] by (cases es) auto
  then have res: "res = [] \<or> (\<forall>now k. \<exists>w. snd (Resolve now k (map snd res)) = Some w)" by (cases res) auto
  from r rs f R res show False
    by (auto simp: Read_def Let_def split: if_splits option.splits prod.splits)
       (metis option.distinct(1) snd_conv)+
qed

text \<open>
  C16. Validation is strong enough. In every reachable state of the orchestrator whose
  configuration the API has accepted, neither a write nor a read of a client panics, whatever
  nodes there are, whatever fails and in whatever order replicas answer.
\<close>

theorem accepted_config_no_panic:
  assumes "(orch_step sha1 fuel)\<^sup>*\<^sup>* (NewOrchestrator sha1 rng now cfg) orc" "mergeConfig base patch = Inr (o_cfg orc)"
  shows "Insert sha1 sched key v orc \<noteq> Inl f \<and> Orch_Read sha1 sched key orc \<noteq> Inl f"
proof -
  have inv: "orch_inv sha1 orc" by (rule orch_run_inv [OF assms(1) NewOrchestrator_inv])
  have "check_config (o_cfg orc) = None" using assms(2) unfolding mergeConfig_Inr by blast
  then have c: "0 \<le> sc_ReplicationN (o_cfg orc)" "0 < sc_ReadQuorum (o_cfg orc)" by (simp_all add: check_config_None)
  obtain rs where rs: "findReplicas orc (KeyID sha1 key) = Inr rs" using findReplicas_some [OF c(1)] by blast
  have R: "qc_R (qm_Config (orch_manager rs orc :: ChordNet QuorumManager)) = sc_ReadQuorum (o_cfg orc)"
    "qc_R (qm_Config (orch_manager rs orc :: KadNet QuorumManager)) = sc_ReadQuorum (o_cfg orc)"
    using inv by (simp_all add: orch_manager_def NewQuorumManager_def Let_def orch_inv_def transport_ok_def)
  have "Insert sha1 sched key v orc \<noteq> Inl f" using rs by (simp add: Insert_def Let_def split: prod.splits sum.splits)
  moreover have "quorum_read sha1 sched rs k orc \<noteq> (orc', Inr None)" for k orc'
  proof
    assume q: "quorum_read sha1 sched rs k orc = (orc', Inr None)"
    have none: "\<exists>x. r = Inr (None, x)" if "queue_repair o1 r = (orc', Inr None)" for o1 r
      using that by (auto simp: queue_repair_def split: sum.splits prod.splits)
    show False
    proof (cases "sc_Protocol (o_cfg orc) = ''chord''")
      case True
      obtain net h r where rd: "Read chord_env (orch_manager rs orc) sched k (chord_net orc, o_history orc) = ((net, h), r)" by (metis prod.collapse)
      with q True obtain x where "r = Inr (None, x)" by (auto simp: quorum_read_def dest: none)
      with Read_None [of _ _ sched k _ _ "(net, h)" x] rd c(2) R show False by fastforce
    next
      case False
      obtain net h r where rd: "Read (kad_env sha1) (orch_manager rs orc) sched k (kad_net orc, o_history orc) = ((net, h), r)" by (metis prod.collapse)
      with q False obtain x where "r = Inr (None, x)" by (auto simp: quorum_read_def dest: none)
      with Read_None [of _ _ sched k _ _ "(net, h)" x] rd c(2) R show False by fastforce
    qed
  qed
  ultimately show ?thesis using rs by (auto simp: Orch_Read_def Let_def split: prod.splits sum.splits option.splits)
qed

theorem accepted_config_no_panic_witness:
  "Insert demo_hash id ''k'' ''v'' (demo_new ''chord'') \<noteq> Inl Panic \<and> Orch_Read demo_hash id ''k'' (demo_new ''chord'') \<noteq> Inl Panic"
proof -
  let ?c = "Sim_DefaultConfig\<lparr>sc_Protocol := ''chord'', sc_WriteQuorum := 1, sc_ReadQuorum := 1\<rparr>"
  have run: "(orch_step demo_hash 0)\<^sup>*\<^sup>* (NewOrchestrator demo_hash (\<lambda>_. 0) 0 (Some ?c)) (demo_new ''chord'')" by (simp add: demo_new_def)
  have cfg: "o_cfg (demo_new ''chord'') = ?c" by (simp add: demo_new_def NewOrchestrator_def Let_def)
  have p: "check_config ?c = None" "in_range ?c" "whole_ms ?c" by (simp_all add: check_config_def in_range_def whole_ms_def Sim_DefaultConfig_def)
  have "apply_patch ?c (patch_of (mapConfig ?c)) = ?c"
    by (simp add: apply_patch_def patch_of_def mapConfig_def Sim_DefaultConfig_def normal_protocol Milliseconds_back Let_def)
  then have "mergeConfig ?c (patch_of (mapConfig ?c)) = Inr (o_cfg (demo_new ''chord''))" by (simp add: mergeConfig_Inr cfg p(1))
  from accepted_config_no_panic [OF run this] show ?thesis by blast
qed

end
