(* ===== verification/Scenarios.thy ===== *)
theory Scenarios
  imports Gateway_Admission
begin

text \<open>
  The scenarios, \<^verbatim>\<open>internal/simulation/scenarios.go\<close>: programs that drive the orchestrator, sleep
  and publish their progress. What the rest of the system does during a sleep, the background
  steps of the nodes and the passing of time included, is the argument \<open>se_sleep\<close>; whether the
  context is done at its \<open>i\<close>-th check is \<open>se_done i\<close>. Between sleeps a scenario runs without
  interference. The rendering of a float with two digits is an argument.
\<close>

section \<open>Environment and progress events\<close>

record Scenario_Env =
  se_fuel :: nat
  se_sha1 :: sha1_fn
  se_sched :: "Contact list \<Rightarrow> Contact list"
  se_order :: "NodeRef list \<Rightarrow> NodeRef list"
  se_format :: "time \<Rightarrow> string"
  se_fmt2f :: "rat \<Rightarrow> string"
  se_sleep :: "duration \<Rightarrow> Orchestrator \<Rightarrow> Orchestrator"
  se_done :: "nat \<Rightarrow> bool"

datatype scenario_error = SContext | SSpawn int orch_error | SInsert string orch_error | STooFewNodes nat

type_synonym scenario_result = "(fault + Orchestrator \<times> (scenario_error + unit)) option"

definition publishStep :: "string \<Rightarrow> int \<Rightarrow> int \<Rightarrow> string \<Rightarrow> (string \<times> step_value) list \<Rightarrow> Orchestrator \<Rightarrow> Orchestrator" where
  "publishStep scenario step tot msg data orc = orch_publish EventScenarioStep (StepEventPayload scenario step tot msg data) orc"

text \<open>A pause of \<open>k\<close> stabilization intervals, a signed 64-bit product.\<close>

definition pause :: "Scenario_Env \<Rightarrow> int \<Rightarrow> Orchestrator \<Rightarrow> Orchestrator" where
  "pause env k orc = se_sleep env (signed_take_bit 63 (sc_StabilizeInterval (o_cfg orc) * k)) orc"

definition spawn :: "Scenario_Env \<Rightarrow> Orchestrator \<Rightarrow> Node orch_result" where
  "spawn env orc = SpawnNode (se_fuel env) (se_sha1 env) (se_sched env) [] orc"

definition kill_all :: "Scenario_Env \<Rightarrow> Orchestrator \<Rightarrow> Orchestrator" where
  "kill_all env orc = fold (\<lambda>n orc. fst (KillNode (ns_Addr n) orc)) (nw_Nodes (GetNetworkState (se_format env) orc)) orc"

definition fmt_int :: "int \<Rightarrow> string" where
  "fmt_int i = (if i < 0 then ''-'' @ fmt_d (nat (- i)) else fmt_d (nat i))"

section \<open>Bootstrap\<close>

fun bootstrap_loop :: "Scenario_Env \<Rightarrow> nat \<Rightarrow> nat \<Rightarrow> nat \<Rightarrow> Orchestrator \<Rightarrow> scenario_result" where
  "bootstrap_loop env target i 0 orc = Some (Inr (orc, Inr ()))"
| "bootstrap_loop env target i (Suc k) orc =
     (if se_done env i then Some (Inr (orc, Inl SContext))
      else case spawn env orc of
             None \<Rightarrow> None
           | Some (Inl f) \<Rightarrow> Some (Inl f)
           | Some (Inr (orc, Inl e)) \<Rightarrow> Some (Inr (orc, Inl (SSpawn (int i + 1) e)))
           | Some (Inr (orc, Inr _)) \<Rightarrow>
               let orc = pause env 2 orc;
                   orc = publishStep ''bootstrap'' (int i + 1) (int target)
                     (''spawned node '' @ fmt_d (i + 1) @ ''/'' @ fmt_d target @ '', total='' @ fmt_d (NodeCount orc))
                     [(''nodeCount'', StepInt (int (NodeCount orc)))] orc
               in bootstrap_loop env target (Suc i) k orc)"

definition ScenarioBootstrap :: "Scenario_Env \<Rightarrow> int \<Rightarrow> Orchestrator \<Rightarrow> scenario_result" where
  "ScenarioBootstrap env targetNodes orc =
     (let targetNodes = (if targetNodes < 1 then 10 else targetNodes);
          orc = kill_all env orc;
          orc = se_sleep env (100 * 10 ^ 6) orc
      in bootstrap_loop env (nat targetNodes) 0 (nat targetNodes) orc)"

section \<open>Churn\<close>

lemma length_gm_put: "length (gm_put k v m) = (if map_of m k = None then Suc (length m) else length m)"
proof -
  have "length (AList.update k v m) = (if k \<in> fst ` set m then length m else Suc (length m))" for m :: "('a \<times> 'b) list"
    by (induction m) auto
  then show ?thesis by (simp add: gm_put_def map_of_eq_None_iff)
qed

lemma spawn_count:
  assumes "SpawnNode fuel sha1 sched addr orc = Some (Inr (orc', Inr n))"
  shows "NodeCount orc' = Suc (NodeCount orc)"
  using assms
  by (auto simp: SpawnNode_def spawnChordNode_def spawnKadNode_def Let_def NodeCount_def length_gm_put add_chord_node_def add_kad_node_def
      with_chord_def with_kad_def split: if_splits option.splits sum.splits prod.splits)

text \<open>The loops that spawn nodes until there are \<open>target\<close> of them.\<close>

function (sequential) fill_nodes :: "Scenario_Env \<Rightarrow> int \<Rightarrow> Orchestrator \<Rightarrow> (fault + Orchestrator \<times> (orch_error + unit)) option" where
  "fill_nodes env target orc =
     (if int (NodeCount orc) < target
      then (case spawn env orc of
              None \<Rightarrow> None
            | Some (Inl f) \<Rightarrow> Some (Inl f)
            | Some (Inr (orc', Inl e)) \<Rightarrow> Some (Inr (orc', Inl e))
            | Some (Inr (orc', Inr _)) \<Rightarrow> fill_nodes env target orc')
      else Some (Inr (orc, Inr ())))"
  by pat_completeness auto
termination
  by (relation "measure (\<lambda>(env, target, orc). nat (target - int (NodeCount orc)))") (auto simp: spawn_def dest: spawn_count)

declare fill_nodes.simps [simp del]

definition churn_kill :: "Scenario_Env \<Rightarrow> nat \<Rightarrow> Orchestrator \<Rightarrow> Orchestrator" where
  "churn_kill env step orc =
     (let nodes = nw_Nodes (GetNetworkState (se_format env) orc)
      in if length nodes > 1
         then let victim = ns_Addr (nodes ! (step mod length nodes));
                  orc = fst (KillNode victim orc)
              in publishStep ''churn'' (int step) (-1)
                   (''killed node '' @ victim @ '', remaining='' @ fmt_d (NodeCount orc))
                   [(''action'', StepString ''kill''), (''addr'', StepString victim), (''nodeCount'', StepInt (int (NodeCount orc)))] orc
         else orc)"

partial_function (option) churn_loop :: "Scenario_Env \<Rightarrow> time \<Rightarrow> nat \<Rightarrow> Orchestrator \<Rightarrow> scenario_result" where
  "churn_loop env deadline step orc =
     (if o_now orc < deadline
      then if se_done env step then Some (Inr (orc, Inl SContext))
           else (case spawn env (pause env 2 (churn_kill env (Suc step) orc)) of
                   None \<Rightarrow> None
                 | Some (Inl f) \<Rightarrow> Some (Inl f)
                 | Some (Inr (orc, r)) \<Rightarrow>
                     churn_loop env deadline (Suc step) (pause env 2
                       (case r of
                          Inl e \<Rightarrow> orc
                        | Inr _ \<Rightarrow> publishStep ''churn'' (int (Suc step)) (-1) (''spawned new node, total='' @ fmt_d (NodeCount orc))
                            [(''action'', StepString ''spawn''), (''nodeCount'', StepInt (int (NodeCount orc)))] orc)))
      else Some (Inr (orc, Inr ())))"

definition ScenarioChurn :: "Scenario_Env \<Rightarrow> duration \<Rightarrow> int \<Rightarrow> Orchestrator \<Rightarrow> scenario_result" where
  "ScenarioChurn env dur targetNodes orc =
     (let targetNodes = (if targetNodes < 2 then 6 else targetNodes) in
      case fill_nodes env targetNodes orc of
        None \<Rightarrow> None
      | Some (Inl f) \<Rightarrow> Some (Inl f)
      | Some (Inr (orc, Inl e)) \<Rightarrow> Some (Inr (orc, Inl (SSpawn 0 e)))
      | Some (Inr (orc, Inr _)) \<Rightarrow>
          let orc = pause env 3 orc in churn_loop env (o_now orc + dur) 0 orc)"

section \<open>Partition\<close>

fun insert_keys :: "Scenario_Env \<Rightarrow> nat \<Rightarrow> string list \<Rightarrow> Orchestrator \<Rightarrow> fault + Orchestrator \<times> (scenario_error + unit)" where
  "insert_keys env i [] orc = Inr (orc, Inr ())"
| "insert_keys env i (key # keys) orc =
     (case Insert (se_sha1 env) (se_order env) key (''partition-val-'' @ fmt_d i) orc of
        Inl f \<Rightarrow> Inl f
      | Inr (orc, Inl e) \<Rightarrow> Inr (orc, Inl (SInsert key e))
      | Inr (orc, Inr _) \<Rightarrow> insert_keys env (Suc i) keys orc)"

fun count_readable :: "Scenario_Env \<Rightarrow> string list \<Rightarrow> nat \<Rightarrow> Orchestrator \<Rightarrow> fault + Orchestrator \<times> nat" where
  "count_readable env [] cnt orc = Inr (orc, cnt)"
| "count_readable env (key # keys) cnt orc =
     (case Orch_Read (se_sha1 env) (se_order env) key orc of
        Inl f \<Rightarrow> Inl f
      | Inr (orc, Inl e) \<Rightarrow> count_readable env keys cnt orc
      | Inr (orc, Inr _) \<Rightarrow> count_readable env keys (cnt + 1) orc)"

definition split_halves :: "NodeState list \<Rightarrow> string list list" where
  "split_halves nodes = (let mid = length nodes div 2 in [map ns_Addr (take mid nodes), map ns_Addr (drop mid nodes)])"

text \<open>The part after the partition has been set: the observation ends by time or by the context.\<close>

definition observe_and_heal :: "Scenario_Env \<Rightarrow> string list \<Rightarrow> duration \<Rightarrow> Orchestrator \<Rightarrow> fault + Orchestrator \<times> (scenario_error + unit)" where
  "observe_and_heal env keys observationDur orc =
     (let orc = se_sleep env observationDur orc
      in if se_done env 0 then Inr (HealPartition orc, Inl SContext)
         else
           let orc = publishStep ''partition'' 2 3 ''healing partition'' [] orc;
               healTime = o_now orc;
               orc = pause env 3 (HealPartition orc)
           in case count_readable env keys 0 orc of
                Inl f \<Rightarrow> Inl f
              | Inr (orc, cnt) \<Rightarrow>
                  Inr (publishStep ''partition'' 3 3 ''convergence measured''
                        [(''keysReadable'', StepInt (int cnt)), (''keysTotal'', StepInt (int (length keys))),
                         (''convergenceMs'', StepInt (Milliseconds (time_Sub (o_now orc) healTime)))] orc, Inr ()))"

definition ScenarioPartition :: "Scenario_Env \<Rightarrow> string list \<Rightarrow> duration \<Rightarrow> Orchestrator \<Rightarrow> fault + Orchestrator \<times> (scenario_error + unit)" where
  "ScenarioPartition env keys observationDur orc =
     (case insert_keys env 0 keys orc of
        Inl f \<Rightarrow> Inl f
      | Inr (orc, Inl e) \<Rightarrow> Inr (orc, Inl e)
      | Inr (orc, Inr _) \<Rightarrow>
          let orc = pause env 2 orc;
              nodes = nw_Nodes (GetNetworkState (se_format env) orc)
          in if length nodes < 2 then Inr (orc, Inl (STooFewNodes (length nodes)))
             else
               let groups = split_halves nodes;
                   orc = publishStep ''partition'' 1 3 ''setting network partition''
                     [(''group1Size'', StepInt (int (length (groups ! 0)))), (''group2Size'', StepInt (int (length (groups ! 1))))] orc
               in observe_and_heal env keys observationDur (SetPartition groups orc))"

section \<open>Hot keys\<close>

definition fmt_06d :: "nat \<Rightarrow> string" where
  "fmt_06d i = replicate (6 - length (fmt_d i)) CHR ''0'' @ fmt_d i"

fun hotkey_loop :: "Scenario_Env \<Rightarrow> nat \<Rightarrow> nat \<Rightarrow> nat \<Rightarrow> Orchestrator \<Rightarrow> fault + Orchestrator \<times> (scenario_error + unit)" where
  "hotkey_loop env keyCount i 0 orc = Inr (orc, Inr ())"
| "hotkey_loop env keyCount i (Suc k) orc =
     (if se_done env i then Inr (orc, Inl SContext)
      else case Insert (se_sha1 env) (se_order env) (''hotkey-'' @ fmt_06d i) (''v'' @ fmt_d i) orc of
             Inl f \<Rightarrow> Inl f
           | Inr (orc, _) \<Rightarrow>
               hotkey_loop env keyCount (Suc i) k
                 (if (i + 1) mod 100 = 0
                  then publishStep ''hotkey'' (int i + 1) (int keyCount) (''inserted '' @ fmt_d (i + 1) @ ''/'' @ fmt_d keyCount @ '' keys'')
                    [(''keysInserted'', StepInt (int i + 1))] orc
                  else orc))"

definition ScenarioHotKey :: "Scenario_Env \<Rightarrow> int \<Rightarrow> Orchestrator \<Rightarrow> fault + Orchestrator \<times> (scenario_error + unit)" where
  "ScenarioHotKey env keyCount orc =
     (let keyCount = (if keyCount \<le> 0 then 1000 else keyCount) in
      case hotkey_loop env (nat keyCount) 0 (nat keyCount) orc of
        Inl f \<Rightarrow> Inl f
      | Inr (orc, Inl e) \<Rightarrow> Inr (orc, Inl e)
      | Inr (orc, Inr _) \<Rightarrow>
          let counts = fold (\<lambda>n. gm_put (ns_Addr n) (StepInt (ns_KeyCount n))) (nw_Nodes (GetNetworkState (se_format env) orc)) []
          in Inr (publishStep ''hotkey'' keyCount keyCount ''load distribution measured'' counts orc, Inr ()))"

section \<open>Benchmark\<close>

text \<open>One traced lookup: the hops, if it succeeds.\<close>

definition try_lookup :: "Scenario_Env \<Rightarrow> string \<Rightarrow> Orchestrator \<Rightarrow> (fault + Orchestrator \<times> int option) option" where
  "try_lookup env key orc =
     (case Lookup (se_fuel env) (se_sched env) (se_sha1 env) key orc of
        None \<Rightarrow> None
      | Some (Inl f) \<Rightarrow> Some (Inl f)
      | Some (Inr (orc, Inl e)) \<Rightarrow> Some (Inr (orc, None))
      | Some (Inr (orc, Inr trace)) \<Rightarrow> Some (Inr (orc, Some (tr_TotalHops trace))))"

fun bench_lookups :: "Scenario_Env \<Rightarrow> string \<Rightarrow> nat \<Rightarrow> nat \<Rightarrow> int \<Rightarrow> nat \<Rightarrow> Orchestrator \<Rightarrow> (fault + Orchestrator \<times> int \<times> nat) option" where
  "bench_lookups env key i 0 totalHops successes orc = Some (Inr (orc, totalHops, successes))"
| "bench_lookups env key i (Suc k) totalHops successes orc =
     (case try_lookup env (key @ ''-'' @ fmt_d i) orc of
        None \<Rightarrow> None
      | Some (Inl f) \<Rightarrow> Some (Inl f)
      | Some (Inr (orc, Some hops)) \<Rightarrow> bench_lookups env key (Suc i) k (totalHops + hops) (successes + 1) orc
      | Some (Inr (orc, None)) \<Rightarrow>
          (case try_lookup env key orc of
             None \<Rightarrow> None
           | Some (Inl f) \<Rightarrow> Some (Inl f)
           | Some (Inr (orc, Some hops)) \<Rightarrow> bench_lookups env key (Suc i) k (totalHops + hops) (successes + 1) orc
           | Some (Inr (orc, None)) \<Rightarrow> bench_lookups env key (Suc i) k totalHops successes orc))"

text \<open>The report of one network size; the rounded-up binary logarithm of \<open>n\<close> is the bit length of \<open>n - 1\<close>.\<close>

definition bench_report :: "Scenario_Env \<Rightarrow> int \<Rightarrow> int \<Rightarrow> int \<Rightarrow> nat \<Rightarrow> Orchestrator \<Rightarrow> Orchestrator" where
  "bench_report env step n totalHops successes orc =
     (let avgHops = (if successes > 0 then of_int totalHops / of_nat successes else 0);
          expectedMax = BitLen (nat n - 1) + 2
      in publishStep ''benchmark'' step (-1)
           (''n='' @ fmt_int n @ '': avg hops='' @ se_fmt2f env avgHops @ '' (expected'' @ map char_of [226, 137, 164 :: nat] @ fmt_d expectedMax @ '')'')
           [(''nodes'', StepInt n), (''avgHops'', StepFloat avgHops), (''expectedMax'', StepInt (int expectedMax)),
            (''successes'', StepInt (int successes))] orc)"

definition bench_inc :: "int \<Rightarrow> int \<Rightarrow> int" where
  "bench_inc minNodes maxNodes = max 1 ((maxNodes - minNodes) div 5)"

function (sequential) bench_loop :: "Scenario_Env \<Rightarrow> int \<Rightarrow> int \<Rightarrow> int \<Rightarrow> int \<Rightarrow> int \<Rightarrow> Orchestrator \<Rightarrow> scenario_result" where
  "bench_loop env minNodes maxNodes lookupsPerStep step n orc =
     (if n \<le> maxNodes
      then if se_done env (nat step) then Some (Inr (orc, Inl SContext))
           else (case fill_nodes env n orc of
                   None \<Rightarrow> None
                 | Some (Inl f) \<Rightarrow> Some (Inl f)
                 | Some (Inr (orc, Inl e)) \<Rightarrow> Some (Inr (orc, Inl (SSpawn 0 e)))
                 | Some (Inr (orc, Inr _)) \<Rightarrow>
                     let orc = pause env 4 orc; key = ''bench-key-n'' @ fmt_int n in
                     (case Insert (se_sha1 env) (se_order env) key ''bench-value'' orc of
                        Inl f \<Rightarrow> Some (Inl f)
                      | Inr (orc, _) \<Rightarrow>
                          (case bench_lookups env key 0 (nat lookupsPerStep) 0 0 orc of
                             None \<Rightarrow> None
                           | Some (Inl f) \<Rightarrow> Some (Inl f)
                           | Some (Inr (orc, totalHops, successes)) \<Rightarrow>
                               let orc = bench_report env (step + 1) n totalHops successes orc
                               in if n = maxNodes then Some (Inr (orc, Inr ()))
                                  else bench_loop env minNodes maxNodes lookupsPerStep (step + 1) (n + bench_inc minNodes maxNodes) orc)))
      else Some (Inr (orc, Inr ())))"
  by pat_completeness auto
termination
  by (relation "measure (\<lambda>(env, minNodes, maxNodes, lookups, step, n, orc). nat (maxNodes + 1 - n))") (auto simp: bench_inc_def)

declare bench_loop.simps [simp del]

definition ScenarioBenchmark :: "Scenario_Env \<Rightarrow> int \<Rightarrow> int \<Rightarrow> int \<Rightarrow> Orchestrator \<Rightarrow> scenario_result" where
  "ScenarioBenchmark env minNodes maxNodes lookupsPerStep orc =
     (let minNodes = (if minNodes < 2 then 10 else minNodes);
          maxNodes = (if maxNodes < minNodes then minNodes * 5 else maxNodes);
          lookupsPerStep = (if lookupsPerStep < 1 then 20 else lookupsPerStep);
          orc = kill_all env orc;
          orc = se_sleep env (200 * 10 ^ 6) orc
      in bench_loop env minNodes maxNodes lookupsPerStep 0 minNodes orc)"

end
