(* ===== verification/Scenario_Lemmas.thy ===== *)
theory Scenario_Lemmas
  imports Scenarios
begin

text \<open>
  What the scenarios do to the network: every predicate that the operations of the orchestrator
  and the sleeps keep survives a scenario, a bootstrap yields exactly the requested nodes, and
  the partition scenario observes two separated halves and lifts the partition.
\<close>

section \<open>Predicates kept by the operations\<close>

locale scenario_kept =
  fixes env :: Scenario_Env and P :: "Orchestrator \<Rightarrow> bool"
  assumes sleep_kept: "P orc \<Longrightarrow> P (se_sleep env d orc)"
    and publish_kept: "P orc \<Longrightarrow> P (orch_publish t p orc)"
    and spawn_kept: "SpawnNode (se_fuel env) (se_sha1 env) (se_sched env) a orc = Some (Inr (orc', r)) \<Longrightarrow> P orc \<Longrightarrow> P orc'"
    and kill_kept: "P orc \<Longrightarrow> P (fst (KillNode a orc))"
    and insert_kept: "Insert (se_sha1 env) (se_order env) key v orc = Inr (orc', u) \<Longrightarrow> P orc \<Longrightarrow> P orc'"
    and read_kept: "Orch_Read (se_sha1 env) (se_order env) key orc = Inr (orc', b) \<Longrightarrow> P orc \<Longrightarrow> P orc'"
    and lookup_kept: "Lookup (se_fuel env) (se_sched env) (se_sha1 env) key orc = Some (Inr (orc', tr)) \<Longrightarrow> P orc \<Longrightarrow> P orc'"
    and partition_kept: "P orc \<Longrightarrow> P (SetPartition groups orc)"
    and heal_kept: "P orc \<Longrightarrow> P (HealPartition orc)"
begin

lemma pause_kept: "P orc \<Longrightarrow> P (pause env k orc)"
  by (simp add: pause_def sleep_kept)

lemma step_kept: "P orc \<Longrightarrow> P (publishStep s i n m d orc)"
  by (simp add: publishStep_def publish_kept)

lemma kill_all_kept: "P orc \<Longrightarrow> P (kill_all env orc)"
  unfolding kill_all_def by (rule fold_keeps [where P = P]) (auto intro: kill_kept)

lemma spawned_kept: "spawn env orc = Some (Inr (orc', r)) \<Longrightarrow> P orc \<Longrightarrow> P orc'"
  unfolding spawn_def by (rule spawn_kept)

lemma bootstrap_loop_kept: "bootstrap_loop env n i k orc = Some (Inr (orc', r)) \<Longrightarrow> P orc \<Longrightarrow> P orc'"
proof (induction k arbitrary: i orc)
  case (Suc k)
  show ?case
  proof (cases "se_done env i")
    case False
    with Suc.prems(1) obtain orc1 x where sp: "spawn env orc = Some (Inr (orc1, x))" by (auto split: option.splits sum.splits)
    with spawned_kept Suc.prems(2) have P1: "P orc1" by blast
    show ?thesis
    proof (cases x)
      case (Inr n')
      from Suc.prems(1) False sp Inr have "bootstrap_loop env n (Suc i) k (publishStep ''bootstrap'' (int i + 1) (int n)
          (''spawned node '' @ fmt_d (i + 1) @ ''/'' @ fmt_d n @ '', total='' @ fmt_d (NodeCount (pause env 2 orc1)))
          [(''nodeCount'', StepInt (int (NodeCount (pause env 2 orc1))))] (pause env 2 orc1)) = Some (Inr (orc', r))"
        by (simp add: Let_def)
      then show ?thesis by (rule Suc.IH) (rule step_kept, rule pause_kept, rule P1)
    qed (use Suc.prems(1) False sp P1 in simp)
  qed (use Suc.prems in simp)
qed simp

lemma Bootstrap_kept: "ScenarioBootstrap env n orc = Some (Inr (orc', r)) \<Longrightarrow> P orc \<Longrightarrow> P orc'"
  unfolding ScenarioBootstrap_def Let_def by (erule bootstrap_loop_kept) (rule sleep_kept, rule kill_all_kept)

lemma fill_nodes_kept: "fill_nodes env t orc = Some (Inr (orc', r)) \<Longrightarrow> P orc \<Longrightarrow> P orc'"
proof (induction "nat (t - int (NodeCount orc))" arbitrary: orc rule: less_induct)
  case less
  note unf = less.prems(1) [unfolded fill_nodes.simps [of env t orc]]
  show ?case
  proof (cases "int (NodeCount orc) < t")
    case True
    with unf obtain orc1 x where sp: "spawn env orc = Some (Inr (orc1, x))" by (auto split: option.splits sum.splits)
    with spawned_kept less.prems(2) have P1: "P orc1" by blast
    show ?thesis
    proof (cases x)
      case (Inr n')
      have "NodeCount orc1 = Suc (NodeCount orc)" using sp Inr spawn_count unfolding spawn_def by blast
      then have "nat (t - int (NodeCount orc1)) < nat (t - int (NodeCount orc))" using True by simp
      from less.hyps [OF this _ P1] unf True sp Inr show ?thesis by simp
    qed (use unf True sp P1 in simp)
  qed (use unf less.prems in simp)
qed

lemma churn_kill_kept: "P orc \<Longrightarrow> P (churn_kill env k orc)"
  by (simp add: churn_kill_def Let_def step_kept kill_kept)

lemma churn_loop_kept:
  assumes "churn_loop env d k orc = Some (Inr (orc', r))" "P orc"
  shows "P orc'"
proof -
  have "env = env \<longrightarrow> P orc \<longrightarrow> (\<forall>o2 r2. (Inr (orc', r) :: fault + Orchestrator \<times> (scenario_error + unit)) = Inr (o2, r2) \<longrightarrow> P o2)"
  proof (rule churn_loop.raw_induct [where P = "\<lambda>e d k orc y. e = env \<longrightarrow> P orc \<longrightarrow> (\<forall>o2 r2. y = Inr (o2, r2) \<longrightarrow> P o2)", OF _ assms(1)],
      intro impI allI)
    fix f e d k s y o2 r2
    assume ih: "\<And>d k s b y. f d k s b = Some y \<Longrightarrow> d = env \<longrightarrow> P b \<longrightarrow> (\<forall>o2 r2. y = Inr (o2, r2) \<longrightarrow> P o2)"
      and body: "(if o_now s < d
      then if se_done e k then Some (Inr (s, Inl SContext))
           else (case spawn e (pause e 2 (churn_kill e (Suc k) s)) of
                   None \<Rightarrow> None
                 | Some (Inl f) \<Rightarrow> Some (Inl f)
                 | Some (Inr (orc, r)) \<Rightarrow>
                     f e d (Suc k) (pause e 2
                       (case r of
                          Inl e \<Rightarrow> orc
                        | Inr _ \<Rightarrow> publishStep ''churn'' (int (Suc k)) (-1) (''spawned new node, total='' @ fmt_d (NodeCount orc))
                            [(''action'', StepString ''spawn''), (''nodeCount'', StepInt (int (NodeCount orc)))] orc)))
      else Some (Inr (s, Inr ()))) = Some y"
      and e: "e = env" "P s" and y: "y = Inr (o2, r2)"
    show "P o2"
    proof (cases "o_now s < d \<and> \<not> se_done e k")
      case True
      with body y obtain s1 x where sp: "spawn env (pause env 2 (churn_kill env (Suc k) s)) = Some (Inr (s1, x))"
        by (auto simp: e(1) split: option.splits sum.splits)
      then have "P s1" using spawned_kept pause_kept churn_kill_kept e(2) by blast
      then have "P (pause env 2 (case x of Inl e \<Rightarrow> s1
                        | Inr _ \<Rightarrow> publishStep ''churn'' (int (Suc k)) (-1) (''spawned new node, total='' @ fmt_d (NodeCount s1))
                            [(''action'', StepString ''spawn''), (''nodeCount'', StepInt (int (NodeCount s1)))] s1))" (is "P ?s2")
        by (cases x) (simp_all add: pause_kept step_kept)
      moreover have "f env d (Suc k) ?s2 = Some y" using body True sp e(1) by simp
      ultimately show ?thesis using ih y by blast
    next
      case False
      with body y have "o2 = s" by (auto split: if_splits)
      with e(2) show ?thesis by simp
    qed
  qed
  with assms(2) show ?thesis by simp
qed

lemma Churn_kept: "ScenarioChurn env dur n orc = Some (Inr (orc', r)) \<Longrightarrow> P orc \<Longrightarrow> P orc'"
  by (auto simp: ScenarioChurn_def Let_def split: option.splits sum.splits dest!: fill_nodes_kept)
     (erule churn_loop_kept, erule pause_kept)

lemma insert_keys_kept: "insert_keys env i keys orc = Inr (orc', r) \<Longrightarrow> P orc \<Longrightarrow> P orc'"
  by (induction keys arbitrary: i orc) (auto split: sum.splits prod.splits dest: insert_kept)

lemma count_readable_kept: "count_readable env keys n orc = Inr (orc', m) \<Longrightarrow> P orc \<Longrightarrow> P orc'"
  by (induction keys arbitrary: n orc) (auto split: sum.splits prod.splits dest: read_kept)

lemma observe_kept:
  assumes "observe_and_heal env keys d orc = Inr (orc', r)" "P orc"
  shows "P orc'"
proof -
  let ?o = "pause env 3 (HealPartition (publishStep ''partition'' 2 3 ''healing partition'' [] (se_sleep env d orc)))"
  have "P ?o" using assms(2) by (simp add: pause_kept heal_kept step_kept sleep_kept)
  then show ?thesis
    using assms
    by (auto simp: observe_and_heal_def Let_def split: if_splits sum.splits prod.splits intro: heal_kept sleep_kept dest!: count_readable_kept intro!: step_kept)
qed

lemma Partition_kept:
  assumes "ScenarioPartition env keys d orc = Inr (orc', r)" "P orc"
  shows "P orc'"
proof -
  obtain orc1 x where k: "insert_keys env 0 keys orc = Inr (orc1, x)" using assms(1) by (auto simp: ScenarioPartition_def split: sum.splits)
  then have "P orc1" using insert_keys_kept assms(2) by blast
  then have "P (pause env 2 orc1)" by (rule pause_kept)
  with assms(1) k \<open>P orc1\<close> show ?thesis
    by (auto simp: ScenarioPartition_def Let_def split: sum.splits if_splits dest!: observe_kept intro: partition_kept step_kept)
qed

lemma hotkey_loop_kept: "hotkey_loop env n i k orc = Inr (orc', r) \<Longrightarrow> P orc \<Longrightarrow> P orc'"
proof (induction k arbitrary: i orc)
  case (Suc k)
  show ?case
  proof (cases "se_done env i")
    case False
    with Suc.prems(1) obtain orc1 x where ins: "Insert (se_sha1 env) (se_order env) (''hotkey-'' @ fmt_06d i) (''v'' @ fmt_d i) orc = Inr (orc1, x)"
      by (auto split: sum.splits)
    with Suc.prems(2) insert_kept have P1: "P orc1" by blast
    from Suc.prems(1) False ins have "hotkey_loop env n (Suc i) k (if (i + 1) mod 100 = 0
        then publishStep ''hotkey'' (int i + 1) (int n) (''inserted '' @ fmt_d (i + 1) @ ''/'' @ fmt_d n @ '' keys'') [(''keysInserted'', StepInt (int i + 1))] orc1
        else orc1) = Inr (orc', r)" by simp
    then show ?thesis by (rule Suc.IH) (simp add: P1 step_kept)
  qed (use Suc.prems in simp)
qed simp

lemma HotKey_kept: "ScenarioHotKey env n orc = Inr (orc', r) \<Longrightarrow> P orc \<Longrightarrow> P orc'"
  by (auto simp: ScenarioHotKey_def Let_def split: sum.splits dest!: hotkey_loop_kept intro: step_kept)

lemma try_lookup_kept: "try_lookup env key orc = Some (Inr (orc', h)) \<Longrightarrow> P orc \<Longrightarrow> P orc'"
  by (auto simp: try_lookup_def split: option.splits sum.splits prod.splits dest: lookup_kept)

lemma bench_lookups_kept: "bench_lookups env key i k h n orc = Some (Inr (orc', r)) \<Longrightarrow> P orc \<Longrightarrow> P orc'"
proof (induction k arbitrary: i h n orc)
  case (Suc k)
  then obtain orc1 x where t: "try_lookup env (key @ ''-'' @ fmt_d i) orc = Some (Inr (orc1, x))" by (auto split: option.splits sum.splits)
  with try_lookup_kept Suc.prems(2) have P1: "P orc1" by blast
  show ?case
  proof (cases x)
    case None
    with Suc.prems(1) t obtain orc2 y where t2: "try_lookup env key orc1 = Some (Inr (orc2, y))" by (auto split: option.splits sum.splits)
    with try_lookup_kept P1 have "P orc2" by blast
    with Suc t t2 None show ?thesis by (cases y) auto
  qed (use Suc t P1 in auto)
qed simp

lemma bench_loop_kept: "bench_loop env m M l st n orc = Some (Inr (orc', r)) \<Longrightarrow> P orc \<Longrightarrow> P orc'"
proof (induction "nat (M + 1 - n)" arbitrary: st n orc rule: less_induct)
  case less
  note unf = less.prems(1) [unfolded bench_loop.simps [of env m M l st n orc]]
  show ?case
  proof (cases "n \<le> M \<and> \<not> se_done env (nat st)")
    case True
    with unf obtain orc1 x where f: "fill_nodes env n orc = Some (Inr (orc1, x))" by (auto split: option.splits sum.splits)
    with fill_nodes_kept less.prems(2) have P1: "P orc1" by blast
    show ?thesis
    proof (cases x)
      case (Inr u)
      let ?key = "''bench-key-n'' @ fmt_int n" and ?orc2 = "pause env 4 orc1"
      from unf True f Inr obtain orc3 y where ins: "Insert (se_sha1 env) (se_order env) ?key ''bench-value'' ?orc2 = Inr (orc3, y)"
        by (auto simp: Let_def split: sum.splits)
      with insert_kept pause_kept P1 have P3: "P orc3" by blast
      from unf True f Inr ins obtain orc4 h s where b: "bench_lookups env ?key 0 (nat l) 0 0 orc3 = Some (Inr (orc4, h, s))"
        by (auto simp: Let_def split: option.splits sum.splits)
      with bench_lookups_kept P3 have "P orc4" by blast
      then have P5: "P (bench_report env (st + 1) n h s orc4)" by (simp add: bench_report_def Let_def step_kept)
      have "nat (M + 1 - (n + bench_inc m M)) < nat (M + 1 - n)" using True by (simp add: bench_inc_def)
      from less.hyps [OF this _ P5] unf True f Inr ins b P5 show ?thesis by (auto simp: Let_def split: if_splits)
    qed (use unf True f P1 in simp)
  qed (use unf less.prems in \<open>auto split: if_splits\<close>)
qed

lemma Benchmark_kept: "ScenarioBenchmark env m M l orc = Some (Inr (orc', r)) \<Longrightarrow> P orc \<Longrightarrow> P orc'"
  unfolding ScenarioBenchmark_def Let_def by (erule bench_loop_kept) (rule sleep_kept, rule kill_all_kept)

end

section \<open>The books\<close>

text \<open>An environment whose sleeps only let time pass.\<close>

definition quiet_env :: "sha1_fn \<Rightarrow> Scenario_Env" where
  "quiet_env sha1 = \<lparr>se_fuel = 1000, se_sha1 = sha1, se_sched = id, se_order = id, se_format = (\<lambda>_. []), se_fmt2f = (\<lambda>_. []),
     se_sleep = (\<lambda>d orc. orc\<lparr>o_now := o_now orc + max 0 d\<rparr>), se_done = (\<lambda>_. False)\<rparr>"

lemma books_kept:
  assumes "\<And>d orc. orch_inv (se_sha1 env) orc \<Longrightarrow> orch_inv (se_sha1 env) (se_sleep env d orc)"
  shows "scenario_kept env (orch_inv (se_sha1 env))"
  by unfold_locales
    (auto intro: assms SpawnNode_inv KillNode_inv Insert_inv Orch_Read_inv Lookup_inv simp: orch_inv_publish SetPartition_def HealPartition_def
      SetPartitions_def ClearPartitions_def intro!: orch_inv_faults)

interpretation sk: scenario_kept "quiet_env sha1" "orch_inv (se_sha1 (quiet_env sha1))" for sha1
  by (rule books_kept) (simp add: quiet_env_def orch_inv_time)

text \<open>
  Scenarios are safe. Whatever happens during the sleeps, as long as it keeps the books of
  the orchestrator, a bootstrap, churn, partition, hot-key or benchmark scenario ends with the
  books in order: when it completes, when it fails half-way and when its context is cancelled.
\<close>

theorem scenarios_keep_books:
  assumes "\<And>d orc. orch_inv (se_sha1 env) orc \<Longrightarrow> orch_inv (se_sha1 env) (se_sleep env d orc)" "orch_inv (se_sha1 env) orc"
  shows "(ScenarioBootstrap env n orc = Some (Inr (orc', r)) \<longrightarrow> orch_inv (se_sha1 env) orc') \<and>
    (ScenarioChurn env dur n orc = Some (Inr (orc', r)) \<longrightarrow> orch_inv (se_sha1 env) orc') \<and>
    (ScenarioPartition env keys dur orc = Inr (orc', r) \<longrightarrow> orch_inv (se_sha1 env) orc') \<and>
    (ScenarioHotKey env n orc = Inr (orc', r) \<longrightarrow> orch_inv (se_sha1 env) orc') \<and>
    (ScenarioBenchmark env n m l orc = Some (Inr (orc', r)) \<longrightarrow> orch_inv (se_sha1 env) orc')"
proof -
  note kept = books_kept [OF assms(1), simplified]
  show ?thesis
    using scenario_kept.Bootstrap_kept [OF kept _ assms(2)] scenario_kept.Churn_kept [OF kept _ assms(2)]
      scenario_kept.Partition_kept [OF kept _ assms(2)] scenario_kept.HotKey_kept [OF kept _ assms(2)]
      scenario_kept.Benchmark_kept [OF kept _ assms(2)] by blast
qed

theorem scenarios_keep_books_witness:
  "\<exists>orc'. ScenarioPartition (quiet_env demo_hash) [] 5 (demo_new ''chord'') = Inr (orc', Inl (STooFewNodes 0)) \<and> orch_inv demo_hash orc'"
proof -
  have env: "se_sha1 (quiet_env demo_hash) = demo_hash" by (simp add: quiet_env_def)
  have keeps: "orch_inv (se_sha1 (quiet_env demo_hash)) (se_sleep (quiet_env demo_hash) d orc)"
    if "orch_inv (se_sha1 (quiet_env demo_hash)) orc" for d orc
    using that by (simp add: quiet_env_def orch_inv_time)
  have inv: "orch_inv (se_sha1 (quiet_env demo_hash)) (demo_new ''chord'')" by (simp add: env demo_new_def NewOrchestrator_inv)
  have "nw_Nodes (GetNetworkState f (pause (quiet_env demo_hash) 2 (demo_new ''chord''))) = []" for f
    by (simp add: GetNetworkState_def pause_def quiet_env_def demo_new_def NewOrchestrator_def Let_def sort_Slice_def)
  then have "\<exists>orc'. ScenarioPartition (quiet_env demo_hash) [] 5 (demo_new ''chord'') = Inr (orc', Inl (STooFewNodes 0))"
    by (simp add: ScenarioPartition_def Let_def)
  then obtain orc' where o: "ScenarioPartition (quiet_env demo_hash) [] 5 (demo_new ''chord'') = Inr (orc', Inl (STooFewNodes 0))" by blast
  with scenarios_keep_books [OF keeps inv, of 0 orc' "Inl (STooFewNodes 0)" 5 "[]" 0 0] show ?thesis by (simp add: env)
qed

section \<open>Which nodes there are\<close>

lemma mset_sort_Slice [simp]: "mset (sort_Slice lt xs) = mset xs"
proof -
  have "mset (insert_by lt x ys) = add_mset x (mset ys)" for x ys by (induction ys) auto
  then show ?thesis by (induction xs) (simp_all add: sort_Slice_def)
qed

lemma set_sort_Slice [simp]: "set (sort_Slice lt xs) = set xs"
  by (rule mset_eq_setD) simp

lemma length_sort_Slice [simp]: "length (sort_Slice lt xs) = length xs"
  using mset_eq_length [OF mset_sort_Slice] .

text \<open>A snapshot lists every node of the two maps once, with its address and identifier.\<close>

lemma snapshot_nodes:
  "mset (map (\<lambda>n. (ns_ID n, ns_Addr n)) (nw_Nodes (GetNetworkState format orc))) =
     mset (map (\<lambda>(a, h). (IDToHex (cn_ID (o_chord orc h)), a)) (o_chordNodes orc) @
           map (\<lambda>(a, h). (IDToHex (kn_ID (o_kad orc h)), a)) (o_kadNodes orc))"
proof -
  have n: "mset (nw_Nodes (GetNetworkState format orc)) = mset (map (\<lambda>(addr, h). chordNodeState addr (o_chord orc h)) (o_chordNodes orc)
                @ map (\<lambda>(addr, h). kadNodeState format addr (o_kad orc h)) (o_kadNodes orc))"
    by (simp add: GetNetworkState_def Let_def)
  have "(\<lambda>n. (ns_ID n, ns_Addr n)) \<circ> (\<lambda>(addr, h). chordNodeState addr (o_chord orc h)) = (\<lambda>(a, h). (IDToHex (cn_ID (o_chord orc h)), a))"
    "(\<lambda>n. (ns_ID n, ns_Addr n)) \<circ> (\<lambda>(addr, h). kadNodeState format addr (o_kad orc h)) = (\<lambda>(a, h). (IDToHex (kn_ID (o_kad orc h)), a))"
    by (auto simp: chordNodeState_def kadNodeState_def fun_eq_iff)
  then show ?thesis unfolding mset_map n by (simp flip: mset_map add: multiset.map_comp)
qed

lemma snapshot_addrs:
  assumes "orch_inv sha1 orc"
  shows "set (map ns_Addr (nw_Nodes (GetNetworkState format orc))) = set (o_nodeAddrs orc)"
    "distinct (map ns_Addr (nw_Nodes (GetNetworkState format orc)))"
    "n \<in> set (nw_Nodes (GetNetworkState format orc)) \<Longrightarrow> ns_ID n = IDToHex (NodeIDFromAddr sha1 (ns_Addr n))"
proof -
  let ?ns = "nw_Nodes (GetNetworkState format orc)"
  note inv = orch_inv_nodes [OF assms]
  from assms have wf: "gm_wf (o_chordNodes orc)" "gm_wf (o_kadNodes orc)" and dom: "set (o_nodeAddrs orc) = dom (map_of (o_nodes orc))"
    by (simp_all add: orch_inv_def maps_ok_def)
  have addrs: "mset (map ns_Addr ?ns) = mset (map fst (o_chordNodes orc) @ map fst (o_kadNodes orc))"
  proof -
    have "mset (map snd (map (\<lambda>n. (ns_ID n, ns_Addr n)) ?ns)) =
        mset (map snd (map (\<lambda>(a, h). (IDToHex (cn_ID (o_chord orc h)), a)) (o_chordNodes orc) @
           map (\<lambda>(a, h). (IDToHex (kn_ID (o_kad orc h)), a)) (o_kadNodes orc)))"
      by (rule arg_cong [where f = "image_mset snd", OF snapshot_nodes [of format orc], folded mset_map])
    then show ?thesis by (simp add: comp_def split_def)
  qed
  have d: "dom (map_of (o_chordNodes orc)) = fst ` set (o_chordNodes orc)" "dom (map_of (o_kadNodes orc)) = fst ` set (o_kadNodes orc)"
    by (simp_all add: dom_map_of_conv_image_fst)
  have un: "dom (map_of (o_nodes orc)) = dom (map_of (o_chordNodes orc)) \<union> dom (map_of (o_kadNodes orc))"
    using inv(1) by (auto simp: dom_def split: option.splits)
  show "set (map ns_Addr ?ns) = set (o_nodeAddrs orc)"
    using mset_eq_setD [OF addrs] by (simp add: dom un d)
  have "dom (map_of (o_chordNodes orc)) \<inter> dom (map_of (o_kadNodes orc)) = {}"
  proof -
    have "\<not> (a \<in> dom (map_of (o_chordNodes orc)) \<and> a \<in> dom (map_of (o_kadNodes orc)))" for a using inv(2) [of a] by auto
    then show ?thesis by blast
  qed
  then have "distinct (map fst (o_chordNodes orc) @ map fst (o_kadNodes orc))" using wf d by (simp add: gm_wf_def)
  then show "distinct (map ns_Addr ?ns)" using mset_eq_imp_distinct_iff [OF addrs] by blast
  assume "n \<in> set ?ns"
  then have "(ns_ID n, ns_Addr n) \<in> set (map (\<lambda>n. (ns_ID n, ns_Addr n)) ?ns)" by force
  then have "(ns_ID n, ns_Addr n) \<in> set (map (\<lambda>(a, h). (IDToHex (cn_ID (o_chord orc h)), a)) (o_chordNodes orc) @
           map (\<lambda>(a, h). (IDToHex (kn_ID (o_kad orc h)), a)) (o_kadNodes orc))"
    using mset_eq_setD [OF snapshot_nodes [of format orc]] by simp
  then consider h where "(ns_Addr n, h) \<in> set (o_chordNodes orc)" "ns_ID n = IDToHex (cn_ID (o_chord orc h))"
    | h where "(ns_Addr n, h) \<in> set (o_kadNodes orc)" "ns_ID n = IDToHex (kn_ID (o_kad orc h))" by auto
  then show "ns_ID n = IDToHex (NodeIDFromAddr sha1 (ns_Addr n))"
  proof cases
    case (1 h)
    then have "map_of (o_chordNodes orc) (ns_Addr n) = Some h" using wf by (simp add: gm_wf_def)
    from inv(3) [OF this] 1 show ?thesis by (auto simp: Ref_def selfRef_def)
  next
    case (2 h)
    then have "map_of (o_kadNodes orc) (ns_Addr n) = Some h" using wf by (simp add: gm_wf_def)
    from inv(4) [OF this] 2 show ?thesis by (auto simp: Kad_Ref_def)
  qed
qed

section \<open>Bootstrap\<close>

text \<open>The address a node gets when none is asked for.\<close>

definition auto_addr :: "nat \<Rightarrow> string" where
  "auto_addr port = ''127.0.0.1:'' @ fmt_d port"

lemma spawn_effect:
  assumes "SpawnNode fuel sha1 sched [] orc = Some (Inr (orc', Inr n))"
  shows "o_nodeAddrs orc' = o_nodeAddrs orc @ [auto_addr (o_portCounter orc)]" "o_portCounter orc' = o_portCounter orc + 1"
    "o_cfg orc' = o_cfg orc"
    "n = (if sc_Protocol (o_cfg orc) = ''chord'' then ChordObj (auto_addr (o_portCounter orc)) else KadObj (auto_addr (o_portCounter orc)))"
  using assms
  by (auto simp: SpawnNode_def spawnChordNode_def spawnKadNode_def Let_def add_chord_node_def add_kad_node_def auto_addr_def
      with_chord_def with_kad_def split: if_splits option.splits sum.splits prod.splits)

lemma removeAddr_filter: "distinct as \<Longrightarrow> removeAddr a as = filter (\<lambda>b. b \<noteq> a) as"
proof (induction as)
  case (Cons b as)
  have "filter (\<lambda>b. b \<noteq> a) as = as" if "a \<notin> set as" using that by (intro filter_True) auto
  with Cons show ?case by auto
qed simp

lemma KillNode_addrs:
  assumes "orch_inv sha1 orc"
  shows "set (o_nodeAddrs (fst (KillNode a orc))) = set (o_nodeAddrs orc) - {a}"
    "o_portCounter (fst (KillNode a orc)) = o_portCounter orc" "o_cfg (fst (KillNode a orc)) = o_cfg orc"
proof -
  from assms have d: "distinct (o_nodeAddrs orc)" "set (o_nodeAddrs orc) = dom (map_of (o_nodes orc))" by (simp_all add: orch_inv_def maps_ok_def)
  show "set (o_nodeAddrs (fst (KillNode a orc))) = set (o_nodeAddrs orc) - {a}"
    using d by (auto simp: KillNode_def Let_def forget_node_def with_chord_def removeAddr_filter split: option.splits Node.splits)
  show "o_portCounter (fst (KillNode a orc)) = o_portCounter orc" "o_cfg (fst (KillNode a orc)) = o_cfg orc"
    by (auto simp: KillNode_def Let_def forget_node_def with_chord_def split: option.splits Node.splits)
qed

lemma kill_list:
  "orch_inv sha1 orc \<Longrightarrow>
   set (o_nodeAddrs (fold (\<lambda>n orc. fst (KillNode (ns_Addr n) orc)) ns orc)) = set (o_nodeAddrs orc) - ns_Addr ` set ns \<and>
   o_portCounter (fold (\<lambda>n orc. fst (KillNode (ns_Addr n) orc)) ns orc) = o_portCounter orc"
proof (induction ns arbitrary: orc)
  case (Cons n ns)
  from Cons.IH [OF KillNode_inv [OF Cons.prems, of "ns_Addr n"]] KillNode_addrs [OF Cons.prems, of "ns_Addr n"]
  show ?case by auto
qed simp

lemma kill_all_empty:
  assumes "orch_inv sha1 orc"
  shows "o_nodeAddrs (kill_all env orc) = []" "o_portCounter (kill_all env orc) = o_portCounter orc"
proof -
  note k = kill_list [OF assms, of "nw_Nodes (GetNetworkState (se_format env) orc)", folded kill_all_def]
  have "set (o_nodeAddrs (kill_all env orc)) = {}" using k snapshot_addrs(1) [OF assms, of "se_format env"] by simp
  then show "o_nodeAddrs (kill_all env orc) = []" by simp
  show "o_portCounter (kill_all env orc) = o_portCounter orc" using k by simp
qed

lemma bootstrap_loop_nodes:
  assumes sleep: "\<And>d s. o_nodeAddrs (se_sleep env d s) = o_nodeAddrs s \<and> o_portCounter (se_sleep env d s) = o_portCounter s"
  shows "bootstrap_loop env n i k orc = Some (Inr (orc', Inr ())) \<Longrightarrow>
    o_nodeAddrs orc' = o_nodeAddrs orc @ map auto_addr [o_portCounter orc..<o_portCounter orc + k]"
proof (induction k arbitrary: i orc)
  case (Suc k)
  then obtain orc1 nd where sp: "spawn env orc = Some (Inr (orc1, Inr nd))" by (auto split: if_splits option.splits sum.splits)
  note e = spawn_effect [OF sp [unfolded spawn_def]]
  let ?o = "publishStep ''bootstrap'' (int i + 1) (int n)
      (''spawned node '' @ fmt_d (i + 1) @ ''/'' @ fmt_d n @ '', total='' @ fmt_d (NodeCount (pause env 2 orc1)))
      [(''nodeCount'', StepInt (int (NodeCount (pause env 2 orc1))))] (pause env 2 orc1)"
  have o: "o_nodeAddrs ?o = o_nodeAddrs orc1" "o_portCounter ?o = o_portCounter orc1"
    using sleep by (simp_all add: publishStep_def orch_publish_def pause_def)
  have "bootstrap_loop env n (Suc i) k ?o = Some (Inr (orc', Inr ()))"
    using Suc.prems sp by (simp add: Let_def split: if_splits)
  from Suc.IH [OF this, unfolded o e] show ?case
    by (simp add: upt_conv_Cons del: upt_Suc)
qed simp

text \<open>
  The bootstrap scenario builds the network it announces. Whatever nodes there were, when
  the scenario completes, the network consists of exactly the requested number of nodes (ten
  for a request below one), with the next free addresses in order, provided that only the
  scenario itself adds and removes nodes.
\<close>

theorem bootstrap_builds_network:
  assumes "orch_inv (se_sha1 env) orc"
    and "\<And>d s. o_nodeAddrs (se_sleep env d s) = o_nodeAddrs s \<and> o_portCounter (se_sleep env d s) = o_portCounter s"
    and "ScenarioBootstrap env n orc = Some (Inr (orc', Inr ()))"
  shows "o_nodeAddrs orc' = map (\<lambda>p. ''127.0.0.1:'' @ fmt_d p)
    [o_portCounter orc..<o_portCounter orc + nat (if n < 1 then 10 else n)]"
proof -
  let ?n = "nat (if n < 1 then 10 else n)" and ?o = "se_sleep env (100 * 10 ^ 6) (kill_all env orc)"
  have "bootstrap_loop env ?n 0 ?n ?o = Some (Inr (orc', Inr ()))" using assms(3) by (simp add: ScenarioBootstrap_def Let_def)
  from bootstrap_loop_nodes [OF assms(2) this] assms(2) kill_all_empty [OF assms(1), of env]
  show ?thesis by (simp add: auto_addr_def [abs_def])
qed

theorem bootstrap_builds_network_witness:
  "\<exists>orc'. ScenarioBootstrap (quiet_env demo_hash) 1 (demo_new ''chord'') = Some (Inr (orc', Inr ())) \<and> o_nodeAddrs orc' = [''127.0.0.1:7000'']"
proof -
  let ?e = "quiet_env demo_hash"
  have inv: "orch_inv (se_sha1 ?e) (demo_new ''chord'')" by (simp add: quiet_env_def demo_new_def NewOrchestrator_inv)
  have sleep: "o_nodeAddrs (se_sleep ?e d s) = o_nodeAddrs s \<and> o_portCounter (se_sleep ?e d s) = o_portCounter s" for d s
    by (simp add: quiet_env_def)
  have nodes: "nw_Nodes (GetNetworkState f (demo_new ''chord'')) = []" for f
    by (simp add: GetNetworkState_def demo_new_def NewOrchestrator_def Let_def sort_Slice_def)
  have k: "kill_all ?e (demo_new ''chord'') = demo_new ''chord''" by (simp add: kill_all_def nodes)
  let ?o = "se_sleep ?e (100 * 10 ^ 6) (demo_new ''chord'')"
  have "\<exists>o1 nd. spawn ?e ?o = Some (Inr (o1, Inr nd))"
    by (simp add: spawn_def SpawnNode_def spawnChordNode_def Let_def quiet_env_def demo_new_def NewOrchestrator_def Sim_DefaultConfig_def)
  then obtain o1 nd where sp: "spawn ?e ?o = Some (Inr (o1, Inr nd))" by blast
  have "\<exists>orc'. ScenarioBootstrap ?e 1 (demo_new ''chord'') = Some (Inr (orc', Inr ()))"
    using sp by (simp add: ScenarioBootstrap_def Let_def k) (simp add: quiet_env_def)
  then obtain orc' where b: "ScenarioBootstrap ?e 1 (demo_new ''chord'') = Some (Inr (orc', Inr ()))" by blast
  have p: "o_portCounter (demo_new ''chord'') = 7000" by (simp add: demo_new_def NewOrchestrator_def Let_def)
  have "fmt_d 7000 = ''7000''" by (simp add: fmt_d.simps hextable_def)
  with bootstrap_builds_network [OF inv sleep b] b show ?thesis by (simp add: p)
qed

section \<open>The partition scenario\<close>

text \<open>Client reads and writes set no partitions.\<close>

lemma queue_repair_transport: "o_transport (fst (queue_repair orc r)) = o_transport orc"
  by (auto simp: queue_repair_def split: sum.splits)

lemma quorum_partitions:
  assumes "orch_inv sha1 orc"
  shows "quorum_write sha1 sched rs key v w orc = (orc', r) \<Longrightarrow> it_partitions (o_transport orc') = it_partitions (o_transport orc)"
    and "quorum_read sha1 sched rs key orc = (orc', r') \<Longrightarrow> it_partitions (o_transport orc') = it_partitions (o_transport orc)"
proof -
  from here(1,2) [OF assms] have P: "net_inv sha1 (chord_net orc) \<and> chord_here orc (chord_net orc)" by simp
  have c: "it_partitions (net_transport net) = it_partitions (o_transport orc)" if "chord_here orc net" for net
    using that by (intro pos_eq(4)) (simp add: chord_frame_def)
  have k: "it_partitions (kad_transport net) = it_partitions (o_transport orc)" if "kad_here sha1 orc net" for net
    using that by (intro pos_eq(4)) (simp add: kad_frame_def)
  show "it_partitions (o_transport orc') = it_partitions (o_transport orc)" if q: "quorum_write sha1 sched rs key v w orc = (orc', r)"
  proof (cases "sc_Protocol (o_cfg orc) = ''chord''")
    case True
    obtain net y where wr: "Write chord_env (orch_manager rs orc) sched key v w (chord_net orc) = (net, y)" by fastforce
    from ck.Write_kept [OF wr clusters_here(1) [OF assms] P] c q True wr show ?thesis by (auto simp: quorum_write_def with_chord_def)
  next
    case False
    obtain net y where wr: "Write (kad_env sha1) (orch_manager rs orc) sched key v w (kad_net orc) = (net, y)" by fastforce
    from kk.Write_kept [OF wr clusters_here(2) [OF assms] here(3) [OF assms]] k q False wr show ?thesis
      by (auto simp: quorum_write_def with_kad_def)
  qed
  show "it_partitions (o_transport orc') = it_partitions (o_transport orc)" if q: "quorum_read sha1 sched rs key orc = (orc', r')"
  proof (cases "sc_Protocol (o_cfg orc) = ''chord''")
    case True
    obtain net h y where rd: "Read chord_env (orch_manager rs orc) sched key (chord_net orc, o_history orc) = ((net, h), y)" by (metis prod.collapse)
    from ck.Read_kept [OF rd clusters_here(1) [OF assms] P] have "it_partitions (net_transport net) = it_partitions (o_transport orc)" using c by blast
    moreover have "o_transport orc' = net_transport net"
      using q True rd queue_repair_transport [of "(with_chord net orc)\<lparr>o_history := h\<rparr>" y] by (simp add: quorum_read_def) (simp add: with_chord_def)
    ultimately show ?thesis by simp
  next
    case False
    obtain net h y where rd: "Read (kad_env sha1) (orch_manager rs orc) sched key (kad_net orc, o_history orc) = ((net, h), y)" by (metis prod.collapse)
    from kk.Read_kept [OF rd clusters_here(2) [OF assms] here(3) [OF assms]] have "it_partitions (kad_transport net) = it_partitions (o_transport orc)"
      using k by blast
    moreover have "o_transport orc' = kad_transport net"
      using q False rd queue_repair_transport [of "(with_kad net orc)\<lparr>o_history := h\<rparr>" y] by (simp add: quorum_read_def) (simp add: with_kad_def)
    ultimately show ?thesis by simp
  qed
qed

lemma client_partitions:
  assumes "orch_inv sha1 orc"
  shows "Insert sha1 order key v orc = Inr (orc', u) \<Longrightarrow> it_partitions (o_transport orc') = it_partitions (o_transport orc)"
    and "Orch_Read sha1 order key orc = Inr (orc', b) \<Longrightarrow> it_partitions (o_transport orc') = it_partitions (o_transport orc)"
  by (auto simp: Insert_def Orch_Read_def Let_def split: sum.splits prod.splits option.splits
      dest: quorum_partitions(1) [OF assms] quorum_partitions(2) [OF assms])

lemma insert_keys_partitions:
  "insert_keys env i keys orc = Inr (orc', r) \<Longrightarrow> orch_inv (se_sha1 env) orc \<Longrightarrow>
   orch_inv (se_sha1 env) orc' \<and> it_partitions (o_transport orc') = it_partitions (o_transport orc)"
proof (induction keys arbitrary: i orc)
  case (Cons key keys)
  then obtain orc1 x where ins: "Insert (se_sha1 env) (se_order env) key (''partition-val-'' @ fmt_d i) orc = Inr (orc1, x)"
    by (auto split: sum.splits)
  note k = Insert_inv [OF ins Cons.prems(2)] client_partitions(1) [OF Cons.prems(2) ins]
  show ?case using Cons.prems(1) ins k Cons.IH [of "Suc i" orc1] by (cases x) auto
qed simp

lemma count_readable_partitions:
  "count_readable env keys n orc = Inr (orc', m) \<Longrightarrow> orch_inv (se_sha1 env) orc \<Longrightarrow>
   it_partitions (o_transport orc') = it_partitions (o_transport orc)"
proof (induction keys arbitrary: n orc)
  case (Cons key keys)
  then obtain orc1 x where rd: "Orch_Read (se_sha1 env) (se_order env) key orc = Inr (orc1, x)" by (auto split: sum.splits)
  note k = Orch_Read_inv [OF rd Cons.prems(2)] client_partitions(2) [OF Cons.prems(2) rd]
  show ?case
  proof (cases x)
    case (Inl e)
    with Cons.prems(1) rd Cons.IH [of n orc1] k show ?thesis by simp
  next
    case (Inr b)
    with Cons.prems(1) rd Cons.IH [of "n + 1" orc1] k show ?thesis by simp
  qed
qed simp

text \<open>The two halves of a snapshot.\<close>

lemma split_halves_spec:
  assumes "orch_inv sha1 orc" "nodes = nw_Nodes (GetNetworkState format orc)"
  shows "set (split_halves nodes ! 0) \<inter> set (split_halves nodes ! 1) = {}"
    "set (split_halves nodes ! 0) \<union> set (split_halves nodes ! 1) = set (o_nodeAddrs orc)"
    "length (split_halves nodes ! 0) = length nodes div 2" "length (split_halves nodes ! 1) = (length nodes + 1) div 2"
proof -
  let ?m = "length nodes div 2" and ?as = "map ns_Addr nodes"
  have h: "split_halves nodes ! 0 = take ?m ?as" "split_halves nodes ! 1 = drop ?m ?as"
    by (simp_all add: split_halves_def Let_def take_map drop_map)
  show "set (split_halves nodes ! 0) \<inter> set (split_halves nodes ! 1) = {}"
    unfolding h using snapshot_addrs(2) [OF assms(1), of format] assms(2) by (intro set_take_disj_set_drop_if_distinct) auto
  have "set (take ?m ?as) \<union> set (drop ?m ?as) = set ?as" by (metis append_take_drop_id set_append)
  then show "set (split_halves nodes ! 0) \<union> set (split_halves nodes ! 1) = set (o_nodeAddrs orc)"
    unfolding h using snapshot_addrs(1) [OF assms(1), of format] assms(2) by simp
  show "length (split_halves nodes ! 0) = length nodes div 2" unfolding h by simp
  show "length (split_halves nodes ! 1) = (length nodes + 1) div 2" unfolding h by simp
qed

lemma count_readable_bound: "count_readable env keys n orc = Inr (orc', m) \<Longrightarrow> m \<le> n + length keys"
proof (induction keys arbitrary: n orc)
  case (Cons key keys)
  then obtain orc1 x where rd: "Orch_Read (se_sha1 env) (se_order env) key orc = Inr (orc1, x)" by (auto split: sum.splits)
  with Cons.prems Cons.IH [of n orc1] Cons.IH [of "n + 1" orc1] show ?case by (cases x) auto
qed simp

text \<open>Two groups that cover the network cut every call between them.\<close>

lemma two_groups_cut:
  assumes "it_partitions t = [A, B]" "distinct (A @ B)" "a \<in> set A" "b \<in> set B"
  shows "a \<noteq> [] \<Longrightarrow> snd (lookupFrom a b t) = Inl ErrPartitioned" "b \<noteq> [] \<Longrightarrow> snd (lookupFrom b a t) = Inl ErrPartitioned"
proof -
  let ?ps = "[A, B]"
  have disj: "\<forall>i < length ?ps. \<forall>j < length ?ps. i \<noteq> j \<longrightarrow> set (?ps ! i) \<inter> set (?ps ! j) = {}"
    using assms(2) by (auto simp: less_Suc_eq)
  have "group_of ?ps a = int 0" "group_of ?ps b = int 1"
    using group_of_spec(1) [OF disj, of 0 a] group_of_spec(1) [OF disj, of 1 b] assms(3,4) by simp_all
  then show "a \<noteq> [] \<Longrightarrow> snd (lookupFrom a b t) = Inl ErrPartitioned" "b \<noteq> [] \<Longrightarrow> snd (lookupFrom b a t) = Inl ErrPartitioned"
    by (simp_all add: lookupFrom_def assms(1) Let_def)
qed

text \<open>\<open>halved s\<close>: the network is cut into two halves that together are all its nodes.\<close>

definition halved :: "Orchestrator \<Rightarrow> bool" where
  "halved s \<longleftrightarrow> (\<exists>A B. PartitionGroups s = [A, B] \<and> distinct (A @ B) \<and> set (A @ B) = set (o_nodeAddrs s) \<and>
     0 < length A \<and> length A \<le> length B \<and> length B \<le> length A + 1 \<and>
     (\<forall>a \<in> set A. \<forall>b \<in> set B. (a \<noteq> [] \<longrightarrow> snd (lookupFrom a b (o_transport s)) = Inl ErrPartitioned) \<and>
        (b \<noteq> [] \<longrightarrow> snd (lookupFrom b a (o_transport s)) = Inl ErrPartitioned)))"

lemma SetPartition_halved:
  assumes "orch_inv sha1 orc" "2 \<le> length (nw_Nodes (GetNetworkState format orc))"
    "o_nodeAddrs s = o_nodeAddrs orc"
  shows "halved (SetPartition (split_halves (nw_Nodes (GetNetworkState format orc))) s)"
proof -
  let ?ns = "nw_Nodes (GetNetworkState format orc)" and ?gs = "split_halves (nw_Nodes (GetNetworkState format orc))"
  let ?s = "SetPartition ?gs s"
  have g: "?gs = [?gs ! 0, ?gs ! 1]" by (simp add: split_halves_def Let_def)
  have "?gs ! 0 @ ?gs ! 1 = map ns_Addr ?ns" by (simp add: split_halves_def Let_def flip: map_append)
  then have d: "distinct (?gs ! 0 @ ?gs ! 1)" using snapshot_addrs(2) [OF assms(1), of format] by simp
  note h = split_halves_spec [OF assms(1) refl, of format]
  have pg: "PartitionGroups ?s = [?gs ! 0, ?gs ! 1]" "it_partitions (o_transport ?s) = [?gs ! 0, ?gs ! 1]" "o_nodeAddrs ?s = o_nodeAddrs orc"
    using g assms(3) by (simp_all add: PartitionGroups_def Partitions_def SetPartition_def SetPartitions_def)
  show ?thesis
    unfolding halved_def pg
    by (intro exI [of _ "?gs ! 0"] exI [of _ "?gs ! 1"] conjI ballI impI two_groups_cut [OF pg(2) d])
      (use d h assms(2) in simp_all)
qed

text \<open>
  C18. The partition scenario, when sleeps set no partitions and keep the books. It either completes,
  or is cancelled during the observation, and then it has observed a real partition: the
  observation sleeps in a state in which all live nodes are split into two halves, disjoint
  and as equal as their number allows, and every call from a node of one half to a node of the
  other fails; a cancelled run returns after this sleep and healing, a complete one heals,
  waits, reads the keys back and publishes how many of them it could read, and both end with
  no partition. Or it fails before, because a key could not be inserted or fewer than two
  nodes are there, and then it leaves the partitions as they were.
\<close>

theorem partition_scenario_heals:
  assumes "orch_inv (se_sha1 env) orc"
    and "\<And>d s. orch_inv (se_sha1 env) s \<Longrightarrow> orch_inv (se_sha1 env) (se_sleep env d s)"
    and "\<And>d s. it_partitions (o_transport (se_sleep env d s)) = it_partitions (o_transport s)"
    and "ScenarioPartition env keys dur orc = Inr (orc', r)"
  shows "PartitionGroups orc' = [] \<and> r = Inl SContext \<and> (\<exists>s. halved s \<and> orc' = HealPartition (se_sleep env dur s)) \<or>
    PartitionGroups orc' = [] \<and> r = Inr () \<and>
      (\<exists>s s2 n data. halved s \<and> n \<le> length keys \<and>
         count_readable env keys 0 (pause env 3 (HealPartition (publishStep ''partition'' 2 3 ''healing partition'' [] (se_sleep env dur s)))) = Inr (s2, n) \<and>
         orc' = publishStep ''partition'' 3 3 ''convergence measured'' ((''keysReadable'', StepInt (int n)) # data) s2) \<or>
    PartitionGroups orc' = PartitionGroups orc \<and> ((\<exists>k e. r = Inl (SInsert k e)) \<or> (\<exists>n < 2. r = Inl (STooFewNodes n)))"
proof -
  have pg: "PartitionGroups o1 = it_partitions (o_transport o1)" for o1 by (simp add: PartitionGroups_def Partitions_def)
  have st: "o_transport (publishStep a b c m dt s) = o_transport s" for a b c m dt s by (simp add: publishStep_def orch_publish_def)
  have pa: "orch_inv (se_sha1 env) s \<Longrightarrow> orch_inv (se_sha1 env) (pause env k s)" "it_partitions (o_transport (pause env k s)) = it_partitions (o_transport s)" for k s
    using assms(2,3) by (simp_all add: pause_def)
  obtain orc1 x where ins: "insert_keys env 0 keys orc = Inr (orc1, x)" using assms(4) by (auto simp: ScenarioPartition_def split: sum.splits)
  note k = insert_keys_partitions [OF ins assms(1)]
  show ?thesis
  proof (cases x)
    case (Inl e)
    have "\<exists>k v. e = SInsert k v"
    proof -
      have "insert_keys env i ks s = Inr (o1, Inl e) \<Longrightarrow> \<exists>k v. e = SInsert k v" for i ks s o1
        by (induction ks arbitrary: i s) (auto split: sum.splits prod.splits)
      with ins Inl show ?thesis by blast
    qed
    with assms(4) ins Inl k show ?thesis by (auto simp: ScenarioPartition_def pg)
  next
    case (Inr u)
    let ?s = "pause env 2 orc1" and ?ns = "nw_Nodes (GetNetworkState (se_format env) (pause env 2 orc1))"
    show ?thesis
    proof (cases "length ?ns < 2")
      case True
      with assms(4) ins Inr k pa show ?thesis by (auto simp: ScenarioPartition_def Let_def pg)
    next
      case False
      define s where "s = SetPartition (split_halves ?ns) (publishStep ''partition'' 1 3 ''setting network partition''
         [(''group1Size'', StepInt (int (length (split_halves ?ns ! 0)))), (''group2Size'', StepInt (int (length (split_halves ?ns ! 1))))] ?s)"
      have inv: "orch_inv (se_sha1 env) ?s" "orch_inv (se_sha1 env) s"
        using k pa(1) [of orc1 2] by (auto simp: s_def SetPartition_def publishStep_def orch_inv_publish SetPartitions_def intro!: orch_inv_faults)
      have half: "halved s"
        unfolding s_def by (rule SetPartition_halved [OF inv(1)]) (use False in \<open>simp_all add: publishStep_def orch_publish_def\<close>)
      have o: "observe_and_heal env keys dur s = Inr (orc', r)"
        using assms(4) ins Inr False by (simp add: ScenarioPartition_def Let_def s_def)
      show ?thesis
      proof (cases "se_done env 0")
        case True
        with o half show ?thesis by (auto simp: observe_and_heal_def Let_def pg) (simp_all add: HealPartition_def ClearPartitions_def)
      next
        case cont: False
        let ?t = "pause env 3 (HealPartition (publishStep ''partition'' 2 3 ''healing partition'' [] (se_sleep env dur s)))"
        have "orch_inv (se_sha1 env) (HealPartition (publishStep ''partition'' 2 3 ''healing partition'' [] (se_sleep env dur s)))"
          using assms(2) [OF inv(2), of dur] by (auto simp: HealPartition_def publishStep_def orch_inv_publish ClearPartitions_def intro!: orch_inv_faults)
        then have t: "orch_inv (se_sha1 env) ?t" by (rule pa)
        have "it_partitions (o_transport ?t) = []" by (simp add: pa HealPartition_def ClearPartitions_def)
        moreover from o cont obtain s2 cnt data where c: "count_readable env keys 0 ?t = Inr (s2, cnt)" "r = Inr ()"
            "orc' = publishStep ''partition'' 3 3 ''convergence measured'' ((''keysReadable'', StepInt (int cnt)) # data) s2"
          by (auto simp: observe_and_heal_def Let_def split: sum.splits prod.splits)
        ultimately have "PartitionGroups orc' = []" using count_readable_partitions [OF c(1) t] by (simp add: pg st)
        with c half count_readable_bound [OF c(1)] show ?thesis by auto
      qed
    qed
  qed
qed

lemma demo_inv: "p = ''chord'' \<or> p = ''kademlia'' \<Longrightarrow> orch_inv demo_hash (demo_net p)"
  using orch_run_inv [OF demo_run] by (simp add: demo_new_def NewOrchestrator_inv)

text \<open>A network of two nodes: the second one is spawned after the protocol has changed.\<close>

definition demo_two :: Orchestrator where
  "demo_two = (let orc = UpdateConfig (Sim_DefaultConfig\<lparr>sc_Protocol := ''kademlia''\<rparr>) (demo_net ''chord'')
    in case SpawnNode 0 demo_hash id ''y'' orc of Some (Inr (orc, _)) \<Rightarrow> orc | _ \<Rightarrow> orc)"

lemma demo_two: "orch_inv demo_hash demo_two" "o_nodeAddrs demo_two = [''x'', ''y'']"
proof -
  let ?orc = "UpdateConfig (Sim_DefaultConfig\<lparr>sc_Protocol := ''kademlia''\<rparr>) (demo_net ''chord'')"
  have inv: "orch_inv demo_hash ?orc" by (simp add: UpdateConfig_inv demo_inv)
  have addrs: "o_nodeAddrs ?orc = [''x'']" by (simp add: UpdateConfig_def demo_spawn(2))
  have dom: "set (o_nodeAddrs ?orc) = dom (map_of (o_nodes ?orc))" using inv by (simp add: orch_inv_def maps_ok_def)
  have "''y'' \<notin> dom (map_of (o_nodes ?orc))" unfolding dom [symmetric] addrs by simp
  then have new: "map_of (o_nodes ?orc) ''y'' = None" by (simp add: domIff)
  have "''x'' \<in> dom (map_of (o_nodes ?orc))" unfolding dom [symmetric] addrs by simp
  then have ne: "o_nodes ?orc \<noteq> []"
  proof (rule contrapos_pn)
    assume n: "o_nodes ?orc = []"
    show "''x'' \<notin> dom (map_of (o_nodes ?orc))" unfolding n by simp
  qed
  have kad: "o_kadNodes ?orc = []"
    by (simp add: UpdateConfig_def demo_net_def demo_new_def SpawnNode_def spawnChordNode_def NewOrchestrator_def Sim_DefaultConfig_def
        Let_def add_chord_node_def with_chord_def)
  have p: "sc_Protocol (o_cfg ?orc) = ''kademlia''" by (simp add: UpdateConfig_def)
  have "\<exists>o1 n. SpawnNode 0 demo_hash id ''y'' ?orc = Some (Inr (o1, Inr n)) \<and> o_nodeAddrs o1 = [''x'', ''y'']"
    using new ne p kad addrs
    by (simp add: SpawnNode_def spawnKadNode_def getAnyKadBootstrap_def Let_def)
       (simp add: add_kad_node_def with_kad_def Let_def)
  then obtain o1 n where sp: "SpawnNode 0 demo_hash id ''y'' ?orc = Some (Inr (o1, Inr n))" "o_nodeAddrs o1 = [''x'', ''y'']" by blast
  then have "demo_two = o1" by (simp add: demo_two_def Let_def)
  with sp SpawnNode_inv [OF sp(1) inv] show "orch_inv demo_hash demo_two" "o_nodeAddrs demo_two = [''x'', ''y'']" by simp_all
qed

text \<open>Two nodes and no keys: the scenario completes.\<close>

theorem partition_scenario_heals_witness:
  "\<exists>orc' s s2 data. ScenarioPartition (quiet_env demo_hash) [] 5 demo_two = Inr (orc', Inr ()) \<and> PartitionGroups orc' = [] \<and> halved s \<and>
     orc' = publishStep ''partition'' 3 3 ''convergence measured'' ((''keysReadable'', StepInt 0) # data) s2"
proof -
  let ?e = "quiet_env demo_hash"
  have inv: "orch_inv (se_sha1 ?e) demo_two" using demo_two(1) by (simp add: quiet_env_def)
  have keeps: "orch_inv (se_sha1 ?e) (se_sleep ?e d s)" if "orch_inv (se_sha1 ?e) s" for d s
    using that by (simp add: quiet_env_def orch_inv_time)
  have parts: "it_partitions (o_transport (se_sleep ?e d s)) = it_partitions (o_transport s)" for d s by (simp add: quiet_env_def)
  let ?p = "pause ?e 2 demo_two"
  have p: "orch_inv demo_hash ?p" "o_nodeAddrs ?p = [''x'', ''y'']"
    using demo_two keeps by (simp_all add: pause_def quiet_env_def)
  have "set (map ns_Addr (nw_Nodes (GetNetworkState (se_format ?e) ?p))) = {''x'', ''y''}"
    "distinct (map ns_Addr (nw_Nodes (GetNetworkState (se_format ?e) ?p)))"
    using snapshot_addrs(1,2) [OF p(1), of "se_format ?e"] p(2) by simp_all
  from distinct_card [OF this(2)] this(1) have "length (nw_Nodes (GetNetworkState (se_format ?e) ?p)) = 2" by simp
  then have "\<exists>orc'. ScenarioPartition ?e [] 5 demo_two = Inr (orc', Inr ())"
    by (simp add: ScenarioPartition_def observe_and_heal_def Let_def) (simp add: quiet_env_def)
  then obtain orc' where o: "ScenarioPartition ?e [] 5 demo_two = Inr (orc', Inr ())" by blast
  from partition_scenario_heals [OF inv keeps parts o] o show ?thesis by auto
qed

end
