(* ===== verification/Wire.thy ===== *)
theory Wire
  imports Transport
begin

text \<open>
  The JSON encoding of references, entries and results, as \<^verbatim>\<open>encoding/json\<close> derives it from the
  types of \<^verbatim>\<open>transport/interface.go\<close> and \<^verbatim>\<open>store/store.go\<close>: a struct is an object with the names of
  its fields, an array of bytes a list of numbers, a byte slice a base64 string, a map an object,
  a nil pointer null. A JSON text is represented by its value; a time is the string that RFC 3339
  gives it, kept as \<open>JTime\<close>. Strings are valid UTF-8, members of objects are matched by their exact
  names, and a nil slice or map and an empty one are the same.
\<close>

section \<open>Base64\<close>

text \<open>\<^verbatim>\<open>base64.StdEncoding\<close>, with padding.\<close>

definition base64_table :: string where
  "base64_table = ''ABCDEFGHIJKLMNOPQRSTUVWXYZabcdefghijklmnopqrstuvwxyz0123456789+/''"

fun base64 :: "byte list \<Rightarrow> string" where
  "base64 [] = []"
| "base64 [a] = [base64_table ! (unat a div 4), base64_table ! (unat a mod 4 * 16), CHR ''='', CHR ''='']"
| "base64 [a, b] =
     [base64_table ! (unat a div 4), base64_table ! (unat a mod 4 * 16 + unat b div 16), base64_table ! (unat b mod 16 * 4), CHR ''='']"
| "base64 (a # b # c # bs) =
     [base64_table ! (unat a div 4), base64_table ! (unat a mod 4 * 16 + unat b div 16),
      base64_table ! (unat b mod 16 * 4 + unat c div 64), base64_table ! (unat c mod 64)] @ base64 bs"

definition base64_value :: "char \<Rightarrow> nat option" where
  "base64_value c = (if c \<in> set base64_table then Some (length (takeWhile (\<lambda>x. x \<noteq> c) base64_table)) else None)"

fun base64_decode :: "string \<Rightarrow> byte list option" where
  "base64_decode [] = Some []"
| "base64_decode (c0 # c1 # c2 # c3 # cs) =
     (case (base64_value c0, base64_value c1, base64_value c2, base64_value c3) of
        (Some i, Some j, Some k, Some l) \<Rightarrow>
          map_option (\<lambda>bs. of_nat (i * 4 + j div 16) # of_nat (j mod 16 * 16 + k div 4) # of_nat (k mod 4 * 64 + l) # bs) (base64_decode cs)
      | (Some i, Some j, Some k, None) \<Rightarrow>
          if c3 = CHR ''='' \<and> cs = [] then Some [of_nat (i * 4 + j div 16), of_nat (j mod 16 * 16 + k div 4)] else None
      | (Some i, Some j, None, None) \<Rightarrow>
          if c2 = CHR ''='' \<and> c3 = CHR ''='' \<and> cs = [] then Some [of_nat (i * 4 + j div 16)] else None
      | _ \<Rightarrow> None)"
| "base64_decode _ = None"

lemma base64_value_table: "i < 64 \<Longrightarrow> base64_value (base64_table ! i) = Some i"
proof -
  assume i: "i < 64"
  have d: "distinct base64_table" "length base64_table = 64" by (simp_all add: base64_table_def)
  have "takeWhile (\<lambda>x. x \<noteq> base64_table ! i) base64_table = take i base64_table"
  proof (rule takeWhile_eq_take_P_nth)
    show "base64_table ! j \<noteq> base64_table ! i" if "j < i" "j < length base64_table" for j
      using that i d nth_eq_iff_index_eq [OF d(1)] by auto
  qed (use i d in simp)
  with i d show ?thesis by (simp add: base64_value_def)
qed

lemma base64_value_pad [simp]: "base64_value CHR ''='' = None"
  by (simp add: base64_value_def base64_table_def)

lemma byte_small: "unat (a :: byte) < 256"
  using unsigned_less [where 'a = nat, of a] by simp

lemma base64_first: "unat (a :: byte) div 4 * 4 + (unat a mod 4 * 16 + m) div 16 = unat a" if "m < 16" for m
  using that by simp

lemma base64_back: "base64_decode (base64 bs) = Some bs"
proof (induction bs rule: base64.induct)
  case (2 a)
  have "unat a div 4 < 64" "unat a mod 4 * 16 < 64" using byte_small [of a] by simp_all
  then show ?case using base64_first [of 0 a] by (simp add: base64_value_table)
next
  case (3 a b)
  have i: "unat a div 4 < 64" "unat a mod 4 * 16 + unat b div 16 < 64" "unat b mod 16 * 4 < 64"
    using byte_small [of a] byte_small [of b] by simp_all
  have "unat b div 16 < 16" using byte_small [of b] by simp
  moreover from this have "(unat a mod 4 * 16 + unat b div 16) mod 16 * 16 + unat b mod 16 * 4 div 4 = unat b" by simp
  ultimately show ?case using i base64_first [of "unat b div 16" a] by (simp add: base64_value_table)
next
  case (4 a b c bs)
  have i: "unat a div 4 < 64" "unat a mod 4 * 16 + unat b div 16 < 64" "unat b mod 16 * 4 + unat c div 64 < 64" "unat c mod 64 < 64"
    using byte_small [of a] byte_small [of b] byte_small [of c] by simp_all
  have d: "unat b div 16 < 16" "unat c div 64 < 4" using byte_small [of b] byte_small [of c] by simp_all
  then have "(unat a mod 4 * 16 + unat b div 16) mod 16 * 16 + (unat b mod 16 * 4 + unat c div 64) div 4 = unat b"
    "(unat b mod 16 * 4 + unat c div 64) mod 4 * 64 + unat c mod 64 = unat c" by simp_all
  with 4 i base64_first [OF d(1), of a] show ?case by (simp add: base64_value_table)
qed simp

section \<open>JSON values\<close>

datatype json = JNull | JBool bool | JNum int | JStr string | JTime time | JArr "json list" | JObj "(string \<times> json) list"

text \<open>\<^verbatim>\<open>json.Marshal\<close> refuses a time whose year has not four digits; nothing else of the types fails.\<close>

definition json_time :: "time \<Rightarrow> bool" where
  "json_time t \<longleftrightarrow> - 62167219200 * 10 ^ 9 \<le> t \<and> t < 253402300800 * 10 ^ 9"

fun json_ok :: "json \<Rightarrow> bool" where
  "json_ok (JTime t) = json_time t"
| "json_ok (JArr js) = list_all json_ok js"
| "json_ok (JObj ms) = list_all (\<lambda>(_, j). json_ok j) ms"
| "json_ok _ = True"

text \<open>The decoders of \<^verbatim>\<open>json.Unmarshal\<close>, into a variable that holds the zero value: null leaves it alone.\<close>

type_synonym 'a decoder = "json \<Rightarrow> string + 'a"

definition dec_error :: "string + 'a" where
  "dec_error = Inl ''json: cannot unmarshal value''"

definition dec_int :: "int \<Rightarrow> int \<Rightarrow> int decoder" where
  "dec_int lo hi j = (case j of JNull \<Rightarrow> Inr 0 | JNum n \<Rightarrow> if lo \<le> n \<and> n < hi then Inr n else dec_error | _ \<Rightarrow> dec_error)"

definition dec_bool :: "bool decoder" where
  "dec_bool j = (case j of JNull \<Rightarrow> Inr False | JBool b \<Rightarrow> Inr b | _ \<Rightarrow> dec_error)"

definition dec_string :: "string decoder" where
  "dec_string j = (case j of JNull \<Rightarrow> Inr [] | JStr s \<Rightarrow> Inr s | _ \<Rightarrow> dec_error)"

definition zero_time :: time where
  "zero_time = - 62135596800 * 10 ^ 9"

definition dec_time :: "time decoder" where
  "dec_time j = (case j of JNull \<Rightarrow> Inr zero_time | JTime t \<Rightarrow> Inr t | _ \<Rightarrow> dec_error)"

definition dec_bytes :: "byte list decoder" where
  "dec_bytes j = (case j of JNull \<Rightarrow> Inr [] | JStr s \<Rightarrow> (case base64_decode s of None \<Rightarrow> dec_error | Some bs \<Rightarrow> Inr bs) | _ \<Rightarrow> dec_error)"

fun dec_all :: "'a decoder \<Rightarrow> json list \<Rightarrow> string + 'a list" where
  "dec_all d [] = Inr []"
| "dec_all d (j # js) = (case d j of Inl e \<Rightarrow> Inl e | Inr x \<Rightarrow> (case dec_all d js of Inl e \<Rightarrow> Inl e | Inr xs \<Rightarrow> Inr (x # xs)))"

definition dec_list :: "'a decoder \<Rightarrow> 'a list decoder" where
  "dec_list d j = (case j of JNull \<Rightarrow> Inr [] | JArr js \<Rightarrow> dec_all d js | _ \<Rightarrow> dec_error)"

definition dec_pointer :: "'a decoder \<Rightarrow> 'a option decoder" where
  "dec_pointer d j = (if j = JNull then Inr None else case d j of Inl e \<Rightarrow> Inl e | Inr x \<Rightarrow> Inr (Some x))"

text \<open>An array of Go has a fixed length: missing elements are zero, further ones are skipped.\<close>

definition dec_id :: "ID decoder" where
  "dec_id j = (case dec_list (dec_int 0 256) j of Inl e \<Rightarrow> Inl e
     | Inr ns \<Rightarrow> Inr (bytes_id (take 20 (map word_of_int ns @ replicate 20 0))))"

definition dec_clock :: "clock decoder" where
  "dec_clock j =
     (case j of
        JNull \<Rightarrow> Inr []
      | JObj ms \<Rightarrow> (case dec_all (dec_int 0 (2 ^ 64)) (map snd ms) of Inl e \<Rightarrow> Inl e
          | Inr ns \<Rightarrow> Inr (fold (\<lambda>(k, n). gm_put k (word_of_int n)) (zip (map fst ms) ns) []))
      | _ \<Rightarrow> dec_error)"

text \<open>A field of a struct: the member of its name, or null when there is none.\<close>

definition field :: "string \<Rightarrow> (string \<times> json) list \<Rightarrow> json" where
  "field name ms = (case map_of ms name of None \<Rightarrow> JNull | Some j \<Rightarrow> j)"

definition members :: "json \<Rightarrow> string + (string \<times> json) list" where
  "members j = (case j of JNull \<Rightarrow> Inr [] | JObj ms \<Rightarrow> Inr ms | _ \<Rightarrow> dec_error)"

text \<open>The decoding of two fields after each other.\<close>

definition both :: "(string + 'a) \<Rightarrow> (string + 'b) \<Rightarrow> string + 'a \<times> 'b" where
  "both x y = (case x of Inl e \<Rightarrow> Inl e | Inr a \<Rightarrow> (case y of Inl e \<Rightarrow> Inl e | Inr b \<Rightarrow> Inr (a, b)))"

section \<open>Encodings\<close>

definition enc_id :: "ID \<Rightarrow> json" where
  "enc_id a = JArr (map (\<lambda>b. JNum (uint b)) (id_bytes a))"

definition enc_list :: "('a \<Rightarrow> json) \<Rightarrow> 'a list \<Rightarrow> json" where
  "enc_list e xs = JArr (map e xs)"

definition enc_pointer :: "('a \<Rightarrow> json) \<Rightarrow> 'a option \<Rightarrow> json" where
  "enc_pointer e x = (case x of None \<Rightarrow> JNull | Some y \<Rightarrow> e y)"

definition enc_clock :: "clock \<Rightarrow> json" where
  "enc_clock c = JObj (map (\<lambda>(k, n). (k, JNum (uint n))) c)"

definition enc_ref :: "NodeRef \<Rightarrow> json" where
  "enc_ref r = JObj [(''ID'', enc_id (nr_ID r)), (''Addr'', JStr (nr_Addr r))]"

definition dec_ref :: "NodeRef decoder" where
  "dec_ref j = (case members j of Inl e \<Rightarrow> Inl e
     | Inr ms \<Rightarrow> map_sum id (\<lambda>(i, a). \<lparr>nr_ID = i, nr_Addr = a\<rparr>) (both (dec_id (field ''ID'' ms)) (dec_string (field ''Addr'' ms))))"

definition enc_entry :: "ValueEntry \<Rightarrow> json" where
  "enc_entry e = JObj [(''Key'', enc_id (Key e)), (''Value'', JStr (base64 (Value e))), (''Clock'', enc_clock (Clock e)),
     (''Timestamp'', JTime (Timestamp e)), (''TTL'', JNum (TTL e)), (''NodeID'', JStr (NodeID e))]"

definition dec_entry :: "ValueEntry decoder" where
  "dec_entry j = (case members j of Inl e \<Rightarrow> Inl e
     | Inr ms \<Rightarrow> map_sum id (\<lambda>(k, v, c, t, d, n). \<lparr>Key = k, Value = v, Clock = c, Timestamp = t, TTL = d, NodeID = n\<rparr>)
         (both (dec_id (field ''Key'' ms)) (both (dec_bytes (field ''Value'' ms)) (both (dec_clock (field ''Clock'' ms))
           (both (dec_time (field ''Timestamp'' ms)) (both (dec_int (- (2 ^ 63)) (2 ^ 63) (field ''TTL'' ms)) (dec_string (field ''NodeID'' ms))))))))"

section \<open>Round trips\<close>

text \<open>The contract of an encoding: what is encoded is decoded again, for the values that are \<open>ok\<close>.\<close>

locale codec =
  fixes enc :: "'a \<Rightarrow> json" and dec :: "'a decoder" and ok :: "'a \<Rightarrow> bool"
  assumes dec_enc: "ok x \<Longrightarrow> dec (enc x) = Inr x"
    and not_null: "enc x \<noteq> JNull"
begin

lemma all_back: "\<forall>x \<in> set xs. ok x \<Longrightarrow> dec_all dec (map enc xs) = Inr xs"
  by (induction xs) (simp_all add: dec_enc)

lemma list_back: "\<forall>x \<in> set xs. ok x \<Longrightarrow> dec_list dec (enc_list enc xs) = Inr xs"
  by (simp add: dec_list_def enc_list_def all_back)

lemma pointer_back: "\<forall>x. p = Some x \<longrightarrow> ok x \<Longrightarrow> dec_pointer dec (enc_pointer enc p) = Inr p"
  by (cases p) (simp_all add: dec_pointer_def enc_pointer_def not_null dec_enc)

lemma pointers_back: "\<forall>x \<in> set xs. ok x \<Longrightarrow> dec_list (dec_pointer dec) (enc_list enc xs) = Inr (map Some xs)"
proof -
  assume "\<forall>x \<in> set xs. ok x"
  then have "dec_all (dec_pointer dec) (map enc xs) = Inr (map Some xs)"
    by (induction xs) (simp_all add: dec_pointer_def not_null dec_enc)
  then show ?thesis by (simp add: dec_list_def enc_list_def)
qed

end

interpretation num: codec JNum "dec_int lo hi" "\<lambda>n. lo \<le> n \<and> n < hi" for lo hi
  by unfold_locales (simp_all add: dec_int_def)

lemma field_simps [simp]: "field k [] = JNull" "field k ((k', j) # ms) = (if k = k' then j else field k ms)"
  by (auto simp: field_def)

lemma members_obj [simp]: "members (JObj ms) = Inr ms"
  by (simp add: members_def)

lemma both_Inr [simp]: "both (Inr a) (Inr b) = Inr (a, b)"
  by (simp add: both_def)

interpretation ident: codec enc_id dec_id "\<lambda>_. True"
proof
  fix a :: ID
  have r: "0 \<le> uint b \<and> uint b < 256" for b :: byte using uint_lt2p [of b] by simp
  have "dec_list (dec_int 0 256) (enc_id a) = Inr (map uint (id_bytes a))"
    using num.all_back [of "map uint (id_bytes a)" 0 256] r by (simp add: dec_list_def enc_id_def comp_def)
  then show "dec_id (enc_id a) = Inr a" by (simp add: dec_id_def comp_def)
qed (simp add: enc_id_def)

interpretation ref: codec enc_ref dec_ref "\<lambda>_. True"
  by unfold_locales (simp_all add: enc_ref_def dec_ref_def ident.dec_enc dec_string_def)

lemma clock_back: "gm_wf c \<Longrightarrow> dec_clock (enc_clock c) = Inr c"
proof -
  assume wf: "gm_wf c"
  have r: "0 \<le> uint n \<and> uint n < 2 ^ 64" for n :: u64 using uint_lt2p [of n] by simp
  have "dec_all (dec_int 0 (2 ^ 64)) (map JNum (map (uint \<circ> snd) c)) = Inr (map (uint \<circ> snd) c)"
    using r by (intro num.all_back) auto
  then have "dec_clock (enc_clock c) = Inr (fold (\<lambda>(k, n). gm_put k (word_of_int n)) (zip (map fst c) (map (uint \<circ> snd) c)) [])"
    by (simp add: dec_clock_def enc_clock_def comp_def split_def)
  moreover have "fold (\<lambda>(k, n). gm_put k (word_of_int n)) (zip (map fst xs) (map (uint \<circ> snd) xs)) ys = ys @ xs"
    if "distinct (map fst (ys @ xs))" for xs ys :: clock
    using that
  proof (induction xs arbitrary: ys)
    case (Cons x xs)
    then have "fst x \<notin> set (map fst ys)" by auto
    then have "gm_put (fst x) (snd x) ys = ys @ [x]" unfolding gm_put_def by (induction ys) auto
    with Cons.IH [of "ys @ [x]"] Cons.prems show ?case by simp
  qed simp
  from this [of "[]" c] have "fold (\<lambda>(k, n). gm_put k (word_of_int n)) (zip (map fst c) (map (uint \<circ> snd) c)) [] = c"
    using wf by (simp add: gm_wf_def)
  ultimately show ?thesis by simp
qed

text \<open>The entries that survive the wire: a map as clock and a duration of 64 bits.\<close>

definition wire_entry :: "ValueEntry \<Rightarrow> bool" where
  "wire_entry e \<longleftrightarrow> gm_wf (Clock e) \<and> - (2 ^ 63) \<le> TTL e \<and> TTL e < 2 ^ 63"

interpretation entry: codec enc_entry dec_entry wire_entry
proof
  fix e assume e: "wire_entry e"
  then have ttl: "dec_int (- (2 ^ 63)) (2 ^ 63) (JNum (TTL e)) = Inr (TTL e)" by (simp add: wire_entry_def num.dec_enc)
  from e have clock: "dec_clock (enc_clock (Clock e)) = Inr (Clock e)" by (simp add: wire_entry_def clock_back)
  show "dec_entry (enc_entry e) = Inr e"
    unfolding dec_entry_def enc_entry_def
    by (simp add: ident.dec_enc dec_bytes_def base64_back clock dec_time_def ttl [simplified] dec_string_def)
qed (simp add: enc_entry_def)

end
