(* ===== verification/Gateway_Rest.thy ===== *)
theory Gateway_Rest
  imports Scenario_Lemmas Wire
begin

text \<open>
  The REST interface of the gateway, \<^verbatim>\<open>gateway/rest.go\<close>, and the chain of middleware in front of
  it, \<^verbatim>\<open>gateway/server.go\<close>. A request arrives decoded: path parameters as strings and the JSON
  body as the result of \<^verbatim>\<open>ShouldBindJSON\<close>, an error text or the decoded structure. A reply is a
  status and a body value; rendering it as JSON is the framework's. Calls of the Prometheus
  counters are recorded in \<open>gw_metrics\<close>, scenarios started in the background in \<open>gw_background\<close>.
  One request is handled at a time.
\<close>

section \<open>State and replies\<close>

datatype metric =
    ReadTotal string string
  | WriteTotal string string
  | LookupHops string int
  | LookupDurationMs string int
  | ScenarioExecutions string string

datatype scenario_run =
    RunBootstrap int
  | RunChurn duration int
  | RunPartition "string list" duration
  | RunHotKey int
  | RunBenchmark int int int

record Gateway =
  gw_orch :: Orchestrator
  gw_metrics :: "metric list"
  gw_background :: "scenario_run list"

record Gw_Env =
  ge_fuel :: nat
  ge_sha1 :: sha1_fn
  ge_sched :: "Contact list \<Rightarrow> Contact list"
  ge_order :: "NodeRef list \<Rightarrow> NodeRef list"
  ge_format :: "time \<Rightarrow> string"
  ge_formatNano :: "time \<Rightarrow> string"

record linkJSON =
  lj_From :: string
  lj_To :: string
  lj_LatencyMs :: int

record replicaItem =
  ri_NodeID :: string
  ri_Key :: string
  ri_Value :: string
  ri_Clock :: VectorClock
  ri_Timestamp :: string
  ri_TTLNs :: int
  ri_Writer :: string

datatype gw_error =
    EText string
  | EOrch orch_error
  | EUnknownNode string
  | ERepeatedNode string
  | EUnknownScenario string

datatype Body =
    BError gw_error
  | BEmpty
  | BSuccess
  | BNetwork networkStateResponse
  | BConfig configResponse
  | BGroups "string list list"
  | BFaults "string list list" "linkJSON list"
  | BLink string string int
  | BNode string string
  | BNodeState NodeState
  | BPut string
  | BKey KeyState
  | BReplicas "replicaItem list"
  | BTrace lookupTraceResponse
  | BScenarios "(string \<times> string) list"
  | BStarted string
  | BMetrics nat nat string

type_synonym 'b bind = "string + 'b"
type_synonym gw_result = "(fault + Gateway \<times> nat \<times> Body) option"

definition reply :: "nat \<Rightarrow> Body \<Rightarrow> Gateway \<Rightarrow> gw_result" where
  "reply status body g = Some (Inr (g, status, body))"

definition set_orch :: "Orchestrator \<Rightarrow> Gateway \<Rightarrow> Gateway" where
  "set_orch orc g = g\<lparr>gw_orch := orc\<rparr>"

definition record_metric :: "metric \<Rightarrow> Gateway \<Rightarrow> Gateway" where
  "record_metric m g = g\<lparr>gw_metrics := gw_metrics g @ [m]\<rparr>"

definition bad :: "string \<Rightarrow> Gateway \<Rightarrow> gw_result" where
  "bad msg g = reply 400 (BError (EText msg)) g"

section \<open>Names of nodes\<close>

text \<open>\<^verbatim>\<open>net.SplitHostPort\<close>.\<close>

definition first_index :: "char \<Rightarrow> string \<Rightarrow> nat option" where
  "first_index c s = (if c \<in> set s then Some (length (takeWhile (\<lambda>x. x \<noteq> c) s)) else None)"

definition last_index :: "char \<Rightarrow> string \<Rightarrow> nat option" where
  "last_index c s = (if c \<in> set s then Some (length s - 1 - length (takeWhile (\<lambda>x. x \<noteq> c) (rev s))) else None)"

definition SplitHostPort :: "string \<Rightarrow> (string \<times> string) option" where
  "SplitHostPort s =
     (case last_index CHR '':'' s of
        None \<Rightarrow> None
      | Some i \<Rightarrow>
          if s ! 0 = CHR ''[''
          then (case first_index CHR '']'' s of
                  None \<Rightarrow> None
                | Some e \<Rightarrow>
                    if e + 1 = length s then None
                    else if e + 1 \<noteq> i then None
                    else if CHR ''['' \<in> set (drop 1 s) then None
                    else if CHR '']'' \<in> set (drop (e + 1) s) then None
                    else Some (take (e - 1) (drop 1 s), drop (i + 1) s))
          else if CHR '':'' \<in> set (take i s) then None
          else if CHR ''['' \<in> set s then None
          else if CHR '']'' \<in> set s then None
          else Some (take i s, drop (i + 1) s))"

definition isValidAddr :: "string \<Rightarrow> bool" where
  "isValidAddr s =
     (case SplitHostPort s of
        None \<Rightarrow> False
      | Some (host, port) \<Rightarrow>
          if host = [] \<or> port = [] then False
          else (case Atoi port of None \<Rightarrow> False | Some portNum \<Rightarrow> portNum > 0 \<and> portNum \<le> 65535))"

definition isHexNodeID :: "string \<Rightarrow> bool" where
  "isHexNodeID s \<longleftrightarrow> length s = 40 \<and>
     list_all (\<lambda>r. let n = of_char r :: nat in (48 \<le> n \<and> n \<le> 57) \<or> (97 \<le> n \<and> n \<le> 102) \<or> (65 \<le> n \<and> n \<le> 70)) s"

definition resolveAddr :: "Gw_Env \<Rightarrow> string \<Rightarrow> Orchestrator \<Rightarrow> string" where
  "resolveAddr env idOrAddr orc =
     (case List.find (\<lambda>n. ns_ID n = idOrAddr \<or> ns_Addr n = idOrAddr) (nw_Nodes (GetNetworkState (ge_format env) orc)) of
        None \<Rightarrow> [] | Some n \<Rightarrow> ns_Addr n)"

section \<open>Network handlers\<close>

record startBody =
  sb_Protocol :: string
  sb_NodeCount :: int

text \<open>The loops that spawn nodes with generated addresses.\<close>

fun spawn_nodes :: "Gw_Env \<Rightarrow> nat \<Rightarrow> Orchestrator \<Rightarrow> (fault + Orchestrator \<times> (orch_error + unit)) option" where
  "spawn_nodes env 0 orc = Some (Inr (orc, Inr ()))"
| "spawn_nodes env (Suc k) orc =
     (case SpawnNode (ge_fuel env) (ge_sha1 env) (ge_sched env) [] orc of
        None \<Rightarrow> None
      | Some (Inl f) \<Rightarrow> Some (Inl f)
      | Some (Inr (orc, Inl e)) \<Rightarrow> Some (Inr (orc, Inl e))
      | Some (Inr (orc, Inr _)) \<Rightarrow> spawn_nodes env k orc)"

definition no_patch :: configPatch where
  "no_patch = \<lparr>cp_Protocol = None, cp_M = None, cp_VirtualNodes = None, cp_ReplicationN = None, cp_WriteQuorum = None, cp_ReadQuorum = None,
     cp_SuccessorListSize = None, cp_KBucketSize = None, cp_Alpha = None, cp_StabilizeIntervalMs = None, cp_FixFingersIntervalMs = None,
     cp_GossipIntervalMs = None, cp_RepublishIntervalMs = None, cp_SimDelayMs = None, cp_SimLossRate = None, cp_InitialNodes = None\<rparr>"

definition start_config :: "startBody \<Rightarrow> SimConfig \<Rightarrow> string + SimConfig" where
  "start_config body cfg = (if sb_Protocol body \<noteq> [] then mergeConfig cfg (no_patch\<lparr>cp_Protocol := Some (sb_Protocol body)\<rparr>) else Inr cfg)"

definition startNetwork :: "Gw_Env \<Rightarrow> startBody bind \<Rightarrow> Gateway \<Rightarrow> gw_result" where
  "startNetwork env bound g =
     (case bound of
        Inl e \<Rightarrow> bad e g
      | Inr body \<Rightarrow>
          if sb_NodeCount body \<le> 0 then bad ''nodeCount must be greater than 0'' g
          else case start_config body (OrchestratorConfig (gw_orch g)) of
                 Inl e \<Rightarrow> bad e g
               | Inr nextCfg \<Rightarrow>
                   let orc = (if NodeCount (gw_orch g) > 0 then Reset (gw_orch g) else gw_orch g);
                       orc = UpdateConfig nextCfg orc
                   in (case spawn_nodes env (nat (sb_NodeCount body)) orc of
                         None \<Rightarrow> None
                       | Some (Inl f) \<Rightarrow> Some (Inl f)
                       | Some (Inr (orc, Inl e)) \<Rightarrow> reply 500 (BError (EOrch e)) (set_orch orc g)
                       | Some (Inr (orc, Inr _)) \<Rightarrow>
                           reply 200 (BNetwork (mapNetworkState (GetNetworkState (ge_format env) orc))) (set_orch orc g)))"

definition resetNetwork :: "Gateway \<Rightarrow> gw_result" where
  "resetNetwork g = reply 200 BSuccess (set_orch (Reset (gw_orch g)) g)"

definition getNetworkState :: "Gw_Env \<Rightarrow> Gateway \<Rightarrow> gw_result" where
  "getNetworkState env g = reply 200 (BNetwork (mapNetworkState (GetNetworkState (ge_format env) (gw_orch g)))) g"

definition getConfig :: "Gateway \<Rightarrow> gw_result" where
  "getConfig g = reply 200 (BConfig (mapConfig (OrchestratorConfig (gw_orch g)))) g"

definition updateConfig :: "Gw_Env \<Rightarrow> configPatch bind \<Rightarrow> Gateway \<Rightarrow> gw_result" where
  "updateConfig env bound g =
     (case bound of
        Inl e \<Rightarrow> bad e g
      | Inr patch \<Rightarrow>
          let current = OrchestratorConfig (gw_orch g) in
          (case mergeConfig current patch of
             Inl e \<Rightarrow> bad e g
           | Inr next \<Rightarrow>
               let nodeCount = length (nw_Nodes (GetNetworkState (ge_format env) (gw_orch g)));
                   protocolChanged = (normalizeProtocol (sc_Protocol current) \<noteq> normalizeProtocol (sc_Protocol next));
                   done = (\<lambda>orc. reply 200 (BConfig (mapConfig (OrchestratorConfig orc))) (set_orch orc g))
               in if protocolChanged \<and> nodeCount > 0
                  then (case spawn_nodes env nodeCount (UpdateConfig next (Reset (gw_orch g))) of
                          None \<Rightarrow> None
                        | Some (Inl f) \<Rightarrow> Some (Inl f)
                        | Some (Inr (orc, Inl e)) \<Rightarrow> reply 500 (BError (EOrch e)) (set_orch orc g)
                        | Some (Inr (orc, Inr _)) \<Rightarrow> done orc)
                  else done (UpdateConfig next (gw_orch g))))"

text \<open>The nested loops of \<^verbatim>\<open>setPartition\<close>: \<open>seen\<close> is the set of addresses listed so far.\<close>

fun resolve_group :: "(string \<Rightarrow> string) \<Rightarrow> string list \<Rightarrow> string list \<Rightarrow> gw_error + string list \<times> string list" where
  "resolve_group resolve [] seen = Inr (seen, [])"
| "resolve_group resolve (member # ms) seen =
     (let addr = resolve member in
      if addr = [] then Inl (EUnknownNode member)
      else if addr \<in> set seen then Inl (ERepeatedNode member)
      else case resolve_group resolve ms (addr # seen) of
             Inl e \<Rightarrow> Inl e
           | Inr (seen, resolvedGroup) \<Rightarrow> Inr (seen, addr # resolvedGroup))"

fun resolve_groups :: "(string \<Rightarrow> string) \<Rightarrow> string list list \<Rightarrow> string list \<Rightarrow> gw_error + string list list" where
  "resolve_groups resolve [] seen = Inr []"
| "resolve_groups resolve (grp # gs) seen =
     (if grp = [] then Inl (EText ''partition groups must not be empty'')
      else case resolve_group resolve grp seen of
             Inl e \<Rightarrow> Inl e
           | Inr (seen, resolvedGroup) \<Rightarrow>
               (case resolve_groups resolve gs seen of Inl e \<Rightarrow> Inl e | Inr resolved \<Rightarrow> Inr (resolvedGroup # resolved)))"

definition setPartition :: "Gw_Env \<Rightarrow> string list list bind \<Rightarrow> Gateway \<Rightarrow> gw_result" where
  "setPartition env bound g =
     (case bound of
        Inl e \<Rightarrow> bad e g
      | Inr groups \<Rightarrow>
          if length groups < 2 then bad ''at least two partition groups are required'' g
          else case resolve_groups (\<lambda>m. resolveAddr env m (gw_orch g)) groups [] of
                 Inl e \<Rightarrow> reply 400 (BError e) g
               | Inr resolved \<Rightarrow> reply 200 (BGroups resolved) (set_orch (SetPartition resolved (gw_orch g)) g))"

definition healPartition :: "Gateway \<Rightarrow> gw_result" where
  "healPartition g = reply 200 BSuccess (set_orch (HealPartition (gw_orch g)) g)"

definition getFaults :: "Gateway \<Rightarrow> gw_result" where
  "getFaults g =
     (let items = map (\<lambda>link. \<lparr>lj_From = ll_From link, lj_To = ll_To link, lj_LatencyMs = Milliseconds (ll_Delay link)\<rparr>)
        (Orch_LinkLatencies (gw_orch g));
          items = sort_Slice (\<lambda>x y. if lj_From x = lj_From y then string_less (lj_To x) (lj_To y) else string_less (lj_From x) (lj_From y)) items
      in reply 200 (BFaults (PartitionGroups (gw_orch g)) items) g)"

record linkBody =
  lb_From :: string
  lb_To :: string
  lb_LatencyMs :: int

definition setLinkLatency :: "Gw_Env \<Rightarrow> linkBody bind \<Rightarrow> Gateway \<Rightarrow> gw_result" where
  "setLinkLatency env bound g =
     (case bound of
        Inl e \<Rightarrow> bad e g
      | Inr body \<Rightarrow>
          if lb_LatencyMs body < 0 then bad ''latencyMs must be non-negative'' g
          else
            let from = resolveAddr env (lb_From body) (gw_orch g);
                to = resolveAddr env (lb_To body) (gw_orch g)
            in if from = [] \<or> to = [] then bad ''from and to must identify existing nodes'' g
               else reply 200 (BLink from to (lb_LatencyMs body))
                      (set_orch (Orch_SetLinkLatency from to (times_Millisecond (lb_LatencyMs body)) (gw_orch g)) g))"

definition clearLinkLatencies :: "Gateway \<Rightarrow> gw_result" where
  "clearLinkLatencies g = reply 200 BSuccess (set_orch (Orch_ClearLinkLatencies (gw_orch g)) g)"

section \<open>Node handlers\<close>

text \<open>An empty body is the error \<^verbatim>\<open>EOF\<close> and leaves the address empty.\<close>

definition spawnNode :: "Gw_Env \<Rightarrow> string bind \<Rightarrow> Gateway \<Rightarrow> gw_result" where
  "spawnNode env bound g =
     (case (case bound of Inl e \<Rightarrow> if e = ''EOF'' then Inr [] else Inl e | Inr a \<Rightarrow> Inr a) of
        Inl e \<Rightarrow> bad e g
      | Inr addr \<Rightarrow>
          if addr \<noteq> [] \<and> \<not> isValidAddr addr then bad ''addr must be a valid host:port pair'' g
          else case SpawnNode (ge_fuel env) (ge_sha1 env) (ge_sched env) addr (gw_orch g) of
                 None \<Rightarrow> None
               | Some (Inl f) \<Rightarrow> Some (Inl f)
               | Some (Inr (orc, Inl e)) \<Rightarrow> reply 500 (BError (EOrch e)) (set_orch orc g)
               | Some (Inr (orc, Inr node)) \<Rightarrow>
                   let ref = node_ref orc node in reply 201 (BNode (IDToHex (nr_ID ref)) (nr_Addr ref)) (set_orch orc g))"

text \<open>The common shape of the two handlers that remove a node; \<open>remove\<close> is the call of the orchestrator.\<close>

definition remove_node :: "(string \<Rightarrow> Orchestrator \<Rightarrow> Orchestrator \<times> (orch_error + unit)) \<Rightarrow> Gw_Env \<Rightarrow> string \<Rightarrow> Gateway \<Rightarrow> gw_result" where
  "remove_node remove env i g =
     (if \<not> isHexNodeID i then bad ''invalid node id: must be a 40-character hex string'' g
      else
        let addr = resolveAddr env i (gw_orch g)
        in if addr = [] then reply 404 (BError (EText ''node not found'')) g
           else case remove addr (gw_orch g) of
                  (orc, Inl e) \<Rightarrow> reply 500 (BError (EOrch e)) (set_orch orc g)
                | (orc, Inr _) \<Rightarrow> reply 200 BSuccess (set_orch orc g))"

definition killNode :: "Gw_Env \<Rightarrow> string \<Rightarrow> Gateway \<Rightarrow> gw_result" where
  "killNode = remove_node KillNode"

definition crashNode :: "Gw_Env \<Rightarrow> string \<Rightarrow> Gateway \<Rightarrow> gw_result" where
  "crashNode = remove_node CrashNode"

definition getNode :: "Gw_Env \<Rightarrow> string \<Rightarrow> Gateway \<Rightarrow> gw_result" where
  "getNode env i g =
     (if \<not> isHexNodeID i then bad ''invalid node id: must be a 40-character hex string'' g
      else case List.find (\<lambda>n. ns_ID n = i \<or> ns_Addr n = i) (nw_Nodes (GetNetworkState (ge_format env) (gw_orch g))) of
             Some n \<Rightarrow> reply 200 (BNodeState n) g
           | None \<Rightarrow> reply 404 (BError (EText ''node not found'')) g)"

section \<open>Key handlers\<close>

record putBody =
  pb_Key :: string
  pb_Value :: string

definition putKey :: "Gw_Env \<Rightarrow> putBody bind \<Rightarrow> Gateway \<Rightarrow> gw_result" where
  "putKey env bound g =
     (case bound of
        Inl e \<Rightarrow> bad e g
      | Inr body \<Rightarrow>
          let proto = Protocol (gw_orch g) in
          (case Insert (ge_sha1 env) (ge_order env) (pb_Key body) (pb_Value body) (gw_orch g) of
             Inl f \<Rightarrow> Some (Inl f)
           | Inr (orc, Inl e) \<Rightarrow> reply 500 (BError (EOrch e)) (record_metric (WriteTotal proto ''error'') (set_orch orc g))
           | Inr (orc, Inr _) \<Rightarrow>
               reply 200 (BPut (IDToHex (KeyID (ge_sha1 env) (pb_Key body)))) (record_metric (WriteTotal proto ''ok'') (set_orch orc g))))"

definition getKey :: "Gw_Env \<Rightarrow> string \<Rightarrow> Gateway \<Rightarrow> gw_result" where
  "getKey env key g =
     (let keyID = KeyID (ge_sha1 env) key;
          proto = Protocol (gw_orch g);
          replicaEntries = GetKeyReplicas (ge_sha1 env) key (gw_orch g)
      in if replicaEntries = [] then reply 404 (BError (EText ''key not found'')) (record_metric (ReadTotal proto ''not_found'') g)
         else case Orch_Read (ge_sha1 env) (ge_order env) key (gw_orch g) of
                Inl f \<Rightarrow> Some (Inl f)
              | Inr (orc, Inl e) \<Rightarrow> reply 503 (BError (EOrch e)) (record_metric (ReadTotal proto ''error'') (set_orch orc g))
              | Inr (orc, Inr v) \<Rightarrow>
                  let replicas = sort_Slice string_less (map re_NodeID replicaEntries)
                  in reply 200 (BKey \<lparr>ks_ID = IDToHex keyID, ks_Key = key, ks_Value = bytes_string v, ks_Replicas = replicas,
                       ks_ReplicaCount = int (length replicas)\<rparr>) (record_metric (ReadTotal proto ''ok'') (set_orch orc g)))"

definition deleteKey :: "Gw_Env \<Rightarrow> string \<Rightarrow> Gateway \<Rightarrow> gw_result" where
  "deleteKey env key g =
     (case DeleteKey (ge_sha1 env) key (gw_orch g) of
        (orc, Inl e) \<Rightarrow> reply 404 (BError (EOrch e)) (set_orch orc g)
      | (orc, Inr _) \<Rightarrow> reply 200 BSuccess (set_orch orc g))"

text \<open>A nil clock and an empty one are both the empty list.\<close>

definition getKeyReplicas :: "Gw_Env \<Rightarrow> string \<Rightarrow> Gateway \<Rightarrow> gw_result" where
  "getKeyReplicas env key g =
     (let replicaEntries = GetKeyReplicas (ge_sha1 env) key (gw_orch g)
      in if replicaEntries = [] then reply 404 (BError (EText ''key not found'')) g
         else reply 200 (BReplicas (map (\<lambda>r. \<lparr>ri_NodeID = re_NodeID r, ri_Key = IDToHex (Key (re_Entry r)), ri_Value = base64 (Value (re_Entry r)),
                ri_Clock = Clock (re_Entry r), ri_Timestamp = ge_formatNano env (Timestamp (re_Entry r)), ri_TTLNs = TTL (re_Entry r),
                ri_Writer = NodeID (re_Entry r)\<rparr>) replicaEntries)) g)"

section \<open>Lookups and scenarios\<close>

definition traceLookup :: "Gw_Env \<Rightarrow> string bind \<Rightarrow> Gateway \<Rightarrow> gw_result" where
  "traceLookup env bound g =
     (case bound of
        Inl e \<Rightarrow> bad e g
      | Inr key \<Rightarrow>
          let proto = Protocol (gw_orch g) in
          (case Lookup (ge_fuel env) (ge_sched env) (ge_sha1 env) key (gw_orch g) of
             None \<Rightarrow> None
           | Some (Inl f) \<Rightarrow> Some (Inl f)
           | Some (Inr (orc, Inl e)) \<Rightarrow> reply 500 (BError (EOrch e)) (set_orch orc g)
           | Some (Inr (orc, Inr trace)) \<Rightarrow>
               reply 200 (BTrace (mapLookupTrace trace))
                 (record_metric (LookupDurationMs proto (tr_LatencyMs trace)) (record_metric (LookupHops proto (tr_TotalHops trace)) (set_orch orc g)))))"

definition listScenarios :: "Gateway \<Rightarrow> gw_result" where
  "listScenarios g = reply 200 (BScenarios
     [(''bootstrap'', ''Spawn nodes one by one and watch ring form''),
      (''churn'', ''Add/remove nodes continuously for 30s''),
      (''partition'', ''Split network and heal it''),
      (''hotkey'', ''Write 1000 keys and observe load distribution''),
      (''benchmark'', ''Measure lookup hop count as network scales from 10 to 50 nodes'')]) g"

record scenarioBody =
  rb_NodeCount :: int
  rb_DurationS :: rat
  rb_KeyCount :: int

text \<open>The conversion of a float to an integer truncates.\<close>

definition trunc_rat :: "rat \<Rightarrow> int" where
  "trunc_rat x = (if x < 0 then - \<lfloor>- x\<rfloor> else \<lfloor>x\<rfloor>)"

definition choose_scenario :: "string \<Rightarrow> scenarioBody \<Rightarrow> scenario_run option" where
  "choose_scenario name body =
     (if name = ''bootstrap'' then Some (RunBootstrap (if rb_NodeCount body \<le> 0 then 10 else rb_NodeCount body))
      else if name = ''churn''
      then let dur = trunc_rat (rb_DurationS body * 10 ^ 9)
           in Some (RunChurn (if dur \<le> 0 then 30 * 10 ^ 9 else dur) (if rb_NodeCount body \<le> 0 then 6 else rb_NodeCount body))
      else if name = ''partition'' then Some (RunPartition [''p-key-0'', ''p-key-1'', ''p-key-2'', ''p-key-3''] (2 * 10 ^ 9))
      else if name = ''hotkey'' then Some (RunHotKey (if rb_KeyCount body \<le> 0 then 1000 else rb_KeyCount body))
      else if name = ''benchmark'' then Some (RunBenchmark 10 50 20)
      else None)"

definition runScenario :: "string \<Rightarrow> scenarioBody bind \<Rightarrow> Gateway \<Rightarrow> gw_result" where
  "runScenario name bound g =
     (case (case bound of Inl e \<Rightarrow> if e = ''EOF'' then Inr \<lparr>rb_NodeCount = 0, rb_DurationS = 0, rb_KeyCount = 0\<rparr> else Inl e | Inr b \<Rightarrow> Inr b) of
        Inl e \<Rightarrow> bad e g
      | Inr body \<Rightarrow>
          (case choose_scenario name body of
             None \<Rightarrow> reply 400 (BError (EUnknownScenario name)) g
           | Some run \<Rightarrow>
               reply 200 (BStarted name) (record_metric (ScenarioExecutions name ''started'') (g\<lparr>gw_background := gw_background g @ [run]\<rparr>))))"

text \<open>One of the goroutines started by \<^verbatim>\<open>runScenario\<close>.\<close>

definition run_name :: "scenario_run \<Rightarrow> string" where
  "run_name run = (case run of RunBootstrap _ \<Rightarrow> ''bootstrap'' | RunChurn _ _ \<Rightarrow> ''churn'' | RunPartition _ _ \<Rightarrow> ''partition''
     | RunHotKey _ \<Rightarrow> ''hotkey'' | RunBenchmark _ _ _ \<Rightarrow> ''benchmark'')"

definition execute :: "Scenario_Env \<Rightarrow> scenario_run \<Rightarrow> Orchestrator \<Rightarrow> scenario_result" where
  "execute senv run orc =
     (case run of
        RunBootstrap n \<Rightarrow> ScenarioBootstrap senv n orc
      | RunChurn dur n \<Rightarrow> ScenarioChurn senv dur n orc
      | RunPartition keys dur \<Rightarrow> Some (ScenarioPartition senv keys dur orc)
      | RunHotKey n \<Rightarrow> Some (ScenarioHotKey senv n orc)
      | RunBenchmark m n l \<Rightarrow> ScenarioBenchmark senv m n l orc)"

definition observeScenarioResult :: "string \<Rightarrow> scenario_error + unit \<Rightarrow> Gateway \<Rightarrow> Gateway" where
  "observeScenarioResult scenario r g = record_metric (ScenarioExecutions scenario (case r of Inl _ \<Rightarrow> ''error'' | Inr _ \<Rightarrow> ''completed'')) g"

definition run_background :: "Scenario_Env \<Rightarrow> scenario_run \<Rightarrow> Gateway \<Rightarrow> (fault + Gateway) option" where
  "run_background senv run g =
     (case execute senv run (gw_orch g) of
        None \<Rightarrow> None
      | Some (Inl f) \<Rightarrow> Some (Inl f)
      | Some (Inr (orc, r)) \<Rightarrow> Some (Inr (observeScenarioResult (run_name run) r (set_orch orc (g\<lparr>gw_background := remove1 run (gw_background g)\<rparr>)))))"

definition getMetricsJSON :: "Gw_Env \<Rightarrow> Gateway \<Rightarrow> gw_result" where
  "getMetricsJSON env g =
     (let state = GetNetworkState (ge_format env) (gw_orch g)
      in reply 200 (BMetrics (length (nw_Nodes state)) (length (nw_Keys state)) (nw_Protocol state)) g)"

section \<open>Routes\<close>

datatype Api_Request =
    RqNetworkState | RqConfig | RqFaults | RqNode string | RqGetKey string | RqReplicas string
  | RqLookup "string bind" | RqScenarios | RqMetrics
  | RqStart "startBody bind" | RqReset | RqUpdateConfig "configPatch bind" | RqPartition "string list list bind" | RqHeal
  | RqSetLink "linkBody bind" | RqClearLinks
  | RqSpawn "string bind" | RqKill string | RqCrash string
  | RqPut "putBody bind" | RqDelete string
  | RqScenario string "scenarioBody bind"

text \<open>The routes of the protected group.\<close>

fun is_protected :: "Api_Request \<Rightarrow> bool" where
  "is_protected RqNetworkState = False"
| "is_protected RqConfig = False"
| "is_protected RqFaults = False"
| "is_protected (RqNode _) = False"
| "is_protected (RqGetKey _) = False"
| "is_protected (RqReplicas _) = False"
| "is_protected (RqLookup _) = False"
| "is_protected RqScenarios = False"
| "is_protected RqMetrics = False"
| "is_protected _ = True"

fun handle :: "Gw_Env \<Rightarrow> Api_Request \<Rightarrow> Gateway \<Rightarrow> gw_result" where
  "handle env RqNetworkState g = getNetworkState env g"
| "handle env RqConfig g = getConfig g"
| "handle env RqFaults g = getFaults g"
| "handle env (RqNode i) g = getNode env i g"
| "handle env (RqGetKey key) g = getKey env key g"
| "handle env (RqReplicas key) g = getKeyReplicas env key g"
| "handle env (RqLookup b) g = traceLookup env b g"
| "handle env RqScenarios g = listScenarios g"
| "handle env RqMetrics g = getMetricsJSON env g"
| "handle env (RqStart b) g = startNetwork env b g"
| "handle env RqReset g = resetNetwork g"
| "handle env (RqUpdateConfig b) g = updateConfig env b g"
| "handle env (RqPartition b) g = setPartition env b g"
| "handle env RqHeal g = healPartition g"
| "handle env (RqSetLink b) g = setLinkLatency env b g"
| "handle env RqClearLinks g = clearLinkLatencies g"
| "handle env (RqSpawn b) g = spawnNode env b g"
| "handle env (RqKill i) g = killNode env i g"
| "handle env (RqCrash i) g = crashNode env i g"
| "handle env (RqPut b) g = putKey env b g"
| "handle env (RqDelete key) g = deleteKey env key g"
| "handle env (RqScenario name b) g = runScenario name b g"

text \<open>The chain of \<^verbatim>\<open>NewServer\<close>: CORS, body limit, then the route with its protection.\<close>

definition serve ::
  "Gw_Env \<Rightarrow> mutationSecurityConfig \<Rightarrow> Http_Request \<Rightarrow> Api_Request \<Rightarrow> Gateway \<times> mutationLimiter \<Rightarrow>
   (fault + (Gateway \<times> mutationLimiter) \<times> nat \<times> Body) option" where
  "serve env sec http rq = (\<lambda>(g, limiter).
     case corsMiddleware http of
       Abort status msg \<Rightarrow> Some (Inr ((g, limiter), status, BEmpty))
     | Next \<Rightarrow>
         (case snd (requestBodyLimitMiddleware (2 ^ 20) http) of
            Abort status msg \<Rightarrow> Some (Inr ((g, limiter), status, BError (EText msg)))
          | Next \<Rightarrow>
              (case (if is_protected rq then mutationProtectionMiddleware sec http limiter else (limiter, Next)) of
                 (limiter, Abort status msg) \<Rightarrow> Some (Inr ((g, limiter), status, BError (EText msg)))
               | (limiter, Next) \<Rightarrow>
                   (case handle env rq g of
                      None \<Rightarrow> None
                    | Some (Inl f) \<Rightarrow> Some (Inl f)
                    | Some (Inr (g, status, body)) \<Rightarrow> Some (Inr ((g, limiter), status, body))))))"

end
