(* ===== verification/Gateway_Lemmas.thy ===== *)
theory Gateway_Lemmas
  imports Gateway_Rest
begin

text \<open>
  What a client of the REST interface can rely on: no request breaks the books of the
  orchestrator, a protected request without the token changes nothing, reads change no data
  themselves and start at most one repair of stale replicas.
\<close>

section \<open>The books\<close>

lemma reply_Inr [simp]: "reply st b g = Some (Inr (g', st', b')) \<longleftrightarrow> g' = g \<and> st' = st \<and> b' = b"
  by (auto simp: reply_def)

lemma bad_Inr [simp]: "bad e g = Some (Inr (g', st', b')) \<longleftrightarrow> g' = g \<and> st' = 400 \<and> b' = BError (EText e)"
  by (auto simp: bad_def)

lemma gw_fields [simp]:
  "gw_orch (set_orch orc g) = orc" "gw_orch (record_metric m g) = gw_orch g" "gw_background (set_orch orc g) = gw_background g"
  "gw_background (record_metric m g) = gw_background g" "gw_metrics (set_orch orc g) = gw_metrics g"
  by (simp_all add: set_orch_def record_metric_def)

lemma spawn_nodes_inv: "spawn_nodes env k orc = Some (Inr (orc', r)) \<Longrightarrow> orch_inv (ge_sha1 env) orc \<Longrightarrow> orch_inv (ge_sha1 env) orc'"
  by (induction k arbitrary: orc) (auto split: option.splits sum.splits dest: SpawnNode_inv)

lemma fault_ops_inv:
  assumes "orch_inv sha1 orc"
  shows "orch_inv sha1 (SetPartition gs orc)" "orch_inv sha1 (HealPartition orc)"
    "orch_inv sha1 (Orch_SetLinkLatency a b d orc)" "orch_inv sha1 (Orch_ClearLinkLatencies orc)"
  using assms
  by (simp_all add: SetPartition_def SetPartitions_def HealPartition_def ClearPartitions_def Orch_SetLinkLatency_def SetLinkLatency_def
      Orch_ClearLinkLatencies_def ClearLinkLatencies_def Let_def orch_inv_faults)

lemma node_removal_inv:
  "KillNode a orc = (orc', r) \<Longrightarrow> orch_inv sha1 orc \<Longrightarrow> orch_inv sha1 orc'"
  "CrashNode a orc = (orc', r) \<Longrightarrow> orch_inv sha1 orc \<Longrightarrow> orch_inv sha1 orc'"
  "DeleteKey sha1 key orc = (orc', r) \<Longrightarrow> orch_inv sha1 orc \<Longrightarrow> orch_inv sha1 orc'"
  by (metis fst_conv KillNode_inv, metis fst_conv CrashNode_inv, metis fst_conv DeleteKey_inv)

lemma remove_node_inv:
  assumes "remove_node rm env i g = Some (Inr (g', st, b))" "orch_inv sha1 (gw_orch g)"
    and "\<And>a orc orc' r. rm a orc = (orc', r) \<Longrightarrow> orch_inv sha1 orc \<Longrightarrow> orch_inv sha1 orc'"
  shows "orch_inv sha1 (gw_orch g')"
  using assms(1,2) by (auto simp: remove_node_def Let_def split: if_splits prod.splits sum.splits dest: assms(3))

named_theorems handlers

lemmas [handlers] = getNetworkState_def getConfig_def getFaults_def getNode_def getKeyReplicas_def listScenarios_def getMetricsJSON_def
  resetNetwork_def healPartition_def clearLinkLatencies_def

lemma handle_inv:
  assumes "handle env rq g = Some (Inr (g', st, b))" "orch_inv (ge_sha1 env) (gw_orch g)"
  shows "orch_inv (ge_sha1 env) (gw_orch g')"
proof (cases rq)
  case (RqStart body)
  then show ?thesis using assms
    by (auto simp: startNetwork_def Let_def split: sum.splits if_splits option.splits intro: Reset_inv UpdateConfig_inv dest!: spawn_nodes_inv)
next
  case (RqUpdateConfig body)
  then show ?thesis using assms
    by (auto simp: updateConfig_def Let_def split: sum.splits if_splits option.splits intro: Reset_inv UpdateConfig_inv dest!: spawn_nodes_inv)
next
  case (RqKill i)
  with assms show ?thesis by (auto simp: killNode_def intro: remove_node_inv node_removal_inv(1))
next
  case (RqCrash i)
  with assms show ?thesis by (auto simp: crashNode_def intro: remove_node_inv node_removal_inv(2))
next
  case (RqLookup body)
  with assms show ?thesis
    by (auto simp: traceLookup_def Let_def split: sum.splits option.splits prod.splits dest: Lookup_inv)
qed (use assms in \<open>auto simp: handlers fault_ops_inv Reset_inv setPartition_def setLinkLatency_def spawnNode_def putKey_def getKey_def deleteKey_def
    runScenario_def Let_def split: sum.splits if_splits option.splits prod.splits
    dest: SpawnNode_inv Insert_inv Orch_Read_inv node_removal_inv(3)\<close>)

text \<open>Running one of the scenarios in the background keeps the books, too.\<close>

lemma execute_inv:
  assumes "\<And>d orc. orch_inv (se_sha1 env) orc \<Longrightarrow> orch_inv (se_sha1 env) (se_sleep env d orc)"
    and "execute env run orc = Some (Inr (orc', r))" "orch_inv (se_sha1 env) orc"
  shows "orch_inv (se_sha1 env) orc'"
proof -
  note kept = books_kept [OF assms(1), simplified]
  show ?thesis using assms(2,3)
    by (cases run) (auto simp: execute_def dest: scenario_kept.Bootstrap_kept [OF kept] scenario_kept.Churn_kept [OF kept]
        scenario_kept.Partition_kept [OF kept] scenario_kept.HotKey_kept [OF kept] scenario_kept.Benchmark_kept [OF kept])
qed

text \<open>
  The gateway at work: it answers a request, or runs one of the scenarios it has started.
\<close>

inductive gateway_step :: "mutationSecurityConfig \<Rightarrow> Gw_Env \<Rightarrow> Scenario_Env \<Rightarrow> Gateway \<times> mutationLimiter \<Rightarrow> Gateway \<times> mutationLimiter \<Rightarrow> bool"
  for sec env senv where
  request: "serve env sec http rq s = Some (Inr (s', status, body)) \<Longrightarrow> gateway_step sec env senv s s'"
| scenario: "run \<in> set (gw_background g) \<Longrightarrow> run_background senv run g = Some (Inr g') \<Longrightarrow> gateway_step sec env senv (g, l) (g', l)"

inductive_cases gateway_stepE: "gateway_step sec env senv s s'"

lemma serve_cases:
  assumes "serve env sec http rq (g, l) = Some (Inr ((g', l'), status, body))"
  shows "g' = g \<or> handle env rq g = Some (Inr (g', status, body)) \<and>
    (is_protected rq \<longrightarrow> mutationProtectionMiddleware sec http l = (l', Next))"
  using assms by (auto simp: serve_def split: verdict.splits prod.splits option.splits sum.splits if_splits)

lemma gateway_step_inv:
  assumes "gateway_step sec env senv s s'" "orch_inv (ge_sha1 env) (gw_orch (fst s))" "se_sha1 senv = ge_sha1 env"
    and "\<And>d orc. orch_inv (ge_sha1 env) orc \<Longrightarrow> orch_inv (ge_sha1 env) (se_sleep senv d orc)"
  shows "orch_inv (ge_sha1 env) (gw_orch (fst s'))"
  using assms(1)
proof cases
  case (request http rq status body)
  obtain g l g' l' where s: "s = (g, l)" "s' = (g', l')" by fastforce
  with serve_cases [of env sec http rq g l g' l' status body] request handle_inv [of env rq g g' status body] assms(2)
  show ?thesis by auto
next
  case (scenario run g g' l)
  then obtain orc' r where "execute senv run (gw_orch g) = Some (Inr (orc', r))" "gw_orch g' = orc'"
    by (auto simp: run_background_def observeScenarioResult_def split: option.splits sum.splits)
  with execute_inv [of senv run "gw_orch g" orc' r] assms(2-4) scenario show ?thesis by simp
qed

lemma gateway_run_inv:
  assumes "(gateway_step sec env senv)\<^sup>*\<^sup>* s s'" "orch_inv (ge_sha1 env) (gw_orch (fst s))" "se_sha1 senv = ge_sha1 env"
    and "\<And>d orc. orch_inv (ge_sha1 env) orc \<Longrightarrow> orch_inv (ge_sha1 env) (se_sleep senv d orc)"
  shows "orch_inv (ge_sha1 env) (gw_orch (fst s'))"
  using assms(1,2) by (induction rule: rtranclp_induct) (auto intro: gateway_step_inv assms(3,4))


text \<open>What the snapshot shows in a state with the books in order.\<close>

lemma snapshot_mset:
  assumes "orch_inv sha1 orc"
  shows "mset (map ns_Addr (nw_Nodes (GetNetworkState f orc))) = mset (o_nodeAddrs orc)"
proof -
  from assms have "distinct (o_nodeAddrs orc)" by (simp add: orch_inv_def maps_ok_def)
  with snapshot_addrs(1,2) [OF assms, of f] show ?thesis by (simp only: set_eq_iff_mset_eq_distinct)
qed

lemma registered_addrs:
  assumes "orch_inv sha1 orc"
  shows "map_of (it_registry (o_transport orc)) a = (if a \<in> set (o_nodeAddrs orc) then Some a else None)"
proof -
  from assms have "set (o_nodeAddrs orc) = dom (map_of (o_nodes orc))" by (simp add: orch_inv_def maps_ok_def)
  with orch_inv_nodes(5) [OF assms, of a] show ?thesis by auto
qed

text \<open>
  C8. The gateway keeps the books of its orchestrator. In every run that starts with a new
  orchestrator, of requests of any kind - authorized, refused, malformed or failing half-way - and
  of scenarios run in the background: the network state that a client is shown lists exactly
  the nodes there are, each once and with the identifier of its address; the transport reaches
  exactly these nodes; and quorums and simulated loss are those of the configuration that is shown.
\<close>

theorem gateway_keeps_books:
  assumes "(gateway_step sec env senv)\<^sup>*\<^sup>*
      (\<lparr>gw_orch = NewOrchestrator (ge_sha1 env) rng now cfg, gw_metrics = [], gw_background = []\<rparr>, protection_limiter sec) (g, l)"
    and "se_sha1 senv = ge_sha1 env"
    and "\<And>d orc. orch_inv (ge_sha1 env) orc \<Longrightarrow> orch_inv (ge_sha1 env) (se_sleep senv d orc)"
  shows "\<exists>ns. handle env RqNetworkState g = reply 200 (BNetwork ns) g \<and>
    mset (map ns_Addr (nr_Nodes ns)) = mset (o_nodeAddrs (gw_orch g)) \<and> distinct (o_nodeAddrs (gw_orch g)) \<and>
    (\<forall>n \<in> set (nr_Nodes ns). ns_ID n = IDToHex (NodeIDFromAddr (ge_sha1 env) (ns_Addr n))) \<and>
    (\<forall>a. map_of (it_registry (o_transport (gw_orch g))) a = (if a \<in> ns_Addr ` set (nr_Nodes ns) then Some a else None)) \<and>
    o_quorum (gw_orch g) = \<lparr>qc_N = cr_ReplicationN (nr_Config ns), qc_W = cr_WriteQuorum (nr_Config ns), qc_R = cr_ReadQuorum (nr_Config ns)\<rparr> \<and>
    it_lossRate (o_transport (gw_orch g)) = cr_SimLossRate (nr_Config ns)"
proof -
  let ?orc = "gw_orch g" and ?ns = "mapNetworkState (GetNetworkState (ge_format env) (gw_orch g))"
  have inv: "orch_inv (ge_sha1 env) ?orc"
    using gateway_run_inv [OF assms(1) _ assms(2,3)] by (simp add: NewOrchestrator_inv)
  have nodes: "nr_Nodes ?ns = nw_Nodes (GetNetworkState (ge_format env) ?orc)" by (simp add: mapNetworkState_def)
  have cfg: "nr_Config ?ns = mapConfig (o_cfg ?orc)" by (simp add: mapNetworkState_def GetNetworkState_def Let_def)
  have set: "ns_Addr ` set (nr_Nodes ?ns) = set (o_nodeAddrs ?orc)" using snapshot_addrs(1) [OF inv] nodes by simp
  have "distinct (o_nodeAddrs ?orc)" using inv by (simp add: orch_inv_def maps_ok_def)
  moreover have "o_quorum ?orc = \<lparr>qc_N = cr_ReplicationN (nr_Config ?ns), qc_W = cr_WriteQuorum (nr_Config ?ns), qc_R = cr_ReadQuorum (nr_Config ?ns)\<rparr>"
    "it_lossRate (o_transport ?orc) = cr_SimLossRate (nr_Config ?ns)"
    using inv by (simp_all add: cfg mapConfig_def orch_inv_def transport_ok_def)
  moreover have "\<forall>n \<in> set (nr_Nodes ?ns). ns_ID n = IDToHex (NodeIDFromAddr (ge_sha1 env) (ns_Addr n))"
    using snapshot_addrs(3) [OF inv] nodes by simp
  moreover have "mset (map ns_Addr (nr_Nodes ?ns)) = mset (o_nodeAddrs ?orc)" using snapshot_mset [OF inv] nodes by simp
  moreover have "handle env RqNetworkState g = reply 200 (BNetwork ?ns) g" by (simp add: getNetworkState_def)
  ultimately show ?thesis using registered_addrs [OF inv] by (intro exI [of _ ?ns]) (simp only: set simp_thms if_cancel)
qed

definition demo_env :: Gw_Env where
  "demo_env = \<lparr>ge_fuel = 0, ge_sha1 = demo_hash, ge_sched = id, ge_order = id, ge_format = (\<lambda>_. []), ge_formatNano = (\<lambda>_. [])\<rparr>"

definition demo_gateway :: "Orchestrator \<Rightarrow> Gateway" where
  "demo_gateway orc = \<lparr>gw_orch = orc, gw_metrics = [], gw_background = []\<rparr>"

theorem gateway_keeps_books_witness:
  "\<exists>g l body. serve demo_env demo_security (demo_request ''c'' 0) (RqSpawn (Inr ''x:1'')) (demo_gateway (demo_new ''chord''), protection_limiter demo_security) =
      Some (Inr ((g, l), 201, body)) \<and> map_of (it_registry (o_transport (gw_orch g))) ''x:1'' = Some ''x:1''"
proof -
  let ?cfg = "Sim_DefaultConfig\<lparr>sc_Protocol := ''chord'', sc_WriteQuorum := 1, sc_ReadQuorum := 1\<rparr>"
  let ?s = "(demo_gateway (demo_new ''chord''), protection_limiter demo_security)" and ?senv = "quiet_env demo_hash"
  have start: "?s = (\<lparr>gw_orch = NewOrchestrator (ge_sha1 demo_env) (\<lambda>_. 0) 0 (Some ?cfg), gw_metrics = [], gw_background = []\<rparr>, protection_limiter demo_security)"
    by (simp add: demo_gateway_def demo_new_def demo_env_def)
  have pass: "\<exists>l. mutationProtectionMiddleware demo_security (demo_request ''c'' 0) (protection_limiter demo_security) = (l, Next)"
    by (simp add: mutationProtectionMiddleware_def demo_token demo_security_def)
       (simp add: demo_request_def protection_limiter_def newMutationLimiter_def allow_def demo_security_def)
  have valid: "isValidAddr ''x:1''"
    by (simp add: isValidAddr_def SplitHostPort_def last_index_def Atoi_def digit_value_def)
  have "\<exists>g body. spawnNode demo_env (Inr ''x:1'') (demo_gateway (demo_new ''chord'')) = Some (Inr (g, 201, body)) \<and> o_nodeAddrs (gw_orch g) = [''x:1'']"
    by (simp add: spawnNode_def valid reply_def Let_def)
       (simp add: demo_gateway_def demo_new_def demo_env_def SpawnNode_def spawnChordNode_def NewOrchestrator_def Sim_DefaultConfig_def
        Let_def add_chord_node_def with_chord_def gm_put_def set_orch_def)
  then obtain g body where sp: "spawnNode demo_env (Inr ''x:1'') (demo_gateway (demo_new ''chord'')) = Some (Inr (g, 201, body))"
    "o_nodeAddrs (gw_orch g) = [''x:1'']" by blast
  obtain l where l: "mutationProtectionMiddleware demo_security (demo_request ''c'' 0) (protection_limiter demo_security) = (l, Next)"
    using pass by blast
  have "rq_method (demo_request ''c'' 0) = ''POST''" "rq_contentLength (demo_request ''c'' 0) = 0" by (simp_all add: demo_request_def)
  then have srv: "serve demo_env demo_security (demo_request ''c'' 0) (RqSpawn (Inr ''x:1'')) ?s = Some (Inr ((g, l), 201, body))"
    by (simp add: serve_def corsMiddleware_def requestBodyLimitMiddleware_def l sp(1))
  have run: "(gateway_step demo_security demo_env ?senv)\<^sup>*\<^sup>* ?s (g, l)" by (rule r_into_rtranclp) (rule gateway_step.request [OF srv])
  have eq: "se_sha1 ?senv = ge_sha1 demo_env" by (simp add: quiet_env_def demo_env_def)
  have keeps: "orch_inv (ge_sha1 demo_env) orc \<Longrightarrow> orch_inv (ge_sha1 demo_env) (se_sleep ?senv d orc)" for d orc
    by (simp add: quiet_env_def orch_inv_time)
  have "\<exists>ns :: networkStateResponse. mset (map ns_Addr (nr_Nodes ns)) = mset (o_nodeAddrs (gw_orch g)) \<and>
    (\<forall>a. map_of (it_registry (o_transport (gw_orch g))) a = (if a \<in> ns_Addr ` set (nr_Nodes ns) then Some a else None))"
    by (rule exE [OF gateway_keeps_books [OF run [unfolded start] eq]]) (erule keeps, blast)
  then obtain ns :: networkStateResponse where "mset (map ns_Addr (nr_Nodes ns)) = mset (o_nodeAddrs (gw_orch g))"
    "\<forall>a. map_of (it_registry (o_transport (gw_orch g))) a = (if a \<in> ns_Addr ` set (nr_Nodes ns) then Some a else None)" by blast
  then have "map_of (it_registry (o_transport (gw_orch g))) ''x:1'' = Some ''x:1''"
    using sp(2) by (metis image_set list.set_intros(1) mset_eq_setD)
  with srv show ?thesis by blast
qed

section \<open>Who may change what\<close>

text \<open>
  C14. Only the token opens the protected routes. When a token is configured, a protected request
  that does not carry it changes nothing, neither in the network nor in the rate limiter: it is
  answered 401, or - before the protection is reached - 204 when it is a CORS preflight and 413
  when it announces too large a body. This holds for every protected route and every body.
\<close>

theorem unauthorized_changes_nothing:
  assumes "ms_apiToken sec \<noteq> []" "request_token http \<noteq> ms_apiToken sec" "is_protected rq"
  shows "\<exists>body. serve env sec http rq (g, l) = Some (Inr ((g, l),
    if rq_method http = ''OPTIONS'' then 204 else if rq_contentLength http > 2 ^ 20 then 413 else 401, body))"
  using assms by (simp add: serve_def corsMiddleware_def requestBodyLimitMiddleware_def mutationProtectionMiddleware_def)

theorem unauthorized_changes_nothing_witness:
  "\<exists>body. serve demo_env (demo_security\<lparr>ms_apiToken := ''u''\<rparr>) (demo_request ''c'' 0) RqReset (demo_gateway (demo_new ''chord''), protection_limiter demo_security) =
     Some (Inr ((demo_gateway (demo_new ''chord''), protection_limiter demo_security), 401, body))"
proof -
  have "rq_method (demo_request ''c'' 0) = ''POST''" "rq_contentLength (demo_request ''c'' 0) = 0" by (simp_all add: demo_request_def)
  then show ?thesis
    using unauthorized_changes_nothing [of "demo_security\<lparr>ms_apiToken := ''u''\<rparr>" "demo_request ''c'' 0" RqReset demo_env] by (simp add: demo_token)
qed

text \<open>What a client can read: the data, the members, the configuration and the faults.\<close>

definition same_data :: "Orchestrator \<Rightarrow> Orchestrator \<Rightarrow> bool" where
  "same_data orc orc' \<longleftrightarrow>
     (\<forall>a. cn_Store (o_chord orc' a) = cn_Store (o_chord orc a) \<and> Kad_Ref (o_kad orc' a) = Kad_Ref (o_kad orc a) \<and>
       kn_KVStore (o_kad orc' a) = kn_KVStore (o_kad orc a)) \<and>
     o_nodes orc' = o_nodes orc \<and> o_chordNodes orc' = o_chordNodes orc \<and> o_kadNodes orc' = o_kadNodes orc \<and>
     o_nodeAddrs orc' = o_nodeAddrs orc \<and> o_keyStrings orc' = o_keyStrings orc \<and> o_cfg orc' = o_cfg orc \<and>
     o_quorum orc' = o_quorum orc \<and> same_net (o_transport orc) (o_transport orc') \<and> o_now orc' = o_now orc"

lemma same_data_refl [simp]: "same_data orc orc"
  by (simp add: same_data_def)

text \<open>A quorum read makes calls and publishes; what these keep, it keeps.\<close>

locale read_kept =
  fixes env :: "('s, 'e) quorum_env" and P :: "'s \<Rightarrow> bool"
  assumes get_kept: "qe_GetEntry env c r k s = (s', x) \<Longrightarrow> P s \<Longrightarrow> P s'"
    and publish_kept: "P s \<Longrightarrow> P (qe_Publish env t p s)"
begin

lemma fanout_kept: "get_fanout env c k rs s = (s', res) \<Longrightarrow> P s \<Longrightarrow> P s'"
proof (induction rs arbitrary: s res)
  case (Cons r rs)
  obtain s1 x where g: "qe_GetEntry env (WithSender None c) r k s = (s1, x)" by fastforce
  obtain res' where "get_fanout env c k rs s1 = (s', res')"
    using Cons.prems(1) g by (auto split: prod.splits sum.splits option.splits)
  from Cons.IH [OF this get_kept [OF g Cons.prems(2)]] show ?case .
qed simp

lemma Read_kept:
  assumes "Read env q sched key (s, h) = ((s', h'), r)" "P s"
  shows "P s'"
proof (cases "qm_FindReplicas q key s")
  case (Cons c cs)
  obtain s1 res where f: "get_fanout env c key (sched (c # cs)) s = (s1, res)" by fastforce
  have "P s1" by (rule fanout_kept [OF f assms(2)])
  with assms(1) Cons f show ?thesis by (auto simp: Read_def Let_def publish_kept split: if_splits option.splits prod.splits)
qed (use assms in \<open>simp add: Read_def\<close>)

end

text \<open>Networks that differ in nothing a client can read.\<close>

definition chord_same :: "ChordNet \<Rightarrow> ChordNet \<Rightarrow> bool" where
  "chord_same net net' \<longleftrightarrow> net_node net' = net_node net \<and> net_now net' = net_now net \<and> same_net (net_transport net) (net_transport net')"

interpretation rc: read_kept chord_env "chord_same net" for net
proof
  fix c r k s s' and x :: "chord_error + ValueEntry option"
  assume g: "qe_GetEntry chord_env c r k s = (s', x)" and same: "chord_same net s"
  obtain s1 y where r: "rpc c r s = (s1, y)" by fastforce
  have "s' = s1" using g r by (auto simp: chord_env_def Transport_GetEntry_def split: sum.splits prod.splits)
  moreover have "same_net (net_transport s) (net_transport s1)"
    using r by (auto simp: rpc_def Let_def split: prod.splits dest: lookupForContext_same_net)
  ultimately show "chord_same net s'" using same rpc_frame [OF r] by (auto simp: chord_same_def intro: same_net_trans)
next
  fix s t p
  show "chord_same net s \<Longrightarrow> chord_same net (qe_Publish chord_env t p s)" by (simp add: chord_same_def chord_env_def emit_def)
qed

interpretation rk: read_kept "kad_env sha1" "tables_only net" for sha1 net
proof
  fix c r k s s' and x :: "kad_error + ValueEntry option"
  assume g: "qe_GetEntry (kad_env sha1) c r k s = (s', x)" and t: "tables_only net s"
  from kad_get_result [OF g] obtain y where "kad_rpc c r s = (s', y)" by auto
  from tables_only_trans [OF t kad_rpc_tables [OF this]] show "tables_only net s'" .
next
  fix s t p
  show "tables_only net s \<Longrightarrow> tables_only net (qe_Publish (kad_env sha1) t p s)" using tables_only_trans [OF _ tables_only_emit, of net s t p] by (simp add: kad_env_def)
qed

lemma same_data_chord: "chord_same (chord_net orc) net \<Longrightarrow> same_data orc (with_chord net orc)"
  by (simp add: chord_same_def same_data_def chord_net_def with_chord_def)

lemma same_data_kad: "tables_only (kad_net orc) net \<Longrightarrow> same_data orc (with_kad net orc)"
proof -
  assume t: "tables_only (kad_net orc) net"
  have "kn_ID (kad_node net a) = kn_ID (o_kad orc a)" "kn_Addr (kad_node net a) = kn_Addr (o_kad orc a)"
    "kn_KVStore (kad_node net a) = kn_KVStore (o_kad orc a)" for a
    using tables_only_node(1-3) [OF t, of a] by (simp_all add: kad_net_def)
  moreover have "kad_now net = o_now orc" "same_net (o_transport orc) (kad_transport net)"
    using t by (simp_all add: tables_only_def kad_net_def)
  ultimately show ?thesis by (simp add: same_data_def with_kad_def Kad_Ref_def)
qed

lemma same_data_queue: "same_data orc (fst (queue_repair orc' r)) = same_data orc orc'"
  by (auto simp: queue_repair_def same_data_def split: sum.split)

lemma quorum_read_same: "quorum_read sha1 sched rs key orc = (orc', r) \<Longrightarrow> same_data orc orc'"
proof -
  assume q: "quorum_read sha1 sched rs key orc = (orc', r)"
  have h: "same_data orc (orc1\<lparr>o_history := h\<rparr>) = same_data orc orc1" for orc1 h by (simp add: same_data_def)
  have "same_data orc (fst (quorum_read sha1 sched rs key orc))"
  proof (cases "sc_Protocol (o_cfg orc) = ''chord''")
    case True
    obtain net h r where rd: "Read chord_env (orch_manager rs orc) sched key (chord_net orc, o_history orc) = ((net, h), r)" by (metis prod.collapse)
    have "chord_same (chord_net orc) net" by (rule rc.Read_kept [OF rd]) (simp add: chord_same_def)
    with True rd show ?thesis by (simp add: quorum_read_def same_data_queue h same_data_chord)
  next
    case False
    obtain net h r where rd: "Read (kad_env sha1) (orch_manager rs orc) sched key (kad_net orc, o_history orc) = ((net, h), r)" by (metis prod.collapse)
    have "tables_only (kad_net orc) net" by (rule rk.Read_kept [OF rd]) simp
    with False rd show ?thesis by (simp add: quorum_read_def same_data_queue h same_data_kad)
  qed
  with q show ?thesis by simp
qed

lemma Orch_Read_same: "Orch_Read sha1 sched key orc = Inr (orc', r) \<Longrightarrow> same_data orc orc'"
  by (auto simp: Orch_Read_def Let_def split: sum.splits prod.splits option.splits dest: quorum_read_same)

lemma same_data_publish: "same_data orc (orch_publish t p orc') = same_data orc orc'"
  by (simp add: same_data_def orch_publish_def)

lemma Lookup_same:
  assumes "Lookup fuel sched sha1 key orc = Some (Inr (orc', r))" "orch_inv sha1 orc"
  shows "same_data orc orc'"
proof (cases "o_nodes orc")
  case (Cons p ps)
  obtain a n where p: "p = (a, n)" by fastforce
  let ?orc = "orch_publish EventLookupStart (LookupStartPayload key (IDToHex (KeyID sha1 key)) (IDToHex (nr_ID (node_ref orc n)))) orc"
  have inv: "orch_inv sha1 ?orc" using assms(2) by (simp add: orch_inv_publish)
  have same: "same_data orc orc1" if "same_data ?orc orc1" for orc1
    using that by (simp add: same_data_def orch_publish_def)
  have fin: "same_data orc orc2" if "finish_lookup k i t0 rf hops orc1 = (orc2, tr)" "same_data ?orc orc1" for k i t0 rf hops orc1 orc2 tr
    using that same by (auto simp: finish_lookup_def Let_def same_data_publish)
  have chord: "same_data ?orc (with_chord net ?orc)" if "FindSuccessor fuel h x (chord_net ?orc) = Some (net, hops, res)" for h x net hops res
  proof (rule same_data_chord)
    have "chord_here ?orc net" using cf.FindSuccessor_kept [OF that] here(2) [OF inv] by blast
    then have "(net_transport net)\<lparr>it_pos := 0\<rparr> = (o_transport ?orc)\<lparr>it_pos := 0\<rparr>" by (simp add: chord_frame_def)
    then have "same_net (o_transport ?orc) (net_transport net)" unfolding same_net_def
      by (metis InProcessTransport.surjective InProcessTransport.update_convs(7))
    with FindSuccessor_frame [OF that] show "chord_same (chord_net ?orc) net" by (simp add: chord_same_def) (simp add: chord_net_def)
  qed
  have kad: "same_data ?orc (with_kad net ?orc)" if "IterativeFindNode sched h x (kad_net ?orc) = Inr (net, cs, hops)" for h x net cs hops
  proof (rule same_data_kad)
    have "kad_wf sha1 (kad_net ?orc)" using here(3) [OF inv] by (simp add: kad_frame_def)
    from IterativeFindNode_spec(1) [OF kad_wf_inv [OF this] that] show "tables_only (kad_net ?orc) net" .
  qed
  note lk = assms(1) [unfolded Lookup_def Let_def Cons p list.case prod.case]
  show ?thesis
  proof (cases n)
    case (ChordObj h)
    with lk obtain net hops res where 1: "FindSuccessor fuel h (KeyID sha1 key) (chord_net ?orc) = Some (net, hops, res)"
      by (auto split: option.splits)
    note s = chord [OF 1]
    from lk ChordObj 1 s same [OF s] show ?thesis by (cases res) (auto split: prod.splits dest: fin)
  next
    case (KadObj h)
    with lk obtain net cs hops where 1: "IterativeFindNode sched h (KeyID sha1 key) (kad_net ?orc) = Inr (net, cs, hops)"
      by (auto split: sum.splits)
    note s = kad [OF 1]
    from lk KadObj 1 s show ?thesis by (auto split: prod.splits dest: fin)
  qed
qed (use assms in \<open>simp add: Lookup_def Let_def\<close>)

section \<open>The repairs that reads start\<close>

text \<open>What a node of the configured protocol returns for a key.\<close>

definition orch_entry :: "Orchestrator \<Rightarrow> string \<Rightarrow> ID \<Rightarrow> ValueEntry option" where
  "orch_entry orc a k =
     Get (o_now orc) (if sc_Protocol (o_cfg orc) = ''chord'' then cn_Store (o_chord orc a) else kn_KVStore (o_kad orc a)) k"

lemma orch_entry_views:
  "sc_Protocol (o_cfg orc) = ''chord'' \<Longrightarrow> orch_entry orc = chord_view (chord_net orc)"
  "sc_Protocol (o_cfg orc) \<noteq> ''chord'' \<Longrightarrow> orch_entry orc = kad_view (kad_net orc)"
  by (simp_all add: orch_entry_def chord_view_def kad_view_def chord_net_def kad_net_def fun_eq_iff)

lemma orch_entry_key: "orch_inv sha1 orc \<Longrightarrow> orch_entry orc a k = Some v \<Longrightarrow> Key v = k"
proof -
  assume inv: "orch_inv sha1 orc" and e: "orch_entry orc a k = Some v"
  have "kv_inv (cn_Store (o_chord orc a))" "kv_inv (kn_KVStore (o_kad orc a))"
    using clusters_here [OF inv] by (auto simp: chord_cluster_def kad_cluster_def chord_net_def kad_net_def)
  with e show "Key v = k"
    by (auto simp: orch_entry_def kv_inv_def Get_def split: if_splits option.splits dest!: map_of_SomeD)
qed

text \<open>A repair as a read of a key starts it: every answer is one that a node held, the winner among them.\<close>

definition read_task :: "Orchestrator \<Rightarrow> ID \<Rightarrow> repair_task \<Rightarrow> bool" where
  "read_task orc k t \<longleftrightarrow> rt_key t = k \<and> Key (rt_winner t) = k \<and> rt_winner t \<in> snd ` set (rt_responses t) \<and>
     (\<forall>(n, v) \<in> set (rt_responses t). orch_entry orc (nr_Addr n) k = Some v)"

definition queues_at_most :: "Orchestrator \<Rightarrow> ID \<Rightarrow> Orchestrator \<Rightarrow> bool" where
  "queues_at_most orc k orc' \<longleftrightarrow> o_repairs orc' = o_repairs orc \<or> (\<exists>t. o_repairs orc' = o_repairs orc @ [t] \<and> read_task orc k t)"

lemma read_task_spec:
  assumes "orch_inv sha1 orc" "\<forall>(n, v) \<in> set res. orch_entry orc (nr_Addr n) k = Some v" "snd (Resolve now h (map snd res)) = Some w"
  shows "read_task orc k \<lparr>rt_coordinator = c, rt_key = k, rt_winner = w, rt_responses = res\<rparr>"
proof -
  have "w \<in> set (map snd res)" using assms(3) by (rule Resolve_member)
  then obtain n where n: "(n, w) \<in> set res" by auto
  with assms(2) have "orch_entry orc (nr_Addr n) k = Some w" by blast
  then have "Key w = k" by (rule orch_entry_key [OF assms(1)])
  with n assms(2) show ?thesis by (force simp: read_task_def)
qed

lemma quorum_read_repairs:
  assumes "orch_inv sha1 orc" "quorum_read sha1 sched rs key orc = (orc', r)"
  shows "queues_at_most orc key orc'"
proof (cases "rs = []")
  case True
  have c: "Read chord_env (orch_manager rs orc) sched key (s, h) = ((s, h), Inl (ENoReplicas key))" for s h
    by (simp add: True Read_def orch_manager_def NewQuorumManager_def Let_def)
  have k: "Read (kad_env sha1) (orch_manager rs orc) sched key (s, h) = ((s, h), Inl (ENoReplicas key))" for s h
    by (simp add: True Read_def orch_manager_def NewQuorumManager_def Let_def)
  have "o_repairs orc' = o_repairs orc"
    using assms(2) unfolding quorum_read_def c k by (auto simp: queue_repair_def with_chord_def with_kad_def split: if_splits)
  then show ?thesis by (simp add: queues_at_most_def)
next
  case False
  have queued: "queues_at_most orc key (fst (queue_repair orc1 x))"
    if "o_repairs orc1 = o_repairs orc" "\<forall>(n, v) \<in> set res. orch_entry orc (nr_Addr n) key = Some v"
      "if int (length res) < R then x = Inl E else x = Inr (case snd (Resolve now h (map snd res)) of None \<Rightarrow> (None, None)
         | Some w \<Rightarrow> (Some w, Some \<lparr>rt_coordinator = c, rt_key = key, rt_winner = w, rt_responses = res\<rparr>))"
    for orc1 x R E now h c and res :: "(NodeRef \<times> ValueEntry) list"
    using that read_task_spec [OF assms(1) that(2), of now h _ c]
    by (auto simp: queue_repair_def queues_at_most_def split: if_splits option.splits)
  show ?thesis
  proof (cases "sc_Protocol (o_cfg orc) = ''chord''")
    case True
    let ?q = "orch_manager rs orc :: ChordNet QuorumManager"
    have q: "qm_FindReplicas ?q key s = rs" for s by (simp add: orch_manager_def NewQuorumManager_def Let_def)
    obtain net h x where rd: "Read chord_env ?q sched key (chord_net orc, o_history orc) = ((net, h), x)" by (metis prod.collapse)
    have "qm_FindReplicas ?q key (chord_net orc) \<noteq> []" using False by (simp add: q)
    from cq.Read_spec [OF rd clusters_here(1) [OF assms(1)] this]
    obtain res where "\<forall>(n, v) \<in> set res. orch_entry orc (nr_Addr n) key = Some v"
      "if int (length res) < qc_R (qm_Config ?q) then x = Inl (EQuorumNotMet (int (length res)) (int (length rs)) (qc_R (qm_Config ?q)))
       else x = Inr (case snd (Resolve (qe_now chord_env (chord_net orc)) (o_history orc) (map snd res)) of None \<Rightarrow> (None, None)
         | Some w \<Rightarrow> (Some w, Some \<lparr>rt_coordinator = hd rs, rt_key = key, rt_winner = w, rt_responses = res\<rparr>))"
      unfolding q orch_entry_views(1) [OF True] .
    from queued [OF _ this, of "(with_chord net orc)\<lparr>o_history := h\<rparr>"] assms(2) rd True show ?thesis
      by (simp add: quorum_read_def) (simp add: with_chord_def)
  next
    case kad: False
    let ?q = "orch_manager rs orc :: KadNet QuorumManager"
    have q: "qm_FindReplicas ?q key s = rs" for s by (simp add: orch_manager_def NewQuorumManager_def Let_def)
    obtain net h x where rd: "Read (kad_env sha1) ?q sched key (kad_net orc, o_history orc) = ((net, h), x)" by (metis prod.collapse)
    have "qm_FindReplicas ?q key (kad_net orc) \<noteq> []" using False by (simp add: q)
    from kq.Read_spec [OF rd clusters_here(2) [OF assms(1)] this]
    obtain res where "\<forall>(n, v) \<in> set res. orch_entry orc (nr_Addr n) key = Some v"
      "if int (length res) < qc_R (qm_Config ?q) then x = Inl (EQuorumNotMet (int (length res)) (int (length rs)) (qc_R (qm_Config ?q)))
       else x = Inr (case snd (Resolve (qe_now (kad_env sha1) (kad_net orc)) (o_history orc) (map snd res)) of None \<Rightarrow> (None, None)
         | Some w \<Rightarrow> (Some w, Some \<lparr>rt_coordinator = hd rs, rt_key = key, rt_winner = w, rt_responses = res\<rparr>))"
      unfolding q orch_entry_views(2) [OF kad] .
    from queued [OF _ this, of "(with_kad net orc)\<lparr>o_history := h\<rparr>"] assms(2) rd kad show ?thesis
      by (simp add: quorum_read_def) (simp add: with_kad_def)
  qed
qed

lemma Orch_Read_repairs:
  assumes "orch_inv sha1 orc" "Orch_Read sha1 sched key orc = Inr (orc', r)"
  shows "queues_at_most orc (KeyID sha1 key) orc'"
  using assms(2) quorum_read_repairs [OF assms(1)]
  by (auto simp: Orch_Read_def Let_def split: sum.splits prod.splits option.splits)

lemma Lookup_repairs: "Lookup fuel sched sha1 key orc = Some (Inr (orc', r)) \<Longrightarrow> o_repairs orc' = o_repairs orc"
  by (auto simp: Lookup_def Let_def finish_lookup_def orch_publish_def with_chord_def with_kad_def
      split: list.splits prod.splits option.splits sum.splits Node.splits)

text \<open>What a queued repair does, in whatever state it runs.\<close>

lemma run_repair_effect:
  assumes "orch_inv sha1 orc" "o_repairs orc = t # ts"
  shows "orch_entry (run_repair sha1 orc) a k = orch_entry orc a k \<or>
    k = Key (rt_winner t) \<and>
    orch_entry (run_repair sha1 orc) a k = (if IsExpired (o_now orc) (rt_winner t) then None else Some (rt_winner t)) \<and>
    (\<exists>(n, u) \<in> set (rt_responses t). nr_Addr n = a \<and> VC_Compare (Clock u) (Clock (rt_winner t)) = Before)"
proof -
  have wf: "gm_wf (Clock (rt_winner t))" using assms by (simp add: orch_inv_def objects_ok_def)
  show ?thesis
  proof (cases "sc_Protocol (o_cfg orc) = ''chord''")
    case True
    have run: "orch_entry (run_repair sha1 orc) a k = chord_view (readRepair chord_env t (chord_net orc)) a k"
      using True assms(2) by (simp add: run_repair_def orch_entry_def chord_view_def with_chord_def)
    have "qe_now chord_env (chord_net orc) = o_now orc" by (simp add: chord_env_def chord_net_def)
    with cq.readRepair_loop_spec [OF clusters_here(1) [OF assms(1)] wf, of "rt_coordinator t" "rt_key t" "rt_responses t"]
    show ?thesis unfolding run orch_entry_views(1) [OF True] readRepair_def by simp
  next
    case False
    have run: "orch_entry (run_repair sha1 orc) a k = kad_view (readRepair (kad_env sha1) t (kad_net orc)) a k"
      using False assms(2) by (simp add: run_repair_def orch_entry_def kad_view_def with_kad_def)
    have "qe_now (kad_env sha1) (kad_net orc) = o_now orc" by (simp add: kad_env_def kad_net_def)
    with kq.readRepair_loop_spec [of "kad_net orc" "rt_winner t" sha1 "rt_coordinator t" "rt_key t" "rt_responses t", OF clusters_here(2) [OF assms(1)] wf]
    show ?thesis unfolding run orch_entry_views(2) [OF False] readRepair_def by simp
  qed
qed

text \<open>
  C13. What the open routes can do. While it runs, a request on a route without protection changes
  none of the data a client can read - stores, members, key strings, configuration, partitions,
  link latencies -, starts no scenario, and answers 200, 400, 404, 500 or 503. It may leave
  behind entries in Kademlia routing tables, events, conflict records, consumed random draws,
  counters, and one thing that does change stores later: a read of a key starts at most one
  repair. Every answer of that repair, its winner included, is an entry of that key which some
  node held when the read was served; and whenever the repair runs, in any reachable state, it
  changes nothing but the entry of that key at nodes whose answer was causally older than the
  winner, and makes it the winner. No other open route starts a repair.
\<close>

theorem open_routes_read_only:
  assumes "\<not> is_protected rq" "orch_inv (ge_sha1 env) (gw_orch g)" "handle env rq g = Some (Inr (g', status, body))"
  shows "same_data (gw_orch g) (gw_orch g') \<and> gw_background g' = gw_background g \<and> status \<in> {200, 400, 404, 500, 503} \<and>
    (o_repairs (gw_orch g') = o_repairs (gw_orch g) \<or>
     (\<exists>key t. rq = RqGetKey key \<and> o_repairs (gw_orch g') = o_repairs (gw_orch g) @ [t] \<and>
        rt_winner t \<in> snd ` set (rt_responses t) \<and>
        (\<forall>(n, v) \<in> set (rt_responses t). orch_entry (gw_orch g) (nr_Addr n) (KeyID (ge_sha1 env) key) = Some v) \<and>
        (\<forall>orc ts a k. orch_inv (ge_sha1 env) orc \<and> o_repairs orc = t # ts \<longrightarrow>
           orch_entry (run_repair (ge_sha1 env) orc) a k = orch_entry orc a k \<or>
           k = KeyID (ge_sha1 env) key \<and>
           orch_entry (run_repair (ge_sha1 env) orc) a k = (if IsExpired (o_now orc) (rt_winner t) then None else Some (rt_winner t)) \<and>
           (\<exists>(n, u) \<in> set (rt_responses t). nr_Addr n = a \<and> VC_Compare (Clock u) (Clock (rt_winner t)) = Before))))"
proof -
  have rest: "same_data (gw_orch g) (gw_orch g') \<and> gw_background g' = gw_background g \<and> status \<in> {200, 400, 404, 500, 503}"
    using assms
    by (cases rq) (auto simp: handlers traceLookup_def getKey_def Let_def split: sum.splits if_splits option.splits prod.splits
        dest: Lookup_same Orch_Read_same)
  have "o_repairs (gw_orch g') = o_repairs (gw_orch g) \<or>
      (\<exists>key. rq = RqGetKey key \<and> queues_at_most (gw_orch g) (KeyID (ge_sha1 env) key) (gw_orch g'))"
    using assms
    by (cases rq) (auto simp: handlers traceLookup_def getKey_def Let_def split: sum.splits if_splits option.splits prod.splits
        dest: Lookup_repairs Orch_Read_repairs)
  then consider "o_repairs (gw_orch g') = o_repairs (gw_orch g)"
    | key t where "rq = RqGetKey key" "o_repairs (gw_orch g') = o_repairs (gw_orch g) @ [t]" "read_task (gw_orch g) (KeyID (ge_sha1 env) key) t"
    by (auto simp: queues_at_most_def)
  then show ?thesis
  proof cases
    case (2 key t)
    then have "Key (rt_winner t) = KeyID (ge_sha1 env) key" by (simp add: read_task_def)
    with 2 rest run_repair_effect [of "ge_sha1 env" _ t] show ?thesis
      by (intro conjI disjI2 exI [of _ key] exI [of _ t]) (auto simp: read_task_def)
  qed (use rest in simp)
qed

theorem open_routes_read_only_witness:
  "\<exists>g' body. handle demo_env (RqLookup (Inr ''k'')) (demo_gateway (demo_new ''chord'')) = Some (Inr (g', 500, body)) \<and>
     same_data (demo_new ''chord'') (gw_orch g')"
proof -
  have inv: "orch_inv (ge_sha1 demo_env) (gw_orch (demo_gateway (demo_new ''chord'')))"
    by (simp add: demo_env_def demo_gateway_def demo_new_def NewOrchestrator_inv)
  have n: "o_nodes (demo_new ''chord'') = []" by (simp add: demo_new_def NewOrchestrator_def Let_def)
  have "\<exists>g' body. handle demo_env (RqLookup (Inr ''k'')) (demo_gateway (demo_new ''chord'')) = Some (Inr (g', 500, body))"
    by (simp add: traceLookup_def Lookup_def Let_def n demo_gateway_def)
  then obtain g' body where h: "handle demo_env (RqLookup (Inr ''k'')) (demo_gateway (demo_new ''chord'')) = Some (Inr (g', 500, body))" by blast
  have "gw_orch (demo_gateway (demo_new ''chord'')) = demo_new ''chord''" by (simp add: demo_gateway_def)
  with open_routes_read_only [OF _ inv h] h show ?thesis by auto
qed

end
