(* ===== verification/Orch_Startup.thy ===== *)
theory Orch_Startup
  imports Orch_Invariant Scenario_Lemmas Kad_Progress
begin

text \<open>
  Starting nodes one after the other returns: the first node of either protocol creates its
  network without a call, and a Kademlia network grows up to the bucket size, since every join
  is a lookup in a network whose buckets are never full of others. Two spawns at once can list an
  address twice.
\<close>

section \<open>Generated addresses\<close>

lemma fmt_d_nonempty [simp]: "fmt_d n \<noteq> []" "[] \<noteq> fmt_d n"
  by (simp_all add: fmt_d.simps [of n])

lemma hextable_digit: "i < 10 \<Longrightarrow> j < 10 \<Longrightarrow> hextable ! i = hextable ! j \<Longrightarrow> i = j"
proof -
  have "distinct hextable" "length hextable = 16" by (simp_all add: hextable_def)
  then show "i < 10 \<Longrightarrow> j < 10 \<Longrightarrow> hextable ! i = hextable ! j \<Longrightarrow> i = j" by (simp add: nth_eq_iff_index_eq)
qed

lemma fmt_d_inj: "fmt_d m = fmt_d n \<Longrightarrow> m = n"
proof (induction m arbitrary: n rule: less_induct)
  case (less m)
  show ?case
  proof (cases "m < 10 \<or> n < 10")
    case True
    with less.prems show ?thesis
      by (cases "m < 10"; cases "n < 10") (simp_all add: fmt_d.simps [of m] fmt_d.simps [of n] hextable_digit)
  next
    case False
    with less.prems have eq: "fmt_d (m div 10) = fmt_d (n div 10)" "hextable ! (m mod 10) = hextable ! (n mod 10)"
      by (simp_all add: fmt_d.simps [of m] fmt_d.simps [of n])
    have "m div 10 = n div 10" using less.IH [OF _ eq(1)] False by simp
    moreover have "m mod 10 = n mod 10" by (rule hextable_digit [OF _ _ eq(2)]) simp_all
    ultimately show ?thesis by (metis div_mult_mod_eq)
  qed
qed

lemma auto_addr_inj: "auto_addr m = auto_addr n \<Longrightarrow> m = n"
  by (auto simp: auto_addr_def dest: fmt_d_inj)

section \<open>One more node\<close>

lemma first_node_returns:
  assumes "o_nodes orc = []" "o_nodeAddrs orc = []" "sc_Protocol (o_cfg orc) \<in> {''chord'', ''kademlia''}"
  shows "\<exists>orc' n. SpawnNode fuel sha1 sched [] orc = Some (Inr (orc', Inr n))"
  using assms by (auto simp: SpawnNode_def spawnChordNode_def spawnKadNode_def Let_def)

text \<open>\<open>growing sha1 S orc\<close>: a Kademlia network whose identifiers, at most the bucket size, are in \<open>S\<close>.\<close>

definition growing :: "sha1_fn \<Rightarrow> ID set \<Rightarrow> Orchestrator \<Rightarrow> bool" where
  "growing sha1 S orc \<longleftrightarrow> orch_inv sha1 orc \<and> live_net (set (o_nodeAddrs orc)) S (kad_net orc) \<and> sc_Protocol (o_cfg orc) = ''kademlia'' \<and>
     int (card S) \<le> sc_KBucketSize (o_cfg orc)"

lemma live_net_add:
  assumes "live_net L S net" "kad_inv net'" "kad_node net' = (kad_node net)(a := NewKademliaNode sha1 a (Some cfg))"
    and "it_registry (kad_transport net') = gm_put a a (it_registry (kad_transport net))"
    and "NodeIDFromAddr sha1 a \<in> S" "int (card S) \<le> kc_K cfg"
  shows "live_net (insert a L) S net'"
proof -
  have "AllContacts (NewRoutingTable i k) = []" for i k
    by (simp add: AllContacts_def NewRoutingTable_def Entries_def concat_eq_Nil_conv del: upt_Suc)
  then show ?thesis using assms by (auto simp: live_net_def NewKademliaNode_def Let_def NewRoutingTable_def simp del: upt_Suc)
qed

lemma growing_spawn:
  assumes g: "growing sha1 S orc" and a: "NodeIDFromAddr sha1 (auto_addr (o_portCounter orc)) \<in> S" "auto_addr (o_portCounter orc) \<notin> set (o_nodeAddrs orc)"
  shows "\<exists>orc' n. SpawnNode fuel sha1 sched [] orc = Some (Inr (orc', Inr n)) \<and> growing sha1 S orc'"
proof -
  let ?a = "auto_addr (o_portCounter orc)" and ?L = "set (o_nodeAddrs orc)"
  let ?orc0 = "orc\<lparr>o_portCounter := o_portCounter orc + 1\<rparr>"
  let ?cfg = "\<lparr>kc_K = sc_KBucketSize (o_cfg ?orc0), kc_Alpha = sc_Alpha (o_cfg ?orc0), kc_AlphaTimeout = 0,
                 kc_RepublishInterval = sc_RepublishInterval (o_cfg ?orc0),
                 kc_ExpireTTL = signed_take_bit 63 (sc_RepublishInterval (o_cfg ?orc0) + 10 ^ 9),
                 kc_BucketRefreshInterval = 60 * 10 ^ 9, kc_PingTimeout = 300 * 10 ^ 6\<rparr>"
  define orc1 where "orc1 = ?orc0\<lparr>o_kad := (o_kad ?orc0)(?a := NewKademliaNode sha1 ?a (Some ?cfg)), o_transport := Register ?a ?a (o_transport ?orc0)\<rparr>"
  have spawn: "spawnKadNode sha1 sched ?a first ?orc0 = (case (if first then None else getAnyKadBootstrap orc1) of
      None \<Rightarrow> Some (Inr (add_kad_node sha1 ?a (with_kad (CreateNetwork ?a (kad_net orc1)) orc1), Inr (KadObj ?a)))
    | Some b \<Rightarrow> (case Kad_Join sched ?a b (kad_net orc1) of
        Inl f \<Rightarrow> Some (Inl f)
      | Inr net \<Rightarrow> Some (Inr (add_kad_node sha1 ?a (with_kad net orc1), Inr (KadObj ?a)))))" for first
    unfolding spawnKadNode_def Let_def orc1_def ..
  have inv: "orch_inv sha1 ?orc0" and live: "live_net ?L S (kad_net orc)" and cfg: "sc_Protocol (o_cfg orc) = ''kademlia''" "int (card S) \<le> sc_KBucketSize (o_cfg orc)"
    using g by (simp_all add: growing_def orch_inv_port)
  have addrs: "?L = dom (map_of (o_nodes orc))" using g by (simp add: growing_def orch_inv_def maps_ok_def)
  then have fresh: "map_of (o_nodes ?orc0) ?a = None" using a(2) by (simp add: domIff)
  note spawned = kad_spawned [OF inv fresh orc1_def]
  have "kad_inv (kad_net orc1)" using spawned(1) by (auto simp: objects_ok_def intro: kad_wf_inv)
  then have live1: "live_net (insert ?a ?L) S (kad_net orc1)"
    using a cfg by (intro live_net_add [OF live, of _ ?a sha1 ?cfg]) (simp_all add: kad_net_def orc1_def Register_def)
  obtain net where net: "spawnKadNode sha1 sched ?a (o_nodes orc = []) ?orc0 = Some (Inr (add_kad_node sha1 ?a (with_kad net orc1), Inr (KadObj ?a)))"
      "live_net (insert ?a ?L) S net"
  proof (cases "if o_nodes orc = [] then None else getAnyKadBootstrap orc1")
    case None
    have "live_net (insert ?a ?L) S (CreateNetwork ?a (kad_net orc1))" using live1 by (simp add: CreateNetwork_def)
    with spawn [of "o_nodes orc = []", unfolded None option.case] show thesis by (rule that)
  next
    case (Some b)
    have "o_kadNodes orc1 = o_kadNodes orc" by (simp add: orc1_def)
    with Some obtain x h ks where ks: "o_kadNodes orc = (x, h) # ks" "b = \<lparr>c_ID = kn_ID (o_kad orc1 h), c_Addr = kn_Addr (o_kad orc1 h), c_LastSeen = zero_Time\<rparr>"
      by (auto simp: getAnyKadBootstrap_def split: list.splits if_splits)
    have "h \<in> ?L"
    proof -
      have m: "maps_ok orc" using g by (simp add: growing_def orch_inv_def)
      have k: "map_of (o_kadNodes orc) x = Some h" using ks by simp
      with m have "h = x" unfolding maps_ok_def by blast
      with m k have "map_of (o_nodes orc) h = Some (KadObj h)" unfolding maps_ok_def by blast
      then show ?thesis unfolding addrs by blast
    qed
    then have "kn_ID (kad_node (kad_net orc1) h) \<in> S" using live_net_node(1) [OF live1, of h] by simp
    then have "c_ID b \<in> S" by (simp add: ks kad_net_def)
    from Kad_Join_small [OF live1 this] obtain net where n: "Kad_Join sched ?a b (kad_net orc1) = Inr net" "live_net (insert ?a ?L) S net" by blast
    with spawn [of "o_nodes orc = []", unfolded Some option.case n(1) sum.case] show thesis using that by blast
  qed
  let ?orc' = "add_kad_node sha1 ?a (with_kad net orc1)"
  have sp: "SpawnNode fuel sha1 sched [] orc = Some (Inr (?orc', Inr (KadObj ?a)))"
    using fresh net(1) cfg(1) by (simp add: SpawnNode_def Let_def auto_addr_def)
  have "live_net (insert ?a ?L) S (kad_net ?orc')"
    using net(2) by (simp add: live_net_def kad_inv_def kad_net_def add_kad_node_def with_kad_def Let_def SetAntiEntropy_def)
  moreover have "orch_inv sha1 ?orc'" using SpawnNode_inv [OF sp] g by (simp add: growing_def)
  ultimately have "growing sha1 S ?orc'" using spawn_effect [OF sp] cfg by (simp add: growing_def)
  with sp show ?thesis by blast
qed

text \<open>An empty network can grow to any set of identifiers that fits a bucket.\<close>

lemma growing_empty:
  assumes "orch_inv sha1 orc" "o_nodeAddrs orc = []" "sc_Protocol (o_cfg orc) = ''kademlia''" "int (card S) \<le> sc_KBucketSize (o_cfg orc)"
  shows "growing sha1 S orc"
proof -
  have "map_of (o_nodes orc) a = None" for a
    using assms(1,2) by (auto simp: orch_inv_def maps_ok_def)
  then have "map_of (it_registry (o_transport orc)) a = None" for a
    using assms(1) by (simp add: orch_inv_def transport_ok_def)
  moreover have "kad_inv (kad_net orc)" using assms(1) by (auto simp: orch_inv_def objects_ok_def intro: kad_wf_inv)
  ultimately show ?thesis using assms by (simp add: growing_def live_net_def) (simp add: kad_net_def)
qed

section \<open>Concurrent spawns\<close>

text \<open>
  \<^verbatim>\<open>SpawnNode\<close> is one step of this model. In the code the lock is released between the test whether
  the address is taken and the entry into the maps: the two sections on their own.
\<close>

definition spawn_check :: "string \<Rightarrow> Orchestrator \<Rightarrow> Orchestrator \<times> string \<times> bool \<times> bool" where
  "spawn_check addr orc =
     (let (addr, orc) =
        (if addr = [] then (''127.0.0.1:'' @ fmt_d (o_portCounter orc), orc\<lparr>o_portCounter := o_portCounter orc + 1\<rparr>) else (addr, orc))
      in (orc, addr, map_of (o_nodes orc) addr \<noteq> None, o_nodes orc = []))"

definition spawn_checked ::
  "nat \<Rightarrow> sha1_fn \<Rightarrow> (Contact list \<Rightarrow> Contact list) \<Rightarrow> string \<times> bool \<times> bool \<Rightarrow> Orchestrator \<Rightarrow> Node orch_result" where
  "spawn_checked fuel sha1 sched checked orc =
     (case checked of (addr, exists, firstNode) \<Rightarrow>
        if exists then Some (Inr (orc, Inl (ONodeExists addr)))
        else if sc_Protocol (o_cfg orc) = ''chord'' then spawnChordNode fuel sha1 addr firstNode orc
        else if sc_Protocol (o_cfg orc) = ''kademlia'' then spawnKadNode sha1 sched addr firstNode orc
        else Some (Inr (orc, Inl (OUnknownProtocol (sc_Protocol (o_cfg orc))))))"

lemma SpawnNode_sections:
  "SpawnNode fuel sha1 sched addr orc = (case spawn_check addr orc of (orc, checked) \<Rightarrow> spawn_checked fuel sha1 sched checked orc)"
  by (simp add: SpawnNode_def spawn_check_def spawn_checked_def Let_def)

text \<open>
  Uninterrupted, the two sections keep the books (\<open>SpawnNode_inv\<close>). Two spawns of the same address
  that both check before either enters its node both succeed: the address is listed twice, and
  the second node object has replaced the first.
\<close>

lemma concurrent_spawn_lists_twice:
  assumes "o_nodes orc = []" "o_nodeAddrs orc = []" "sc_Protocol (o_cfg orc) = ''chord''" "a \<noteq> []"
    and "spawn_check a orc = (orc1, first)" "spawn_check a orc1 = (orc2, second)"
  shows "\<exists>orc3 orc4. spawn_checked fuel sha1 sched first orc2 = Some (Inr (orc3, Inr (ChordObj a))) \<and>
    spawn_checked fuel sha1 sched second orc3 = Some (Inr (orc4, Inr (ChordObj a))) \<and>
    o_nodeAddrs orc4 = [a, a] \<and> \<not> maps_ok orc4"
proof -
  have s: "orc2 = orc" "first = (a, False, True)" "second = (a, False, True)" using assms by (auto simp: spawn_check_def)
  have "\<exists>orc'. spawn_checked fuel sha1 sched (a, False, True) x = Some (Inr (orc', Inr (ChordObj a))) \<and>
      o_nodeAddrs orc' = o_nodeAddrs x @ [a] \<and> o_cfg orc' = o_cfg x" if "sc_Protocol (o_cfg x) = ''chord''" for x
    using that by (simp add: spawn_checked_def spawnChordNode_def Let_def add_chord_node_def with_chord_def)
  note enter = this
  obtain orc3 where 3: "spawn_checked fuel sha1 sched (a, False, True) orc = Some (Inr (orc3, Inr (ChordObj a)))"
      "o_nodeAddrs orc3 = [a]" "o_cfg orc3 = o_cfg orc" using enter [OF assms(3)] assms(2) by auto
  obtain orc4 where 4: "spawn_checked fuel sha1 sched (a, False, True) orc3 = Some (Inr (orc4, Inr (ChordObj a)))"
      "o_nodeAddrs orc4 = [a, a]" using enter [of orc3] assms(3) 3 by auto
  then have "\<not> maps_ok orc4" by (simp add: maps_ok_def)
  with 3 4 s show ?thesis by auto
qed

end
