(* ===== verification/Gateway_Effects.thy ===== *)
theory Gateway_Effects
  imports Gateway_Lemmas Orch_Startup
begin

text \<open>
  The effects of the requests that build, split, shrink and fill the network.
\<close>

section \<open>Starting a network\<close>



lemma UpdateConfig_fields [simp]:
  "o_nodeAddrs (UpdateConfig c orc) = o_nodeAddrs orc" "o_portCounter (UpdateConfig c orc) = o_portCounter orc" "o_cfg (UpdateConfig c orc) = c"
  by (simp_all add: UpdateConfig_def)






section \<open>Partitions\<close>

lemma resolveAddr_spec:
  assumes "orch_inv sha1 orc" "resolveAddr env m orc \<noteq> []"
  shows "resolveAddr env m orc \<in> set (o_nodeAddrs orc)"
    "m = resolveAddr env m orc \<or> m = IDToHex (NodeIDFromAddr sha1 (resolveAddr env m orc))"
proof -
  let ?ns = "nw_Nodes (GetNetworkState (ge_format env) orc)"
  obtain n where n: "List.find (\<lambda>n. ns_ID n = m \<or> ns_Addr n = m) ?ns = Some n" "resolveAddr env m orc = ns_Addr n"
    using assms(2) by (auto simp: resolveAddr_def split: option.splits)
  then have m: "n \<in> set ?ns" "ns_ID n = m \<or> ns_Addr n = m" by (auto simp: find_Some_iff)
  show "resolveAddr env m orc \<in> set (o_nodeAddrs orc)"
    using m(1) n(2) snapshot_addrs(1) [OF assms(1), of "ge_format env"] by auto
  show "m = resolveAddr env m orc \<or> m = IDToHex (NodeIDFromAddr sha1 (resolveAddr env m orc))"
    using m n(2) snapshot_addrs(3) [OF assms(1) m(1)] by auto
qed

lemma resolve_group_spec:
  "resolve_group f ms seen = Inr (seen', as) \<Longrightarrow>
   as = map f ms \<and> set seen' = set seen \<union> set as \<and> distinct as \<and> set as \<inter> set seen = {} \<and> [] \<notin> set as"
proof (induction ms arbitrary: seen seen' as)
  case (Cons m ms)
  then obtain as' where r: "resolve_group f ms (f m # seen) = Inr (seen', as')" "as = f m # as'" "f m \<noteq> []" "f m \<notin> set seen"
    by (auto simp: Let_def split: if_splits sum.splits prod.splits)
  have eq: "as' = map f ms" and ih: "set seen' = set (f m # seen) \<union> set as'" "distinct as'" "set as' \<inter> set (f m # seen) = {}" "[] \<notin> set as'"
    using Cons.IH [OF r(1)] by blast+
  have "set seen' = set seen \<union> set as \<and> distinct as \<and> set as \<inter> set seen = {} \<and> [] \<notin> set as"
    unfolding r(2) using ih r(3,4) by auto
  then show ?case using r(2) eq by simp
qed simp

lemma resolve_groups_spec:
  "resolve_groups f gs seen = Inr rs \<Longrightarrow>
   rs = map (map f) gs \<and> distinct (concat rs) \<and> set (concat rs) \<inter> set seen = {} \<and> [] \<notin> set (concat rs) \<and> [] \<notin> set rs"
proof (induction gs arbitrary: seen rs)
  case (Cons g gs)
  then obtain seen' as rs' where r: "g \<noteq> []" "resolve_group f g seen = Inr (seen', as)" "resolve_groups f gs seen' = Inr rs'" "rs = as # rs'"
    by (auto split: if_splits sum.splits prod.splits)
  have eq: "as = map f g" and a: "set seen' = set seen \<union> set as" "distinct as" "set as \<inter> set seen = {}" "[] \<notin> set as"
    using resolve_group_spec [OF r(2)] by blast+
  have eqs: "rs' = map (map f) gs" and b: "distinct (concat rs')" "set (concat rs') \<inter> set seen' = {}" "[] \<notin> set (concat rs')" "[] \<notin> set rs'"
    using Cons.IH [OF r(3)] by blast+
  have "as \<noteq> []" using eq r(1) by simp
  moreover have "set as \<inter> set (concat rs') = {}" "set (concat rs') \<inter> set seen = {}" using a(1) b(2) by blast+
  ultimately have "distinct (concat rs) \<and> set (concat rs) \<inter> set seen = {} \<and> [] \<notin> set (concat rs) \<and> [] \<notin> set rs"
    unfolding r(4) concat.simps set_append using a b by (simp only: distinct_append list.set Int_Un_distrib2) blast
  then show ?case using r(4) eq eqs by simp
qed simp

lemma distinct_concat_disjoint:
  "distinct (concat xss) \<Longrightarrow> i < length xss \<Longrightarrow> j < length xss \<Longrightarrow> i \<noteq> j \<Longrightarrow> set (xss ! i) \<inter> set (xss ! j) = {}"
proof (induction xss arbitrary: i j)
  case (Cons xs xss)
  have tail: "set (xss ! k) \<subseteq> set (concat xss)" if "k < length xss" for k using nth_mem [OF that] by auto
  from Cons.prems(1) have d: "distinct (concat xss)" "set xs \<inter> set (concat xss) = {}" by auto
  show ?case
  proof (cases i)
    case 0
    then obtain l where "j = Suc l" "l < length xss" using Cons.prems by (cases j) auto
    with 0 d(2) tail [of l] show ?thesis by auto
  next
    case (Suc k)
    show ?thesis
    proof (cases j)
      case 0
      with Suc d(2) tail [of k] Cons.prems(2) show ?thesis by auto
    next
      case (Suc l)
      with \<open>i = Suc k\<close> Cons d(1) show ?thesis by auto
    qed
  qed
qed simp

text \<open>
  C10. Partitions through the API. A request for a partition is refused with 400 and changes nothing,
  or it is accepted; then there are at least two groups, none empty, of addresses of live
  nodes, no node in two groups or twice in one, each resolved from the address or
  identifier that was asked for, and from then on every call between two groups fails.
\<close>

theorem set_partition_sound:
  assumes "orch_inv (ge_sha1 env) (gw_orch g)" "setPartition env (Inr groups) g = Some (Inr (g', status, b))"
  shows "status = 400 \<and> g' = g \<or>
    status = 200 \<and> 2 \<le> length groups \<and>
    (let rs = PartitionGroups (gw_orch g') in
     rs = map (map (\<lambda>m. resolveAddr env m (gw_orch g))) groups \<and> b = BGroups rs \<and>
     [] \<notin> set rs \<and> distinct (concat rs) \<and> set (concat rs) \<subseteq> set (o_nodeAddrs (gw_orch g')) \<and>
     (\<forall>i < length rs. \<forall>j < length rs. \<forall>from \<in> set (rs ! i). \<forall>to \<in> set (rs ! j). i \<noteq> j \<longrightarrow>
        snd (lookupFrom from to (o_transport (gw_orch g'))) = Inl ErrPartitioned))"
proof (cases "length groups < 2")
  case True
  with assms(2) show ?thesis by (simp add: setPartition_def)
next
  case False
  let ?f = "\<lambda>m. resolveAddr env m (gw_orch g)"
  show ?thesis
  proof (cases "resolve_groups ?f groups []")
    case (Inl e)
    with assms(2) False show ?thesis by (simp add: setPartition_def)
  next
    case (Inr rs)
    note R = resolve_groups_spec [OF Inr]
    let ?t = "SetPartitions rs (o_transport (gw_orch g))"
    have g': "status = 200" "b = BGroups rs" "o_transport (gw_orch g') = ?t" "o_nodeAddrs (gw_orch g') = o_nodeAddrs (gw_orch g)"
      using assms(2) False Inr by (auto simp: setPartition_def SetPartition_def)
    have pg: "PartitionGroups (gw_orch g') = rs" by (simp add: PartitionGroups_def g'(3) Partitions_def SetPartitions_def)
    have live: "set (concat rs) \<subseteq> set (o_nodeAddrs (gw_orch g'))"
    proof
      fix a assume a: "a \<in> set (concat rs)"
      have "[] \<notin> set (concat rs)" using R by blast
      with a have ne: "a \<noteq> []" by metis
      have "rs = map (map ?f) groups" using R by blast
      with a obtain m where m: "a = ?f m" by auto
      with ne resolveAddr_spec(1) [OF assms(1), of env m] show "a \<in> set (o_nodeAddrs (gw_orch g'))" unfolding g'(4) by simp
    qed
    have disj: "\<forall>i < length rs. \<forall>j < length rs. i \<noteq> j \<longrightarrow> set (rs ! i) \<inter> set (rs ! j) = {}"
      using distinct_concat_disjoint R by blast
    have cut: "snd (lookupFrom from to ?t) = Inl ErrPartitioned"
      if "i < length rs" "j < length rs" "from \<in> set (rs ! i)" "to \<in> set (rs ! j)" "i \<noteq> j" for i j "from" to
    proof -
      have "from \<in> set (concat rs)" using that(1,3) by auto
      moreover have "[] \<notin> set (concat rs)" using R by blast
      ultimately have "from \<noteq> []" by metis
      moreover have "rs \<noteq> []" using that(1) by auto
      ultimately show ?thesis
        using group_of_spec(1) [OF disj that(1,3)] group_of_spec(1) [OF disj that(2,4)] that(5)
        by (simp add: lookupFrom_def SetPartitions_def Let_def)
    qed
    have "rs = map (map ?f) groups" "[] \<notin> set rs" "distinct (concat rs)" "2 \<le> length groups" using R False by (blast, blast, blast, simp)
    moreover have "\<forall>i < length rs. \<forall>j < length rs. \<forall>from \<in> set (rs ! i). \<forall>to \<in> set (rs ! j). i \<noteq> j \<longrightarrow>
        snd (lookupFrom from to (o_transport (gw_orch g'))) = Inl ErrPartitioned" unfolding g'(3) using cut by blast
    ultimately show ?thesis using live g'(1,2) unfolding Let_def pg by blast
  qed
qed

section \<open>Removing nodes\<close>

lemma removal_effect:
  assumes "orch_inv sha1 orc" "a \<in> set (o_nodeAddrs orc)" "rm = KillNode \<or> rm = CrashNode"
  shows "snd (rm a orc) = Inr ()" "o_nodeAddrs (fst (rm a orc)) = filter (\<lambda>b. b \<noteq> a) (o_nodeAddrs orc)"
    "o_cfg (fst (rm a orc)) = o_cfg orc" "orch_inv sha1 (fst (rm a orc))"
proof -
  from assms(1) have d: "distinct (o_nodeAddrs orc)" "set (o_nodeAddrs orc) = dom (map_of (o_nodes orc))" by (simp_all add: orch_inv_def maps_ok_def)
  with assms(2) obtain n where n: "map_of (o_nodes orc) a = Some n" by auto
  show "snd (rm a orc) = Inr ()" "o_nodeAddrs (fst (rm a orc)) = filter (\<lambda>b. b \<noteq> a) (o_nodeAddrs orc)" "o_cfg (fst (rm a orc)) = o_cfg orc"
    using assms(3) n d(1)
    by (auto simp: KillNode_def CrashNode_def Let_def forget_node_def with_chord_def orch_publish_def removeAddr_filter split: Node.splits)
  show "orch_inv sha1 (fst (rm a orc))" using assms(1,3) by (auto intro: KillNode_inv CrashNode_inv)
qed

text \<open>
  C12. Removing a node through the API. A request to kill or crash a node never fails halfway: it is
  refused with 400 when the identifier is malformed and with 404 when no node has it, changing
  nothing; otherwise it is answered 200 and takes exactly the node with this identifier (or
  address) off the network: the others stay, in order, nobody can reach it any more, and a
  second request for it finds nothing when identifiers differ.
\<close>

theorem removed_node_is_gone:
  assumes "orch_inv (ge_sha1 env) (gw_orch g)" "[] \<notin> set (o_nodeAddrs (gw_orch g))" "rq = RqKill i \<or> rq = RqCrash i"
    and "handle env rq g = Some (Inr (g', status, b))"
  shows "status = 400 \<and> g' = g \<and> \<not> isHexNodeID i \<or>
    status = 404 \<and> g' = g \<and> (\<forall>a \<in> set (o_nodeAddrs (gw_orch g)). i \<noteq> IDToHex (NodeIDFromAddr (ge_sha1 env) a)) \<or>
    status = 200 \<and> (\<exists>a \<in> set (o_nodeAddrs (gw_orch g)). (i = IDToHex (NodeIDFromAddr (ge_sha1 env) a) \<or> i = a) \<and>
      o_nodeAddrs (gw_orch g') = filter (\<lambda>b. b \<noteq> a) (o_nodeAddrs (gw_orch g)) \<and>
      map_of (it_registry (o_transport (gw_orch g'))) a = None \<and> o_cfg (gw_orch g') = o_cfg (gw_orch g))"
proof -
  have "remove_node KillNode env i g = Some (Inr (g', status, b)) \<or> remove_node CrashNode env i g = Some (Inr (g', status, b))"
    using assms(3,4) by (auto simp: killNode_def crashNode_def)
  then obtain rm where rm: "rm = KillNode \<or> rm = CrashNode" "remove_node rm env i g = Some (Inr (g', status, b))" by blast
  let ?orc = "gw_orch g" and ?a = "resolveAddr env i (gw_orch g)"
  show ?thesis
  proof (cases "isHexNodeID i \<and> ?a \<noteq> []")
    case False
    have "i \<noteq> IDToHex (NodeIDFromAddr (ge_sha1 env) a)" if a: "a \<in> set (o_nodeAddrs ?orc)" "?a = []" for a
    proof
      assume i: "i = IDToHex (NodeIDFromAddr (ge_sha1 env) a)"
      let ?ns = "nw_Nodes (GetNetworkState (ge_format env) ?orc)"
      have "a \<in> ns_Addr ` set ?ns" using a(1) snapshot_addrs(1) [OF assms(1), of "ge_format env"] by simp
      then obtain n where n: "n \<in> set ?ns" "ns_Addr n = a" by blast
      then have "ns_ID n = i" using snapshot_addrs(3) [OF assms(1) n(1)] i by simp
      with n(1) obtain n' where f: "List.find (\<lambda>n. ns_ID n = i \<or> ns_Addr n = i) ?ns = Some n'"
        by (cases "List.find (\<lambda>n. ns_ID n = i \<or> ns_Addr n = i) ?ns") (auto simp: find_None_iff)
      then have "ns_Addr n' = []" using a(2) by (simp add: resolveAddr_def)
      moreover have "n' \<in> set ?ns" using f by (auto simp: find_Some_iff)
      ultimately have "[] \<in> ns_Addr ` set ?ns" by (metis image_eqI)
      then show False using assms(2) snapshot_addrs(1) [OF assms(1), of "ge_format env"] by simp
    qed
    with False rm(2) show ?thesis by (auto simp: remove_node_def Let_def split: if_splits)
  next
    case True
    then have hex: "isHexNodeID i" and ne: "?a \<noteq> []" by simp_all
    note a = resolveAddr_spec [OF assms(1) ne]
    note e = removal_effect [OF assms(1) a(1) rm(1)]
    have "status = 200" "gw_orch g' = fst (rm ?a ?orc)"
      using rm(2) hex ne e(1) by (auto simp: remove_node_def Let_def split: prod.splits sum.splits)
    moreover have "map_of (it_registry (o_transport (fst (rm ?a ?orc)))) ?a = None"
      using registered_addrs [OF e(4), of ?a] e(2) by simp
    ultimately show ?thesis using a e(2,3) by auto
  qed
qed

section \<open>Writing and reading a key\<close>

lemma GetKeyReplicas_fold:
  "fold (\<lambda>(_, h) rs. case f h of None \<Rightarrow> rs | Some e \<Rightarrow> rs @ [g h e]) xs init =
     init @ map (\<lambda>(_, h). g h (the (f h))) (filter (\<lambda>(_, h). f h \<noteq> None) xs)"
  for f :: "string \<Rightarrow> ValueEntry option"
  by (induction xs arbitrary: init) (auto split: option.splits)

lemma replica_entries:
  "mset (GetKeyReplicas sha1 key orc) =
     mset (map (\<lambda>(_, h). \<lparr>re_NodeID = IDToHex (cn_ID (o_chord orc h)), re_Entry = the (Get (o_now orc) (cn_Store (o_chord orc h)) (KeyID sha1 key))\<rparr>)
         (filter (\<lambda>(_, h). Get (o_now orc) (cn_Store (o_chord orc h)) (KeyID sha1 key) \<noteq> None) (o_chordNodes orc)) @
       map (\<lambda>(_, h). \<lparr>re_NodeID = IDToHex (kn_ID (o_kad orc h)), re_Entry = the (Get (o_now orc) (kn_KVStore (o_kad orc h)) (KeyID sha1 key))\<rparr>)
         (filter (\<lambda>(_, h). Get (o_now orc) (kn_KVStore (o_kad orc h)) (KeyID sha1 key) \<noteq> None) (o_kadNodes orc)))"
  unfolding GetKeyReplicas_def Let_def mset_sort_Slice GetKeyReplicas_fold by simp

text \<open>A quorum read that returns an entry has seen it at one of the nodes.\<close>

lemma read_entry_at_replica:
  assumes "orch_inv sha1 orc" "set rs \<subseteq> set (orch_refs orc)" "\<forall>xs. mset (sched xs) = mset xs"
    and "quorum_read sha1 sched rs (KeyID sha1 key) orc = (orc', Inr (Some e))"
  shows "GetKeyReplicas sha1 key orc \<noteq> []"
proof -
  let ?k = "KeyID sha1 key"
  note n = orch_inv_nodes [OF assms(1)]
  from assms(1) have wf: "gm_wf (o_chordNodes orc)" "gm_wf (o_kadNodes orc)" by (simp_all add: orch_inv_def maps_ok_def)
  have sub: "r \<in> set rs" if "subseq (map fst res) (sched rs)" "(r, v) \<in> set res" for r v and res :: "(NodeRef \<times> ValueEntry) list"
  proof -
    have "r \<in> set (map fst res)" using that(2) by force
    then have "r \<in> set (sched rs)" using that(1) by (metis subseq_conv_nths set_nths_subset subsetD)
    then show ?thesis using assms(3) by (metis mset_eq_setD)
  qed
  have winner: "\<exists>n. (n, e) \<in> set res"
    if "if int (length res) < R then r = Inl E else r = Inr (case snd (Resolve now h (map snd res)) of None \<Rightarrow> (None, None) | Some w \<Rightarrow> (Some w, Some (t w)))"
      "r = Inr (Some e, x)" for r R E now h t x and res :: "(NodeRef \<times> ValueEntry) list"
    using that Resolve_member [of now h "map snd res" e] by (auto split: if_splits option.splits)
  have none: "r = Inr (Some e, snd (projr r))" if "queue_repair o1 r = (orc', Inr (Some e))" for o1 r
    using that by (auto simp: queue_repair_def split: sum.splits prod.splits)
  let ?chord = "\<lambda>h. Get (o_now orc) (cn_Store (o_chord orc h)) ?k" and ?kad = "\<lambda>h. Get (o_now orc) (kn_KVStore (o_kad orc h)) ?k"
  have "(\<exists>(a, h) \<in> set (o_chordNodes orc). ?chord h \<noteq> None) \<or> (\<exists>(a, h) \<in> set (o_kadNodes orc). ?kad h \<noteq> None)"
  proof (cases "sc_Protocol (o_cfg orc) = ''chord''")
    case True
    let ?q = "orch_manager rs orc :: ChordNet QuorumManager"
    have q: "qm_FindReplicas ?q ?k s = rs" for s by (simp add: orch_manager_def NewQuorumManager_def Let_def)
    obtain net h r where rd: "Read chord_env ?q sched ?k (chord_net orc, o_history orc) = ((net, h), r)" by (metis prod.collapse)
    with True assms(4) none have r: "r = Inr (Some e, snd (projr r))" by (simp add: quorum_read_def)
    have "rs \<noteq> []" using rd r by (auto simp: Read_def q)
    then have "qm_FindReplicas ?q ?k (chord_net orc) \<noteq> []" by (simp add: q)
    from cq.Read_spec [OF rd clusters_here(1) [OF assms(1)] this, unfolded q]
    obtain res where R: "subseq (map fst res) (sched rs)" "\<forall>(n, v) \<in> set res. chord_view (chord_net orc) (nr_Addr n) ?k = Some v"
      "if int (length res) < qc_R (qm_Config ?q) then r = Inl (EQuorumNotMet (int (length res)) (int (length rs)) (qc_R (qm_Config ?q)))
       else r = Inr (case snd (Resolve (qe_now chord_env (chord_net orc)) (o_history orc) (map snd res)) of None \<Rightarrow> (None, None)
         | Some w \<Rightarrow> (Some w, Some \<lparr>rt_coordinator = hd rs, rt_key = ?k, rt_winner = w, rt_responses = res\<rparr>))" .
    from winner [OF R(3) r] obtain c where c: "(c, e) \<in> set res" by blast
    have "c \<in> set (orch_refs orc)" using sub [OF R(1) c] assms(2) by blast
    moreover have "chord_view (chord_net orc) (nr_Addr c) ?k = Some e" using R(2) c by blast
    ultimately obtain a h where "(a, h) \<in> set (o_chordNodes orc)" "c = Ref (o_chord orc h)" "?chord (nr_Addr c) = Some e"
      using True by (auto simp: orch_refs_def chord_view_def chord_net_def)
    moreover from this n(3) [of a h] wf have "nr_Addr c = h" by (auto simp: gm_wf_def)
    ultimately show ?thesis by force
  next
    case False
    let ?q = "orch_manager rs orc :: KadNet QuorumManager"
    have q: "qm_FindReplicas ?q ?k s = rs" for s by (simp add: orch_manager_def NewQuorumManager_def Let_def)
    obtain net h r where rd: "Read (kad_env sha1) ?q sched ?k (kad_net orc, o_history orc) = ((net, h), r)" by (metis prod.collapse)
    with False assms(4) none have r: "r = Inr (Some e, snd (projr r))" by (simp add: quorum_read_def)
    have "rs \<noteq> []" using rd r by (auto simp: Read_def q)
    then have "qm_FindReplicas ?q ?k (kad_net orc) \<noteq> []" by (simp add: q)
    from kq.Read_spec [OF rd clusters_here(2) [OF assms(1)] this, unfolded q]
    obtain res where R: "subseq (map fst res) (sched rs)" "\<forall>(n, v) \<in> set res. kad_view (kad_net orc) (nr_Addr n) ?k = Some v"
      "if int (length res) < qc_R (qm_Config ?q) then r = Inl (EQuorumNotMet (int (length res)) (int (length rs)) (qc_R (qm_Config ?q)))
       else r = Inr (case snd (Resolve (qe_now (kad_env sha1) (kad_net orc)) (o_history orc) (map snd res)) of None \<Rightarrow> (None, None)
         | Some w \<Rightarrow> (Some w, Some \<lparr>rt_coordinator = hd rs, rt_key = ?k, rt_winner = w, rt_responses = res\<rparr>))" .
    from winner [OF R(3) r] obtain c where c: "(c, e) \<in> set res" by blast
    have "c \<in> set (orch_refs orc)" using sub [OF R(1) c] assms(2) by blast
    moreover have "kad_view (kad_net orc) (nr_Addr c) ?k = Some e" using R(2) c by blast
    ultimately obtain a h where "(a, h) \<in> set (o_kadNodes orc)" "c = Kad_Ref (o_kad orc h)" "?kad (nr_Addr c) = Some e"
      using False by (auto simp: orch_refs_def kad_view_def kad_net_def)
    moreover from this n(4) [of a h] wf have "nr_Addr c = h" by (auto simp: gm_wf_def)
    ultimately show ?thesis by force
  qed
  then have "mset (GetKeyReplicas sha1 key orc) \<noteq> {#}" unfolding replica_entries by (auto simp: filter_empty_conv)
  then show ?thesis by auto
qed

text \<open>
  C9. A key written through the API can be read through the API. In every reachable state of either
  protocol whose transport has no loss and no partition and whose quorums the nodes there are can
  meet, a request to store a value is answered 200 with the hash of the key, and a request for
  the key that follows is answered 200 with the key and the value, at least one replica,
  the identifiers of the replicas in order, and their number.
\<close>

theorem put_then_get:
  assumes "orch_inv (ge_sha1 env) (gw_orch g)"
    and "reliable (o_transport (gw_orch g))" "orch_refs (gw_orch g) \<noteq> []" "0 < sc_ReplicationN (o_cfg (gw_orch g))"
    and "sc_WriteQuorum (o_cfg (gw_orch g)) \<le> min (sc_ReplicationN (o_cfg (gw_orch g))) (int (length (orch_refs (gw_orch g))))"
    and "sc_ReadQuorum (o_cfg (gw_orch g)) \<le> min (sc_ReplicationN (o_cfg (gw_orch g))) (int (length (orch_refs (gw_orch g))))"
    and "\<forall>xs. mset (ge_order env xs) = mset xs"
  shows "\<exists>g1 g2 ks. putKey env (Inr \<lparr>pb_Key = key, pb_Value = v\<rparr>) g = Some (Inr (g1, 200, BPut (IDToHex (KeyID (ge_sha1 env) key)))) \<and>
    getKey env key g1 = Some (Inr (g2, 200, BKey ks)) \<and> ks_Key ks = key \<and> ks_Value ks = v \<and>
    0 < ks_ReplicaCount ks \<and> ks_ReplicaCount ks = int (length (ks_Replicas ks)) \<and>
    mset (ks_Replicas ks) = mset (map re_NodeID (GetKeyReplicas (ge_sha1 env) key (gw_orch g1)))"
proof -
  let ?orc = "gw_orch g" and ?sha1 = "ge_sha1 env" and ?k = "KeyID (ge_sha1 env) key"
  from assms(1) have q: "qc_W (o_quorum ?orc) = sc_WriteQuorum (o_cfg ?orc)" "qc_R (o_quorum ?orc) = sc_ReadQuorum (o_cfg ?orc)"
    by (simp_all add: orch_inv_def transport_ok_def)
  obtain rs where rs: "findReplicas ?orc ?k = Inr rs" "length rs = min (nat (sc_ReplicationN (o_cfg ?orc))) (length (orch_refs ?orc))"
    "set rs \<subseteq> set (orch_refs ?orc)"
    using findReplicas_some [of ?orc ?k] assms(4) by auto
  then have ne: "rs \<noteq> []" using assms(3,4) by (auto simp: min_def split: if_splits)
  have len: "int (length rs) = min (sc_ReplicationN (o_cfg ?orc)) (int (length (orch_refs ?orc)))"
    using rs(2) assms(4) by (auto simp: min_def)
  obtain orc1 x where w: "quorum_write ?sha1 (ge_order env) rs ?k (string_bytes v) ''gateway'' ?orc = (orc1, x)" by fastforce
  note wr = quorum_write_read [OF assms(1,2) ne rs(3) _ _ assms(7,7) w, unfolded q len, OF assms(5,6)]
  let ?orc1 = "orc1\<lparr>o_keyStrings := gm_put ?k key (o_keyStrings orc1)\<rparr>"
  have ins: "Insert ?sha1 (ge_order env) key v ?orc = Inr (?orc1, Inr ())" using rs(1) w wr(1) by (simp add: Insert_def)
  obtain e where e: "snd (quorum_read ?sha1 (ge_order env) rs ?k ?orc1) = Inr (Some e)" "Value e = string_bytes v" using wr(4) by blast
  then obtain orc2 where rd: "quorum_read ?sha1 (ge_order env) rs ?k ?orc1 = (orc2, Inr (Some e))" by (metis prod.collapse)
  have refs: "orch_refs ?orc1 = orch_refs orc1" by (simp add: orch_refs_def)
  then have "findReplicas ?orc1 ?k = Inr rs" using findReplicas_cong [of ?orc1 ?orc ?k] wr(2,3) rs(1) by simp
  with rd e(2) have read: "Orch_Read ?sha1 (ge_order env) key ?orc1 = Inr (orc2, Inr (string_bytes v))" by (simp add: Orch_Read_def)
  have "GetKeyReplicas ?sha1 key ?orc1 \<noteq> []"
    using read_entry_at_replica [OF Insert_inv [OF ins assms(1)] _ assms(7) rd] rs(3) refs wr(2) by simp
  moreover define g1 where "g1 = record_metric (WriteTotal (Protocol ?orc) ''ok'') (set_orch ?orc1 g)"
  moreover have "gw_orch g1 = ?orc1" by (simp add: g1_def)
  moreover have "putKey env (Inr \<lparr>pb_Key = key, pb_Value = v\<rparr>) g = Some (Inr (g1, 200, BPut (IDToHex ?k)))"
    by (simp add: putKey_def ins g1_def Let_def)
  ultimately show ?thesis
    by (rule_tac x = g1 in exI) (simp add: getKey_def read Let_def bytes_back)
qed

section \<open>Instances\<close>

theorem put_then_get_witness:
  "\<exists>g1 g2 ks. putKey demo_env (Inr \<lparr>pb_Key = ''k'', pb_Value = ''v''\<rparr>) (demo_gateway (demo_net ''chord'')) =
      Some (Inr (g1, 200, BPut (IDToHex (KeyID demo_hash ''k'')))) \<and>
    getKey demo_env ''k'' g1 = Some (Inr (g2, 200, BKey ks)) \<and> ks_Value ks = ''v''"
proof -
  let ?p = "''chord''" and ?g = "demo_gateway (demo_net ''chord'')"
  have f: "gw_orch ?g = demo_net ?p" "ge_sha1 demo_env = demo_hash" "ge_order demo_env = id" by (simp_all add: demo_gateway_def demo_env_def)
  have cfg: "sc_ReplicationN (o_cfg (demo_net ?p)) = 3" "sc_WriteQuorum (o_cfg (demo_net ?p)) = 1" "sc_ReadQuorum (o_cfg (demo_net ?p)) = 1"
    by (simp_all add: demo_spawn(4) demo_new_def NewOrchestrator_def Sim_DefaultConfig_def Let_def)
  have "reliable (o_transport (demo_net ?p))" by (simp add: reliable_def demo_spawn(5,6))
  moreover have "orch_refs (demo_net ?p) \<noteq> []" using demo_spawn(3) [of ?p] by auto
  ultimately show ?thesis
    using put_then_get [of demo_env ?g "''k''" "''v''"] cfg demo_spawn(3) [of ?p] demo_inv [of ?p] unfolding f by auto
qed


text \<open>An address that cannot be an identifier names its own node.\<close>

lemma resolveAddr_self:
  assumes "orch_inv sha1 orc" "a \<in> set (o_nodeAddrs orc)" "length a \<noteq> 40"
  shows "resolveAddr env a orc = a"
proof -
  let ?ns = "nw_Nodes (GetNetworkState (ge_format env) orc)"
  have id: "ns_ID n \<noteq> a" if "n \<in> set ?ns" for n
    using snapshot_addrs(3) [OF assms(1) that] assms(3) by (auto simp: IDToHex_def)
  have "a \<in> ns_Addr ` set ?ns" using assms(2) snapshot_addrs(1) [OF assms(1), of "ge_format env"] by simp
  then obtain n where n: "n \<in> set ?ns" "ns_Addr n = a" by blast
  then obtain n' where f: "List.find (\<lambda>n. ns_ID n = a \<or> ns_Addr n = a) ?ns = Some n'"
    by (cases "List.find (\<lambda>n. ns_ID n = a \<or> ns_Addr n = a) ?ns") (auto simp: find_None_iff)
  then have "n' \<in> set ?ns" "ns_ID n' = a \<or> ns_Addr n' = a" by (auto simp: find_Some_iff)
  with id f show ?thesis by (auto simp: resolveAddr_def)
qed

theorem set_partition_sound_witness:
  "\<exists>g' b. setPartition demo_env (Inr [[''y''], [''x'']]) (demo_gateway demo_two) = Some (Inr (g', 200, b)) \<and>
     snd (lookupFrom ''x'' ''y'' (o_transport (gw_orch g'))) = Inl ErrPartitioned"
proof -
  let ?g = "demo_gateway demo_two"
  have f: "gw_orch ?g = demo_two" "ge_sha1 demo_env = demo_hash" by (simp_all add: demo_gateway_def demo_env_def)
  have inv: "orch_inv (ge_sha1 demo_env) (gw_orch ?g)" unfolding f by (rule demo_two(1))
  have r: "resolveAddr demo_env ''x'' demo_two = ''x''" "resolveAddr demo_env ''y'' demo_two = ''y''"
    using demo_two by (auto intro: resolveAddr_self)
  have "\<exists>g' b. setPartition demo_env (Inr [[''y''], [''x'']]) ?g = Some (Inr (g', 200, b))"
    by (simp add: setPartition_def f r Let_def)
  then obtain g' b where s: "setPartition demo_env (Inr [[''y''], [''x'']]) ?g = Some (Inr (g', 200, b))" by blast
  note sound = set_partition_sound [OF inv s, unfolded Let_def]
  then have pg: "PartitionGroups (gw_orch g') = [[''y''], [''x'']]" by (simp add: f r)
  from sound have "\<forall>i < length (PartitionGroups (gw_orch g')). \<forall>j < length (PartitionGroups (gw_orch g')).
      \<forall>from \<in> set (PartitionGroups (gw_orch g') ! i). \<forall>to \<in> set (PartitionGroups (gw_orch g') ! j). i \<noteq> j \<longrightarrow>
        snd (lookupFrom from to (o_transport (gw_orch g'))) = Inl ErrPartitioned" by simp
  from this [unfolded pg, rule_format, of 1 0 "''x''" "''y''"]
  have "snd (lookupFrom ''x'' ''y'' (o_transport (gw_orch g'))) = Inl ErrPartitioned" by simp
  with s show ?thesis by blast
qed

theorem removed_node_is_gone_witness:
  "\<exists>g' b. handle demo_env (RqCrash (IDToHex (NodeIDFromAddr demo_hash ''x''))) (demo_gateway (demo_net ''chord'')) = Some (Inr (g', 200, b)) \<and>
     o_nodeAddrs (gw_orch g') = []"
proof -
  let ?g = "demo_gateway (demo_net ''chord'')" and ?i = "IDToHex (NodeIDFromAddr demo_hash ''x'')"
  have f: "gw_orch ?g = demo_net ''chord''" "ge_sha1 demo_env = demo_hash" by (simp_all add: demo_gateway_def demo_env_def)
  have inv: "orch_inv (ge_sha1 demo_env) (gw_orch ?g)" unfolding f by (simp add: demo_inv)
  have addrs: "o_nodeAddrs (demo_net ''chord'') = [''x'']" by (simp add: demo_spawn(2))
  have hex: "isHexNodeID ?i"
  proof -
    have "?i = replicate 39 CHR ''0'' @ ''1''" by (simp add: NodeIDFromAddr_def SHA1_def demo_hash_def string_bytes_def) code_simp
    then show ?thesis by (simp add: isHexNodeID_def numeral_eq_Suc)
  qed
  have "\<exists>g' st b. handle demo_env (RqCrash ?i) ?g = Some (Inr (g', st, b))"
    by (auto simp: crashNode_def remove_node_def bad_def reply_def Let_def split: prod.split sum.split)
  then obtain g' st b where h: "handle demo_env (RqCrash ?i) ?g = Some (Inr (g', st, b))" by blast
  have "st = 200 \<and> o_nodeAddrs (gw_orch g') = []"
    using removed_node_is_gone [OF inv _ _ h, of ?i] by (simp add: f addrs hex)
  with h show ?thesis by blast
qed

end
