(* ===== verification/WebSocket_Hub.thy ===== *)
theory WebSocket_Hub
  imports Gateway Event_Bus "HOL-Library.Sublist"
begin

text \<open>
  The WebSocket hub of the gateway, \<^verbatim>\<open>gateway/websocket.go\<close>. A client object is a number; the hub
  keeps the set of registered clients, and every client its buffered channel, its subscription and
  what its two goroutines have done. The steps of the state machine are the atomic actions of the
  goroutines: the dispatch loop, the two pumps of each client, the upgrade of a connection and
  \<^verbatim>\<open>Stop\<close>. A broadcast is one step, since the clients it serves are independent of each other. The
  socket library decides which writes and reads fail; the gauge and the counters of Prometheus are
  fields. Marshalling a network state or an event never fails.
\<close>

section \<open>State\<close>

datatype hub_message = HubEvent Event | HubState time networkStateResponse

definition msg_type :: "hub_message \<Rightarrow> EventType" where
  "msg_type m = (case m of HubEvent e \<Rightarrow> ev_Type e | HubState t s \<Rightarrow> EventRingState)"

text \<open>\<open>wc_greeted\<close>: the first state has been sent and the pumps run; \<open>wc_written\<close> went out on the socket.\<close>

record ws_client =
  wc_send :: "hub_message list"
  wc_done :: bool
  wc_types :: "EventType list"
  wc_open :: bool
  wc_greeted :: bool
  wc_writer :: bool
  wc_reader :: bool
  wc_written :: "hub_message list"

record Hub =
  hb_objs :: "ws_client list"
  hb_clients :: "nat list"
  hb_stopped :: bool
  hb_running :: bool
  hb_connected :: int
  hb_cycles :: "string list"
  hb_syncs :: "string list"

definition sendCap :: nat where
  "sendCap = 256"

definition NewHub :: Hub where
  "NewHub = \<lparr>hb_objs = [], hb_clients = [], hb_stopped = False, hb_running = True, hb_connected = 0, hb_cycles = [], hb_syncs = []\<rparr>"

definition upd_client :: "nat \<Rightarrow> (ws_client \<Rightarrow> ws_client) \<Rightarrow> Hub \<Rightarrow> Hub" where
  "upd_client c f h = h\<lparr>hb_objs := (hb_objs h)[c := f (hb_objs h ! c)]\<rparr>"

section \<open>Operations\<close>

definition matchEventTypes :: "EventType list \<Rightarrow> EventType \<Rightarrow> bool" where
  "matchEventTypes types t = list_ex (\<lambda>ty. ty = EventAll \<or> ty = t) types"

definition client_stop :: "ws_client \<Rightarrow> ws_client" where
  "client_stop c = c\<lparr>wc_done := True\<rparr>"

definition Hub_Stop :: "Hub \<Rightarrow> Hub" where
  "Hub_Stop h =
     (if hb_stopped h then h
      else fold (\<lambda>c. upd_client c (\<lambda>cl. (client_stop cl)\<lparr>wc_open := False\<rparr>)) (hb_clients h)
             (h\<lparr>hb_stopped := True, hb_clients := []\<rparr>))"

text \<open>The counters that a broadcast increments.\<close>

definition count_event :: "hub_message \<Rightarrow> Hub \<Rightarrow> Hub" where
  "count_event m h =
     (case m of
        HubState t s \<Rightarrow> h
      | HubEvent e \<Rightarrow>
          (if ev_Type e = EventStabilize
           then h\<lparr>hb_cycles := hb_cycles h @ [case ev_Payload e of StabilizePayload n s p \<Rightarrow> n | _ \<Rightarrow> []]\<rparr>
           else if ev_Type e = EventGossipSync
           then h\<lparr>hb_syncs := hb_syncs h @ [case ev_Payload e of GossipSyncPayload f t a b c \<Rightarrow> f | _ \<Rightarrow> []]\<rparr>
           else h))"

text \<open>A client whose channel is full misses the message.\<close>

definition offer :: "hub_message \<Rightarrow> ws_client \<Rightarrow> ws_client" where
  "offer m cl =
     (if matchEventTypes (wc_types cl) (msg_type m) \<and> length (wc_send cl) < sendCap
      then cl\<lparr>wc_send := wc_send cl @ [m]\<rparr> else cl)"

definition broadcast :: "hub_message \<Rightarrow> Hub \<Rightarrow> Hub" where
  "broadcast m h = fold (\<lambda>c. upd_client c (offer m)) (hb_clients h) (count_event m h)"

definition broadcastRingState :: "time \<Rightarrow> networkStateResponse \<Rightarrow> Hub \<Rightarrow> Hub" where
  "broadcastRingState now state h = broadcast (HubState now state) h"

text \<open>\<^verbatim>\<open>HandleUpgrade\<close>: the registration of the client, and then its first message and its pumps.\<close>

definition HandleUpgrade :: "Hub \<Rightarrow> Hub" where
  "HandleUpgrade h =
     h\<lparr>hb_objs := hb_objs h @ [\<lparr>wc_send = [], wc_done = False, wc_types = [], wc_open = True, wc_greeted = False,
         wc_writer = False, wc_reader = False, wc_written = []\<rparr>],
       hb_clients := length (hb_objs h) # hb_clients h, hb_connected := hb_connected h + 1\<rparr>"

definition greet :: "time \<Rightarrow> networkStateResponse \<Rightarrow> ws_client \<Rightarrow> ws_client" where
  "greet now state cl = cl\<lparr>wc_send := wc_send cl @ [HubState now state], wc_greeted := True, wc_writer := True, wc_reader := True\<rparr>"

text \<open>The deferred actions of \<^verbatim>\<open>writePump\<close>.\<close>

definition writer_exit :: "nat \<Rightarrow> Hub \<Rightarrow> Hub" where
  "writer_exit c h =
     (upd_client c (\<lambda>cl. cl\<lparr>wc_writer := False, wc_open := False\<rparr>) h)
       \<lparr>hb_clients := removeAll c (hb_clients h), hb_connected := hb_connected h - 1\<rparr>"

definition writer_takes :: "ws_client \<Rightarrow> ws_client" where
  "writer_takes cl = cl\<lparr>wc_send := tl (wc_send cl)\<rparr>"

definition writer_writes :: "ws_client \<Rightarrow> ws_client" where
  "writer_writes cl = cl\<lparr>wc_written := wc_written cl @ [hd (wc_send cl)], wc_send := tl (wc_send cl)\<rparr>"

text \<open>A message that \<^verbatim>\<open>readPump\<close> decodes: a subscription, or anything else.\<close>

definition reader_message :: "EventType list option \<Rightarrow> ws_client \<Rightarrow> ws_client" where
  "reader_message sub cl = (case sub of None \<Rightarrow> cl | Some ts \<Rightarrow> cl\<lparr>wc_types := ts\<rparr>)"

definition reader_exit :: "ws_client \<Rightarrow> ws_client" where
  "reader_exit cl = (client_stop cl)\<lparr>wc_reader := False\<rparr>"

section \<open>Steps\<close>

datatype hub_label =
    HubEventL Event | HubTick time networkStateResponse | HubQuit | HubStopL
  | HubUpgrade | HubGreet nat time networkStateResponse
  | HubWrite nat | HubWriteFails nat | HubPingFails nat | HubWriterDone nat
  | HubRead nat "EventType list option" | HubReadFails nat

inductive hub_step :: "Hub \<Rightarrow> hub_label \<Rightarrow> Hub \<Rightarrow> bool" where
  event: "hb_running h \<Longrightarrow> hub_step h (HubEventL e) (broadcast (HubEvent e) h)"
| tick: "hb_running h \<Longrightarrow> hub_step h (HubTick t s) (broadcastRingState t s h)"
| quit: "hb_running h \<Longrightarrow> hb_stopped h \<Longrightarrow> hub_step h HubQuit (h\<lparr>hb_running := False\<rparr>)"
| stop: "hub_step h HubStopL (Hub_Stop h)"
| upgrade: "hub_step h HubUpgrade (HandleUpgrade h)"
| greet: "c < length (hb_objs h) \<Longrightarrow> \<not> wc_greeted (hb_objs h ! c) \<Longrightarrow> length (wc_send (hb_objs h ! c)) < sendCap \<Longrightarrow>
    hub_step h (HubGreet c t s) (upd_client c (greet t s) h)"
| writes: "c < length (hb_objs h) \<Longrightarrow> wc_writer (hb_objs h ! c) \<Longrightarrow> wc_send (hb_objs h ! c) \<noteq> [] \<Longrightarrow> wc_open (hb_objs h ! c) \<Longrightarrow>
    hub_step h (HubWrite c) (upd_client c writer_writes h)"
| write_fails: "c < length (hb_objs h) \<Longrightarrow> wc_writer (hb_objs h ! c) \<Longrightarrow> wc_send (hb_objs h ! c) \<noteq> [] \<Longrightarrow>
    hub_step h (HubWriteFails c) (writer_exit c (upd_client c writer_takes h))"
| ping_fails: "c < length (hb_objs h) \<Longrightarrow> wc_writer (hb_objs h ! c) \<Longrightarrow> hub_step h (HubPingFails c) (writer_exit c h)"
| writer_done: "c < length (hb_objs h) \<Longrightarrow> wc_writer (hb_objs h ! c) \<Longrightarrow> wc_done (hb_objs h ! c) \<Longrightarrow>
    hub_step h (HubWriterDone c) (writer_exit c h)"
| read: "c < length (hb_objs h) \<Longrightarrow> wc_reader (hb_objs h ! c) \<Longrightarrow> wc_open (hb_objs h ! c) \<Longrightarrow>
    hub_step h (HubRead c sub) (upd_client c (reader_message sub) h)"
| read_fails: "c < length (hb_objs h) \<Longrightarrow> wc_reader (hb_objs h ! c) \<Longrightarrow>
    hub_step h (HubReadFails c) (upd_client c reader_exit h)"

inductive hub_run :: "Hub \<Rightarrow> hub_label list \<Rightarrow> Hub \<Rightarrow> bool" where
  run_nil: "hub_run h [] h"
| run_snoc: "hub_run h ls h' \<Longrightarrow> hub_step h' l h'' \<Longrightarrow> hub_run h (ls @ [l]) h''"

inductive_cases hub_step_cases: "hub_step h l h'"

section \<open>One step of the hub\<close>

lemma upd_client_simps [simp]:
  "length (hb_objs (upd_client c f h)) = length (hb_objs h)" "hb_clients (upd_client c f h) = hb_clients h"
  "hb_stopped (upd_client c f h) = hb_stopped h" "hb_connected (upd_client c f h) = hb_connected h"
  "x < length (hb_objs h) \<Longrightarrow> hb_objs (upd_client c f h) ! x = (if x = c then f (hb_objs h ! x) else hb_objs h ! x)"
  by (simp_all add: upd_client_def nth_list_update)

lemma fold_upd_client:
  "length (hb_objs (fold (\<lambda>c. upd_client c f) cs h)) = length (hb_objs h)"
  "hb_clients (fold (\<lambda>c. upd_client c f) cs h) = hb_clients h"
  "hb_stopped (fold (\<lambda>c. upd_client c f) cs h) = hb_stopped h"
  "hb_connected (fold (\<lambda>c. upd_client c f) cs h) = hb_connected h"
  by (induction cs arbitrary: h) simp_all

lemma fold_upd_client_nth:
  "distinct cs \<Longrightarrow> x < length (hb_objs h) \<Longrightarrow>
    hb_objs (fold (\<lambda>c. upd_client c f) cs h) ! x = (if x \<in> set cs then f (hb_objs h ! x) else hb_objs h ! x)"
  by (induction cs arbitrary: h) auto

lemma count_event_simps [simp]:
  "hb_objs (count_event m h) = hb_objs h" "hb_clients (count_event m h) = hb_clients h"
  "hb_stopped (count_event m h) = hb_stopped h" "hb_connected (count_event m h) = hb_connected h"
  by (simp_all add: count_event_def split: hub_message.split)

lemma broadcast_simps [simp]:
  "length (hb_objs (broadcast m h)) = length (hb_objs h)" "hb_clients (broadcast m h) = hb_clients h"
  "hb_stopped (broadcast m h) = hb_stopped h" "hb_connected (broadcast m h) = hb_connected h"
  by (simp_all add: broadcast_def fold_upd_client)

lemma broadcast_nth:
  "distinct (hb_clients h) \<Longrightarrow> x < length (hb_objs h) \<Longrightarrow>
    hb_objs (broadcast m h) ! x = (if x \<in> set (hb_clients h) then offer m (hb_objs h ! x) else hb_objs h ! x)"
  by (simp add: broadcast_def fold_upd_client_nth)

lemma Hub_Stop_simps [simp]:
  "length (hb_objs (Hub_Stop h)) = length (hb_objs h)" "hb_connected (Hub_Stop h) = hb_connected h" "hb_stopped (Hub_Stop h)"
  "hb_clients (Hub_Stop h) = (if hb_stopped h then hb_clients h else [])"
  by (simp_all add: Hub_Stop_def fold_upd_client)

lemma Hub_Stop_nth:
  "distinct (hb_clients h) \<Longrightarrow> x < length (hb_objs h) \<Longrightarrow>
    hb_objs (Hub_Stop h) ! x =
      (if \<not> hb_stopped h \<and> x \<in> set (hb_clients h) then (client_stop (hb_objs h ! x))\<lparr>wc_open := False\<rparr> else hb_objs h ! x)"
  by (simp add: Hub_Stop_def fold_upd_client_nth)

section \<open>The invariant\<close>

text \<open>
  Of one client, given whether it is registered: its channel is within its capacity, nothing has
  happened to it before its first message, and a client that has left the hub has been told to stop
  or its writer is gone.
\<close>

definition client_inv :: "bool \<Rightarrow> ws_client \<Rightarrow> bool" where
  "client_inv member cl \<longleftrightarrow> length (wc_send cl) \<le> sendCap \<and>
     (\<not> wc_greeted cl \<longrightarrow> wc_send cl = [] \<and> wc_types cl = [] \<and> \<not> wc_writer cl \<and> \<not> wc_reader cl \<and> wc_written cl = []) \<and>
     (\<not> member \<longrightarrow> wc_done cl \<or> wc_greeted cl \<and> \<not> wc_writer cl) \<and>
     (wc_greeted cl \<and> \<not> wc_reader cl \<longrightarrow> wc_done cl)"

text \<open>A client counts as connected until its writer has ended.\<close>

definition connected :: "ws_client \<Rightarrow> bool" where
  "connected cl \<longleftrightarrow> wc_writer cl \<or> \<not> wc_greeted cl"

definition hub_inv :: "Hub \<Rightarrow> bool" where
  "hub_inv h \<longleftrightarrow> distinct (hb_clients h) \<and> (\<forall>c \<in> set (hb_clients h). c < length (hb_objs h)) \<and>
     hb_connected h = int (length (filter connected (hb_objs h))) \<and>
     (\<forall>c < length (hb_objs h). client_inv (c \<in> set (hb_clients h)) (hb_objs h ! c))"

lemma connected_same:
  assumes "length xs = length ys" "\<And>i. i < length ys \<Longrightarrow> P (xs ! i) = P (ys ! i)"
  shows "length (filter P xs) = length (filter P ys)"
proof -
  have "{i. i < length xs \<and> P (xs ! i)} = {i. i < length ys \<and> P (ys ! i)}" using assms by auto
  then show ?thesis by (simp add: length_filter_conv_card)
qed

lemma connected_less:
  assumes "c < length xs" "P (xs ! c)" "\<not> P y"
  shows "int (length (filter P (xs[c := y]))) = int (length (filter P xs)) - 1"
proof -
  have "filter P xs = filter P (take c xs) @ xs ! c # filter P (drop (Suc c) xs)"
    using assms(1,2) by (subst id_take_nth_drop [OF assms(1)]) (simp del: append_take_drop_id)
  moreover have "filter P (xs[c := y]) = filter P (take c xs) @ filter P (drop (Suc c) xs)"
    using assms(1,3) by (simp add: upd_conv_take_nth_drop)
  ultimately show ?thesis by simp
qed

text \<open>The steps that touch one client only.\<close>

lemma hub_inv_client:
  assumes "hub_inv h" "c < length (hb_objs h)"
    and "client_inv (c \<in> set (hb_clients h)) (f (hb_objs h ! c))" "connected (f (hb_objs h ! c)) = connected (hb_objs h ! c)"
  shows "hub_inv (upd_client c f h)"
proof -
  have "length (filter connected (hb_objs (upd_client c f h))) = length (filter connected (hb_objs h))"
    using assms(2,4) by (intro connected_same) simp_all
  then show ?thesis using assms(1,3) by (simp add: hub_inv_def)
qed

lemma hub_inv_all:
  assumes "hub_inv h" "length (hb_objs h') = length (hb_objs h)" "hb_connected h' = hb_connected h"
    and "distinct (hb_clients h')" "set (hb_clients h') \<subseteq> set (hb_clients h)"
    and "\<And>c. c < length (hb_objs h) \<Longrightarrow> connected (hb_objs h' ! c) = connected (hb_objs h ! c) \<and> client_inv (c \<in> set (hb_clients h')) (hb_objs h' ! c)"
  shows "hub_inv h'"
proof -
  have "length (filter connected (hb_objs h')) = length (filter connected (hb_objs h))"
    using assms(2,6) by (intro connected_same) simp_all
  then show ?thesis using assms by (auto simp: hub_inv_def)
qed

lemma offer_inv:
  "client_inv True cl \<Longrightarrow> client_inv True (offer m cl) \<and> connected (offer m cl) = connected cl"
  by (auto simp: client_inv_def offer_def connected_def matchEventTypes_def)

lemma broadcast_inv: "hub_inv h \<Longrightarrow> hub_inv (broadcast m h)"
proof (rule hub_inv_all)
  fix c assume h: "hub_inv h" "c < length (hb_objs h)"
  then have c: "client_inv (c \<in> set (hb_clients h)) (hb_objs h ! c)" "distinct (hb_clients h)" by (simp_all add: hub_inv_def)
  show "connected (hb_objs (broadcast m h) ! c) = connected (hb_objs h ! c) \<and> client_inv (c \<in> set (hb_clients (broadcast m h))) (hb_objs (broadcast m h) ! c)"
    using c h(2) offer_inv [of "hb_objs h ! c" m] by (auto simp: broadcast_nth)
qed (auto simp: hub_inv_def)

lemma Hub_Stop_inv: "hub_inv h \<Longrightarrow> hub_inv (Hub_Stop h)"
proof (rule hub_inv_all)
  fix c assume h: "hub_inv h" "c < length (hb_objs h)"
  then have c: "client_inv (c \<in> set (hb_clients h)) (hb_objs h ! c)" "distinct (hb_clients h)" by (simp_all add: hub_inv_def)
  show "connected (hb_objs (Hub_Stop h) ! c) = connected (hb_objs h ! c) \<and> client_inv (c \<in> set (hb_clients (Hub_Stop h))) (hb_objs (Hub_Stop h) ! c)"
    using c h(2) by (auto simp: Hub_Stop_nth client_inv_def client_stop_def connected_def)
qed (auto simp: hub_inv_def)

lemma HandleUpgrade_inv: "hub_inv h \<Longrightarrow> hub_inv (HandleUpgrade h)"
  by (auto simp: hub_inv_def HandleUpgrade_def nth_append client_inv_def connected_def less_Suc_eq)

lemma writer_exit_inv:
  assumes "hub_inv h" "c < length (hb_objs h)" "wc_writer (hb_objs h ! c)"
  shows "hub_inv (writer_exit c h)"
proof -
  let ?f = "\<lambda>cl. cl\<lparr>wc_writer := False, wc_open := False\<rparr>"
  have g: "wc_greeted (hb_objs h ! c)" using assms by (auto simp: hub_inv_def client_inv_def)
  have "int (length (filter connected ((hb_objs h)[c := ?f (hb_objs h ! c)]))) = int (length (filter connected (hb_objs h))) - 1"
    using assms(2,3) g by (intro connected_less) (simp_all add: connected_def)
  moreover have "client_inv (x \<in> set (removeAll c (hb_clients h))) ((hb_objs h)[c := ?f (hb_objs h ! c)] ! x)"
    if "x < length (hb_objs h)" for x
    using assms that g by (auto simp: hub_inv_def client_inv_def nth_list_update)
  moreover have "distinct (hb_clients h)" "\<forall>c \<in> set (hb_clients h). c < length (hb_objs h)"
    "hb_connected h = int (length (filter connected (hb_objs h)))" using assms(1) by (simp_all add: hub_inv_def)
  ultimately show ?thesis unfolding hub_inv_def writer_exit_def upd_client_def by (simp add: distinct_removeAll)
qed

lemma hub_step_inv: "hub_step h l h' \<Longrightarrow> hub_inv h \<Longrightarrow> hub_inv h'"
proof (induction rule: hub_step.induct)
  case (greet c h t s)
  then show ?case by (intro hub_inv_client) (auto simp: hub_inv_def client_inv_def greet_def connected_def sendCap_def)
next
  case (writes c h)
  then show ?case by (intro hub_inv_client) (auto simp: hub_inv_def client_inv_def writer_writes_def connected_def)
next
  case (write_fails c h)
  then have "hub_inv (upd_client c writer_takes h)"
    by (intro hub_inv_client) (auto simp: hub_inv_def client_inv_def writer_takes_def connected_def)
  then show ?case using write_fails by (intro writer_exit_inv) (simp_all add: writer_takes_def)
next
  case (read c h sub)
  then show ?case by (intro hub_inv_client) (auto simp: hub_inv_def client_inv_def reader_message_def connected_def split: option.split)
next
  case (read_fails c h)
  then show ?case by (intro hub_inv_client) (auto simp: hub_inv_def client_inv_def reader_exit_def client_stop_def connected_def)
next
  case (quit h)
  then show ?case by (simp add: hub_inv_def)
qed (simp_all add: broadcast_inv broadcastRingState_def Hub_Stop_inv HandleUpgrade_inv writer_exit_inv)

lemma hub_run_inv: "hub_run h ls h' \<Longrightarrow> hub_inv h \<Longrightarrow> hub_inv h'"
  by (induction rule: hub_run.induct) (auto intro: hub_step_inv)

lemma NewHub_inv: "hub_inv NewHub"
  by (simp add: hub_inv_def NewHub_def)

section \<open>What clients see\<close>

text \<open>The messages a client may get, in the order of the steps.\<close>

fun message_for :: "nat \<Rightarrow> hub_label \<Rightarrow> hub_message list" where
  "message_for x (HubEventL e) = [HubEvent e]"
| "message_for x (HubTick t s) = [HubState t s]"
| "message_for x (HubGreet c t s) = (if c = x then [HubState t s] else [])"
| "message_for x _ = []"

definition stream :: "ws_client \<Rightarrow> hub_message list" where
  "stream cl = wc_written cl @ wc_send cl"

lemma stream_offer: "subseq (stream (offer m cl)) (stream cl @ [m])"
proof -
  have "subseq xs (xs @ [m])" for xs :: "hub_message list"
    using list_emb_append_mono [of "(=)" xs xs "[]" "[m]"] by simp
  from this [of "stream cl"] show ?thesis by (simp add: stream_def offer_def)
qed

lemma stream_takes: "wc_send cl \<noteq> [] \<Longrightarrow> subseq (stream (writer_takes cl)) (stream cl)"
proof (cases "wc_send cl")
  case (Cons m ms)
  have "subseq ms (m # ms)" by (rule list_emb_Cons) simp
  then show ?thesis
    using list_emb_append_mono [of "(=)" "wc_written cl" "wc_written cl" ms "m # ms"] by (simp add: stream_def writer_takes_def Cons)
qed simp

lemma stream_simps [simp]:
  "stream (client_stop cl) = stream cl" "stream (reader_exit cl) = stream cl" "stream (reader_message sub cl) = stream cl"
  "stream (greet t s cl) = stream cl @ [HubState t s]" "wc_send cl \<noteq> [] \<Longrightarrow> stream (writer_writes cl) = stream cl"
  "stream (cl\<lparr>wc_writer := False\<rparr>) = stream cl" "stream (cl\<lparr>wc_open := False\<rparr>) = stream cl"
  by (simp_all add: stream_def client_stop_def reader_exit_def reader_message_def greet_def writer_writes_def split: option.split)

lemma writer_exit_stream:
  "x < length (hb_objs h) \<Longrightarrow> stream (hb_objs (writer_exit c h) ! x) = stream (hb_objs h ! x)"
  "length (hb_objs (writer_exit c h)) = length (hb_objs h)"
  by (simp_all add: writer_exit_def)

lemma hub_step_stream:
  assumes "hub_step h l h'" "hub_inv h" "x < length (hb_objs h)"
  shows "subseq (stream (hb_objs h' ! x)) (stream (hb_objs h ! x) @ message_for x l) \<and> length (hb_objs h) \<le> length (hb_objs h')"
  using assms(1)
proof cases
  case (event e)
  then show ?thesis using assms(2,3) stream_offer by (auto simp: broadcast_nth hub_inv_def)
next
  case (tick t s)
  then show ?thesis using assms(2,3) stream_offer by (auto simp: broadcastRingState_def broadcast_nth hub_inv_def)
next
  case stop
  then show ?thesis using assms(2,3) by (simp add: Hub_Stop_nth hub_inv_def)
next
  case upgrade
  then show ?thesis using assms(3) by (simp add: HandleUpgrade_def nth_append)
next
  case (write_fails c)
  then show ?thesis using assms(3) stream_takes by (simp add: writer_exit_stream)
qed (use assms(3) in \<open>simp_all add: writer_exit_stream\<close>)

lemma hub_step_new:
  assumes "hub_step h l h'" "x < length (hb_objs h')" "\<not> x < length (hb_objs h)"
  shows "stream (hb_objs h' ! x) = []"
  using assms(1)
proof cases
  case upgrade
  with assms(2,3) have "x = length (hb_objs h)" by (simp add: HandleUpgrade_def)
  with upgrade show ?thesis by (simp add: HandleUpgrade_def stream_def)
qed (use assms(2,3) in \<open>simp_all add: broadcastRingState_def writer_exit_stream\<close>)

text \<open>
  C23. Order of the event streams. In every interleaving of broadcasts, upgrades, subscriptions,
  failures and stops, what was written to a socket, followed by what waits in its channel, is a
  subsequence of the messages in the order they were broadcast: a slow client may miss messages, but
  no client sees one twice, out of order, or one that another client was greeted with.
\<close>

theorem hub_streams_in_order:
  assumes "hub_run NewHub ls h" "x < length (hb_objs h)"
  shows "subseq (wc_written (hb_objs h ! x) @ wc_send (hb_objs h ! x)) (concat (map (message_for x) ls))"
proof -
  have "subseq (stream (hb_objs h ! x)) (concat (map (message_for x) ls))"
    using assms
  proof (induction NewHub ls h rule: hub_run.induct)
    case run_nil
    then show ?case by (simp add: NewHub_def)
  next
    case (run_snoc ls h l h')
    have inv: "hub_inv h" using hub_run_inv [OF run_snoc.hyps(1) NewHub_inv] .
    show ?case
    proof (cases "x < length (hb_objs h)")
      case True
      have "subseq (stream (hb_objs h' ! x)) (stream (hb_objs h ! x) @ message_for x l)"
        using hub_step_stream [OF run_snoc.hyps(3) inv True] by simp
      also have "subseq (stream (hb_objs h ! x) @ message_for x l) (concat (map (message_for x) ls) @ message_for x l)"
        using run_snoc.hyps(2) True by (simp add: list_emb_append_mono)
      finally show ?thesis by simp
    next
      case False
      then show ?thesis using hub_step_new [OF run_snoc.hyps(3) run_snoc.prems] by simp
    qed
  qed
  then show ?thesis by (simp add: stream_def)
qed

text \<open>
  C24. The hub accounts for its clients. In every interleaving a client's channel holds at most 256
  messages, the gauge counts the clients that have not ended, a client whose writer runs is registered
  or has been told to stop, and the send of the first message, which does not give up on a full
  channel, never blocks.
\<close>

theorem hub_clients_accounted:
  assumes "hub_run NewHub ls h" "x < length (hb_objs h)"
  shows "length (wc_send (hb_objs h ! x)) \<le> 256 \<and>
    hb_connected h = int (length (filter (\<lambda>cl. wc_writer cl \<or> \<not> wc_greeted cl) (hb_objs h))) \<and>
    (wc_writer (hb_objs h ! x) \<longrightarrow> x \<in> set (hb_clients h) \<or> wc_done (hb_objs h ! x)) \<and>
    (\<not> wc_greeted (hb_objs h ! x) \<longrightarrow> (\<exists>h'. hub_step h (HubGreet x t s) h'))"
proof -
  have inv: "hub_inv h" using hub_run_inv [OF assms(1) NewHub_inv] .
  then have c: "client_inv (x \<in> set (hb_clients h)) (hb_objs h ! x)" using assms(2) by (simp add: hub_inv_def)
  have "\<exists>h'. hub_step h (HubGreet x t s) h'" if "\<not> wc_greeted (hb_objs h ! x)"
    using hub_step.greet [OF assms(2) that] that c by (auto simp: client_inv_def sendCap_def)
  moreover have "connected = (\<lambda>cl. wc_writer cl \<or> \<not> wc_greeted cl)" by (simp add: fun_eq_iff connected_def)
  ultimately show ?thesis using inv c by (auto simp: hub_inv_def client_inv_def sendCap_def)
qed

text \<open>
  A connection that is upgraded after \<^verbatim>\<open>Stop\<close> is never told to stop: \<^verbatim>\<open>Stop\<close> acts once.
\<close>

lemma hub_late_client:
  assumes "hb_stopped h"
  shows "Hub_Stop (HandleUpgrade h) = HandleUpgrade h \<and> length (hb_objs h) \<in> set (hb_clients (HandleUpgrade h)) \<and>
    \<not> wc_done (hb_objs (HandleUpgrade h) ! length (hb_objs h))"
  using assms by (simp add: Hub_Stop_def HandleUpgrade_def)

section \<open>A run\<close>

definition demo_event :: Event where
  "demo_event = MakeEvent 6 EventNodeCrash (NodeCrashPayload ''n'')"

lemma demo_hub_run:
  "\<exists>h. hub_run NewHub [HubUpgrade, HubGreet 0 5 s, HubRead 0 (Some [EventAll]), HubWrite 0, HubEventL demo_event] h \<and>
    length (hb_objs h) = 1 \<and> wc_written (hb_objs h ! 0) = [HubState 5 s] \<and> wc_send (hb_objs h ! 0) = [HubEvent demo_event] \<and>
    wc_writer (hb_objs h ! 0) \<and> hb_clients h = [0]"
proof -
  let ?h1 = "HandleUpgrade NewHub"
  let ?h2 = "upd_client 0 (greet 5 s) ?h1"
  let ?h3 = "upd_client 0 (reader_message (Some [EventAll])) ?h2"
  let ?h4 = "upd_client 0 writer_writes ?h3"
  let ?h5 = "broadcast (HubEvent demo_event) ?h4"
  have new: "hb_objs NewHub = []" "hb_clients NewHub = []" "hb_running NewHub" by (simp_all add: NewHub_def)
  have l: "length (hb_objs ?h1) = 1" "hb_clients ?h1 = [0]" "hb_running ?h1" by (simp_all add: HandleUpgrade_def new)
  have o1: "hb_objs ?h1 ! 0 = \<lparr>wc_send = [], wc_done = False, wc_types = [], wc_open = True, wc_greeted = False,
      wc_writer = False, wc_reader = False, wc_written = []\<rparr>" by (simp add: HandleUpgrade_def new)
  have run: "hb_running ?h4" by (simp add: upd_client_def l(3))
  have s1: "hub_run NewHub [HubUpgrade] ?h1" using hub_run.run_snoc [OF hub_run.run_nil hub_step.upgrade] by simp
  have s2: "hub_run NewHub [HubUpgrade, HubGreet 0 5 s] ?h2"
    using hub_run.run_snoc [OF s1 hub_step.greet [of 0 ?h1 5 s]] by (simp add: l o1 sendCap_def)
  have s3: "hub_run NewHub [HubUpgrade, HubGreet 0 5 s, HubRead 0 (Some [EventAll])] ?h3"
    using hub_run.run_snoc [OF s2 hub_step.read [of 0 ?h2 "Some [EventAll]"]] by (simp add: l o1 greet_def)
  have s4: "hub_run NewHub [HubUpgrade, HubGreet 0 5 s, HubRead 0 (Some [EventAll]), HubWrite 0] ?h4"
    using hub_run.run_snoc [OF s3 hub_step.writes [of 0 ?h3]] by (simp add: l o1 greet_def reader_message_def)
  have s5: "hub_run NewHub [HubUpgrade, HubGreet 0 5 s, HubRead 0 (Some [EventAll]), HubWrite 0, HubEventL demo_event] ?h5"
    using hub_run.run_snoc [OF s4 hub_step.event [OF run, of demo_event]] by simp
  have "hb_objs ?h5 ! 0 = offer (HubEvent demo_event) (writer_writes (reader_message (Some [EventAll]) (greet 5 s (hb_objs ?h1 ! 0))))"
    by (simp add: broadcast_nth l)
  then have "wc_written (hb_objs ?h5 ! 0) = [HubState 5 s] \<and> wc_send (hb_objs ?h5 ! 0) = [HubEvent demo_event] \<and> wc_writer (hb_objs ?h5 ! 0)"
    by (simp add: o1 offer_def writer_writes_def reader_message_def greet_def matchEventTypes_def sendCap_def)
  with s5 show ?thesis by (intro exI [of _ ?h5]) (simp add: l)
qed

theorem hub_streams_in_order_witness:
  "\<forall>s. \<exists>h. hub_run NewHub [HubUpgrade, HubGreet 0 5 s, HubRead 0 (Some [EventAll]), HubWrite 0, HubEventL demo_event] h \<and>
    wc_written (hb_objs h ! 0) @ wc_send (hb_objs h ! 0) = [HubState 5 s, HubEvent demo_event] \<and>
    subseq (wc_written (hb_objs h ! 0) @ wc_send (hb_objs h ! 0)) [HubState 5 s, HubEvent demo_event]"
proof
  fix s
  obtain h where h: "hub_run NewHub [HubUpgrade, HubGreet 0 5 s, HubRead 0 (Some [EventAll]), HubWrite 0, HubEventL demo_event] h"
    "length (hb_objs h) = 1" "wc_written (hb_objs h ! 0) = [HubState 5 s]" "wc_send (hb_objs h ! 0) = [HubEvent demo_event]"
    using demo_hub_run by blast
  from hub_streams_in_order [OF h(1), of 0] h show "\<exists>h. hub_run NewHub [HubUpgrade, HubGreet 0 5 s, HubRead 0 (Some [EventAll]), HubWrite 0, HubEventL demo_event] h \<and>
    wc_written (hb_objs h ! 0) @ wc_send (hb_objs h ! 0) = [HubState 5 s, HubEvent demo_event] \<and>
    subseq (wc_written (hb_objs h ! 0) @ wc_send (hb_objs h ! 0)) [HubState 5 s, HubEvent demo_event]"
    by (intro exI [of _ h]) simp
qed

theorem hub_clients_accounted_witness:
  "\<forall>s. \<exists>h. hub_run NewHub [HubUpgrade, HubGreet 0 5 s, HubRead 0 (Some [EventAll]), HubWrite 0, HubEventL demo_event] h \<and>
    hb_connected h = int (length (filter (\<lambda>cl. wc_writer cl \<or> \<not> wc_greeted cl) (hb_objs h)))"
proof
  fix s
  obtain h where h: "hub_run NewHub [HubUpgrade, HubGreet 0 5 s, HubRead 0 (Some [EventAll]), HubWrite 0, HubEventL demo_event] h"
    "length (hb_objs h) = 1" using demo_hub_run by blast
  from hub_clients_accounted [OF h(1), of 0] h show "\<exists>h. hub_run NewHub [HubUpgrade, HubGreet 0 5 s, HubRead 0 (Some [EventAll]), HubWrite 0, HubEventL demo_event] h \<and>
    hb_connected h = int (length (filter (\<lambda>cl. wc_writer cl \<or> \<not> wc_greeted cl) (hb_objs h)))"
    by (intro exI [of _ h]) simp
qed

end
