(* ===== verification/Gateway_Main.thy ===== *)
theory Gateway_Main
  imports Gateway_Effects WebSocket_Hub
begin

text \<open>
  The gateway process, \<^verbatim>\<open>cmd/gateway/main.go\<close>, up to the point where the server runs: settings from
  the environment, a new orchestrator, the initial nodes. A node that cannot be spawned is logged and
  skipped. The state it reaches is a starting point of the runs of theory Gateway\_Lemmas.
\<close>

definition env_int :: "(string \<Rightarrow> string) \<Rightarrow> string \<Rightarrow> int \<Rightarrow> int" where
  "env_int getenv name dflt =
     (if getenv name = [] then dflt else case Atoi (getenv name) of Some n \<Rightarrow> n | None \<Rightarrow> dflt)"

fun spawn_initial :: "Gw_Env \<Rightarrow> nat \<Rightarrow> Orchestrator \<Rightarrow> (fault + Orchestrator) option" where
  "spawn_initial env 0 orc = Some (Inr orc)"
| "spawn_initial env (Suc k) orc =
     (case SpawnNode (ge_fuel env) (ge_sha1 env) (ge_sched env) [] orc of
        None \<Rightarrow> None
      | Some (Inl f) \<Rightarrow> Some (Inl f)
      | Some (Inr (orc, _)) \<Rightarrow> spawn_initial env k orc)"

definition main_config :: "(string \<Rightarrow> string) \<Rightarrow> SimConfig" where
  "main_config getenv =
     Sim_DefaultConfig\<lparr>sc_Protocol := (if getenv ''PROTOCOL'' = [] then ''chord'' else getenv ''PROTOCOL''),
       sc_InitialNodes := env_int getenv ''INITIAL_NODES'' 6\<rparr>"

text \<open>The port and the gateway behind it.\<close>

definition gateway_main :: "Gw_Env \<Rightarrow> (string \<Rightarrow> string) \<Rightarrow> (nat \<Rightarrow> rat) \<Rightarrow> time \<Rightarrow> (fault + int \<times> Gateway) option" where
  "gateway_main env getenv rng now =
     (let cfg = main_config getenv in
      map_option (map_sum id (\<lambda>orc. (env_int getenv ''PORT'' 8080, \<lparr>gw_orch = orc, gw_metrics = [], gw_background = []\<rparr>)))
        (spawn_initial env (nat (sc_InitialNodes cfg)) (NewOrchestrator (ge_sha1 env) rng now (Some cfg))))"

lemma spawn_initial_inv:
  "spawn_initial env k orc = Some (Inr orc') \<Longrightarrow> orch_inv (ge_sha1 env) orc \<Longrightarrow> orch_inv (ge_sha1 env) orc'"
  by (induction k arbitrary: orc) (auto split: option.splits sum.splits dest: SpawnNode_inv)

lemma map_sum_Inr_iff: "map_sum id f x = Inr y \<longleftrightarrow> (\<exists>z. x = Inr z \<and> y = f z)"
  by (cases x) auto

lemma gateway_main_inv:
  "gateway_main env getenv rng now = Some (Inr (port, g)) \<Longrightarrow> orch_inv (ge_sha1 env) (gw_orch g)"
proof -
  assume a: "gateway_main env getenv rng now = Some (Inr (port, g))"
  obtain orc where "spawn_initial env (nat (sc_InitialNodes (main_config getenv))) (NewOrchestrator (ge_sha1 env) rng now (Some (main_config getenv))) =
      Some (Inr orc)" "gw_orch g = orc"
    using a by (auto simp: gateway_main_def Let_def map_sum_Inr_iff)
  with spawn_initial_inv [OF this(1) NewOrchestrator_inv] show ?thesis by simp
qed

text \<open>An unknown protocol is not refused: every node is skipped and the gateway runs without nodes.\<close>

lemma spawn_initial_unknown:
  assumes "sc_Protocol (o_cfg orc) \<noteq> ''chord''" "sc_Protocol (o_cfg orc) \<noteq> ''kademlia''" "o_nodes orc = []"
  shows "\<exists>orc'. spawn_initial env k orc = Some (Inr orc') \<and> o_nodes orc' = []"
  using assms by (induction k arbitrary: orc) (auto simp: SpawnNode_def Let_def)

lemma gateway_main_unknown:
  assumes "getenv ''PROTOCOL'' \<notin> {[], ''chord'', ''kademlia''}"
  shows "\<exists>port g. gateway_main env getenv rng now = Some (Inr (port, g)) \<and> o_nodes (gw_orch g) = []"
proof -
  let ?orc = "NewOrchestrator (ge_sha1 env) rng now (Some (main_config getenv))"
  have "sc_Protocol (o_cfg ?orc) \<noteq> ''chord''" "sc_Protocol (o_cfg ?orc) \<noteq> ''kademlia''" "o_nodes ?orc = []"
    using assms by (auto simp: NewOrchestrator_def main_config_def)
  from spawn_initial_unknown [OF this] show ?thesis
    by (fastforce simp: gateway_main_def Let_def)
qed

end
