(* ===== verification/Tcp_Transport.thy ===== *)
theory Tcp_Transport
  imports Wire Chord Kademlia
begin

text \<open>
  The TCP transport, \<^verbatim>\<open>internal/transport/tcp.go\<close>: calls as JSON requests over HTTP and their
  dispatch to a handler. What the HTTP library does with a request - deliver it, lose it, return
  something that is not a response - is the argument \<open>http\<close>; \<open>tcp_http\<close> is the network in
  which every listening node answers by \<open>serveRPC\<close>. A handler is given by its operations on a
  state. The HTTP server recovers from a panic of a handler and closes the connection, and the client
  gives up on a handler that blocks: in both cases the caller gets an error, and what the handler
  has done by then is left open (\<open>broken\<close>). A call goes through the pooled client of its
  address, which \<open>TCP_client\<close> creates; the pool has no influence on the call and is left out of it. In \<^verbatim>\<open>return out, t.call(..., &out)\<close>
  the call happens first, as the compiler does it.
\<close>

section \<open>Handlers\<close>

type_synonym ('s, 'e, 'r) answer = "(fault + 's \<times> ('e + 'r)) option"

record ('s, 'e) NodeHandler =
  nh_FindSuccessor :: "ID \<Rightarrow> 's \<Rightarrow> ('s, 'e, NodeRef) answer"
  nh_GetPredecessor :: "'s \<Rightarrow> ('s, 'e, NodeRef option) answer"
  nh_Notify :: "NodeRef \<Rightarrow> 's \<Rightarrow> ('s, 'e, unit) answer"
  nh_GetSuccessorList :: "'s \<Rightarrow> ('s, 'e, NodeRef list) answer"
  nh_TransferKeys :: "ValueEntry option list \<Rightarrow> 's \<Rightarrow> ('s, 'e, unit) answer"
  nh_UpdateFingerTable :: "NodeRef \<Rightarrow> int \<Rightarrow> 's \<Rightarrow> ('s, 'e, unit) answer"
  nh_KPing :: "NodeRef \<Rightarrow> 's \<Rightarrow> ('s, 'e, unit) answer"
  nh_KStore :: "NodeRef \<Rightarrow> ValueEntry option \<Rightarrow> 's \<Rightarrow> ('s, 'e, unit) answer"
  nh_FindNode :: "NodeRef \<Rightarrow> ID \<Rightarrow> 's \<Rightarrow> ('s, 'e, NodeRef list) answer"
  nh_FindValue :: "NodeRef \<Rightarrow> ID \<Rightarrow> 's \<Rightarrow> ('s, 'e, FindValueResult) answer"
  nh_Ping :: "'s \<Rightarrow> ('s, 'e, unit) answer"
  nh_GetEntry :: "ID \<Rightarrow> 's \<Rightarrow> ('s, 'e, ValueEntry option) answer"
  nh_PutEntry :: "ID \<Rightarrow> ValueEntry option \<Rightarrow> 's \<Rightarrow> ('s, 'e, unit) answer"
  nh_GetAllEntries :: "'s \<Rightarrow> ('s, 'e, ValueEntry list) answer"

section \<open>Messages\<close>

record rpcRequest =
  rq_Method :: string
  rq_Args :: json

text \<open>An empty error text and a missing result are not sent.\<close>

record rpcResponse =
  rr_Result :: "json option"
  rr_Error :: string

definition mustMarshal :: "json \<Rightarrow> json" where
  "mustMarshal j = (if json_ok j then j else JNull)"

datatype rpc_args =
    ArgsNil
  | ArgsFindSuccessor ID
  | ArgsGetEntry ID
  | ArgsPutEntry ID "ValueEntry option"
  | ArgsNotify NodeRef
  | ArgsTransferKeys "ValueEntry option list"
  | ArgsUpdateFingerTable NodeRef int
  | ArgsKStore NodeRef "ValueEntry option"
  | ArgsFindNode NodeRef ID
  | ArgsFindValue NodeRef ID
  | ArgsKPing NodeRef

fun enc_args :: "rpc_args \<Rightarrow> json" where
  "enc_args ArgsNil = JNull"
| "enc_args (ArgsFindSuccessor i) = JObj [(''id'', enc_id i)]"
| "enc_args (ArgsGetEntry k) = JObj [(''key'', enc_id k)]"
| "enc_args (ArgsPutEntry k e) = JObj [(''key'', enc_id k), (''entry'', enc_pointer enc_entry e)]"
| "enc_args (ArgsNotify s) = JObj [(''sender'', enc_ref s)]"
| "enc_args (ArgsTransferKeys es) = JObj [(''entries'', enc_list (enc_pointer enc_entry) es)]"
| "enc_args (ArgsUpdateFingerTable s i) = JObj [(''s'', enc_ref s), (''i'', JNum i)]"
| "enc_args (ArgsKStore s e) = JObj [(''sender'', enc_ref s), (''entry'', enc_pointer enc_entry e)]"
| "enc_args (ArgsFindNode s i) = JObj [(''sender'', enc_ref s), (''id'', enc_id i)]"
| "enc_args (ArgsFindValue s k) = JObj [(''sender'', enc_ref s), (''key'', enc_id k)]"
| "enc_args (ArgsKPing s) = JObj [(''sender'', enc_ref s)]"

text \<open>One and two fields of an argument.\<close>

definition dec_arg :: "string \<Rightarrow> 'a decoder \<Rightarrow> 'a decoder" where
  "dec_arg f d j = (case members j of Inl e \<Rightarrow> Inl e | Inr ms \<Rightarrow> d (field f ms))"

definition dec_arg2 :: "string \<Rightarrow> 'a decoder \<Rightarrow> string \<Rightarrow> 'b decoder \<Rightarrow> ('a \<times> 'b) decoder" where
  "dec_arg2 f d f' d' j = both (dec_arg f d j) (dec_arg f' d' j)"

definition enc_find :: "FindValueResult \<Rightarrow> json" where
  "enc_find r = (case r of
       FoundEntry e \<Rightarrow> JObj [(''Found'', JBool True), (''Entry'', enc_entry e), (''Contacts'', JNull)]
     | FoundContacts cs \<Rightarrow> JObj [(''Found'', JBool False), (''Entry'', JNull), (''Contacts'', enc_list enc_ref cs)])"

text \<open>A result with \<^verbatim>\<open>Found\<close> and without an entry is used as a miss without contacts.\<close>

definition dec_find :: "FindValueResult decoder" where
  "dec_find j = (case members j of Inl e \<Rightarrow> Inl e
     | Inr ms \<Rightarrow> map_sum id (\<lambda>(found, entry, contacts).
           if found then (case entry of Some e \<Rightarrow> FoundEntry e | None \<Rightarrow> FoundContacts []) else FoundContacts contacts)
         (both (dec_bool (field ''Found'' ms)) (both (dec_pointer dec_entry (field ''Entry'' ms)) (dec_list dec_ref (field ''Contacts'' ms)))))"

section \<open>Serving a request\<close>

text \<open>\<^verbatim>\<open>%q\<close> of a printable string without quotes and backslashes.\<close>

definition quoted :: "string \<Rightarrow> string" where
  "quoted s = CHR 0x22 # s @ [CHR 0x22]"

definition dec_int64 :: "int decoder" where
  "dec_int64 = dec_int (- (2 ^ 63)) (2 ^ 63)"

definition answered :: "('e \<Rightarrow> string) \<Rightarrow> ('r \<Rightarrow> json) \<Rightarrow> ('s, 'e, 'r) answer \<Rightarrow> ('s, string, json) answer" where
  "answered text enc = map_option (map_sum id (\<lambda>(s, r). (s, map_sum text enc r)))"

definition with_args :: "'a decoder \<Rightarrow> json \<Rightarrow> ('a \<Rightarrow> 's \<Rightarrow> ('s, string, json) answer) \<Rightarrow> 's \<Rightarrow> ('s, string, json) answer" where
  "with_args dec j k s = (case dec j of Inl e \<Rightarrow> Some (Inr (s, Inl e)) | Inr a \<Rightarrow> k a s)"

abbreviation enc_unit :: "unit \<Rightarrow> json" where
  "enc_unit \<equiv> \<lambda>_. JNull"

definition dispatch_rpc :: "('e \<Rightarrow> string) \<Rightarrow> ('s, 'e) NodeHandler \<Rightarrow> string \<Rightarrow> json \<Rightarrow> 's \<Rightarrow> ('s, string, json) answer" where
  "dispatch_rpc text h meth args =
     (if meth = ''FindSuccessor'' then with_args (dec_arg ''id'' dec_id) args (\<lambda>i s. answered text enc_ref (nh_FindSuccessor h i s))
      else if meth = ''GetPredecessor'' then (\<lambda>s. answered text (enc_pointer enc_ref) (nh_GetPredecessor h s))
      else if meth = ''Notify'' then with_args (dec_arg ''sender'' dec_ref) args (\<lambda>r s. answered text enc_unit (nh_Notify h r s))
      else if meth = ''GetSuccessorList'' then (\<lambda>s. answered text (enc_list enc_ref) (nh_GetSuccessorList h s))
      else if meth = ''TransferKeys''
      then with_args (dec_arg ''entries'' (dec_list (dec_pointer dec_entry))) args (\<lambda>es s. answered text enc_unit (nh_TransferKeys h es s))
      else if meth = ''UpdateFingerTable''
      then with_args (dec_arg2 ''s'' dec_ref ''i'' dec_int64) args (\<lambda>(r, i) s. answered text enc_unit (nh_UpdateFingerTable h r i s))
      else if meth = ''KPing'' then with_args (dec_arg ''sender'' dec_ref) args (\<lambda>r s. answered text enc_unit (nh_KPing h r s))
      else if meth = ''KStore''
      then with_args (dec_arg2 ''sender'' dec_ref ''entry'' (dec_pointer dec_entry)) args (\<lambda>(r, e) s. answered text enc_unit (nh_KStore h r e s))
      else if meth = ''FindNode''
      then with_args (dec_arg2 ''sender'' dec_ref ''id'' dec_id) args (\<lambda>(r, i) s. answered text (enc_list enc_ref) (nh_FindNode h r i s))
      else if meth = ''FindValue''
      then with_args (dec_arg2 ''sender'' dec_ref ''key'' dec_id) args (\<lambda>(r, k) s. answered text enc_find (nh_FindValue h r k s))
      else if meth = ''Ping'' then (\<lambda>s. answered text enc_unit (nh_Ping h s))
      else if meth = ''GetEntry''
      then with_args (dec_arg ''key'' dec_id) args (\<lambda>k s. answered text (enc_pointer enc_entry) (nh_GetEntry h k s))
      else if meth = ''PutEntry''
      then with_args (dec_arg2 ''key'' dec_id ''entry'' (dec_pointer dec_entry)) args (\<lambda>(k, e) s. answered text enc_unit (nh_PutEntry h k e s))
      else if meth = ''GetAllEntries'' then (\<lambda>s. answered text (enc_list enc_entry) (nh_GetAllEntries h s))
      else (\<lambda>s. Some (Inr (s, Inl (''unknown method '' @ quoted meth)))))"

text \<open>\<^verbatim>\<open>writeRPCError\<close>.\<close>

definition writeRPCError :: "string \<Rightarrow> rpcResponse" where
  "writeRPCError msg = \<lparr>rr_Result = None, rr_Error = msg\<rparr>"

text \<open>The request as decoded from the body.\<close>

definition serveRPC :: "('e \<Rightarrow> string) \<Rightarrow> ('s, 'e) NodeHandler \<Rightarrow> string + rpcRequest \<Rightarrow> 's \<Rightarrow> (fault + 's \<times> rpcResponse) option" where
  "serveRPC text h body s =
     (case body of
        Inl e \<Rightarrow> Some (Inr (s, writeRPCError (''decode: '' @ e)))
      | Inr req \<Rightarrow>
          map_option (map_sum id (\<lambda>(s, r). (s, case r of Inl msg \<Rightarrow> writeRPCError msg
            | Inr j \<Rightarrow> \<lparr>rr_Result = Some (mustMarshal j), rr_Error = []\<rparr>))) (dispatch_rpc text h (rq_Method req) (rq_Args req) s))"

section \<open>The transport\<close>

text \<open>Servers and handlers by address, and the addresses for which there is a pooled client.\<close>

record 'h TCPTransport =
  tt_servers :: "(string, 'h) gomap"
  tt_handlers :: "(string, 'h) gomap"
  tt_clients :: "string list"

definition NewTCPTransport :: "'h TCPTransport" where
  "NewTCPTransport = \<lparr>tt_servers = [], tt_handlers = [], tt_clients = []\<rparr>"

text \<open>\<open>listen\<close> is the result of \<^verbatim>\<open>net.Listen\<close> on the address.\<close>

definition TCP_Register :: "(string \<Rightarrow> string option) \<Rightarrow> string \<Rightarrow> 'h \<Rightarrow> 'h TCPTransport \<Rightarrow> 'h TCPTransport \<times> (string + unit)" where
  "TCP_Register listen addr handler t =
     (if map_of (tt_servers t) addr \<noteq> None then (t, Inl (''tcp: addr '' @ quoted addr @ '' already registered''))
      else case listen addr of
             Some e \<Rightarrow> (t, Inl (''tcp: listen '' @ quoted addr @ '': '' @ e))
           | None \<Rightarrow> (t\<lparr>tt_servers := gm_put addr handler (tt_servers t), tt_handlers := gm_put addr handler (tt_handlers t)\<rparr>, Inr ()))"

definition TCP_Deregister :: "string \<Rightarrow> 'h TCPTransport \<Rightarrow> 'h TCPTransport" where
  "TCP_Deregister addr t =
     t\<lparr>tt_servers := gm_del addr (tt_servers t), tt_handlers := gm_del addr (tt_handlers t), tt_clients := filter (\<lambda>a. a \<noteq> addr) (tt_clients t)\<rparr>"

definition TCP_client :: "string \<Rightarrow> 'h TCPTransport \<Rightarrow> 'h TCPTransport" where
  "TCP_client addr t = (if addr \<in> set (tt_clients t) then t else t\<lparr>tt_clients := addr # tt_clients t\<rparr>)"

datatype http_reply = HttpFailed string | HttpGarbled string | HttpOk rpcResponse

text \<open>\<open>None\<close> means that the bound on the depth of the handler's recursion was too small.\<close>

type_synonym 's http = "string \<Rightarrow> rpcRequest \<Rightarrow> 's \<Rightarrow> ('s \<times> http_reply) option"

datatype tcp_error = TMarshalArgs | TDo string string | TDecode string | TRemote string | TUnmarshal string

type_synonym ('s, 'r) reply = "('s \<times> (tcp_error + 'r)) option"

text \<open>One RPC; \<open>dec\<close> decodes the result, and decodes null to what the result variable starts with.\<close>

definition call :: "'s http \<Rightarrow> string \<Rightarrow> string \<Rightarrow> rpc_args \<Rightarrow> 'r decoder \<Rightarrow> 's \<Rightarrow> ('s, 'r) reply" where
  "call http addr meth args dec s =
     (if \<not> json_ok (enc_args args) then Some (s, Inl TMarshalArgs)
      else case http addr \<lparr>rq_Method = meth, rq_Args = enc_args args\<rparr> s of
             None \<Rightarrow> None
           | Some (s, HttpFailed e) \<Rightarrow> Some (s, Inl (TDo meth e))
           | Some (s, HttpGarbled e) \<Rightarrow> Some (s, Inl (TDecode e))
           | Some (s, HttpOk resp) \<Rightarrow>
               Some (s,
                 if rr_Error resp \<noteq> [] then Inl (TRemote (rr_Error resp))
                 else (case dec (case rr_Result resp of None \<Rightarrow> JNull | Some j \<Rightarrow> j) of Inl e \<Rightarrow> Inl (TUnmarshal e) | Inr x \<Rightarrow> Inr x)))"

text \<open>Calls without a result variable ignore the result.\<close>

definition dec_nothing :: "unit decoder" where
  "dec_nothing j = Inr ()"

definition TCP_FindSuccessor :: "'s http \<Rightarrow> NodeRef \<Rightarrow> ID \<Rightarrow> 's \<Rightarrow> ('s, NodeRef) reply" where
  "TCP_FindSuccessor http target i = call http (nr_Addr target) ''FindSuccessor'' (ArgsFindSuccessor i) dec_ref"

definition TCP_GetPredecessor :: "'s http \<Rightarrow> NodeRef \<Rightarrow> 's \<Rightarrow> ('s, NodeRef option) reply" where
  "TCP_GetPredecessor http target = call http (nr_Addr target) ''GetPredecessor'' ArgsNil (dec_pointer dec_ref)"

definition TCP_Notify :: "'s http \<Rightarrow> NodeRef \<Rightarrow> NodeRef \<Rightarrow> 's \<Rightarrow> ('s, unit) reply" where
  "TCP_Notify http target sender = call http (nr_Addr target) ''Notify'' (ArgsNotify sender) dec_nothing"

definition TCP_GetSuccessorList :: "'s http \<Rightarrow> NodeRef \<Rightarrow> 's \<Rightarrow> ('s, NodeRef list) reply" where
  "TCP_GetSuccessorList http target = call http (nr_Addr target) ''GetSuccessorList'' ArgsNil (dec_list dec_ref)"

definition TCP_TransferKeys :: "'s http \<Rightarrow> NodeRef \<Rightarrow> ValueEntry option list \<Rightarrow> 's \<Rightarrow> ('s, unit) reply" where
  "TCP_TransferKeys http target entries = call http (nr_Addr target) ''TransferKeys'' (ArgsTransferKeys entries) dec_nothing"

definition TCP_UpdateFingerTable :: "'s http \<Rightarrow> NodeRef \<Rightarrow> NodeRef \<Rightarrow> int \<Rightarrow> 's \<Rightarrow> ('s, unit) reply" where
  "TCP_UpdateFingerTable http target r i = call http (nr_Addr target) ''UpdateFingerTable'' (ArgsUpdateFingerTable r i) dec_nothing"

definition TCP_KPing :: "'s http \<Rightarrow> NodeRef \<Rightarrow> NodeRef \<Rightarrow> 's \<Rightarrow> ('s, unit) reply" where
  "TCP_KPing http sender target = call http (nr_Addr target) ''KPing'' (ArgsKPing sender) dec_nothing"

definition TCP_KStore :: "'s http \<Rightarrow> NodeRef \<Rightarrow> NodeRef \<Rightarrow> ValueEntry option \<Rightarrow> 's \<Rightarrow> ('s, unit) reply" where
  "TCP_KStore http sender target entry = call http (nr_Addr target) ''KStore'' (ArgsKStore sender entry) dec_nothing"

definition TCP_FindNode :: "'s http \<Rightarrow> NodeRef \<Rightarrow> NodeRef \<Rightarrow> ID \<Rightarrow> 's \<Rightarrow> ('s, NodeRef list) reply" where
  "TCP_FindNode http sender target i = call http (nr_Addr target) ''FindNode'' (ArgsFindNode sender i) (dec_list dec_ref)"

definition TCP_FindValue :: "'s http \<Rightarrow> NodeRef \<Rightarrow> NodeRef \<Rightarrow> ID \<Rightarrow> 's \<Rightarrow> ('s, FindValueResult) reply" where
  "TCP_FindValue http sender target key = call http (nr_Addr target) ''FindValue'' (ArgsFindValue sender key) dec_find"

definition TCP_Ping :: "'s http \<Rightarrow> NodeRef \<Rightarrow> 's \<Rightarrow> ('s, unit) reply" where
  "TCP_Ping http target = call http (nr_Addr target) ''Ping'' ArgsNil dec_nothing"

text \<open>The result is the address of a local variable: never nil.\<close>

definition TCP_GetEntry :: "'s http \<Rightarrow> NodeRef \<Rightarrow> ID \<Rightarrow> 's \<Rightarrow> ('s, ValueEntry) reply" where
  "TCP_GetEntry http target key = call http (nr_Addr target) ''GetEntry'' (ArgsGetEntry key) dec_entry"

definition TCP_PutEntry :: "'s http \<Rightarrow> NodeRef \<Rightarrow> ID \<Rightarrow> ValueEntry option \<Rightarrow> 's \<Rightarrow> ('s, unit) reply" where
  "TCP_PutEntry http target key entry = call http (nr_Addr target) ''PutEntry'' (ArgsPutEntry key entry) dec_nothing"

definition TCP_GetAllEntries :: "'s http \<Rightarrow> NodeRef \<Rightarrow> 's \<Rightarrow> ('s, ValueEntry option list) reply" where
  "TCP_GetAllEntries http target = call http (nr_Addr target) ''GetAllEntries'' ArgsNil (dec_list (dec_pointer dec_entry))"

text \<open>
  The network: who listens at an address, which requests get lost, and what becomes of a request
  whose handler panics or blocks: the state it leaves and the error of the HTTP client.
\<close>

type_synonym 's breakdown = "fault \<Rightarrow> string \<Rightarrow> rpcRequest \<Rightarrow> 's \<Rightarrow> 's \<times> string"

definition tcp_http :: "('e \<Rightarrow> string) \<Rightarrow> 's breakdown \<Rightarrow> (string \<Rightarrow> ('s, 'e) NodeHandler option) \<Rightarrow> (string \<Rightarrow> string option) \<Rightarrow> 's http" where
  "tcp_http text broken listening lost addr req s =
     (case lost addr of
        Some e \<Rightarrow> Some (s, HttpFailed e)
      | None \<Rightarrow>
          (case listening addr of
             None \<Rightarrow> Some (s, HttpFailed ''connection refused'')
           | Some h \<Rightarrow>
               (case serveRPC text h (Inr req) s of
                  None \<Rightarrow> None
                | Some (Inl f) \<Rightarrow> (case broken f addr req s of (s, e) \<Rightarrow> Some (s, HttpFailed e))
                | Some (Inr (s, resp)) \<Rightarrow> Some (s, HttpOk resp))))"

section \<open>The nodes as handlers\<close>

text \<open>The messages of the errors.\<close>

definition fmt_int :: "int \<Rightarrow> string" where
  "fmt_int i = (if i < 0 then CHR ''-'' # fmt_d (nat (- i)) else fmt_d (nat i))"

definition transport_error_text :: "TransportError \<Rightarrow> string" where
  "transport_error_text e = (case e of
       ErrNodeNotFound \<Rightarrow> ''transport: node not registered''
     | ErrSimulatedLoss \<Rightarrow> ''transport: simulated packet loss''
     | ErrPartitioned \<Rightarrow> ''transport: network partition'')"

fun chord_error_text :: "chord_error \<Rightarrow> string" where
  "chord_error_text (ETransport e) = transport_error_text e"
| "chord_error_text (EMaxHops n) = ''chord.FindSuccessor: max hops exceeded ('' @ fmt_int n @ '')''"
| "chord_error_text (ERpc addr e) = ''chord.FindSuccessor RPC to '' @ addr @ '': '' @ chord_error_text e"
| "chord_error_text (EForward addr e) = ''chord.FindSuccessor forward to '' @ addr @ '': '' @ chord_error_text e"
| "chord_error_text (EJoin e) = ''chord.Join find successor: '' @ chord_error_text e"
| "chord_error_text (EInitFinger e) = ''chord.initFingerTable finger[0]: '' @ chord_error_text e"
| "chord_error_text (EIndexOutOfRange i) = ''chord.UpdateFingerTable: index '' @ fmt_int i @ '' out of range''"
| "chord_error_text (EKeyNotFound k) = ''chord.HandleGetEntry: key '' @ IDToHex k @ '' not found''"
| "chord_error_text (ENilEntry k) = ''chord.HandlePutEntry: nil entry for key '' @ IDToHex k"
| "chord_error_text (ENoKademlia m) = ''chord node does not handle Kademlia RPCs ('' @ m @ '')''"

definition kad_error_text :: "kad_error \<Rightarrow> string" where
  "kad_error_text e = (case e of
       KTransport e \<Rightarrow> transport_error_text e
     | KKeyNotFound k \<Rightarrow> ''key '' @ IDToHex k @ '' not found''
     | KNoChord \<Rightarrow> ''kademlia node does not handle Chord RPCs'')"

text \<open>A nil entry makes \<^verbatim>\<open>Put\<close> of a Kademlia node panic.\<close>

definition chord_handler :: "nat \<Rightarrow> string \<Rightarrow> (ChordNet, chord_error) NodeHandler" where
  "chord_handler fuel a =
     \<lparr>nh_FindSuccessor = (\<lambda>i net. map_option Inr (HandleFindSuccessor fuel a i net)),
      nh_GetPredecessor = (\<lambda>net. Some (Inr (net, Inr (HandleGetPredecessor a net)))),
      nh_Notify = (\<lambda>sender net. Some (Inr (HandleNotify a sender net, Inr ()))),
      nh_GetSuccessorList = (\<lambda>net. Some (Inr (net, Inr (HandleGetSuccessorList a net)))),
      nh_TransferKeys = (\<lambda>es net. Some (Inr (HandleTransferKeys a (Some (List.map_filter id es)) net, Inr ()))),
      nh_UpdateFingerTable = (\<lambda>r i net. map_option Inr (HandleUpdateFingerTable fuel a r i net)),
      nh_KPing = (\<lambda>sender net. Some (Inr (net, HandleKademlia ''KPing''))),
      nh_KStore = (\<lambda>sender e net. Some (Inr (net, HandleKademlia ''KStore''))),
      nh_FindNode = (\<lambda>sender i net. Some (Inr (net, HandleKademlia ''FindNode''))),
      nh_FindValue = (\<lambda>sender k net. Some (Inr (net, HandleKademlia ''FindValue''))),
      nh_Ping = (\<lambda>net. Some (Inr (net, Inr (HandlePing a net)))),
      nh_GetEntry = (\<lambda>k net. Some (Inr (net, map_sum id Some (HandleGetEntry a k net)))),
      nh_PutEntry = (\<lambda>k e net. Some (Inr (HandlePutEntry a k e net))),
      nh_GetAllEntries = (\<lambda>net. Some (Inr (net, Inr (HandleGetAllEntries a net))))\<rparr>"

definition kad_handler :: "sha1_fn \<Rightarrow> string \<Rightarrow> (KadNet, kad_error) NodeHandler" where
  "kad_handler sha1 a =
     \<lparr>nh_FindSuccessor = (\<lambda>i net. Some (Inr (net, HandleChord a))),
      nh_GetPredecessor = (\<lambda>net. Some (Inr (net, HandleChord a))),
      nh_Notify = (\<lambda>sender net. Some (Inr (net, HandleChord a))),
      nh_GetSuccessorList = (\<lambda>net. Some (Inr (net, HandleChord a))),
      nh_TransferKeys = (\<lambda>es net. Some (Inr (net, HandleChord a))),
      nh_UpdateFingerTable = (\<lambda>r i net. Some (Inr (net, HandleChord a))),
      nh_KPing = (\<lambda>sender net. Some (map_sum id (\<lambda>net. (net, Inr ())) (HandleKPing a sender net))),
      nh_KStore = (\<lambda>sender e net. case e of None \<Rightarrow> Some (Inl Panic)
        | Some e \<Rightarrow> Some (map_sum id (\<lambda>net. (net, Inr ())) (HandleKStore sha1 a sender e net))),
      nh_FindNode = (\<lambda>sender i net. Some (map_sum id (\<lambda>(net, refs). (net, Inr refs)) (HandleFindNode a sender i net))),
      nh_FindValue = (\<lambda>sender k net. Some (map_sum id (\<lambda>(net, r). (net, Inr r)) (HandleFindValue a sender k net))),
      nh_Ping = (\<lambda>net. Some (Inr (net, Inr (Kad_HandlePing a net)))),
      nh_GetEntry = (\<lambda>k net. Some (Inr (net, map_sum id Some (Kad_HandleGetEntry a k net)))),
      nh_PutEntry = (\<lambda>k e net. case e of None \<Rightarrow> Some (Inl Panic) | Some e \<Rightarrow> Some (Inr (Kad_HandlePutEntry sha1 a k e net, Inr ()))),
      nh_GetAllEntries = (\<lambda>net. Some (Inr (net, Inr (Kad_HandleGetAllEntries a net))))\<rparr>"

end
