(* ===== verification/Tcp_Lemmas.thy ===== *)
theory Tcp_Lemmas
  imports Tcp_Transport Kad_Lookup
begin

text \<open>
  What a caller observes of a call over TCP: as long as requests are delivered, the same as of the
  handler of the node itself.
\<close>

section \<open>Entries that survive a call\<close>

definition sound_entry :: "ValueEntry \<Rightarrow> bool" where
  "sound_entry e \<longleftrightarrow> wire_entry e \<and> json_time (Timestamp e)"

lemma json_ok_enc [simp]:
  "json_ok (enc_id a)" "json_ok (enc_ref r)" "json_ok (enc_clock c)"
  "json_ok (enc_list f xs) \<longleftrightarrow> (\<forall>x \<in> set xs. json_ok (f x))"
  "json_ok (enc_pointer f p) \<longleftrightarrow> (\<forall>x. p = Some x \<longrightarrow> json_ok (f x))"
  "json_ok (enc_entry e) \<longleftrightarrow> json_time (Timestamp e)"
  by (auto simp: enc_id_def enc_ref_def enc_clock_def enc_list_def enc_pointer_def enc_entry_def list_all_iff split_def split: option.split)

interpretation find: codec enc_find dec_find "\<lambda>r. case r of FoundEntry e \<Rightarrow> wire_entry e | FoundContacts cs \<Rightarrow> True"
proof
  fix r assume r: "case r of FoundEntry e \<Rightarrow> wire_entry e | FoundContacts cs \<Rightarrow> True"
  show "dec_find (enc_find r) = Inr r"
  proof (cases r)
    case (FoundEntry e)
    with r have "dec_pointer dec_entry (enc_entry e) = Inr (Some e)"
      using entry.pointer_back [of "Some e"] by (simp add: enc_pointer_def)
    then show ?thesis
      by (simp add: FoundEntry dec_find_def enc_find_def dec_bool_def dec_list_def)
  next
    case (FoundContacts cs)
    then show ?thesis
      by (simp add: dec_find_def enc_find_def dec_bool_def dec_pointer_def ref.list_back)
  qed
qed (simp add: enc_find_def split: FindValueResult.split)

lemma json_ok_enc_find [simp]: "json_ok (enc_find r) \<longleftrightarrow> (case r of FoundEntry e \<Rightarrow> json_time (Timestamp e) | FoundContacts cs \<Rightarrow> True)"
  by (simp add: enc_find_def split: FindValueResult.split)

section \<open>One call\<close>

text \<open>The result of a handler as the caller sees it.\<close>

definition over_tcp :: "(fault \<Rightarrow> 's \<times> tcp_error) \<Rightarrow> ('e \<Rightarrow> string) \<Rightarrow> ('r \<Rightarrow> 'q) \<Rightarrow> ('s, 'e, 'r) answer \<Rightarrow> ('s, 'q) reply" where
  "over_tcp gone text f a = (case a of
       None \<Rightarrow> None
     | Some (Inl flt) \<Rightarrow> Some (apsnd Inl (gone flt))
     | Some (Inr (s, r)) \<Rightarrow> Some (s, map_sum (\<lambda>e. TRemote (text e)) f r))"

text \<open>A call whose handler panicked or blocked: the error of the HTTP client, whatever happened to the state.\<close>

definition cut_off :: "'s breakdown \<Rightarrow> string \<Rightarrow> string \<Rightarrow> rpc_args \<Rightarrow> 's \<Rightarrow> fault \<Rightarrow> 's \<times> tcp_error" where
  "cut_off broken addr meth args s f = apsnd (TDo meth) (broken f addr \<lparr>rq_Method = meth, rq_Args = enc_args args\<rparr> s)"

text \<open>A network that delivers the requests for one address.\<close>

definition delivers :: "(string \<Rightarrow> ('s, 'e) NodeHandler option) \<Rightarrow> (string \<Rightarrow> string option) \<Rightarrow> string \<Rightarrow> ('s, 'e) NodeHandler \<Rightarrow> bool" where
  "delivers listening lost addr h \<longleftrightarrow> listening addr = Some h \<and> lost addr = None"

lemma call_delivered:
  assumes "delivers listening lost addr h" "json_ok (enc_args args)" "\<And>e. text e \<noteq> []"
    and served: "dispatch_rpc text h meth (enc_args args) s = answered text enc a"
    and decoded: "\<And>s' r. a = Some (Inr (s', Inr r)) \<Longrightarrow> json_ok (enc r) \<and> dec (enc r) = Inr (f r)"
  shows "call (tcp_http text broken listening lost) addr meth args dec s = over_tcp (cut_off broken addr meth args s) text f a"
proof -
  have n: "\<And>e. (text e = []) = False" using assms(3) by simp
  note defs = call_def tcp_http_def serveRPC_def served answered_def over_tcp_def cut_off_def writeRPCError_def mustMarshal_def
  consider "a = None" | x where "a = Some (Inl x)" | s' e where "a = Some (Inr (s', Inl e))" | s' r where "a = Some (Inr (s', Inr r))"
    by (metis obj_sumE old.prod.exhaust option.exhaust)
  then show ?thesis
    using assms(1,2) decoded by cases (simp_all add: defs delivers_def n split: prod.split)
qed

lemma dec_args_back [simp]:
  "dec_arg ''id'' dec_id (enc_args (ArgsFindSuccessor i)) = Inr i"
  "dec_arg ''key'' dec_id (enc_args (ArgsGetEntry i)) = Inr i"
  "dec_arg ''sender'' dec_ref (enc_args (ArgsNotify r)) = Inr r"
  "dec_arg ''sender'' dec_ref (enc_args (ArgsKPing r)) = Inr r"
  "dec_arg2 ''sender'' dec_ref ''id'' dec_id (enc_args (ArgsFindNode r i)) = Inr (r, i)"
  "dec_arg2 ''sender'' dec_ref ''key'' dec_id (enc_args (ArgsFindValue r i)) = Inr (r, i)"
  by (simp_all add: dec_arg_def dec_arg2_def ident.dec_enc ref.dec_enc)

lemma dec_args_back_if:
  "\<forall>e. Some e \<in> set es \<longrightarrow> wire_entry e \<Longrightarrow>
    dec_arg ''entries'' (dec_list (dec_pointer dec_entry)) (enc_args (ArgsTransferKeys es)) = Inr es"
  "\<forall>x. e = Some x \<longrightarrow> wire_entry x \<Longrightarrow>
    dec_arg2 ''key'' dec_id ''entry'' (dec_pointer dec_entry) (enc_args (ArgsPutEntry k e)) = Inr (k, e)"
  "\<forall>x. e = Some x \<longrightarrow> wire_entry x \<Longrightarrow>
    dec_arg2 ''sender'' dec_ref ''entry'' (dec_pointer dec_entry) (enc_args (ArgsKStore r e)) = Inr (r, e)"
  "- (2 ^ 63) \<le> i \<and> i < 2 ^ 63 \<Longrightarrow> dec_arg2 ''s'' dec_ref ''i'' dec_int64 (enc_args (ArgsUpdateFingerTable r i)) = Inr (r, i)"
proof -
  have "dec_list (dec_pointer dec_entry) (enc_list (enc_pointer enc_entry) es) = Inr es" if "\<forall>e. Some e \<in> set es \<longrightarrow> wire_entry e"
  proof -
    have "dec_all (dec_pointer dec_entry) (map (enc_pointer enc_entry) es) = Inr es"
      using that
    proof (induction es)
      case (Cons e es)
      then have "dec_pointer dec_entry (enc_pointer enc_entry e) = Inr e" by (intro entry.pointer_back) auto
      with Cons show ?case by simp
    qed simp
    then show ?thesis by (simp add: dec_list_def enc_list_def)
  qed
  then show "dec_arg ''entries'' (dec_list (dec_pointer dec_entry)) (enc_args (ArgsTransferKeys es)) = Inr es"
    if "\<forall>e. Some e \<in> set es \<longrightarrow> wire_entry e" using that by (simp add: dec_arg_def)
qed (simp_all add: dec_arg_def dec_arg2_def ident.dec_enc ref.dec_enc entry.pointer_back dec_int64_def num.dec_enc)

lemma json_ok_args [simp]:
  "json_ok (enc_args ArgsNil)" "json_ok (enc_args (ArgsFindSuccessor i))" "json_ok (enc_args (ArgsGetEntry i))"
  "json_ok (enc_args (ArgsNotify r))" "json_ok (enc_args (ArgsUpdateFingerTable r n))" "json_ok (enc_args (ArgsFindNode r i))"
  "json_ok (enc_args (ArgsFindValue r i))" "json_ok (enc_args (ArgsKPing r))"
  "json_ok (enc_args (ArgsTransferKeys es)) \<longleftrightarrow> (\<forall>e. Some e \<in> set es \<longrightarrow> json_time (Timestamp e))"
  "json_ok (enc_args (ArgsPutEntry i p)) \<longleftrightarrow> (\<forall>e. p = Some e \<longrightarrow> json_time (Timestamp e))"
  "json_ok (enc_args (ArgsKStore r p)) \<longleftrightarrow> (\<forall>e. p = Some e \<longrightarrow> json_time (Timestamp e))"
  by auto

declare enc_args.simps [simp del]

text \<open>
  What a caller relies on: errors have a message, and what a node serves from a sound state survives
  the wire. Every call then has the effect and the result of the handler.
\<close>

locale rpc_node =
  fixes msg :: "'e \<Rightarrow> string" and h :: "('s, 'e) NodeHandler" and ok :: "'s \<Rightarrow> bool"
  assumes message: "msg e \<noteq> []"
    and entry_sound: "ok s \<Longrightarrow> nh_GetEntry h k s = Some (Inr (s', Inr r)) \<Longrightarrow> \<exists>v. r = Some v \<and> sound_entry v"
    and find_sound: "ok s \<Longrightarrow> nh_FindValue h from k s = Some (Inr (s', Inr (FoundEntry v))) \<Longrightarrow> sound_entry v"
    and all_sound: "ok s \<Longrightarrow> nh_GetAllEntries h s = Some (Inr (s', Inr vs)) \<Longrightarrow> \<forall>v \<in> set vs. sound_entry v"
begin

lemmas call_simps = dispatch_rpc_def with_args_def dec_args_back_if sound_entry_def

lemma FindSuccessor:
  assumes "delivers listening lost (nr_Addr target) h"
  shows "TCP_FindSuccessor (tcp_http msg broken listening lost) target i s = over_tcp (cut_off broken (nr_Addr target) ''FindSuccessor'' (ArgsFindSuccessor i) s) msg id (nh_FindSuccessor h i s)"
  unfolding TCP_FindSuccessor_def
  by (rule call_delivered [where enc = "enc_ref", OF assms(1) _ message])
     (simp_all add: call_simps dec_nothing_def ref.dec_enc ref.pointer_back ref.list_back)

lemma GetPredecessor:
  assumes "delivers listening lost (nr_Addr target) h"
  shows "TCP_GetPredecessor (tcp_http msg broken listening lost) target s = over_tcp (cut_off broken (nr_Addr target) ''GetPredecessor'' ArgsNil s) msg id (nh_GetPredecessor h s)"
  unfolding TCP_GetPredecessor_def
  by (rule call_delivered [where enc = "enc_pointer enc_ref", OF assms(1) _ message])
     (simp_all add: call_simps dec_nothing_def ref.dec_enc ref.pointer_back ref.list_back)

lemma Notify:
  assumes "delivers listening lost (nr_Addr target) h"
  shows "TCP_Notify (tcp_http msg broken listening lost) target r s = over_tcp (cut_off broken (nr_Addr target) ''Notify'' (ArgsNotify r) s) msg id (nh_Notify h r s)"
  unfolding TCP_Notify_def
  by (rule call_delivered [where enc = "enc_unit", OF assms(1) _ message])
     (simp_all add: call_simps dec_nothing_def ref.dec_enc ref.pointer_back ref.list_back)

lemma GetSuccessorList:
  assumes "delivers listening lost (nr_Addr target) h"
  shows "TCP_GetSuccessorList (tcp_http msg broken listening lost) target s = over_tcp (cut_off broken (nr_Addr target) ''GetSuccessorList'' ArgsNil s) msg id (nh_GetSuccessorList h s)"
  unfolding TCP_GetSuccessorList_def
  by (rule call_delivered [where enc = "enc_list enc_ref", OF assms(1) _ message])
     (simp_all add: call_simps dec_nothing_def ref.dec_enc ref.pointer_back ref.list_back)

lemma TransferKeys:
  assumes "delivers listening lost (nr_Addr target) h" "\<forall>e. Some e \<in> set es \<longrightarrow> sound_entry e"
  shows "TCP_TransferKeys (tcp_http msg broken listening lost) target es s = over_tcp (cut_off broken (nr_Addr target) ''TransferKeys'' (ArgsTransferKeys es) s) msg id (nh_TransferKeys h es s)"
  unfolding TCP_TransferKeys_def
  by (rule call_delivered [where enc = "enc_unit", OF assms(1) _ message]) (use assms(2) in \<open>simp_all add: call_simps dec_nothing_def\<close>)

lemma UpdateFingerTable:
  assumes "delivers listening lost (nr_Addr target) h" "- (2 ^ 63) \<le> i \<and> i < 2 ^ 63"
  shows "TCP_UpdateFingerTable (tcp_http msg broken listening lost) target r i s = over_tcp (cut_off broken (nr_Addr target) ''UpdateFingerTable'' (ArgsUpdateFingerTable r i) s) msg id (nh_UpdateFingerTable h r i s)"
  unfolding TCP_UpdateFingerTable_def
  by (rule call_delivered [where enc = "enc_unit", OF assms(1) _ message]) (use assms(2) in \<open>simp_all add: call_simps dec_nothing_def\<close>)

lemma KPing:
  assumes "delivers listening lost (nr_Addr target) h"
  shows "TCP_KPing (tcp_http msg broken listening lost) r target s = over_tcp (cut_off broken (nr_Addr target) ''KPing'' (ArgsKPing r) s) msg id (nh_KPing h r s)"
  unfolding TCP_KPing_def
  by (rule call_delivered [where enc = "enc_unit", OF assms(1) _ message])
     (simp_all add: call_simps dec_nothing_def ref.dec_enc ref.pointer_back ref.list_back)

lemma KStore:
  assumes "delivers listening lost (nr_Addr target) h" "\<forall>e. p = Some e \<longrightarrow> sound_entry e"
  shows "TCP_KStore (tcp_http msg broken listening lost) r target p s = over_tcp (cut_off broken (nr_Addr target) ''KStore'' (ArgsKStore r p) s) msg id (nh_KStore h r p s)"
  unfolding TCP_KStore_def
  by (rule call_delivered [where enc = "enc_unit", OF assms(1) _ message]) (use assms(2) in \<open>simp_all add: call_simps dec_nothing_def\<close>)

lemma FindNode:
  assumes "delivers listening lost (nr_Addr target) h"
  shows "TCP_FindNode (tcp_http msg broken listening lost) r target i s = over_tcp (cut_off broken (nr_Addr target) ''FindNode'' (ArgsFindNode r i) s) msg id (nh_FindNode h r i s)"
  unfolding TCP_FindNode_def
  by (rule call_delivered [where enc = "enc_list enc_ref", OF assms(1) _ message])
     (simp_all add: call_simps dec_nothing_def ref.dec_enc ref.pointer_back ref.list_back)

lemma FindValue:
  assumes "delivers listening lost (nr_Addr target) h" "ok s"
  shows "TCP_FindValue (tcp_http msg broken listening lost) r target i s = over_tcp (cut_off broken (nr_Addr target) ''FindValue'' (ArgsFindValue r i) s) msg id (nh_FindValue h r i s)"
  unfolding TCP_FindValue_def
  by (rule call_delivered [where enc = "enc_find", OF assms(1) _ message]) (use find_sound [OF assms(2)] in
    \<open>auto simp: call_simps intro!: find.dec_enc split: FindValueResult.splits\<close>)

lemma Ping:
  assumes "delivers listening lost (nr_Addr target) h"
  shows "TCP_Ping (tcp_http msg broken listening lost) target s = over_tcp (cut_off broken (nr_Addr target) ''Ping'' ArgsNil s) msg id (nh_Ping h s)"
  unfolding TCP_Ping_def
  by (rule call_delivered [where enc = "enc_unit", OF assms(1) _ message])
     (simp_all add: call_simps dec_nothing_def ref.dec_enc ref.pointer_back ref.list_back)

lemma GetEntry:
  assumes "delivers listening lost (nr_Addr target) h" "ok s"
  shows "TCP_GetEntry (tcp_http msg broken listening lost) target i s = over_tcp (cut_off broken (nr_Addr target) ''GetEntry'' (ArgsGetEntry i) s) msg the (nh_GetEntry h i s)"
  unfolding TCP_GetEntry_def
  by (rule call_delivered [where enc = "enc_pointer enc_entry", OF assms(1) _ message]) (use entry_sound [OF assms(2)] in
    \<open>fastforce simp: call_simps sound_entry_def enc_pointer_def intro: entry.dec_enc\<close>)+

lemma PutEntry:
  assumes "delivers listening lost (nr_Addr target) h" "\<forall>e. p = Some e \<longrightarrow> sound_entry e"
  shows "TCP_PutEntry (tcp_http msg broken listening lost) target i p s = over_tcp (cut_off broken (nr_Addr target) ''PutEntry'' (ArgsPutEntry i p) s) msg id (nh_PutEntry h i p s)"
  unfolding TCP_PutEntry_def
  by (rule call_delivered [where enc = "enc_unit", OF assms(1) _ message]) (use assms(2) in \<open>simp_all add: call_simps dec_nothing_def\<close>)

lemma GetAllEntries:
  assumes "delivers listening lost (nr_Addr target) h" "ok s"
  shows "TCP_GetAllEntries (tcp_http msg broken listening lost) target s = over_tcp (cut_off broken (nr_Addr target) ''GetAllEntries'' ArgsNil s) msg (map Some) (nh_GetAllEntries h s)"
  unfolding TCP_GetAllEntries_def
  by (rule call_delivered [where enc = "enc_list enc_entry", OF assms(1) _ message]) (use all_sound [OF assms(2)] in
    \<open>auto simp: call_simps entry.pointers_back\<close>)

end

section \<open>The two kinds of nodes\<close>

text \<open>Networks whose stores hold only entries that survive the wire.\<close>

definition sound_store :: "KVStore \<Rightarrow> bool" where
  "sound_store st \<longleftrightarrow> (\<forall>(k, e) \<in> set (kv_entries st). sound_entry e)"

definition chord_sound :: "ChordNet \<Rightarrow> bool" where
  "chord_sound net \<longleftrightarrow> (\<forall>a. sound_store (cn_Store (net_node net a)))"

definition kad_sound :: "KadNet \<Rightarrow> bool" where
  "kad_sound net \<longleftrightarrow> (\<forall>a. sound_store (kn_KVStore (kad_node net a)))"

lemma Get_sound: "sound_store st \<Longrightarrow> Get now st k = Some e \<Longrightarrow> sound_entry e"
  by (auto simp: sound_store_def Get_def split: option.splits if_splits dest!: map_of_SomeD)

lemma Get_served: "sound_store st \<Longrightarrow> (case Get now st k of None \<Rightarrow> Inl x | Some e \<Rightarrow> Inr e) = Inr e' \<Longrightarrow> sound_entry e'"
  by (auto intro: Get_sound split: option.splits)

lemma All_sound: "sound_store st \<Longrightarrow> e \<in> set (All now st) \<Longrightarrow> sound_entry e"
  by (auto simp: sound_store_def All_filter)

lemma Put_sound: "sound_store st \<Longrightarrow> sound_entry e \<Longrightarrow> sound_store (Put e st)"
proof -
  have "set (AList.update k v m) \<subseteq> insert (k, v) (set m)" for k v and m :: "(ID, ValueEntry) gomap"
    by (induction m) auto
  then show "sound_store st \<Longrightarrow> sound_entry e \<Longrightarrow> sound_store (Put e st)"
    unfolding sound_store_def Put_def gm_put_def Clone_id by fastforce
qed

lemma chord_error_text_nonempty: "chord_error_text e \<noteq> []"
  by (cases e) (simp_all add: transport_error_text_def split: TransportError.split)

lemma kad_error_text_nonempty: "kad_error_text e \<noteq> []"
  by (simp add: kad_error_text_def transport_error_text_def split: kad_error.split TransportError.split)

interpretation chord_rpc: rpc_node chord_error_text "chord_handler fuel a" chord_sound for fuel a
proof
  show "\<exists>v. r = Some v \<and> sound_entry v"
    if "chord_sound s" "nh_GetEntry (chord_handler fuel a) k s = Some (Inr (s', Inr r))" for s s' k r
    using that(2) Get_served [OF that(1) [unfolded chord_sound_def, rule_format, of a]]
    by (cases "HandleGetEntry a k s") (auto simp: chord_handler_def HandleGetEntry_def)
  show "\<forall>v \<in> set vs. sound_entry v"
    if "chord_sound s" "nh_GetAllEntries (chord_handler fuel a) s = Some (Inr (s', Inr vs))" for s s' vs
    using that by (auto simp: chord_handler_def HandleGetAllEntries_def chord_sound_def intro: All_sound)
qed (auto simp: chord_error_text_nonempty chord_handler_def HandleKademlia_def)

interpretation kad_rpc: rpc_node kad_error_text "kad_handler sha1 a" kad_sound for sha1 a
proof
  show "\<exists>v. r = Some v \<and> sound_entry v"
    if "kad_sound s" "nh_GetEntry (kad_handler sha1 a) k s = Some (Inr (s', Inr r))" for s s' k r
    using that(2) Get_served [OF that(1) [unfolded kad_sound_def, rule_format, of a]]
    by (cases "Kad_HandleGetEntry a k s") (auto simp: kad_handler_def Kad_HandleGetEntry_def)
  show "\<forall>v \<in> set vs. sound_entry v"
    if "kad_sound s" "nh_GetAllEntries (kad_handler sha1 a) s = Some (Inr (s', Inr vs))" for s s' vs
    using that by (auto simp: kad_handler_def Kad_HandleGetAllEntries_def kad_sound_def intro: All_sound)
  show "sound_entry v"
    if "kad_sound s" "nh_FindValue (kad_handler sha1 a) r k s = Some (Inr (s', Inr (FoundEntry v)))" for s s' r k v
  proof -
    from that obtain net where "note_sender a r s = Inr net" "Get (kad_now net) (kn_KVStore (kad_node net a)) k = Some v"
      by (auto simp: kad_handler_def HandleFindValue_def split: sum.splits option.splits)
    moreover from this(1) have "kn_KVStore (kad_node net a) = kn_KVStore (kad_node s a)"
      by (intro tables_only_node note_sender_tables)
    ultimately show ?thesis using that(1) by (metis Get_sound kad_sound_def)
  qed
qed (simp add: kad_error_text_nonempty)

section \<open>Transparency\<close>

definition remote :: "('e \<Rightarrow> string) \<Rightarrow> 'e + 'r \<Rightarrow> tcp_error + 'r" where
  "remote msg = map_sum (\<lambda>e. TRemote (msg e)) id"

lemma over_tcp_simps:
  "over_tcp gone msg f (Some (Inr (s, Inr r))) = Some (s, Inr (f r))"
  "over_tcp gone msg f (Some (Inr (s, Inl e))) = Some (s, Inl (TRemote (msg e)))"
  "over_tcp gone msg id (map_option Inr y) = map_option (\<lambda>(s, r). (s, remote msg r)) y"
  "over_tcp gone msg id (Some (Inr (s, x))) = Some (s, remote msg x)"
  "over_tcp gone msg the (Some (Inr (s, map_sum id Some x))) = Some (s, remote msg x)"
  "over_tcp gone msg id (Some (Inl flt)) = Some (apsnd Inl (gone flt))"
  "over_tcp gone msg id (Some (map_sum id (\<lambda>x. (g x, Inr (h x))) z)) =
     (case z of Inl flt \<Rightarrow> Some (apsnd Inl (gone flt)) | Inr x \<Rightarrow> Some (g x, Inr (h x)))"
  by (cases x; cases y; cases z; simp add: over_tcp_def remote_def split_def comp_def option.map_comp sum.map_comp id_def)+

text \<open>
  C20. TCP is transparent for a Chord node. When the node listens at the address and requests are
  delivered, every call of the transport has the effect and the result of the node's handler: nothing
  is lost or altered in the encoding of arguments and results, errors come back with their message,
  and a nil pointer is told from a value. It holds for stored entries and arguments whose
  clocks are maps, whose durations fit 64 bits and whose time stamps JSON can represent, and for an
  index of 64 bits.
\<close>

theorem tcp_chord_transparent:
  assumes "delivers listening lost (nr_Addr target) (chord_handler fuel a)" "chord_sound net"
    and "\<forall>e. Some e \<in> set es \<longrightarrow> sound_entry e" "\<forall>e. p = Some e \<longrightarrow> sound_entry e" "- (2 ^ 63) \<le> i \<and> i < 2 ^ 63"
  shows "let http = tcp_http chord_error_text broken listening lost
    in TCP_FindSuccessor http target k net = map_option (\<lambda>(net, x). (net, remote chord_error_text x)) (HandleFindSuccessor fuel a k net) \<and>
       TCP_GetPredecessor http target net = Some (net, Inr (HandleGetPredecessor a net)) \<and>
       TCP_Notify http target r net = Some (HandleNotify a r net, Inr ()) \<and>
       TCP_GetSuccessorList http target net = Some (net, Inr (HandleGetSuccessorList a net)) \<and>
       TCP_TransferKeys http target es net = Some (HandleTransferKeys a (Some (List.map_filter id es)) net, Inr ()) \<and>
       TCP_UpdateFingerTable http target r i net =
         map_option (\<lambda>(net, x). (net, remote chord_error_text x)) (HandleUpdateFingerTable fuel a r i net) \<and>
       TCP_Ping http target net = Some (net, Inr ()) \<and>
       TCP_GetEntry http target k net = Some (net, remote chord_error_text (HandleGetEntry a k net)) \<and>
       TCP_PutEntry http target k p net =
         (case HandlePutEntry a k p net of (net, x) \<Rightarrow> Some (net, remote chord_error_text x)) \<and>
       TCP_GetAllEntries http target net = Some (net, Inr (map Some (HandleGetAllEntries a net))) \<and>
       TCP_KPing http r target net = Some (net, Inl (TRemote ''chord node does not handle Kademlia RPCs (KPing)''))"
  unfolding Let_def
  by (simp add: chord_rpc.FindSuccessor [OF assms(1)] chord_rpc.GetPredecessor [OF assms(1)] chord_rpc.Notify [OF assms(1)]
      chord_rpc.GetSuccessorList [OF assms(1)] chord_rpc.TransferKeys [OF assms(1,3)] chord_rpc.UpdateFingerTable [OF assms(1,5)]
      chord_rpc.Ping [OF assms(1)] chord_rpc.GetEntry [OF assms(1,2)] chord_rpc.PutEntry [OF assms(1,4)]
      chord_rpc.GetAllEntries [OF assms(1,2)] chord_rpc.KPing [OF assms(1)] chord_handler_def over_tcp_simps HandleKademlia_def
      split: prod.split)

text \<open>Two nodes that know nothing yet, on addresses where they listen.\<close>

definition demo_chord :: ChordNet where
  "demo_chord = \<lparr>net_node = (\<lambda>a. NewChordNode (\<lambda>_. 0) a None), net_transport = NewInProcessTransport (\<lambda>_. 0) 0 0,
     net_events = [], net_now = 5\<rparr>"

definition demo_kad :: KadNet where
  "demo_kad = \<lparr>kad_node = (\<lambda>a. NewKademliaNode (\<lambda>_. 0) a None), kad_transport = NewInProcessTransport (\<lambda>_. 0) 0 0,
     kad_events = [], kad_now = 5\<rparr>"

definition demo_entry :: ValueEntry where
  "demo_entry = \<lparr>Key = 7, Value = [1, 2], Clock = [(''n'', 1)], Timestamp = 0, TTL = 0, NodeID = ''n''\<rparr>"

lemma demo_sound: "chord_sound demo_chord" "kad_sound demo_kad" "sound_entry demo_entry"
  by (simp_all add: chord_sound_def kad_sound_def sound_store_def demo_chord_def demo_kad_def NewChordNode_def NewKademliaNode_def
      NewKVStore_def Let_def demo_entry_def sound_entry_def wire_entry_def json_time_def)

theorem tcp_chord_transparent_witness:
  "TCP_GetPredecessor (tcp_http chord_error_text (\<lambda>f addr req s. (s, ''EOF'')) (\<lambda>a. Some (chord_handler 9 a)) (\<lambda>_. None)) \<lparr>nr_ID = 1, nr_Addr = ''n:1''\<rparr> demo_chord =
     Some (demo_chord, Inr None)"
proof -
  have "HandleGetPredecessor ''n:1'' demo_chord = None"
    by (simp add: HandleGetPredecessor_def demo_chord_def NewChordNode_def Let_def)
  moreover have "delivers (\<lambda>a. Some (chord_handler 9 a)) (\<lambda>_. None) (nr_Addr \<lparr>nr_ID = 1, nr_Addr = ''n:1''\<rparr>) (chord_handler 9 ''n:1'')"
    by (simp add: delivers_def)
  ultimately show ?thesis
    using tcp_chord_transparent [of _ _ "\<lparr>nr_ID = 1, nr_Addr = ''n:1''\<rparr>" 9 "''n:1''" demo_chord "[Some demo_entry]" "Some demo_entry" 3] demo_sound
    by (simp add: Let_def)
qed

text \<open>
  C21. TCP is transparent for a Kademlia node: the four Kademlia calls and the common ones have the
  effect and the result of the handlers, under the conditions of the statement for Chord nodes, and a
  Chord call is answered by the error of the handler. When a handler panics, as on a nil entry,
  or blocks, the caller is not affected: it gets the error of the HTTP client, named after
  the method, and nothing is claimed about the state that the handler leaves.
\<close>

theorem tcp_kad_transparent:
  assumes "delivers listening lost (nr_Addr target) (kad_handler sha1 a)" "kad_sound net" "\<forall>e. p = Some e \<longrightarrow> sound_entry e"
  shows "let http = tcp_http kad_error_text broken listening lost;
      gone = (\<lambda>meth args f. Some (apsnd Inl (cut_off broken (nr_Addr target) meth args net f)))
    in TCP_KPing http sender target net =
         (case HandleKPing a sender net of Inl f \<Rightarrow> gone ''KPing'' (ArgsKPing sender) f | Inr net' \<Rightarrow> Some (net', Inr ())) \<and>
       TCP_KStore http sender target p net =
         (case p of None \<Rightarrow> gone ''KStore'' (ArgsKStore sender None) Panic
          | Some e \<Rightarrow> (case HandleKStore sha1 a sender e net of
                Inl f \<Rightarrow> gone ''KStore'' (ArgsKStore sender (Some e)) f | Inr net' \<Rightarrow> Some (net', Inr ()))) \<and>
       TCP_FindNode http sender target k net =
         (case HandleFindNode a sender k net of
            Inl f \<Rightarrow> Some (apsnd Inl (cut_off broken (nr_Addr target) ''FindNode'' (ArgsFindNode sender k) net f))
          | Inr (net', refs) \<Rightarrow> Some (net', Inr refs)) \<and>
       TCP_FindValue http sender target k net =
         (case HandleFindValue a sender k net of
            Inl f \<Rightarrow> Some (apsnd Inl (cut_off broken (nr_Addr target) ''FindValue'' (ArgsFindValue sender k) net f))
          | Inr (net', found) \<Rightarrow> Some (net', Inr found)) \<and>
       TCP_Ping http target net = Some (net, Inr ()) \<and>
       TCP_GetEntry http target k net = Some (net, remote kad_error_text (Kad_HandleGetEntry a k net)) \<and>
       TCP_PutEntry http target k p net =
         (case p of None \<Rightarrow> gone ''PutEntry'' (ArgsPutEntry k None) Panic
          | Some e \<Rightarrow> Some (Kad_HandlePutEntry sha1 a k e net, Inr ())) \<and>
       TCP_GetAllEntries http target net = Some (net, Inr (map Some (Kad_HandleGetAllEntries a net))) \<and>
       TCP_FindSuccessor http target k net = Some (net, Inl (TRemote ''kademlia node does not handle Chord RPCs''))"
  unfolding Let_def
  by (simp add: kad_rpc.KPing [OF assms(1)] kad_rpc.KStore [OF assms(1,3)] kad_rpc.FindNode [OF assms(1)]
      kad_rpc.FindValue [OF assms(1,2)] kad_rpc.Ping [OF assms(1)] kad_rpc.GetEntry [OF assms(1,2)] kad_rpc.PutEntry [OF assms(1,3)]
      kad_rpc.GetAllEntries [OF assms(1,2)] kad_rpc.FindSuccessor [OF assms(1)] kad_handler_def over_tcp_simps HandleChord_def
      kad_error_text_def split_def split: option.split sum.split)

text \<open>A miss, and a nil entry on which the handler panics.\<close>

theorem tcp_kad_transparent_witness:
  "let http = tcp_http kad_error_text (\<lambda>f addr req s. (s, ''EOF'')) (\<lambda>a. Some (kad_handler (\<lambda>_. 0) a)) (\<lambda>_. None); n = \<lparr>nr_ID = 1, nr_Addr = ''n:1''\<rparr>
   in TCP_GetEntry http n 7 demo_kad = Some (demo_kad, Inl (TRemote (''key '' @ IDToHex 7 @ '' not found''))) \<and>
      TCP_PutEntry http n 7 None demo_kad = Some (demo_kad, Inl (TDo ''PutEntry'' ''EOF''))"
proof -
  have "Kad_HandleGetEntry ''n:1'' 7 demo_kad = Inl (KKeyNotFound 7)"
    by (simp add: Kad_HandleGetEntry_def demo_kad_def NewKademliaNode_def Let_def Get_def NewKVStore_def)
  moreover have "delivers (\<lambda>a. Some (kad_handler (\<lambda>_. 0) a)) (\<lambda>_. None) (nr_Addr \<lparr>nr_ID = 1, nr_Addr = ''n:1''\<rparr>) (kad_handler (\<lambda>_. 0) ''n:1'')"
    by (simp add: delivers_def)
  ultimately show ?thesis
    using tcp_kad_transparent [of _ _ "\<lparr>nr_ID = 1, nr_Addr = ''n:1''\<rparr>" "\<lambda>_. 0" "''n:1''" demo_kad None "\<lambda>f addr req s. (s, ''EOF'')" _ 7] demo_sound
    by (simp add: Let_def remote_def kad_error_text_def cut_off_def)
qed

section \<open>Failures\<close>

definition rpc_methods :: "string list" where
  "rpc_methods = [''FindSuccessor'', ''GetPredecessor'', ''Notify'', ''GetSuccessorList'', ''TransferKeys'', ''UpdateFingerTable'',
     ''KPing'', ''KStore'', ''FindNode'', ''FindValue'', ''Ping'', ''GetEntry'', ''PutEntry'', ''GetAllEntries'']"

text \<open>
  A call that cannot be marshalled, is lost, finds nobody listening or names an unknown method returns
  an error and changes nothing at the target, and neither does a request whose arguments are not an
  object.
\<close>

theorem tcp_failures_change_nothing:
  assumes "lost addr \<noteq> None \<or> listening addr = None \<or> \<not> json_ok (enc_args args) \<or> meth \<notin> set rpc_methods"
    and "rq_Method req \<in> set rpc_methods - {''GetPredecessor'', ''GetSuccessorList'', ''Ping'', ''GetAllEntries''}"
      "members (rq_Args req) = Inl e"
  shows "(\<exists>err. call (tcp_http msg broken listening lost) addr meth args dec s = Some (s, Inl err)) \<and>
    serveRPC msg h (Inr req) s = Some (Inr (s, writeRPCError e))"
proof
  show "serveRPC msg h (Inr req) s = Some (Inr (s, writeRPCError e))"
    using assms(2,3) by (auto simp: serveRPC_def rpc_methods_def dispatch_rpc_def with_args_def dec_arg_def dec_arg2_def both_def)
  have "dispatch_rpc msg h meth (enc_args args) s = Some (Inr (s, Inl (''unknown method '' @ quoted meth)))" if "meth \<notin> set rpc_methods" for h
    using that by (simp add: rpc_methods_def dispatch_rpc_def)
  then show "\<exists>err. call (tcp_http msg broken listening lost) addr meth args dec s = Some (s, Inl err)"
    using assms(1) by (auto simp: call_def tcp_http_def serveRPC_def writeRPCError_def split: option.split)
qed

theorem tcp_failures_change_nothing_witness:
  "serveRPC chord_error_text (chord_handler 9 ''n:1'') (Inr \<lparr>rq_Method = ''Notify'', rq_Args = JNum 3\<rparr>) demo_chord =
     Some (Inr (demo_chord, writeRPCError ''json: cannot unmarshal value''))"
  using tcp_failures_change_nothing [of "\<lambda>_. Some []" "''n:1''" "\<lambda>_. None" ArgsNil "''Ping''" "\<lparr>rq_Method = ''Notify'', rq_Args = JNum 3\<rparr>"
      "''json: cannot unmarshal value''" chord_error_text "\<lambda>f addr req s. (s, ''EOF'')" dec_nothing demo_chord "chord_handler 9 ''n:1''"]
  by (simp add: rpc_methods_def members_def dec_error_def)

section \<open>Writing and reading over the wire\<close>

lemma HandlePutEntry_sound:
  "chord_sound net \<Longrightarrow> sound_entry e \<Longrightarrow> chord_sound (fst (HandlePutEntry a k (Some e) net))"
  by (simp add: chord_sound_def HandlePutEntry_def upd_node_def Put_sound)

lemma HandleGetEntry_put:
  assumes "\<not> IsExpired (net_now net) e"
  shows "HandleGetEntry a (Key e) (fst (HandlePutEntry a k (Some e) net)) = Inr e"
  using assms by (simp add: HandleGetEntry_def HandlePutEntry_def upd_node_def Get_def Put_def)

text \<open>
  Writing and reading over the wire. An entry put over TCP is read back over TCP from the same node,
  under the key in the entry, whatever key the request names.
\<close>

theorem tcp_put_then_get:
  assumes "delivers listening lost (nr_Addr target) (chord_handler fuel a)" "chord_sound net" "sound_entry e" "\<not> IsExpired (net_now net) e"
  shows "\<exists>net'. TCP_PutEntry (tcp_http chord_error_text broken listening lost) target k (Some e) net = Some (net', Inr ()) \<and> chord_sound net' \<and>
    TCP_GetEntry (tcp_http chord_error_text broken listening lost) target (Key e) net' = Some (net', Inr e)"
proof (intro exI conjI)
  let ?net = "fst (HandlePutEntry a k (Some e) net)"
  have p: "\<forall>x. Some e = Some x \<longrightarrow> sound_entry x" using assms(3) by simp
  show "chord_sound ?net" using assms(2,3) by (rule HandlePutEntry_sound)
  show "TCP_PutEntry (tcp_http chord_error_text broken listening lost) target k (Some e) net = Some (?net, Inr ())"
    by (simp add: chord_rpc.PutEntry [OF assms(1) p] chord_handler_def HandlePutEntry_def over_tcp_simps)
  show "TCP_GetEntry (tcp_http chord_error_text broken listening lost) target (Key e) ?net = Some (?net, Inr e)"
    using HandleGetEntry_put [OF assms(4)]
    by (simp add: chord_rpc.GetEntry [OF assms(1) \<open>chord_sound ?net\<close>] chord_handler_def over_tcp_simps)
qed

theorem tcp_put_then_get_witness:
  "\<exists>net'. TCP_PutEntry (tcp_http chord_error_text (\<lambda>f addr req s. (s, ''EOF'')) (\<lambda>a. Some (chord_handler 9 a)) (\<lambda>_. None)) \<lparr>nr_ID = 1, nr_Addr = ''n:1''\<rparr> 8 (Some demo_entry) demo_chord =
     Some (net', Inr ()) \<and>
   TCP_GetEntry (tcp_http chord_error_text (\<lambda>f addr req s. (s, ''EOF'')) (\<lambda>a. Some (chord_handler 9 a)) (\<lambda>_. None)) \<lparr>nr_ID = 1, nr_Addr = ''n:1''\<rparr> 7 net' = Some (net', Inr demo_entry)"
proof -
  have "delivers (\<lambda>a. Some (chord_handler 9 a)) (\<lambda>_. None) (nr_Addr \<lparr>nr_ID = 1, nr_Addr = ''n:1''\<rparr>) (chord_handler 9 ''n:1'')"
    by (simp add: delivers_def)
  moreover have "\<not> IsExpired (net_now demo_chord) demo_entry" "Key demo_entry = 7"
    by (simp_all add: IsExpired_def demo_entry_def)
  ultimately show ?thesis
    using tcp_put_then_get [of _ _ "\<lparr>nr_ID = 1, nr_Addr = ''n:1''\<rparr>" 9 "''n:1''" demo_chord demo_entry "\<lambda>f addr req s. (s, ''EOF'')" 8] demo_sound by auto
qed

end
