(* ===== verification/Badger_Store.thy ===== *)
theory Badger_Store
  imports Wire
begin

text \<open>
  The persistent store, \<^verbatim>\<open>internal/badgerstore/badger_store.go\<close>. The database is a third-party
  package: its transactions are the argument \<open>db\<close>, and \<open>db_laws\<close> states what its documentation
  promises of them. Values are JSON texts, represented as in theory Wire. The store is shown to
  refine the in-memory store of theory KV\_Store.
\<close>

section \<open>The database\<close>

datatype db_error = ErrKeyNotFound | ErrDB string

text \<open>
  One transaction each: \<open>db_Set\<close>, \<open>db_Delete\<close>; \<open>db_Get\<close> with the reading of the value, which fails
  or returns it; \<open>db_All\<close> with the keys and readable values the iterator visits.
\<close>

record 'd BadgerDB =
  db_Set :: "string \<Rightarrow> json \<Rightarrow> 'd \<Rightarrow> 'd \<times> (db_error + unit)"
  db_Delete :: "string \<Rightarrow> 'd \<Rightarrow> 'd \<times> (db_error + unit)"
  db_Get :: "string \<Rightarrow> 'd \<Rightarrow> db_error + json"
  db_All :: "'d \<Rightarrow> (string \<times> json) list"

definition db_view :: "'d BadgerDB \<Rightarrow> 'd \<Rightarrow> string \<Rightarrow> json option" where
  "db_view db d k = (case db_Get db k d of Inl e \<Rightarrow> None | Inr j \<Rightarrow> Some j)"

text \<open>Transactions take effect as a whole or not at all, and a scan visits every pair once.\<close>

definition db_laws :: "'d BadgerDB \<Rightarrow> bool" where
  "db_laws db \<longleftrightarrow>
     (\<forall>k j d. db_view db (fst (db_Set db k j d)) =
        (case snd (db_Set db k j d) of Inl e \<Rightarrow> db_view db d | Inr _ \<Rightarrow> (db_view db d)(k \<mapsto> j))) \<and>
     (\<forall>k d. db_view db (fst (db_Delete db k d)) =
        (case snd (db_Delete db k d) of
           Inl e \<Rightarrow> if e = ErrKeyNotFound then (db_view db d)(k := None) else db_view db d
         | Inr _ \<Rightarrow> (db_view db d)(k := None))) \<and>
     (\<forall>d. distinct (map fst (db_All db d)) \<and> map_of (db_All db d) = db_view db d)"

lemma db_laws_simps:
  assumes "db_laws db"
  shows "db_Set db k j d = (d', Inr u) \<Longrightarrow> db_view db d' = (db_view db d)(k \<mapsto> j)"
    and "db_Set db k j d = (d', Inl e) \<Longrightarrow> db_view db d' = db_view db d"
    and "db_Delete db k d = (d', Inr u) \<Longrightarrow> db_view db d' = (db_view db d)(k := None)"
    and "db_Delete db k d = (d', Inl ErrKeyNotFound) \<Longrightarrow> db_view db d' = (db_view db d)(k := None)"
    and "db_Delete db k d = (d', Inl (ErrDB m)) \<Longrightarrow> db_view db d' = db_view db d"
    and "distinct (map fst (db_All db d))" "map_of (db_All db d) = db_view db d"
proof -
  note laws = assms [unfolded db_laws_def]
  note set = laws [THEN conjunct1, rule_format, of k j d] and del = laws [THEN conjunct2, THEN conjunct1, rule_format, of k d]
  show "db_Set db k j d = (d', Inr u) \<Longrightarrow> db_view db d' = (db_view db d)(k \<mapsto> j)" using set by simp
  show "db_Set db k j d = (d', Inl e) \<Longrightarrow> db_view db d' = db_view db d" using set by simp
  show "db_Delete db k d = (d', Inr u) \<Longrightarrow> db_view db d' = (db_view db d)(k := None)" using del by simp
  show "db_Delete db k d = (d', Inl ErrKeyNotFound) \<Longrightarrow> db_view db d' = (db_view db d)(k := None)" using del by simp
  show "db_Delete db k d = (d', Inl (ErrDB m)) \<Longrightarrow> db_view db d' = db_view db d" using del by simp
  show "distinct (map fst (db_All db d))" "map_of (db_All db d) = db_view db d" using laws by blast+
qed

section \<open>The store\<close>

datatype badger_error = BNilEntry | BMarshal | BDatabase db_error

text \<open>\<open>opened\<close> is the result of \<^verbatim>\<open>badger.Open\<close> on the path.\<close>

definition Badger_New :: "string \<Rightarrow> string + 'd \<Rightarrow> string + 'd" where
  "Badger_New path opened =
     (case opened of Inl e \<Rightarrow> Inl (''badgerstore.New: open '' @ path @ '': '' @ e) | Inr d \<Rightarrow> Inr d)"

definition keyToHex :: "ID \<Rightarrow> string" where
  "keyToHex key = EncodeToString (id_bytes key)"

definition Badger_Put :: "'d BadgerDB \<Rightarrow> ValueEntry option \<Rightarrow> 'd \<Rightarrow> 'd \<times> (badger_error + unit)" where
  "Badger_Put db p d =
     (case p of
        None \<Rightarrow> (d, Inl BNilEntry)
      | Some e \<Rightarrow>
          if \<not> json_ok (enc_entry e) then (d, Inl BMarshal)
          else (case db_Set db (keyToHex (Key e)) (enc_entry e) d of (d, r) \<Rightarrow> (d, map_sum BDatabase id r)))"

definition Badger_Get :: "'d BadgerDB \<Rightarrow> time \<Rightarrow> 'd \<Rightarrow> ID \<Rightarrow> ValueEntry option" where
  "Badger_Get db now d key =
     (case db_Get db (keyToHex key) d of
        Inl e \<Rightarrow> None
      | Inr j \<Rightarrow>
          (case dec_entry j of
             Inl e \<Rightarrow> None
           | Inr entry \<Rightarrow> if IsExpired now entry then None else Some (Clone entry)))"

definition Badger_GetAll :: "'d BadgerDB \<Rightarrow> time \<Rightarrow> 'd \<Rightarrow> ValueEntry list" where
  "Badger_GetAll db now d =
     fold (\<lambda>(_, j) results. case dec_entry j of
         Inl e \<Rightarrow> results
       | Inr entry \<Rightarrow> if \<not> IsExpired now entry then results @ [Clone entry] else results) (db_All db d) []"

definition Badger_Delete :: "'d BadgerDB \<Rightarrow> ID \<Rightarrow> 'd \<Rightarrow> 'd \<times> (db_error + unit)" where
  "Badger_Delete db key d =
     (case db_Delete db (keyToHex key) d of
        (d, Inl e) \<Rightarrow> if e = ErrKeyNotFound then (d, Inr ()) else (d, Inl e)
      | (d, Inr _) \<Rightarrow> (d, Inr ()))"

section \<open>Refinement of the in-memory store\<close>

lemma keyToHex_inject [simp]: "keyToHex a = keyToHex b \<longleftrightarrow> a = b"
  by (simp add: keyToHex_def EncodeToString_inject id_bytes_inject)

text \<open>The database holds exactly the entries of a store, under their keys.\<close>

definition stores :: "'d BadgerDB \<Rightarrow> 'd \<Rightarrow> KVStore \<Rightarrow> bool" where
  "stores db d st \<longleftrightarrow> kv_inv st \<and> (\<forall>(k, e) \<in> set (kv_entries st). wire_entry e) \<and>
     (\<forall>key. db_view db d (keyToHex key) = map_option enc_entry (kv_lookup st key)) \<and>
     (\<forall>k j. db_view db d k = Some j \<longrightarrow> (\<exists>key. k = keyToHex key))"

lemma stores_lookup: "stores db d st \<Longrightarrow> kv_lookup st key = Some e \<Longrightarrow> wire_entry e \<and> Key e = key"
  unfolding stores_def using kv_lookup_Key [of st key e] kv_lookup_entry [of st key e] by blast

lemma stores_Get:
  assumes "stores db d st"
  shows "Badger_Get db now d key = Get now st key"
proof -
  have v: "db_view db d (keyToHex key) = map_option enc_entry (kv_lookup st key)" using assms by (simp add: stores_def)
  show ?thesis
  proof (cases "kv_lookup st key")
    case None
    with v show ?thesis by (simp add: Badger_Get_def Get_lookup db_view_def split: sum.splits)
  next
    case (Some e)
    with v have "db_Get db (keyToHex key) d = Inr (enc_entry e)" by (simp add: db_view_def split: sum.splits)
    then show ?thesis using Some stores_lookup [OF assms Some] by (simp add: Badger_Get_def Get_lookup entry.dec_enc)
  qed
qed

lemma stores_Put:
  assumes "db_laws db" "stores db d st" "wire_entry e"
  shows "Badger_Put db (Some e) d = (d', Inr u) \<Longrightarrow> stores db d' (Put e st)"
    and "Badger_Put db p d = (d', Inl err) \<Longrightarrow> stores db d' st"
proof -
  have st: "kv_inv st" "\<forall>(k, e) \<in> set (kv_entries st). wire_entry e"
    "\<And>key. db_view db d (keyToHex key) = map_option enc_entry (kv_lookup st key)"
    "\<And>k j. db_view db d k = Some j \<Longrightarrow> \<exists>key. k = keyToHex key"
    using assms(2) by (auto simp: stores_def)
  show "stores db d' (Put e st)" if "Badger_Put db (Some e) d = (d', Inr u)"
  proof -
    obtain d1 r where r: "db_Set db (keyToHex (Key e)) (enc_entry e) d = (d1, r)" by (cases "db_Set db (keyToHex (Key e)) (enc_entry e) d")
    with that have "db_Set db (keyToHex (Key e)) (enc_entry e) d = (d', Inr ())"
      by (cases r) (auto simp: Badger_Put_def split: if_splits)
    from db_laws_simps(1) [OF assms(1) this]
    have v: "db_view db d' = (db_view db d)(keyToHex (Key e) \<mapsto> enc_entry e)" .
    have "\<forall>(k, x) \<in> set (kv_entries (Put e st)). wire_entry x"
      using st(1,2) assms(3) by (auto simp: Put_def kv_inv_def set_gm_put)
    moreover have "db_view db d' (keyToHex key) = map_option enc_entry (kv_lookup (Put e st) key)" for key
      using st(1,3) by (simp add: v kv.get_put)
    moreover have "\<exists>key. k = keyToHex key" if "db_view db d' k = Some j" for k j
      using that st(4) by (auto simp: v split: if_splits)
    ultimately show ?thesis using st(1) by (simp add: stores_def)
  qed
  show "stores db d' st" if "Badger_Put db p d = (d', Inl err)"
  proof -
    have "map_sum BDatabase id r = Inl err \<Longrightarrow> \<exists>e. r = Inl e" for r :: "db_error + unit" by (cases r) auto
    then have "db_view db d' = db_view db d"
      using that db_laws_simps(2) [OF assms(1), of _ _ d d']
      by (fastforce simp: Badger_Put_def split: option.splits if_splits prod.splits)
    then show ?thesis using assms(2) by (simp add: stores_def)
  qed
qed

lemma stores_Delete:
  assumes "db_laws db" "stores db d st"
  shows "Badger_Delete db key d = (d', Inr u) \<Longrightarrow> stores db d' (fst (Delete key st))"
    and "Badger_Delete db key d = (d', Inl err) \<Longrightarrow> stores db d' st"
proof -
  have st: "kv_inv st" "\<forall>(k, e) \<in> set (kv_entries st). wire_entry e"
    "\<And>key. db_view db d (keyToHex key) = map_option enc_entry (kv_lookup st key)"
    "\<And>k j. db_view db d k = Some j \<Longrightarrow> \<exists>key. k = keyToHex key"
    using assms(2) by (auto simp: stores_def)
  obtain d1 r where r: "db_Delete db (keyToHex key) d = (d1, r)" by (cases "db_Delete db (keyToHex key) d")
  show "stores db d' (fst (Delete key st))" if "Badger_Delete db key d = (d', Inr u)"
  proof -
    have "db_view db d' = (db_view db d)(keyToHex key := None)"
      using that r db_laws_simps(3,4) [OF assms(1), of "keyToHex key" d d']
      by (cases r) (auto simp: Badger_Delete_def split: if_splits)
    moreover have "\<forall>(k, e) \<in> set (kv_entries (fst (Delete key st))). wire_entry e"
      using st(2) by (auto simp: Delete_def Let_def set_gm_del)
    ultimately show ?thesis
      using st(1,3,4) by (simp add: stores_def kv.get_del) metis
  qed
  show "stores db d' st" if "Badger_Delete db key d = (d', Inl err)"
  proof -
    have "db_view db d' = db_view db d"
      using that r db_laws_simps(5) [OF assms(1), of "keyToHex key" d d']
      by (cases r; cases err) (auto simp: Badger_Delete_def split: if_splits)
    then show ?thesis using assms(2) by (simp add: stores_def)
  qed
qed

lemma Badger_GetAll_map_filter:
  "Badger_GetAll db now d = List.map_filter (\<lambda>(_, j). case dec_entry j of
     Inl e \<Rightarrow> None | Inr e \<Rightarrow> if IsExpired now e then None else Some e) (db_All db d)"
proof -
  have "fold (\<lambda>(_, j) results. case dec_entry j of
       Inl e \<Rightarrow> results | Inr e \<Rightarrow> if \<not> IsExpired now e then results @ [Clone e] else results) ps acc =
     acc @ List.map_filter (\<lambda>(_, j). case dec_entry j of
       Inl e \<Rightarrow> None | Inr e \<Rightarrow> if IsExpired now e then None else Some e) ps" for ps :: "(string \<times> json) list" and acc
    by (induction ps arbitrary: acc) (auto simp: map_filter_simps split: sum.splits)
  then show ?thesis by (simp add: Badger_GetAll_def)
qed

lemma stores_GetAll:
  assumes "db_laws db" "stores db d st"
  shows "set (Badger_GetAll db now d) = set (All now st)"
proof -
  have st: "kv_inv st" "\<And>key. db_view db d (keyToHex key) = map_option enc_entry (kv_lookup st key)"
    "\<And>k j. db_view db d k = Some j \<Longrightarrow> \<exists>key. k = keyToHex key"
    using assms(2) by (auto simp: stores_def)
  have "(k, j) \<in> set (db_All db d) \<longleftrightarrow> db_view db d k = Some j" for k j
    using db_laws_simps(6,7) [OF assms(1), of d] by (metis map_of_eq_Some_iff)
  then have "e \<in> set (Badger_GetAll db now d) \<longleftrightarrow>
      (\<exists>k j. db_view db d k = Some j \<and> dec_entry j = Inr e \<and> \<not> IsExpired now e)" for e
    by (force simp: Badger_GetAll_map_filter map_filter_def split: sum.splits if_splits)
  moreover have "(\<exists>k j. db_view db d k = Some j \<and> dec_entry j = Inr e \<and> \<not> IsExpired now e) \<longleftrightarrow>
      (\<exists>key. kv_lookup st key = Some e \<and> \<not> IsExpired now e)" for e
  proof
    assume "\<exists>k j. db_view db d k = Some j \<and> dec_entry j = Inr e \<and> \<not> IsExpired now e"
    then obtain key j where j: "db_view db d (keyToHex key) = Some j" "dec_entry j = Inr e" "\<not> IsExpired now e"
      using st(3) by blast
    then obtain x where x: "kv_lookup st key = Some x" "j = enc_entry x" using st(2) by auto
    then have "x = e" using j(2) stores_lookup [OF assms(2) x(1)] by (simp add: entry.dec_enc)
    then show "\<exists>key. kv_lookup st key = Some e \<and> \<not> IsExpired now e" using x(1) j(3) by blast
  next
    assume "\<exists>key. kv_lookup st key = Some e \<and> \<not> IsExpired now e"
    then obtain key where key: "kv_lookup st key = Some e" "\<not> IsExpired now e" by blast
    then have "db_view db d (keyToHex key) = Some (enc_entry e)" "dec_entry (enc_entry e) = Inr e"
      using st(2) stores_lookup [OF assms(2) key(1)] by (simp_all add: entry.dec_enc)
    then show "\<exists>k j. db_view db d k = Some j \<and> dec_entry j = Inr e \<and> \<not> IsExpired now e" using key(2) by blast
  qed
  moreover have "e \<in> set (All now st) \<longleftrightarrow> (\<exists>key. kv_lookup st key = Some e \<and> \<not> IsExpired now e)" for e
    using st(1) by (force simp: All_filter kv_lookup_entry)
  ultimately show ?thesis by (simp add: set_eq_iff)
qed

text \<open>A client of the store: its calls, and those that were acknowledged.\<close>

datatype store_call = CallPut ValueEntry | CallDelete ID

fun kv_call :: "store_call \<Rightarrow> KVStore \<Rightarrow> KVStore" where
  "kv_call (CallPut e) st = Put e st"
| "kv_call (CallDelete k) st = fst (Delete k st)"

fun badger_calls :: "'d BadgerDB \<Rightarrow> store_call list \<Rightarrow> 'd \<Rightarrow> 'd \<times> store_call list" where
  "badger_calls db [] d = (d, [])"
| "badger_calls db (c # cs) d =
     (let (d, done) = (case c of
          CallPut e \<Rightarrow> (case Badger_Put db (Some e) d of (d, r) \<Rightarrow> (d, r = Inr ()))
        | CallDelete k \<Rightarrow> (case Badger_Delete db k d of (d, r) \<Rightarrow> (d, r = Inr ())));
          (d, acked) = badger_calls db cs d
      in (d, if done then c # acked else acked))"

lemma stores_calls:
  assumes "db_laws db"
  shows "badger_calls db cs d = (d', acked) \<Longrightarrow> stores db d st \<Longrightarrow> \<forall>e. CallPut e \<in> set cs \<longrightarrow> wire_entry e \<Longrightarrow>
    stores db d' (fold kv_call acked st)"
proof (induction cs arbitrary: d st acked)
  case (Cons c cs)
  define step where "step = (case c of
      CallPut e \<Rightarrow> (case Badger_Put db (Some e) d of (d, r) \<Rightarrow> (d, r = Inr ()))
    | CallDelete k \<Rightarrow> (case Badger_Delete db k d of (d, r) \<Rightarrow> (d, r = Inr ())))"
  obtain d1 fin where s: "step = (d1, fin)" by (cases step)
  obtain acked' where a: "badger_calls db cs d1 = (d', acked')" "acked = (if fin then c # acked' else acked')"
    using Cons.prems(1) s by (auto simp: step_def Let_def split: prod.splits)
  have "stores db d1 (if fin then kv_call c st else st)"
  proof (cases c)
    case (CallPut e)
    then have w: "wire_entry e" using Cons.prems(3) by simp
    obtain r where "Badger_Put db (Some e) d = (d1, r)" "fin = (r = Inr ())" using s CallPut by (auto simp: step_def split: prod.splits)
    with stores_Put [OF assms Cons.prems(2) w] CallPut show ?thesis by (cases r) auto
  next
    case (CallDelete k)
    obtain r where "Badger_Delete db k d = (d1, r)" "fin = (r = Inr ())" using s CallDelete by (auto simp: step_def split: prod.splits)
    with stores_Delete [OF assms Cons.prems(2)] CallDelete show ?thesis by (cases r) auto
  qed
  from Cons.IH [OF a(1) this] Cons.prems(3) a(2) show ?case by (cases fin) simp_all
qed simp

text \<open>
  C22. The persistent store refines the in-memory store. After any sequence of calls on an empty
  database that keeps what it documents, whichever of them fail, reads and scans return what the
  in-memory store holds after the acknowledged calls: no acknowledged write is lost, no failed one is
  visible, and expiry is the same.
\<close>

theorem badger_refines_store:
  assumes "db_laws db" "db_view db d = Map.empty" "\<forall>e. CallPut e \<in> set cs \<longrightarrow> wire_entry e"
    and "badger_calls db cs d = (d', acked)"
  shows "Badger_Get db now d' key = Get now (fold kv_call acked NewKVStore) key \<and>
    set (Badger_GetAll db now d') = set (All now (fold kv_call acked NewKVStore))"
proof -
  have "stores db d NewKVStore" using assms(2) by (simp add: stores_def kv_lookup_def NewKVStore_def kv_inv_def)
  note s = stores_calls [OF assms(1,4) this assms(3)]
  show ?thesis using stores_Get [OF s] stores_GetAll [OF assms(1) s] by simp
qed

text \<open>An association list as database.\<close>

definition list_db :: "(string, json) gomap BadgerDB" where
  "list_db = \<lparr>db_Set = (\<lambda>k j d. (gm_put k j d, Inr ())), db_Delete = (\<lambda>k d. (gm_del k d, Inr ())),
     db_Get = (\<lambda>k d. case map_of d k of None \<Rightarrow> Inl ErrKeyNotFound | Some j \<Rightarrow> Inr j), db_All = AList.clearjunk\<rparr>"

lemma list_db_view: "db_view list_db d = map_of d"
  by (simp add: fun_eq_iff db_view_def list_db_def split: option.split)

lemma list_db_laws: "db_laws list_db"
  unfolding db_laws_def list_db_view by (simp add: list_db_def map_of_clearjunk distinct_clearjunk)

theorem badger_refines_store_witness:
  "Badger_Get list_db 5 (fst (badger_calls list_db [CallPut \<lparr>Key = 7, Value = [1], Clock = [(''n'', 1)], Timestamp = 0, TTL = 0, NodeID = ''n''\<rparr>] [])) 7 =
     Some \<lparr>Key = 7, Value = [1], Clock = [(''n'', 1)], Timestamp = 0, TTL = 0, NodeID = ''n''\<rparr>"
proof -
  let ?e = "\<lparr>Key = 7, Value = [1], Clock = [(''n'', 1)], Timestamp = 0, TTL = 0, NodeID = ''n''\<rparr>"
  have "badger_calls list_db [CallPut ?e] [] = (fst (badger_calls list_db [CallPut ?e] []), [CallPut ?e])"
    by (simp add: Badger_Put_def list_db_def enc_entry_def enc_id_def enc_clock_def json_time_def list_all_iff)
  from badger_refines_store [OF list_db_laws _ _ this, of 5 7] show ?thesis
    by (simp add: list_db_view wire_entry_def Get_def Put_def NewKVStore_def IsExpired_def)
qed

end
