(* ===== verification/Node_Process.thy ===== *)
theory Node_Process
  imports Badger_Store Tcp_Transport
begin

text \<open>
  The stand-alone node, \<^verbatim>\<open>cmd/node/main.go\<close>: the wrappers around a Chord and a Kademlia node with
  their optional persistent store, the HTTP interface for reads and writes, and the start of the
  process up to the point where it answers requests. A request arrives with its path decoded and
  cleaned by the router and its body decoded. Flags, logging, signals, the choice of a free port and
  the calls that join or create a network (theories Chord and Kademlia) are left out.
\<close>

section \<open>Wrappers\<close>

record 'd chordWrapper =
  cw_node :: ChordNode
  cw_bstor :: "'d option"

record 'd kademliaWrapper =
  kw_node :: KademliaNode
  kw_bstor :: "'d option"

datatype 'd dhtNode = ChordW "'d chordWrapper" | KademliaW "'d kademliaWrapper"

definition newChordWrapper :: "sha1_fn \<Rightarrow> string \<Rightarrow> 'd option \<Rightarrow> 'd chordWrapper" where
  "newChordWrapper sha1 addr bs = \<lparr>cw_node = NewChordNode sha1 addr None, cw_bstor = bs\<rparr>"

definition newKademliaWrapper :: "sha1_fn \<Rightarrow> string \<Rightarrow> 'd option \<Rightarrow> 'd kademliaWrapper" where
  "newKademliaWrapper sha1 addr bs = \<lparr>kw_node = NewKademliaNode sha1 addr None, kw_bstor = bs\<rparr>"

definition persist :: "'d BadgerDB \<Rightarrow> ValueEntry \<Rightarrow> 'd option \<Rightarrow> 'd option \<times> (badger_error + unit)" where
  "persist db e bs =
     (case bs of None \<Rightarrow> (None, Inr ()) | Some d \<Rightarrow> (case Badger_Put db (Some e) d of (d, r) \<Rightarrow> (Some d, r)))"

definition local_entry :: "time \<Rightarrow> ID \<Rightarrow> ID \<Rightarrow> string \<Rightarrow> ValueEntry" where
  "local_entry now i k value =
     \<lparr>Key = k, Value = string_bytes value, Clock = [(IDToHex i, 1)], Timestamp = now, TTL = 0, NodeID = IDToHex i\<rparr>"

definition chord_put :: "'d BadgerDB \<Rightarrow> sha1_fn \<Rightarrow> time \<Rightarrow> string \<Rightarrow> string \<Rightarrow> 'd chordWrapper \<Rightarrow> 'd chordWrapper \<times> (badger_error + unit)" where
  "chord_put db sha1 now key value w =
     (let e = local_entry now (cn_ID (cw_node w)) (SHA1 sha1 key) value;
          n = (cw_node w)\<lparr>cn_Store := Put e (cn_Store (cw_node w))\<rparr>;
          (bs, r) = persist db e (cw_bstor w)
      in (\<lparr>cw_node = n, cw_bstor = bs\<rparr>, r))"

definition kad_put :: "'d BadgerDB \<Rightarrow> sha1_fn \<Rightarrow> time \<Rightarrow> string \<Rightarrow> string \<Rightarrow> 'd kademliaWrapper \<Rightarrow> 'd kademliaWrapper \<times> (badger_error + unit)" where
  "kad_put db sha1 now key value w =
     (let e = local_entry now (kn_ID (kw_node w)) (SHA1 sha1 key) value;
          n = (kw_node w)\<lparr>kn_KVStore := Put e (kn_KVStore (kw_node w))\<rparr>;
          (bs, r) = persist db e (kw_bstor w)
      in (\<lparr>kw_node = n, kw_bstor = bs\<rparr>, r))"

definition chord_get :: "'d BadgerDB \<Rightarrow> sha1_fn \<Rightarrow> time \<Rightarrow> string \<Rightarrow> 'd chordWrapper \<Rightarrow> 'd chordWrapper \<times> string option" where
  "chord_get db sha1 now key w =
     (let k = SHA1 sha1 key in
      case Get now (cn_Store (cw_node w)) k of
        Some e \<Rightarrow> (w, Some (bytes_string (Value e)))
      | None \<Rightarrow>
          (case cw_bstor w of
             None \<Rightarrow> (w, None)
           | Some d \<Rightarrow>
               (case Badger_Get db now d k of
                  None \<Rightarrow> (w, None)
                | Some e \<Rightarrow> (w\<lparr>cw_node := (cw_node w)\<lparr>cn_Store := Put e (cn_Store (cw_node w))\<rparr>\<rparr>, Some (bytes_string (Value e))))))"

definition kad_get :: "'d BadgerDB \<Rightarrow> sha1_fn \<Rightarrow> time \<Rightarrow> string \<Rightarrow> 'd kademliaWrapper \<Rightarrow> 'd kademliaWrapper \<times> string option" where
  "kad_get db sha1 now key w =
     (let k = SHA1 sha1 key in
      case Get now (kn_KVStore (kw_node w)) k of
        Some e \<Rightarrow> (w, Some (bytes_string (Value e)))
      | None \<Rightarrow>
          (case kw_bstor w of
             None \<Rightarrow> (w, None)
           | Some d \<Rightarrow>
               (case Badger_Get db now d k of
                  None \<Rightarrow> (w, None)
                | Some e \<Rightarrow> (w\<lparr>kw_node := (kw_node w)\<lparr>kn_KVStore := Put e (kn_KVStore (kw_node w))\<rparr>\<rparr>, Some (bytes_string (Value e))))))"

text \<open>The methods of the interface \<^verbatim>\<open>dhtNode\<close>.\<close>

definition nodeAddr :: "'d dhtNode \<Rightarrow> string" where
  "nodeAddr n = (case n of ChordW w \<Rightarrow> cn_Addr (cw_node w) | KademliaW w \<Rightarrow> kn_Addr (kw_node w))"

definition node_put :: "'d BadgerDB \<Rightarrow> sha1_fn \<Rightarrow> time \<Rightarrow> string \<Rightarrow> string \<Rightarrow> 'd dhtNode \<Rightarrow> 'd dhtNode \<times> (badger_error + unit)" where
  "node_put db sha1 now key value n =
     (case n of
        ChordW w \<Rightarrow> (case chord_put db sha1 now key value w of (w, r) \<Rightarrow> (ChordW w, r))
      | KademliaW w \<Rightarrow> (case kad_put db sha1 now key value w of (w, r) \<Rightarrow> (KademliaW w, r)))"

definition node_get :: "'d BadgerDB \<Rightarrow> sha1_fn \<Rightarrow> time \<Rightarrow> string \<Rightarrow> 'd dhtNode \<Rightarrow> 'd dhtNode \<times> string option" where
  "node_get db sha1 now key n =
     (case n of
        ChordW w \<Rightarrow> (case chord_get db sha1 now key w of (w, r) \<Rightarrow> (ChordW w, r))
      | KademliaW w \<Rightarrow> (case kad_get db sha1 now key w of (w, r) \<Rightarrow> (KademliaW w, r)))"

section \<open>The HTTP interface\<close>

record node_request =
  hr_Method :: string
  hr_Path :: string
  hr_Body :: "string + string \<times> string"

datatype node_body = NText string | NStoreError badger_error | NHealth string string | NStored string string | NValue string string

definition handleHealth :: "string \<Rightarrow> node_request \<Rightarrow> 'd dhtNode \<Rightarrow> 'd dhtNode \<times> nat \<times> node_body" where
  "handleHealth protocol r n =
     (if hr_Method r \<noteq> ''GET'' then (n, 405, NText ''method not allowed'') else (n, 200, NHealth (nodeAddr n) protocol))"

definition handleKVPost :: "'d BadgerDB \<Rightarrow> sha1_fn \<Rightarrow> time \<Rightarrow> node_request \<Rightarrow> 'd dhtNode \<Rightarrow> 'd dhtNode \<times> nat \<times> node_body" where
  "handleKVPost db sha1 now r n =
     (if hr_Method r \<noteq> ''POST'' then (n, 405, NText ''method not allowed'')
      else case hr_Body r of
             Inl e \<Rightarrow> (n, 400, NText (''bad request: '' @ e))
           | Inr (key, value) \<Rightarrow>
               if key = [] then (n, 400, NText ''key must not be empty'')
               else (case node_put db sha1 now key value n of
                       (n, Inl e) \<Rightarrow> (n, 500, NStoreError e)
                     | (n, Inr _) \<Rightarrow> (n, 201, NStored key (EncodeToString (id_bytes (SHA1 sha1 key))))))"

definition TrimPrefix :: "string \<Rightarrow> string \<Rightarrow> string" where
  "TrimPrefix s p = (if take (length p) s = p then drop (length p) s else s)"

definition handleKVGet :: "'d BadgerDB \<Rightarrow> sha1_fn \<Rightarrow> time \<Rightarrow> node_request \<Rightarrow> 'd dhtNode \<Rightarrow> 'd dhtNode \<times> nat \<times> node_body" where
  "handleKVGet db sha1 now r n =
     (if hr_Method r \<noteq> ''GET'' then (n, 405, NText ''method not allowed'')
      else let key = TrimPrefix (hr_Path r) ''/kv/'' in
           if key = [] then (n, 400, NText ''key must not be empty'')
           else (case node_get db sha1 now key n of
                   (n, None) \<Rightarrow> (n, 404, NText ''not found'')
                 | (n, Some value) \<Rightarrow> (n, 200, NValue key value)))"

text \<open>The routes of \<^verbatim>\<open>newServer\<close>: the longest matching pattern is chosen.\<close>

definition node_serve :: "'d BadgerDB \<Rightarrow> sha1_fn \<Rightarrow> string \<Rightarrow> time \<Rightarrow> node_request \<Rightarrow> 'd dhtNode \<Rightarrow> 'd dhtNode \<times> nat \<times> node_body" where
  "node_serve db sha1 protocol now r n =
     (if hr_Path r = ''/health'' then handleHealth protocol r n
      else if take 4 (hr_Path r) = ''/kv/'' then handleKVGet db sha1 now r n
      else if hr_Path r = ''/kv'' then handleKVPost db sha1 now r n
      else (n, 404, NText ''404 page not found''))"

section \<open>Start of the process\<close>

definition seedFromBadger :: "'d BadgerDB \<Rightarrow> time \<Rightarrow> 'd \<Rightarrow> 'd dhtNode \<Rightarrow> 'd dhtNode" where
  "seedFromBadger db now d n =
     (let entries = Badger_GetAll db now d in
      if entries = [] then n
      else case n of
        ChordW w \<Rightarrow> ChordW (w\<lparr>cw_node := (cw_node w)\<lparr>cn_Store := fold Put entries (cn_Store (cw_node w))\<rparr>\<rparr>)
      | KademliaW w \<Rightarrow> KademliaW (w\<lparr>kw_node := (kw_node w)\<lparr>kn_KVStore := fold Put entries (kn_KVStore (kw_node w))\<rparr>\<rparr>))"

definition ToLower :: "string \<Rightarrow> string" where
  "ToLower s = map (\<lambda>c. let n = of_char c :: nat in if 65 \<le> n \<and> n \<le> 90 then char_of (n + 32) else c) s"

text \<open>
  \<open>data_dir\<close> is the directory with the result of opening it, if the flag is set, and \<open>listen\<close> that of
  listening on an address. The result is the transport, in which the node is registered by its
  address, and the node; an error ends the process.
\<close>

definition node_start ::
  "'d BadgerDB \<Rightarrow> sha1_fn \<Rightarrow> time \<Rightarrow> string \<Rightarrow> string \<Rightarrow> (string \<times> (string + 'd)) option \<Rightarrow> (string \<Rightarrow> string option) \<Rightarrow>
    string + string TCPTransport \<times> 'd dhtNode" where
  "node_start db sha1 now addr flagProtocol data_dir listen =
     (case (case data_dir of None \<Rightarrow> Inr None | Some (path, opened) \<Rightarrow> map_sum id Some (Badger_New path opened)) of
        Inl e \<Rightarrow> Inl e
      | Inr bstor \<Rightarrow>
          (let protocol = ToLower flagProtocol;
               run = (\<lambda>n. case TCP_Register listen (nodeAddr n) (nodeAddr n) NewTCPTransport of
                   (t, Inl e) \<Rightarrow> Inl e
                 | (t, Inr _) \<Rightarrow> Inr (t, case bstor of None \<Rightarrow> n | Some d \<Rightarrow> seedFromBadger db now d n))
           in if protocol = ''chord'' then run (ChordW (newChordWrapper sha1 addr bstor))
              else if protocol = ''kademlia'' then run (KademliaW (newKademliaWrapper sha1 addr bstor))
              else Inl ''unknown protocol''))"

section \<open>What a node keeps\<close>

definition node_store :: "'d dhtNode \<Rightarrow> KVStore" where
  "node_store n = (case n of ChordW w \<Rightarrow> cn_Store (cw_node w) | KademliaW w \<Rightarrow> kn_KVStore (kw_node w))"

definition node_bstor :: "'d dhtNode \<Rightarrow> 'd option" where
  "node_bstor n = (case n of ChordW w \<Rightarrow> cw_bstor w | KademliaW w \<Rightarrow> kw_bstor w)"

definition node_id :: "'d dhtNode \<Rightarrow> ID" where
  "node_id n = (case n of ChordW w \<Rightarrow> cn_ID (cw_node w) | KademliaW w \<Rightarrow> kn_ID (kw_node w))"

lemma node_put_effect:
  assumes "node_put db sha1 now key value n = (n', r)"
  shows "persist db (local_entry now (node_id n) (SHA1 sha1 key) value) (node_bstor n) = (node_bstor n', r)"
  using assms by (cases n) (auto simp: node_put_def chord_put_def kad_put_def node_bstor_def node_id_def Let_def split: prod.splits)

lemma node_get_bstor: "node_get db sha1 now key n = (n', r) \<Longrightarrow> node_bstor n' = node_bstor n"
  by (cases n) (auto simp: node_get_def chord_get_def kad_get_def node_bstor_def Let_def split: prod.splits option.splits)

lemma node_get_cached:
  "Get now (node_store n) (SHA1 sha1 key) = Some e \<Longrightarrow> node_get db sha1 now key n = (n, Some (bytes_string (Value e)))"
  by (cases n) (simp_all add: node_get_def chord_get_def kad_get_def node_store_def Let_def)

lemma local_entry_simps [simp]:
  "Key (local_entry now i k v) = k" "Value (local_entry now i k v) = string_bytes v" "TTL (local_entry now i k v) = 0"
  "wire_entry (local_entry now i k v)"
  by (simp_all add: local_entry_def wire_entry_def)

text \<open>The database holds a value that never expires.\<close>

definition durable :: "'d BadgerDB \<Rightarrow> 'd \<Rightarrow> ID \<Rightarrow> string \<Rightarrow> bool" where
  "durable db d k v \<longleftrightarrow> (\<exists>st e. stores db d st \<and> kv_lookup st k = Some e \<and> Value e = string_bytes v \<and> TTL e = 0)"

lemma durable_put:
  assumes "db_laws db" "stores db d st" "node_bstor n = Some d" "node_put db sha1 now key v n = (n', Inr u)"
  shows "\<exists>d'. node_bstor n' = Some d' \<and> durable db d' (SHA1 sha1 key) v"
proof -
  let ?e = "local_entry now (node_id n) (SHA1 sha1 key) v"
  obtain d' where d': "Badger_Put db (Some ?e) d = (d', Inr u)" "node_bstor n' = Some d'"
    using node_put_effect [OF assms(4)] assms(3) by (auto simp: persist_def split: prod.splits)
  have st: "stores db d' (Put ?e st)" using stores_Put(1) [OF assms(1,2) _ d'(1)] by simp
  have "kv_lookup (Put ?e st) (SHA1 sha1 key) = Some ?e" using assms(2) by (simp add: stores_def kv.get_put)
  with st d'(2) show ?thesis by (auto simp: durable_def)
qed

lemma durable_other:
  assumes "db_laws db" "durable db d k v" "node_bstor n = Some d" "node_put db sha1 now key w n = (n', r)" "SHA1 sha1 key \<noteq> k"
  shows "\<exists>d'. node_bstor n' = Some d' \<and> durable db d' k v"
proof -
  let ?e = "local_entry now (node_id n) (SHA1 sha1 key) w"
  obtain st e where st: "stores db d st" "kv_lookup st k = Some e" "Value e = string_bytes v" "TTL e = 0"
    using assms(2) by (auto simp: durable_def)
  obtain d' where d': "Badger_Put db (Some ?e) d = (d', r)" "node_bstor n' = Some d'"
    using node_put_effect [OF assms(4)] assms(3) by (auto simp: persist_def split: prod.splits)
  have "\<exists>st'. stores db d' st' \<and> kv_lookup st' k = Some e"
  proof (cases r)
    case (Inl err)
    with d'(1) have "stores db d' st" using stores_Put(2) [OF assms(1) st(1)] by (metis local_entry_simps(4))
    with st(2) show ?thesis by blast
  next
    case (Inr u)
    then have "stores db d' (Put ?e st)" using stores_Put(1) [OF assms(1) st(1) local_entry_simps(4)] d'(1) by simp
    moreover have "kv_lookup (Put ?e st) k = Some e" using st assms(5) by (simp add: stores_def kv.get_put)
    ultimately show ?thesis by blast
  qed
  with st(3,4) d'(2) show ?thesis unfolding durable_def by blast
qed

lemma durable_seed:
  assumes "db_laws db" "durable db d (SHA1 sha1 key) v" "node_store n = NewKVStore"
  shows "snd (node_get db sha1 now' key (seedFromBadger db now d n)) = Some v"
proof -
  obtain st e where st: "stores db d st" "kv_lookup st (SHA1 sha1 key) = Some e" "Value e = string_bytes v" "TTL e = 0"
    using assms(2) by (auto simp: durable_def)
  let ?es = "Badger_GetAll db now d"
  have inv: "kv_inv st" using st(1) by (simp add: stores_def)
  have es: "x \<in> set ?es \<longleftrightarrow> kv_lookup st (Key x) = Some x \<and> \<not> IsExpired now x" for x
  proof -
    have "x \<in> set (All now st) \<longleftrightarrow> (\<exists>k. kv_lookup st k = Some x) \<and> \<not> IsExpired now x"
      using inv by (force simp: All_filter kv_lookup_entry)
    then show ?thesis using stores_GetAll [OF assms(1) st(1)] stores_lookup [OF st(1)] by blast
  qed
  have key: "Key e = SHA1 sha1 key" using stores_lookup [OF st(1,2)] by simp
  have live: "\<not> IsExpired t e" for t using st(4) by (simp add: IsExpired_def)
  have e: "e \<in> set ?es" using es [of e] st(2) key live by simp
  have "kv_lookup (fold Put ?es NewKVStore) (SHA1 sha1 key) = Some e"
  proof -
    let ?m = "map_of (rev (map (\<lambda>e. (Key e, e)) ?es))"
    have "SHA1 sha1 key \<in> Key ` set ?es" using e key by (metis imageI)
    then have "?m (SHA1 sha1 key) \<noteq> None" by (simp add: map_of_eq_None_iff image_image)
    then obtain x where x: "?m (SHA1 sha1 key) = Some x" by blast
    then have "x \<in> set ?es" "Key x = SHA1 sha1 key" by (auto dest!: map_of_SomeD)
    then have "x = e" using es [of x] st(2) by simp
    with x show ?thesis by (simp add: kv.get_puts map_add_def)
  qed
  then have "Get now' (fold Put ?es NewKVStore) (SHA1 sha1 key) = Some e" using live by (simp add: Get_lookup)
  moreover have "node_store (seedFromBadger db now d n) = fold Put ?es NewKVStore"
    using e assms(3) by (cases n) (auto simp: seedFromBadger_def node_store_def Let_def)
  ultimately show ?thesis using node_get_cached [of now' "seedFromBadger db now d n" sha1 key e db] st(3) by (simp add: bytes_back)
qed

section \<open>Durability\<close>

fun serve_all :: "'d BadgerDB \<Rightarrow> sha1_fn \<Rightarrow> string \<Rightarrow> (time \<times> node_request) list \<Rightarrow> 'd dhtNode \<Rightarrow> 'd dhtNode" where
  "serve_all db sha1 protocol [] n = n"
| "serve_all db sha1 protocol ((now, r) # rs) n = serve_all db sha1 protocol rs (fst (node_serve db sha1 protocol now r n))"

lemma durable_serve:
  assumes "db_laws db" "durable db d k v" "node_bstor n = Some d" "\<forall>key w. hr_Body r = Inr (key, w) \<longrightarrow> SHA1 sha1 key \<noteq> k"
  shows "\<exists>d'. node_bstor (fst (node_serve db sha1 protocol now r n)) = Some d' \<and> durable db d' k v"
proof -
  have "node_bstor (fst (node_serve db sha1 protocol now r n)) = node_bstor n \<or>
    (\<exists>key w x. hr_Body r = Inr (key, w) \<and> node_put db sha1 now key w n = (fst (node_serve db sha1 protocol now r n), x))"
    by (auto simp: node_serve_def handleHealth_def handleKVPost_def handleKVGet_def Let_def dest: node_get_bstor
        split: prod.splits sum.splits option.splits)
  then show ?thesis
  proof
    assume "\<exists>key w x. hr_Body r = Inr (key, w) \<and> node_put db sha1 now key w n = (fst (node_serve db sha1 protocol now r n), x)"
    then obtain key w x where "hr_Body r = Inr (key, w)" "node_put db sha1 now key w n = (fst (node_serve db sha1 protocol now r n), x)" by blast
    with durable_other [OF assms(1-3)] assms(4) show ?thesis by blast
  qed (use assms(2,3) in auto)
qed

lemma durable_serve_all:
  assumes "db_laws db" "durable db d k v" "node_bstor n = Some d"
    and "\<forall>(t, r) \<in> set rs. \<forall>key w. hr_Body r = Inr (key, w) \<longrightarrow> SHA1 sha1 key \<noteq> k"
  shows "\<exists>d'. node_bstor (serve_all db sha1 protocol rs n) = Some d' \<and> durable db d' k v"
  using assms(2-4)
proof (induction rs arbitrary: n d)
  case (Cons tr rs)
  obtain t r where tr: "tr = (t, r)" by (cases tr)
  have "\<forall>key w. hr_Body r = Inr (key, w) \<longrightarrow> SHA1 sha1 key \<noteq> k" using Cons.prems(3) tr by simp
  from durable_serve [OF assms(1) Cons.prems(1,2) this] obtain d1
    where "node_bstor (fst (node_serve db sha1 protocol t r n)) = Some d1" "durable db d1 k v" by blast
  from Cons.IH [OF this(2,1)] Cons.prems(3) show ?case by (simp add: tr)
qed auto

lemma node_start_seeded:
  assumes "node_start db sha1 now addr flagProtocol (Some (path, Inr d)) listen = Inr (t, n)"
  shows "\<exists>n0. n = seedFromBadger db now d n0 \<and> node_store n0 = NewKVStore"
  using assms
  by (auto simp: node_start_def Badger_New_def Let_def node_store_def newChordWrapper_def newKademliaWrapper_def NewChordNode_def NewKademliaNode_def
      split: if_splits prod.splits sum.splits)

text \<open>
  C19. Durability. A value that a node with a data directory has acknowledged over HTTP (201) survives
  the process: whatever other requests the node serves before it ends, a process started on the same
  directory, under any address and either protocol, answers a read of the key with the value, provided
  no later request wrote a key of the same hash.
\<close>

theorem node_restart_keeps_values:
  assumes "db_laws db" "stores db d st" "node_bstor n = Some d"
    and "node_serve db sha1 protocol now \<lparr>hr_Method = ''POST'', hr_Path = ''/kv'', hr_Body = Inr (key, v)\<rparr> n = (n1, 201, b)"
    and "\<forall>(t, r) \<in> set rs. \<forall>key' w. hr_Body r = Inr (key', w) \<longrightarrow> SHA1 sha1 key' \<noteq> SHA1 sha1 key"
    and "node_bstor (serve_all db sha1 protocol rs n1) = Some d2"
    and "node_start db sha1 now2 addr2 protocol2 (Some (path, Inr d2)) listen = Inr (t, n2)"
  shows "snd (node_serve db sha1 protocol3 now3 \<lparr>hr_Method = ''GET'', hr_Path = ''/kv/'' @ key, hr_Body = body\<rparr> n2) = (200, NValue key v)"
proof -
  obtain u where put: "node_put db sha1 now key v n = (n1, Inr u)" "key \<noteq> []"
    using assms(4) by (auto simp: node_serve_def handleKVPost_def split: if_splits prod.splits sum.splits)
  obtain d1 where "node_bstor n1 = Some d1" "durable db d1 (SHA1 sha1 key) v"
    using durable_put [OF assms(1-3) put(1)] by blast
  from durable_serve_all [where protocol = protocol, OF assms(1) this(2,1) assms(5)] assms(6) have "durable db d2 (SHA1 sha1 key) v" by simp
  moreover obtain n0 where "n2 = seedFromBadger db now2 d2 n0" "node_store n0 = NewKVStore"
    using node_start_seeded [OF assms(7)] by blast
  ultimately have "snd (node_get db sha1 now3 key n2) = Some v" using durable_seed [OF assms(1)] by simp
  then show ?thesis using put(2)
    by (cases "node_get db sha1 now3 key n2") (simp add: node_serve_def handleKVGet_def TrimPrefix_def)
qed

theorem node_restart_keeps_values_witness:
  "\<exists>n1 d t n2. node_serve list_db (\<lambda>bs. of_nat (length bs)) ''chord'' 5 \<lparr>hr_Method = ''POST'', hr_Path = ''/kv'', hr_Body = Inr (''k'', ''v'')\<rparr>
       (ChordW (newChordWrapper (\<lambda>bs. of_nat (length bs)) ''n:1'' (Some []))) = (n1, 201, NStored ''k'' (IDToHex 1)) \<and>
     node_bstor n1 = Some d \<and>
     node_start list_db (\<lambda>bs. of_nat (length bs)) 6 ''m:2'' ''KADEMLIA'' (Some (''data'', Inr d)) (\<lambda>_. None) = Inr (t, n2) \<and>
     snd (node_serve list_db (\<lambda>bs. of_nat (length bs)) ''kademlia'' 7 \<lparr>hr_Method = ''GET'', hr_Path = ''/kv/k'', hr_Body = Inl []\<rparr> n2) =
       (200, NValue ''k'' ''v'')"
proof -
  let ?h = "\<lambda>bs :: byte list. of_nat (length bs) :: ID"
  let ?n = "ChordW (newChordWrapper ?h ''n:1'' (Some ([] :: (string, json) gomap)))"
  let ?e = "local_entry 5 (node_id ?n) 1 ''v''"
  have ok: "json_ok (enc_entry ?e)"
    by (simp add: local_entry_def enc_entry_def enc_id_def enc_clock_def json_time_def list_all_iff)
  obtain n1 d where n1: "node_serve list_db ?h ''chord'' 5 \<lparr>hr_Method = ''POST'', hr_Path = ''/kv'', hr_Body = Inr (''k'', ''v'')\<rparr> ?n =
      (n1, 201, NStored ''k'' (IDToHex 1))" "node_bstor n1 = Some d"
  proof -
    have "snd (node_put list_db ?h 5 ''k'' ''v'' ?n) = Inr ()" "\<exists>d. node_bstor (fst (node_put list_db ?h 5 ''k'' ''v'' ?n)) = Some d"
      using ok by (simp_all add: node_put_def chord_put_def persist_def newChordWrapper_def Badger_Put_def list_db_def node_bstor_def
          node_id_def SHA1_def string_bytes_def Let_def)
    then show ?thesis
      using that by (cases "node_put list_db ?h 5 ''k'' ''v'' ?n")
        (auto simp: node_serve_def handleKVPost_def SHA1_def string_bytes_def IDToHex_def)
  qed
  have lower: "ToLower ''KADEMLIA'' = ''kademlia''" by code_simp
  have "\<exists>t n2. node_start list_db ?h 6 ''m:2'' ''KADEMLIA'' (Some (''data'', Inr d)) (\<lambda>_. None) = Inr (t, n2)"
    unfolding node_start_def lower by (simp add: Badger_New_def TCP_Register_def NewTCPTransport_def Let_def)
  then obtain t n2 where n2: "node_start list_db ?h 6 ''m:2'' ''KADEMLIA'' (Some (''data'', Inr d)) (\<lambda>_. None) = Inr (t, n2)" by blast
  have st: "stores list_db [] NewKVStore" by (simp add: stores_def list_db_view kv_lookup_def NewKVStore_def kv_inv_def)
  have bs: "node_bstor ?n = Some []" by (simp add: node_bstor_def newChordWrapper_def)
  from node_restart_keeps_values [OF list_db_laws st bs n1(1), of "[]" d 6 "''m:2''" "''KADEMLIA''" "''data''" "\<lambda>_. None" t n2 "''kademlia''" 7 "Inl []"]
  have "snd (node_serve list_db ?h ''kademlia'' 7 \<lparr>hr_Method = ''GET'', hr_Path = ''/kv/k'', hr_Body = Inl []\<rparr> n2) = (200, NValue ''k'' ''v'')"
    using n1(2) n2 by simp
  with n1 n2 show ?thesis by blast
qed

end
