(* ===== verification/Spec2Isabelle.thy ===== *)
theory Spec2Isabelle
  imports VNode_Ring CRDT_Types Chord_Lookup Chord_Invariant Gossip_Sync Gateway_Main Tcp_Lemmas Node_Process
begin

text \<open>
  A verification library for the distributed hash table of \<^verbatim>\<open>dht-system\<close>: Chord and Kademlia nodes that
  find the nodes responsible for a key, quorum replication and anti-entropy between them, an
  orchestrator that runs many nodes in one process, a gateway with a REST and a WebSocket
  interface to it, and a stand-alone node that talks TCP and keeps its data on disk.

  \<^bold>\<open>How the parts interact.\<close> A node (\<^verbatim>\<open>internal/chord\<close>, \<^verbatim>\<open>internal/kademlia\<close>) calls others through a
  transport (\<^verbatim>\<open>internal/transport\<close>), which looks the target up in a registry and runs the target's
  handler. Entries live in \<^verbatim>\<open>internal/store\<close>, with clocks and conflict resolution from
  \<^verbatim>\<open>internal/replication\<close>, whose quorum manager writes and reads through the same transport. The
  orchestrator (\<^verbatim>\<open>internal/simulation\<close>) creates nodes, places keys, injects faults and plays
  scenarios; the gateway turns requests into calls of the orchestrator, and the event bus
  (\<^verbatim>\<open>internal/events\<close>) into WebSocket messages.

  \<^bold>\<open>How the code is modelled.\<close> A Go struct is a record, an interface value with several
  implementations or a message a datatype, a \<^verbatim>\<open>[20]byte\<close> identifier a word of 160 bits, \<^verbatim>\<open>uint64\<close> a word
  of 64 bits, a map an association list with distinct keys (its order stands for one order of
  iteration), an error a value of a sum. Nodes are mutable shared objects, so a network is a
  record with a function from references to nodes, the transport, the published events and
  the time, and a call from one node to another is a nested call of the handler on this record.
  Panics and deadlocks are values (\<open>fault\<close>). SHA-1 and SHA-256, the random numbers of the
  transport, the clock, the order in which concurrent calls take effect (\<open>sched\<close>), sockets and HTTP
  delivery, the Badger database and what the rest of a process does while a scenario sleeps are
  arguments of the definitions that use them.

  \<^bold>\<open>Theories.\<close>
  \<^item> Shared: \<open>DHT_Prelude\<close> (Go's types and maps; the contracts \<open>keyed_store\<close>, \<open>bounded_log\<close> and
    \<open>replica_merge\<close>), \<open>Go_Library\<close> (\<^verbatim>\<open>sort\<close>, \<^verbatim>\<open>math/big\<close>, \<^verbatim>\<open>hex\<close>, decimal numbers), \<open>Wire\<close> (JSON, base64 and the
    contract \<open>codec\<close>).
  \<^item> \<^verbatim>\<open>internal/consistent\<close>: \<open>Consistent_Hash\<close>, \<open>VNode_Ring\<close>. \<^verbatim>\<open>internal/store\<close>: \<open>KV_Store\<close>, \<open>CRDT_Types\<close>, \<open>Merkle_Tree\<close>.
    \<^verbatim>\<open>internal/replication\<close>: \<open>Vector_Clock\<close>, \<open>Conflict\<close>, \<open>Quorum\<close> (contracts \<open>replica_cluster\<close> and \<open>available_cluster\<close>;
    \<open>Quorum_Chord\<close> and \<open>Quorum_Kad\<close> show that both kinds of network satisfy them). \<^verbatim>\<open>internal/events\<close>: \<open>Event_Bus\<close>.
  \<^item> \<^verbatim>\<open>internal/transport\<close>: \<open>Transport\<close> (in process), \<open>Tcp_Transport\<close> and \<open>Tcp_Lemmas\<close> (over TCP; contract \<open>rpc_node\<close>).
  \<^item> \<^verbatim>\<open>internal/chord\<close>: \<open>Chord\<close>; \<open>Chord_Lookup\<close> (routing), \<open>Chord_Ring\<close> (maintenance), \<open>Chord_Invariant\<close> (all steps),
    \<open>Chord_Frame\<close> (contract \<open>chord_kept\<close>: what a step can do at all).
  \<^item> \<^verbatim>\<open>internal/kademlia\<close> and \<^verbatim>\<open>internal/gossip\<close>: \<open>Kad_Routing\<close>, \<open>Kademlia\<close>, \<open>Anti_Entropy\<close>, \<open>Gossip\<close>; \<open>Kad_Lookup\<close> (results of
    lookups; contract \<open>lookup_round\<close>), \<open>Kad_Network\<close> (all steps), \<open>Kad_Progress\<close> (termination; contract
    \<open>small_round\<close>), \<open>Kad_Frame\<close> (contract \<open>kad_kept\<close>), \<open>Gossip_Sync\<close> (what a round achieves).
  \<^item> \<^verbatim>\<open>internal/simulation\<close>: \<open>Orchestrator\<close>, \<open>Scenarios\<close>; \<open>Orch_Invariant\<close> (the books of the orchestrator; contract
    \<open>kept_cluster\<close>), \<open>Orch_Clients\<close> (reads, writes, lookups, deletion), \<open>Orch_Startup\<close> (starting nodes),
    \<open>Scenario_Lemmas\<close> (contract \<open>scenario_kept\<close>).
  \<^item> \<^verbatim>\<open>gateway\<close> and \<^verbatim>\<open>cmd/gateway\<close>: \<open>Gateway\<close> (middleware, API types), \<open>Gateway_Rest\<close> (handlers, routes), \<open>WebSocket_Hub\<close>,
    \<open>Gateway_Main\<close>; \<open>Gateway_Admission\<close> (limits, validation), \<open>Gateway_Lemmas\<close> (all requests; contract \<open>read_kept\<close>),
    \<open>Gateway_Effects\<close> (what particular requests do).
  \<^item> \<^verbatim>\<open>cmd/node\<close> and \<^verbatim>\<open>internal/badgerstore\<close>: \<open>Node_Process\<close>, \<open>Badger_Store\<close>.

  \<^bold>\<open>What is shown.\<close> Each component has its invariant and the behaviour of its operations; the
  properties (numbered C1 to C40 where they stand) combine them:
  \<^item> routing: Chord lookups are correct on consistent rings and logarithmic with exact fingers (C1,
    C30), a joined node is linked in by two rounds (C31), Kademlia lookups are sorted, bounded and
    sound (C2, C32), return in small networks (C29) and can block in larger ones (C40);
  \<^item> runs: every interleaving of operations keeps Chord networks, Kademlia networks, the
    orchestrator and the gateway well-formed (C27, C28, C5, C8);
  \<^item> data: quorum intersection (C3), conflict resolution (C37), the set type (C38), Merkle trees and
    anti-entropy (C26, C34, C35), the persistent store and restarts (C22, C19);
  \<^item> clients: insert, read, lookup, placement, deletion (C4, C6, C7, C33), through the API (C9 to C18);
  \<^item> messages: the event bus (C39), the WebSocket hub (C23, C24), calls over TCP (C20, C21);
  \<^item> local algorithms: the virtual-node ring (C25), bucket updates (C36).

  \<^bold>\<open>Bounds and fuel.\<close> A Chord lookup is a chain of remote calls that the code bounds only by time-outs, so
  \<open>FindSuccessor\<close> and what uses it take fuel, the depth of nested calls, and return \<open>None\<close> when it is
  used up. On a consistent ring as much fuel as there are members is enough (C1), and 161 with
  exact fingers (C30); properties of other states say what holds when an operation returns. The
  iterative lookups of Kademlia need no fuel: each round asks an identifier not asked before, and
  nested pings lock one more bucket each. Buffer sizes (1000 and 256 events, 500 of history, 256
  messages per client, 160 buckets and fingers) are those of the code.

  \<^bold>\<open>Limits of the model.\<close>
  \<^item> An operation of a node, the orchestrator or the gateway is one step; operations interleave
    between, not inside each other, except for the goroutines of the event bus and the hub,
    whose steps are single channel operations. Where this hides a race, it is stated apart: two
    interleaved \<^verbatim>\<open>SpawnNode\<close> of one address (\<open>Orch_Startup\<close>), and a nested ping into a locked bucket (C40).
  \<^item> The goroutine that repairs stale replicas after a read is a queued task of the orchestrator
    (\<open>o_repairs\<close>), which \<open>run_repair\<close> executes as a step of its own: a read itself writes no store, and
    C13 says what the queued task can write.
  \<^item> Chord and Kademlia nodes of an orchestrator are kept in two functions from addresses, and a call
    between nodes uses that of the caller's protocol, whichever kind is registered. This differs
    from the code only in a network with nodes of both protocols, which takes a direct
    \<^verbatim>\<open>UpdateConfig\<close> of the protocol between two spawns: the gateway resets the network when it
    changes the protocol of one that has nodes.
  \<^item> Over TCP a handler that panics or blocks yields what the parameter \<open>broken\<close> says of the HTTP
    client: an error text, and whatever state the cut-off handler leaves.
  \<^item> A time-out is a failed call of the transport; a sleep of a scenario is an arbitrary function on
    the orchestrator with the stated rely conditions. Loss and latency rates are rationals.
  \<^item> Not modelled: \<^verbatim>\<open>IDToFloat64\<close> (rounding of floats), logging, signal handling, flags and the choice
    of free ports, static files, the start-up and shutdown of HTTP servers, ping frames and
    read deadlines of WebSockets, and the generated code in \<^verbatim>\<open>proto/gen\<close>.
\<close>

end
